(* ===== verification/Prelude.thy ===== *)
theory Prelude
  imports Main "HOL-Library.Word"
begin

unbundle bit_operations_syntax

text \<open>
  Shared vocabulary of the mosmos development: the machine types of \<^verbatim>\<open>kernel/lib/types.h\<close>, the
  result type of kernel operations, the part of the machine every component touches (flags
  register, port output, byte memory, list links), and the generic lemmas the component theories
  share.

  A kernel operation is a function from the kernel state to a result. \<open>Inr\<close> carries the returned
  value and the new state; \<open>Inl\<close> says that control never comes back to the caller: the code called
  \<open>panic\<close>, followed a null pointer, left the bounds of an array, or entered a loop that never ends.
\<close>

type_synonym u8 = "8 word"
type_synonym u16 = "16 word"
type_synonym u32 = "32 word"
type_synonym u64 = "64 word"
type_synonym addr = "64 word"

datatype fault = Panic | NullPtr | OutOfRange | Diverges

type_synonym 'a res = "fault + 'a"

definition bindr :: "'a res \<Rightarrow> ('a \<Rightarrow> 'b res) \<Rightarrow> 'b res" where
  "bindr m f = (case m of Inl e \<Rightarrow> Inl e | Inr x \<Rightarrow> f x)"

named_theorems machine_simps \<open>unfolding of the machine primitives and of console output\<close>

lemma bindr_simps [simp]:
  "bindr (Inl e) f = Inl e"
  "bindr (Inr x) f = f x"
  by (simp_all add: bindr_def)

lemma bindr_assoc: "bindr (bindr m f) g = bindr m (\<lambda>x. bindr (f x) g)"
  by (cases m) simp_all

lemma bindr_eq_Inr: "bindr m f = Inr y \<longleftrightarrow> (\<exists>x. m = Inr x \<and> f x = Inr y)"
  by (cases m) auto

lemma bindr_InrE [elim!]:
  assumes "bindr m f = Inr y"
  obtains x where "m = Inr x" and "f x = Inr y"
  using assms by (auto simp: bindr_eq_Inr)

text \<open>Array accesses: an index outside the array is a fault of its own.\<close>

definition arr_get :: "'a list \<Rightarrow> nat \<Rightarrow> 'a res" where
  "arr_get xs i = (if i < length xs then Inr (xs ! i) else Inl OutOfRange)"

definition arr_set :: "'a list \<Rightarrow> nat \<Rightarrow> 'a \<Rightarrow> 'a list res" where
  "arr_set xs i v = (if i < length xs then Inr (xs[i := v]) else Inl OutOfRange)"

lemma arr_get_in [simp]: "i < length xs \<Longrightarrow> arr_get xs i = Inr (xs ! i)"
  by (simp add: arr_get_def)

lemma arr_set_in [simp]: "i < length xs \<Longrightarrow> arr_set xs i v = Inr (xs[i := v])"
  by (simp add: arr_set_def)

text \<open>A \<open>for\<close> loop over a fixed list of indices; the body may fail.\<close>

fun for_list :: "'i list \<Rightarrow> ('i \<Rightarrow> 's \<Rightarrow> 's res) \<Rightarrow> 's \<Rightarrow> 's res" where
  "for_list [] body s = Inr s"
| "for_list (i # is) body s = bindr (body i s) (for_list is body)"

lemma for_list_append: "for_list (xs @ ys) body s = bindr (for_list xs body s) (for_list ys body)"
  by (induction xs arbitrary: s) (auto simp: bindr_def split: sum.splits)

section \<open>The machine\<close>

text \<open>
  \<open>rflags\<close> is the flags register (bit 9 is the interrupt flag), \<open>io_log\<close> the sequence of port writes,
  \<open>mem8\<close> the bytes of packet and user buffers, \<open>links\<close> the \<open>next\<close> field of the \<open>list_item\<close> that every
  allocated list object starts with. Structures are kept field by field (one store per field or
  per structure type), which is sound because every object lives in a block of its own.
\<close>

datatype io_event = Out8 u16 u8 | Out16 u16 u16 | Out32 u16 u32

record machine =
  rflags :: u64
  io_log :: "io_event list"
  mem8 :: "addr \<Rightarrow> u8"
  links :: "addr \<Rightarrow> addr option"

definition RFLAGS_IF :: u64 where
  "RFLAGS_IF = 0x200"

definition get_rflags :: "'a machine_scheme \<Rightarrow> u64" where
  "get_rflags s = rflags s"

definition set_rflags :: "u64 \<Rightarrow> 'a machine_scheme \<Rightarrow> 'a machine_scheme" where
  "set_rflags f s = s\<lparr>rflags := f\<rparr>"

definition io_cli :: "'a machine_scheme \<Rightarrow> 'a machine_scheme" where
  "io_cli s = s\<lparr>rflags := rflags s AND NOT RFLAGS_IF\<rparr>"

definition io_sti :: "'a machine_scheme \<Rightarrow> 'a machine_scheme" where
  "io_sti s = s\<lparr>rflags := rflags s OR RFLAGS_IF\<rparr>"

definition io_out8 :: "u16 \<Rightarrow> u8 \<Rightarrow> 'a machine_scheme \<Rightarrow> 'a machine_scheme" where
  "io_out8 port data s = s\<lparr>io_log := io_log s @ [Out8 port data]\<rparr>"

definition io_out16 :: "u16 \<Rightarrow> u16 \<Rightarrow> 'a machine_scheme \<Rightarrow> 'a machine_scheme" where
  "io_out16 port data s = s\<lparr>io_log := io_log s @ [Out16 port data]\<rparr>"

definition io_out32 :: "u16 \<Rightarrow> u32 \<Rightarrow> 'a machine_scheme \<Rightarrow> 'a machine_scheme" where
  "io_out32 port data s = s\<lparr>io_log := io_log s @ [Out32 port data]\<rparr>"

lemmas rflags_defs [machine_simps] = get_rflags_def set_rflags_def io_cli_def io_sti_def

lemmas io_defs [machine_simps] = io_out8_def io_out16_def io_out32_def

definition interrupts_on :: "'a machine_scheme \<Rightarrow> bool" where
  "interrupts_on s = (rflags s AND RFLAGS_IF \<noteq> 0)"

lemma cli_masks: "\<not> interrupts_on (io_cli s)"
  by (simp add: interrupts_on_def io_cli_def RFLAGS_IF_def and.assoc)

lemma cli_sti: "interrupts_on (io_sti s)"
  by (simp add: interrupts_on_def io_sti_def RFLAGS_IF_def bit.conj_disj_distrib2)

section \<open>Generic lemmas\<close>

lemma take_Suc_snoc: "i < length xs \<Longrightarrow> take (Suc i) xs = take i xs @ [xs ! i]"
  by (rule take_Suc_conv_app_nth)

lemma take_list_update_snoc:
  "i < length xs \<Longrightarrow> take (Suc i) (xs[i := v]) = take i xs @ [v]"
  by (simp add: take_Suc_conv_app_nth)

lemma unat_of_nat16: "n < 65536 \<Longrightarrow> unat (of_nat n :: u16) = n"
  by (simp add: unat_of_nat take_bit_nat_eq_self_iff)

lemma unat_of_nat32: "n < 4294967296 \<Longrightarrow> unat (of_nat n :: u32) = n"
  by (simp add: unat_of_nat take_bit_nat_eq_self_iff)

lemma unat_of_nat64: "n < 18446744073709551616 \<Longrightarrow> unat (of_nat n :: u64) = n"
  by (simp add: unat_of_nat take_bit_nat_eq_self_iff)

lemma of_nat16_eq_0: "n < 65536 \<Longrightarrow> (of_nat n :: u16) = 0 \<longleftrightarrow> n = 0"
  by (auto simp: word_of_nat_eq_0_iff dest: dvd_imp_le)

lemma ucast_of_nat32: "n < 4294967296 \<Longrightarrow> (ucast (of_nat n :: u32) :: u64) = of_nat n"
  by (simp add: unsigned_of_nat take_bit_nat_eq_self)

lemma of_nat64_eq_iff:
  assumes "m < 18446744073709551616" and "n < 18446744073709551616"
  shows "(of_nat m :: u64) = of_nat n \<longleftrightarrow> m = n"
  using assms by (metis unat_of_nat64)

end
