(* ===== verification/CLib.thy ===== *)
theory CLib
  imports Prelude
begin

text \<open>
  \<^verbatim>\<open>kernel/lib/lib.c\<close>: the freestanding C library of the kernel, over a byte memory
  \<open>addr \<Rightarrow> u8\<close>. Loops run over the byte index; the index is a natural number, which is exact for
  every object of fewer than \<open>2 ^ 31\<close> bytes. \<open>strlen\<close> and \<open>strcmp\<close> have no bound in the source: they
  are partial, and \<open>None\<close> says that the loop never ends.
\<close>

type_synonym bytes = "addr \<Rightarrow> u8"

section \<open>Memory and strings\<close>

function memcpy_loop :: "nat \<Rightarrow> nat \<Rightarrow> addr \<Rightarrow> addr \<Rightarrow> bytes \<Rightarrow> bytes" where
  "memcpy_loop i sz dst src m =
     (if i < sz
      then memcpy_loop (Suc i) sz dst src (m(dst + of_nat i := m (src + of_nat i)))
      else m)"
  by pat_completeness auto
termination
  by (relation "measure (\<lambda>(i, sz, _). sz - i)") auto

declare memcpy_loop.simps [simp del]

definition memcpy :: "addr \<Rightarrow> addr \<Rightarrow> u32 \<Rightarrow> bytes \<Rightarrow> bytes" where
  "memcpy dst src sz m = memcpy_loop 0 (unat sz) dst src m"

function memset_loop :: "nat \<Rightarrow> nat \<Rightarrow> addr \<Rightarrow> u8 \<Rightarrow> bytes \<Rightarrow> bytes" where
  "memset_loop i sz dst val m =
     (if i < sz then memset_loop (Suc i) sz dst val (m(dst + of_nat i := val)) else m)"
  by pat_completeness auto
termination
  by (relation "measure (\<lambda>(i, sz, _). sz - i)") auto

declare memset_loop.simps [simp del]

definition memset :: "addr \<Rightarrow> u8 \<Rightarrow> u32 \<Rightarrow> bytes \<Rightarrow> bytes" where
  "memset dst val sz m = memset_loop 0 (unat sz) dst val m"

function strncpy_loop :: "nat \<Rightarrow> nat \<Rightarrow> addr \<Rightarrow> addr \<Rightarrow> bytes \<Rightarrow> bytes" where
  "strncpy_loop i sz dst src m =
     (if m (src + of_nat i) \<noteq> 0 \<and> i < sz
      then strncpy_loop (Suc i) sz dst src (m(dst + of_nat i := m (src + of_nat i)))
      else m)"
  by pat_completeness auto
termination
  by (relation "measure (\<lambda>(i, sz, _). sz - i)") auto

declare strncpy_loop.simps [simp del]

definition strncpy :: "addr \<Rightarrow> addr \<Rightarrow> u32 \<Rightarrow> bytes \<Rightarrow> bytes" where
  "strncpy dst src sz m = strncpy_loop 0 (unat sz) dst src m"

partial_function (option) strlen_loop :: "bytes \<Rightarrow> addr \<Rightarrow> u32 \<Rightarrow> u32 option" where
  "strlen_loop m str len =
     (if m (str + ucast len) \<noteq> 0 then strlen_loop m str (len + 1) else Some len)"

definition strlen :: "addr \<Rightarrow> bytes \<Rightarrow> u32 option" where
  "strlen str m = strlen_loop m str 0"

partial_function (option) strcmp_loop :: "bytes \<Rightarrow> addr \<Rightarrow> addr \<Rightarrow> nat \<Rightarrow> nat option" where
  "strcmp_loop m str1 str2 pos =
     (if m (str1 + of_nat pos) = m (str2 + of_nat pos) then strcmp_loop m str1 str2 (Suc pos)
      else Some pos)"

definition strcmp :: "addr \<Rightarrow> addr \<Rightarrow> bytes \<Rightarrow> int option" where
  "strcmp str1 str2 m =
     map_option (\<lambda>pos. if m (str1 + of_nat pos) = 0 \<and> m (str2 + of_nat pos) = 0 then 1 else 0)
       (strcmp_loop m str1 str2 0)"

function strncmp_loop :: "nat \<Rightarrow> nat \<Rightarrow> addr \<Rightarrow> addr \<Rightarrow> bytes \<Rightarrow> int" where
  "strncmp_loop i len str1 str2 m =
     (if i < len
      then if m (str1 + of_nat i) \<noteq> m (str2 + of_nat i) then 0
           else strncmp_loop (Suc i) len str1 str2 m
      else 1)"
  by pat_completeness auto
termination
  by (relation "measure (\<lambda>(i, len, _). len - i)") auto

declare strncmp_loop.simps [simp del]

definition strncmp :: "addr \<Rightarrow> addr \<Rightarrow> u32 \<Rightarrow> bytes \<Rightarrow> int" where
  "strncmp str1 str2 len m = strncmp_loop 0 (unat len) str1 str2 m"

definition max_uint32 :: "u32 \<Rightarrow> u32 \<Rightarrow> u32" where
  "max_uint32 num1 num2 = (if num1 > num2 then num1 else num2)"

definition min_uint32 :: "u32 \<Rightarrow> u32 \<Rightarrow> u32" where
  "min_uint32 num1 num2 = (if num1 > num2 then num2 else num1)"

definition min_int :: "int \<Rightarrow> int \<Rightarrow> int" where
  "min_int num1 num2 = (if num1 > num2 then num2 else num1)"

section \<open>Regions and C strings\<close>

definition bytes_at :: "bytes \<Rightarrow> addr \<Rightarrow> nat \<Rightarrow> u8 list" where
  "bytes_at m a n = map (\<lambda>i. m (a + of_nat i)) [0..<n]"

definition region :: "addr \<Rightarrow> nat \<Rightarrow> addr set" where
  "region a n = (\<lambda>i. a + of_nat i) ` {..<n}"

definition cstr :: "bytes \<Rightarrow> addr \<Rightarrow> u8 list \<Rightarrow> bool" where
  "cstr m a xs = (bytes_at m a (Suc (length xs)) = xs @ [0] \<and> 0 \<notin> set xs)"

lemma length_bytes_at [simp]: "length (bytes_at m a n) = n"
  by (simp add: bytes_at_def)

lemma nth_bytes_at [simp]: "i < n \<Longrightarrow> bytes_at m a n ! i = m (a + of_nat i)"
  by (simp add: bytes_at_def)

lemma bytes_at_append: "bytes_at m a (i + n) = bytes_at m a i @ bytes_at m (a + of_nat i) n"
  by (rule nth_equalityI) (auto simp: nth_append add.assoc simp flip: of_nat_add)

lemma bytes_at_cong:
  "(\<And>i. i < n \<Longrightarrow> m (a + of_nat i) = m' (b + of_nat i)) \<Longrightarrow> bytes_at m a n = bytes_at m' b n"
  by (simp add: bytes_at_def)

lemma in_region: "i < n \<Longrightarrow> a + of_nat i \<in> region a n"
  by (auto simp: region_def)

lemma offset_inj:
  "i < 18446744073709551616 \<Longrightarrow> j < 18446744073709551616 \<Longrightarrow>
   a + (of_nat i :: addr) = a + of_nat j \<longleftrightarrow> i = j"
  by (simp add: of_nat64_eq_iff)

lemma offset_neq:
  "i < 18446744073709551616 \<Longrightarrow> j < 18446744073709551616 \<Longrightarrow> i \<noteq> j \<Longrightarrow> a + (of_nat i :: addr) \<noteq> a + of_nat j"
  using offset_inj [of i j a] by blast

lemma offset_outside: "h \<le> j \<Longrightarrow> j < 18446744073709551616 \<Longrightarrow> b + of_nat j \<notin> region b h"
  using offset_neq [of j _ b] by (auto simp: region_def)

lemma unat_u32_lt: "unat (n :: u32) < 4294967296"
  using unsigned_less [of n] by simp

lemma memcpy_loop_spec:
  assumes "sz \<le> 4294967296" and "region dst sz \<inter> region src sz = {}" and "i \<le> sz"
  shows "(\<forall>j. i \<le> j \<and> j < sz \<longrightarrow> memcpy_loop i sz dst src m (dst + of_nat j) = m (src + of_nat j)) \<and>
         (\<forall>a. (\<forall>j. i \<le> j \<and> j < sz \<longrightarrow> a \<noteq> dst + of_nat j) \<longrightarrow> memcpy_loop i sz dst src m a = m a)"
  using assms
proof (induction i sz dst src m rule: memcpy_loop.induct)
  case (1 i sz dst src m)
  show ?case
  proof (cases "i < sz")
    case False
    then show ?thesis by (auto simp: memcpy_loop.simps [of i])
  next
    case True
    let ?m = "m(dst + of_nat i := m (src + of_nat i))"
    have IH: "\<And>j. Suc i \<le> j \<Longrightarrow> j < sz \<Longrightarrow>
        memcpy_loop (Suc i) sz dst src ?m (dst + of_nat j) = ?m (src + of_nat j)"
      "\<And>a. (\<forall>j. Suc i \<le> j \<and> j < sz \<longrightarrow> a \<noteq> dst + of_nat j) \<Longrightarrow>
        memcpy_loop (Suc i) sz dst src ?m a = ?m a"
      using "1.IH" [OF True] True "1.prems" by (auto simp del: fun_upd_apply)
    have src: "?m (src + of_nat j) = m (src + of_nat j)" if "j < sz" for j
      using that True "1.prems"(2) in_region [of i sz dst] in_region [of j sz src] by auto
    have fresh: "\<forall>j. Suc i \<le> j \<and> j < sz \<longrightarrow> dst + (of_nat i :: addr) \<noteq> dst + of_nat j"
      using True "1.prems"(1) offset_inj [of i _ dst] by auto
    have eq: "memcpy_loop i sz dst src m = memcpy_loop (Suc i) sz dst src ?m"
      using True by (simp add: memcpy_loop.simps [of i])
    show ?thesis
    proof (intro conjI allI impI)
      fix j
      assume j: "i \<le> j \<and> j < sz"
      show "memcpy_loop i sz dst src m (dst + of_nat j) = m (src + of_nat j)"
        unfolding eq using IH(2) [OF fresh] IH(1) [of j] src [of j] j by (cases "j = i") auto
    next
      fix a
      assume a: "\<forall>j. i \<le> j \<and> j < sz \<longrightarrow> a \<noteq> dst + of_nat j"
      then show "memcpy_loop i sz dst src m a = m a"
        unfolding eq using IH(2) [of a] True by auto
    qed
  qed
qed

text \<open>\<open>memcpy\<close> between disjoint regions copies the bytes and changes nothing else.\<close>

lemma memcpy_copies:
  assumes "region dst (unat sz) \<inter> region src (unat sz) = {}"
  shows "bytes_at (memcpy dst src sz m) dst (unat sz) = bytes_at m src (unat sz)"
  using memcpy_loop_spec [OF less_imp_le [OF unat_u32_lt] assms, of 0 m]
  by (auto simp: memcpy_def intro: bytes_at_cong)

lemma memcpy_frame:
  assumes "region dst (unat sz) \<inter> region src (unat sz) = {}" and "a \<notin> region dst (unat sz)"
  shows "memcpy dst src sz m a = m a"
  using memcpy_loop_spec [OF less_imp_le [OF unat_u32_lt] assms(1), of 0 m] assms(2)
  by (auto simp: memcpy_def region_def)

lemma memset_loop_spec:
  assumes "sz \<le> 4294967296" and "i \<le> sz"
  shows "memset_loop i sz dst v m a =
           (if \<exists>j. i \<le> j \<and> j < sz \<and> a = dst + of_nat j then v else m a)"
  using assms
proof (induction i sz dst v m rule: memset_loop.induct)
  case (1 i sz dst v m)
  show ?case
  proof (cases "i < sz")
    case False
    then show ?thesis by (auto simp: memset_loop.simps [of i])
  next
    case True
    have split: "(\<exists>j. i \<le> j \<and> j < sz \<and> a = dst + of_nat j) \<longleftrightarrow>
        a = dst + of_nat i \<or> (\<exists>j. Suc i \<le> j \<and> j < sz \<and> a = dst + of_nat j)"
      using True by (metis Suc_leI le_eq_less_or_eq Suc_le_lessD)
    have IH: "memset_loop (Suc i) sz dst v (m(dst + of_nat i := v)) a =
        (if \<exists>j. Suc i \<le> j \<and> j < sz \<and> a = dst + of_nat j then v else (m(dst + of_nat i := v)) a)"
      using True "1.prems" by (intro "1.IH") auto
    have eq: "memset_loop i sz dst v m = memset_loop (Suc i) sz dst v (m(dst + of_nat i := v))"
      using True by (simp add: memset_loop.simps [of i])
    show ?thesis unfolding eq IH split by auto
  qed
qed

lemma memset_spec: "memset dst v sz m a = (if a \<in> region dst (unat sz) then v else m a)"
  using memset_loop_spec [OF less_imp_le [OF unat_u32_lt], of 0 sz dst v m a]
  by (auto simp: memset_def region_def)

lemma cstr_nth:
  assumes "cstr m a xs"
  shows "i < length xs \<Longrightarrow> m (a + of_nat i) = xs ! i \<and> xs ! i \<noteq> 0"
    and "m (a + of_nat (length xs)) = 0"
proof -
  have b: "bytes_at m a (Suc (length xs)) = xs @ [0]" and nz: "0 \<notin> set xs"
    using assms by (auto simp: cstr_def)
  show "m (a + of_nat (length xs)) = 0"
    using arg_cong [OF b, of "\<lambda>ys. ys ! length xs"] by (simp del: of_nat_Suc)
  show "i < length xs \<Longrightarrow> m (a + of_nat i) = xs ! i \<and> xs ! i \<noteq> 0"
    using arg_cong [OF b, of "\<lambda>ys. ys ! i"] nz nth_mem [of i xs]
    by (auto simp: nth_append simp del: nth_mem)
qed

lemma strlen_loop_cstr:
  assumes "cstr m a xs" and "length xs < 4294967296" and "i \<le> length xs"
  shows "strlen_loop m a (of_nat i) = Some (of_nat (length xs))"
  using assms(3)
proof (induction "length xs - i" arbitrary: i)
  case 0
  then have i: "i = length xs" by simp
  then show ?case
    using cstr_nth(2) [OF assms(1)] assms(2)
    by (simp add: strlen_loop.simps [of m a "of_nat (length xs)"] ucast_of_nat32)
next
  case (Suc k)
  then have i: "i < length xs" by simp
  have "m (a + ucast (of_nat i :: u32)) \<noteq> 0"
    using cstr_nth(1) [OF assms(1) i] i assms(2) by (simp add: ucast_of_nat32)
  moreover have "strlen_loop m a (of_nat (Suc i)) = Some (of_nat (length xs))"
    using Suc i by (intro Suc.hyps(1)) auto
  ultimately show ?case by (simp add: strlen_loop.simps [of m a "of_nat i"] add.commute)
qed

lemma strlen_cstr:
  "cstr m a xs \<Longrightarrow> length xs < 4294967296 \<Longrightarrow> strlen a m = Some (of_nat (length xs))"
  using strlen_loop_cstr [of m a xs 0] by (simp add: strlen_def)

lemma strncmp_loop_spec:
  "strncmp_loop i len a b m =
     (if \<forall>j. i \<le> j \<and> j < len \<longrightarrow> m (a + of_nat j) = m (b + of_nat j) then 1 else 0)"
proof (induction i len a b m rule: strncmp_loop.induct)
  case (1 i len a b m)
  have split: "(\<forall>j. i \<le> j \<and> j < len \<longrightarrow> m (a + of_nat j) = m (b + of_nat j)) \<longleftrightarrow>
      (i < len \<longrightarrow> m (a + of_nat i) = m (b + of_nat i)) \<and>
      (\<forall>j. Suc i \<le> j \<and> j < len \<longrightarrow> m (a + of_nat j) = m (b + of_nat j))"
    by (metis Suc_leI le_eq_less_or_eq Suc_leD)
  show ?case
    using 1 unfolding split by (auto simp: strncmp_loop.simps [of i])
qed

lemma strncmp_iff:
  "strncmp a b len m = (if bytes_at m a (unat len) = bytes_at m b (unat len) then 1 else 0)"
  by (auto simp: strncmp_def strncmp_loop_spec bytes_at_def)

text \<open>
  \<open>strcmp\<close> only leaves its loop at a position where the strings differ, so its final test, that both
  bytes there are zero, never holds: the function never reports equality.
\<close>

lemma strcmp_loop_differs:
  assumes "strcmp_loop m a b i = Some pos"
  shows "m (a + of_nat pos) \<noteq> m (b + of_nat pos)"
proof (rule strcmp_loop.raw_induct [where P = "\<lambda>m a b i pos. m (a + of_nat pos) \<noteq> m (b + of_nat pos)",
      OF _ assms])
  fix f m a b i pos
  assume IH: "\<And>m a b i pos. f m a b i = Some pos \<Longrightarrow> m (a + of_nat pos) \<noteq> m (b + of_nat pos)"
    and eq: "(if m (a + of_nat i) = m (b + of_nat i) then f m a b (Suc i) else Some i) = Some pos"
  show "m (a + of_nat pos) \<noteq> m (b + of_nat pos)"
    using eq IH by (auto split: if_splits)
qed

section \<open>Properties\<close>

text \<open>
  \<open>memcpy\<close> between regions that do not overlap copies every byte and changes nothing outside the
  destination.
\<close>

theorem memcpy_correct:
  assumes "region dst (unat sz) \<inter> region src (unat sz) = {}"
  shows "bytes_at (memcpy dst src sz m) dst (unat sz) = bytes_at m src (unat sz) \<and>
         (\<forall>a. a \<notin> region dst (unat sz) \<longrightarrow> memcpy dst src sz m a = m a)"
  using memcpy_copies [OF assms] memcpy_frame [OF assms] by auto

text \<open>C32: \<open>strlen\<close> on a terminated string ends and returns its length.\<close>

theorem strlen_correct:
  assumes "cstr m a xs" and "length xs < 4294967296"
  shows "strlen a m = Some (of_nat (length xs))"
  using assms by (rule strlen_cstr)

text \<open>
  \<open>strcmp\<close> never reports equality: its loop only stops at a position where the two strings differ, so
  the test for two terminating zeros that follows it cannot succeed.
\<close>

theorem strcmp_never_equal: "strcmp a b m \<noteq> Some 1"
  using strcmp_loop_differs [of m a b 0] by (auto simp: strcmp_def)

text \<open>\<open>strncmp\<close> always ends and returns 1 exactly when the two byte ranges are equal, else 0.\<close>

theorem strncmp_correct:
  "strncmp a b len m = (if bytes_at m a (unat len) = bytes_at m b (unat len) then 1 else 0)"
  by (rule strncmp_iff)

end
