(* ===== verification/Print.thy ===== *)
theory Print
  imports CLib
begin

text \<open>
  \<^verbatim>\<open>kernel/lib/print.c\<close>: two text screens (application and log) drawn side by side into the VGA
  bitmap at \<open>0xa0000\<close>. A screen is a window of character cells, each 8 pixels (one byte) wide and 16
  rows high; a bitmap row is 80 bytes. The console state keeps both screens, the bitmap and the font
  the glyphs are copied from.

  The lemmas show that the cursor never leaves its window, that a screen only ever paints its own
  columns, that console output touches nothing but the console (every other component's state and
  the interrupt flag are as before), and that the number printers print decimal and hexadecimal.
\<close>

section \<open>Data\<close>

record SCREEN =
  sc_width :: int
  sc_height :: int
  sc_startx :: int
  sc_starty :: int
  sc_x :: int
  sc_y :: int

datatype scrid = AppScreen | LogScreen

record console =
  appscreen :: SCREEN
  logscreen :: SCREEN
  vram :: "addr \<Rightarrow> u8"
  FONT_ADR :: u64
  fontmem :: "addr \<Rightarrow> u8"

record con_state = machine +
  console :: console

definition APPSCREEN_WIDTH :: int where
  "APPSCREEN_WIDTH = 50"

definition VRAM_START :: nat where
  "VRAM_START = 0xa0000"

definition VRAM_END :: nat where
  "VRAM_END = 0xaffff"

definition get_screen :: "scrid \<Rightarrow> console \<Rightarrow> SCREEN" where
  "get_screen i c = (case i of AppScreen \<Rightarrow> appscreen c | LogScreen \<Rightarrow> logscreen c)"

definition set_screen :: "scrid \<Rightarrow> SCREEN \<Rightarrow> console \<Rightarrow> console" where
  "set_screen i sc c = (case i of AppScreen \<Rightarrow> c\<lparr>appscreen := sc\<rparr> | LogScreen \<Rightarrow> c\<lparr>logscreen := sc\<rparr>)"

section \<open>Operations\<close>

definition in_window :: "SCREEN \<Rightarrow> nat \<Rightarrow> bool" where
  "in_window sc off =
     (let px = int (off mod 80); py = int (off div (80 * 16))
      in px \<ge> sc_startx sc \<and> px < sc_startx sc + sc_width sc \<and>
         py \<ge> sc_starty sc \<and> py < sc_starty sc + sc_height sc)"

function clear_loop :: "nat \<Rightarrow> SCREEN \<Rightarrow> (addr \<Rightarrow> u8) \<Rightarrow> (addr \<Rightarrow> u8)" where
  "clear_loop p sc v =
     (if p \<le> VRAM_END
      then clear_loop (Suc p) sc (if in_window sc (p - VRAM_START) then v(of_nat p := 0) else v)
      else v)"
  by pat_completeness auto
termination
  by (relation "measure (\<lambda>(p, _). Suc VRAM_END - p)") auto

declare clear_loop.simps [simp del]

definition clear :: "SCREEN \<Rightarrow> (addr \<Rightarrow> u8) \<Rightarrow> (addr \<Rightarrow> u8)" where
  "clear sc v = clear_loop VRAM_START sc v"

definition fixpos :: "SCREEN \<Rightarrow> (addr \<Rightarrow> u8) \<Rightarrow> SCREEN \<times> (addr \<Rightarrow> u8)" where
  "fixpos sc v =
     (let sc1 = (if sc_x sc \<ge> sc_width sc then sc\<lparr>sc_y := sc_y sc + 1, sc_x := 0\<rparr> else sc)
      in if sc_y sc1 \<ge> sc_height sc1
         then (sc1\<lparr>sc_y := 0, sc_x := 0\<rparr>, clear sc1 v)
         else (sc1, v))"

fun draw_loop :: "nat \<Rightarrow> u64 \<Rightarrow> u64 \<Rightarrow> (addr \<Rightarrow> u8) \<Rightarrow> (addr \<Rightarrow> u8) \<Rightarrow> (addr \<Rightarrow> u8)" where
  "draw_loop 0 vaddr fontaddr font v = v"
| "draw_loop (Suc n) vaddr fontaddr font v =
     draw_loop n (vaddr + 80) (fontaddr + 1) font (v(vaddr := font fontaddr))"

definition con_putchar :: "scrid \<Rightarrow> u8 \<Rightarrow> console \<Rightarrow> console" where
  "con_putchar i ch c =
     (let sc = get_screen i c;
          (sc1, v1) =
            (if ch = 0x0a then (sc\<lparr>sc_x := 0, sc_y := sc_y sc + 1\<rparr>, vram c)
             else
               (let y = sc_starty sc + sc_y sc;
                    x = sc_startx sc + sc_x sc;
                    vaddr = 0xa0000 + word_of_int (80 * 16 * y) + word_of_int x;
                    fontaddr = FONT_ADR c + push_bit 4 (scast ch)
                in (sc\<lparr>sc_x := sc_x sc + 1\<rparr>, draw_loop 16 vaddr fontaddr (fontmem c) (vram c))));
          (sc2, v2) = fixpos sc1 v1
      in set_screen i sc2 (c\<lparr>vram := v2\<rparr>))"

definition putchar :: "scrid \<Rightarrow> u8 \<Rightarrow> 'a con_state_scheme \<Rightarrow> 'a con_state_scheme" where
  "putchar i ch s =
     (if ch = 0x0d then s
      else
        let rf = get_rflags s;
            s1 = io_cli s;
            s2 = s1\<lparr>console := con_putchar i ch (console s1)\<rparr>
        in set_rflags rf s2)"

fun printstr :: "scrid \<Rightarrow> u8 list \<Rightarrow> 'a con_state_scheme \<Rightarrow> 'a con_state_scheme" where
  "printstr i [] s = s"
| "printstr i (ch # str) s = printstr i str (putchar i ch s)"

definition byte_of :: "char \<Rightarrow> u8" where
  "byte_of c = of_nat (of_char c)"

definition printstr_app :: "string \<Rightarrow> 'a con_state_scheme \<Rightarrow> 'a con_state_scheme" where
  "printstr_app str s = printstr AppScreen (map byte_of str) s"

definition printstr_log :: "string \<Rightarrow> 'a con_state_scheme \<Rightarrow> 'a con_state_scheme" where
  "printstr_log str s = printstr LogScreen (map byte_of str) s"

abbreviation nl :: string where
  "nl \<equiv> [CHR 0x0A]"

text \<open>The digit loop of \<open>printnum\<close>: \<open>buf\<close> receives the digits from the least significant one.\<close>

function printnum_buf :: "u32 \<Rightarrow> u8 list" where
  "printnum_buf num =
     (if num > 0 then (48 + ucast (num mod 10)) # printnum_buf (num div 10) else [])"
  by pat_completeness auto
termination
  by (relation "measure unat") (auto simp: word_less_nat_alt unat_div word_gt_0)

declare printnum_buf.simps [simp del]

definition printnum_text :: "u32 \<Rightarrow> u8 list" where
  "printnum_text num =
     (let neg = (num < 0);
          num1 = (if neg then - num else num);
          buf = printnum_buf num1;
          len = length buf - 1
      in (if neg then [45] else []) @
         map (\<lambda>i. buf ! (len - i)) [(if neg then 1 else 0)..<Suc len])"

definition printnum :: "scrid \<Rightarrow> u32 \<Rightarrow> 'a con_state_scheme \<Rightarrow> 'a con_state_scheme" where
  "printnum i num s =
     (if num = 0 then putchar i 48 s else printstr i (printnum_text num) s)"

definition printnum_app :: "u32 \<Rightarrow> 'a con_state_scheme \<Rightarrow> 'a con_state_scheme" where
  "printnum_app num s = printnum AppScreen num s"

definition printnum_log :: "u32 \<Rightarrow> 'a con_state_scheme \<Rightarrow> 'a con_state_scheme" where
  "printnum_log num s = printnum LogScreen num s"

function printhex_buf :: "u64 \<Rightarrow> u8 list" where
  "printhex_buf num =
     (if num > 0
      then (let digit = ucast (num AND 0x0f) :: u8
            in if digit < 10 then 48 + digit else 97 + digit - 10) # printhex_buf (drop_bit 4 num)
      else [])"
  by pat_completeness auto
termination
  by (relation "measure unat")
    (auto simp: word_less_nat_alt drop_bit_eq_div unat_div word_gt_0)

declare printhex_buf.simps [simp del]

definition printhex_text :: "u64 \<Rightarrow> u8 list" where
  "printhex_text num =
     (let buf = printhex_buf num @ [120, 48]; len = length buf - 1
      in map (\<lambda>i. buf ! (len - i)) [0..<Suc len])"

definition printhex :: "scrid \<Rightarrow> u64 \<Rightarrow> 'a con_state_scheme \<Rightarrow> 'a con_state_scheme" where
  "printhex i num s = printstr i (printhex_text num) s"

definition printhex_app :: "u32 \<Rightarrow> 'a con_state_scheme \<Rightarrow> 'a con_state_scheme" where
  "printhex_app num s = printhex AppScreen (scast num) s"

definition printhex_log :: "u32 \<Rightarrow> 'a con_state_scheme \<Rightarrow> 'a con_state_scheme" where
  "printhex_log num s = printhex LogScreen (scast num) s"

function divider_loop :: "nat \<Rightarrow> (addr \<Rightarrow> u8) \<Rightarrow> (addr \<Rightarrow> u8)" where
  "divider_loop p v = (if p \<le> VRAM_END then divider_loop (p + 80 * 16) (v(of_nat p := 0x10)) else v)"
  by pat_completeness auto
termination
  by (relation "measure (\<lambda>(p, _). Suc VRAM_END - p)") auto

declare divider_loop.simps [simp del]

definition initscreen :: "'a con_state_scheme \<Rightarrow> 'a con_state_scheme" where
  "initscreen s =
     (let c = console s;
          app = \<lparr>sc_width = APPSCREEN_WIDTH, sc_height = 30, sc_startx = 0, sc_starty = 0,
                 sc_x = 0, sc_y = 0\<rparr>;
          log = \<lparr>sc_width = 80 - APPSCREEN_WIDTH - 1, sc_height = 30,
                 sc_startx = APPSCREEN_WIDTH + 1, sc_starty = 0, sc_x = 0, sc_y = 0\<rparr>;
          v = fold (\<lambda>width. divider_loop (VRAM_START + 50 + 80 * width)) [0..<3] (vram c)
      in printstr_log (''Initialized screen'' @ nl)
           (s\<lparr>console := c\<lparr>appscreen := app, logscreen := log, vram := v\<rparr>\<rparr>))"

text \<open>\<open>panic\<close> of \<^verbatim>\<open>lib.c\<close> prints on the log screen, masks interrupts and halts for ever.\<close>

definition panic :: "'a con_state_scheme \<Rightarrow> 'b res" where
  "panic s = Inl Panic"

section \<open>Console output touches the console only\<close>

lemma putchar_console: "\<exists>c. putchar i ch s = s\<lparr>console := c\<rparr>"
  by (cases s) (auto simp: putchar_def Let_def rflags_defs)

lemma printstr_console: "\<exists>c. printstr i str s = s\<lparr>console := c\<rparr>"
proof (induction str arbitrary: s)
  case Nil
  have "s = s\<lparr>console := console s\<rparr>" by simp
  then show ?case by (metis printstr.simps(1))
next
  case (Cons ch str)
  obtain c1 where "putchar i ch s = s\<lparr>console := c1\<rparr>" using putchar_console by blast
  moreover obtain c2 where "printstr i str (s\<lparr>console := c1\<rparr>) = s\<lparr>console := c1\<rparr>\<lparr>console := c2\<rparr>"
    using Cons.IH by blast
  ultimately show ?case by auto
qed

definition con_after :: "('a con_state_scheme \<Rightarrow> 'a con_state_scheme) \<Rightarrow> 'a con_state_scheme \<Rightarrow> console" where
  "con_after f s = console (f s)"

text \<open>
  The equations below let the simplifier see every print as an update of the \<open>console\<close> field, so all
  other fields are read through it without further lemmas.
\<close>

lemma console_update_eq: "\<exists>c. f s = s\<lparr>console := c\<rparr> \<Longrightarrow> f s = s\<lparr>console := con_after f s\<rparr>"
  by (auto simp: con_after_def)

lemma printstr_app_eq [machine_simps]:
  "printstr_app str s = s\<lparr>console := con_after (printstr_app str) s\<rparr>"
  by (rule console_update_eq) (simp add: printstr_app_def printstr_console)

lemma printstr_log_eq [machine_simps]:
  "printstr_log str s = s\<lparr>console := con_after (printstr_log str) s\<rparr>"
  by (rule console_update_eq) (simp add: printstr_log_def printstr_console)

lemma printnum_app_eq [machine_simps]:
  "printnum_app n s = s\<lparr>console := con_after (printnum_app n) s\<rparr>"
  by (rule console_update_eq) (simp add: printnum_app_def printnum_def printstr_console putchar_console)

lemma printnum_log_eq [machine_simps]:
  "printnum_log n s = s\<lparr>console := con_after (printnum_log n) s\<rparr>"
  by (rule console_update_eq) (simp add: printnum_log_def printnum_def printstr_console putchar_console)

lemma printhex_log_eq [machine_simps]:
  "printhex_log n s = s\<lparr>console := con_after (printhex_log n) s\<rparr>"
  by (rule console_update_eq) (simp add: printhex_log_def printhex_def printstr_console)

section \<open>The cursor stays in its window, and painting stays in the window's columns\<close>

definition wf_screen :: "SCREEN \<Rightarrow> bool" where
  "wf_screen sc =
     (0 \<le> sc_x sc \<and> sc_x sc < sc_width sc \<and> 0 \<le> sc_y sc \<and> sc_y sc < sc_height sc \<and>
      0 \<le> sc_startx sc \<and> sc_startx sc + sc_width sc \<le> 80 \<and>
      0 \<le> sc_starty sc \<and> sc_starty sc + sc_height sc \<le> 30)"

definition same_window :: "SCREEN \<Rightarrow> SCREEN \<Rightarrow> bool" where
  "same_window sc sc' =
     (sc_width sc' = sc_width sc \<and> sc_height sc' = sc_height sc \<and>
      sc_startx sc' = sc_startx sc \<and> sc_starty sc' = sc_starty sc)"

definition pixel_of :: "SCREEN \<Rightarrow> addr \<Rightarrow> bool" where
  "pixel_of sc a = (\<exists>off \<le> VRAM_END - VRAM_START. a = of_nat (VRAM_START + off) \<and> in_window sc off)"

definition wf_console :: "console \<Rightarrow> bool" where
  "wf_console c =
     (wf_screen (appscreen c) \<and> wf_screen (logscreen c) \<and>
      sc_startx (appscreen c) + sc_width (appscreen c) \<le> sc_startx (logscreen c))"

lemma same_window_refl [simp]: "same_window sc sc"
  by (simp add: same_window_def)

lemma same_window_trans: "same_window a b \<Longrightarrow> same_window b c \<Longrightarrow> same_window a c"
  by (simp add: same_window_def)

lemma same_window_in_window: "same_window sc sc' \<Longrightarrow> in_window sc' off = in_window sc off"
  by (simp add: same_window_def in_window_def)

lemma same_window_pixel: "same_window sc sc' \<Longrightarrow> pixel_of sc' a = pixel_of sc a"
  by (simp add: pixel_of_def same_window_in_window)

lemma clear_loop_frame:
  assumes "\<not> pixel_of sc a" and "VRAM_START \<le> p"
  shows "clear_loop p sc v a = v a"
  using assms
proof (induction p sc v rule: clear_loop.induct)
  case (1 p sc v)
  show ?case
  proof (cases "p \<le> VRAM_END")
    case True
    have "a \<noteq> of_nat p" if "in_window sc (p - VRAM_START)"
      using "1.prems" that True unfolding pixel_of_def
      by (metis diff_le_mono le_add_diff_inverse)
    with True "1.IH" "1.prems" show ?thesis by (auto simp: clear_loop.simps [of p])
  next
    case False
    then show ?thesis by (simp add: clear_loop.simps [of p])
  qed
qed

lemma clear_frame: "\<not> pixel_of sc a \<Longrightarrow> clear sc v a = v a"
  by (simp add: clear_def clear_loop_frame)

lemma draw_loop_frame:
  "(\<And>k. k < n \<Longrightarrow> a \<noteq> va + of_nat (80 * k)) \<Longrightarrow> draw_loop n va fa font v a = v a"
proof (induction n arbitrary: va fa v)
  case 0
  then show ?case by simp
next
  case (Suc n)
  have "a \<noteq> va + 80 + of_nat (80 * k)" if "k < n" for k
    using Suc.prems [of "Suc k"] that by (simp add: ac_simps)
  with Suc.IH [of "va + 80"] Suc.prems [of 0] show ?case by simp
qed

lemma glyph_in_window:
  assumes "wf_screen sc" and "k < 16"
  shows "pixel_of sc (0xa0000 + word_of_int (80 * 16 * (sc_starty sc + sc_y sc)) +
           word_of_int (sc_startx sc + sc_x sc) + of_nat (80 * k))"
proof -
  obtain y where y: "sc_starty sc + sc_y sc = int y" "y < 30" "int y < sc_starty sc + sc_height sc"
    using assms(1) nonneg_int_cases [of "sc_starty sc + sc_y sc"] by (auto simp: wf_screen_def)
  obtain x where x: "sc_startx sc + sc_x sc = int x" "x < 80" "int x < sc_startx sc + sc_width sc"
    using assms(1) nonneg_int_cases [of "sc_startx sc + sc_x sc"] by (auto simp: wf_screen_def)
  let ?off = "1280 * y + (x + 80 * k)"
  have "?off = 80 * (16 * y + k) + x" by simp
  then have "?off mod 80 = x" using x(2) by (metis mod_mult_self4 mod_less)
  moreover have "?off div 1280 = y" using x(2) assms(2) by simp
  moreover have "sc_startx sc \<le> int x" "sc_starty sc \<le> int y"
    using assms(1) x(1) y(1) by (auto simp: wf_screen_def)
  ultimately have "in_window sc ?off" using x y by (simp add: in_window_def Let_def)
  moreover have "?off \<le> VRAM_END - VRAM_START"
    using x(2) y(2) assms(2) by (simp add: VRAM_END_def VRAM_START_def)
  moreover have "0xa0000 + word_of_int (80 * 16 * int y) + word_of_int (int x) + of_nat (80 * k) =
      (of_nat (VRAM_START + ?off) :: addr)"
    by (simp add: VRAM_START_def)
  ultimately show ?thesis unfolding pixel_of_def x(1) y(1) by blast
qed

lemma fixpos_window: "fixpos sc v = (sc', v') \<Longrightarrow> same_window sc sc'"
  by (auto simp: fixpos_def same_window_def Let_def split: if_splits)

lemma fixpos_frame: "fixpos sc v = (sc', v') \<Longrightarrow> \<not> pixel_of sc a \<Longrightarrow> v' a = v a"
proof -
  assume fp: "fixpos sc v = (sc', v')" and a: "\<not> pixel_of sc a"
  let ?sc1 = "if sc_x sc \<ge> sc_width sc then sc\<lparr>sc_y := sc_y sc + 1, sc_x := 0\<rparr> else sc"
  have "\<not> pixel_of ?sc1 a" using a same_window_pixel [of sc ?sc1 a] by (simp add: same_window_def)
  with fp show "v' a = v a" by (auto simp: fixpos_def Let_def clear_frame split: if_splits)
qed

lemma con_putchar_step:
  assumes wf: "wf_screen (get_screen i c)"
  shows "wf_screen (get_screen i (con_putchar i ch c)) \<and>
         same_window (get_screen i c) (get_screen i (con_putchar i ch c)) \<and>
         (\<forall>a. \<not> pixel_of (get_screen i c) a \<longrightarrow> vram (con_putchar i ch c) a = vram c a) \<and>
         (\<forall>j. j \<noteq> i \<longrightarrow> get_screen j (con_putchar i ch c) = get_screen j c)"
proof -
  let ?sc = "get_screen i c"
  obtain sc1 v1 where s1: "(sc1, v1) =
      (if ch = 0x0a then (?sc\<lparr>sc_x := 0, sc_y := sc_y ?sc + 1\<rparr>, vram c)
       else (?sc\<lparr>sc_x := sc_x ?sc + 1\<rparr>,
             draw_loop 16 (0xa0000 + word_of_int (80 * 16 * (sc_starty ?sc + sc_y ?sc)) +
               word_of_int (sc_startx ?sc + sc_x ?sc)) (FONT_ADR c + push_bit 4 (scast ch))
               (fontmem c) (vram c)))"
    by fastforce
  obtain sc2 v2 where s2: "fixpos sc1 v1 = (sc2, v2)" by fastforce
  have con: "con_putchar i ch c = set_screen i sc2 (c\<lparr>vram := v2\<rparr>)"
    using s1 s2 by (simp add: con_putchar_def Let_def split: if_splits)
  have w1: "same_window ?sc sc1" using s1 by (auto simp: same_window_def split: if_splits)
  have w2: "same_window sc1 sc2" using s2 by (rule fixpos_window)
  have wf2: "wf_screen sc2"
    using s1 s2 wf by (auto simp: fixpos_def wf_screen_def Let_def split: if_splits)
  have "v2 a = vram c a" if a: "\<not> pixel_of ?sc a" for a
  proof -
    have "a \<noteq> 0xa0000 + word_of_int (80 * 16 * (sc_starty ?sc + sc_y ?sc)) +
        word_of_int (sc_startx ?sc + sc_x ?sc) + of_nat (80 * k)" if "k < 16" for k
      using glyph_in_window [OF wf that] a by blast
    from draw_loop_frame [OF this, of 16] have "v1 a = vram c a"
      using s1 by (simp split: if_splits)
    moreover have "\<not> pixel_of sc1 a" using a same_window_pixel [OF w1] by simp
    ultimately show ?thesis using fixpos_frame [OF s2] by simp
  qed
  moreover have "get_screen i (con_putchar i ch c) = sc2" "vram (con_putchar i ch c) = v2"
    "\<forall>j. j \<noteq> i \<longrightarrow> get_screen j (con_putchar i ch c) = get_screen j c"
    unfolding con by (auto simp: get_screen_def set_screen_def split: scrid.splits)
  ultimately show ?thesis using w1 w2 wf2 same_window_trans by blast
qed

lemma putchar_con: "console (putchar i ch s) = (if ch = 0x0d then console s else con_putchar i ch (console s))"
  by (simp add: putchar_def Let_def rflags_defs)

lemma printstr_step:
  assumes "wf_screen (get_screen i (console s))"
  shows "wf_screen (get_screen i (console (printstr i str s))) \<and>
         same_window (get_screen i (console s)) (get_screen i (console (printstr i str s))) \<and>
         (\<forall>a. \<not> pixel_of (get_screen i (console s)) a \<longrightarrow>
            vram (console (printstr i str s)) a = vram (console s) a) \<and>
         (\<forall>j. j \<noteq> i \<longrightarrow> get_screen j (console (printstr i str s)) = get_screen j (console s))"
  using assms
proof (induction str arbitrary: s)
  case Nil
  then show ?case by simp
next
  case (Cons ch str)
  let ?s = "putchar i ch s"
  have step: "wf_screen (get_screen i (console ?s)) \<and>
      same_window (get_screen i (console s)) (get_screen i (console ?s)) \<and>
      (\<forall>a. \<not> pixel_of (get_screen i (console s)) a \<longrightarrow> vram (console ?s) a = vram (console s) a) \<and>
      (\<forall>j. j \<noteq> i \<longrightarrow> get_screen j (console ?s) = get_screen j (console s))"
    using con_putchar_step [OF Cons.prems, of ch] Cons.prems by (simp add: putchar_con)
  have rest: "wf_screen (get_screen i (console (printstr i str ?s)))"
    "same_window (get_screen i (console ?s)) (get_screen i (console (printstr i str ?s)))"
    "\<And>a. \<not> pixel_of (get_screen i (console ?s)) a \<Longrightarrow>
       vram (console (printstr i str ?s)) a = vram (console ?s) a"
    "\<And>j. j \<noteq> i \<Longrightarrow> get_screen j (console (printstr i str ?s)) = get_screen j (console ?s)"
    using Cons.IH [of ?s] step by blast+
  have "same_window (get_screen i (console s)) (get_screen i (console ?s))" using step by blast
  from same_window_pixel [OF this] same_window_trans [OF this rest(2)] step rest(1,3,4)
  show ?case unfolding printstr.simps by metis
qed

lemma windows_disjoint:
  assumes "wf_console c" and "i \<noteq> j" and "pixel_of (get_screen i c) a"
  shows "\<not> pixel_of (get_screen j c) a"
proof
  assume "pixel_of (get_screen j c) a"
  with assms(3) obtain o1 o2 where o: "o1 \<le> VRAM_END - VRAM_START" "o2 \<le> VRAM_END - VRAM_START"
    "a = of_nat (VRAM_START + o1)" "a = of_nat (VRAM_START + o2)"
    "in_window (get_screen i c) o1" "in_window (get_screen j c) o2"
    by (auto simp: pixel_of_def)
  then have "VRAM_START + o1 = VRAM_START + o2"
    by (intro of_nat64_eq_iff [THEN iffD1]) (auto simp: VRAM_START_def VRAM_END_def)
  with o have w: "in_window (get_screen i c) o1" "in_window (get_screen j c) o1" by auto
  with assms(1,2) show False
    by (cases i; cases j) (auto simp: in_window_def wf_console_def get_screen_def Let_def)
qed

section \<open>Numbers\<close>

definition printed_num :: "u32 \<Rightarrow> u8 list" where
  "printed_num num = (if num = 0 then [48] else printnum_text num)"

definition dec_value :: "u8 list \<Rightarrow> nat" where
  "dec_value ds = foldl (\<lambda>acc d. acc * 10 + unat (d - 48)) 0 ds"

definition is_digit :: "u8 \<Rightarrow> bool" where
  "is_digit d = (48 \<le> d \<and> d \<le> 57)"

lemma printnum_prints: "printnum i num s = printstr i (printed_num num) s"
  by (simp add: printnum_def printed_num_def)

lemma map_nth_rev: "xs \<noteq> [] \<Longrightarrow> map (\<lambda>i. xs ! (length xs - 1 - i)) [0..<Suc (length xs - 1)] = rev xs"
  by (rule nth_equalityI) (auto simp: rev_nth)

lemma printnum_buf_Nil: "printnum_buf num = [] \<longleftrightarrow> num = 0"
  by (subst printnum_buf.simps) (simp add: word_gt_0)

lemma printnum_buf_0 [simp]: "printnum_buf 0 = []"
  by (simp add: printnum_buf_Nil)

lemma printnum_text_rev: "num \<noteq> 0 \<Longrightarrow> printnum_text num = rev (printnum_buf num)"
  using map_nth_rev [of "printnum_buf num"] printnum_buf_Nil [of num]
  by (simp add: printnum_text_def Let_def del: upt_Suc)

lemma unat_mod10: "unat (num mod 10 :: u32) = unat num mod 10"
  by (simp add: unat_mod)

lemma unat_digit: "unat (ucast (num mod 10 :: u32) :: u8) = unat num mod 10"
  by (simp add: unsigned_ucast_eq unat_mod10 take_bit_eq_mod)

lemma unat_ascii_digit: "unat (48 + ucast (num mod 10 :: u32) :: u8) = 48 + unat num mod 10"
  using unat_digit [of num] mod_less_divisor [of 10 "unat num"]
  by (subst unat_add_lem [THEN iffD1]) auto

lemma printnum_buf_value:
  "foldr (\<lambda>d acc. acc * 10 + unat (d - 48)) (printnum_buf num) 0 = unat num"
proof (induction num rule: printnum_buf.induct)
  case (1 num)
  show ?case
  proof (cases "num > 0")
    case True
    with "1.IH" show ?thesis
      unfolding printnum_buf.simps [of num] by (simp add: unat_digit unat_div)
  next
    case False
    then show ?thesis by (simp add: word_gt_0)
  qed
qed

lemma printnum_buf_digits: "list_all is_digit (printnum_buf num)"
proof (induction num rule: printnum_buf.induct)
  case (1 num)
  have "is_digit (48 + ucast (num mod 10 :: u32))"
    using unat_ascii_digit [of num] by (simp add: is_digit_def word_le_nat_alt)
  with "1.IH" show ?case by (subst printnum_buf.simps) simp
qed

lemma printnum_buf_length: "unat num < 10 ^ k \<Longrightarrow> length (printnum_buf num) \<le> k"
proof (induction num arbitrary: k rule: printnum_buf.induct)
  case (1 num)
  show ?case
  proof (cases "num > 0")
    case True
    then have "unat num \<noteq> 0" by (simp add: word_gt_0 unat_eq_0)
    with "1.prems" obtain j where j: "k = Suc j" by (cases k) auto
    with "1.prems" have "unat (num div 10) < 10 ^ j" by (simp add: unat_div)
    with "1.IH" [OF True] have "length (printnum_buf (num div 10)) \<le> j" by blast
    with True j show ?thesis by (subst printnum_buf.simps) simp
  next
    case False
    then show ?thesis by (simp add: word_gt_0)
  qed
qed

lemma printnum_buf_last: "num \<noteq> 0 \<Longrightarrow> last (printnum_buf num) \<noteq> 48"
proof (induction num rule: printnum_buf.induct)
  case (1 num)
  then have pos: "num > 0" by (simp add: word_gt_0)
  show ?case
  proof (cases "num div 10 = 0")
    case True
    then have "unat (num div 10) = 0" by simp
    then have "unat num div 10 = 0" by (simp add: unat_div)
    then have "unat num mod 10 = unat num" by presburger
    moreover have "unat num \<noteq> 0" using "1.prems" by (simp add: unat_eq_0)
    ultimately have "48 + ucast (num mod 10 :: u32) \<noteq> (48 :: u8)"
      using unat_ascii_digit [of num] by (auto dest: arg_cong [where f = unat])
    with True pos show ?thesis by (simp add: printnum_buf.simps [of num] printnum_buf_Nil)
  next
    case False
    with "1.IH" [OF pos] pos show ?thesis
      by (subst printnum_buf.simps) (simp add: printnum_buf_Nil)
  qed
qed

lemma dec_value_rev: "dec_value (rev ds) = foldr (\<lambda>d acc. acc * 10 + unat (d - 48)) ds 0"
  by (simp add: dec_value_def foldl_conv_foldr)

lemma initscreen_wf: "wf_console (console (initscreen s))"
proof -
  let ?c = "(console s)\<lparr>appscreen := \<lparr>sc_width = 50, sc_height = 30, sc_startx = 0, sc_starty = 0,
              sc_x = 0, sc_y = 0\<rparr>, logscreen := \<lparr>sc_width = 29, sc_height = 30, sc_startx = 51,
              sc_starty = 0, sc_x = 0, sc_y = 0\<rparr>,
              vram := fold (\<lambda>width. divider_loop (VRAM_START + 50 + 80 * width)) [0..<3] (vram (console s))\<rparr>"
  have eq: "initscreen s = printstr LogScreen (map byte_of (''Initialized screen'' @ nl)) (s\<lparr>console := ?c\<rparr>)"
    by (simp add: initscreen_def printstr_log_def APPSCREEN_WIDTH_def Let_def)
  have "wf_screen (get_screen LogScreen (console (s\<lparr>console := ?c\<rparr>)))"
    by (simp add: get_screen_def wf_screen_def)
  from printstr_step [OF this, of "map byte_of (''Initialized screen'' @ nl)"] show ?thesis
    unfolding eq by (auto simp: get_screen_def wf_console_def wf_screen_def same_window_def)
qed

section \<open>Properties\<close>

text \<open>
  \<open>printnum\<close> prints the decimal representation of its argument: at most ten digits, no leading zero,
  and the digits read as a decimal number give back the argument.
\<close>

theorem printnum_decimal:
  "\<exists>ds. printnum i num s = printstr i ds s \<and> list_all is_digit ds \<and> dec_value ds = unat num \<and>
        ds \<noteq> [] \<and> length ds \<le> 10 \<and> (hd ds = 48 \<longleftrightarrow> num = 0)"
proof (cases "num = 0")
  case True
  then show ?thesis
    by (intro exI [of _ "[48]"]) (simp add: printnum_prints printed_num_def is_digit_def dec_value_def)
next
  case False
  have "unat num < 10 ^ 10" using unsigned_less [of num, where ?'a = nat] by simp
  then have "length (printnum_buf num) \<le> 10" by (rule printnum_buf_length)
  with False printnum_buf_digits [of num] printnum_buf_value [of num] printnum_buf_last [OF False]
    printnum_buf_Nil [of num] show ?thesis
    by (intro exI [of _ "rev (printnum_buf num)"])
      (auto simp: printnum_prints printed_num_def printnum_text_rev dec_value_rev hd_rev list_all_iff)
qed

text \<open>
  C31: the two windows of the screen do not disturb each other: printing on one keeps every pixel and the
  cursor of the other, and both cursors stay inside their windows.
\<close>

theorem screens_independent:
  assumes "wf_console (console s)" and "i \<noteq> j"
  shows "wf_console (console (printstr i str s)) \<and>
         get_screen j (console (printstr i str s)) = get_screen j (console s) \<and>
         (\<forall>a. pixel_of (get_screen j (console s)) a \<longrightarrow>
            vram (console (printstr i str s)) a = vram (console s) a)"
proof -
  have wf: "wf_screen (get_screen i (console s))"
    using assms(1) by (cases i) (auto simp: wf_console_def get_screen_def)
  note step = printstr_step [OF wf, of str]
  have other: "get_screen j (console (printstr i str s)) = get_screen j (console s)"
    using step assms(2) by auto
  have "wf_console (console (printstr i str s))"
    using step other assms
    by (cases i; cases j) (auto simp: wf_console_def get_screen_def same_window_def)
  with step other windows_disjoint [OF assms(1), of j i] assms(2) show ?thesis by auto
qed

end
