(* ===== verification/Memory.thy ===== *)
theory Memory
  imports Print
begin

text \<open>
  \<^verbatim>\<open>kernel/core/memory.c\<close>: the block allocator. Memory from \<open>0xa00000\<close> to \<open>0x5dc00000\<close> is cut into
  blocks of one megabyte; each block starts with a header (\<open>memhdr\<close>, 48 bytes) whose flag says
  whether it is free or used, and the table \<open>freemem\<close> is a stack of the free blocks. \<open>mem_alloc\<close> hands
  out a whole block whatever size is asked for.

  \<open>mem_inv\<close> is the invariant: the stack holds exactly the free blocks, each once. The interface
  \<open>block_allocator\<close> states what the rest of the kernel relies on, with \<open>live\<close> the set of addresses that
  are handed out.
\<close>

section \<open>Data\<close>

definition MEM_TABLE_SIZE :: nat where
  "MEM_TABLE_SIZE = 2000"

definition MAX_MEM_NAME :: nat where
  "MAX_MEM_NAME = 20"

definition MEM_GRANULARITY :: u64 where
  "MEM_GRANULARITY = 1024 * 1024"

definition MEM_FREE_FLAG :: u32 where
  "MEM_FREE_FLAG = 0x55667788"

definition MEM_USED_FLAG :: u32 where
  "MEM_USED_FLAG = 0xaabbccdd"

record memhdr =
  mem_flag :: u32
  mh_name :: "u8 list"
  mh_start :: u64
  mh_size :: u64

definition sizeof_memhdr :: u64 where
  "sizeof_memhdr = 48"

record memtbl =
  mt_len :: nat
  mt_addr :: "addr list"

record mem_state = con_state +
  freemem :: memtbl
  memhdrs :: "addr \<Rightarrow> memhdr"

section \<open>Operations\<close>

definition MEM_START :: u64 where
  "MEM_START = 0x00a00000"

definition MEM_END :: u64 where
  "MEM_END = 0x5DC00000"

function mem_init_loop :: "u64 \<Rightarrow> memtbl \<Rightarrow> (addr \<Rightarrow> memhdr) \<Rightarrow> memtbl \<times> (addr \<Rightarrow> memhdr)" where
  "mem_init_loop memstart t h =
     (if memstart + MEM_GRANULARITY \<le> MEM_END \<and> mt_len t < MEM_TABLE_SIZE
      then
        let hdr = h memstart;
            hdr1 = hdr\<lparr>mem_flag := MEM_FREE_FLAG,
                       mh_name := replicate MAX_MEM_NAME 0 @ drop MAX_MEM_NAME (mh_name hdr),
                       mh_start := memstart + sizeof_memhdr,
                       mh_size := MEM_GRANULARITY - sizeof_memhdr\<rparr>
        in mem_init_loop (memstart + MEM_GRANULARITY)
             \<lparr>mt_len = mt_len t + 1, mt_addr = (mt_addr t)[mt_len t := memstart]\<rparr>
             (h(memstart := hdr1))
      else (t, h))"
  by pat_completeness auto
termination
  by (relation "measure (\<lambda>(_, t, _). MEM_TABLE_SIZE - mt_len t)") auto

declare mem_init_loop.simps [simp del]

definition mem_init :: "'a mem_state_scheme \<Rightarrow> 'a mem_state_scheme" where
  "mem_init s =
     (let (t, h) = mem_init_loop MEM_START ((freemem s)\<lparr>mt_len := 0\<rparr>) (memhdrs s)
      in printstr_log (''Initialized memory'' @ nl) (s\<lparr>freemem := t, memhdrs := h\<rparr>))"

fun show_alloced_mem_loop :: "nat \<Rightarrow> nat \<Rightarrow> 'a mem_state_scheme \<Rightarrow> 'a mem_state_scheme" where
  "show_alloced_mem_loop 0 i s = s"
| "show_alloced_mem_loop (Suc n) i s =
     (let hdr = memhdrs s (mt_addr (freemem s) ! i);
          s1 = (if mem_flag hdr = MEM_USED_FLAG
                then printstr_log nl (printstr LogScreen (takeWhile (\<lambda>b. b \<noteq> 0) (mh_name hdr)) s)
                else s)
      in show_alloced_mem_loop n (Suc i) s1)"

definition show_alloced_mem :: "'a mem_state_scheme \<Rightarrow> 'a mem_state_scheme" where
  "show_alloced_mem s = show_alloced_mem_loop 10 0 s"

definition mem_free :: "addr \<Rightarrow> 'a mem_state_scheme \<Rightarrow> 'a mem_state_scheme res" where
  "mem_free a s =
     (let rf = get_rflags s; s1 = io_cli s; t = freemem s1 in
      if mt_len t \<ge> MEM_TABLE_SIZE - 1
      then panic (printstr_log (''INVALID MEM FREE ERROR'' @ nl) s1)
      else
        let entry = a - sizeof_memhdr; hdr = memhdrs s1 entry in
        if mem_flag hdr \<noteq> MEM_USED_FLAG
        then panic (printstr_log (''Failed to free mem. Tried to free invalid address'' @ nl) s1)
        else
          let s2 = s1\<lparr>memhdrs := (memhdrs s1)(entry := hdr\<lparr>mem_flag := MEM_FREE_FLAG\<rparr>)\<rparr> in
          bindr (arr_set (mt_addr t) (mt_len t) entry) (\<lambda>tbl.
            Inr (set_rflags rf (s2\<lparr>freemem := \<lparr>mt_len = mt_len t + 1, mt_addr = tbl\<rparr>\<rparr>))))"

text \<open>\<open>strncpy (entry->name, name, MAX_MEM_NAME)\<close> for a name without zero bytes.\<close>

definition copy_name :: "u8 list \<Rightarrow> string \<Rightarrow> u8 list" where
  "copy_name dst nm =
     (let n = min MAX_MEM_NAME (length nm) in take n (map byte_of nm) @ drop n dst)"

definition mem_alloc :: "u32 \<Rightarrow> string \<Rightarrow> 'a mem_state_scheme \<Rightarrow> (addr \<times> 'a mem_state_scheme) res" where
  "mem_alloc sz nm s =
     (let rf = get_rflags s; s1 = io_cli s; t = freemem s1 in
      if ucast sz > MEM_GRANULARITY
      then panic (printstr_log nl (printstr_log nm (printstr_log ''ERROR: large memory req '' s1)))
      else if mt_len t = 0
      then panic (show_alloced_mem (printstr_log nl (printstr_log nm
             (printstr_log ''ERROR: Don't have enough memory to allocate '' s1))))
      else
        let len = mt_len t - 1; s2 = s1\<lparr>freemem := t\<lparr>mt_len := len\<rparr>\<rparr> in
        bindr (arr_get (mt_addr t) len) (\<lambda>a.
          let entry = memhdrs s2 a in
          if mem_flag entry \<noteq> MEM_FREE_FLAG
          then panic (printstr_log (''ERROR: Tried to allocate invalid address'' @ nl) s2)
          else
            let entry1 = entry\<lparr>mem_flag := MEM_USED_FLAG, mh_name := copy_name (mh_name entry) nm\<rparr>;
                s3 = s2\<lparr>memhdrs := (memhdrs s2)(a := entry1)\<rparr>
            in Inr (mh_start entry1, set_rflags rf s3)))"

section \<open>The invariant\<close>

definition mem_block :: "nat \<Rightarrow> addr" where
  "mem_block i = MEM_START + of_nat i * MEM_GRANULARITY"

definition MEM_BLOCKS :: nat where
  "MEM_BLOCKS = 1490"

definition mem_blocks :: "addr set" where
  "mem_blocks = mem_block ` {..<MEM_BLOCKS}"

definition free_stack :: "'a mem_state_scheme \<Rightarrow> addr list" where
  "free_stack s = take (mt_len (freemem s)) (mt_addr (freemem s))"

definition mem_inv :: "'a mem_state_scheme \<Rightarrow> bool" where
  "mem_inv s =
     (length (mt_addr (freemem s)) = MEM_TABLE_SIZE \<and> mt_len (freemem s) \<le> MEM_BLOCKS \<and>
      distinct (free_stack s) \<and>
      set (free_stack s) = {b \<in> mem_blocks. mem_flag (memhdrs s b) = MEM_FREE_FLAG} \<and>
      (\<forall>b \<in> mem_blocks.
         (mem_flag (memhdrs s b) = MEM_FREE_FLAG \<or> mem_flag (memhdrs s b) = MEM_USED_FLAG) \<and>
         mh_start (memhdrs s b) = b + sizeof_memhdr))"

definition live :: "'a mem_state_scheme \<Rightarrow> addr set" where
  "live s = (\<lambda>b. b + sizeof_memhdr) ` {b \<in> mem_blocks. mem_flag (memhdrs s b) = MEM_USED_FLAG}"

definition avail :: "'a mem_state_scheme \<Rightarrow> nat" where
  "avail s = mt_len (freemem s)"

definition mem_rest :: "'a mem_state_scheme \<Rightarrow> 'a mem_state_scheme \<Rightarrow> bool" where
  "mem_rest s s' = (\<exists>t h. s' = s\<lparr>freemem := t, memhdrs := h\<rparr>)"

lemma mem_flags_distinct [simp]: "MEM_FREE_FLAG \<noteq> MEM_USED_FLAG" "MEM_USED_FLAG \<noteq> MEM_FREE_FLAG"
  by (simp_all add: MEM_FREE_FLAG_def MEM_USED_FLAG_def)

lemma unat_mem_block: "i \<le> MEM_BLOCKS \<Longrightarrow> unat (mem_block i) = 10485760 + i * 1048576"
proof -
  assume i: "i \<le> MEM_BLOCKS"
  have "mem_block i = of_nat (10485760 + i * 1048576)"
    by (simp add: mem_block_def MEM_START_def MEM_GRANULARITY_def)
  with i show ?thesis by (simp add: MEM_BLOCKS_def unat_of_nat64 del: of_nat_add of_nat_mult)
qed

lemma mem_block_inj: "inj_on mem_block {..<MEM_BLOCKS}"
proof (rule inj_onI)
  fix i j
  assume ij: "i \<in> {..<MEM_BLOCKS}" "j \<in> {..<MEM_BLOCKS}" "mem_block i = mem_block j"
  have "unat (mem_block i) = unat (mem_block j)" using ij(3) by (rule arg_cong)
  moreover have "unat (mem_block i) = 10485760 + i * 1048576"
    "unat (mem_block j) = 10485760 + j * 1048576" using ij(1,2) by (auto intro: unat_mem_block)
  ultimately show "i = j" by linarith
qed

lemma card_mem_blocks: "card mem_blocks = MEM_BLOCKS"
  by (simp add: mem_blocks_def card_image mem_block_inj)

lemma finite_mem_blocks [simp]: "finite mem_blocks"
  by (simp add: mem_blocks_def)

lemma mem_restI [intro]: "s' = s\<lparr>freemem := t, memhdrs := h\<rparr> \<Longrightarrow> mem_rest s s'"
  by (auto simp: mem_rest_def)

lemma mem_rest_refl [simp]: "mem_rest s s"
proof -
  have "s = s\<lparr>freemem := freemem s, memhdrs := memhdrs s\<rparr>" by simp
  then show ?thesis by (rule mem_restI)
qed

lemma mem_rest_trans: "mem_rest s s' \<Longrightarrow> mem_rest s' s'' \<Longrightarrow> mem_rest s s''"
  unfolding mem_rest_def by (elim exE) (rule exI, rule exI, simp)

section \<open>Initialisation\<close>

lemma mem_block_Suc: "mem_block (Suc k) = mem_block k + MEM_GRANULARITY"
  by (simp add: mem_block_def algebra_simps)

lemma mem_block_fits: "k \<le> MEM_BLOCKS \<Longrightarrow> mem_block k + MEM_GRANULARITY \<le> MEM_END \<longleftrightarrow> k < MEM_BLOCKS"
proof -
  assume k: "k \<le> MEM_BLOCKS"
  have "mem_block k + MEM_GRANULARITY = of_nat (11534336 + k * 1048576)"
    by (simp add: mem_block_def MEM_START_def MEM_GRANULARITY_def)
  then have "unat (mem_block k + MEM_GRANULARITY) = 11534336 + k * 1048576"
    using k by (simp add: MEM_BLOCKS_def unat_of_nat64 del: of_nat_add of_nat_mult)
  then show ?thesis using k by (simp add: word_le_nat_alt MEM_END_def MEM_BLOCKS_def) presburger
qed

definition init_upto :: "nat \<Rightarrow> memtbl \<Rightarrow> (addr \<Rightarrow> memhdr) \<Rightarrow> bool" where
  "init_upto k t h =
     (length (mt_addr t) = MEM_TABLE_SIZE \<and> mt_len t = k \<and>
      take k (mt_addr t) = map mem_block [0..<k] \<and>
      (\<forall>i < k. mem_flag (h (mem_block i)) = MEM_FREE_FLAG \<and>
                mh_start (h (mem_block i)) = mem_block i + sizeof_memhdr))"

lemma mem_init_loop_upto:
  assumes "init_upto k t h" and "k \<le> MEM_BLOCKS" and "mem_init_loop (mem_block k) t h = (t', h')"
  shows "init_upto MEM_BLOCKS t' h'"
  using assms
proof (induction "MEM_BLOCKS - k" arbitrary: k t h)
  case 0
  then have k: "k = MEM_BLOCKS" by simp
  with 0 mem_block_fits [of MEM_BLOCKS] show ?case
    by (simp add: mem_init_loop.simps [of "mem_block MEM_BLOCKS"])
next
  case (Suc n)
  let ?hdr = "(h (mem_block k))\<lparr>mem_flag := MEM_FREE_FLAG,
                mh_name := replicate MAX_MEM_NAME 0 @ drop MAX_MEM_NAME (mh_name (h (mem_block k))),
                mh_start := mem_block k + sizeof_memhdr,
                mh_size := MEM_GRANULARITY - sizeof_memhdr\<rparr>"
  let ?t = "\<lparr>mt_len = mt_len t + 1, mt_addr = (mt_addr t)[mt_len t := mem_block k]\<rparr>"
  let ?h = "h(mem_block k := ?hdr)"
  from Suc have k: "k < MEM_BLOCKS" by simp
  then have len: "k < MEM_TABLE_SIZE" by (simp add: MEM_BLOCKS_def MEM_TABLE_SIZE_def)
  have loop: "mem_init_loop (mem_block (Suc k)) ?t ?h = (t', h')"
    using Suc.prems k len mem_block_fits [of k]
    by (simp add: mem_init_loop.simps [of "mem_block k"] init_upto_def mem_block_Suc Let_def)
  have "init_upto (Suc k) ?t ?h"
    using Suc.prems(1) len by (auto simp: init_upto_def take_list_update_snoc less_Suc_eq)
  with Suc.hyps(1) [of "Suc k" ?t ?h] Suc.hyps(2) k loop show ?case by simp
qed

lemma mem_init_inv:
  assumes "length (mt_addr (freemem s)) = MEM_TABLE_SIZE"
  shows "mem_inv (mem_init s) \<and> avail (mem_init s) = MEM_BLOCKS \<and> live (mem_init s) = {}"
proof -
  obtain t h where th: "mem_init_loop MEM_START ((freemem s)\<lparr>mt_len := 0\<rparr>) (memhdrs s) = (t, h)"
    by fastforce
  have "init_upto 0 ((freemem s)\<lparr>mt_len := 0\<rparr>) (memhdrs s)"
    using assms by (simp add: init_upto_def)
  with th have up: "init_upto MEM_BLOCKS t h"
    using mem_init_loop_upto [of 0] by (simp add: mem_block_def)
  have s': "freemem (mem_init s) = t" "memhdrs (mem_init s) = h"
    using th by (simp_all add: mem_init_def machine_simps)
  have "inj_on mem_block {0..<MEM_BLOCKS}" using mem_block_inj by (simp add: atLeast0LessThan)
  then have "distinct (free_stack (mem_init s))"
    using up by (simp add: free_stack_def s' init_upto_def distinct_map)
  moreover have "set (free_stack (mem_init s)) = mem_blocks"
    using up by (simp add: free_stack_def s' init_upto_def mem_blocks_def atLeast0LessThan)
  moreover have "\<forall>b \<in> mem_blocks. mem_flag (h b) = MEM_FREE_FLAG \<and> mh_start (h b) = b + sizeof_memhdr"
    using up by (auto simp: mem_blocks_def init_upto_def)
  ultimately show ?thesis
    using up by (auto simp: mem_inv_def avail_def live_def s' init_upto_def)
qed

section \<open>Allocation and release\<close>

lemma mem_alloc_oom: "avail s = 0 \<Longrightarrow> mem_alloc sz nm s = Inl Panic"
  by (simp add: mem_alloc_def avail_def panic_def Let_def rflags_defs)

lemma mem_alloc_large: "ucast sz > MEM_GRANULARITY \<Longrightarrow> mem_alloc sz nm s = Inl Panic"
  by (simp add: mem_alloc_def panic_def Let_def)

lemma mem_alloc_ok:
  assumes inv: "mem_inv s" and sz: "ucast sz \<le> MEM_GRANULARITY" and av: "avail s > 0"
  shows "\<exists>a s'. mem_alloc sz nm s = Inr (a, s') \<and> mem_inv s' \<and> a \<notin> live s \<and>
           live s' = insert a (live s) \<and> avail s' = avail s - 1 \<and> mem_rest s s'"
proof -
  let ?t = "freemem s"
  let ?len = "mt_len ?t - 1"
  let ?b = "mt_addr ?t ! ?len"
  let ?e = "(memhdrs s ?b)\<lparr>mem_flag := MEM_USED_FLAG, mh_name := copy_name (mh_name (memhdrs s ?b)) nm\<rparr>"
  let ?s = "s\<lparr>freemem := ?t\<lparr>mt_len := ?len\<rparr>, memhdrs := (memhdrs s)(?b := ?e)\<rparr>"
  have len: "?len < length (mt_addr ?t)" "mt_len ?t = Suc ?len"
    using inv av by (auto simp: mem_inv_def avail_def MEM_BLOCKS_def MEM_TABLE_SIZE_def)
  then have stack: "free_stack s = take ?len (mt_addr ?t) @ [?b]"
    unfolding free_stack_def using take_Suc_conv_app_nth [OF len(1)] by simp
  have b: "?b \<in> mem_blocks" "mem_flag (memhdrs s ?b) = MEM_FREE_FLAG"
    "mh_start (memhdrs s ?b) = ?b + sizeof_memhdr"
    using inv stack by (auto simp: mem_inv_def)
  have call: "mem_alloc sz nm s = Inr (?b + sizeof_memhdr, ?s)"
    using leD [OF sz] av len(1) b by (simp add: mem_alloc_def Let_def rflags_defs avail_def)
  have notin: "?b \<notin> set (take ?len (mt_addr ?t))"
    using inv stack by (auto simp: mem_inv_def)
  have "set (take ?len (mt_addr ?t)) = {b \<in> mem_blocks. mem_flag (memhdrs ?s b) = MEM_FREE_FLAG}"
    using inv stack notin by (auto simp: mem_inv_def)
  then have "mem_inv ?s"
    using inv stack b by (auto simp: mem_inv_def free_stack_def)
  moreover have "?b + sizeof_memhdr \<notin> live s" using b by (auto simp: live_def)
  moreover have "live ?s = insert (?b + sizeof_memhdr) (live s)"
    using b by (auto simp: live_def)
  ultimately show ?thesis using call by (auto simp: avail_def mem_rest_def)
qed

lemma avail_live: "mem_inv s \<Longrightarrow> avail s + card (live s) = MEM_BLOCKS"
proof -
  assume inv: "mem_inv s"
  let ?F = "{b \<in> mem_blocks. mem_flag (memhdrs s b) = MEM_FREE_FLAG}"
  let ?U = "{b \<in> mem_blocks. mem_flag (memhdrs s b) = MEM_USED_FLAG}"
  have "length (free_stack s) = mt_len (freemem s)"
    using inv by (simp add: free_stack_def mem_inv_def MEM_BLOCKS_def MEM_TABLE_SIZE_def)
  then have "avail s = card ?F"
    using inv distinct_card [of "free_stack s"] by (simp add: avail_def mem_inv_def)
  moreover have "card (live s) = card ?U"
    by (simp add: live_def card_image inj_on_def)
  moreover have "?F \<union> ?U = mem_blocks" "?F \<inter> ?U = {}" using inv by (auto simp: mem_inv_def)
  then have "card ?F + card ?U = MEM_BLOCKS"
    using card_Un_disjoint [of ?F ?U] card_mem_blocks by simp
  ultimately show ?thesis by simp
qed

lemma mem_free_ok:
  assumes inv: "mem_inv s" and a: "a \<in> live s"
  shows "\<exists>s'. mem_free a s = Inr s' \<and> mem_inv s' \<and> live s' = live s - {a} \<and>
           avail s' = avail s + 1 \<and> mem_rest s s'"
proof -
  let ?t = "freemem s"
  let ?b = "a - sizeof_memhdr"
  let ?s = "s\<lparr>freemem := \<lparr>mt_len = mt_len ?t + 1, mt_addr = (mt_addr ?t)[mt_len ?t := ?b]\<rparr>,
              memhdrs := (memhdrs s)(?b := (memhdrs s ?b)\<lparr>mem_flag := MEM_FREE_FLAG\<rparr>)\<rparr>"
  have b: "?b \<in> mem_blocks" "mem_flag (memhdrs s ?b) = MEM_USED_FLAG"
    using a by (auto simp: live_def)
  have "finite (live s)" by (simp add: live_def)
  then have "card (live s) > 0" using a by (auto simp: card_gt_0_iff)
  then have lt: "mt_len ?t < MEM_BLOCKS"
    using avail_live [OF inv] by (simp add: avail_def)
  then have len: "mt_len ?t < length (mt_addr ?t)" "mt_len ?t < MEM_TABLE_SIZE - 1"
    using inv by (auto simp: mem_inv_def MEM_BLOCKS_def MEM_TABLE_SIZE_def)
  have call: "mem_free a s = Inr ?s"
    using b len by (simp add: mem_free_def Let_def rflags_defs)
  have stack: "free_stack ?s = free_stack s @ [?b]"
    using len by (simp add: free_stack_def take_list_update_snoc)
  have "?b \<notin> set (free_stack s)" using inv b by (auto simp: mem_inv_def)
  moreover have "set (free_stack ?s) = {b \<in> mem_blocks. mem_flag (memhdrs ?s b) = MEM_FREE_FLAG}"
    unfolding stack using inv b by (auto simp: mem_inv_def)
  ultimately have "mem_inv ?s"
    using inv b lt stack by (auto simp: mem_inv_def)
  moreover have "live ?s = live s - {a}" using b a by (auto simp: live_def)
  ultimately show ?thesis using call by (auto simp: avail_def mem_rest_def)
qed

lemma mem_free_not_live:
  assumes "mem_inv s" and "a - sizeof_memhdr \<in> mem_blocks" and "a \<notin> live s"
  shows "mem_free a s = Inl Panic"
proof -
  have "mem_flag (memhdrs s (a - sizeof_memhdr)) \<noteq> MEM_USED_FLAG"
    using assms(2,3) by (force simp: live_def)
  then show ?thesis by (simp add: mem_free_def panic_def Let_def rflags_defs)
qed

section \<open>The allocator interface\<close>

text \<open>A run of \<open>n\<close> requests to any allocation function.\<close>

fun alloc_n :: "(u32 \<Rightarrow> string \<Rightarrow> 's \<Rightarrow> (addr \<times> 's) res) \<Rightarrow> nat \<Rightarrow> u32 \<Rightarrow> string \<Rightarrow> 's \<Rightarrow> (addr list \<times> 's) res" where
  "alloc_n alloc 0 sz nm s = Inr ([], s)"
| "alloc_n alloc (Suc n) sz nm s =
     bindr (alloc sz nm s) (\<lambda>(a, s1). bindr (alloc_n alloc n sz nm s1) (\<lambda>(as, s2). Inr (a # as, s2)))"

text \<open>
  What the rest of the kernel may rely on. \<open>rest s s'\<close> says that nothing but the allocator's own state
  differs; \<open>fits sz\<close> says which requests are served.
\<close>

locale block_allocator =
  fixes alloc :: "u32 \<Rightarrow> string \<Rightarrow> 's \<Rightarrow> (addr \<times> 's) res"
    and free :: "addr \<Rightarrow> 's \<Rightarrow> 's res"
    and inv :: "'s \<Rightarrow> bool"
    and handed_out :: "'s \<Rightarrow> addr set"
    and room :: "'s \<Rightarrow> nat"
    and rest :: "'s \<Rightarrow> 's \<Rightarrow> bool"
    and fits :: "u32 \<Rightarrow> bool"
  assumes alloc_law: "inv s \<Longrightarrow> fits sz \<Longrightarrow> 0 < room s \<Longrightarrow>
      \<exists>a s'. alloc sz nm s = Inr (a, s') \<and> inv s' \<and> a \<notin> handed_out s \<and>
        handed_out s' = insert a (handed_out s) \<and> room s' = room s - 1 \<and> rest s s'"
    and alloc_full: "room s = 0 \<Longrightarrow> alloc sz nm s = Inl Panic"
    and free_law: "inv s \<Longrightarrow> a \<in> handed_out s \<Longrightarrow>
      \<exists>s'. free a s = Inr s' \<and> inv s' \<and> handed_out s' = handed_out s - {a} \<and>
        room s' = room s + 1 \<and> rest s s'"
    and rest_refl: "rest s s"
    and rest_trans: "rest s s' \<Longrightarrow> rest s' s'' \<Longrightarrow> rest s s''"
begin

lemma allocE:
  assumes "inv s" and "fits sz" and "0 < room s"
  obtains a s' where "alloc sz nm s = Inr (a, s')" and "inv s'" and "a \<notin> handed_out s"
    and "handed_out s' = insert a (handed_out s)" and "room s' = room s - 1" and "rest s s'"
  using alloc_law [OF assms, of nm] by blast

lemma freeE:
  assumes "inv s" and "a \<in> handed_out s"
  obtains s' where "free a s = Inr s'" and "inv s'" and "handed_out s' = handed_out s - {a}"
    and "room s' = room s + 1" and "rest s s'"
  using free_law [OF assms] by blast

text \<open>Taking a block and giving it back leaves the allocator with the blocks it had.\<close>

lemma alloc_free:
  assumes "inv s" and "fits sz" and "0 < room s"
  shows "\<exists>a s1 s2. alloc sz nm s = Inr (a, s1) \<and> free a s1 = Inr s2 \<and> inv s2 \<and>
           handed_out s2 = handed_out s \<and> room s2 = room s \<and> rest s s2"
proof -
  obtain a s1 where 1: "alloc sz nm s = Inr (a, s1)" "inv s1" "a \<notin> handed_out s"
    "handed_out s1 = insert a (handed_out s)" "room s1 = room s - 1" "rest s s1"
    by (rule allocE [OF assms])
  then have "a \<in> handed_out s1" by simp
  then obtain s2 where "free a s1 = Inr s2" "inv s2" "handed_out s2 = handed_out s1 - {a}"
    "room s2 = room s1 + 1" "rest s1 s2" by (rule freeE [OF 1(2)])
  with 1 assms(3) rest_trans [OF 1(6)] show ?thesis by auto
qed

text \<open>Every block can be handed out, each to one client, and then the allocator is exhausted.\<close>

lemma alloc_n_distinct:
  assumes "inv s" and "fits sz" and "n \<le> room s"
  shows "\<exists>as s'. alloc_n alloc n sz nm s = Inr (as, s') \<and> inv s' \<and> length as = n \<and> distinct as \<and>
           set as \<inter> handed_out s = {} \<and> handed_out s' = handed_out s \<union> set as \<and> room s' = room s - n"
  using assms
proof (induction n arbitrary: s)
  case 0
  then show ?case by simp
next
  case (Suc n)
  have "0 < room s" using Suc.prems(3) by simp
  with Suc.prems obtain a s1 where 1: "alloc sz nm s = Inr (a, s1)" "inv s1" "a \<notin> handed_out s"
    "handed_out s1 = insert a (handed_out s)" "room s1 = room s - 1" "rest s s1"
    using allocE [of s sz nm] by blast
  have "n \<le> room s1" using 1(5) Suc.prems(3) by simp
  from Suc.IH [OF 1(2) Suc.prems(2) this] obtain as s2 where 2: "alloc_n alloc n sz nm s1 = Inr (as, s2)"
    "inv s2" "length as = n" "distinct as" "set as \<inter> handed_out s1 = {}"
    "handed_out s2 = handed_out s1 \<union> set as" "room s2 = room s1 - n" by blast
  show ?case
    by (rule exI [of _ "a # as"], rule exI [of _ s2]) (use 1 2 in auto)
qed

end

definition mem_fits :: "u32 \<Rightarrow> bool" where
  "mem_fits sz = (ucast sz \<le> MEM_GRANULARITY)"

interpretation kmem: block_allocator mem_alloc mem_free mem_inv live avail mem_rest mem_fits
proof unfold_locales
  fix s :: "'a mem_state_scheme" and sz nm a
  show "mem_inv s \<Longrightarrow> mem_fits sz \<Longrightarrow> 0 < avail s \<Longrightarrow>
      \<exists>a s'. mem_alloc sz nm s = Inr (a, s') \<and> mem_inv s' \<and> a \<notin> live s \<and>
        live s' = insert a (live s) \<and> avail s' = avail s - 1 \<and> mem_rest s s'"
    using mem_alloc_ok [of s sz nm] by (simp add: mem_fits_def)
  show "mem_inv s \<Longrightarrow> a \<in> live s \<Longrightarrow>
      \<exists>s'. mem_free a s = Inr s' \<and> mem_inv s' \<and> live s' = live s - {a} \<and>
        avail s' = avail s + 1 \<and> mem_rest s s'"
    by (rule mem_free_ok)
  show "avail s = 0 \<Longrightarrow> mem_alloc sz nm s = Inl Panic" by (rule mem_alloc_oom)
qed (auto intro: mem_rest_trans)

text \<open>
  The allocator's predicates depend on its own two fields only. Rewriting with \<open>mem_view\<close> lets the
  record simplifier see that an update of any other field keeps them.
\<close>

definition mem_ok :: "memtbl \<Rightarrow> (addr \<Rightarrow> memhdr) \<Rightarrow> bool" where
  "mem_ok t h =
     (length (mt_addr t) = MEM_TABLE_SIZE \<and> mt_len t \<le> MEM_BLOCKS \<and>
      distinct (take (mt_len t) (mt_addr t)) \<and>
      set (take (mt_len t) (mt_addr t)) = {b \<in> mem_blocks. mem_flag (h b) = MEM_FREE_FLAG} \<and>
      (\<forall>b \<in> mem_blocks. (mem_flag (h b) = MEM_FREE_FLAG \<or> mem_flag (h b) = MEM_USED_FLAG) \<and>
         mh_start (h b) = b + sizeof_memhdr))"

definition live_of :: "(addr \<Rightarrow> memhdr) \<Rightarrow> addr set" where
  "live_of h = (\<lambda>b. b + sizeof_memhdr) ` {b \<in> mem_blocks. mem_flag (h b) = MEM_USED_FLAG}"

lemma mem_view:
  "mem_inv s = mem_ok (freemem s) (memhdrs s)" "live s = live_of (memhdrs s)"
  "avail s = mt_len (freemem s)"
  by (simp_all add: mem_inv_def free_stack_def mem_ok_def live_def live_of_def avail_def)

lemma finite_live_of [simp]: "finite (live_of h)"
  by (simp add: live_of_def)

lemma live_length:
  assumes "distinct xs" and "set xs \<subseteq> live_of h"
  shows "length xs \<le> MEM_BLOCKS"
proof -
  have "card (set xs) \<le> card (live_of h)" using assms(2) by (intro card_mono) auto
  moreover have "card (live_of h) \<le> card {b \<in> mem_blocks. mem_flag (h b) = MEM_USED_FLAG}"
    unfolding live_of_def by (rule card_image_le) simp
  moreover have "card {b \<in> mem_blocks. mem_flag (h b) = MEM_USED_FLAG} \<le> card mem_blocks"
    by (rule card_mono) auto
  ultimately show ?thesis using distinct_card [OF assms(1)] by (simp add: card_mem_blocks)
qed

lemma mem_alloc_rest:
  assumes "mem_alloc sz nm s = Inr (a, s')"
  shows "mem_rest s s'"
proof -
  obtain t h where "s' = s\<lparr>freemem := t, memhdrs := h\<rparr>"
    using assms by (auto simp: mem_alloc_def Let_def rflags_defs panic_def split: if_splits)
  then show ?thesis by (rule mem_restI)
qed

lemma mem_free_rest:
  assumes "mem_free a s = Inr s'"
  shows "mem_rest s s'"
proof -
  obtain t h where "s' = s\<lparr>memhdrs := h, freemem := t\<rparr>"
    using assms by (auto simp: mem_free_def Let_def rflags_defs panic_def split: if_splits)
  then show ?thesis by (intro mem_restI [where t = t and h = h]) simp
qed

section \<open>Blocks do not overlap\<close>

lemma live_block: "a \<in> live_of h \<Longrightarrow> \<exists>i < MEM_BLOCKS. a = mem_block i + sizeof_memhdr"
  by (auto simp: live_of_def mem_blocks_def)

lemma unat_region:
  assumes "x \<in> region (mem_block i + sizeof_memhdr) n" and "i < MEM_BLOCKS" and "n \<le> 1048528"
  shows "\<exists>k < n. unat x = 10485760 + i * 1048576 + 48 + k"
proof -
  from assms(1) obtain k where k: "k < n" "x = mem_block i + sizeof_memhdr + of_nat k" by (auto simp: region_def)
  have "x = of_nat (10485760 + i * 1048576 + 48 + k)"
    by (simp add: k(2) mem_block_def MEM_START_def MEM_GRANULARITY_def sizeof_memhdr_def)
  then have "unat x = 10485760 + i * 1048576 + 48 + k"
    using k(1) assms(2,3) by (simp add: MEM_BLOCKS_def unat_of_nat64 del: of_nat_add of_nat_mult)
  with k(1) show ?thesis by blast
qed

lemma live_regions_disjoint:
  assumes "a \<in> live_of h" and "b \<in> live_of h" and "a \<noteq> b" and "m \<le> 1048528" and "n \<le> 1048528"
  shows "region a m \<inter> region b n = {}"
proof -
  from assms(1,2) obtain i j where ij: "i < MEM_BLOCKS" "a = mem_block i + sizeof_memhdr"
    "j < MEM_BLOCKS" "b = mem_block j + sizeof_memhdr" using live_block by metis
  with assms(3) have "i \<noteq> j" by auto
  have False if x: "x \<in> region a m" "x \<in> region b n" for x
  proof -
    from unat_region [OF x(1) [unfolded ij] ij(1) assms(4)] unat_region [OF x(2) [unfolded ij] ij(3) assms(5)]
    obtain k l where "k < m" "l < n" "i * 1048576 + k = j * 1048576 + l" by auto
    moreover have "(i * 1048576 + k) div 1048576 = i" "(j * 1048576 + l) div 1048576 = j"
      using assms(4,5) \<open>k < m\<close> \<open>l < n\<close> by simp_all
    ultimately have "i = j" by metis
    with \<open>i \<noteq> j\<close> show False ..
  qed
  then show ?thesis by blast
qed

lemma live_header_apart:
  assumes "a \<in> live_of h" and "b \<in> mem_blocks" and "n \<le> 1048528"
  shows "region a n \<inter> region b 48 = {}"
proof -
  from assms(1) obtain i where i: "i < MEM_BLOCKS" "a = mem_block i + sizeof_memhdr" using live_block by metis
  from assms(2) obtain j where j: "j < MEM_BLOCKS" "b = mem_block j" by (auto simp: mem_blocks_def)
  have False if x: "x \<in> region a n" "x \<in> region b 48" for x
  proof -
    from unat_region [OF x(1) [unfolded i] i(1) assms(3)] obtain k where
      k: "k < n" "unat x = 10485760 + i * 1048576 + 48 + k" by auto
    from x(2) obtain l where l: "l < 48" "x = mem_block j + of_nat l" by (auto simp: region_def j)
    have "x = of_nat (10485760 + j * 1048576 + l)"
      by (simp add: l(2) mem_block_def MEM_START_def MEM_GRANULARITY_def)
    then have "unat x = 10485760 + j * 1048576 + l"
      using l(1) j(1) by (simp add: MEM_BLOCKS_def unat_of_nat64 del: of_nat_add of_nat_mult)
    then have "i * 1048576 + (48 + k) = j * 1048576 + l" using k(2) by simp
    then have "(i * 1048576 + (48 + k)) mod 1048576 = (j * 1048576 + l) mod 1048576" by (rule arg_cong)
    moreover have "(i * 1048576 + (48 + k)) mod 1048576 = 48 + k" "(j * 1048576 + l) mod 1048576 = l"
      using k(1) l(1) assms(3) by simp_all
    ultimately show False using l(1) by linarith
  qed
  then show ?thesis by blast
qed

section \<open>Properties\<close>

text \<open>
  C26: after \<open>mem_init\<close> the allocator serves exactly 1490 requests of any size up to a megabyte, every one
  with a block of its own, and the next request panics.
\<close>

theorem mem_alloc_exhausts:
  assumes "length (mt_addr (freemem s)) = MEM_TABLE_SIZE" and "ucast sz \<le> MEM_GRANULARITY"
  shows "\<exists>as s'. alloc_n mem_alloc 1490 sz nm (mem_init s) = Inr (as, s') \<and> length as = 1490 \<and>
           distinct as \<and> live s' = set as \<and> mem_alloc sz nm s' = Inl Panic"
proof -
  note init = mem_init_inv [OF assms(1)]
  have "mem_fits sz" using assms(2) by (simp add: mem_fits_def)
  with init obtain as s' where "alloc_n mem_alloc 1490 sz nm (mem_init s) = Inr (as, s')" "length as = 1490"
    "distinct as" "live s' = live (mem_init s) \<union> set as" "avail s' = avail (mem_init s) - 1490"
    using kmem.alloc_n_distinct [of "mem_init s" sz 1490 nm] by (auto simp: MEM_BLOCKS_def)
  with init mem_alloc_oom [of s' sz nm] show ?thesis by (auto simp: MEM_BLOCKS_def)
qed

text \<open>
  C28: allocating a block and releasing it gives the allocator back the blocks it had, restores the flags
  register and touches nothing outside the allocator.
\<close>

theorem mem_alloc_free_restores:
  assumes "mem_inv s" and "ucast sz \<le> MEM_GRANULARITY" and "0 < avail s"
  shows "\<exists>a s1 s2. mem_alloc sz nm s = Inr (a, s1) \<and> mem_free a s1 = Inr s2 \<and> mem_inv s2 \<and>
           a \<notin> live s \<and> live s2 = live s \<and> avail s2 = avail s \<and> mem_rest s s2"
proof -
  have "mem_fits sz" using assms(2) by (simp add: mem_fits_def)
  with kmem.alloc_free [OF assms(1) this assms(3), of nm] mem_alloc_ok [OF assms, of nm]
  show ?thesis by auto
qed

text \<open>
  A run of the allocator: after \<open>mem_init\<close>, any sequence of allocations that return, releases of blocks that are in use, and
  other code that leaves the allocator's own variables alone; the list holds the addresses that were handed out and not released since.
\<close>

inductive mem_run :: "'a mem_state_scheme \<Rightarrow> addr list \<Rightarrow> 'a mem_state_scheme \<Rightarrow> bool" for s0 where
  start: "mem_run s0 [] (mem_init s0)"
| alloc: "mem_run s0 H s \<Longrightarrow> mem_alloc sz nm s = Inr (a, s') \<Longrightarrow> mem_run s0 (a # H) s'"
| free: "mem_run s0 H s \<Longrightarrow> a \<in> set H \<Longrightarrow> mem_free a s = Inr s' \<Longrightarrow> mem_run s0 (remove1 a H) s'"
| other: "mem_run s0 H s \<Longrightarrow> freemem s' = freemem s \<Longrightarrow> memhdrs s' = memhdrs s \<Longrightarrow> mem_run s0 H s'"

lemma mem_run_inv:
  assumes "mem_run s0 H s" and "length (mt_addr (freemem s0)) = MEM_TABLE_SIZE"
  shows "mem_inv s \<and> distinct H \<and> live s = set H"
  using assms(1)
proof induction
  case start
  then show ?case using mem_init_inv [OF assms(2)] by simp
next
  case (alloc H s sz nm a s')
  have "ucast sz \<le> MEM_GRANULARITY" using alloc.hyps(2) mem_alloc_large [of sz nm s] by (rule_tac ccontr) (simp add: not_le)
  moreover have "0 < avail s" using alloc.hyps(2) mem_alloc_oom [of s sz nm] by (rule_tac ccontr) simp
  ultimately show ?case using mem_alloc_ok [of s sz nm] alloc by auto
next
  case (free H s a s')
  with mem_free_ok [of s a] show ?case by auto
next
  case (other H s s')
  then show ?case by (simp add: mem_view)
qed

text \<open>
  C27: blocks in use never overlap. After any run of allocations and releases the addresses handed out are all different, the
  usable bytes of two of them are disjoint, none lies in the header of any block, and all lie in the memory of the allocator.
  While fewer than 1490 are in use, a request of up to a megabyte returns a block that is not; and every block in use can be released.
\<close>

theorem mem_blocks_disjoint:
  assumes "length (mt_addr (freemem s0)) = MEM_TABLE_SIZE" and "mem_run s0 H s"
  shows "distinct H \<and> (\<forall>a \<in> set H. \<forall>b \<in> set H. a \<noteq> b \<longrightarrow> region a 1048528 \<inter> region b 1048528 = {}) \<and>
    (\<forall>a \<in> set H. \<forall>c \<in> mem_blocks. region a 1048528 \<inter> region c 48 = {}) \<and>
    (\<forall>a \<in> set H. \<forall>x \<in> region a 1048528. unat MEM_START \<le> unat x \<and> unat x < unat MEM_START + 1490 * 1048576) \<and>
    (\<forall>sz nm. length H < 1490 \<longrightarrow> ucast sz \<le> MEM_GRANULARITY \<longrightarrow> (\<exists>a s'. mem_alloc sz nm s = Inr (a, s') \<and> a \<notin> set H)) \<and>
    (\<forall>a \<in> set H. \<exists>s'. mem_free a s = Inr s')"
proof -
  have inv: "mem_inv s" "distinct H" "live s = set H" using mem_run_inv [OF assms(2,1)] by simp_all
  have lv: "a \<in> live_of (memhdrs s)" if "a \<in> set H" for a using inv(3) that by (auto simp: mem_view)
  have "unat MEM_START \<le> unat x \<and> unat x < unat MEM_START + 1490 * 1048576" if "a \<in> set H" "x \<in> region a 1048528" for a x
  proof -
    from live_block [OF lv [OF that(1)]] obtain i where i: "i < MEM_BLOCKS" "a = mem_block i + sizeof_memhdr" by blast
    with unat_region [OF that(2) [unfolded i(2)] i(1)] show ?thesis by (auto simp: MEM_START_def MEM_BLOCKS_def)
  qed
  moreover have "\<exists>a s'. mem_alloc sz nm s = Inr (a, s') \<and> a \<notin> set H" if "length H < 1490" "ucast sz \<le> MEM_GRANULARITY" for sz nm
    using avail_live [OF inv(1)] distinct_card [OF inv(2)] that mem_alloc_ok [OF inv(1) that(2), of nm] inv(3) by (auto simp: MEM_BLOCKS_def)
  moreover have "\<exists>s'. mem_free a s = Inr s'" if "a \<in> set H" for a using mem_free_ok [OF inv(1)] inv(3) that by blast
  ultimately show ?thesis
    using inv(2) live_regions_disjoint [OF lv lv] live_header_apart [OF lv] by simp
qed

text \<open>Free and used blocks always add up to 1490, and releasing a block that is not in use panics.\<close>

theorem mem_accounting:
  assumes "mem_inv s"
  shows "avail s + card (live s) = 1490 \<and>
         (\<forall>b \<in> mem_blocks. b + sizeof_memhdr \<notin> live s \<longrightarrow> mem_free (b + sizeof_memhdr) s = Inl Panic)"
  using avail_live [OF assms] mem_free_not_live [OF assms] by (auto simp: MEM_BLOCKS_def)

end
