(* ===== verification/KList.thy ===== *)
theory KList
  imports Prelude
begin

text \<open>
  \<^verbatim>\<open>kernel/lib/list.c\<close>: the intrusive singly linked list every kernel queue is built from. A list
  control block (\<open>listctl\<close>) holds a 16-bit element count and pointers to the first and last item; the
  items are linked through the \<open>next\<close> field of the \<open>list_item\<close> they start with. The operations are
  polymorphic in the type of item addresses: a null pointer is \<open>None\<close>, and the store of \<open>next\<close> fields
  is an explicit argument and result.

  The abstraction \<open>wf_list\<close> relates a control block and a store to the sequence of items. Each
  operation is shown to implement the sequence operation its name promises, and the interface
  \<open>fifo_queue\<close> states what clients rely on.
\<close>

section \<open>Data\<close>

record 'p listctl =
  count :: u16
  head :: "'p option"
  tail :: "'p option"

type_synonym 'p linkmap = "'p \<Rightarrow> 'p option"

section \<open>Operations\<close>

definition list_init :: "'p listctl" where
  "list_init = \<lparr>count = 0, head = None, tail = None\<rparr>"

definition list_empty :: "'p listctl \<Rightarrow> bool" where
  "list_empty l = (count l = 0)"

definition list_popfront :: "'p listctl \<Rightarrow> 'p linkmap \<Rightarrow> ('p option \<times> 'p listctl \<times> 'p linkmap) res" where
  "list_popfront l nx =
     (if list_empty l then Inr (None, l, nx)
      else
        let l1 = l\<lparr>count := count l - 1\<rparr> in
        case head l1 of
          None \<Rightarrow> Inl NullPtr
        | Some first \<Rightarrow> Inr (Some first, l1\<lparr>head := nx first\<rparr>, nx(first := None)))"

definition list_pushfront :: "'p listctl \<Rightarrow> 'p \<Rightarrow> 'p linkmap \<Rightarrow> 'p listctl \<times> 'p linkmap" where
  "list_pushfront l item nx =
     (if list_empty l
      then (l\<lparr>head := Some item, tail := Some item, count := count l + 1\<rparr>, nx(item := None))
      else (l\<lparr>head := Some item, count := count l + 1\<rparr>, nx(item := head l)))"

definition list_pushback :: "'p listctl \<Rightarrow> 'p \<Rightarrow> 'p linkmap \<Rightarrow> ('p listctl \<times> 'p linkmap) res" where
  "list_pushback l item nx =
     (let nx1 = nx(item := None) in
      if list_empty l
      then Inr (l\<lparr>head := Some item, tail := Some item, count := count l + 1\<rparr>, nx1)
      else
        case tail l of
          None \<Rightarrow> Inl NullPtr
        | Some t \<Rightarrow>
            (let nx2 = nx1(t := Some item)
             in Inr (l\<lparr>tail := nx2 t, count := count l + 1\<rparr>, nx2)))"

definition list_insert :: "'p listctl \<Rightarrow> 'p option \<Rightarrow> 'p \<Rightarrow> 'p linkmap \<Rightarrow> 'p listctl \<times> 'p linkmap" where
  "list_insert l prev_item new_item nx =
     (case prev_item of
        None \<Rightarrow> (l, nx)
      | Some prev \<Rightarrow>
          (let post_item = nx prev;
               nx1 = nx(prev := Some new_item);
               nx2 = nx1(new_item := post_item)
           in (l\<lparr>count := count l + 1\<rparr>, nx2)))"

definition list_remove :: "'p listctl \<Rightarrow> 'p option \<Rightarrow> 'p linkmap \<Rightarrow> 'p listctl \<times> 'p linkmap" where
  "list_remove l prev_item nx =
     (case prev_item of
        None \<Rightarrow> (l, nx)
      | Some prev \<Rightarrow>
          (case nx prev of
             None \<Rightarrow> (l, nx)
           | Some rem \<Rightarrow>
               (let nx1 = nx(prev := nx rem);
                    nx2 = nx1(rem := None);
                    l1 = (if nx2 prev = None then l\<lparr>tail := Some prev\<rparr> else l)
                in (l1\<lparr>count := count l1 - 1\<rparr>, nx2))))"

definition list_head :: "'p listctl \<Rightarrow> 'p option" where
  "list_head l = head l"

definition list_next :: "'p \<Rightarrow> 'p linkmap \<Rightarrow> 'p option" where
  "list_next item nx = nx item"

section \<open>The sequence a list stands for\<close>

primrec lpath :: "'p linkmap \<Rightarrow> 'p option \<Rightarrow> 'p list \<Rightarrow> bool" where
  "lpath nx p [] = (p = None)"
| "lpath nx p (x # xs) = (p = Some x \<and> lpath nx (nx x) xs)"

definition wf_list :: "'p linkmap \<Rightarrow> 'p listctl \<Rightarrow> 'p list \<Rightarrow> bool" where
  "wf_list nx l xs =
     (lpath nx (head l) xs \<and> length xs < 65536 \<and> count l = of_nat (length xs) \<and>
      (xs \<noteq> [] \<longrightarrow> tail l = Some (last xs)))"

definition list_pushback_can :: "'p \<Rightarrow> 'p list \<Rightarrow> bool" where
  "list_pushback_can x xs = (x \<notin> set xs \<and> length xs < 65535)"

lemma lpath_None [simp]: "lpath nx None xs = (xs = [])"
  by (cases xs) auto

lemma lpath_Some: "lpath nx (Some a) xs = (\<exists>ys. xs = a # ys \<and> lpath nx (nx a) ys)"
  by (cases xs) auto

lemma lpath_upd_notin [simp]: "a \<notin> set xs \<Longrightarrow> lpath (nx(a := v)) p xs = lpath nx p xs"
  by (induction xs arbitrary: p) auto

lemma lpath_cong: "(\<And>x. x \<in> set xs \<Longrightarrow> nx' x = nx x) \<Longrightarrow> lpath nx' p xs = lpath nx p xs"
  by (induction xs arbitrary: p) auto

lemma lpath_unique: "lpath nx p xs \<Longrightarrow> lpath nx p ys \<Longrightarrow> xs = ys"
  by (induction xs arbitrary: p ys) (auto simp: lpath_Some)

lemma lpath_split:
  "lpath nx p (xs @ y # ys) \<Longrightarrow> lpath nx (Some y) (y # ys)"
  by (induction xs arbitrary: p) auto

lemma lpath_distinct: "lpath nx p xs \<Longrightarrow> distinct xs"
proof (induction xs arbitrary: p)
  case Nil
  then show ?case by simp
next
  case (Cons x xs)
  then have path: "lpath nx (nx x) xs" by simp
  have "x \<notin> set xs"
  proof
    assume "x \<in> set xs"
    then obtain us vs where xs: "xs = us @ x # vs" by (auto simp: in_set_conv_decomp)
    with path have "lpath nx (nx x) vs" using lpath_split by fastforce
    with path xs have "us @ x # vs = vs" using lpath_unique by blast
    then show False by (metis append_Cons append_Nil append_assoc append_self_conv2 list.distinct(1))
  qed
  with Cons.IH [OF path] show ?case by simp
qed

lemma lpath_snoc:
  assumes "lpath nx p xs" and "xs \<noteq> []" and "nx' (last xs) = Some x" and "nx' x = None"
    and "\<And>y. y \<in> set (butlast xs) \<Longrightarrow> nx' y = nx y"
  shows "lpath nx' p (xs @ [x])"
  using assms
proof (induction xs arbitrary: p)
  case Nil
  then show ?case by simp
next
  case (Cons y ys)
  then show ?case by (cases "ys = []") auto
qed

lemma wf_list_distinct: "wf_list nx l xs \<Longrightarrow> distinct xs"
  using lpath_distinct [of nx "head l" xs] by (simp add: wf_list_def)

lemma wf_list_unique: "wf_list nx l xs \<Longrightarrow> wf_list nx l ys \<Longrightarrow> xs = ys"
  using lpath_unique [of nx "head l" xs ys] by (simp add: wf_list_def)

lemma wf_list_length: "wf_list nx l xs \<Longrightarrow> length xs < 65536"
  by (simp add: wf_list_def)

text \<open>A store update outside a list leaves it as it is: lists of different objects share one store.\<close>

lemma wf_list_frame:
  "wf_list nx l xs \<Longrightarrow> (\<And>y. y \<in> set xs \<Longrightarrow> nx' y = nx y) \<Longrightarrow> wf_list nx' l xs"
  using lpath_cong [of xs nx' nx "head l"] by (simp add: wf_list_def)

lemma list_init_wf: "wf_list nx list_init []"
  by (simp add: wf_list_def list_init_def)

lemma list_empty_iff: "wf_list nx l xs \<Longrightarrow> list_empty l = (xs = [])"
  by (auto simp: wf_list_def list_empty_def of_nat16_eq_0)

lemma list_head_wf: "wf_list nx l xs \<Longrightarrow> list_head l = (case xs of [] \<Rightarrow> None | x # _ \<Rightarrow> Some x)"
  by (auto simp: wf_list_def list_head_def split: list.splits)

section \<open>Each operation implements its sequence operation\<close>

lemma list_popfront_Nil: "wf_list nx l [] \<Longrightarrow> list_popfront l nx = Inr (None, l, nx)"
  by (simp add: list_popfront_def list_empty_iff)

lemma list_popfront_Cons:
  assumes "wf_list nx l (x # xs)"
  shows "list_popfront l nx =
           Inr (Some x, l\<lparr>count := count l - 1, head := nx x\<rparr>, nx(x := None)) \<and>
         wf_list (nx(x := None)) (l\<lparr>count := count l - 1, head := nx x\<rparr>) xs"
proof -
  have "x \<notin> set xs" using wf_list_distinct [OF assms] by simp
  moreover have "\<not> list_empty l" using list_empty_iff [OF assms] by simp
  ultimately show ?thesis using assms
    by (auto simp: list_popfront_def wf_list_def Let_def)
qed

lemma list_pushfront_wf:
  assumes "wf_list nx l xs" and "x \<notin> set xs" and "length xs < 65535"
    and "list_pushfront l x nx = (l', nx')"
  shows "wf_list nx' l' (x # xs) \<and> (\<forall>y. y \<noteq> x \<longrightarrow> nx' y = nx y)"
proof -
  have "list_empty l = (xs = [])" using assms(1) by (rule list_empty_iff)
  with assms show ?thesis
    by (cases "xs = []") (auto simp: list_pushfront_def wf_list_def)
qed

lemma list_pushback_wf:
  assumes wf: "wf_list nx l xs" and x: "x \<notin> set xs" and len: "length xs < 65535"
  obtains l' nx' where "list_pushback l x nx = Inr (l', nx')" and "wf_list nx' l' (xs @ [x])"
    and "\<And>y. y \<notin> set xs \<Longrightarrow> y \<noteq> x \<Longrightarrow> nx' y = nx y"
proof (cases "xs = []")
  case True
  with wf list_empty_iff [OF wf] that [of
      "l\<lparr>head := Some x, tail := Some x, count := count l + 1\<rparr>" "nx(x := None)"] show thesis
    by (auto simp: list_pushback_def wf_list_def Let_def)
next
  case False
  let ?nx = "nx(x := None, last xs := Some x)"
  from wf have path: "lpath nx (head l) xs" by (simp add: wf_list_def)
  have last: "last xs \<noteq> x" using False x by (metis last_in_set)
  have "y \<noteq> last xs \<and> y \<noteq> x" if "y \<in> set (butlast xs)" for y
    using that x lpath_distinct [OF path] in_set_butlastD [OF that]
    by (metis False append_butlast_last_id distinct_butlast not_distinct_conv_prefix)
  then have "lpath ?nx (head l) (xs @ [x])"
    using last by (intro lpath_snoc [OF path False]) auto
  moreover have "?nx y = nx y" if "y \<notin> set xs" and "y \<noteq> x" for y
    using that False last_in_set by fastforce
  ultimately show thesis
    using False wf len list_empty_iff [OF wf]
    by (intro that [of "l\<lparr>tail := Some x, count := count l + 1\<rparr>" ?nx])
      (auto simp: list_pushback_def wf_list_def Let_def)
qed

lemma lpath_insert:
  assumes "lpath nx p (us @ y # vs)" and "nx' y = Some x" and "nx' x = nx y"
    and "\<And>z. z \<in> set us \<union> set vs \<Longrightarrow> nx' z = nx z"
  shows "lpath nx' p (us @ y # x # vs)"
  using assms
proof (induction us arbitrary: p)
  case Nil
  then show ?case using lpath_cong [of vs nx' nx] by auto
next
  case (Cons u us)
  then show ?case by auto
qed

lemma list_insert_wf:
  assumes wf: "wf_list nx l (us @ y # vs)" and x: "x \<notin> set (us @ y # vs)"
    and len: "length (us @ y # vs) < 65535" and vs: "vs \<noteq> []"
    and ins: "list_insert l (Some y) x nx = (l', nx')"
  shows "wf_list nx' l' (us @ y # x # vs) \<and> (\<forall>z. z \<noteq> x \<longrightarrow> z \<noteq> y \<longrightarrow> nx' z = nx z)"
proof -
  from wf have path: "lpath nx (head l) (us @ y # vs)" by (simp add: wf_list_def)
  have "lpath nx' (head l) (us @ y # x # vs)"
    using lpath_distinct [OF path] x ins
    by (intro lpath_insert [OF path]) (auto simp: list_insert_def Let_def)
  with wf len vs ins show ?thesis
    by (auto simp: list_insert_def wf_list_def Let_def)
qed

lemma lpath_remove:
  assumes "lpath nx p (us @ y # z # vs)" and "nx' y = nx z"
    and "\<And>w. w \<in> set us \<union> set vs \<Longrightarrow> nx' w = nx w"
  shows "lpath nx' p (us @ y # vs)"
  using assms
proof (induction us arbitrary: p)
  case Nil
  then show ?case using lpath_cong [of vs nx' nx] by auto
next
  case (Cons u us)
  then show ?case by auto
qed

lemma lpath_next_mid: "lpath nx p (us @ y # vs) \<Longrightarrow> nx y = (case vs of [] \<Rightarrow> None | z # _ \<Rightarrow> Some z)"
  by (induction us arbitrary: p) (auto split: list.splits)

lemma list_remove_wf:
  assumes wf: "wf_list nx l (us @ y # z # vs)"
    and rem: "list_remove l (Some y) nx = (l', nx')"
  shows "wf_list nx' l' (us @ y # vs) \<and> nx' z = None \<and> (\<forall>w. w \<noteq> y \<longrightarrow> w \<noteq> z \<longrightarrow> nx' w = nx w)"
proof -
  from wf have path: "lpath nx (head l) (us @ y # z # vs)" by (simp add: wf_list_def)
  have nexts: "nx y = Some z" "nx z = (case vs of [] \<Rightarrow> None | w # _ \<Rightarrow> Some w)" "y \<noteq> z"
    using lpath_next_mid [OF path] lpath_next_mid [of nx "head l" "us @ [y]" z vs] path
      lpath_distinct [OF path] by auto
  have "lpath nx' (head l) (us @ y # vs)"
    using lpath_distinct [OF path] nexts rem
    by (intro lpath_remove [OF path]) (auto simp: list_remove_def Let_def)
  with nexts wf rem show ?thesis
    by (cases vs) (auto simp: list_remove_def wf_list_def Let_def)
qed

section \<open>The queue interface\<close>

text \<open>Sequences of queue operations, for any \<open>push\<close> and \<open>pop\<close>.\<close>

fun push_all :: "('p \<Rightarrow> 'q \<Rightarrow> 'q res) \<Rightarrow> 'p list \<Rightarrow> 'q \<Rightarrow> 'q res" where
  "push_all push [] q = Inr q"
| "push_all push (x # xs) q = bindr (push x q) (push_all push xs)"

fun pop_n :: "('q \<Rightarrow> ('p option \<times> 'q) res) \<Rightarrow> nat \<Rightarrow> 'q \<Rightarrow> ('p list \<times> 'q) res" where
  "pop_n pop 0 q = Inr ([], q)"
| "pop_n pop (Suc n) q =
     bindr (pop q) (\<lambda>(x, q1). bindr (pop_n pop n q1) (\<lambda>(ys, q2).
       Inr (case x of None \<Rightarrow> ys | Some y \<Rightarrow> y # ys, q2)))"

text \<open>
  What a client of a first-in first-out queue relies on. \<open>reps q xs\<close> says that the queue state \<open>q\<close>
  holds the sequence \<open>xs\<close>, and \<open>can x xs\<close> that \<open>x\<close> may be appended to \<open>xs\<close>.
\<close>

locale fifo_queue =
  fixes is_empty :: "'q \<Rightarrow> bool"
    and push :: "'p \<Rightarrow> 'q \<Rightarrow> 'q res"
    and pop :: "'q \<Rightarrow> ('p option \<times> 'q) res"
    and reps :: "'q \<Rightarrow> 'p list \<Rightarrow> bool"
    and can :: "'p \<Rightarrow> 'p list \<Rightarrow> bool"
  assumes is_empty_reps: "reps q xs \<Longrightarrow> is_empty q = (xs = [])"
    and push_reps: "reps q xs \<Longrightarrow> can x xs \<Longrightarrow> \<exists>q'. push x q = Inr q' \<and> reps q' (xs @ [x])"
    and pop_Cons: "reps q (x # xs) \<Longrightarrow> \<exists>q'. pop q = Inr (Some x, q') \<and> reps q' xs"
    and pop_Nil: "reps q [] \<Longrightarrow> pop q = Inr (None, q)"
begin

fun can_all :: "'p list \<Rightarrow> 'p list \<Rightarrow> bool" where
  "can_all [] ys = True"
| "can_all (x # xs) ys = (can x ys \<and> can_all xs (ys @ [x]))"

lemma push_all_reps:
  "reps q ys \<Longrightarrow> can_all xs ys \<Longrightarrow> \<exists>q'. push_all push xs q = Inr q' \<and> reps q' (ys @ xs)"
proof (induction xs arbitrary: q ys)
  case Nil
  then show ?case by simp
next
  case (Cons x xs)
  from Cons.prems push_reps [of q ys x] obtain q1 where
    q1: "push x q = Inr q1" "reps q1 (ys @ [x])" by auto
  with Cons.prems Cons.IH [of q1 "ys @ [x]"] show ?case by auto
qed

lemma pop_n_reps:
  "reps q (xs @ ys) \<Longrightarrow> \<exists>q'. pop_n pop (length xs) q = Inr (xs, q') \<and> reps q' ys"
proof (induction xs arbitrary: q)
  case Nil
  then show ?case by simp
next
  case (Cons x xs)
  from Cons.prems pop_Cons [of q x "xs @ ys"] obtain q1 where
    q1: "pop q = Inr (Some x, q1)" "reps q1 (xs @ ys)" by auto
  with Cons.IH [of q1] show ?case by auto
qed

text \<open>Items come out in the order they went in, behind those that were there before.\<close>

lemma fifo_order:
  assumes "reps q ys" and "can_all xs ys"
  shows "\<exists>q1 q2. push_all push xs q = Inr q1 \<and> pop_n pop (length ys + length xs) q1 = Inr (ys @ xs, q2) \<and>
           reps q2 [] \<and> is_empty q2"
proof -
  from push_all_reps [OF assms] obtain q1 where q1: "push_all push xs q = Inr q1" "reps q1 (ys @ xs)"
    by blast
  from q1 pop_n_reps [of q1 "ys @ xs" "[]"] obtain q2 where
    "pop_n pop (length (ys @ xs)) q1 = Inr (ys @ xs, q2)" "reps q2 []" by auto
  with q1 is_empty_reps show ?thesis by fastforce
qed

end

text \<open>\<open>list.c\<close> provides it: the queue state is the control block with the store of links.\<close>

definition klist_push :: "'p \<Rightarrow> 'p listctl \<times> 'p linkmap \<Rightarrow> ('p listctl \<times> 'p linkmap) res" where
  "klist_push x q = list_pushback (fst q) x (snd q)"

definition klist_pop :: "'p listctl \<times> 'p linkmap \<Rightarrow> ('p option \<times> 'p listctl \<times> 'p linkmap) res" where
  "klist_pop q = list_popfront (fst q) (snd q)"

definition klist_reps :: "'p listctl \<times> 'p linkmap \<Rightarrow> 'p list \<Rightarrow> bool" where
  "klist_reps q xs = wf_list (snd q) (fst q) xs"

interpretation klist: fifo_queue
  "\<lambda>q. list_empty (fst q)" klist_push klist_pop klist_reps list_pushback_can
proof unfold_locales
  fix q :: "'p listctl \<times> 'p linkmap" and x :: 'p and xs
  assume r: "klist_reps q xs"
  show "list_empty (fst q) = (xs = [])"
    using r by (simp add: klist_reps_def list_empty_iff)
  assume "list_pushback_can x xs"
  then show "\<exists>q'. klist_push x q = Inr q' \<and> klist_reps q' (xs @ [x])"
    using r list_pushback_wf [of "snd q" "fst q" xs x]
    unfolding klist_reps_def klist_push_def list_pushback_can_def
    by (metis fst_conv snd_conv)
next
  fix q :: "'p listctl \<times> 'p linkmap" and x :: 'p and xs
  assume "klist_reps q (x # xs)"
  then show "\<exists>q'. klist_pop q = Inr (Some x, q') \<and> klist_reps q' xs"
    using list_popfront_Cons [of "snd q" "fst q" x xs] by (auto simp: klist_reps_def klist_pop_def)
next
  fix q :: "'p listctl \<times> 'p linkmap"
  assume "klist_reps q []"
  then show "klist_pop q = Inr (None, q)"
    by (simp add: klist_reps_def klist_pop_def list_popfront_Nil)
qed

lemma klist_can_all: "distinct (ys @ xs) \<Longrightarrow> length (ys @ xs) < 65536 \<Longrightarrow> klist.can_all xs ys"
  by (induction xs arbitrary: ys) (auto simp: list_pushback_can_def)

section \<open>Properties\<close>

text \<open>
  A list is a first-in first-out queue. Appending the items \<open>xs\<close>, all different from each other and from
  the items \<open>ys\<close> that are there, and then taking all of them out returns \<open>ys\<close> followed by \<open>xs\<close> and
  leaves an empty list.
\<close>

theorem list_fifo:
  assumes "wf_list nx l ys" and "distinct (ys @ xs)" and "length (ys @ xs) < 65536"
  shows "\<exists>q1 q2. push_all klist_push xs (l, nx) = Inr q1 \<and>
           pop_n klist_pop (length ys + length xs) q1 = Inr (ys @ xs, q2) \<and> list_empty (fst q2)"
  using klist.fifo_order [of "(l, nx)" ys xs] assms klist_can_all [of ys xs] by (auto simp: klist_reps_def)

text \<open>
  \<open>list_insert\<close> puts the new item right behind the given one and \<open>list_remove\<close> takes out the item behind
  the given one, so removing what was just inserted gives back the sequence, and only the links of the
  two items involved change.
\<close>

theorem list_insert_remove:
  assumes "wf_list nx l (us @ y # vs)" and "x \<notin> set (us @ y # vs)" and "vs \<noteq> []"
    and "length (us @ y # vs) < 65535"
    and "list_insert l (Some y) x nx = (l1, nx1)" and "list_remove l1 (Some y) nx1 = (l2, nx2)"
  shows "wf_list nx1 l1 (us @ y # x # vs) \<and> wf_list nx2 l2 (us @ y # vs) \<and>
         (\<forall>z. z \<noteq> x \<longrightarrow> z \<noteq> y \<longrightarrow> nx1 z = nx z \<and> nx2 z = nx z)"
proof -
  have 1: "wf_list nx1 l1 (us @ y # x # vs)" "\<forall>z. z \<noteq> x \<longrightarrow> z \<noteq> y \<longrightarrow> nx1 z = nx z"
    using list_insert_wf [OF assms(1,2,4,3,5)] by auto
  with list_remove_wf [OF 1(1) assms(6)] show ?thesis by auto
qed

text \<open>
  \<open>list_insert\<close> does not move the tail pointer. After an insertion behind the last item, the next
  \<open>list_pushback\<close> overwrites the link to the inserted item: with \<open>1\<close> appended, \<open>2\<close> inserted behind it and
  \<open>3\<close> appended, the list counts three items but only \<open>1\<close> and \<open>3\<close> can be reached.
\<close>

theorem list_insert_at_tail_loses_item:
  "\<exists>l1 nx1 l2 nx2 l3 nx3.
     list_pushback list_init (1 :: nat) (\<lambda>_. None) = Inr (l1, nx1) \<and>
     list_insert l1 (Some 1) 2 nx1 = (l2, nx2) \<and> list_pushback l2 3 nx2 = Inr (l3, nx3) \<and>
     count l3 = 3 \<and> lpath nx3 (list_head l3) [1, 3]"
  by (simp add: list_pushback_def list_insert_def list_init_def list_empty_def list_head_def Let_def)

text \<open>
  The item count is a 16-bit integer. Appending a 65536th item makes it wrap to zero, so the list reads
  as empty although all its items are linked.
\<close>

theorem list_count_wraps:
  assumes "wf_list nx l xs" and "length xs = 65535" and "list_pushback l x nx = Inr (l', nx')"
  shows "count l' = 0 \<and> list_empty l' \<and> list_head l' = list_head l"
proof -
  have "\<not> list_empty l" using list_empty_iff [OF assms(1)] assms(2) by auto
  moreover have "count l = 0xffff" using assms(1,2) by (simp add: wf_list_def)
  ultimately show ?thesis using assms(3)
    by (auto simp: list_pushback_def list_empty_def list_head_def Let_def split: option.splits)
qed

end
