(* ===== verification/Task.thy ===== *)
theory Task
  imports Memory KList
begin

text \<open>
  \<^verbatim>\<open>kernel/core/task.c\<close> and \<^verbatim>\<open>task.h\<close>: tasks and the two-level round-robin scheduler. A pointer to a
  task is its index in the array \<open>taskctl.tasks\<close>; the two ready queues are lists of such pointers,
  linked through \<open>task_links\<close>, the \<open>link\<close> field of the tasks. The stack frame a new task starts from is
  kept as a record per address.

  A context switch hands the processor to other tasks until this one is scheduled again; what they do
  meanwhile is the parameter \<open>env\<close> of every operation that can sleep.

  The lemmas show that the code refines an abstract scheduler over two sequences, that the ready
  queues always hold exactly the runnable tasks, that no task is lost, and that the high-priority
  queue is served round robin.
\<close>

section \<open>Data\<close>

definition MAX_TASK :: nat where "MAX_TASK = 100"
definition TASK_RUNNING :: nat where "TASK_RUNNING = 2"
definition TASK_WAITING :: nat where "TASK_WAITING = 3"
definition TASK_PRIORITY_LOW :: nat where "TASK_PRIORITY_LOW = 0"
definition TASK_PRIORITY_HIGH :: nat where "TASK_PRIORITY_HIGH = 1"
definition STACK_LENGTH :: u64 where "STACK_LENGTH = 0x1000"

text \<open>The objects a task can wait for; distinct kernel objects have distinct addresses.\<close>

datatype waitobj =
    NoCause | WqObj | KeyCond | RawSock nat | UdpSock nat | TcpSock nat | MutexAt addr

record TASK =
  t_rsp :: u64
  t_rip :: u64
  t_flag :: nat
  t_task_id :: nat
  t_priority :: nat
  t_waitcause :: waitobj

record TASKCTL =
  current_task :: nat
  lists :: "nat listctl list"
  next_task_id :: nat
  tasks :: "TASK list"

record stackframe64 =
  sf_gs :: u64
  sf_fs :: u64
  sf_bp :: u64
  sf_di :: u64
  sf_si :: u64
  sf_r15 :: u64
  sf_r14 :: u64
  sf_r13 :: u64
  sf_r12 :: u64
  sf_r11 :: u64
  sf_r10 :: u64
  sf_r9 :: u64
  sf_r8 :: u64
  sf_dx :: u64
  sf_cx :: u64
  sf_bx :: u64
  sf_ax :: u64
  sf_ip :: u64
  sf_cs :: u64
  sf_flags :: u64
  sf_sp :: u64
  sf_ss :: u64

definition sizeof_stackframe64 :: u64 where
  "sizeof_stackframe64 = 176"

record task_state = mem_state +
  taskctl :: TASKCTL
  task_links :: "nat linkmap"
  sframes :: "addr \<Rightarrow> stackframe64"

definition zero_frame :: stackframe64 where
  "zero_frame =
     \<lparr>sf_gs = 0, sf_fs = 0, sf_bp = 0, sf_di = 0, sf_si = 0, sf_r15 = 0, sf_r14 = 0, sf_r13 = 0,
      sf_r12 = 0, sf_r11 = 0, sf_r10 = 0, sf_r9 = 0, sf_r8 = 0, sf_dx = 0, sf_cx = 0, sf_bx = 0,
      sf_ax = 0, sf_ip = 0, sf_cs = 0, sf_flags = 0, sf_sp = 0, sf_ss = 0\<rparr>"

section \<open>Operations\<close>

definition task_init :: "'a task_state_scheme \<Rightarrow> (nat \<times> 'a task_state_scheme) res" where
  "task_init s =
     (let c = (taskctl s)\<lparr>next_task_id := 0\<rparr> in
      bindr (arr_set (lists c) TASK_PRIORITY_LOW list_init) (\<lambda>ls1.
      bindr (arr_set ls1 TASK_PRIORITY_HIGH list_init) (\<lambda>ls2.
      let initial_task = next_task_id c in
      bindr (arr_get (tasks c) initial_task) (\<lambda>t.
      bindr (arr_set (tasks c) initial_task (t\<lparr>t_priority := TASK_PRIORITY_HIGH, t_flag := TASK_RUNNING\<rparr>))
        (\<lambda>ts.
      let c1 = c\<lparr>lists := ls2, tasks := ts, next_task_id := next_task_id c + 1,
                 current_task := initial_task\<rparr>
      in Inr (initial_task, printstr_log (''Initialized TASK lists'' @ nl) (s\<lparr>taskctl := c1\<rparr>)))))))"

text \<open>\<open>list_pushback (&taskctl.lists[task->priority], &task->link)\<close>.\<close>

definition ready_push :: "nat \<Rightarrow> 'a task_state_scheme \<Rightarrow> 'a task_state_scheme res" where
  "ready_push i s =
     (let c = taskctl s in
      bindr (arr_get (tasks c) i) (\<lambda>t.
      bindr (arr_get (lists c) (t_priority t)) (\<lambda>l.
      bindr (list_pushback l i (task_links s)) (\<lambda>(l1, nx1).
      bindr (arr_set (lists c) (t_priority t) l1) (\<lambda>ls.
      Inr (s\<lparr>taskctl := c\<lparr>lists := ls\<rparr>, task_links := nx1\<rparr>))))))"

text \<open>\<open>list_popfront (&taskctl.lists[priority])\<close>.\<close>

definition ready_pop :: "nat \<Rightarrow> 'a task_state_scheme \<Rightarrow> (nat option \<times> 'a task_state_scheme) res" where
  "ready_pop prio s =
     (let c = taskctl s in
      bindr (arr_get (lists c) prio) (\<lambda>l.
      bindr (list_popfront l (task_links s)) (\<lambda>(r, l1, nx1).
      bindr (arr_set (lists c) prio l1) (\<lambda>ls.
      Inr (r, s\<lparr>taskctl := c\<lparr>lists := ls\<rparr>, task_links := nx1\<rparr>)))))"

text \<open>The frame a new task is resumed from (the \<open>Initialize stack\<close> part of \<open>task_start\<close>).\<close>

definition init_frame :: "bool \<Rightarrow> u64 \<Rightarrow> u64 \<Rightarrow> stackframe64" where
  "init_frame is_userland rsp rip =
     (let frame = zero_frame\<lparr>sf_sp := rsp - STACK_LENGTH div 2, sf_ip := rip\<rparr>;
          frame1 = (if is_userland
                    then frame\<lparr>sf_cs := 24 + 3, sf_ss := 32 + 3, sf_fs := 32 + 3, sf_gs := 32 + 3\<rparr>
                    else frame\<lparr>sf_cs := 8, sf_ss := 16, sf_fs := 16, sf_gs := 16\<rparr>)
      in frame1\<lparr>sf_flags := 0x202\<rparr>)"

definition task_start :: "u64 \<Rightarrow> nat \<Rightarrow> bool \<Rightarrow> 'a task_state_scheme \<Rightarrow> (nat \<times> 'a task_state_scheme) res" where
  "task_start func priority is_userland s =
     (let task = next_task_id (taskctl s) in
      bindr (mem_alloc (0x1000 * 8) ''stack'' s) (\<lambda>(stack, s1).
      let c = taskctl s1; rsp = stack + STACK_LENGTH in
      bindr (arr_get (tasks c) task) (\<lambda>t.
      let t1 = t\<lparr>t_rsp := rsp, t_rip := func, t_flag := TASK_RUNNING, t_task_id := next_task_id c,
                 t_priority := priority\<rparr>;
          sf = t_rsp t1 - sizeof_stackframe64;
          frame = init_frame is_userland (t_rsp t1) (t_rip t1);
          t2 = t1\<lparr>t_rsp := t_rsp t1 - sizeof_stackframe64\<rparr>
      in
      bindr (arr_set (tasks c) task t2) (\<lambda>ts.
      let s2 = s1\<lparr>taskctl := c\<lparr>tasks := ts, next_task_id := next_task_id c + 1\<rparr>,
                  sframes := (sframes s1)(sf := frame)\<rparr>
      in bindr (ready_push task s2) (\<lambda>s3. Inr (task, s3))))))"

definition wake_one :: "waitobj \<Rightarrow> nat \<Rightarrow> 'a task_state_scheme \<Rightarrow> 'a task_state_scheme res" where
  "wake_one cause i s =
     (let c = taskctl s in
      bindr (arr_get (tasks c) i) (\<lambda>t.
      if t_waitcause t = cause \<and> t_flag t \<noteq> TASK_RUNNING
      then ready_push i (s\<lparr>taskctl := c\<lparr>tasks := (tasks c)[i := t\<lparr>t_flag := TASK_RUNNING\<rparr>]\<rparr>\<rparr>)
      else Inr s))"

definition task_wakeup :: "waitobj \<Rightarrow> 'a task_state_scheme \<Rightarrow> 'a task_state_scheme res" where
  "task_wakeup cause s =
     (let rf = get_rflags s; s1 = io_cli s in
      bindr (for_list [0..<next_task_id (taskctl s1)] (wake_one cause) s1) (\<lambda>s2.
      Inr (set_rflags rf s2)))"

text \<open>
  \<open>schedule\<close> returns the pair of tasks whose saved stack pointers the switch code uses, or \<open>None\<close> when
  the array \<open>rsp\<close> stays zero and the caller simply goes on.
\<close>

definition schedule :: "'a task_state_scheme \<Rightarrow> ((nat \<times> nat) option \<times> 'a task_state_scheme) res" where
  "schedule s =
     (let cur = current_task (taskctl s) in
      bindr (arr_get (tasks (taskctl s)) cur) (\<lambda>t.
      bindr (ready_pop TASK_PRIORITY_HIGH s) (\<lambda>(next0, s1).
      bindr (if next0 = None \<and> (t_flag t = TASK_WAITING \<or> t_priority t = TASK_PRIORITY_LOW)
             then ready_pop TASK_PRIORITY_LOW s1 else Inr (next0, s1)) (\<lambda>(next_task, s2).
      case next_task of
        None \<Rightarrow> Inr (None, s2)
      | Some nt \<Rightarrow>
          bindr (if t_flag t \<noteq> TASK_WAITING then ready_push cur s2 else Inr s2) (\<lambda>s3.
          Inr (Some (cur, nt), s3\<lparr>taskctl := (taskctl s3)\<lparr>current_task := nt\<rparr>\<rparr>))))))"

text \<open>
  The switch code of \<^verbatim>\<open>asm.s\<close>: with nobody to switch to it returns at once; otherwise control comes
  back in the state the other tasks and the interrupt handlers leave.
\<close>

definition task_switch ::
  "('a task_state_scheme \<Rightarrow> 'a task_state_scheme res) \<Rightarrow> 'a task_state_scheme \<Rightarrow> 'a task_state_scheme res" where
  "task_switch env s =
     bindr (schedule s) (\<lambda>(r, s1). case r of None \<Rightarrow> Inr s1 | Some _ \<Rightarrow> env s1)"

definition sleep_mark :: "waitobj \<Rightarrow> 'a task_state_scheme \<Rightarrow> 'a task_state_scheme res" where
  "sleep_mark cause s =
     (let c = taskctl s in
      bindr (arr_get (tasks c) (current_task c)) (\<lambda>t.
      Inr (s\<lparr>taskctl := c\<lparr>tasks := (tasks c)[current_task c :=
                t\<lparr>t_flag := TASK_WAITING, t_waitcause := cause\<rparr>]\<rparr>\<rparr>)))"

definition task_sleep ::
  "('a task_state_scheme \<Rightarrow> 'a task_state_scheme res) \<Rightarrow> waitobj \<Rightarrow> 'a task_state_scheme
    \<Rightarrow> 'a task_state_scheme res" where
  "task_sleep env cause s =
     (let rf = get_rflags s; s1 = io_cli s in
      bindr (sleep_mark cause s1) (\<lambda>s2.
      bindr (task_switch env s2) (\<lambda>s3.
      Inr (set_rflags rf s3))))"

text \<open>The debugging print of the ready queues: its two loops and the whole function.\<close>

partial_function (option) show_ready :: "nat option \<Rightarrow> 'a task_state_scheme \<Rightarrow> 'a task_state_scheme option" where
  "show_ready p s =
     (case p of
        None \<Rightarrow> Some s
      | Some task \<Rightarrow>
          show_ready (list_next task (task_links s))
            (printstr_app '' -> '' (printnum_app (of_nat (t_task_id (tasks (taskctl s) ! task))) s)))"

definition task_show :: "'a task_state_scheme \<Rightarrow> 'a task_state_scheme option" where
  "task_show s =
     (let c = taskctl s;
          s1 = printstr_app '': High prio'' (printnum_app (of_nat (t_task_id (tasks c ! current_task c))) (printstr_app ''Current '' s))
      in Option.bind (show_ready (list_head (lists c ! TASK_PRIORITY_HIGH)) s1) (\<lambda>s2.
         Option.bind (show_ready (list_head (lists c ! TASK_PRIORITY_LOW)) (printstr_app '': Low prio'' s2)) (\<lambda>s3.
         Some (printstr_app nl s3))))"

section \<open>The abstract scheduler\<close>

text \<open>
  The specification: a running task and one sequence of ready tasks per priority. A task switch takes
  the first high-priority task; a low-priority task is taken only when no high-priority one is ready
  and the running task waits or is itself of low priority. The task that was running goes to the end
  of the queue of its priority unless it waits.
\<close>

definition abs_schedule :: "bool \<Rightarrow> nat \<Rightarrow> nat \<times> (nat \<Rightarrow> nat list) \<Rightarrow> nat \<times> (nat \<Rightarrow> nat list)" where
  "abs_schedule waiting prio = (\<lambda>(cur, q).
     let p = (if q TASK_PRIORITY_HIGH \<noteq> [] then TASK_PRIORITY_HIGH else TASK_PRIORITY_LOW) in
     if q p = [] \<or> (p = TASK_PRIORITY_LOW \<and> \<not> waiting \<and> prio \<noteq> TASK_PRIORITY_LOW) then (cur, q)
     else
       let q1 = q(p := tl (q p))
       in (hd (q p), if waiting then q1 else q1(prio := q1 prio @ [cur])))"

definition tflag :: "'a task_state_scheme \<Rightarrow> nat \<Rightarrow> nat" where
  "tflag s i = t_flag (tasks (taskctl s) ! i)"

definition tprio :: "'a task_state_scheme \<Rightarrow> nat \<Rightarrow> nat" where
  "tprio s i = t_priority (tasks (taskctl s) ! i)"

definition tcause :: "'a task_state_scheme \<Rightarrow> nat \<Rightarrow> waitobj" where
  "tcause s i = t_waitcause (tasks (taskctl s) ! i)"

definition ready_lists :: "'a task_state_scheme \<Rightarrow> (nat \<Rightarrow> nat list) \<Rightarrow> bool" where
  "ready_lists s q =
     (length (lists (taskctl s)) = 2 \<and> set (q 0) \<inter> set (q 1) = {} \<and>
      (\<forall>p < 2. wf_list (task_links s) (lists (taskctl s) ! p) (q p)))"

text \<open>
  The invariant: queue \<open>p\<close> holds exactly the tasks of priority \<open>p\<close> that can run and are not running,
  each once.
\<close>

definition sched_inv :: "'a task_state_scheme \<Rightarrow> (nat \<Rightarrow> nat list) \<Rightarrow> bool" where
  "sched_inv s q =
     (length (tasks (taskctl s)) = MAX_TASK \<and> next_task_id (taskctl s) \<le> MAX_TASK \<and>
      current_task (taskctl s) < next_task_id (taskctl s) \<and>
      tflag s (current_task (taskctl s)) \<in> {TASK_RUNNING, TASK_WAITING} \<and>
      (\<forall>i < next_task_id (taskctl s). tprio s i < 2) \<and> ready_lists s q \<and>
      (\<forall>p < 2. set (q p) = {i. i < next_task_id (taskctl s) \<and> i \<noteq> current_task (taskctl s) \<and>
                             tflag s i = TASK_RUNNING \<and> tprio s i = p}))"

definition sched_frame :: "'a task_state_scheme \<Rightarrow> 'a task_state_scheme \<Rightarrow> bool" where
  "sched_frame s s' =
     (\<exists>ls nx. s' = s\<lparr>taskctl := (taskctl s)\<lparr>lists := ls\<rparr>, task_links := nx\<rparr>)"

lemmas prio_defs = TASK_PRIORITY_HIGH_def TASK_PRIORITY_LOW_def

lemma flags_distinct [simp]: "TASK_RUNNING \<noteq> TASK_WAITING" "TASK_WAITING \<noteq> TASK_RUNNING"
  by (simp_all add: TASK_RUNNING_def TASK_WAITING_def)

lemma less_2_cases: "p < 2 \<longleftrightarrow> p = 0 \<or> p = (1 :: nat)"
  by auto

lemma sched_frame_fields:
  assumes "sched_frame s s'"
  shows "tasks (taskctl s') = tasks (taskctl s)" "next_task_id (taskctl s') = next_task_id (taskctl s)"
    "current_task (taskctl s') = current_task (taskctl s)" "tflag s' = tflag s" "tprio s' = tprio s"
    "tcause s' = tcause s" "rflags s' = rflags s"
  using assms by (auto simp: sched_frame_def tflag_def tprio_def tcause_def fun_eq_iff)

lemma sched_frame_refl: "sched_frame s s"
proof -
  have "s = s\<lparr>taskctl := (taskctl s)\<lparr>lists := lists (taskctl s)\<rparr>, task_links := task_links s\<rparr>" by simp
  then show ?thesis unfolding sched_frame_def by blast
qed

lemma sched_frame_trans: "sched_frame s s' \<Longrightarrow> sched_frame s' s'' \<Longrightarrow> sched_frame s s''"
  unfolding sched_frame_def by (elim exE) (rule exI, rule exI, simp)

text \<open>The debugging print ends whenever the ready queues are well formed, and changes nothing but the screen.\<close>

lemma show_ready_ends: "lpath (task_links s) p xs \<Longrightarrow> \<exists>c. show_ready p s = Some (s\<lparr>console := c\<rparr>)"
proof (induction xs arbitrary: p s)
  case Nil
  then show ?case by (subst show_ready.simps) (auto intro: exI [of _ "console s"])
next
  case (Cons x xs)
  let ?s = "printstr_app '' -> '' (printnum_app (of_nat (t_task_id (tasks (taskctl s) ! x))) s)"
  obtain c where c: "?s = s\<lparr>console := c\<rparr>" by (simp add: printstr_app_eq printnum_app_eq)
  then have "lpath (task_links ?s) (task_links s x) xs" using Cons.prems by simp
  from Cons.IH [OF this] show ?case using Cons.prems c by (subst show_ready.simps) (auto simp: list_next_def)
qed

lemma task_show_ends:
  assumes "ready_lists s q"
  shows "\<exists>c. task_show s = Some (s\<lparr>console := c\<rparr>)"
proof -
  have path: "lpath (task_links s) (list_head (lists (taskctl s) ! p)) (q p)" if "p < 2" for p
    using assms that by (simp add: ready_lists_def wf_list_def list_head_def)
  let ?s1 = "printstr_app '': High prio''
    (printnum_app (of_nat (t_task_id (tasks (taskctl s) ! current_task (taskctl s)))) (printstr_app ''Current '' s))"
  obtain c1 where c1: "?s1 = s\<lparr>console := c1\<rparr>" by (simp add: printstr_app_eq printnum_app_eq)
  obtain c2 where c2: "show_ready (list_head (lists (taskctl s) ! TASK_PRIORITY_HIGH)) (s\<lparr>console := c1\<rparr>) = Some (s\<lparr>console := c2\<rparr>)"
    using show_ready_ends [of "s\<lparr>console := c1\<rparr>" _ "q TASK_PRIORITY_HIGH"] path [of TASK_PRIORITY_HIGH] by (auto simp: prio_defs)
  obtain c3 where c3: "printstr_app '': Low prio'' (s\<lparr>console := c2\<rparr>) = s\<lparr>console := c3\<rparr>" by (simp add: printstr_app_eq)
  obtain c4 where c4: "show_ready (list_head (lists (taskctl s) ! TASK_PRIORITY_LOW)) (s\<lparr>console := c3\<rparr>) = Some (s\<lparr>console := c4\<rparr>)"
    using show_ready_ends [of "s\<lparr>console := c3\<rparr>" _ "q TASK_PRIORITY_LOW"] path [of TASK_PRIORITY_LOW] by (auto simp: prio_defs)
  have "task_show s = Some (printstr_app nl (s\<lparr>console := c4\<rparr>))" by (simp add: task_show_def Let_def c1 c2 c3 c4)
  then show ?thesis using printstr_app_eq [of nl "s\<lparr>console := c4\<rparr>"] by auto
qed

lemma ready_pop_Nil: "ready_lists s q \<Longrightarrow> p < 2 \<Longrightarrow> q p = [] \<Longrightarrow> ready_pop p s = Inr (None, s)"
  by (auto simp: ready_pop_def ready_lists_def list_popfront_Nil)

lemma ready_pop_Cons:
  assumes rl: "ready_lists s q" and p: "p < 2" and q: "q p = h # hs"
  shows "\<exists>s'. ready_pop p s = Inr (Some h, s') \<and> ready_lists s' (q(p := hs)) \<and> sched_frame s s'"
proof -
  let ?c = "taskctl s" and ?nx = "task_links s"
  let ?l = "lists ?c ! p"
  let ?l' = "?l\<lparr>count := count ?l - 1, head := ?nx h\<rparr>"
  have wf: "wf_list ?nx ?l (h # hs)" using rl p q by (auto simp: ready_lists_def)
  note pop = list_popfront_Cons [OF wf]
  let ?s' = "s\<lparr>taskctl := ?c\<lparr>lists := (lists ?c)[p := ?l']\<rparr>, task_links := ?nx(h := None)\<rparr>"
  have len: "length (lists ?c) = 2" using rl by (simp add: ready_lists_def)
  have call: "ready_pop p s = Inr (Some h, ?s')"
    using pop len p by (simp add: ready_pop_def Let_def)
  have other: "wf_list (?nx(h := None)) (lists ?c ! r) (q r)" if "r < 2" "r \<noteq> p" for r
  proof (rule wf_list_frame)
    show "wf_list ?nx (lists ?c ! r) (q r)" using rl that by (simp add: ready_lists_def)
    have "h \<notin> set (q r)"
      using rl q that p by (auto simp: ready_lists_def less_2_cases)
    then show "(?nx(h := None)) y = ?nx y" if "y \<in> set (q r)" for y using that by auto
  qed
  have "ready_lists ?s' (q(p := hs))"
    using rl pop other len p q by (auto simp: ready_lists_def less_2_cases)
  with call show ?thesis by (auto simp: sched_frame_def)
qed

lemma ready_push_ok:
  assumes rl: "ready_lists s q" and i: "i < length (tasks (taskctl s))" and p: "tprio s i < 2"
    and fresh: "i \<notin> set (q 0)" "i \<notin> set (q 1)" and len: "length (q (tprio s i)) < 65535"
  shows "\<exists>s'. ready_push i s = Inr s' \<and> ready_lists s' (q(tprio s i := q (tprio s i) @ [i])) \<and>
           sched_frame s s'"
proof -
  let ?c = "taskctl s" and ?nx = "task_links s" and ?p = "tprio s i"
  let ?l = "lists ?c ! ?p"
  have wf: "wf_list ?nx ?l (q ?p)" and l2: "length (lists ?c) = 2"
    using rl p by (auto simp: ready_lists_def)
  have i_notin: "i \<notin> set (q ?p)" using fresh p by (auto simp: less_2_cases)
  obtain l' nx' where push: "list_pushback ?l i ?nx = Inr (l', nx')"
    "wf_list nx' l' (q ?p @ [i])" "\<And>y. y \<notin> set (q ?p) \<Longrightarrow> y \<noteq> i \<Longrightarrow> nx' y = ?nx y"
    by (rule list_pushback_wf [OF wf i_notin len]) (rule that)
  let ?s' = "s\<lparr>taskctl := ?c\<lparr>lists := (lists ?c)[?p := l']\<rparr>, task_links := nx'\<rparr>"
  have call: "ready_push i s = Inr ?s'"
    using push(1) l2 p i by (simp add: ready_push_def tprio_def Let_def)
  have other: "wf_list nx' (lists ?c ! r) (q r)" if "r < 2" "r \<noteq> ?p" for r
  proof (rule wf_list_frame)
    show "wf_list ?nx (lists ?c ! r) (q r)" using rl that by (simp add: ready_lists_def)
    fix y
    assume y: "y \<in> set (q r)"
    then have "y \<noteq> i" using fresh that by (auto simp: less_2_cases)
    moreover have "y \<notin> set (q ?p)" using rl y that p by (auto simp: ready_lists_def less_2_cases)
    ultimately show "nx' y = ?nx y" using push(3) by blast
  qed
  have "wf_list nx' ((lists ?c)[?p := l'] ! r) ((q(?p := q ?p @ [i])) r)" if "r < 2" for r
    using push(2) other [OF that] l2 p that by (cases "r = ?p") auto
  moreover have "set ((q(?p := q ?p @ [i])) 0) \<inter> set ((q(?p := q ?p @ [i])) 1) = {}"
    using p rl fresh unfolding less_2_cases by (elim disjE) (auto simp: ready_lists_def)
  ultimately have "ready_lists ?s' (q(?p := q ?p @ [i]))"
    using l2 by (simp add: ready_lists_def)
  with call show ?thesis by (auto simp: sched_frame_def)
qed

lemma sched_inv_distinct: "sched_inv s q \<Longrightarrow> p < 2 \<Longrightarrow> distinct (q p)"
  by (auto simp: sched_inv_def ready_lists_def intro: wf_list_distinct)

lemma sched_inv_length: "sched_inv s q \<Longrightarrow> p < 2 \<Longrightarrow> length (q p) \<le> MAX_TASK"
proof -
  assume inv: "sched_inv s q" and p: "p < 2"
  have "set (q p) \<subseteq> {..<MAX_TASK}" using inv p by (auto simp: sched_inv_def)
  then have "card (set (q p)) \<le> MAX_TASK" using card_mono [of "{..<MAX_TASK}"] by fastforce
  then show ?thesis using distinct_card [OF sched_inv_distinct [OF inv p]] by simp
qed

section \<open>The code refines the abstract scheduler\<close>

lemma sched_inv_ready: "sched_inv s q \<Longrightarrow> ready_lists s q"
  by (simp add: sched_inv_def)

lemma schedule_pick:
  assumes inv: "sched_inv s q"
  defines "cur \<equiv> current_task (taskctl s)"
  defines "p \<equiv> (if q TASK_PRIORITY_HIGH \<noteq> [] then TASK_PRIORITY_HIGH else TASK_PRIORITY_LOW)"
  assumes pick: "q p = h # hs" "p = TASK_PRIORITY_LOW \<Longrightarrow>
      tflag s cur = TASK_WAITING \<or> tprio s cur = TASK_PRIORITY_LOW"
  shows "\<exists>s1. ready_lists s1 (q(p := hs)) \<and> sched_frame s s1 \<and>
           schedule s =
             bindr (if tflag s cur \<noteq> TASK_WAITING then ready_push cur s1 else Inr s1) (\<lambda>s3.
               Inr (Some (cur, h), s3\<lparr>taskctl := (taskctl s3)\<lparr>current_task := h\<rparr>\<rparr>))"
proof -
  have rl: "ready_lists s q" using inv by (rule sched_inv_ready)
  have "p < 2" by (simp add: p_def prio_defs)
  from ready_pop_Cons [OF rl this pick(1)] obtain s1 where
    s1: "ready_pop p s = Inr (Some h, s1)" "ready_lists s1 (q(p := hs))" "sched_frame s s1" by blast
  have cur: "cur < length (tasks (taskctl s))" using inv by (simp add: sched_inv_def cur_def)
  have "schedule s =
      bindr (if tflag s cur \<noteq> TASK_WAITING then ready_push cur s1 else Inr s1) (\<lambda>s3.
        Inr (Some (cur, h), s3\<lparr>taskctl := (taskctl s3)\<lparr>current_task := h\<rparr>\<rparr>))"
  proof (cases "q TASK_PRIORITY_HIGH = []")
    case True
    then have "ready_pop TASK_PRIORITY_HIGH s = Inr (None, s)"
      using rl by (intro ready_pop_Nil [of s q]) (auto simp: prio_defs)
    with True s1 pick(2) cur show ?thesis
      by (simp add: schedule_def p_def tflag_def tprio_def cur_def Let_def)
  next
    case False
    with s1 cur show ?thesis
      by (simp add: schedule_def p_def tflag_def cur_def Let_def)
  qed
  with s1 show ?thesis by blast
qed

lemma sched_inv_switch:
  assumes inv: "sched_inv s q" and p: "p < 2" and q: "q p = h # hs"
    and fr: "sched_frame s s'" and s': "ready_lists s' q'"
    and q': "q' = (if tflag s (current_task (taskctl s)) = TASK_WAITING then q(p := hs)
                   else (q(p := hs))(tprio s (current_task (taskctl s)) :=
                          (q(p := hs)) (tprio s (current_task (taskctl s))) @ [current_task (taskctl s)]))"
  shows "sched_inv (s'\<lparr>taskctl := (taskctl s')\<lparr>current_task := h\<rparr>\<rparr>) q'"
proof -
  let ?cur = "current_task (taskctl s)" and ?n = "next_task_id (taskctl s)"
  let ?t = "s'\<lparr>taskctl := (taskctl s')\<lparr>current_task := h\<rparr>\<rparr>"
  note f = sched_frame_fields [OF fr]
  have fields: "tflag ?t = tflag s" "tprio ?t = tprio s" "ready_lists ?t q'"
    using f s' by (auto simp: tflag_def tprio_def ready_lists_def fun_eq_iff)
  have sets: "set (q r) = {i. i < ?n \<and> i \<noteq> ?cur \<and> tflag s i = TASK_RUNNING \<and> tprio s i = r}"
    if "r < 2" for r using inv that by (simp add: sched_inv_def)
  have h: "h < ?n" "h \<noteq> ?cur" "tflag s h = TASK_RUNNING" "tprio s h = p"
    using sets [OF p] q by (auto simp: set_eq_iff)
  have hs: "set hs = set (q p) - {h}" using sched_inv_distinct [OF inv p] q by auto
  have cur: "?cur < ?n" "tprio s ?cur < 2" "tflag s ?cur \<noteq> TASK_WAITING \<Longrightarrow> tflag s ?cur = TASK_RUNNING"
    using inv by (auto simp: sched_inv_def)
  have pop: "set ((q(p := hs)) r) = {i. i < ?n \<and> i \<noteq> h \<and> i \<noteq> ?cur \<and> tflag s i = TASK_RUNNING \<and> tprio s i = r}"
    if r: "r < 2" for r
    using sets [OF r] h hs by (cases "r = p") auto
  have "set (q' r) = {i. i < ?n \<and> i \<noteq> h \<and> tflag s i = TASK_RUNNING \<and> tprio s i = r}" if r: "r < 2" for r
  proof (cases "tflag s ?cur = TASK_WAITING")
    case True
    then have "q' = q(p := hs)" unfolding q' by simp
    moreover have "{i. i < ?n \<and> i \<noteq> h \<and> tflag s i = TASK_RUNNING \<and> tprio s i = r} =
        {i. i < ?n \<and> i \<noteq> h \<and> i \<noteq> ?cur \<and> tflag s i = TASK_RUNNING \<and> tprio s i = r}"
      using True by force
    ultimately show ?thesis using pop [OF r] by simp
  next
    case False
    then have "set (q' r) = set ((q(p := hs)) r) \<union> {i. i = ?cur \<and> tprio s ?cur = r}"
      unfolding q' by auto
    then show ?thesis
      unfolding pop [OF r] using cur(1) cur(3) [OF False] h(2) by blast
  qed
  with inv f fields h show ?thesis by (simp add: sched_inv_def)
qed

definition sched_candidate :: "(nat \<Rightarrow> nat list) \<Rightarrow> nat" where
  "sched_candidate q = (if q TASK_PRIORITY_HIGH \<noteq> [] then TASK_PRIORITY_HIGH else TASK_PRIORITY_LOW)"

lemma sched_candidate_less [simp]: "sched_candidate q < 2"
  by (simp add: sched_candidate_def prio_defs)

lemma sched_inv_cur_notin: "sched_inv s q \<Longrightarrow> p < 2 \<Longrightarrow> current_task (taskctl s) \<notin> set (q p)"
  by (auto simp: sched_inv_def)

lemma schedule_stays:
  assumes inv: "sched_inv s q"
    and stay: "q (sched_candidate q) = [] \<or>
      (sched_candidate q = TASK_PRIORITY_LOW \<and> tflag s (current_task (taskctl s)) \<noteq> TASK_WAITING \<and>
       tprio s (current_task (taskctl s)) \<noteq> TASK_PRIORITY_LOW)"
  shows "schedule s = Inr (None, s)"
proof -
  have rl: "ready_lists s q" using inv by (rule sched_inv_ready)
  have hi: "q TASK_PRIORITY_HIGH = []"
    using stay by (auto simp: sched_candidate_def prio_defs split: if_splits)
  then have "ready_pop TASK_PRIORITY_HIGH s = Inr (None, s)"
    using rl by (intro ready_pop_Nil [of s q]) (auto simp: prio_defs)
  moreover have "ready_pop TASK_PRIORITY_LOW s = Inr (None, s)" if "q TASK_PRIORITY_LOW = []"
    using rl that by (intro ready_pop_Nil [of s q]) (auto simp: prio_defs)
  moreover have "current_task (taskctl s) < length (tasks (taskctl s))"
    using inv by (simp add: sched_inv_def)
  ultimately show ?thesis
    using stay hi by (auto simp: schedule_def sched_candidate_def tflag_def tprio_def Let_def)
qed

lemma schedule_requeue:
  assumes inv: "sched_inv s q" and p: "p < 2" and q: "q p = h # hs"
    and s1: "ready_lists s1 (q(p := hs))" "sched_frame s s1"
  defines "cur \<equiv> current_task (taskctl s)"
  shows "\<exists>s3. ready_push cur s1 = Inr s3 \<and> sched_frame s s3 \<and>
           ready_lists s3 ((q(p := hs))(tprio s cur := (q(p := hs)) (tprio s cur) @ [cur]))"
proof -
  note f1 = sched_frame_fields [OF s1(2)]
  have cur: "cur < length (tasks (taskctl s))" "tprio s cur < 2"
    using inv by (auto simp: sched_inv_def cur_def)
  have nin: "cur \<notin> set ((q(p := hs)) r)" if "r < 2" for r
    using sched_inv_cur_notin [OF inv that] q by (auto simp: cur_def split: if_splits)
  have "length ((q(p := hs)) (tprio s cur)) \<le> MAX_TASK"
    using sched_inv_length [OF inv cur(2)] q by (cases "tprio s cur = p") auto
  then have "length ((q(p := hs)) (tprio s1 cur)) < 65535" by (simp add: f1 MAX_TASK_def)
  then obtain s3 where "ready_push cur s1 = Inr s3" "sched_frame s1 s3"
    "ready_lists s3 ((q(p := hs))(tprio s1 cur := (q(p := hs)) (tprio s1 cur) @ [cur]))"
    using ready_push_ok [OF s1(1), of cur] cur nin [of 0] nin [of 1] f1 by auto
  with s1(2) f1 show ?thesis by (auto intro: sched_frame_trans)
qed

lemma schedule_ok:
  assumes inv: "sched_inv s q"
  defines "cur \<equiv> current_task (taskctl s)"
  shows "\<exists>r s' q'. schedule s = Inr (r, s') \<and> sched_inv s' q' \<and>
           (current_task (taskctl s'), q') =
             abs_schedule (tflag s cur = TASK_WAITING) (tprio s cur) (cur, q) \<and>
           (case r of None \<Rightarrow> s' = s | Some (c, n) \<Rightarrow> c = cur \<and> n = current_task (taskctl s')) \<and>
           tasks (taskctl s') = tasks (taskctl s) \<and>
           next_task_id (taskctl s') = next_task_id (taskctl s)"
proof (cases "q (sched_candidate q) = [] \<or>
    (sched_candidate q = TASK_PRIORITY_LOW \<and> tflag s cur \<noteq> TASK_WAITING \<and> tprio s cur \<noteq> TASK_PRIORITY_LOW)")
  case True
  then have "abs_schedule (tflag s cur = TASK_WAITING) (tprio s cur) (cur, q) = (cur, q)"
    by (simp add: abs_schedule_def sched_candidate_def Let_def)
  with schedule_stays [OF inv] True inv show ?thesis
    by (intro exI [of _ None] exI [of _ s] exI [of _ q]) (simp add: cur_def)
next
  case False
  then obtain h hs where q: "q (sched_candidate q) = h # hs" by (cases "q (sched_candidate q)") auto
  with False obtain s1 where s1: "ready_lists s1 (q(sched_candidate q := hs))" "sched_frame s s1" and
    call: "schedule s = bindr (if tflag s cur \<noteq> TASK_WAITING then ready_push cur s1 else Inr s1) (\<lambda>s3.
             Inr (Some (cur, h), s3\<lparr>taskctl := (taskctl s3)\<lparr>current_task := h\<rparr>\<rparr>))"
    using schedule_pick [OF inv, of h hs] by (auto simp: sched_candidate_def cur_def)
  let ?q = "q(sched_candidate q := hs)"
  let ?q' = "if tflag s cur = TASK_WAITING then ?q else ?q(tprio s cur := ?q (tprio s cur) @ [cur])"
  obtain s3 where s3: "(if tflag s cur \<noteq> TASK_WAITING then ready_push cur s1 else Inr s1) = Inr s3"
    "ready_lists s3 ?q'" "sched_frame s s3"
    using s1 schedule_requeue [OF inv sched_candidate_less q s1]
    by (cases "tflag s cur = TASK_WAITING") (auto simp: cur_def)
  let ?t = "s3\<lparr>taskctl := (taskctl s3)\<lparr>current_task := h\<rparr>\<rparr>"
  have "sched_inv ?t ?q'"
    unfolding cur_def
    by (rule sched_inv_switch [OF inv sched_candidate_less q s3(3) s3(2) [unfolded cur_def] refl])
  moreover have "abs_schedule (tflag s cur = TASK_WAITING) (tprio s cur) (cur, q) = (h, ?q')"
    using False q by (auto simp: abs_schedule_def sched_candidate_def Let_def)
  ultimately show ?thesis
    using call s3(1) sched_frame_fields [OF s3(3)]
    by (intro exI [of _ "Some (cur, h)"] exI [of _ ?t] exI [of _ ?q']) simp
qed

section \<open>Waking, sleeping and starting tasks\<close>

definition woken :: "'a task_state_scheme \<Rightarrow> waitobj \<Rightarrow> nat \<Rightarrow> bool" where
  "woken s cause i = (tcause s i = cause \<and> tflag s i \<noteq> TASK_RUNNING)"

definition same_tasks :: "'a task_state_scheme \<Rightarrow> 'a task_state_scheme \<Rightarrow> bool" where
  "same_tasks s s' =
     (next_task_id (taskctl s') = next_task_id (taskctl s) \<and>
      current_task (taskctl s') = current_task (taskctl s) \<and> tprio s' = tprio s \<and>
      rflags s' = rflags s \<and> freemem s' = freemem s \<and> memhdrs s' = memhdrs s)"

lemma sched_frame_same_tasks: "sched_frame s s' \<Longrightarrow> same_tasks s s'"
  by (auto simp: sched_frame_def same_tasks_def tprio_def fun_eq_iff)

lemma same_tasks_trans: "same_tasks s s' \<Longrightarrow> same_tasks s' s'' \<Longrightarrow> same_tasks s s''"
  by (simp add: same_tasks_def)

lemma sched_inv_rflags [simp]: "sched_inv (s\<lparr>rflags := x\<rparr>) q = sched_inv s q"
  by (simp add: sched_inv_def tflag_def tprio_def ready_lists_def)

lemma task_fields_rflags [simp]:
  "tflag (s\<lparr>rflags := x\<rparr>) = tflag s" "tprio (s\<lparr>rflags := x\<rparr>) = tprio s"
  "tcause (s\<lparr>rflags := x\<rparr>) = tcause s" "woken (s\<lparr>rflags := x\<rparr>) = woken s"
  by (auto simp: tflag_def tprio_def tcause_def woken_def fun_eq_iff)

text \<open>A task that is not running becomes ready: it joins the end of the queue of its priority.\<close>

lemma make_ready:
  assumes inv: "sched_inv s q" and i: "i < next_task_id (taskctl s)" "i \<noteq> current_task (taskctl s)"
    and notrun: "tflag s i \<noteq> TASK_RUNNING"
  defines "s1 \<equiv> s\<lparr>taskctl := (taskctl s)\<lparr>tasks := (tasks (taskctl s))
                  [i := (tasks (taskctl s) ! i)\<lparr>t_flag := TASK_RUNNING\<rparr>]\<rparr>\<rparr>"
  shows "\<exists>s'. ready_push i s1 = Inr s' \<and> sched_inv s' (q(tprio s i := q (tprio s i) @ [i])) \<and>
           same_tasks s s' \<and> tcause s' = tcause s \<and> tflag s' = (tflag s)(i := TASK_RUNNING)"
proof -
  have len: "i < length (tasks (taskctl s))" using inv i by (simp add: sched_inv_def)
  have f1: "tflag s1 = (tflag s)(i := TASK_RUNNING)" "tprio s1 = tprio s" "tcause s1 = tcause s"
    using len by (auto simp: s1_def tflag_def tprio_def tcause_def fun_eq_iff nth_list_update)
  have p: "tprio s i < 2" using inv i by (simp add: sched_inv_def)
  have nin: "i \<notin> set (q r)" if "r < 2" for r using inv that notrun by (auto simp: sched_inv_def)
  have "ready_lists s1 q"
    using sched_inv_ready [OF inv] by (simp add: s1_def ready_lists_def)
  moreover have "length (q (tprio s1 i)) < 65535"
    using sched_inv_length [OF inv p] by (simp add: f1 MAX_TASK_def)
  ultimately obtain s' where s': "ready_push i s1 = Inr s'" "sched_frame s1 s'"
    "ready_lists s' (q(tprio s i := q (tprio s i) @ [i]))"
    using ready_push_ok [of s1 q i] len p nin [of 0] nin [of 1] f1 by (auto simp: s1_def)
  note f2 = sched_frame_fields [OF s'(2)]
  have "set ((q(tprio s i := q (tprio s i) @ [i])) r) =
      {j. j < next_task_id (taskctl s) \<and> j \<noteq> current_task (taskctl s) \<and>
          ((tflag s)(i := TASK_RUNNING)) j = TASK_RUNNING \<and> tprio s j = r}" if "r < 2" for r
    using inv i that by (auto simp: sched_inv_def)
  then have "sched_inv s' (q(tprio s i := q (tprio s i) @ [i]))"
    using inv s'(3) i f1 f2 by (auto simp: sched_inv_def s1_def)
  moreover have "same_tasks s s1" by (simp add: same_tasks_def f1 [unfolded s1_def] s1_def)
  ultimately show ?thesis
    using s'(1,2) f1 f2 same_tasks_trans [OF _ sched_frame_same_tasks] by metis
qed

lemma wake_one_ok:
  assumes inv: "sched_inv s q" and i: "i < next_task_id (taskctl s)"
    and cur: "woken s cause i \<Longrightarrow> i \<noteq> current_task (taskctl s)"
  shows "\<exists>s'. wake_one cause i s = Inr s' \<and> same_tasks s s' \<and> tcause s' = tcause s \<and>
           sched_inv s' (if woken s cause i then q(tprio s i := q (tprio s i) @ [i]) else q) \<and>
           tflag s' = (if woken s cause i then (tflag s)(i := TASK_RUNNING) else tflag s)"
proof (cases "woken s cause i")
  case True
  have len: "i < length (tasks (taskctl s))" using inv i by (simp add: sched_inv_def)
  have "wake_one cause i s = ready_push i (s\<lparr>taskctl := (taskctl s)\<lparr>tasks := (tasks (taskctl s))
                  [i := (tasks (taskctl s) ! i)\<lparr>t_flag := TASK_RUNNING\<rparr>]\<rparr>\<rparr>)"
    using True len by (simp add: wake_one_def woken_def tcause_def tflag_def Let_def)
  with True make_ready [OF inv i cur [OF True]] show ?thesis by (auto simp: woken_def)
next
  case False
  then have "wake_one cause i s = Inr s"
    using inv i by (auto simp: wake_one_def woken_def tcause_def tflag_def Let_def sched_inv_def)
  with False inv show ?thesis by (simp add: same_tasks_def)
qed

lemma wake_loop:
  assumes inv: "sched_inv s q" and cur: "tflag s (current_task (taskctl s)) = TASK_RUNNING"
    and k: "k \<le> next_task_id (taskctl s)"
  shows "\<exists>s'. for_list [0..<k] (wake_one cause) s = Inr s' \<and> same_tasks s s' \<and> tcause s' = tcause s \<and>
           sched_inv s' (\<lambda>p. q p @ filter (\<lambda>i. woken s cause i \<and> tprio s i = p) [0..<k]) \<and>
           tflag s' = (\<lambda>i. if i < k \<and> woken s cause i then TASK_RUNNING else tflag s i)"
  using k
proof (induction k)
  case 0
  then show ?case using inv by (simp add: same_tasks_def)
next
  case (Suc k)
  then obtain s1 where s1: "for_list [0..<k] (wake_one cause) s = Inr s1" "same_tasks s s1"
    "tcause s1 = tcause s"
    "sched_inv s1 (\<lambda>p. q p @ filter (\<lambda>i. woken s cause i \<and> tprio s i = p) [0..<k])"
    "tflag s1 = (\<lambda>i. if i < k \<and> woken s cause i then TASK_RUNNING else tflag s i)" by auto
  have w: "woken s1 cause k = woken s cause k" using s1 by (simp add: woken_def)
  have "woken s1 cause k \<Longrightarrow> k \<noteq> current_task (taskctl s1)"
    using cur s1(2) w by (auto simp: woken_def same_tasks_def)
  moreover have "k < next_task_id (taskctl s1)" using Suc.prems s1(2) by (simp add: same_tasks_def)
  ultimately obtain s2 where s2: "wake_one cause k s1 = Inr s2" "same_tasks s1 s2"
    "tcause s2 = tcause s1"
    "sched_inv s2 (let q1 = (\<lambda>p. q p @ filter (\<lambda>i. woken s cause i \<and> tprio s i = p) [0..<k]) in
       if woken s cause k then q1(tprio s1 k := q1 (tprio s1 k) @ [k]) else q1)"
    "tflag s2 = (if woken s cause k then (tflag s1)(k := TASK_RUNNING) else tflag s1)"
    using wake_one_ok [OF s1(4), of k cause] w by (auto simp: Let_def)
  have "(let q1 = (\<lambda>p. q p @ filter (\<lambda>i. woken s cause i \<and> tprio s i = p) [0..<k]) in
       if woken s cause k then q1(tprio s1 k := q1 (tprio s1 k) @ [k]) else q1) =
      (\<lambda>p. q p @ filter (\<lambda>i. woken s cause i \<and> tprio s i = p) [0..<Suc k])"
    using s1(2) by (auto simp: fun_eq_iff same_tasks_def Let_def)
  moreover have "for_list [0..<Suc k] (wake_one cause) s = Inr s2"
    using s1(1) s2(1) by (simp add: for_list_append)
  moreover have "tflag s2 = (\<lambda>i. if i < Suc k \<and> woken s cause i then TASK_RUNNING else tflag s i)"
    using s1(5) s2(5) by (auto simp: fun_eq_iff less_Suc_eq)
  ultimately show ?case
    using s1(3) s2(3,4) same_tasks_trans [OF s1(2) s2(2)] by auto
qed

lemma task_wakeup_ok:
  assumes inv: "sched_inv s q" and cur: "tflag s (current_task (taskctl s)) = TASK_RUNNING"
  defines "n \<equiv> next_task_id (taskctl s)"
  shows "\<exists>s'. task_wakeup cause s = Inr s' \<and> same_tasks s s' \<and> tcause s' = tcause s \<and>
           sched_inv s' (\<lambda>p. q p @ filter (\<lambda>i. woken s cause i \<and> tprio s i = p) [0..<n]) \<and>
           tflag s' = (\<lambda>i. if i < n \<and> woken s cause i then TASK_RUNNING else tflag s i)"
proof -
  let ?s1 = "s\<lparr>rflags := rflags s AND NOT RFLAGS_IF\<rparr>"
  have "sched_inv ?s1 q" "tflag ?s1 (current_task (taskctl ?s1)) = TASK_RUNNING"
    "n \<le> next_task_id (taskctl ?s1)" using inv cur by (simp_all add: n_def)
  from wake_loop [OF this, of cause] obtain s' where s':
    "for_list [0..<n] (wake_one cause) ?s1 = Inr s'" "same_tasks ?s1 s'" "tcause s' = tcause ?s1"
    "sched_inv s' (\<lambda>p. q p @ filter (\<lambda>i. woken ?s1 cause i \<and> tprio ?s1 i = p) [0..<n])"
    "tflag s' = (\<lambda>i. if i < n \<and> woken ?s1 cause i then TASK_RUNNING else tflag ?s1 i)" by blast
  then have "task_wakeup cause s = Inr (s'\<lparr>rflags := rflags s\<rparr>)"
    by (simp add: task_wakeup_def Let_def rflags_defs n_def)
  with s' show ?thesis by (simp add: same_tasks_def cong: if_cong)
qed

lemma sleep_mark_ok:
  assumes inv: "sched_inv s q"
  shows "\<exists>s'. sleep_mark cause s = Inr s' \<and> sched_inv s' q \<and> same_tasks s s' \<and>
           tflag s' = (tflag s)(current_task (taskctl s) := TASK_WAITING) \<and>
           tcause s' = (tcause s)(current_task (taskctl s) := cause)"
proof -
  let ?cur = "current_task (taskctl s)"
  let ?s' = "s\<lparr>taskctl := (taskctl s)\<lparr>tasks := (tasks (taskctl s))[?cur :=
      (tasks (taskctl s) ! ?cur)\<lparr>t_flag := TASK_WAITING, t_waitcause := cause\<rparr>]\<rparr>\<rparr>"
  have cur: "?cur < length (tasks (taskctl s))" using inv by (simp add: sched_inv_def)
  have f: "tflag ?s' = (tflag s)(?cur := TASK_WAITING)" "tprio ?s' = tprio s"
    "tcause ?s' = (tcause s)(?cur := cause)"
    using cur by (auto simp: tflag_def tprio_def tcause_def fun_eq_iff nth_list_update)
  have "sleep_mark cause s = Inr ?s'" using cur by (simp add: sleep_mark_def Let_def)
  moreover have "ready_lists ?s' q"
    using sched_inv_ready [OF inv] by (simp add: ready_lists_def)
  then have "sched_inv ?s' q" using inv f by (auto simp: sched_inv_def)
  ultimately show ?thesis using f by (simp add: same_tasks_def)
qed

text \<open>A new entry of the task table joins the queue of its priority.\<close>

lemma admit_task:
  assumes inv: "sched_inv s q" and n: "n = next_task_id (taskctl s)" "n < MAX_TASK"
    and t: "t_priority t < 2" "t_flag t = TASK_RUNNING"
    and s1: "taskctl s1 = (taskctl s)\<lparr>tasks := (tasks (taskctl s))[n := t], next_task_id := n + 1\<rparr>"
      "task_links s1 = task_links s"
  defines "p \<equiv> t_priority t"
  shows "\<exists>s'. ready_push n s1 = Inr s' \<and> sched_frame s1 s' \<and> sched_inv s' (q(p := q p @ [n])) \<and>
           tflag s' = (tflag s)(n := TASK_RUNNING) \<and> tprio s' = (tprio s)(n := p)"
proof -
  have len: "n < length (tasks (taskctl s))" using inv n by (simp add: sched_inv_def)
  have f1: "tflag s1 = (tflag s)(n := TASK_RUNNING)" "tprio s1 = (tprio s)(n := p)"
    using len t s1 by (auto simp: p_def tflag_def tprio_def fun_eq_iff nth_list_update)
  have nin: "n \<notin> set (q r)" if "r < 2" for r using inv that n by (auto simp: sched_inv_def)
  have "ready_lists s1 q" using sched_inv_ready [OF inv] s1 by (simp add: ready_lists_def)
  moreover have "length (q (tprio s1 n)) < 65535"
    using sched_inv_length [OF inv, of p] t(1) f1 by (simp add: MAX_TASK_def p_def)
  moreover have "n < length (tasks (taskctl s1))" using len s1 by simp
  ultimately obtain s' where s': "ready_push n s1 = Inr s'" "sched_frame s1 s'"
    "ready_lists s' (q(p := q p @ [n]))"
    using ready_push_ok [of s1 q n] t(1) nin [of 0] nin [of 1] f1 by (auto simp: p_def)
  note f2 = sched_frame_fields [OF s'(2)]
  have "set ((q(p := q p @ [n])) r) =
      {j. j < n + 1 \<and> j \<noteq> current_task (taskctl s) \<and>
          ((tflag s)(n := TASK_RUNNING)) j = TASK_RUNNING \<and> ((tprio s)(n := p)) j = r}" if "r < 2" for r
    using inv that n by (auto simp: sched_inv_def less_Suc_eq)
  then have "sched_inv s' (q(p := q p @ [n]))"
    using inv s'(3) s1 f1 f2 n t(1) by (auto simp: sched_inv_def p_def less_Suc_eq)
  with s' f1 f2 show ?thesis by auto
qed

lemma task_start_ok:
  assumes inv: "sched_inv s q" and mem: "mem_inv s" "0 < avail s"
    and n: "next_task_id (taskctl s) < MAX_TASK" and p: "priority < 2"
  defines "n \<equiv> next_task_id (taskctl s)"
  shows "\<exists>stack s'. task_start func priority user s = Inr (n, s') \<and>
           sched_inv s' (q(priority := q priority @ [n])) \<and> mem_inv s' \<and>
           live s' = insert stack (live s) \<and> stack \<notin> live s \<and> avail s' = avail s - 1 \<and>
           next_task_id (taskctl s') = n + 1 \<and> tflag s' = (tflag s)(n := TASK_RUNNING) \<and>
           tprio s' = (tprio s)(n := priority) \<and>
           t_rsp (tasks (taskctl s') ! n) = stack + STACK_LENGTH - sizeof_stackframe64 \<and>
           sframes s' (stack + STACK_LENGTH - sizeof_stackframe64) =
             init_frame user (stack + STACK_LENGTH) func"
proof -
  have "mem_fits (0x1000 * 8)" by (simp add: mem_fits_def MEM_GRANULARITY_def)
  from kmem.alloc_law [OF mem(1) this mem(2), of "''stack''"] obtain stack s1 where
    a: "mem_alloc (0x1000 * 8) ''stack'' s = Inr (stack, s1)" "mem_inv s1" "stack \<notin> live s"
    "live s1 = insert stack (live s)" "avail s1 = avail s - 1" "mem_rest s s1" by blast
  have rest: "taskctl s1 = taskctl s" "task_links s1 = task_links s"
    using a(6) by (auto simp: mem_rest_def)
  have len: "n < length (tasks (taskctl s))" using inv n by (simp add: sched_inv_def n_def)
  define t where "t = (tasks (taskctl s) ! n)\<lparr>t_rip := func, t_flag := TASK_RUNNING, t_task_id := n,
      t_priority := priority, t_rsp := stack + STACK_LENGTH - sizeof_stackframe64\<rparr>"
  define s2 where "s2 = s1\<lparr>taskctl := (taskctl s)\<lparr>tasks := (tasks (taskctl s))[n := t], next_task_id := n + 1\<rparr>,
      sframes := (sframes s1)(stack + STACK_LENGTH - sizeof_stackframe64 :=
        init_frame user (stack + STACK_LENGTH) func)\<rparr>"
  have call: "task_start func priority user s = bindr (ready_push n s2) (\<lambda>s3. Inr (n, s3))"
    using a(1) len rest by (simp add: task_start_def Let_def n_def [symmetric] s2_def t_def)
  obtain s3 where s3: "ready_push n s2 = Inr s3" "sched_frame s2 s3"
    "sched_inv s3 (q(priority := q priority @ [n]))" "tflag s3 = (tflag s)(n := TASK_RUNNING)"
    "tprio s3 = (tprio s)(n := priority)"
    using admit_task [OF inv meta_eq_to_obj_eq [OF n_def], of t s2] n p rest by (auto simp: n_def s2_def t_def)
  have "mem_inv s3" "live s3 = live s1" "avail s3 = avail s1" "sframes s3 = sframes s2"
    using a(2) s3(2) by (auto simp: sched_frame_def s2_def mem_inv_def free_stack_def live_def avail_def)
  with call s3 a(3,4,5) sched_frame_fields [OF s3(2)] len show ?thesis
    by (intro exI [of _ stack] exI [of _ s3]) (simp add: s2_def t_def)
qed

lemma task_init_ok:
  assumes "length (tasks (taskctl s)) = MAX_TASK" and "length (lists (taskctl s)) = 2"
  shows "\<exists>s'. task_init s = Inr (0, s') \<and> sched_inv s' (\<lambda>_. []) \<and>
           current_task (taskctl s') = 0 \<and> next_task_id (taskctl s') = 1 \<and>
           tflag s' 0 = TASK_RUNNING \<and> tprio s' 0 = TASK_PRIORITY_HIGH \<and>
           freemem s' = freemem s \<and> memhdrs s' = memhdrs s"
  using assms
  by (auto simp: task_init_def Let_def machine_simps sched_inv_def ready_lists_def tflag_def tprio_def
      prio_defs MAX_TASK_def less_2_cases nth_list_update intro!: list_init_wf)

section \<open>Round robin\<close>

text \<open>The tasks that get the processor in the next \<open>n\<close> switches.\<close>

fun sched_n :: "nat \<Rightarrow> 'a task_state_scheme \<Rightarrow> (nat list \<times> 'a task_state_scheme) res" where
  "sched_n 0 s = Inr ([], s)"
| "sched_n (Suc n) s =
     bindr (schedule s) (\<lambda>(r, s1). bindr (sched_n n s1) (\<lambda>(ts, s2).
       Inr (current_task (taskctl s1) # ts, s2)))"

lemma tasks_tflag: "tasks (taskctl s') = tasks (taskctl s) \<Longrightarrow> tflag s' = tflag s \<and> tprio s' = tprio s"
  by (simp add: tflag_def tprio_def fun_eq_iff)

lemma schedule_rotate:
  assumes inv: "sched_inv s q" and hi: "q TASK_PRIORITY_HIGH = x # xs"
    and cur: "tflag s (current_task (taskctl s)) = TASK_RUNNING"
      "tprio s (current_task (taskctl s)) = TASK_PRIORITY_HIGH"
  shows "\<exists>r s' q'. schedule s = Inr (r, s') \<and> sched_inv s' q' \<and> current_task (taskctl s') = x \<and>
           q' TASK_PRIORITY_HIGH = xs @ [current_task (taskctl s)] \<and>
           tflag s' x = TASK_RUNNING \<and> tprio s' x = TASK_PRIORITY_HIGH"
proof -
  from schedule_ok [OF inv] obtain r s' q' where s': "schedule s = Inr (r, s')" "sched_inv s' q'"
    "(current_task (taskctl s'), q') = abs_schedule False TASK_PRIORITY_HIGH (current_task (taskctl s), q)"
    "tasks (taskctl s') = tasks (taskctl s)" using cur by auto
  have "x \<in> set (q TASK_PRIORITY_HIGH)" using hi by simp
  then have "tflag s x = TASK_RUNNING \<and> tprio s x = TASK_PRIORITY_HIGH"
    using inv by (auto simp: sched_inv_def prio_defs)
  with s' hi tasks_tflag [OF s'(4)] show ?thesis
    by (intro exI [of _ r] exI [of _ s'] exI [of _ q']) (auto simp: abs_schedule_def prio_defs Let_def)
qed

lemma sched_n_rotate:
  assumes "sched_inv s q" and "q TASK_PRIORITY_HIGH = xs @ ys"
    and "tflag s (current_task (taskctl s)) = TASK_RUNNING"
    and "tprio s (current_task (taskctl s)) = TASK_PRIORITY_HIGH"
  shows "\<exists>s' q'. sched_n (length xs) s = Inr (xs, s') \<and> sched_inv s' q' \<and>
           current_task (taskctl s') = last (current_task (taskctl s) # xs) \<and>
           q' TASK_PRIORITY_HIGH = ys @ butlast (current_task (taskctl s) # xs) \<and>
           tflag s' (current_task (taskctl s')) = TASK_RUNNING \<and>
           tprio s' (current_task (taskctl s')) = TASK_PRIORITY_HIGH"
  using assms
proof (induction xs arbitrary: s q ys)
  case Nil
  then show ?case by auto
next
  case (Cons x xs)
  then have "q TASK_PRIORITY_HIGH = x # xs @ ys" by simp
  from schedule_rotate [OF Cons.prems(1) this Cons.prems(3,4)] obtain r s1 q1 where
    s1: "schedule s = Inr (r, s1)" "sched_inv s1 q1" "current_task (taskctl s1) = x"
    "q1 TASK_PRIORITY_HIGH = xs @ ys @ [current_task (taskctl s)]"
    "tflag s1 x = TASK_RUNNING" "tprio s1 x = TASK_PRIORITY_HIGH" by auto
  from Cons.IH [OF s1(2,4)] s1 obtain s' q' where
    "sched_n (length xs) s1 = Inr (xs, s')" "sched_inv s' q'"
    "current_task (taskctl s') = last (x # xs)"
    "q' TASK_PRIORITY_HIGH = (ys @ [current_task (taskctl s)]) @ butlast (x # xs)"
    "tflag s' (current_task (taskctl s')) = TASK_RUNNING"
    "tprio s' (current_task (taskctl s')) = TASK_PRIORITY_HIGH" by auto
  with s1 show ?case by (intro exI [of _ s'] exI [of _ q']) auto
qed

lemma sched_n_append:
  "sched_n (m + n) s = bindr (sched_n m s) (\<lambda>(ts, s1). bindr (sched_n n s1) (\<lambda>(us, s2). Inr (ts @ us, s2)))"
  by (induction m arbitrary: s) (auto simp: bindr_def split: sum.splits)

section \<open>All interleavings\<close>

text \<open>
  The scheduler as a state machine. A timer interrupt switches tasks, the running task goes to sleep,
  somebody wakes the tasks waiting for an object. The idle task (\<open>task_idle_main\<close> of \<^verbatim>\<open>kernel.c\<close>, started
  with low priority) only halts: it never sleeps on an object.
\<close>

inductive sched_step :: "nat \<Rightarrow> 'a task_state_scheme \<Rightarrow> 'a task_state_scheme \<Rightarrow> bool" for idle where
  tick: "schedule s = Inr (r, s') \<Longrightarrow> sched_step idle s s'"
| sleep: "current_task (taskctl s) \<noteq> idle \<Longrightarrow> sleep_mark cause s = Inr s1 \<Longrightarrow>
    schedule s1 = Inr (r, s') \<Longrightarrow> sched_step idle s s'"
| wake: "task_wakeup cause s = Inr s' \<Longrightarrow> sched_step idle s s'"

inductive_cases sched_stepE: "sched_step idle s s'"

definition sched_good :: "nat \<Rightarrow> 'a task_state_scheme \<Rightarrow> bool" where
  "sched_good idle s =
     ((\<exists>q. sched_inv s q) \<and> tflag s (current_task (taskctl s)) = TASK_RUNNING \<and>
      idle < next_task_id (taskctl s) \<and> tflag s idle = TASK_RUNNING \<and>
      tprio s idle = TASK_PRIORITY_LOW)"

lemma sched_inv_queued_running:
  "sched_inv s q \<Longrightarrow> i \<in> set (q TASK_PRIORITY_HIGH) \<or> i \<in> set (q TASK_PRIORITY_LOW) \<Longrightarrow>
   tflag s i = TASK_RUNNING"
  by (auto simp: sched_inv_def prio_defs)

lemma abs_schedule_cur:
  assumes "abs_schedule w p (cur, q) = (c', q')"
  shows "c' = cur \<or> c' \<in> set (q TASK_PRIORITY_HIGH) \<or> c' \<in> set (q TASK_PRIORITY_LOW)"
  using assms by (auto simp: abs_schedule_def Let_def split: if_splits)

lemma abs_schedule_waits:
  assumes "abs_schedule True p (cur, q) = (c', q')" and "q TASK_PRIORITY_LOW \<noteq> []"
  shows "c' \<in> set (q TASK_PRIORITY_HIGH) \<or> c' \<in> set (q TASK_PRIORITY_LOW)"
  using assms by (auto simp: abs_schedule_def Let_def split: if_splits)

lemma schedule_keeps_good:
  assumes inv: "sched_inv s q" and idle: "idle < next_task_id (taskctl s)" "tflag s idle = TASK_RUNNING"
      "tprio s idle = TASK_PRIORITY_LOW"
    and cur: "tflag s (current_task (taskctl s)) = TASK_RUNNING \<or> current_task (taskctl s) \<noteq> idle"
    and call: "schedule s = Inr (r, s')"
  shows "sched_good idle s'"
proof -
  let ?cur = "current_task (taskctl s)"
  from schedule_ok [OF inv] call obtain q' where s': "sched_inv s' q'"
    "abs_schedule (tflag s ?cur = TASK_WAITING) (tprio s ?cur) (?cur, q) = (current_task (taskctl s'), q')"
    "tasks (taskctl s') = tasks (taskctl s)" "next_task_id (taskctl s') = next_task_id (taskctl s)"
    by auto
  note t = tasks_tflag [OF s'(3)]
  have "tflag s (current_task (taskctl s')) = TASK_RUNNING"
  proof (cases "tflag s ?cur = TASK_RUNNING")
    case True
    then show ?thesis
      using abs_schedule_cur [OF s'(2)] sched_inv_queued_running [OF inv] by metis
  next
    case False
    then have w: "tflag s ?cur = TASK_WAITING" using inv by (auto simp: sched_inv_def)
    have "idle \<in> set (q TASK_PRIORITY_LOW)"
      using inv idle cur False by (auto simp: sched_inv_def prio_defs)
    then have "q TASK_PRIORITY_LOW \<noteq> []" by auto
    with abs_schedule_waits [of "tprio s ?cur" ?cur q] s'(2) w show ?thesis
      using sched_inv_queued_running [OF inv] by simp
  qed
  with s'(1,4) t idle show ?thesis by (auto simp: sched_good_def)
qed

lemma wakeup_keeps_good:
  assumes "sched_good idle s" and call: "task_wakeup cause s = Inr s'"
  shows "sched_good idle s'"
proof -
  from assms(1) obtain q where inv: "sched_inv s q"
    and good: "tflag s (current_task (taskctl s)) = TASK_RUNNING" "idle < next_task_id (taskctl s)"
      "tflag s idle = TASK_RUNNING" "tprio s idle = TASK_PRIORITY_LOW" by (auto simp: sched_good_def)
  from task_wakeup_ok [OF inv good(1), of cause] call have "same_tasks s s'"
    "\<exists>q. sched_inv s' q"
    "tflag s' = (\<lambda>i. if i < next_task_id (taskctl s) \<and> woken s cause i then TASK_RUNNING else tflag s i)"
    by auto
  with good show ?thesis by (simp add: sched_good_def same_tasks_def)
qed

text \<open>Every step keeps the invariant: the processor always runs a runnable task and no task is lost.\<close>

lemma sched_step_good: "sched_step idle s s' \<Longrightarrow> sched_good idle s \<Longrightarrow> sched_good idle s'"
proof (induction rule: sched_step.induct)
  case (tick s r s')
  then obtain q where "sched_inv s q" by (auto simp: sched_good_def)
  with tick schedule_keeps_good [of s q idle r s'] show ?case by (simp add: sched_good_def)
next
  case (sleep s cause s1 r s')
  from sleep.prems obtain q where inv: "sched_inv s q" and good: "idle < next_task_id (taskctl s)"
    "tflag s idle = TASK_RUNNING" "tprio s idle = TASK_PRIORITY_LOW" by (auto simp: sched_good_def)
  from sleep_mark_ok [OF inv, of cause] sleep.hyps(2) have
    "sched_inv s1 q" "same_tasks s s1" "tflag s1 = (tflag s)(current_task (taskctl s) := TASK_WAITING)"
    by auto
  with good sleep.hyps(1,3) show ?case
    by (intro schedule_keeps_good [of s1 q idle r s']) (auto simp: same_tasks_def)
next
  case (wake cause s s')
  then show ?case by (blast intro: wakeup_keeps_good)
qed

lemma sched_steps_good: "(sched_step idle)\<^sup>*\<^sup>* s s' \<Longrightarrow> sched_good idle s \<Longrightarrow> sched_good idle s'"
  by (induction rule: rtranclp_induct) (auto intro: sched_step_good)

section \<open>What the operations leave alone\<close>

definition task_rest :: "'a task_state_scheme \<Rightarrow> 'a task_state_scheme \<Rightarrow> bool" where
  "task_rest s s' = (\<exists>c nx. s' = s\<lparr>taskctl := c, task_links := nx\<rparr>)"

lemma task_restI: "s' = s\<lparr>taskctl := c, task_links := nx\<rparr> \<Longrightarrow> task_rest s s'"
  unfolding task_rest_def by blast

lemma task_rest_refl: "task_rest s s"
  by (rule task_restI [where c = "taskctl s" and nx = "task_links s"]) simp

lemma task_rest_trans: "task_rest s s' \<Longrightarrow> task_rest s' s'' \<Longrightarrow> task_rest s s''"
  unfolding task_rest_def by (elim exE) (rule exI, rule exI, simp)

lemma ready_push_rest: "ready_push i s = Inr s' \<Longrightarrow> task_rest s s'"
  by (auto simp: ready_push_def Let_def) (rule task_restI, rule refl)

lemma ready_pop_rest: "ready_pop p s = Inr (r, s') \<Longrightarrow> task_rest s s'"
  by (auto simp: ready_pop_def Let_def) (rule task_restI, rule refl)

lemma schedule_rest:
  assumes "schedule s = Inr (r, s')"
  shows "task_rest s s'"
proof -
  let ?cur = "current_task (taskctl s)"
  from assms obtain t :: TASK and n0 s1 n1 s2 where
    s1: "ready_pop TASK_PRIORITY_HIGH s = Inr (n0, s1)"
      "(if n0 = None \<and> (t_flag t = TASK_WAITING \<or> t_priority t = TASK_PRIORITY_LOW) then ready_pop TASK_PRIORITY_LOW s1 else Inr (n0, s1)) = Inr (n1, s2)"
      "(case n1 of None \<Rightarrow> Inr (None, s2) | Some nt \<Rightarrow>
          bindr (if t_flag t \<noteq> TASK_WAITING then ready_push ?cur s2 else Inr s2)
            (\<lambda>s3. Inr (Some (?cur, nt), s3\<lparr>taskctl := taskctl s3\<lparr>current_task := nt\<rparr>\<rparr>))) = Inr (r, s')"
    by (auto simp: schedule_def Let_def)
  have "task_rest s1 s2" using s1(2) by (auto split: if_splits intro: task_rest_refl dest: ready_pop_rest)
  then have s2: "task_rest s s2" by (rule task_rest_trans [OF ready_pop_rest [OF s1(1)]])
  show ?thesis
  proof (cases n1)
    case None
    then show ?thesis using s1(3) s2 by simp
  next
    case (Some nt)
    then obtain s3 where s3: "(if t_flag t \<noteq> TASK_WAITING then ready_push ?cur s2 else Inr s2) = Inr s3"
      "s' = s3\<lparr>taskctl := taskctl s3\<lparr>current_task := nt\<rparr>\<rparr>" using s1(3) by auto
    have "task_rest s2 s3" using s3(1) by (auto split: if_splits intro: task_rest_refl dest: ready_push_rest)
    moreover have "task_rest s3 s'" unfolding s3(2) by (rule task_restI [where nx = "task_links s3"]) simp
    ultimately show ?thesis using s2 by (blast intro: task_rest_trans)
  qed
qed

lemma wake_one_rest:
  assumes "wake_one cause i s = Inr s'"
  shows "task_rest s s'"
proof -
  let ?c = "taskctl s"
  from assms obtain t where "arr_get (tasks ?c) i = Inr t"
    and *: "(if t_waitcause t = cause \<and> t_flag t \<noteq> TASK_RUNNING
        then ready_push i (s\<lparr>taskctl := ?c\<lparr>tasks := (tasks ?c)[i := t\<lparr>t_flag := TASK_RUNNING\<rparr>]\<rparr>\<rparr>)
        else Inr s) = Inr s'" by (auto simp: wake_one_def Let_def)
  show ?thesis
  proof (cases "t_waitcause t = cause \<and> t_flag t \<noteq> TASK_RUNNING")
    case True
    let ?s1 = "s\<lparr>taskctl := ?c\<lparr>tasks := (tasks ?c)[i := t\<lparr>t_flag := TASK_RUNNING\<rparr>]\<rparr>\<rparr>"
    have "task_rest s ?s1" by (rule task_restI [where nx = "task_links s"]) simp
    moreover from True * have "task_rest ?s1 s'" by (simp add: ready_push_rest)
    ultimately show ?thesis by (rule task_rest_trans)
  next
    case False
    with * have "s' = s" by auto
    then show ?thesis by (simp add: task_rest_refl)
  qed
qed

lemma wake_loop_rest: "for_list is (wake_one cause) s = Inr s' \<Longrightarrow> task_rest s s'"
proof (induction "is" arbitrary: s)
  case Nil
  then show ?case by (simp add: task_rest_refl)
next
  case (Cons i "is")
  then show ?case by (auto intro: task_rest_trans wake_one_rest)
qed

lemma task_wakeup_rest:
  assumes "task_wakeup cause s = Inr s'"
  shows "task_rest s s'"
proof -
  from assms obtain s2 where s2: "for_list [0..<next_task_id (taskctl s)] (wake_one cause) (io_cli s) = Inr s2"
    "s' = set_rflags (rflags s) s2" by (auto simp: task_wakeup_def Let_def rflags_defs)
  from wake_loop_rest [OF s2(1)] obtain c nx where "s2 = (io_cli s)\<lparr>taskctl := c, task_links := nx\<rparr>"
    by (auto simp: task_rest_def)
  with s2(2) show ?thesis by (intro task_restI [where c = c and nx = nx]) (simp add: rflags_defs)
qed

text \<open>As for the allocator, the scheduler's predicates see its own two fields only.\<close>

definition sched_ok :: "TASKCTL \<Rightarrow> nat linkmap \<Rightarrow> (nat \<Rightarrow> nat list) \<Rightarrow> bool" where
  "sched_ok c nx q =
     (length (tasks c) = MAX_TASK \<and> next_task_id c \<le> MAX_TASK \<and> current_task c < next_task_id c \<and>
      t_flag (tasks c ! current_task c) \<in> {TASK_RUNNING, TASK_WAITING} \<and>
      (\<forall>i < next_task_id c. t_priority (tasks c ! i) < 2) \<and>
      length (lists c) = 2 \<and> set (q 0) \<inter> set (q 1) = {} \<and> (\<forall>p < 2. wf_list nx (lists c ! p) (q p)) \<and>
      (\<forall>p < 2. set (q p) = {i. i < next_task_id c \<and> i \<noteq> current_task c \<and>
                             t_flag (tasks c ! i) = TASK_RUNNING \<and> t_priority (tasks c ! i) = p}))"

lemma sched_view:
  "sched_inv s q = sched_ok (taskctl s) (task_links s) q"
  by (simp add: sched_inv_def sched_ok_def ready_lists_def tflag_def tprio_def)

definition cur_running :: "TASKCTL \<Rightarrow> bool" where
  "cur_running c = (t_flag (tasks c ! current_task c) = TASK_RUNNING)"

text \<open>
  What a client needs to know about waking: it always succeeds while the processor runs a task, keeps
  the scheduler's invariant and touches nothing else.
\<close>

definition sched_fine :: "'a task_state_scheme \<Rightarrow> bool" where
  "sched_fine s = ((\<exists>q. sched_ok (taskctl s) (task_links s) q) \<and> cur_running (taskctl s))"

lemma task_wakeup_fine:
  assumes "sched_fine s"
  shows "\<exists>s'. task_wakeup cause s = Inr s' \<and> sched_fine s' \<and> task_rest s s'"
proof -
  from assms obtain q where q: "sched_inv s q" "tflag s (current_task (taskctl s)) = TASK_RUNNING"
    by (auto simp: sched_fine_def sched_view cur_running_def tflag_def)
  from task_wakeup_ok [OF q, of cause] obtain s' q' where s': "task_wakeup cause s = Inr s'"
    "same_tasks s s'" "sched_inv s' q'"
    "tflag s' = (\<lambda>i. if i < next_task_id (taskctl s) \<and> woken s cause i then TASK_RUNNING else tflag s i)"
    by blast
  have "tflag s' (current_task (taskctl s')) = TASK_RUNNING"
    using s'(2,4) q(2) by (simp add: same_tasks_def)
  then have "cur_running (taskctl s')" by (simp add: cur_running_def tflag_def)
  with s'(1,3) task_wakeup_rest [OF s'(1)] show ?thesis
    by (auto simp: sched_fine_def sched_view)
qed

section \<open>What waking leaves behind\<close>

text \<open>Nobody is put to sleep, and wait causes stay.\<close>

lemma schedule_fine:
  assumes "sched_fine s"
  shows "\<exists>r s'. schedule s = Inr (r, s') \<and> sched_fine s' \<and> task_rest s s' \<and> tflag s' = tflag s"
proof -
  let ?cur = "current_task (taskctl s)"
  from assms obtain q where q: "sched_inv s q" "tflag s ?cur = TASK_RUNNING" by (auto simp: sched_fine_def sched_view cur_running_def tflag_def)
  from schedule_ok [OF q(1)] obtain r s' q' where
    s': "schedule s = Inr (r, s')" "sched_inv s' q'" "tasks (taskctl s') = tasks (taskctl s)"
      "abs_schedule (tflag s ?cur = TASK_WAITING) (tprio s ?cur) (?cur, q) = (current_task (taskctl s'), q')" by auto
  have "tflag s (current_task (taskctl s')) = TASK_RUNNING"
    using abs_schedule_cur [OF s'(4)] sched_inv_queued_running [OF q(1)] q(2) by metis
  with s'(2,3) have "sched_fine s'" by (auto simp: sched_fine_def sched_view cur_running_def tflag_def)
  with s'(1) schedule_rest [OF s'(1)] tasks_tflag [OF s'(3)] show ?thesis by blast
qed

definition none_slept :: "'a task_state_scheme \<Rightarrow> 'a task_state_scheme \<Rightarrow> bool" where
  "none_slept s s' =
     (next_task_id (taskctl s') = next_task_id (taskctl s) \<and> tcause s' = tcause s \<and>
      (\<forall>c. tflag s c = TASK_RUNNING \<longrightarrow> tflag s' c = TASK_RUNNING))"

definition readers_woken :: "waitobj \<Rightarrow> 'a task_state_scheme \<Rightarrow> 'a task_state_scheme \<Rightarrow> bool" where
  "readers_woken cause s s' = (\<forall>c < next_task_id (taskctl s). tcause s c = cause \<longrightarrow> tflag s' c = TASK_RUNNING)"

lemma none_slept_refl: "none_slept s s"
  by (simp add: none_slept_def)

lemma none_slept_trans: "none_slept s s1 \<Longrightarrow> none_slept s1 s2 \<Longrightarrow> none_slept s s2"
  by (simp add: none_slept_def)

lemma none_slept_same: "taskctl s' = taskctl s \<Longrightarrow> none_slept s s'"
  by (simp add: none_slept_def tcause_def tflag_def fun_eq_iff)

lemma woken_later: "readers_woken cause s s1 \<Longrightarrow> none_slept s1 s2 \<Longrightarrow> readers_woken cause s s2"
  by (simp add: readers_woken_def none_slept_def)

lemma woken_earlier: "none_slept s s1 \<Longrightarrow> readers_woken cause s1 s2 \<Longrightarrow> readers_woken cause s s2"
  by (simp add: readers_woken_def none_slept_def)

lemma ready_push_tasks: "ready_push i s = Inr s' \<Longrightarrow> tasks (taskctl s') = tasks (taskctl s) \<and> next_task_id (taskctl s') = next_task_id (taskctl s)"
  by (auto simp: ready_push_def Let_def)

lemma wake_one_wakes:
  assumes "wake_one cause i s = Inr s'"
  shows "none_slept s s'" "tcause s i = cause \<Longrightarrow> tflag s' i = TASK_RUNNING"
proof -
  let ?c = "taskctl s"
  from assms obtain t where t: "arr_get (tasks ?c) i = Inr t"
    and *: "(if t_waitcause t = cause \<and> t_flag t \<noteq> TASK_RUNNING
        then ready_push i (s\<lparr>taskctl := ?c\<lparr>tasks := (tasks ?c)[i := t\<lparr>t_flag := TASK_RUNNING\<rparr>]\<rparr>\<rparr>)
        else Inr s) = Inr s'" by (auto simp: wake_one_def Let_def)
  have i: "i < length (tasks ?c)" "t = tasks ?c ! i" using t by (auto simp: arr_get_def split: if_splits)
  have "tasks (taskctl s') = (if t_waitcause t = cause \<and> t_flag t \<noteq> TASK_RUNNING then (tasks ?c)[i := t\<lparr>t_flag := TASK_RUNNING\<rparr>] else tasks ?c)"
    "next_task_id (taskctl s') = next_task_id ?c"
    using * ready_push_tasks by (auto split: if_splits dest!: ready_push_tasks)
  then show "none_slept s s'" "tcause s i = cause \<Longrightarrow> tflag s' i = TASK_RUNNING"
    using i by (auto simp: none_slept_def tcause_def tflag_def fun_eq_iff nth_list_update split: if_splits)
qed

lemma wake_loop_wakes:
  "for_list is (wake_one cause) s = Inr s' \<Longrightarrow> none_slept s s' \<and> (\<forall>c \<in> set is. tcause s c = cause \<longrightarrow> tflag s' c = TASK_RUNNING)"
proof (induction "is" arbitrary: s)
  case (Cons i "is")
  then obtain s1 where s1: "wake_one cause i s = Inr s1" "for_list is (wake_one cause) s1 = Inr s'" by auto
  note w = wake_one_wakes [OF s1(1)] and r = Cons.IH [OF s1(2)]
  then show ?case by (auto intro: none_slept_trans simp: none_slept_def)
qed (simp add: none_slept_refl)

lemma task_wakeup_wakes_all:
  assumes "task_wakeup cause s = Inr s'"
  shows "none_slept s s'" "readers_woken cause s s'"
proof -
  from assms obtain s2 where s2: "for_list [0..<next_task_id (taskctl s)] (wake_one cause) (io_cli s) = Inr s2"
    "s' = set_rflags (rflags s) s2" by (auto simp: task_wakeup_def Let_def rflags_defs)
  have e: "none_slept s (io_cli s)" "none_slept s2 s'" by (simp_all add: none_slept_same rflags_defs s2(2))
  note w = wake_loop_wakes [OF s2(1)]
  show "none_slept s s'" using none_slept_trans [OF none_slept_trans [OF e(1)] e(2)] w by blast
  show "readers_woken cause s s'" using w by (auto simp: readers_woken_def tcause_def tflag_def rflags_defs s2(2))
qed

lemma rest_slept: "mem_rest s s' \<Longrightarrow> none_slept s s'"
  by (rule none_slept_same) (auto simp: mem_rest_def)

section \<open>Properties\<close>

text \<open>
  C2: \<open>schedule\<close> implements the abstract scheduler. On every state that satisfies the invariant it returns,
  keeps the invariant, chooses the task the specification chooses and leaves the queues the
  specification leaves; it changes no task.
\<close>

theorem schedule_refines:
  assumes "sched_inv s q"
  shows "\<exists>r s' q'. schedule s = Inr (r, s') \<and> sched_inv s' q' \<and>
           (current_task (taskctl s'), q') =
             abs_schedule (tflag s (current_task (taskctl s)) = TASK_WAITING)
               (tprio s (current_task (taskctl s))) (current_task (taskctl s), q) \<and>
           tasks (taskctl s') = tasks (taskctl s)"
  using schedule_ok [OF assms] by blast

text \<open>
  C1: in every interleaving of timer ticks, sleeps and wake-ups the processor runs a runnable task and the
  ready queues hold exactly the other runnable tasks; the idle task never stops being runnable.
\<close>

theorem scheduler_invariant:
  assumes "(sched_step idle)\<^sup>*\<^sup>* s s'" and "sched_good idle s"
  shows "\<exists>q. sched_inv s' q \<and> tflag s' (current_task (taskctl s')) = TASK_RUNNING \<and>
           (\<forall>p < 2. distinct (q p) \<and>
              set (q p) = {i. i < next_task_id (taskctl s') \<and> i \<noteq> current_task (taskctl s') \<and>
                             tflag s' i = TASK_RUNNING \<and> tprio s' i = p})"
proof -
  from sched_steps_good [OF assms] obtain q where q: "sched_inv s' q"
    "tflag s' (current_task (taskctl s')) = TASK_RUNNING" by (auto simp: sched_good_def)
  moreover have "\<forall>p < 2. set (q p) = {i. i < next_task_id (taskctl s') \<and> i \<noteq> current_task (taskctl s') \<and>
      tflag s' i = TASK_RUNNING \<and> tprio s' i = p}" using q(1) by (simp add: sched_inv_def)
  ultimately show ?thesis using sched_inv_distinct [OF q(1)] by blast
qed

text \<open>
  C25: high-priority tasks are served round robin. With \<open>hi\<close> waiting behind a running high-priority task,
  \<open>length hi + 1\<close> switches run the tasks of \<open>hi\<close> in order and then the first task again, and leave the
  queue as it was.
\<close>

theorem round_robin:
  assumes inv: "sched_inv s q" and run: "tflag s (current_task (taskctl s)) = TASK_RUNNING"
    and hp: "tprio s (current_task (taskctl s)) = TASK_PRIORITY_HIGH"
  shows "\<exists>s' q'. sched_n (length (q TASK_PRIORITY_HIGH) + 1) s =
             Inr (q TASK_PRIORITY_HIGH @ [current_task (taskctl s)], s') \<and> sched_inv s' q' \<and>
           q' TASK_PRIORITY_HIGH = q TASK_PRIORITY_HIGH \<and>
           current_task (taskctl s') = current_task (taskctl s)"
proof -
  let ?hi = "q TASK_PRIORITY_HIGH" and ?cur = "current_task (taskctl s)"
  have "q TASK_PRIORITY_HIGH = ?hi @ []" by simp
  from sched_n_rotate [OF inv this run hp] obtain s1 q1 where s1: "sched_n (length ?hi) s = Inr (?hi, s1)"
    "sched_inv s1 q1" "current_task (taskctl s1) = last (?cur # ?hi)"
    "q1 TASK_PRIORITY_HIGH = butlast (?cur # ?hi)"
    "tflag s1 (current_task (taskctl s1)) = TASK_RUNNING"
    "tprio s1 (current_task (taskctl s1)) = TASK_PRIORITY_HIGH" by auto
  have "\<exists>r s' q'. schedule s1 = Inr (r, s') \<and> sched_inv s' q' \<and> current_task (taskctl s') = ?cur \<and>
      q' TASK_PRIORITY_HIGH = ?hi"
  proof (cases "?hi = []")
    case True
    then have "schedule s1 = Inr (None, s1)"
      using schedule_stays [OF s1(2)] s1(4,5,6) by (simp add: sched_candidate_def prio_defs)
    with True s1 show ?thesis by auto
  next
    case False
    then have hi: "q1 TASK_PRIORITY_HIGH = ?cur # butlast ?hi" using s1(4) by simp
    from schedule_rotate [OF s1(2) hi s1(5,6)] False s1(3) show ?thesis by auto
  qed
  then obtain r s' q' where s': "schedule s1 = Inr (r, s')" "sched_inv s' q'"
    "current_task (taskctl s') = ?cur" "q' TASK_PRIORITY_HIGH = ?hi" by blast
  have "sched_n 1 s1 = Inr ([?cur], s')" using s'(1,3) by simp
  then have "sched_n (length ?hi + 1) s = Inr (?hi @ [?cur], s')"
    using s1(1) sched_n_append [of "length ?hi" 1 s] by (simp del: sched_n.simps)
  with s' show ?thesis by blast
qed

text \<open>
  \<open>task_wakeup\<close> makes exactly the tasks that wait for the given object runnable, appends them to the
  queues of their priorities in the order of their numbers, and restores the flags register.
\<close>

theorem task_wakeup_wakes:
  assumes "sched_inv s q" and "tflag s (current_task (taskctl s)) = TASK_RUNNING"
  shows "\<exists>s'. task_wakeup cause s = Inr s' \<and> rflags s' = rflags s \<and>
           sched_inv s' (\<lambda>p. q p @ filter (\<lambda>i. woken s cause i \<and> tprio s i = p) [0..<next_task_id (taskctl s)]) \<and>
           tflag s' = (\<lambda>i. if i < next_task_id (taskctl s) \<and> woken s cause i then TASK_RUNNING else tflag s i)"
  using task_wakeup_ok [OF assms, of cause] by (auto simp: same_tasks_def)

text \<open>
  \<open>task_start\<close> puts the new task at the end of the queue of its priority, on a stack of its own whose
  top holds the frame the task is resumed from: entry point, stack pointer, interrupts enabled, and user
  or kernel segments.
\<close>

theorem task_start_enqueues:
  assumes "sched_inv s q" and "mem_inv s" and "0 < avail s" and "next_task_id (taskctl s) < MAX_TASK"
    and "priority < 2"
  shows "\<exists>stack s'. task_start func priority user s = Inr (next_task_id (taskctl s), s') \<and>
           sched_inv s' (q(priority := q priority @ [next_task_id (taskctl s)])) \<and>
           stack \<notin> live s \<and> live s' = insert stack (live s) \<and>
           (let sf = sframes s' (t_rsp (tasks (taskctl s') ! next_task_id (taskctl s)))
            in sf_ip sf = func \<and> sf_sp sf = stack + 0x800 \<and> sf_flags sf = 0x202 \<and>
               sf_cs sf = (if user then 27 else 8) \<and> sf_ss sf = (if user then 35 else 16))"
  using task_start_ok [OF assms, of func user]
  by (auto simp: init_frame_def zero_frame_def STACK_LENGTH_def Let_def)

end
