(* ===== verification/Descriptor.thy ===== *)
theory Descriptor
  imports Task
begin

text \<open>
  \<^verbatim>\<open>kernel/core/dsctbl.c\<close>: the descriptor tables of the processor. Segment, task-state and gate
  descriptors spread their fields over several words; the functions that build them are translated
  with the machine's shifts and masks, and the lemmas decode every field again. The tables are stores
  of descriptors indexed by slot. The entry points of the assembler handlers (\<open>asm_int_0\<close> to
  \<open>asm_int_19\<close>) and the address of \<open>tss_storage\<close> are fixed by the linker, so they are arguments.
\<close>

section \<open>Data\<close>

record gdt_seg_desc =
  sd_limit_low :: u16
  sd_base_low :: u16
  sd_w2 :: u16
  sd_w3 :: u16

record gdt_tss_desc =
  td_limit_low :: u16
  td_base_low :: u16
  td_w2 :: u16
  td_w3 :: u16
  td_base_high :: u32
  td_reserved :: u32

record idt_gate =
  ig_offset_low :: u16
  ig_selector :: u16
  ig_ist :: u8
  ig_flags :: u8
  ig_offset_mid :: u16
  ig_offset_hi :: u32
  ig_zero :: u32

record table_reg =
  tr_size :: u16
  tr_base :: u64

record tss =
  tss_rsp0l :: u32
  tss_rsp0h :: u32
  tss_others :: "u32 list"

record desc_state = task_state +
  gdt :: "nat \<Rightarrow> gdt_seg_desc"
  gdt_tss :: gdt_tss_desc
  idt :: "u8 \<Rightarrow> idt_gate"
  gdtr :: table_reg
  idtr :: table_reg
  tss_storage :: tss
  tr :: u16

definition ADR_GDT :: u64 where "ADR_GDT = 0x00090000"
definition GDT_TSS_START :: nat where "GDT_TSS_START = 5"
definition ADR_IDT :: u64 where "ADR_IDT = 0x00091000"
definition IDT_NUM :: nat where "IDT_NUM = 256"
definition IDT_GATE_FLAG_PRESENT :: u8 where "IDT_GATE_FLAG_PRESENT = 0x80"
definition IDT_GATE_FLAG_INTGATE :: u8 where "IDT_GATE_FLAG_INTGATE = 0x0e"
definition IDT_GATE_FLAG_DPL_USER :: u8 where "IDT_GATE_FLAG_DPL_USER = 0x60"
definition DESC_TYPE_TSS_AVAILABLE :: u8 where "DESC_TYPE_TSS_AVAILABLE = 0x9"
definition GDT_SEG_TYPE_EX :: u8 where "GDT_SEG_TYPE_EX = push_bit 3 1"
definition GDT_SEG_TYPE_RW :: u8 where "GDT_SEG_TYPE_RW = push_bit 1 1"
definition sizeof_gdt_seg_desc :: nat where "sizeof_gdt_seg_desc = 8"
definition sizeof_gdt_tss_desc :: nat where "sizeof_gdt_tss_desc = 16"
definition sizeof_idt_gate :: nat where "sizeof_idt_gate = 16"
definition sizeof_tss :: u32 where "sizeof_tss = 104"

section \<open>Operations\<close>

definition set_gdt_seg_desc :: "u64 \<Rightarrow> u64 \<Rightarrow> u8 \<Rightarrow> u8 \<Rightarrow> u8 \<Rightarrow> u8 \<Rightarrow> u8 \<Rightarrow> gdt_seg_desc" where
  "set_gdt_seg_desc base limit0 typ0 dpl l db g =
     (let limit = limit0 AND 0xfffff; typ = typ0 AND 0xf in
      \<lparr>sd_limit_low = ucast (limit AND 0xffff),
       sd_base_low = ucast (base AND 0xffff),
       sd_w2 = ucast ((drop_bit 16 base AND 0xff) OR push_bit 8 (ucast typ) OR push_bit 12 1 OR
                      push_bit 13 (ucast dpl) OR push_bit 15 (1 :: u64)),
       sd_w3 = ucast ((drop_bit 16 limit AND 0xf) OR push_bit 5 (ucast l) OR push_bit 6 (ucast db) OR
                      push_bit 7 (ucast g) OR push_bit 8 (drop_bit 24 base AND 0xff))\<rparr>)"

definition set_gdt_tss_desc :: "u64 \<Rightarrow> u32 \<Rightarrow> u8 \<Rightarrow> u8 \<Rightarrow> u8 \<Rightarrow> gdt_tss_desc" where
  "set_gdt_tss_desc base limit0 typ0 dpl g =
     (let limit = limit0 AND 0xfffff; typ = typ0 AND 0xf in
      \<lparr>td_limit_low = ucast (limit AND 0xffff),
       td_base_low = ucast (base AND 0xffff),
       td_w2 = ucast ((drop_bit 16 base AND 0xff) OR push_bit 8 (ucast typ) OR
                      push_bit 13 (ucast dpl) OR push_bit 15 (1 :: u64)),
       td_w3 = ucast (ucast (drop_bit 16 limit AND 0xf) OR push_bit 7 (ucast g) OR
                      push_bit 8 (drop_bit 24 base AND 0xff)),
       td_base_high = ucast (drop_bit 32 base),
       td_reserved = 0\<rparr>)"

definition set_idt_gate :: "u64 \<Rightarrow> u16 \<Rightarrow> u8 \<Rightarrow> idt_gate" where
  "set_idt_gate base selector flags =
     \<lparr>ig_offset_low = ucast (base AND 0xffff),
      ig_selector = selector,
      ig_ist = 0,
      ig_flags = flags,
      ig_offset_mid = ucast (drop_bit 16 (base AND 0xffff0000)),
      ig_offset_hi = ucast (ucast (drop_bit 32 (base AND 0xffffffff00000000)) :: u16),
      ig_zero = 0\<rparr>"

definition set_idt :: "u8 \<Rightarrow> u64 \<Rightarrow> 'a desc_state_scheme \<Rightarrow> 'a desc_state_scheme" where
  "set_idt idtidx handler s =
     s\<lparr>idt := (idt s)(idtidx := set_idt_gate handler 8 (IDT_GATE_FLAG_PRESENT OR IDT_GATE_FLAG_INTGATE))\<rparr>"

definition set_syscall :: "u8 \<Rightarrow> u64 \<Rightarrow> 'a desc_state_scheme \<Rightarrow> 'a desc_state_scheme" where
  "set_syscall idtidx handler s =
     s\<lparr>idt := (idt s)(idtidx := set_idt_gate handler 8
          (IDT_GATE_FLAG_PRESENT OR IDT_GATE_FLAG_INTGATE OR IDT_GATE_FLAG_DPL_USER))\<rparr>"

definition init_gdtidt :: "u64 \<Rightarrow> (nat \<Rightarrow> u64) \<Rightarrow> 'a desc_state_scheme \<Rightarrow> 'a desc_state_scheme" where
  "init_gdtidt tss_addr asm_int s =
     (let code = GDT_SEG_TYPE_EX OR GDT_SEG_TYPE_RW;
          data = GDT_SEG_TYPE_RW;
          null = \<lparr>sd_limit_low = 0, sd_base_low = 0, sd_w2 = 0, sd_w3 = 0\<rparr>;
          gdt1 = (gdt s)(0 := null,
                         1 := set_gdt_seg_desc 0 0xffffffff code 0 1 0 1,
                         2 := set_gdt_seg_desc 0 0xffffffff data 0 1 0 1,
                         3 := set_gdt_seg_desc 0 0xffffffff code 3 1 0 1,
                         4 := set_gdt_seg_desc 0 0xffffffff data 3 1 0 1);
          sz = GDT_TSS_START * sizeof_gdt_seg_desc + 1 * sizeof_gdt_tss_desc;
          s1 = s\<lparr>gdt := gdt1,
                 gdt_tss := set_gdt_tss_desc tss_addr (sizeof_tss - 1) DESC_TYPE_TSS_AVAILABLE 0 0,
                 gdtr := \<lparr>tr_size = of_nat sz - 1, tr_base = ADR_GDT\<rparr>\<rparr>;
          s2 = fold (\<lambda>i. set_idt (of_nat i) 0) [0..<IDT_NUM] s1;
          s3 = fold (\<lambda>i. set_idt (of_nat i) (asm_int i)) [0..<20] s2;
          s4 = s3\<lparr>idtr := \<lparr>tr_size = of_nat (IDT_NUM * sizeof_idt_gate) - 1, tr_base = ADR_IDT\<rparr>\<rparr>
      in printstr_log (''Initialized gdtidt'' @ nl) s4)"

definition init_tss :: "'a desc_state_scheme \<Rightarrow> 'a desc_state_scheme" where
  "init_tss s =
     printstr_log (''Initialized tss'' @ nl)
       (s\<lparr>tss_storage := \<lparr>tss_rsp0l = 0x00010000, tss_rsp0h = 0, tss_others = replicate 24 0\<rparr>\<rparr>)"

definition tr_load :: "'a desc_state_scheme \<Rightarrow> 'a desc_state_scheme" where
  "tr_load s = s\<lparr>tr := of_nat (GDT_TSS_START * sizeof_gdt_seg_desc)\<rparr>"

section \<open>What the processor decodes\<close>

definition seg_base :: "gdt_seg_desc \<Rightarrow> u64" where
  "seg_base d = ucast (sd_base_low d) OR push_bit 16 (ucast (sd_w2 d AND 0xff)) OR
                push_bit 24 (ucast (drop_bit 8 (sd_w3 d)))"

definition seg_limit :: "gdt_seg_desc \<Rightarrow> u64" where
  "seg_limit d = ucast (sd_limit_low d) OR push_bit 16 (ucast (sd_w3 d AND 0xf))"

definition seg_dpl :: "gdt_seg_desc \<Rightarrow> u16" where
  "seg_dpl d = drop_bit 13 (sd_w2 d) AND 3"

definition seg_type :: "gdt_seg_desc \<Rightarrow> u16" where
  "seg_type d = drop_bit 8 (sd_w2 d) AND 0xf"

definition gate_offset :: "idt_gate \<Rightarrow> u64" where
  "gate_offset d = ucast (ig_offset_low d) OR push_bit 16 (ucast (ig_offset_mid d)) OR
                   push_bit 32 (ucast (ig_offset_hi d))"

text \<open>Bit masks as \<open>mask\<close>, so that the bits of a word are read off by simplification.\<close>

lemma mask_words:
  "(0xffff :: u64) = mask 16" "(0xff :: u64) = mask 8" "(0xf :: u64) = mask 4"
  "(0xfffff :: u64) = mask 20" "(0xffff0000 :: u64) = push_bit 16 (mask 16)"
  "(0xffffffff00000000 :: u64) = push_bit 32 (mask 32)" "(0xffffffffffff :: u64) = mask 48"
  "(0xffffffff :: u64) = mask 32"
  "(0xff :: u16) = mask 8" "(0xf :: u16) = mask 4" "(3 :: u16) = mask 2"
  "(0xf :: u8) = mask 4"
  by (simp_all add: mask_eq_exp_minus_1 push_bit_eq_mult)

lemmas decode_defs = gate_offset_def set_idt_gate_def seg_base_def seg_limit_def seg_dpl_def
  seg_type_def set_gdt_seg_desc_def Let_def

lemma bit_4096: "bit (4096 :: nat) k \<longleftrightarrow> k = 12" "bit (4096 :: int) k \<longleftrightarrow> k = 12"
  using bit_exp_iff [of 12 k, where 'a = nat] bit_exp_iff [of 12 k, where 'a = int] by auto

lemma bit_32768: "bit (32768 :: nat) k \<longleftrightarrow> k = 15" "bit (32768 :: int) k \<longleftrightarrow> k = 15"
  using bit_exp_iff [of 15 k, where 'a = nat] bit_exp_iff [of 15 k, where 'a = int] by auto

lemma bit_flag:
  assumes "x \<le> (1 :: u8)"
  shows "\<not> bit x (Suc n)"
proof -
  have "unat x = 0 \<or> unat x = 1" using assms by (auto simp: word_le_nat_alt)
  then have "x = 0 \<or> x = 1" by (metis unsigned_0 unsigned_1 unsigned_word_eqI)
  then show ?thesis by (auto simp: bit_simps)
qed

text \<open>Two words agree when they agree field by field, the fields being laid end to end.\<close>

lemma word_eq_fields2:
  assumes "\<And>n. n < a \<Longrightarrow> bit v n = bit w n" and "\<And>n. bit v (a + n) = bit w (a + n)"
  shows "v = (w :: 'a::len word)"
proof (rule bit_word_eqI)
  fix n
  show "bit v n = bit w n"
    using assms(1) [of n] assms(2) [of "n - a"] by (cases "n < a") simp_all
qed

lemma word_eq_fields3:
  assumes "\<And>n. n < a \<Longrightarrow> bit v n = bit w n" and "\<And>n. n < b \<Longrightarrow> bit v (a + n) = bit w (a + n)"
    and "\<And>n. bit v (a + b + n) = bit w (a + b + n)"
  shows "v = (w :: 'a::len word)"
proof (rule word_eq_fields2 [of a])
  fix n
  show "bit v (a + n) = bit w (a + n)"
    using assms(2) [of n] assms(3) [of "n - b"] by (cases "n < b") simp_all
qed (rule assms(1))

lemma word_eq_fields4:
  assumes "\<And>n. n < a \<Longrightarrow> bit v n = bit w n" and "\<And>n. n < b \<Longrightarrow> bit v (a + n) = bit w (a + n)"
    and "\<And>n. n < c \<Longrightarrow> bit v (a + b + n) = bit w (a + b + n)"
    and "\<And>n. bit v (a + b + c + n) = bit w (a + b + c + n)"
  shows "v = (w :: 'a::len word)"
proof (rule word_eq_fields3 [of a _ _ b])
  fix n
  show "bit v (a + b + n) = bit w (a + b + n)"
    using assms(3) [of n] assms(4) [of "n - c"] by (cases "n < c") (simp_all add: add.assoc)
qed (fact assms(1) assms(2))+

lemmas field_bits = decode_defs mask_words bit_simps bit_4096 bit_32768

lemma gate_offset_low48:
  "gate_offset (set_idt_gate base sel fl) = base AND 0xffffffffffff"
  by (rule word_eq_fields4 [of 16 _ _ 16 16]) (auto simp: field_bits)

lemma seg_base_low32:
  assumes "l \<le> 1" "db \<le> 1" "g \<le> 1"
  shows "seg_base (set_gdt_seg_desc base limit typ dpl l db g) = base AND 0xffffffff"
proof -
  have "\<not> bit l (3 + n)" "\<not> bit db (Suc (Suc n))" "\<not> bit g (Suc n)" for n
    using bit_flag [OF assms(1), of "2 + n"] bit_flag [OF assms(2)] bit_flag [OF assms(3)]
    by (simp_all add: eval_nat_numeral)
  then show ?thesis
    by (intro word_eq_fields4 [of 16 _ _ 8 8]) (auto simp: field_bits)
qed

lemma seg_limit_low20:
  "seg_limit (set_gdt_seg_desc base limit typ dpl l db g) = limit AND 0xfffff"
  by (rule word_eq_fields3 [of 16 _ _ 4]) (auto simp: field_bits)

lemma seg_dpl_low2:
  "seg_dpl (set_gdt_seg_desc base limit typ dpl l db g) = ucast dpl AND 3"
  by (rule word_eq_fields2 [of 2]) (auto simp: field_bits)

lemma seg_type_low4:
  "seg_type (set_gdt_seg_desc base limit typ dpl l db g) = ucast typ AND 0xf"
  by (rule word_eq_fields2 [of 4]) (auto simp: field_bits)

lemma fold_set_idt:
  "n \<le> 256 \<Longrightarrow> idt (fold (\<lambda>i. set_idt (of_nat i) (h i)) [0..<n] s) v =
     (if unat v < n then set_idt_gate (h (unat v)) 8 (IDT_GATE_FLAG_PRESENT OR IDT_GATE_FLAG_INTGATE)
      else idt s v)"
proof (induction n)
  case 0
  then show ?case by simp
next
  case (Suc n)
  have "unat (of_nat n :: u8) = n" using Suc.prems by (simp add: unat_of_nat take_bit_nat_eq_self_iff)
  then have "v = of_nat n \<longleftrightarrow> unat v = n" by (metis unsigned_word_eqI)
  with Suc show ?case by (auto simp: set_idt_def)
qed

lemma fold_set_idt_others:
  "gdt (fold (\<lambda>i. set_idt (of_nat i) (h i)) xs s) = gdt s"
  "idtr (fold (\<lambda>i. set_idt (of_nat i) (h i)) xs s) = idtr s"
  by (induction xs arbitrary: s) (simp_all add: set_idt_def)

section \<open>Properties\<close>

text \<open>
  A gate descriptor stores the handler address in three pieces; reading them back gives the low 48
  bits of the address (\<open>offset_hi\<close> is cut to 16 bits), so handlers below \<open>2^48\<close> are stored exactly.
\<close>

theorem idt_gate_roundtrip:
  "gate_offset (set_idt_gate base sel fl) = base AND 0xffffffffffff \<and>
   ig_selector (set_idt_gate base sel fl) = sel \<and> ig_flags (set_idt_gate base sel fl) = fl"
  using gate_offset_low48 by (simp add: set_idt_gate_def)

text \<open>
  A segment descriptor holds what it was built from: the low 32 bits of the base, the low 20 bits of
  the limit, the privilege level and the segment type, provided the three flags are single bits.
\<close>

theorem segment_roundtrip:
  assumes "l \<le> 1" and "db \<le> 1" and "g \<le> 1"
  shows "seg_base (set_gdt_seg_desc base limit typ dpl l db g) = base AND 0xffffffff \<and>
         seg_limit (set_gdt_seg_desc base limit typ dpl l db g) = limit AND 0xfffff \<and>
         seg_dpl (set_gdt_seg_desc base limit typ dpl l db g) = ucast dpl AND 3 \<and>
         seg_type (set_gdt_seg_desc base limit typ dpl l db g) = ucast typ AND 0xf"
  using seg_base_low32 [OF assms] seg_limit_low20 seg_dpl_low2 seg_type_low4 by simp

text \<open>
  \<open>init_gdtidt\<close> fills the whole interrupt table: the first twenty vectors lead to the assembler
  handlers, every other vector to address 0, all through kernel code segment 8; segments 1 and 2 are
  kernel code and data, 3 and 4 their user counterparts, all flat.
\<close>

theorem init_gdtidt_tables:
  "idt (init_gdtidt tss_addr asm_int s) v =
     set_idt_gate (if unat v < 20 then asm_int (unat v) else 0) 8 0x8e \<and>
   map (\<lambda>i. seg_dpl (gdt (init_gdtidt tss_addr asm_int s) i)) [1, 2, 3, 4] = [0, 0, 3, 3] \<and>
   map (\<lambda>i. seg_type (gdt (init_gdtidt tss_addr asm_int s) i)) [1, 2, 3, 4] = [10, 2, 10, 2] \<and>
   map (\<lambda>i. seg_base (gdt (init_gdtidt tss_addr asm_int s) i)) [1, 2, 3, 4] = [0, 0, 0, 0] \<and>
   tr_size (idtr (init_gdtidt tss_addr asm_int s)) = 4095"
proof -
  have "unat v < 256" using unsigned_less [of v, where ?'a = nat] by simp
  then have "idt (init_gdtidt tss_addr asm_int s) v =
     set_idt_gate (if unat v < 20 then asm_int (unat v) else 0) 8 0x8e"
    by (simp add: init_gdtidt_def Let_def printstr_log_eq fold_set_idt IDT_NUM_def
        IDT_GATE_FLAG_PRESENT_def IDT_GATE_FLAG_INTGATE_def)
  then show ?thesis
    by (simp add: init_gdtidt_def Let_def printstr_log_eq fold_set_idt_others seg_dpl_low2 seg_type_low4
        seg_base_low32 GDT_SEG_TYPE_EX_def GDT_SEG_TYPE_RW_def IDT_NUM_def sizeof_idt_gate_def)
qed

end
