(* ===== verification/Interrupt.thy ===== *)
theory Interrupt
  imports Descriptor
begin

text \<open>
  \<^verbatim>\<open>kernel/core/int.c\<close>: the two cascaded interrupt controllers. \<open>master_imr\<close> and \<open>slave_imr\<close> are the
  kernel's copies of the mask registers: a set bit keeps that line quiet. The lemmas show which lines
  an operation opens, and that the copies always agree with the last mask written to the ports.
\<close>

section \<open>State and operations\<close>

record int_state = desc_state +
  master_imr :: u8
  slave_imr :: u8

definition PIT_IRQ :: nat where "PIT_IRQ = 0"
definition KEYBOARD_IRQ :: nat where "KEYBOARD_IRQ = 1"

definition init_pic :: "'a int_state_scheme \<Rightarrow> 'a int_state_scheme" where
  "init_pic s =
     (let s1 = s\<lparr>master_imr := 0xff\<rparr>;
          s2 = io_out8 0x21 (master_imr s1) (io_out8 0x21 0x05 (io_out8 0x21 0x04
                 (io_out8 0x21 0x20 (io_out8 0x20 0x11 s1))));
          s3 = s2\<lparr>slave_imr := 0xff\<rparr>
      in io_out8 0xa1 (slave_imr s3) (io_out8 0xa1 0x01 (io_out8 0xa1 0x02
           (io_out8 0xa1 0x28 (io_out8 0xa0 0x11 s3)))))"

text \<open>\<open>imr &= ~(1 << n)\<close>: the shift is done on an \<open>int\<close>, the result is stored back in a byte.\<close>

definition clear_line :: "nat \<Rightarrow> u8 \<Rightarrow> u8" where
  "clear_line n imr = ucast ((ucast imr :: u32) AND NOT (push_bit n 1))"

definition pic_clearmask :: "nat \<Rightarrow> 'a int_state_scheme \<Rightarrow> 'a int_state_scheme" where
  "pic_clearmask irq s =
     (if irq < 8
      then let s1 = s\<lparr>master_imr := clear_line irq (master_imr s)\<rparr> in io_out8 0x21 (master_imr s1) s1
      else
        let s1 = s\<lparr>master_imr := clear_line 2 (master_imr s)\<rparr>;
            s2 = io_out8 0x21 (master_imr s1) s1;
            s3 = s2\<lparr>slave_imr := clear_line (irq - 8) (slave_imr s2)\<rparr>
        in io_out8 0xa1 (slave_imr s3) s3)"

definition register_interrupt :: "nat \<Rightarrow> u64 \<Rightarrow> 'a int_state_scheme \<Rightarrow> 'a int_state_scheme" where
  "register_interrupt irq handler s = set_idt (of_nat (irq + 0x20)) handler (pic_clearmask irq s)"

definition init_interrupt :: "'a int_state_scheme \<Rightarrow> 'a int_state_scheme" where
  "init_interrupt s = printstr_log (''Initialized PIC'' @ nl) (init_pic s)"

definition pic_sendeoi :: "nat \<Rightarrow> 'a int_state_scheme \<Rightarrow> 'a int_state_scheme" where
  "pic_sendeoi irq s = io_out8 0x20 0x20 (if irq \<ge> 8 then io_out8 0xa0 0x20 s else s)"

text \<open>\<open>hlt\<close> waits for the next interrupt; with interrupts off there is none.\<close>

definition io_hlt :: "('a machine_scheme \<Rightarrow> 'a machine_scheme res) \<Rightarrow> 'a machine_scheme \<Rightarrow> 'a machine_scheme res" where
  "io_hlt env s = (if interrupts_on s then env s else Inl Diverges)"

definition int_default ::
  "('a int_state_scheme \<Rightarrow> 'a int_state_scheme res) \<Rightarrow> u64 \<Rightarrow> 'a int_state_scheme \<Rightarrow> 'a int_state_scheme res" where
  "int_default env irq s =
     io_hlt env (printstr_log nl (printnum_log (ucast irq)
       (printstr_log ''unhandlerd default interruption: '' s)))"

lemmas pic_defs = init_pic_def pic_clearmask_def pic_sendeoi_def register_interrupt_def
  init_interrupt_def set_idt_def Let_def

section \<open>Which lines are open\<close>

definition line_open :: "'a int_state_scheme \<Rightarrow> nat \<Rightarrow> bool" where
  "line_open s irq =
     (if irq < 8 then \<not> bit (master_imr s) irq
      else irq < 16 \<and> \<not> bit (slave_imr s) (irq - 8) \<and> \<not> bit (master_imr s) 2)"

definition last_out :: "u16 \<Rightarrow> io_event list \<Rightarrow> u8 option" where
  "last_out port log = foldl (\<lambda>v e. case e of Out8 p d \<Rightarrow> if p = port then Some d else v | _ \<Rightarrow> v) None log"

definition pic_synced :: "'a int_state_scheme \<Rightarrow> bool" where
  "pic_synced s = (last_out 0x21 (io_log s) = Some (master_imr s) \<and>
                   last_out 0xa1 (io_log s) = Some (slave_imr s))"

lemma bit_clear_line: "bit (clear_line n imr) k \<longleftrightarrow> bit imr k \<and> k \<noteq> n"
proof (cases "k < 8")
  case True
  then show ?thesis by (auto simp: clear_line_def bit_simps)
next
  case False
  then show ?thesis by (auto simp: clear_line_def bit_simps dest: bit_imp_le_length)
qed

lemma init_pic_synced: "pic_synced (init_pic s)"
  by (simp add: pic_synced_def pic_defs io_defs last_out_def)

lemma init_pic_closed: "\<not> line_open (init_pic s) irq"
proof -
  have "bit (255 :: nat) n \<longleftrightarrow> n < 8" "bit (255 :: int) n \<longleftrightarrow> n < 8" for n
    using bit_mask_iff [of 8 n, where 'a = nat] bit_mask_iff [of 8 n, where 'a = int]
    by (simp_all add: mask_eq_exp_minus_1)
  then show ?thesis by (simp add: line_open_def pic_defs io_defs)
qed

lemma pic_clearmask_synced: "pic_synced s \<Longrightarrow> pic_synced (pic_clearmask irq s)"
  by (auto simp: pic_synced_def pic_defs io_defs last_out_def)

lemma register_interrupt_synced: "pic_synced s \<Longrightarrow> pic_synced (register_interrupt irq h s)"
  using pic_clearmask_synced [of s irq] by (simp add: register_interrupt_def set_idt_def pic_synced_def)

text \<open>
  Registering a handler opens its line, and, for a line of the second controller, the cascade line 2;
  every line that was open stays open and no other line of the first controller opens.
\<close>

lemma register_interrupt_opens:
  assumes "irq < 16"
  shows "line_open (register_interrupt irq h s) irq"
  using assms by (auto simp: line_open_def pic_defs io_defs bit_clear_line)

lemma register_interrupt_master:
  assumes "n < 8"
  shows "line_open (register_interrupt irq h s) n \<longleftrightarrow>
           line_open s n \<or> n = irq \<or> (8 \<le> irq \<and> n = 2)"
  using assms by (auto simp: line_open_def pic_defs io_defs bit_clear_line)

lemma register_interrupt_slave:
  "bit (slave_imr (register_interrupt irq h s)) n \<longleftrightarrow>
     bit (slave_imr s) n \<and> \<not> (8 \<le> irq \<and> n = irq - 8)"
  by (auto simp: pic_defs io_defs bit_clear_line)

lemma register_interrupt_idt:
  "idt (register_interrupt irq h s) =
     (idt s)(of_nat (irq + 0x20) := set_idt_gate h 8 (IDT_GATE_FLAG_PRESENT OR IDT_GATE_FLAG_INTGATE))"
  by (simp add: pic_defs io_defs)

lemma int_default_masked: "\<not> interrupts_on s \<Longrightarrow> int_default env irq s = Inl Diverges"
  by (simp add: int_default_def io_hlt_def machine_simps interrupts_on_def)

section \<open>Properties\<close>

text \<open>
  Registering a handler for line \<open>irq\<close> installs its gate at vector \<open>irq + 32\<close>, opens that line (and
  the cascade line for a line of the second controller) and opens no other line of the first controller,
  and the mask registers of the controllers keep agreeing with the kernel's copies.
\<close>

theorem register_interrupt_correct:
  assumes "irq < 16" and "pic_synced s"
  shows "line_open (register_interrupt irq h s) irq \<and> pic_synced (register_interrupt irq h s) \<and>
         (\<forall>n < 8. line_open (register_interrupt irq h s) n \<longleftrightarrow>
            line_open s n \<or> n = irq \<or> (8 \<le> irq \<and> n = 2)) \<and>
         gate_offset (idt (register_interrupt irq h s) (of_nat (irq + 0x20))) = h AND 0xffffffffffff"
  using assms
  by (simp add: register_interrupt_opens register_interrupt_master register_interrupt_synced
      register_interrupt_idt gate_offset_low48)

end
