(* ===== verification/Timer.thy ===== *)
theory Timer
  imports Interrupt
begin

text \<open>
  \<^verbatim>\<open>kernel/core/timer.c\<close>: one-shot timers. Pending timers are a list sorted by the tick they expire at,
  closed by a sentinel that expires at tick \<open>0xffffffff\<close> and has no function. \<open>set_timer\<close> walks the
  list to the place of the new timer; \<open>int_pit\<close>, the handler of the interval timer, advances the tick,
  switches tasks every ten ticks and fires the timers that are due.

  Function pointers are labels (\<open>kfun\<close>), one for each function the kernel registers with a timer or
  the work queue; what a label does is the parameter \<open>call\<close>, instantiated when all components exist.
  The walk and the firing loop need not end on every list, so they are partial functions: \<open>None\<close> is a
  loop that never ends.
\<close>

section \<open>State and operations\<close>

datatype kfun =
    WqPushTimerFunc | EtherRx | UdpSocketRecvTimeout | RawSocketRecvTimeout
  | TcpConnectTimeout | TcpAckTimeout | TcpSocketRecvTimeout

record timer_entry =
  te_tick :: u32
  te_func :: "kfun option"
  te_arg :: "addr option"

record timer_state = int_state +
  timer_list :: "addr listctl"
  tick :: u32
  timers :: "addr \<Rightarrow> timer_entry"

definition sizeof_timer_entry :: u32 where
  "sizeof_timer_entry = 32"

partial_function (option) seek_timer :: "addr linkmap \<Rightarrow> (addr \<Rightarrow> u32) \<Rightarrow> u32 \<Rightarrow> addr \<Rightarrow> addr option" where
  "seek_timer nx tk new_tick prev_timer =
     (case list_next prev_timer nx of
        None \<Rightarrow> Some prev_timer
      | Some next_timer \<Rightarrow>
          if tk next_timer > new_tick then Some prev_timer else seek_timer nx tk new_tick next_timer)"

definition set_timer ::
  "kfun \<Rightarrow> addr option \<Rightarrow> u32 \<Rightarrow> 'a timer_state_scheme \<Rightarrow> 'a timer_state_scheme res" where
  "set_timer func arg time_msec s =
     bindr (mem_alloc sizeof_timer_entry ''set_timer'' s) (\<lambda>(new_timer, s1).
     let e = \<lparr>te_tick = tick s1 + time_msec, te_func = Some func, te_arg = arg\<rparr>;
         s2 = s1\<lparr>timers := (timers s1)(new_timer := e)\<rparr>;
         rf = get_rflags s2;
         s3 = io_cli s2
     in case list_head (timer_list s3) of
          None \<Rightarrow> Inl NullPtr
        | Some prev_timer \<Rightarrow>
            if te_tick e < te_tick (timers s3 prev_timer)
            then let (l, nx) = list_pushfront (timer_list s3) new_timer (links s3)
                 in Inr (set_rflags rf (s3\<lparr>timer_list := l, links := nx\<rparr>))
            else
              case seek_timer (links s3) (\<lambda>a. te_tick (timers s3 a)) (te_tick e) prev_timer of
                None \<Rightarrow> Inl Diverges
              | Some p \<Rightarrow>
                  let (l, nx) = list_insert (timer_list s3) (Some p) new_timer (links s3)
                  in Inr (set_rflags rf (s3\<lparr>timer_list := l, links := nx\<rparr>)))"

text \<open>One round of the firing loop: take the first timer, call its function, release it.\<close>

definition fire_timer ::
  "(kfun \<Rightarrow> addr option \<Rightarrow> 'a timer_state_scheme \<Rightarrow> 'a timer_state_scheme res)
    \<Rightarrow> 'a timer_state_scheme \<Rightarrow> 'a timer_state_scheme res" where
  "fire_timer call s =
     bindr (list_popfront (timer_list s) (links s)) (\<lambda>(r, l, nx).
     case r of
       None \<Rightarrow> Inl NullPtr
     | Some timer \<Rightarrow>
         let s1 = s\<lparr>timer_list := l, links := nx\<rparr> in
         (case te_func (timers s1 timer) of
            None \<Rightarrow> Inl NullPtr
          | Some func \<Rightarrow> bindr (call func (te_arg (timers s1 timer)) s1) (mem_free timer)))"

partial_function (option) pit_loop ::
  "(kfun \<Rightarrow> addr option \<Rightarrow> 'a timer_state_scheme \<Rightarrow> 'a timer_state_scheme res)
    \<Rightarrow> 'a timer_state_scheme \<Rightarrow> 'a timer_state_scheme res option" where
  "pit_loop call s =
     (if list_empty (timer_list s) then Some (Inr s)
      else
        case list_head (timer_list s) of
          None \<Rightarrow> Some (Inl NullPtr)
        | Some h \<Rightarrow>
            if te_tick (timers s h) \<le> tick s
            then (case fire_timer call s of Inl e \<Rightarrow> Some (Inl e) | Inr s1 \<Rightarrow> pit_loop call s1)
            else Some (Inr s))"

definition ended :: "'a res option \<Rightarrow> 'a res" where
  "ended r = (case r of None \<Rightarrow> Inl Diverges | Some x \<Rightarrow> x)"

definition int_pit ::
  "('a timer_state_scheme \<Rightarrow> 'a timer_state_scheme res)
    \<Rightarrow> (kfun \<Rightarrow> addr option \<Rightarrow> 'a timer_state_scheme \<Rightarrow> 'a timer_state_scheme res)
    \<Rightarrow> 'a timer_state_scheme \<Rightarrow> 'a timer_state_scheme res" where
  "int_pit env call s =
     (let s1 = pic_sendeoi PIT_IRQ s; s2 = s1\<lparr>tick := tick s1 + 1\<rparr> in
      bindr (if tick s2 mod 10 = 0 then task_switch env s2 else Inr s2) (\<lambda>s3.
      ended (pit_loop call s3)))"

definition get_tick :: "'a timer_state_scheme \<Rightarrow> u64" where
  "get_tick s = ucast (tick s)"

definition init_pit :: "u64 \<Rightarrow> 'a timer_state_scheme \<Rightarrow> 'a timer_state_scheme" where
  "init_pit asm_int_pit s =
     (let s1 = s\<lparr>tick := 0\<rparr>;
          s2 = io_out8 0x0040 0x04 (io_out8 0x0040 0xa9 (io_out8 0x0043 0x34 s1))
      in printstr_log (''Initialized pit'' @ nl) (register_interrupt 0 asm_int_pit s2))"

definition init_timer :: "'a timer_state_scheme \<Rightarrow> 'a timer_state_scheme res" where
  "init_timer s =
     bindr (mem_alloc sizeof_timer_entry ''last_timer'' (s\<lparr>timer_list := list_init\<rparr>)) (\<lambda>(last_timer, s1).
     let s2 = s1\<lparr>timers := (timers s1)(last_timer :=
                  \<lparr>te_tick = NOT 0, te_func = None, te_arg = None\<rparr>)\<rparr> in
     bindr (list_pushback (timer_list s2) last_timer (links s2)) (\<lambda>(l, nx).
     Inr (printstr_log (''Initialized timer'' @ nl) (s2\<lparr>timer_list := l, links := nx\<rparr>))))"

section \<open>The list stays sorted\<close>

definition ttick :: "'a timer_state_scheme \<Rightarrow> addr \<Rightarrow> u32" where
  "ttick s a = te_tick (timers s a)"

definition END_TICK :: u32 where
  "END_TICK = 0xffffffff"

definition timer_inv :: "'a timer_state_scheme \<Rightarrow> addr list \<Rightarrow> bool" where
  "timer_inv s ts =
     (mem_inv s \<and> wf_list (links s) (timer_list s) ts \<and> set ts \<subseteq> live s \<and>
      sorted (map (ttick s) ts) \<and> ts \<noteq> [] \<and> ttick s (last ts) = END_TICK \<and>
      (\<forall>a \<in> set ts. a \<noteq> last ts \<longrightarrow> ttick s a < END_TICK))"

text \<open>Where a timer for tick \<open>t\<close> goes: behind every timer that does not expire later.\<close>

definition timer_insort :: "(addr \<Rightarrow> u32) \<Rightarrow> u32 \<Rightarrow> addr \<Rightarrow> addr list \<Rightarrow> addr list" where
  "timer_insort k t a ts = takeWhile (\<lambda>b. k b \<le> t) ts @ a # dropWhile (\<lambda>b. k b \<le> t) ts"

lemma set_timer_insort [simp]: "set (timer_insort k t a ts) = insert a (set ts)"
  unfolding timer_insort_def
  using set_append [of "takeWhile (\<lambda>b. k b \<le> t) ts" "dropWhile (\<lambda>b. k b \<le> t) ts"] by auto

lemma timer_insort_not_Nil [simp]: "timer_insort k t a ts \<noteq> []"
  by (simp add: timer_insort_def)

lemma timer_insort_cong: "(\<And>b. b \<in> set ts \<Longrightarrow> k b = k' b) \<Longrightarrow> timer_insort k t a ts = timer_insort k' t a ts"
  by (induction ts) (auto simp: timer_insort_def)

lemma sorted_timer_insort:
  assumes "sorted (map k ts)" and "a \<notin> set ts"
  shows "sorted (map (k(a := t)) (timer_insort k t a ts))"
  using assms
proof (induction ts)
  case Nil
  then show ?case by (simp add: timer_insort_def)
next
  case (Cons b ts)
  show ?case
  proof (cases "k b \<le> t")
    case True
    then have eq: "timer_insort k t a (b # ts) = b # timer_insort k t a ts"
      by (simp add: timer_insort_def)
    show ?thesis unfolding eq using Cons True by auto
  next
    case False
    have "map (k(a := t)) (b # ts) = map k (b # ts)" using Cons.prems by (intro map_cong) auto
    then have "map (k(a := t)) (timer_insort k t a (b # ts)) = t # map k (b # ts)"
      using False by (simp add: timer_insort_def)
    moreover have "t \<le> k x" if "x \<in> set (b # ts)" for x using that False Cons.prems(1) by force
    ultimately show ?thesis using Cons.prems(1) by (simp del: fun_upd_apply)
  qed
qed

lemma END_TICK_greatest: "t \<le> END_TICK"
proof -
  have "unat t \<le> 4294967295" using unsigned_less [of t, where ?'a = nat] by simp
  then show ?thesis by (simp add: END_TICK_def word_le_nat_alt)
qed

lemma END_TICK_less: "t \<noteq> END_TICK \<Longrightarrow> t < END_TICK"
  using END_TICK_greatest [of t] by (rule le_neq_trans)

text \<open>The walk ends at the last timer that does not expire later than the new one.\<close>

lemma seek_timer_path:
  assumes "lpath nx (Some p) (p # ps)"
  shows "seek_timer nx tk t p = Some (last (p # takeWhile (\<lambda>b. tk b \<le> t) ps))"
  using assms
proof (induction ps arbitrary: p)
  case Nil
  then show ?case by (simp add: seek_timer.simps [of _ _ _ p] list_next_def)
next
  case (Cons b ps)
  then have "nx p = Some b" "lpath nx (Some b) (b # ps)" by auto
  with Cons.IH [of b] show ?case
    by (auto simp: seek_timer.simps [of _ _ _ p] list_next_def not_less)
qed

definition timer_rest :: "'a timer_state_scheme \<Rightarrow> 'a timer_state_scheme \<Rightarrow> bool" where
  "timer_rest s s' =
     (\<exists>fm mh nx l tm. s' = s\<lparr>freemem := fm, memhdrs := mh, links := nx, timer_list := l, timers := tm\<rparr>)"

lemma timer_restI:
  "s' = s\<lparr>freemem := fm, memhdrs := mh, links := nx, timer_list := l, timers := tm\<rparr> \<Longrightarrow> timer_rest s s'"
  unfolding timer_rest_def by blast

text \<open>Linking the new entry in: in front of the list, or behind the timer the walk finds.\<close>

definition link_timer :: "addr \<Rightarrow> u32 \<Rightarrow> (addr \<Rightarrow> u32) \<Rightarrow> addr listctl \<Rightarrow> addr linkmap \<Rightarrow> addr listctl \<times> addr linkmap" where
  "link_timer a t k l nx =
     (if t < k (the (list_head l)) then list_pushfront l a nx
      else list_insert l (seek_timer nx k t (the (list_head l))) a nx)"

lemma link_timer_wf:
  assumes wf: "wf_list nx l ts" and ts: "ts \<noteq> []" "k (last ts) > t" and a: "a \<notin> set ts"
    and len: "length ts < 65535" and call: "link_timer a t k l nx = (l', nx')"
  shows "wf_list nx' l' (timer_insort k t a ts) \<and> (\<forall>b. b \<noteq> a \<longrightarrow> b \<notin> set ts \<longrightarrow> nx' b = nx b)"
proof -
  let ?us = "takeWhile (\<lambda>b. k b \<le> t) ts" and ?vs = "dropWhile (\<lambda>b. k b \<le> t) ts"
  obtain h hs where hs: "ts = h # hs" using ts(1) by (cases ts) auto
  have head: "list_head l = Some h" using list_head_wf [OF wf] hs by simp
  have vs: "?vs \<noteq> []" using ts by (metis dropWhile_eq_Nil_conv last_in_set not_less)
  show ?thesis
  proof (cases "t < k h")
    case True
    then have "timer_insort k t a ts = a # ts" by (simp add: timer_insort_def hs not_le [symmetric])
    with True call head list_pushfront_wf [OF wf a len] show ?thesis by (auto simp: link_timer_def)
  next
    case False
    then have us: "?us \<noteq> []" by (simp add: hs)
    then have split: "ts = butlast ?us @ last ?us # ?vs"
      by (metis append_Cons append_Nil append_assoc append_butlast_last_id takeWhile_dropWhile_id)
    have "lpath nx (Some h) (h # hs)" using wf hs by (auto simp: wf_list_def)
    then have "seek_timer nx k t h = Some (last ?us)"
      using False by (simp add: seek_timer_path hs not_less)
    then have ins: "list_insert l (Some (last ?us)) a nx = (l', nx')"
      using False call head by (simp add: link_timer_def)
    have "timer_insort k t a ts = butlast ?us @ last ?us # a # ?vs"
      using us by (simp add: timer_insort_def)
    moreover have "last ?us \<in> set ts" using split by (metis in_set_conv_decomp)
    ultimately show ?thesis
      using list_insert_wf [of nx l "butlast ?us" "last ?us" ?vs a l' nx'] wf a len vs ins split by auto
  qed
qed

lemma timer_insort_last: "ts \<noteq> [] \<Longrightarrow> k (last ts) > t \<Longrightarrow> last (timer_insort k t a ts) = last ts"
proof -
  assume ts: "ts \<noteq> []" "k (last ts) > t"
  let ?vs = "dropWhile (\<lambda>b. k b \<le> t) ts"
  have "?vs \<noteq> []" using ts by (metis dropWhile_eq_Nil_conv last_in_set not_less)
  then have "last ts = last ?vs" by (metis last_appendR takeWhile_dropWhile_id)
  with \<open>?vs \<noteq> []\<close> show ?thesis by (auto simp: timer_insort_def)
qed

lemma timer_inv_length: "timer_inv s ts \<Longrightarrow> length ts < 65535"
  using live_length [of ts "memhdrs s"] wf_list_distinct [of "links s" "timer_list s" ts]
  by (simp add: timer_inv_def MEM_BLOCKS_def mem_view)

text \<open>
  \<open>set_timer\<close> on a good list: it returns, the new timer sits behind all timers that expire no later,
  the list stays sorted and nothing outside it is touched.
\<close>

lemma set_timer_ok:
  assumes inv: "timer_inv s ts" and av: "0 < avail s" and neq: "tick s + msec \<noteq> END_TICK"
  shows "\<exists>a s'. set_timer f arg msec s = Inr s' \<and> a \<notin> live s \<and>
           timer_inv s' (timer_insort (ttick s) (tick s + msec) a ts) \<and>
           live s' = insert a (live s) \<and> avail s' = avail s - 1 \<and>
           timers s' = (timers s)(a := \<lparr>te_tick = tick s + msec, te_func = Some f, te_arg = arg\<rparr>) \<and>
           (\<forall>b. b \<noteq> a \<longrightarrow> b \<notin> set ts \<longrightarrow> links s' b = links s b) \<and> timer_rest s s'"
proof -
  let ?t = "tick s + msec"
  let ?e = "\<lparr>te_tick = ?t, te_func = Some f, te_arg = arg\<rparr>"
  have mi: "mem_inv s" and wf: "wf_list (links s) (timer_list s) ts" and lv: "set ts \<subseteq> live s"
    and ne: "ts \<noteq> []" and lst: "ttick s (last ts) > ?t"
    using inv END_TICK_less [OF neq] by (auto simp: timer_inv_def)
  have "mem_fits sizeof_timer_entry" by (simp add: mem_fits_def sizeof_timer_entry_def MEM_GRANULARITY_def)
  then obtain a s1 where s1: "mem_alloc sizeof_timer_entry ''set_timer'' s = Inr (a, s1)" "mem_inv s1"
    "a \<notin> live s" "live s1 = insert a (live s)" "avail s1 = avail s - 1" "mem_rest s s1"
    by (rule kmem.allocE [OF mi _ av])
  have a: "a \<notin> set ts" using s1(3) lv by blast
  from s1(6) obtain fm mh where eq: "s1 = s\<lparr>freemem := fm, memhdrs := mh\<rparr>" by (auto simp: mem_rest_def)
  let ?k = "(ttick s)(a := ?t)"
  obtain l nx where ln: "link_timer a ?t ?k (timer_list s) (links s) = (l, nx)" by fastforce
  have last: "?k (last ts) > ?t" using lst a ne by auto
  have ins: "timer_insort ?k ?t a ts = timer_insort (ttick s) ?t a ts"
    using a by (intro timer_insort_cong) auto
  have wf': "wf_list nx l (timer_insort (ttick s) ?t a ts)"
    and fr: "\<And>b. b \<noteq> a \<Longrightarrow> b \<notin> set ts \<Longrightarrow> nx b = links s b"
    using link_timer_wf [OF wf ne last a timer_inv_length [OF inv] ln] ins by auto
  obtain h where head: "list_head (timer_list s) = Some h" "h \<in> set ts"
    using list_head_wf [OF wf] ne by (cases ts) auto
  obtain p where seek: "seek_timer (links s) ?k ?t h = Some p"
    using seek_timer_path [of "links s" h _ ?k ?t] wf head ne
    by (cases ts) (auto simp: wf_list_def list_head_def)
  let ?s = "s\<lparr>freemem := fm, memhdrs := mh, links := nx, timer_list := l, timers := (timers s)(a := ?e)\<rparr>"
  have keys: "(\<lambda>x. te_tick (((timers s)(a := ?e)) x)) = ?k" by (auto simp: ttick_def fun_eq_iff)
  have call: "set_timer f arg msec s = Inr ?s"
    using s1(1) head seek ln a keys
    by (auto simp: set_timer_def eq Let_def rflags_defs link_timer_def ttick_def split: prod.splits)
  have tt: "ttick ?s = ?k" by (auto simp: ttick_def fun_eq_iff)
  have "sorted (map ?k (timer_insort (ttick s) ?t a ts))"
    using inv a by (intro sorted_timer_insort) (auto simp: timer_inv_def)
  moreover have "last (timer_insort (ttick s) ?t a ts) = last ts"
    using ne lst by (rule timer_insort_last)
  moreover have "?k b < END_TICK" if "b \<in> set (timer_insort (ttick s) ?t a ts)" "b \<noteq> last ts" for b
    using that inv END_TICK_less [OF neq] by (auto simp: timer_inv_def)
  ultimately have "timer_inv ?s (timer_insort (ttick s) ?t a ts)"
    using inv s1(2,4) wf' a last ne lv unfolding timer_inv_def tt
    by (auto simp: eq mem_view)
  then show ?thesis
    using call s1(3,4,5) fr
    by (intro exI [of _ a] exI [of _ ?s] conjI) (auto simp: eq mem_view intro!: timer_restI)
qed

lemma init_timer_ok:
  assumes mi: "mem_inv s" and av: "0 < avail s"
  shows "\<exists>a s'. init_timer s = Inr s' \<and> timer_inv s' [a] \<and> te_func (timers s' a) = None \<and>
           a \<notin> live s \<and> live s' = insert a (live s) \<and> avail s' = avail s - 1 \<and>
           (\<forall>b. b \<noteq> a \<longrightarrow> links s' b = links s b)"
proof -
  let ?s0 = "s\<lparr>timer_list := list_init\<rparr>"
  have fits: "mem_fits sizeof_timer_entry"
    by (simp add: mem_fits_def sizeof_timer_entry_def MEM_GRANULARITY_def)
  have s0: "mem_inv ?s0" "0 < avail ?s0" using mi av by (simp_all add: mem_view)
  obtain a s1 where s1: "mem_alloc sizeof_timer_entry ''last_timer'' ?s0 = Inr (a, s1)"
    "mem_inv s1" "a \<notin> live ?s0" "live s1 = insert a (live ?s0)" "avail s1 = avail ?s0 - 1" "mem_rest ?s0 s1"
    by (rule kmem.allocE [OF s0(1) fits s0(2)])
  from s1(6) obtain fm mh where eq: "s1 = ?s0\<lparr>freemem := fm, memhdrs := mh\<rparr>" by (auto simp: mem_rest_def)
  have "list_pushback list_init a (links s) =
      Inr (list_init\<lparr>head := Some a, tail := Some a, count := 1\<rparr>, (links s)(a := None))"
    by (simp add: list_pushback_def list_init_def list_empty_def Let_def)
  with s1 mi show ?thesis
    by (intro exI [of _ a])
      (simp add: init_timer_def eq Let_def printstr_log_eq timer_inv_def mem_view ttick_def END_TICK_def
        wf_list_def list_init_def)
qed

section \<open>Firing\<close>

lemma int_pit_eq:
  assumes "s1 = pic_sendeoi PIT_IRQ s\<lparr>tick := tick s + 1\<rparr>"
  shows "int_pit env call s =
    bindr (if (tick s + 1) mod 10 = 0 then task_switch env s1 else Inr s1) (\<lambda>s2. ended (pit_loop call s2))"
proof -
  have "tick (pic_sendeoi PIT_IRQ s) = tick s" by (simp add: pic_sendeoi_def io_defs)
  then show ?thesis by (simp add: int_pit_def Let_def assms)
qed

text \<open>
  What the handler needs of the functions behind the timers. \<open>ok g s ts\<close> is the client's invariant: \<open>g\<close>
  are the timers fired so far, \<open>ts\<close> the pending ones. The law says that firing the first timer moves it
  from one sequence to the other and leaves the clock and the other entries alone.
\<close>

locale timer_client =
  fixes call :: "kfun \<Rightarrow> addr option \<Rightarrow> 'a timer_state_scheme \<Rightarrow> 'a timer_state_scheme res"
    and ok :: "addr list \<Rightarrow> 'a timer_state_scheme \<Rightarrow> addr list \<Rightarrow> bool"
  assumes ok_timers: "ok g s ts \<Longrightarrow> timer_inv s ts"
    and fire_ok: "ok g s (t # ts) \<Longrightarrow> ts \<noteq> [] \<Longrightarrow>
      \<exists>s'. fire_timer call s = Inr s' \<and> ok (g @ [t]) s' ts \<and> tick s' = tick s \<and> timers s' = timers s"
begin

text \<open>The loop ends and has fired exactly the timers that were due, in the order of the list.\<close>

lemma pit_loop_ok:
  assumes "ok g s ts" and "tick s \<noteq> END_TICK"
  shows "\<exists>s'. pit_loop call s = Some (Inr s') \<and> tick s' = tick s \<and> timers s' = timers s \<and>
           ok (g @ takeWhile (\<lambda>a. ttick s a \<le> tick s) ts) s' (dropWhile (\<lambda>a. ttick s a \<le> tick s) ts)"
  using assms
proof (induction ts arbitrary: g s)
  case Nil
  then show ?case using ok_timers [of g s "[]"] by (simp add: timer_inv_def)
next
  case (Cons t ts)
  have inv: "timer_inv s (t # ts)" using Cons.prems(1) by (rule ok_timers)
  then have wf: "wf_list (links s) (timer_list s) (t # ts)" by (simp add: timer_inv_def)
  have head: "\<not> list_empty (timer_list s)" "list_head (timer_list s) = Some t"
    using list_empty_iff [OF wf] list_head_wf [OF wf] by auto
  show ?case
  proof (cases "ttick s t \<le> tick s")
    case False
    then show ?thesis using head Cons.prems by (simp add: pit_loop.simps [of call s] ttick_def)
  next
    case True
    have "ts \<noteq> []"
      using inv True END_TICK_less [OF Cons.prems(2)] by (auto simp: timer_inv_def)
    then obtain s1 where s1: "fire_timer call s = Inr s1" "ok (g @ [t]) s1 ts" "tick s1 = tick s"
      "timers s1 = timers s" using fire_ok [OF Cons.prems(1)] by blast
    have tt: "ttick s1 = ttick s" using s1(4) by (simp add: ttick_def fun_eq_iff)
    have "tick s1 \<noteq> END_TICK" using s1(3) Cons.prems(2) by simp
    from Cons.IH [OF s1(2) this] obtain s' where "pit_loop call s1 = Some (Inr s')" "tick s' = tick s"
      "timers s' = timers s"
      "ok (g @ t # takeWhile (\<lambda>a. ttick s a \<le> tick s) ts) s' (dropWhile (\<lambda>a. ttick s a \<le> tick s) ts)"
      using s1(3,4) tt by auto
    with True s1(1) head show ?thesis by (simp add: pit_loop.simps [of call s] ttick_def)
  qed
qed

text \<open>The whole interrupt handler, from where the other tasks return if the tick switches to one.\<close>

lemma int_pit_ok:
  assumes "(if (tick s + 1) mod 10 = 0 then task_switch env s1 else Inr s1) = Inr s2"
    and s1: "s1 = pic_sendeoi PIT_IRQ s\<lparr>tick := tick s + 1\<rparr>" and "ok g s2 ts" and "tick s2 \<noteq> END_TICK"
  shows "\<exists>s'. int_pit env call s = Inr s' \<and> tick s' = tick s2 \<and>
           ok (g @ takeWhile (\<lambda>a. ttick s2 a \<le> tick s2) ts) s' (dropWhile (\<lambda>a. ttick s2 a \<le> tick s2) ts)"
proof -
  have "int_pit env call s = ended (pit_loop call s2)" using assms(1) by (simp add: int_pit_eq [OF s1])
  with pit_loop_ok [OF assms(3,4)] show ?thesis by (auto simp: ended_def)
qed

text \<open>Once every timer is due, the loop gets to the entry without a function and calls it.\<close>

lemma pit_loop_null:
  assumes "ok g s ts" and "\<forall>a \<in> set ts. ttick s a \<le> tick s" and "te_func (timers s (last ts)) = None"
  shows "pit_loop call s = Some (Inl NullPtr)"
  using assms
proof (induction ts arbitrary: g s)
  case Nil
  then show ?case using ok_timers [of g s "[]"] by (simp add: timer_inv_def)
next
  case (Cons t ts)
  have inv: "timer_inv s (t # ts)" using Cons.prems(1) by (rule ok_timers)
  then have wf: "wf_list (links s) (timer_list s) (t # ts)" by (simp add: timer_inv_def)
  have loop: "pit_loop call s = (case fire_timer call s of Inl e \<Rightarrow> Some (Inl e) | Inr s1 \<Rightarrow> pit_loop call s1)"
    using list_empty_iff [OF wf] list_head_wf [OF wf] Cons.prems(2) by (subst pit_loop.simps) (simp add: ttick_def)
  show ?case
  proof (cases "ts = []")
    case True
    then show ?thesis using list_popfront_Cons [OF wf] Cons.prems(3) unfolding loop by (auto simp: fire_timer_def Let_def)
  next
    case False
    from fire_ok [OF Cons.prems(1) this] obtain s1 where s1: "fire_timer call s = Inr s1" "ok (g @ [t]) s1 ts" "tick s1 = tick s"
      "timers s1 = timers s" by blast
    have "\<forall>a \<in> set ts. ttick s1 a \<le> tick s1" "te_func (timers s1 (last ts)) = None"
      using Cons.prems(2,3) False s1(3,4) by (simp_all add: ttick_def)
    from Cons.IH [OF s1(2) this] show ?thesis unfolding loop by (simp add: s1(1))
  qed
qed

end

section \<open>Properties\<close>

text \<open>
  C29: \<open>set_timer\<close> keeps the list of timers sorted by expiry. It always returns on a good list, places the
  new timer behind all timers that expire no later (so timers of equal expiry stay in the order they were
  set), takes one block, and changes no other timer.
\<close>

theorem set_timer_sorted:
  assumes "timer_inv s ts" and "0 < avail s" and "tick s + msec \<noteq> END_TICK"
  shows "\<exists>a s'. set_timer f arg msec s = Inr s' \<and> a \<notin> live s \<and>
           timer_inv s' (timer_insort (ttick s) (tick s + msec) a ts) \<and>
           ttick s' = (ttick s)(a := tick s + msec) \<and> avail s' = avail s - 1 \<and> rflags s' = rflags s"
proof -
  from set_timer_ok [OF assms, of f arg] obtain a s' where s': "set_timer f arg msec s = Inr s'"
    "a \<notin> live s" "timer_inv s' (timer_insort (ttick s) (tick s + msec) a ts)" "avail s' = avail s - 1"
    "timers s' = (timers s)(a := \<lparr>te_tick = tick s + msec, te_func = Some f, te_arg = arg\<rparr>)"
    "timer_rest s s'" by blast
  have "ttick s' = (ttick s)(a := tick s + msec)" using s'(5) by (auto simp: ttick_def fun_eq_iff)
  moreover have "rflags s' = rflags s" using s'(6) by (auto simp: timer_rest_def)
  ultimately show ?thesis using s' by blast
qed

end
