(* ===== verification/Workqueue.thy ===== *)
theory Workqueue
  imports Timer
begin

text \<open>
  \<^verbatim>\<open>kernel/core/workqueue.c\<close>: the queue of deferred work. Interrupt handlers push items; the kernel's
  main loop executes them one by one. A delayed item is parked in a timer whose function moves it to
  the queue. The invariant \<open>wq_inv\<close> ties the three together: timers, queued items and parked items are
  different blocks, all allocated, and every timer but the sentinel delivers the item it holds.
\<close>

section \<open>State and operations\<close>

record work_task =
  wt_func :: kfun
  wt_arg :: "addr option"

record wq_state = timer_state +
  wq :: "addr listctl"
  works :: "addr \<Rightarrow> work_task"

definition sizeof_work_task :: u32 where
  "sizeof_work_task = 24"

definition wq_init :: "'a wq_state_scheme \<Rightarrow> 'a wq_state_scheme" where
  "wq_init s = printstr_log (''Initialized workqueue'' @ nl) (s\<lparr>wq := list_init\<rparr>)"

text \<open>The part \<open>wq_push\<close> and \<open>wq_push_timer_func\<close> share: append under \<open>cli\<close>, then wake the main loop.\<close>

definition wq_append :: "addr \<Rightarrow> 'a wq_state_scheme \<Rightarrow> 'a wq_state_scheme res" where
  "wq_append task s =
     (let rf = get_rflags s; s1 = io_cli s in
      bindr (list_pushback (wq s1) task (links s1)) (\<lambda>(l, nx).
      task_wakeup WqObj (set_rflags rf (s1\<lparr>wq := l, links := nx\<rparr>))))"

definition wq_push :: "kfun \<Rightarrow> addr option \<Rightarrow> 'a wq_state_scheme \<Rightarrow> 'a wq_state_scheme res" where
  "wq_push func arg s =
     bindr (mem_alloc sizeof_work_task ''wq_task'' s) (\<lambda>(task, s1).
     wq_append task (s1\<lparr>works := (works s1)(task := \<lparr>wt_func = func, wt_arg = arg\<rparr>)\<rparr>))"

definition wq_push_timer_func :: "addr option \<Rightarrow> 'a wq_state_scheme \<Rightarrow> 'a wq_state_scheme res" where
  "wq_push_timer_func tk s = (case tk of None \<Rightarrow> Inl NullPtr | Some task \<Rightarrow> wq_append task s)"

definition wq_push_with_delay :: "kfun \<Rightarrow> addr option \<Rightarrow> u32 \<Rightarrow> 'a wq_state_scheme \<Rightarrow> 'a wq_state_scheme res" where
  "wq_push_with_delay func arg delay_msec s =
     bindr (mem_alloc sizeof_work_task ''delaoed_wq_task'' s) (\<lambda>(task, s1).
     set_timer WqPushTimerFunc (Some task) delay_msec
       (s1\<lparr>works := (works s1)(task := \<lparr>wt_func = func, wt_arg = arg\<rparr>)\<rparr>))"

definition wq_empty :: "'a wq_state_scheme \<Rightarrow> bool" where
  "wq_empty s = list_empty (wq s)"

definition wq_execute ::
  "(kfun \<Rightarrow> addr option \<Rightarrow> 'a wq_state_scheme \<Rightarrow> 'a wq_state_scheme res)
    \<Rightarrow> 'a wq_state_scheme \<Rightarrow> 'a wq_state_scheme res" where
  "wq_execute call s =
     (if \<not> wq_empty s
      then
        let rf = get_rflags s; s1 = io_cli s in
        bindr (list_popfront (wq s1) (links s1)) (\<lambda>(r, l, nx).
        let s2 = set_rflags rf (s1\<lparr>wq := l, links := nx\<rparr>) in
        case r of
          None \<Rightarrow> Inl NullPtr
        | Some task \<Rightarrow> bindr (call (wt_func (works s2 task)) (wt_arg (works s2 task)) s2) (mem_free task))
      else Inr s)"

definition wq_cond :: waitobj where
  "wq_cond = WqObj"

text \<open>The dispatch of a timer's function pointer; \<open>other\<close> stands for the remaining kernel functions.\<close>

definition wq_call ::
  "(kfun \<Rightarrow> addr option \<Rightarrow> 'a wq_state_scheme \<Rightarrow> 'a wq_state_scheme res)
    \<Rightarrow> kfun \<Rightarrow> addr option \<Rightarrow> 'a wq_state_scheme \<Rightarrow> 'a wq_state_scheme res" where
  "wq_call other f arg s = (if f = WqPushTimerFunc then wq_push_timer_func arg s else other f arg s)"

section \<open>Timers, queued items and parked items\<close>

definition parked :: "(addr \<Rightarrow> timer_entry) \<Rightarrow> addr list \<Rightarrow> addr list" where
  "parked tm ts = map (\<lambda>a. the (te_arg (tm a))) (butlast ts)"

definition wq_inv :: "'a wq_state_scheme \<Rightarrow> addr list \<Rightarrow> addr list \<Rightarrow> bool" where
  "wq_inv s ts ws =
     (timer_inv s ts \<and> wf_list (links s) (wq s) ws \<and> sched_fine s \<and>
      distinct (ts @ ws @ parked (timers s) ts) \<and> set (ws @ parked (timers s) ts) \<subseteq> live s \<and>
      (\<forall>a \<in> set (butlast ts). te_func (timers s a) = Some WqPushTimerFunc \<and> te_arg (timers s a) \<noteq> None))"

lemma timer_inv_mem: "timer_inv s ts \<Longrightarrow> mem_inv s"
  by (simp add: timer_inv_def)

lemma wq_fits: "mem_fits sizeof_work_task"
  by (simp add: mem_fits_def sizeof_work_task_def MEM_GRANULARITY_def)

lemma wq_inv_length: "wq_inv s ts ws \<Longrightarrow> length ws < 65535"
  using live_length [of ws "memhdrs s"] by (auto simp: wq_inv_def MEM_BLOCKS_def mem_view)

text \<open>\<open>timer_inv\<close> sees the fields of the timer component and the links of its own entries.\<close>

lemma timer_inv_frame:
  assumes "timer_inv s ts" and "mem_inv s'" and "timer_list s' = timer_list s" and "timers s' = timers s"
    and "set ts \<subseteq> live s'" and "\<And>a. a \<in> set ts \<Longrightarrow> links s' a = links s a"
  shows "timer_inv s' ts"
proof -
  have "wf_list (links s') (timer_list s') ts"
    using assms by (auto simp: timer_inv_def intro: wf_list_frame)
  moreover have "ttick s' = ttick s" using assms(4) by (simp add: ttick_def fun_eq_iff)
  ultimately show ?thesis using assms(1,2,5) by (simp add: timer_inv_def)
qed

text \<open>
  Appending a block to the queue. The block is allocated and is neither a timer nor queued already;
  it may be the item of the timer that is being fired, so the parked items are an argument.
\<close>

definition wq_rest :: "'a wq_state_scheme \<Rightarrow> 'a wq_state_scheme \<Rightarrow> bool" where
  "wq_rest s s' = (\<exists>l nx c tl. s' = s\<lparr>wq := l, links := nx, taskctl := c, task_links := tl\<rparr>)"

lemma wq_append_ok:
  assumes wf: "wf_list (links s) (wq s) ws" and sched: "sched_fine s"
    and a: "a \<notin> set ws" and len: "length ws < 65535"
  shows "\<exists>s'. wq_append a s = Inr s' \<and> wf_list (links s') (wq s') (ws @ [a]) \<and> sched_fine s' \<and>
           (\<forall>y. y \<notin> set ws \<longrightarrow> y \<noteq> a \<longrightarrow> links s' y = links s y) \<and> wq_rest s s'"
proof -
  obtain l nx where ln: "list_pushback (wq s) a (links s) = Inr (l, nx)" "wf_list nx l (ws @ [a])"
    "\<And>y. y \<notin> set ws \<Longrightarrow> y \<noteq> a \<Longrightarrow> nx y = links s y"
    by (rule list_pushback_wf [OF wf a len]) (rule that)
  let ?s = "s\<lparr>wq := l, links := nx\<rparr>"
  have "sched_fine ?s" using sched by (simp add: sched_fine_def)
  then obtain s' where s': "task_wakeup WqObj ?s = Inr s'" "sched_fine s'" "task_rest ?s s'"
    using task_wakeup_fine by blast
  from s'(3) obtain c tl where eq: "s' = ?s\<lparr>taskctl := c, task_links := tl\<rparr>" by (auto simp: task_rest_def)
  have "wq_append a s = Inr s'" using ln(1) s'(1) by (simp add: wq_append_def Let_def rflags_defs)
  moreover have "wq_rest s s'" unfolding wq_rest_def eq by (intro exI) (rule refl)
  ultimately show ?thesis using s'(2) ln(2,3) by (intro exI [of _ s']) (simp add: eq)
qed

lemma wq_push_ok:
  assumes inv: "wq_inv s ts ws" and av: "0 < avail s"
  shows "\<exists>a s'. wq_push f arg s = Inr s' \<and> wq_inv s' ts (ws @ [a]) \<and> a \<notin> live s \<and>
           live s' = insert a (live s) \<and> avail s' = avail s - 1 \<and> timers s' = timers s \<and>
           works s' = (works s)(a := \<lparr>wt_func = f, wt_arg = arg\<rparr>) \<and> tick s' = tick s \<and>
           (\<forall>y. y \<notin> set ws \<longrightarrow> y \<noteq> a \<longrightarrow> links s' y = links s y)"
proof -
  have ti: "timer_inv s ts" and wf: "wf_list (links s) (wq s) ws" and sched: "sched_fine s"
    and dist: "distinct (ts @ ws @ parked (timers s) ts)"
    and sub: "set ts \<subseteq> live s" "set ws \<subseteq> live s" "set (parked (timers s) ts) \<subseteq> live s"
    using inv by (auto simp: wq_inv_def timer_inv_def)
  obtain a s1 where s1: "mem_alloc sizeof_work_task ''wq_task'' s = Inr (a, s1)" "mem_inv s1"
    "a \<notin> live s" "live s1 = insert a (live s)" "avail s1 = avail s - 1" "mem_rest s s1"
    by (rule kmem.allocE [OF timer_inv_mem [OF ti] wq_fits av])
  from s1(6) obtain fm mh where eq: "s1 = s\<lparr>freemem := fm, memhdrs := mh\<rparr>" by (auto simp: mem_rest_def)
  let ?s2 = "s1\<lparr>works := (works s1)(a := \<lparr>wt_func = f, wt_arg = arg\<rparr>)\<rparr>"
  have "wf_list (links ?s2) (wq ?s2) ws" "sched_fine ?s2"
    using wf sched by (simp_all add: eq sched_fine_def)
  moreover have "a \<notin> set ws" "length ws < 65535" using s1(3) sub wq_inv_length [OF inv] by auto
  ultimately obtain s' where s': "wq_append a ?s2 = Inr s'" "wf_list (links s') (wq s') (ws @ [a])"
    "sched_fine s'" "\<And>y. y \<notin> set ws \<Longrightarrow> y \<noteq> a \<Longrightarrow> links s' y = links ?s2 y" "wq_rest ?s2 s'"
    using wq_append_ok [of ?s2 ws a] by blast
  from s'(5) obtain l nx c tl where
    eq': "s' = ?s2\<lparr>wq := l, links := nx, taskctl := c, task_links := tl\<rparr>" by (auto simp: wq_rest_def)
  have mi: "mem_inv s'" "live s' = insert a (live s)" "avail s' = avail s - 1"
    using s1(2,4,5) by (simp_all add: eq' mem_view)
  have "timer_inv s' ts"
  proof (rule timer_inv_frame [OF ti mi(1)])
    fix y assume "y \<in> set ts"
    then have "y \<notin> set ws" "y \<noteq> a" using dist sub(1) s1(3) by auto
    then show "links s' y = links s y" using s'(4) by (simp add: eq)
  qed (use mi(2) sub in \<open>auto simp: eq' eq\<close>)
  moreover have "timers s' = timers s" by (simp add: eq' eq)
  ultimately have "wq_inv s' ts (ws @ [a])"
    using inv s'(2,3) s1(3) sub mi(2) unfolding wq_inv_def by auto
  moreover have "wq_push f arg s = Inr s'" using s1(1) s'(1) by (simp add: wq_push_def)
  moreover have "links s' y = links s y" if "y \<notin> set ws" "y \<noteq> a" for y using s'(4) [OF that] by (simp add: eq)
  ultimately show ?thesis
    using mi s1(3) by (intro exI [of _ a] exI [of _ s']) (simp add: eq' eq)
qed

text \<open>The blocks a timer list holds when a new timer has been added to it.\<close>

lemma parked_insort:
  assumes "ts \<noteq> []" and "k (last ts) > t" and "a \<notin> set ts"
  shows "set (parked (tm(a := e)) (timer_insort k t a ts)) = insert (the (te_arg e)) (set (parked tm ts))"
    and "distinct (parked tm ts) \<Longrightarrow> the (te_arg e) \<notin> set (parked tm ts) \<Longrightarrow>
      distinct (parked (tm(a := e)) (timer_insort k t a ts))"
    and "set (butlast (timer_insort k t a ts)) = insert a (set (butlast ts))"
proof -
  let ?us = "takeWhile (\<lambda>b. k b \<le> t) ts" and ?vs = "dropWhile (\<lambda>b. k b \<le> t) ts"
  have vs: "?vs \<noteq> []" using assms(1,2) by (metis dropWhile_eq_Nil_conv last_in_set not_less)
  then have bl: "butlast ts = ?us @ butlast ?vs" "butlast (timer_insort k t a ts) = ?us @ a # butlast ?vs"
    using butlast_append [of ?us ?vs] by (auto simp: timer_insort_def butlast_append)
  have nin: "a \<notin> set ?us" "a \<notin> set (butlast ?vs)"
    using assms(3) by (auto dest: set_takeWhileD in_set_butlastD set_dropWhileD)
  let ?f = "\<lambda>b. the (te_arg (tm b))"
  have p: "parked (tm(a := e)) (timer_insort k t a ts) = map ?f ?us @ the (te_arg e) # map ?f (butlast ?vs)"
    using nin unfolding parked_def bl(2) by auto
  have q: "parked tm ts = map ?f ?us @ map ?f (butlast ?vs)" unfolding parked_def bl(1) by simp
  show "set (parked (tm(a := e)) (timer_insort k t a ts)) = insert (the (te_arg e)) (set (parked tm ts))"
    unfolding p q by auto
  show "distinct (parked (tm(a := e)) (timer_insort k t a ts))"
    if "distinct (parked tm ts)" "the (te_arg e) \<notin> set (parked tm ts)"
    using that unfolding p q by auto
  show "set (butlast (timer_insort k t a ts)) = insert a (set (butlast ts))"
    unfolding bl by auto
qed

text \<open>A timer for an allocated block that is in no queue yet.\<close>

lemma park_ok:
  assumes inv: "wq_inv s ts ws" and av: "0 < avail s" and t: "tick s + d \<noteq> END_TICK"
    and w: "w \<in> live s" "w \<notin> set (ts @ ws @ parked (timers s) ts)"
  defines "e \<equiv> \<lparr>te_tick = tick s + d, te_func = Some WqPushTimerFunc, te_arg = Some w\<rparr>"
  shows "\<exists>a s'. set_timer WqPushTimerFunc (Some w) d s = Inr s' \<and> a \<notin> live s \<and>
           wq_inv s' (timer_insort (ttick s) (tick s + d) a ts) ws \<and> live s' = insert a (live s) \<and>
           avail s' = avail s - 1 \<and> timers s' = (timers s)(a := e) \<and> works s' = works s \<and> tick s' = tick s \<and>
           set (parked (timers s') (timer_insort (ttick s) (tick s + d) a ts)) = insert w (set (parked (timers s) ts)) \<and>
           (\<forall>b. b \<noteq> a \<longrightarrow> b \<notin> set ts \<longrightarrow> links s' b = links s b) \<and> timer_rest s s'"
proof -
  have ti: "timer_inv s ts" and wf: "wf_list (links s) (wq s) ws" and sched: "sched_fine s"
    and dist: "distinct (ts @ ws @ parked (timers s) ts)"
    and sub: "set ts \<subseteq> live s" "set ws \<subseteq> live s" "set (parked (timers s) ts) \<subseteq> live s"
    using inv by (auto simp: wq_inv_def timer_inv_def)
  let ?ts = "\<lambda>a. timer_insort (ttick s) (tick s + d) a ts"
  obtain a s' where s': "set_timer WqPushTimerFunc (Some w) d s = Inr s'" "a \<notin> live s"
    "timer_inv s' (?ts a)" "live s' = insert a (live s)" "avail s' = avail s - 1"
    "timers s' = (timers s)(a := e)"
    "\<And>b. b \<noteq> a \<Longrightarrow> b \<notin> set ts \<Longrightarrow> links s' b = links s b" "timer_rest s s'"
    using set_timer_ok [OF ti av t, of WqPushTimerFunc "Some w"] unfolding e_def by auto
  from s'(8) obtain fm mh nx l tm where
    eq: "s' = s\<lparr>freemem := fm, memhdrs := mh, links := nx, timer_list := l, timers := tm\<rparr>"
    by (auto simp: timer_rest_def)
  have a: "a \<notin> set ts" using s'(2) sub by auto
  have last: "ttick s (last ts) > tick s + d" "ts \<noteq> []"
    using ti END_TICK_less [OF t] by (auto simp: timer_inv_def)
  note pk = parked_insort(1,2) [where k = "ttick s" and tm = "timers s" and e = e, OF last(2,1) a]
    parked_insort(3) [where k = "ttick s", OF last(2,1) a]
  have "wf_list (links s') (wq s') ws"
  proof (rule wf_list_frame)
    show "wf_list (links s) (wq s') ws" using wf by (simp add: eq)
    fix y assume "y \<in> set ws"
    then have "y \<noteq> a" "y \<notin> set ts" using dist sub s'(2) by auto
    then show "links s' y = links s y" by (rule s'(7))
  qed
  moreover have "sched_fine s'" using sched by (simp add: eq sched_fine_def)
  moreover have "distinct (?ts a)" using s'(3) by (auto simp: timer_inv_def intro: wf_list_distinct)
  moreover have "distinct (parked (timers s') (?ts a))"
    unfolding s'(6) using dist w(2) by (intro pk(2)) (auto simp: e_def)
  moreover have "\<forall>b \<in> set (butlast (?ts a)). te_func (timers s' b) = Some WqPushTimerFunc \<and>
      te_arg (timers s' b) \<noteq> None"
    unfolding pk(3) s'(6) using inv by (auto simp: wq_inv_def e_def)
  ultimately have "wq_inv s' (?ts a) ws"
    using s'(2,3,4) dist sub w unfolding wq_inv_def s'(6) by (auto simp: pk(1)) (auto simp: e_def)
  moreover have "set (parked (timers s') (?ts a)) = insert w (set (parked (timers s) ts))"
    unfolding s'(6) pk(1) by (simp add: e_def)
  moreover have "works s' = works s" "tick s' = tick s" by (simp_all add: eq)
  ultimately show ?thesis using s' by blast
qed

definition delay_rest :: "'a wq_state_scheme \<Rightarrow> 'a wq_state_scheme \<Rightarrow> bool" where
  "delay_rest s s' =
     (\<exists>fm mh nx l tm wk. s' = s\<lparr>works := wk, freemem := fm, memhdrs := mh, links := nx, timer_list := l, timers := tm\<rparr>)"

lemma wq_push_with_delay_ok:
  assumes inv: "wq_inv s ts ws" and av: "2 \<le> avail s" and t: "tick s + d \<noteq> END_TICK"
  shows "\<exists>w a s'. wq_push_with_delay f arg d s = Inr s' \<and>
           wq_inv s' (timer_insort (ttick s) (tick s + d) a ts) ws \<and> w \<notin> live s \<and> a \<notin> live s \<and>
           live s' = {w, a} \<union> live s \<and> avail s' = avail s - 2 \<and>
           timers s' = (timers s)(a := \<lparr>te_tick = tick s + d, te_func = Some WqPushTimerFunc, te_arg = Some w\<rparr>) \<and>
           works s' = (works s)(w := \<lparr>wt_func = f, wt_arg = arg\<rparr>) \<and> tick s' = tick s \<and>
           set (parked (timers s') (timer_insort (ttick s) (tick s + d) a ts)) = insert w (set (parked (timers s) ts)) \<and>
           (\<forall>b. b \<noteq> a \<longrightarrow> b \<notin> set ts \<longrightarrow> links s' b = links s b) \<and> delay_rest s s'"
proof -
  have ti: "timer_inv s ts" and sub: "set (ts @ ws @ parked (timers s) ts) \<subseteq> live s"
    using inv by (auto simp: wq_inv_def timer_inv_def)
  have "0 < avail s" using av by simp
  then obtain w s1 where s1: "mem_alloc sizeof_work_task ''delaoed_wq_task'' s = Inr (w, s1)" "mem_inv s1"
    "w \<notin> live s" "live s1 = insert w (live s)" "avail s1 = avail s - 1" "mem_rest s s1"
    by (rule kmem.allocE [OF timer_inv_mem [OF ti] wq_fits])
  from s1(6) obtain fm mh where eq: "s1 = s\<lparr>freemem := fm, memhdrs := mh\<rparr>" by (auto simp: mem_rest_def)
  let ?s2 = "s1\<lparr>works := (works s1)(w := \<lparr>wt_func = f, wt_arg = arg\<rparr>)\<rparr>"
  have m2: "mem_inv ?s2" "live ?s2 = insert w (live s)" "avail ?s2 = avail s - 1"
    using s1(2,4,5) by (simp_all add: mem_view)
  have fields: "timers ?s2 = timers s" "tick ?s2 = tick s" "ttick ?s2 = ttick s"
    by (simp_all add: eq ttick_def fun_eq_iff)
  have "timer_inv ?s2 ts"
    by (rule timer_inv_frame [OF ti m2(1)]) (use m2(2) sub in \<open>auto simp: eq\<close>)
  then have w2: "wq_inv ?s2 ts ws"
    using inv m2(2) unfolding wq_inv_def fields by (auto simp: eq sched_fine_def)
  have fresh: "w \<notin> set (ts @ ws @ parked (timers ?s2) ts)" using s1(3) sub unfolding fields by blast
  have more: "0 < avail ?s2" "tick ?s2 + d \<noteq> END_TICK" "w \<in> live ?s2"
    using m2 av t unfolding fields by simp_all
  from park_ok [OF w2 more fresh] obtain a s' where
    s': "set_timer WqPushTimerFunc (Some w) d ?s2 = Inr s'" "a \<notin> live ?s2"
    "wq_inv s' (timer_insort (ttick ?s2) (tick ?s2 + d) a ts) ws" "live s' = insert a (live ?s2)"
    "avail s' = avail ?s2 - 1" "works s' = works ?s2" "tick s' = tick ?s2"
    "timers s' = (timers ?s2)(a := \<lparr>te_tick = tick ?s2 + d, te_func = Some WqPushTimerFunc, te_arg = Some w\<rparr>)"
    "set (parked (timers s') (timer_insort (ttick ?s2) (tick ?s2 + d) a ts)) = insert w (set (parked (timers ?s2) ts))"
    "\<forall>b. b \<noteq> a \<longrightarrow> b \<notin> set ts \<longrightarrow> links s' b = links ?s2 b" "timer_rest ?s2 s'"
    by blast
  have fr: "\<forall>b. b \<noteq> a \<longrightarrow> b \<notin> set ts \<longrightarrow> links s' b = links s b" using s'(10) by (simp add: eq)
  have "delay_rest s s'" using s'(11) unfolding timer_rest_def delay_rest_def eq by (elim exE, intro exI) simp
  have "wq_push_with_delay f arg d s = Inr s'" using s1(1) s'(1) by (simp add: wq_push_with_delay_def)
  moreover have "a \<notin> live s" "live s' = {w, a} \<union> live s" "avail s' = avail s - 2"
    using s'(2,4,5) m2 by auto
  moreover have "works s' = (works s)(w := \<lparr>wt_func = f, wt_arg = arg\<rparr>)" using s'(6) by (simp add: eq)
  ultimately show ?thesis
    using s1(3) s'(3,7,8,9) fr \<open>delay_rest s s'\<close> unfolding fields by (intro exI [of _ w] exI [of _ a] exI [of _ s'] conjI)
qed

section \<open>Delivery\<close>

text \<open>
  The invariant while due timers are being fired: the items of the fired timers have joined the queue in
  the order of firing, and the blocks of the fired timers have been released.
\<close>

definition wq_fired ::
  "addr list \<Rightarrow> (addr \<Rightarrow> timer_entry) \<Rightarrow> addr set \<Rightarrow> addr list \<Rightarrow> 'a wq_state_scheme \<Rightarrow> addr list \<Rightarrow> bool" where
  "wq_fired ws0 tm L0 g s ts =
     (wq_inv s ts (ws0 @ map (\<lambda>a. the (te_arg (tm a))) g) \<and> timers s = tm \<and> live s = L0 - set g)"

lemma timer_inv_tail:
  assumes "timer_inv s (t # ts)" and "ts \<noteq> []"
  shows "sorted (map (ttick s) ts) \<and> ttick s (last ts) = END_TICK \<and>
         (\<forall>a \<in> set ts. a \<noteq> last ts \<longrightarrow> ttick s a < END_TICK) \<and> set ts \<subseteq> live s \<and> t \<notin> set ts"
  using assms wf_list_distinct [of "links s" "timer_list s" "t # ts"] by (auto simp: timer_inv_def)

lemma wq_fire:
  assumes inv: "wq_inv s (t # ts) ws" and ne: "ts \<noteq> []"
  shows "\<exists>s'. fire_timer (wq_call other) s = Inr s' \<and>
           wq_inv s' ts (ws @ [the (te_arg (timers s t))]) \<and> tick s' = tick s \<and> timers s' = timers s \<and>
           live s' = live s - {t}"
proof -
  have ti: "timer_inv s (t # ts)" and wf: "wf_list (links s) (wq s) ws" and sched: "sched_fine s"
    and dist: "distinct (t # ts @ ws @ parked (timers s) (t # ts))"
    and sub: "set ws \<subseteq> live s" "set (parked (timers s) (t # ts)) \<subseteq> live s"
    and fn: "te_func (timers s t) = Some WqPushTimerFunc" "te_arg (timers s t) \<noteq> None"
    using inv ne by (auto simp: wq_inv_def)
  obtain w where w: "te_arg (timers s t) = Some w" using fn(2) by auto
  have pk: "parked (timers s) (t # ts) = w # parked (timers s) ts" using ne w by (simp add: parked_def)
  let ?l = "(timer_list s)\<lparr>count := count (timer_list s) - 1, head := links s t\<rparr>"
  let ?s1 = "s\<lparr>timer_list := ?l, links := (links s)(t := None)\<rparr>"
  have "wf_list (links s) (timer_list s) (t # ts)" using ti by (simp add: timer_inv_def)
  note pop = list_popfront_Cons [OF this]
  have "wf_list (links ?s1) (wq ?s1) ws" using wf dist by (simp add: wf_list_def)
  moreover have "sched_fine ?s1" using sched by (simp add: sched_fine_def)
  moreover have "w \<notin> set ws" "length ws < 65535" using dist pk wq_inv_length [OF inv] by auto
  ultimately obtain s2 where s2: "wq_append w ?s1 = Inr s2" "wf_list (links s2) (wq s2) (ws @ [w])"
    "sched_fine s2" "\<And>y. y \<notin> set ws \<Longrightarrow> y \<noteq> w \<Longrightarrow> links s2 y = links ?s1 y" "wq_rest ?s1 s2"
    using wq_append_ok [of ?s1 ws w] by blast
  from s2(5) obtain l nx c tl where
    eq: "s2 = ?s1\<lparr>wq := l, links := nx, taskctl := c, task_links := tl\<rparr>" by (auto simp: wq_rest_def)
  have "mem_inv s2" "t \<in> live s2" using ti by (auto simp: eq timer_inv_def mem_view)
  then obtain s3 where s3: "mem_free t s2 = Inr s3" "mem_inv s3" "live s3 = live s2 - {t}" "mem_rest s2 s3"
    using kmem.freeE by metis
  from s3(4) obtain fm mh where eq3: "s3 = s2\<lparr>freemem := fm, memhdrs := mh\<rparr>" by (auto simp: mem_rest_def)
  have call: "fire_timer (wq_call other) s = Inr s3"
    using pop fn w s2(1) s3(1) by (simp add: fire_timer_def wq_call_def wq_push_timer_func_def Let_def)
  have live3: "live s3 = live s - {t}" using s3(3) by (simp add: eq mem_view)
  have f3: "timers s3 = timers s" "tick s3 = tick s" "ttick s3 = ttick s" "timer_list s3 = ?l"
    "links s3 = links s2" "wq s3 = wq s2"
    by (simp_all add: eq3 eq ttick_def fun_eq_iff)
  have "wf_list (links s2) ?l ts"
  proof (rule wf_list_frame)
    show "wf_list ((links s)(t := None)) ?l ts" using pop by blast
    fix y assume "y \<in> set ts"
    then have "y \<notin> set ws" "y \<noteq> w" using dist pk by auto
    then show "links s2 y = ((links s)(t := None)) y" using s2(4) by simp
  qed
  then have "timer_inv s3 ts"
    using timer_inv_tail [OF ti ne] s3(2) ne live3 unfolding timer_inv_def f3 by auto
  moreover have "sched_fine s3" using s2(3) by (simp add: eq3 sched_fine_def)
  ultimately have "wq_inv s3 ts (ws @ [w])"
    using inv dist sub s2(2) live3 ne unfolding wq_inv_def f3 pk by auto
  with call f3 live3 w show ?thesis by auto
qed

interpretation wq_timer: timer_client "wq_call other" "wq_fired ws0 tm L0"
  for other :: "kfun \<Rightarrow> addr option \<Rightarrow> 'a wq_state_scheme \<Rightarrow> 'a wq_state_scheme res" and ws0 tm L0
proof unfold_locales
  fix g and s :: "'a wq_state_scheme" and ts t
  show "wq_fired ws0 tm L0 g s ts \<Longrightarrow> timer_inv s ts" by (simp add: wq_fired_def wq_inv_def)
  assume ok: "wq_fired ws0 tm L0 g s (t # ts)" and "ts \<noteq> []"
  then show "\<exists>s'. fire_timer (wq_call other) s = Inr s' \<and> wq_fired ws0 tm L0 (g @ [t]) s' ts \<and>
      tick s' = tick s \<and> timers s' = timers s"
    using wq_fire [of s t ts "ws0 @ map (\<lambda>a. the (te_arg (tm a))) g" other]
    by (auto simp: wq_fired_def)
qed

section \<open>Execution\<close>

text \<open>
  \<open>wq_execute\<close> takes the item at the front and calls its function in a state whose queue holds the rest;
  the item's block stays allocated during the call and is released after it.
\<close>

lemma wq_execute_pop:
  assumes inv: "wq_inv s ts (w # ws)"
  shows "\<exists>s1. wq_execute call s = bindr (call (wt_func (works s w)) (wt_arg (works s w)) s1) (mem_free w) \<and>
           wq_inv s1 ts ws \<and> w \<in> live s1 \<and> w \<notin> set (ts @ ws @ parked (timers s1) ts) \<and>
           (\<exists>l nx. s1 = s\<lparr>wq := l, links := nx\<rparr> \<and> (\<forall>x. x \<noteq> w \<longrightarrow> nx x = links s x))"
proof -
  let ?l = "(wq s)\<lparr>count := count (wq s) - 1, head := links s w\<rparr>"
  let ?s1 = "s\<lparr>wq := ?l, links := (links s)(w := None)\<rparr>"
  have wf: "wf_list (links s) (wq s) (w # ws)" and ti: "timer_inv s ts"
    and dist: "distinct (ts @ (w # ws) @ parked (timers s) ts)"
    and sub: "set ((w # ws) @ parked (timers s) ts) \<subseteq> live s" using inv by (auto simp: wq_inv_def)
  note pop = list_popfront_Cons [OF wf]
  have "\<not> wq_empty s" using list_empty_iff [OF wf] by (simp add: wq_empty_def)
  then have call: "wq_execute call s =
      bindr (call (wt_func (works s w)) (wt_arg (works s w)) ?s1) (mem_free w)"
    using pop by (simp add: wq_execute_def Let_def rflags_defs)
  have "timer_inv ?s1 ts"
    by (rule timer_inv_frame [OF ti]) (use ti dist in \<open>auto simp: timer_inv_def mem_view\<close>)
  then have "wq_inv ?s1 ts ws"
    using inv pop unfolding wq_inv_def by (auto simp: sched_fine_def mem_view)
  moreover have "\<exists>l nx. ?s1 = s\<lparr>wq := l, links := nx\<rparr> \<and> (\<forall>x. x \<noteq> w \<longrightarrow> nx x = links s x)"
    by (intro exI [of _ ?l] exI [of _ "(links s)(w := None)"]) simp
  moreover have "w \<in> live ?s1" "w \<notin> set (ts @ ws @ parked (timers ?s1) ts)" using dist sub by (auto simp: mem_view)
  ultimately show ?thesis using call by blast
qed

lemma wq_execute_empty: "wq_inv s ts [] \<Longrightarrow> wq_execute call s = Inr s"
  using list_empty_iff [of "links s" "wq s" "[]"] by (simp add: wq_inv_def wq_execute_def wq_empty_def)

text \<open>Releasing a block that is in no queue keeps the invariant.\<close>

lemma wq_inv_free:
  assumes inv: "wq_inv s ts ws" and w: "w \<in> live s" "w \<notin> set (ts @ ws @ parked (timers s) ts)"
  shows "\<exists>s'. mem_free w s = Inr s' \<and> wq_inv s' ts ws \<and> live s' = live s - {w} \<and> mem_rest s s'"
proof -
  have ti: "timer_inv s ts" using inv by (simp add: wq_inv_def)
  obtain s' where s': "mem_free w s = Inr s'" "mem_inv s'" "live s' = live s - {w}" "mem_rest s s'"
    using kmem.freeE [OF timer_inv_mem [OF ti] w(1)] by metis
  from s'(4) obtain fm mh where eq: "s' = s\<lparr>freemem := fm, memhdrs := mh\<rparr>" by (auto simp: mem_rest_def)
  have sub: "set ts \<subseteq> live s" using ti by (simp add: timer_inv_def)
  have "timer_inv s' ts"
    by (rule timer_inv_frame [OF ti s'(2)]) (use s'(3) sub w(2) in \<open>auto simp: eq\<close>)
  moreover have f: "timers s' = timers s" "links s' = links s" "wq s' = wq s" "sched_fine s' = sched_fine s"
    by (simp_all add: eq sched_fine_def)
  ultimately have "wq_inv s' ts ws"
    using inv w(2) s'(3) unfolding wq_inv_def f by auto
  with s' show ?thesis by blast
qed

text \<open>At boot the queue is empty and the sentinel is the only timer; tasks do not exist yet.\<close>

lemma wq_init_ok:
  assumes "timer_inv s [a]"
  shows "timer_inv (wq_init s) [a] \<and> wf_list (links (wq_init s)) (wq (wq_init s)) []"
proof -
  have "timer_inv (wq_init s) [a]"
    by (rule timer_inv_frame [OF assms])
      (use assms in \<open>auto simp: wq_init_def printstr_log_eq timer_inv_def mem_view\<close>)
  then show ?thesis by (simp add: wq_init_def printstr_log_eq list_init_wf)
qed

lemma wq_boot:
  assumes "timer_inv s [a]" and "wf_list (links s) (wq s) []" and "sched_fine s"
  shows "wq_inv s [a] []"
  using assms by (simp add: wq_inv_def parked_def)

text \<open>
  The invariant sees the fields of the allocator, the timers, the scheduler and the queue only, so the
  record simplifier carries it over an update of any other field.
\<close>

definition wq_ok ::
  "memtbl \<Rightarrow> (addr \<Rightarrow> memhdr) \<Rightarrow> addr linkmap \<Rightarrow> addr listctl \<Rightarrow> (addr \<Rightarrow> timer_entry) \<Rightarrow> addr listctl
    \<Rightarrow> TASKCTL \<Rightarrow> nat linkmap \<Rightarrow> addr list \<Rightarrow> addr list \<Rightarrow> bool" where
  "wq_ok fm mh nx tlst tm q c tnx ts ws =
     (mem_ok fm mh \<and> wf_list nx tlst ts \<and> set ts \<subseteq> live_of mh \<and> sorted (map (\<lambda>a. te_tick (tm a)) ts) \<and>
      ts \<noteq> [] \<and> te_tick (tm (last ts)) = END_TICK \<and>
      (\<forall>a \<in> set ts. a \<noteq> last ts \<longrightarrow> te_tick (tm a) < END_TICK) \<and> wf_list nx q ws \<and>
      (\<exists>r. sched_ok c tnx r) \<and> cur_running c \<and>
      distinct (ts @ ws @ parked tm ts) \<and> set (ws @ parked tm ts) \<subseteq> live_of mh \<and>
      (\<forall>a \<in> set (butlast ts). te_func (tm a) = Some WqPushTimerFunc \<and> te_arg (tm a) \<noteq> None))"

lemma wq_view:
  "wq_inv s ts ws = wq_ok (freemem s) (memhdrs s) (links s) (timer_list s) (timers s) (wq s) (taskctl s) (task_links s) ts ws"
  by (simp add: wq_inv_def wq_ok_def timer_inv_def mem_view sched_fine_def ttick_def [abs_def] conj_ac)

lemma wq_inv_mem: "wq_inv s ts ws \<Longrightarrow> mem_inv s"
  by (simp add: wq_inv_def timer_inv_def)

lemma wq_inv_alloc:
  assumes inv: "wq_inv s ts ws" and "mem_fits sz" and "0 < avail s"
  shows "\<exists>a s'. mem_alloc sz nm s = Inr (a, s') \<and> wq_inv s' ts ws \<and> a \<notin> live s \<and>
           live s' = insert a (live s) \<and> avail s' = avail s - 1 \<and> mem_rest s s'"
proof -
  obtain a s' where s': "mem_alloc sz nm s = Inr (a, s')" "mem_inv s'" "a \<notin> live s"
    "live s' = insert a (live s)" "avail s' = avail s - 1" "mem_rest s s'"
    by (rule kmem.allocE [OF wq_inv_mem [OF inv] assms(2,3)])
  from s'(6) obtain fm mh where eq: "s' = s\<lparr>freemem := fm, memhdrs := mh\<rparr>" by (auto simp: mem_rest_def)
  have "wq_inv s' ts ws" using inv s'(2,4) by (auto simp: wq_view wq_ok_def mem_view eq)
  with s' show ?thesis by blast
qed

lemma wq_push_rest:
  assumes "wq_push f arg s = Inr s'"
  shows "\<exists>fm mh wk l nx c tl. s' = s\<lparr>freemem := fm, memhdrs := mh, works := wk, wq := l, links := nx,
           taskctl := c, task_links := tl\<rparr>"
proof -
  from assms obtain a s1 where s1: "mem_alloc sizeof_work_task ''wq_task'' s = Inr (a, s1)"
    and s': "wq_append a (s1\<lparr>works := (works s1)(a := \<lparr>wt_func = f, wt_arg = arg\<rparr>)\<rparr>) = Inr s'"
    by (auto simp: wq_push_def)
  obtain fm mh where 1: "s1 = s\<lparr>freemem := fm, memhdrs := mh\<rparr>"
    using mem_alloc_rest [OF s1] by (auto simp: mem_rest_def)
  let ?s2 = "\<lambda>l nx. s1\<lparr>works := (works s1)(a := \<lparr>wt_func = f, wt_arg = arg\<rparr>), wq := l, links := nx\<rparr>"
  from s' obtain l nx where "task_wakeup WqObj (?s2 l nx) = Inr s'" by (auto simp: wq_append_def Let_def rflags_defs)
  from task_wakeup_rest [OF this] obtain c tnx where "s' = (?s2 l nx)\<lparr>taskctl := c, task_links := tnx\<rparr>"
    by (auto simp: task_rest_def)
  then show ?thesis unfolding 1 by (intro exI) simp
qed

section \<open>Properties\<close>

text \<open>What the interrupt delivers when it finds the timers \<open>ts\<close> and the queue \<open>ws\<close> in state \<open>s\<close>.\<close>

definition due_delivered :: "'a wq_state_scheme \<Rightarrow> addr list \<Rightarrow> addr list \<Rightarrow> 'a wq_state_scheme \<Rightarrow> bool" where
  "due_delivered s ts ws s' =
     (let due = takeWhile (\<lambda>a. ttick s a \<le> tick s) ts in
      tick s' = tick s \<and> live s' = live s - set due \<and>
      wq_inv s' (dropWhile (\<lambda>a. ttick s a \<le> tick s) ts) (ws @ map (\<lambda>a. the (te_arg (timers s a))) due))"

lemma int_pit_due:
  assumes "(if (tick s + 1) mod 10 = 0 then task_switch env s1 else Inr s1) = Inr s2"
    and s1: "s1 = pic_sendeoi PIT_IRQ s\<lparr>tick := tick s + 1\<rparr>" and "wq_inv s2 ts ws" and "tick s2 \<noteq> END_TICK"
  shows "\<exists>s'. int_pit env (wq_call other) s = Inr s' \<and> due_delivered s2 ts ws s'"
proof -
  have "wq_fired ws (timers s2) (live s2) [] s2 ts" using assms(3) by (simp add: wq_fired_def)
  from wq_timer.int_pit_ok [OF assms(1) s1 this assms(4), of other] show ?thesis
    by (auto simp: wq_fired_def due_delivered_def Let_def)
qed

text \<open>
  C24: the timer interrupt delivers delayed work, on every tick but one. The handler counts the tick. On a tick that is not a
  multiple of ten it returns; the items of exactly the timers that are due join the work queue, in the order of
  expiry and behind the items that were there; those timers are released and all others stay pending. On a multiple of ten it
  calls the scheduler first: when that keeps the task, the same holds, and when it switches, the same holds for the
  timers and the queue that the interrupted task finds when it runs again. On tick \<open>0xffffffff\<close> the entry that ends the list of
  timers is due too, and the handler calls its function, which is null.
\<close>

theorem int_pit_delivers:
  assumes inv: "wq_inv s ts ws"
  defines "s1 \<equiv> pic_sendeoi PIT_IRQ s\<lparr>tick := tick s + 1\<rparr>"
  shows "tick s1 = tick s + 1 \<and> timers s1 = timers s \<and> live s1 = live s \<and>
    ((tick s + 1) mod 10 \<noteq> 0 \<and> tick s + 1 \<noteq> END_TICK \<longrightarrow>
       (\<exists>s'. int_pit env (wq_call other) s = Inr s' \<and> due_delivered s1 ts ws s')) \<and>
    ((tick s + 1) mod 10 = 0 \<longrightarrow>
       (\<exists>r s2. schedule s1 = Inr (r, s2) \<and> wq_inv s2 ts ws \<and> task_rest s1 s2 \<and>
          (r = None \<longrightarrow> (\<exists>s'. int_pit env (wq_call other) s = Inr s' \<and> due_delivered s2 ts ws s')) \<and>
          (\<forall>s3 ts3 ws3. r \<noteq> None \<longrightarrow> env s2 = Inr s3 \<longrightarrow> wq_inv s3 ts3 ws3 \<longrightarrow> tick s3 \<noteq> END_TICK \<longrightarrow>
             (\<exists>s'. int_pit env (wq_call other) s = Inr s' \<and> due_delivered s3 ts3 ws3 s')))) \<and>
    (tick s + 1 = END_TICK \<longrightarrow> te_func (timers s (last ts)) = None \<longrightarrow> int_pit env (wq_call other) s = Inl NullPtr)"
proof -
  have f: "tick s1 = tick s + 1" "timers s1 = timers s" "live s1 = live s" "ttick s1 = ttick s"
    by (simp_all add: s1_def pic_sendeoi_def io_defs mem_view ttick_def fun_eq_iff)
  have i1: "wq_inv s1 ts ws" using inv by (simp add: wq_view s1_def pic_sendeoi_def io_defs)
  have "sched_fine s1" using i1 by (simp add: wq_inv_def)
  from schedule_fine [OF this] obtain r s2 where s2: "schedule s1 = Inr (r, s2)" "sched_fine s2" "task_rest s1 s2" by blast
  from s2(3) obtain c nx where e: "s2 = s1\<lparr>taskctl := c, task_links := nx\<rparr>" by (auto simp: task_rest_def)
  have i2: "wq_inv s2 ts ws" using i1 s2(2) by (simp add: wq_view wq_ok_def e sched_fine_def)
  have ten: "END_TICK mod 10 \<noteq> 0" by (simp add: END_TICK_def)
  have latest: "x \<le> END_TICK" for x using unat_u32_lt [of x] by (simp add: END_TICK_def word_le_nat_alt)
  have null: "int_pit env (wq_call other) s = Inl NullPtr" if t: "tick s + 1 = END_TICK" and "te_func (timers s (last ts)) = None"
  proof -
    have "\<forall>a \<in> set ts. ttick s1 a \<le> tick s1" unfolding f(1) t using latest by blast
    moreover have "wq_fired ws (timers s1) (live s1) [] s1 ts" using i1 by (simp add: wq_fired_def)
    ultimately have "pit_loop (wq_call other) s1 = Some (Inl NullPtr)"
      using wq_timer.pit_loop_null [of ws "timers s1" "live s1" "[]" s1 ts other] that(2) f(2) by simp
    moreover have nt: "(tick s + 1) mod 10 \<noteq> 0" unfolding t by (rule ten)
    ultimately show ?thesis unfolding int_pit_eq [OF s1_def [THEN meta_eq_to_obj_eq]] if_not_P [OF nt] by (simp add: ended_def)
  qed
  have none: "\<exists>s'. int_pit env (wq_call other) s = Inr s' \<and> due_delivered s1 ts ws s'" if "(tick s + 1) mod 10 \<noteq> 0" "tick s + 1 \<noteq> END_TICK"
    using int_pit_due [of s env s1 s1 ts ws other, OF _ s1_def [THEN meta_eq_to_obj_eq] i1] that f(1) by simp
  have "tick s2 = tick s + 1" by (simp add: e f(1))
  with ten have ne: "tick s2 \<noteq> END_TICK" if "(tick s + 1) mod 10 = 0" using that by metis
  have kept: "\<exists>s'. int_pit env (wq_call other) s = Inr s' \<and> due_delivered s2 ts ws s'" if "(tick s + 1) mod 10 = 0" "r = None"
    using int_pit_due [of s env s1 s2 ts ws other, OF _ s1_def [THEN meta_eq_to_obj_eq] i2 ne] that s2(1) by (simp add: task_switch_def)
  have switched: "\<exists>s'. int_pit env (wq_call other) s = Inr s' \<and> due_delivered s3 ts3 ws3 s'"
    if "(tick s + 1) mod 10 = 0" "r \<noteq> None" "env s2 = Inr s3" "wq_inv s3 ts3 ws3" "tick s3 \<noteq> END_TICK" for s3 ts3 ws3
    using int_pit_due [of s env s1 s3 ts3 ws3 other, OF _ s1_def [THEN meta_eq_to_obj_eq] that(4,5)] that(1-3) s2(1) by (auto simp: task_switch_def)
  have ten: "\<exists>r s2. schedule s1 = Inr (r, s2) \<and> wq_inv s2 ts ws \<and> task_rest s1 s2 \<and>
      (r = None \<longrightarrow> (\<exists>s'. int_pit env (wq_call other) s = Inr s' \<and> due_delivered s2 ts ws s')) \<and>
      (\<forall>s3 ts3 ws3. r \<noteq> None \<longrightarrow> env s2 = Inr s3 \<longrightarrow> wq_inv s3 ts3 ws3 \<longrightarrow> tick s3 \<noteq> END_TICK \<longrightarrow>
         (\<exists>s'. int_pit env (wq_call other) s = Inr s' \<and> due_delivered s3 ts3 ws3 s'))" if "(tick s + 1) mod 10 = 0"
    using s2(1,3) i2 kept [OF that] switched [OF that] by (intro exI [of _ r] exI [of _ s2] conjI) simp_all
  show ?thesis using f(1-3) null none ten by (intro conjI impI) simp_all
qed

text \<open>
  \<open>wq_push\<close> appends one item to the queue, on a block of its own, and \<open>wq_execute\<close> takes the item at
  the front and calls its function with its argument; during the call the rest of the queue is in place
  and the block is still allocated.
\<close>

theorem wq_push_execute:
  assumes "wq_inv s ts ws" and "0 < avail s"
  shows "\<exists>a s'. wq_push f arg s = Inr s' \<and> wq_inv s' ts (ws @ [a]) \<and> a \<notin> live s \<and>
           works s' a = \<lparr>wt_func = f, wt_arg = arg\<rparr> \<and>
           (\<exists>s1. wq_execute call s' =
                bindr (call (wt_func (works s' (hd (ws @ [a])))) (wt_arg (works s' (hd (ws @ [a])))) s1)
                  (mem_free (hd (ws @ [a]))) \<and>
              wq_inv s1 ts (tl (ws @ [a])) \<and> hd (ws @ [a]) \<in> live s1)"
proof -
  from wq_push_ok [OF assms, of f arg] obtain a s' where s': "wq_push f arg s = Inr s'"
    "wq_inv s' ts (ws @ [a])" "a \<notin> live s" "works s' = (works s)(a := \<lparr>wt_func = f, wt_arg = arg\<rparr>)" by blast
  have "wq_inv s' ts (hd (ws @ [a]) # tl (ws @ [a]))" using s'(2) by simp
  from wq_execute_pop [OF this, of call] s' show ?thesis by fastforce
qed

text \<open>
  \<open>wq_push_with_delay\<close> parks the item behind a timer that expires \<open>d\<close> ticks from now; it takes two
  blocks, keeps all invariants and leaves the queue itself as it is.
\<close>

theorem wq_delay_parks:
  assumes "wq_inv s ts ws" and "2 \<le> avail s" and "tick s + d \<noteq> END_TICK"
  shows "\<exists>w a s'. wq_push_with_delay f arg d s = Inr s' \<and>
           wq_inv s' (timer_insort (ttick s) (tick s + d) a ts) ws \<and>
           te_tick (timers s' a) = tick s + d \<and> te_arg (timers s' a) = Some w \<and>
           works s' w = \<lparr>wt_func = f, wt_arg = arg\<rparr> \<and> avail s' = avail s - 2"
proof -
  from wq_push_with_delay_ok [OF assms, of f arg] obtain w a s' where
    "wq_push_with_delay f arg d s = Inr s'" "wq_inv s' (timer_insort (ttick s) (tick s + d) a ts) ws"
    "avail s' = avail s - 2" "works s' = (works s)(w := \<lparr>wt_func = f, wt_arg = arg\<rparr>)"
    "timers s' = (timers s)(a := \<lparr>te_tick = tick s + d, te_func = Some WqPushTimerFunc, te_arg = Some w\<rparr>)"
    by blast
  then show ?thesis by (intro exI [of _ w] exI [of _ a] exI [of _ s']) simp
qed

end
