(* ===== verification/Keyboard.thy ===== *)
theory Keyboard
  imports Workqueue
begin

text \<open>
  \<^verbatim>\<open>kernel/core/keyboard.c\<close>: a ring buffer of 1024 bytes between the keyboard interrupt and the readers.
  The code keeps a read index, a write index and a size, and calls the buffer full at 1023 bytes.
  \<open>key_reps\<close> gives the sequence of keys a buffer holds; the buffer is a bounded first-in first-out
  queue that drops what does not fit.
\<close>

section \<open>State and operations\<close>

definition KEY_TABLE_SIZE :: nat where "KEY_TABLE_SIZE = 58"
definition KEY_BUF_LEN :: nat where "KEY_BUF_LEN = 1024"

text \<open>The scan codes \<open>0x00\<close> to \<open>0x39\<close>; a zero entry is a key the kernel ignores.\<close>

definition keytable :: "u8 list" where
  "keytable =
     [0, 0] @ map byte_of ''1234567890-'' @ [0, 0, 0] @
     map byte_of ''qwertyuiop'' @ [0, 0, 0x0a, 0] @ map byte_of ''as'' @
     map byte_of ''dfghjkl'' @ [0] @ map byte_of '':'' @ [0, 0, 0] @ map byte_of ''zxcv'' @
     map byte_of ''bnm'' @ [0] @ map byte_of ''./'' @ [0, 0, 0] @ map byte_of '' ''"

record keyring =
  key_buf :: "u8 list"
  key_buf_read :: nat
  key_buf_write :: nat
  key_buf_size :: nat

record key_state = wq_state +
  keys :: keyring

definition key_buf_empty :: "keyring \<Rightarrow> bool" where
  "key_buf_empty r = (key_buf_size r = 0)"

definition key_buf_full :: "keyring \<Rightarrow> bool" where
  "key_buf_full r = (key_buf_size r = KEY_BUF_LEN - 1)"

definition key_buf_push :: "u8 \<Rightarrow> keyring \<Rightarrow> keyring res" where
  "key_buf_push key r =
     (if \<not> key_buf_full r
      then bindr (arr_set (key_buf r) (key_buf_write r) key) (\<lambda>b.
             Inr (r\<lparr>key_buf := b, key_buf_write := (key_buf_write r + 1) mod KEY_BUF_LEN,
                    key_buf_size := key_buf_size r + 1\<rparr>))
      else Inr r)"

definition key_buf_pop :: "keyring \<Rightarrow> (u8 \<times> keyring) res" where
  "key_buf_pop r =
     (if \<not> key_buf_empty r
      then bindr (arr_get (key_buf r) (key_buf_read r)) (\<lambda>ret.
             Inr (ret, r\<lparr>key_buf_read := (key_buf_read r + 1) mod KEY_BUF_LEN,
                         key_buf_size := key_buf_size r - 1\<rparr>))
      else Inr (0, r))"

text \<open>The scan code \<open>ch\<close> is what \<open>io_in8 (0x0060)\<close> returns.\<close>

definition int_keyboard :: "u8 \<Rightarrow> 'a key_state_scheme \<Rightarrow> 'a key_state_scheme res" where
  "int_keyboard ch s =
     bindr (if unat ch < KEY_TABLE_SIZE
            then bindr (arr_get keytable (unat ch)) (\<lambda>key.
                   if key \<noteq> 0
                   then bindr (key_buf_push key (keys s)) (\<lambda>r. task_wakeup KeyCond (s\<lparr>keys := r\<rparr>))
                   else Inr s)
            else Inr s) (\<lambda>s1.
     Inr (pic_sendeoi KEYBOARD_IRQ s1))"

definition key_getc ::
  "('a key_state_scheme \<Rightarrow> 'a key_state_scheme res) \<Rightarrow> bool \<Rightarrow> 'a key_state_scheme
    \<Rightarrow> (u8 \<times> 'a key_state_scheme) res" where
  "key_getc env is_blocking s =
     (if key_buf_empty (keys s) \<and> \<not> is_blocking then Inr (0, s)
      else
        bindr (if key_buf_empty (keys s) then task_sleep env KeyCond s else Inr s) (\<lambda>s1.
        bindr (key_buf_pop (keys s1)) (\<lambda>(ret, r). Inr (ret, s1\<lparr>keys := r\<rparr>))))"

definition init_keyboard :: "u64 \<Rightarrow> 'a key_state_scheme \<Rightarrow> 'a key_state_scheme" where
  "init_keyboard asm_int_keyboard s =
     (let s1 = register_interrupt KEYBOARD_IRQ asm_int_keyboard s;
          s2 = s1\<lparr>keys := (keys s1)\<lparr>key_buf_read := 0, key_buf_write := 0, key_buf_size := 0\<rparr>\<rparr>
      in printstr_log (''Initialized keyboard'' @ nl) s2)"

section \<open>The queue the ring stands for\<close>

definition key_at :: "keyring \<Rightarrow> nat \<Rightarrow> u8" where
  "key_at r i = key_buf r ! ((key_buf_read r + i) mod KEY_BUF_LEN)"

definition key_content :: "keyring \<Rightarrow> u8 list" where
  "key_content r = map (key_at r) [0..<key_buf_size r]"

definition key_inv :: "keyring \<Rightarrow> bool" where
  "key_inv r =
     (length (key_buf r) = KEY_BUF_LEN \<and> key_buf_read r < KEY_BUF_LEN \<and>
      key_buf_size r < KEY_BUF_LEN \<and> key_buf_write r = (key_buf_read r + key_buf_size r) mod KEY_BUF_LEN)"

definition key_reps :: "keyring \<Rightarrow> u8 list \<Rightarrow> bool" where
  "key_reps r xs = (key_inv r \<and> key_content r = xs)"

lemma key_content_length [simp]: "length (key_content r) = key_buf_size r"
  by (simp add: key_content_def)

lemma ring_slots_distinct:
  assumes "i < j" and "j < KEY_BUF_LEN"
  shows "(a + i) mod KEY_BUF_LEN \<noteq> (a + j) mod KEY_BUF_LEN"
proof
  assume "(a + i) mod KEY_BUF_LEN = (a + j) mod KEY_BUF_LEN"
  then have "KEY_BUF_LEN dvd (a + j) - (a + i)" by (metis mod_eq_dvd_iff_nat assms(1) nat_add_left_cancel_le less_imp_le)
  with assms show False by (auto dest: dvd_imp_le)
qed

lemma key_push_room:
  assumes inv: "key_inv r" and room: "key_buf_size r < KEY_BUF_LEN - 1"
  shows "\<exists>r'. key_buf_push x r = Inr r' \<and> key_inv r' \<and> key_content r' = key_content r @ [x]"
proof -
  let ?w = "(key_buf_read r + key_buf_size r) mod KEY_BUF_LEN"
  let ?r = "r\<lparr>key_buf := (key_buf r)[?w := x], key_buf_write := (?w + 1) mod KEY_BUF_LEN,
              key_buf_size := key_buf_size r + 1\<rparr>"
  have w: "?w < length (key_buf r)" "key_buf_write r = ?w" using inv by (auto simp: key_inv_def KEY_BUF_LEN_def)
  then have call: "key_buf_push x r = Inr ?r"
    using room by (simp add: key_buf_push_def key_buf_full_def)
  have "key_inv ?r" using inv room by (auto simp: key_inv_def mod_simps KEY_BUF_LEN_def)
  moreover have "key_at ?r i = key_at r i" if "i < key_buf_size r" for i
    using ring_slots_distinct [OF that, of "key_buf_read r"] room w(1)
    by (simp add: key_at_def nth_list_update KEY_BUF_LEN_def)
  moreover have "key_at ?r (key_buf_size r) = x" using w(1) by (simp add: key_at_def)
  ultimately show ?thesis using call by (auto simp: key_content_def)
qed

lemma key_push_full: "key_inv r \<Longrightarrow> key_buf_size r = KEY_BUF_LEN - 1 \<Longrightarrow> key_buf_push x r = Inr r"
  by (simp add: key_buf_push_def key_buf_full_def)

lemma key_pop_Cons:
  assumes inv: "key_inv r" and c: "key_content r = x # xs"
  shows "\<exists>r'. key_buf_pop r = Inr (x, r') \<and> key_inv r' \<and> key_content r' = xs"
proof -
  let ?r = "r\<lparr>key_buf_read := (key_buf_read r + 1) mod KEY_BUF_LEN, key_buf_size := key_buf_size r - 1\<rparr>"
  have n: "key_buf_size r = Suc (length xs)" using c by (metis key_content_length length_Cons)
  then have split: "[0..<key_buf_size r] = 0 # map Suc [0..<length xs]"
    by (simp add: upt_conv_Cons map_Suc_upt del: upt_Suc)
  have x: "key_at r 0 = x" and xs: "map (key_at r \<circ> Suc) [0..<length xs] = xs"
    using c unfolding key_content_def split by auto
  have "key_buf_pop r = Inr (x, ?r)"
    using inv n x by (auto simp: key_buf_pop_def key_buf_empty_def key_inv_def key_at_def)
  moreover have "key_inv ?r" using inv n by (auto simp: key_inv_def mod_simps KEY_BUF_LEN_def)
  moreover have "key_at ?r = key_at r \<circ> Suc" by (simp add: key_at_def mod_simps fun_eq_iff)
  then have "key_content ?r = xs" using n xs by (simp add: key_content_def)
  ultimately show ?thesis by blast
qed

section \<open>A bounded queue\<close>

text \<open>A queue of fixed capacity that ignores what does not fit.\<close>

locale bounded_queue = fifo_queue is_empty push pop reps can
  for is_empty :: "'q \<Rightarrow> bool" and push :: "'p \<Rightarrow> 'q \<Rightarrow> 'q res" and pop :: "'q \<Rightarrow> ('p option \<times> 'q) res"
    and reps :: "'q \<Rightarrow> 'p list \<Rightarrow> bool" and can :: "'p \<Rightarrow> 'p list \<Rightarrow> bool" +
  fixes cap :: nat
  assumes can_iff: "can x xs = (length xs < cap)"
    and push_full: "reps q xs \<Longrightarrow> cap \<le> length xs \<Longrightarrow> push x q = Inr q"
begin

lemma push_all_bounded:
  "reps q ys \<Longrightarrow> length ys \<le> cap \<Longrightarrow> \<exists>q'. push_all push xs q = Inr q' \<and> reps q' (take cap (ys @ xs))"
proof (induction xs arbitrary: q ys)
  case Nil
  then show ?case by simp
next
  case (Cons x xs)
  show ?case
  proof (cases "length ys < cap")
    case True
    then obtain q1 where q1: "push x q = Inr q1" "reps q1 (ys @ [x])"
      using push_reps [OF Cons.prems(1)] can_iff by blast
    with Cons.IH [of q1 "ys @ [x]"] True show ?thesis by auto
  next
    case False
    then have "push x q = Inr q" using push_full Cons.prems(1) by simp
    moreover have "take cap (ys @ x # xs) = take cap (ys @ xs)" using False by simp
    ultimately show ?thesis using Cons.IH [OF Cons.prems] by simp
  qed
qed

text \<open>A burst of arrivals comes out in order, cut off at the capacity.\<close>

lemma burst:
  assumes "reps q []"
  shows "\<exists>q1 q2. push_all push xs q = Inr q1 \<and> pop_n pop (min cap (length xs)) q1 = Inr (take cap xs, q2) \<and> reps q2 []"
proof -
  from push_all_bounded [OF assms, of xs] obtain q1 where
    q1: "push_all push xs q = Inr q1" "reps q1 (take cap xs @ [])" by auto
  from pop_n_reps [OF q1(2)] q1(1) show ?thesis by (auto simp: min.commute)
qed

end

definition key_ring_pop :: "keyring \<Rightarrow> (u8 option \<times> keyring) res" where
  "key_ring_pop r =
     (if key_buf_empty r then Inr (None, r)
      else bindr (key_buf_pop r) (\<lambda>(x, r1). Inr (Some x, r1)))"

lemma key_empty_iff: "key_buf_empty r = (key_content r = [])"
  by (simp add: key_buf_empty_def key_content_def)

definition key_can :: "u8 \<Rightarrow> u8 list \<Rightarrow> bool" where
  "key_can x xs = (length xs < KEY_BUF_LEN - 1)"

interpretation keyring: bounded_queue key_buf_empty key_buf_push key_ring_pop key_reps key_can "KEY_BUF_LEN - 1"
proof unfold_locales
  fix q :: keyring and xs x
  show "key_buf_empty q = (xs = [])" if "key_reps q xs"
    using that by (auto simp: key_reps_def key_buf_empty_def key_content_def)
  show "\<exists>q'. key_buf_push x q = Inr q' \<and> key_reps q' (xs @ [x])" if "key_reps q xs" "key_can x xs"
    using that key_push_room [of q x] by (auto simp: key_reps_def key_can_def)
  show "\<exists>q'. key_ring_pop q = Inr (Some x, q') \<and> key_reps q' xs" if "key_reps q (x # xs)"
    using that key_pop_Cons [of q x xs]
    by (auto simp: key_reps_def key_ring_pop_def key_empty_iff)
  show "key_ring_pop q = Inr (None, q)" if "key_reps q []"
    using that by (auto simp: key_reps_def key_ring_pop_def key_buf_empty_def key_content_def)
  show "key_can x xs = (length xs < KEY_BUF_LEN - 1)" by (simp add: key_can_def)
  show "key_buf_push x q = Inr q" if "key_reps q xs" "KEY_BUF_LEN - 1 \<le> length xs"
  proof (rule key_push_full)
    show "key_inv q" using that by (simp add: key_reps_def)
    then show "key_buf_size q = KEY_BUF_LEN - 1" using that by (auto simp: key_reps_def key_inv_def)
  qed
qed

section \<open>From scan codes to characters\<close>

definition decode_key :: "u8 \<Rightarrow> u8 option" where
  "decode_key ch =
     (if unat ch < KEY_TABLE_SIZE \<and> keytable ! unat ch \<noteq> 0 then Some (keytable ! unat ch) else None)"

lemma keytable_length: "length keytable = KEY_TABLE_SIZE"
  by (simp add: keytable_def KEY_TABLE_SIZE_def)

lemma int_keyboard_ok:
  assumes r: "key_reps (keys s) xs" and sched: "sched_fine s"
  shows "\<exists>s'. int_keyboard ch s = Inr s' \<and> sched_fine s' \<and> rflags s' = rflags s \<and>
           io_log s' = io_log s @ [Out8 0x20 0x20] \<and>
           key_reps (keys s') (case decode_key ch of None \<Rightarrow> xs | Some c \<Rightarrow> take (KEY_BUF_LEN - 1) (xs @ [c]))"
proof (cases "decode_key ch")
  case None
  then have "int_keyboard ch s = Inr (pic_sendeoi KEYBOARD_IRQ s)"
    using keytable_length by (auto simp: int_keyboard_def decode_key_def split: if_splits)
  with None assms show ?thesis by (simp add: pic_sendeoi_def KEYBOARD_IRQ_def io_defs sched_fine_def)
next
  case (Some c)
  then have c: "unat ch < KEY_TABLE_SIZE" "keytable ! unat ch = c" "c \<noteq> 0"
    by (auto simp: decode_key_def split: if_splits)
  have "length xs \<le> KEY_BUF_LEN - 1" using r by (auto simp: key_reps_def key_inv_def)
  then obtain r' where r': "key_buf_push c (keys s) = Inr r'"
    "key_reps r' (take (KEY_BUF_LEN - 1) (xs @ [c]))"
    using keyring.push_all_bounded [OF r, of "[c]"] by (auto simp: bindr_eq_Inr)
  have "sched_fine (s\<lparr>keys := r'\<rparr>)" using sched by (simp add: sched_fine_def)
  then obtain s1 where s1: "task_wakeup KeyCond (s\<lparr>keys := r'\<rparr>) = Inr s1" "sched_fine s1"
    "task_rest (s\<lparr>keys := r'\<rparr>) s1" using task_wakeup_fine by blast
  from s1(3) obtain tc tl where eq: "s1 = s\<lparr>keys := r', taskctl := tc, task_links := tl\<rparr>"
    by (auto simp: task_rest_def)
  have "int_keyboard ch s = Inr (pic_sendeoi KEYBOARD_IRQ s1)"
    using c r'(1) s1(1) keytable_length by (simp add: int_keyboard_def)
  with Some r'(2) s1(2) show ?thesis
    by (simp add: pic_sendeoi_def KEYBOARD_IRQ_def io_defs sched_fine_def eq)
qed

lemma key_getc_ready:
  assumes "key_reps (keys s) (x # xs)"
  shows "\<exists>r. key_getc env b s = Inr (x, s\<lparr>keys := r\<rparr>) \<and> key_reps r xs"
proof -
  have "\<not> key_buf_empty (keys s)" using keyring.is_empty_reps [OF assms] by simp
  with key_pop_Cons [of "keys s" x xs] assms show ?thesis by (auto simp: key_getc_def key_reps_def)
qed

lemma key_getc_empty: "key_reps (keys s) [] \<Longrightarrow> key_getc env False s = Inr (0, s)"
  using keyring.is_empty_reps [of "keys s" "[]"] by (simp add: key_getc_def)

lemma init_keyboard_ok:
  assumes "length (key_buf (keys s)) = KEY_BUF_LEN"
  shows "key_reps (keys (init_keyboard h s)) []"
  using assms by (simp add: init_keyboard_def printstr_log_eq register_interrupt_def pic_clearmask_def
      set_idt_def io_defs key_reps_def key_inv_def key_content_def KEY_BUF_LEN_def Let_def)

section \<open>Properties\<close>

text \<open>
  C30: the key buffer is a bounded queue. Starting empty, pushing the bytes \<open>xs\<close> and then popping returns
  the first 1023 of them in order; what does not fit is dropped and never corrupts the buffer.
\<close>

theorem key_ring_bounded_fifo:
  assumes "key_reps r []"
  shows "\<exists>r1 r2. push_all key_buf_push xs r = Inr r1 \<and>
           pop_n key_ring_pop (min 1023 (length xs)) r1 = Inr (take 1023 xs, r2) \<and> key_reps r2 []"
  using keyring.burst [OF assms, of xs] by (simp add: KEY_BUF_LEN_def)

text \<open>
  The keyboard interrupt never faults: a scan code with a character appends that character unless the
  buffer is full, any other scan code changes nothing, and the interrupt is acknowledged exactly once.
\<close>

theorem int_keyboard_appends:
  assumes "key_reps (keys s) xs" and "sched_fine s"
  shows "\<exists>s'. int_keyboard ch s = Inr s' \<and> sched_fine s' \<and> io_log s' = io_log s @ [Out8 0x20 0x20] \<and>
           key_reps (keys s') (case decode_key ch of None \<Rightarrow> xs | Some c \<Rightarrow> take 1023 (xs @ [c]))"
  using int_keyboard_ok [OF assms, of ch] by (auto simp: KEY_BUF_LEN_def split: option.splits)

end
