(* ===== verification/Netutil.thy ===== *)
theory Netutil
  imports Keyboard
begin

text \<open>
  \<^verbatim>\<open>kernel/net/netutil.c\<close>, and the access to packet memory every protocol uses. Headers are overlays on
  the byte memory: a 16- or 32-bit field is read and written in little-endian order, as the processor
  does, and the code swaps bytes explicitly to and from network order. The lemmas show that the swaps
  are involutions that agree with the order of bytes on the wire, and that the checksum is the
  ones'-complement sum of the Internet protocols: a block that holds its own checksum sums to zero.
\<close>

section \<open>Fields in memory\<close>

definition rd16 :: "bytes \<Rightarrow> addr \<Rightarrow> u16" where
  "rd16 m a = ucast (m a) OR push_bit 8 (ucast (m (a + 1)))"

definition rd32 :: "bytes \<Rightarrow> addr \<Rightarrow> u32" where
  "rd32 m a = ucast (rd16 m a) OR push_bit 16 (ucast (rd16 m (a + 2)))"

definition wr8 :: "addr \<Rightarrow> u8 \<Rightarrow> bytes \<Rightarrow> bytes" where
  "wr8 a v m = m(a := v)"

definition wr16 :: "addr \<Rightarrow> u16 \<Rightarrow> bytes \<Rightarrow> bytes" where
  "wr16 a v m = m(a := ucast v, a + 1 := ucast (drop_bit 8 v))"

definition wr32 :: "addr \<Rightarrow> u32 \<Rightarrow> bytes \<Rightarrow> bytes" where
  "wr32 a v m = wr16 (a + 2) (ucast (drop_bit 16 v)) (wr16 a (ucast v) m)"

fun wr_list :: "addr \<Rightarrow> u8 list \<Rightarrow> bytes \<Rightarrow> bytes" where
  "wr_list a [] m = m"
| "wr_list a (x # xs) m = wr_list (a + 1) xs (m(a := x))"

section \<open>Byte order and checksum\<close>

definition reverse16 :: "u16 \<Rightarrow> u16" where
  "reverse16 w = drop_bit 8 w OR push_bit 8 (w AND 0xff)"

definition hton16 :: "u16 \<Rightarrow> u16" where "hton16 w = reverse16 w"

definition ntoh16 :: "u16 \<Rightarrow> u16" where "ntoh16 w = reverse16 w"

definition reverse32 :: "u32 \<Rightarrow> u32" where
  "reverse32 w =
     (let r0 = 0 + (w AND 0xff);
          r1 = push_bit 8 r0 + (drop_bit 8 w AND 0xff);
          r2 = push_bit 8 r1 + (drop_bit 16 w AND 0xff)
      in push_bit 8 r2 + (drop_bit 24 w AND 0xff))"

definition ntoh32 :: "u32 \<Rightarrow> u32" where "ntoh32 w = reverse32 w"

definition hton32 :: "u32 \<Rightarrow> u32" where "hton32 w = reverse32 w"

text \<open>\<open>sum += x; if (sum >> 16) sum = (sum & 0xffff) + (sum >> 16);\<close>\<close>

definition cks_add :: "u32 \<Rightarrow> u32 \<Rightarrow> u32" where
  "cks_add acc x =
     (let s = acc + x in if drop_bit 16 s \<noteq> 0 then (s AND 0xffff) + drop_bit 16 s else s)"

fun checksum_loop :: "nat \<Rightarrow> nat \<Rightarrow> addr \<Rightarrow> u32 \<Rightarrow> bytes \<Rightarrow> u32" where
  "checksum_loop 0 i data acc m = acc"
| "checksum_loop (Suc n) i data acc m =
     checksum_loop n (Suc i) data (cks_add acc (ucast (rd16 m (data + of_nat (2 * i))))) m"

definition checksum :: "addr \<Rightarrow> u16 \<Rightarrow> bytes \<Rightarrow> u16" where
  "checksum data len m =
     (let acc = checksum_loop (unat len div 2) 0 data 0 m;
          acc1 = (if unat len mod 2 = 1 then cks_add acc (ucast (m (data + of_nat (unat len - 1)))) else acc)
      in ucast (NOT acc1 AND 0xffff))"

section \<open>Lemmas on fields\<close>

lemma net_mask_words: "(0xff :: u16) = mask 8" "(0xff :: u32) = mask 8" "(0xffff :: u32) = mask 16"
  by (simp_all add: mask_eq_exp_minus_1)

lemma reverse16_reverse16 [simp]: "reverse16 (reverse16 w) = w"
  unfolding reverse16_def net_mask_words
  by (rule word_eq_fields2 [of 8]) (auto simp: bit_simps dest: bit_imp_le_length)

lemma rd16_wr16 [simp]: "rd16 (wr16 a v m) a = v"
  unfolding rd16_def wr16_def by (rule word_eq_fields2 [of 8]) (auto simp: bit_simps dest: bit_imp_le_length)

text \<open>A swapped field is laid out in memory with its high byte first.\<close>

lemma wr16_hton16: "wr16 a (hton16 v) m = m(a := ucast (drop_bit 8 v), a + 1 := ucast v)"
proof -
  have "(ucast (reverse16 v) :: u8) = ucast (drop_bit 8 v)"
    unfolding reverse16_def net_mask_words by (rule bit_word_eqI) (auto simp: bit_simps dest: bit_imp_le_length)
  moreover have "(ucast (drop_bit 8 (reverse16 v)) :: u8) = ucast v"
    unfolding reverse16_def net_mask_words by (rule bit_word_eqI) (auto simp: bit_simps dest: bit_imp_le_length)
  ultimately show ?thesis by (simp add: wr16_def hton16_def)
qed

lemma shift_add: "push_bit 8 x + (y AND 0xff) = push_bit 8 x OR (y AND (0xff :: u32))"
  unfolding net_mask_words by (rule disjunctive_add_eq_or) (rule bit_word_eqI, auto simp: bit_simps)

lemma reverse32_or:
  "reverse32 w = push_bit 24 (w AND 0xff) OR push_bit 16 (drop_bit 8 w AND 0xff) OR
     push_bit 8 (drop_bit 16 w AND 0xff) OR (drop_bit 24 w AND 0xff)"
  unfolding reverse32_def Let_def shift_add by (simp add: push_bit_or or.assoc)

lemma reverse32_reverse32 [simp]: "reverse32 (reverse32 w) = w"
  unfolding reverse32_or net_mask_words
  by (rule word_eq_fields4 [of 8 _ _ 8 8]) (auto simp: bit_simps dest: bit_imp_le_length)

lemma rd32_wr32 [simp]: "rd32 (wr32 a v m) a = v"
proof -
  have far: "a + 1 \<noteq> a + 2" "a \<noteq> a + 3" "a + 1 \<noteq> a + 3" "a \<noteq> a + 2" by simp_all
  have "rd16 (wr32 a v m) (a + 2) = ucast (drop_bit 16 v)" by (simp add: wr32_def)
  moreover have "rd16 (wr32 a v m) a = ucast v"
  proof -
    have "rd16 (wr32 a v m) a = rd16 (wr16 a (ucast v) m) a"
      unfolding wr32_def rd16_def wr16_def using far by (simp add: add.assoc)
    then show ?thesis by simp
  qed
  ultimately show ?thesis unfolding rd32_def
    by (intro word_eq_fields2 [of 16]) (auto simp: bit_simps dest: bit_imp_le_length)
qed

lemma ntoh_hton [simp]: "ntoh16 (hton16 w) = w" "ntoh32 (hton32 v) = v" "hton16 (ntoh16 w) = w" "hton32 (ntoh32 v) = v"
  by (simp_all add: ntoh16_def hton16_def ntoh32_def hton32_def)

section \<open>The checksum is the ones'-complement sum\<close>

text \<open>
  The ones'-complement value of a sum of 16-bit words: the residue modulo 65535, with 65535 in the
  place of 0 for every positive sum.
\<close>

definition ocsum :: "nat \<Rightarrow> nat" where
  "ocsum t = (if t = 0 then 0 else (t - 1) mod 65535 + 1)"

definition cks_words :: "bytes \<Rightarrow> addr \<Rightarrow> nat \<Rightarrow> nat list" where
  "cks_words m a n = map (\<lambda>i. unat (rd16 m (a + of_nat (2 * i)))) [0..<n div 2] @
     (if n mod 2 = 1 then [unat (m (a + of_nat (n - 1)))] else [])"

lemma ocsum_le: "ocsum t \<le> 65535"
  by (simp add: ocsum_def Suc_le_eq)

lemma ocsum_add:
  assumes "x \<le> 65535"
  shows "ocsum (t + x) = (if ocsum t + x > 65535 then ocsum t + x - 65535 else ocsum t + x)"
proof (cases "t = 0")
  case True
  with assms show ?thesis by (auto simp: ocsum_def mod_if)
next
  case False
  let ?r = "(t - 1) mod 65535"
  have "(t + x - 1) mod 65535 = (?r + x) mod 65535"
    using False by (metis Nat.add_diff_assoc2 One_nat_def Suc_leI mod_add_left_eq not_gr_zero)
  moreover have "?r < 65535" by simp
  then have "(?r + x) mod 65535 = (if ?r + x < 65535 then ?r + x else ?r + x - 65535)"
    using assms by (auto simp: le_mod_geq)
  ultimately have o2: "ocsum (t + x) = (if ?r + x < 65535 then ?r + x else ?r + x - 65535) + 1"
    using False by (simp add: ocsum_def)
  have o1: "ocsum t = ?r + 1" using False by (simp add: ocsum_def)
  show ?thesis unfolding o1 o2 by (cases "?r + x < 65535") simp_all
qed

lemma unat_cks_add:
  assumes "unat acc \<le> 65535" and "unat x \<le> 65535"
  shows "unat (cks_add acc x) = (if unat acc + unat x > 65535 then unat acc + unat x - 65535 else unat acc + unat x)"
proof -
  let ?s = "acc + x"
  have s: "unat ?s = unat acc + unat x" using assms by (subst unat_add_lem [THEN iffD1]) auto
  have hi: "unat (drop_bit 16 ?s) = unat ?s div 65536" by (simp add: unat_div drop_bit_eq_div)
  have lo: "unat (?s AND 0xffff) = unat ?s mod 65536"
    unfolding net_mask_words by (simp add: unat_mod take_bit_eq_mod flip: take_bit_eq_mask)
  show ?thesis
  proof (cases "unat ?s \<le> 65535")
    case True
    then have "drop_bit 16 ?s = 0" using hi by (simp flip: unat_eq_0)
    with True s show ?thesis by (simp add: cks_add_def)
  next
    case False
    then have d: "unat ?s div 65536 = 1" "unat ?s mod 65536 = unat ?s - 65536"
      using s assms by (auto simp: le_mod_geq)
    then have "drop_bit 16 ?s \<noteq> 0" using hi by auto
    moreover have "unat ((?s AND 0xffff) + drop_bit 16 ?s) = unat ?s - 65536 + 1"
      using d hi lo s assms by (subst unat_add_lem [THEN iffD1]) auto
    ultimately show ?thesis using False s by (simp add: cks_add_def Let_def)
  qed
qed

lemma unat_ucast16: "unat (ucast (w :: u16) :: u32) = unat w" "unat (w :: u16) \<le> 65535"
  using unsigned_less [of w, where ?'a = nat] by (simp_all add: unsigned_ucast_eq take_bit_nat_eq_self)

lemma unat_ucast8: "unat (ucast (w :: u8) :: u32) = unat w" "unat (w :: u8) \<le> 255"
  using unsigned_less [of w, where ?'a = nat] by (simp_all add: unsigned_ucast_eq take_bit_nat_eq_self)

lemma cks_add_ocsum: "unat acc = ocsum t \<Longrightarrow> unat x \<le> 65535 \<Longrightarrow> unat (cks_add acc x) = ocsum (t + unat x)"
  by (simp add: unat_cks_add ocsum_add ocsum_le)

lemma checksum_loop_ocsum:
  assumes "unat acc = ocsum t"
  shows "unat (checksum_loop n i data acc m) =
           ocsum (t + sum_list (map (\<lambda>j. unat (rd16 m (data + of_nat (2 * j)))) [i..<i + n]))"
  using assms
proof (induction n arbitrary: i acc t)
  case 0
  then show ?case by simp
next
  case (Suc n)
  let ?w = "rd16 m (data + of_nat (2 * i))"
  have "unat (cks_add acc (ucast ?w)) = ocsum (t + unat ?w)"
    using cks_add_ocsum [OF Suc.prems, of "ucast ?w"] unat_ucast16 [of ?w] by simp
  from Suc.IH [OF this, of "Suc i"] show ?case
    by (simp add: upt_conv_Cons [of i] add.assoc del: upt_Suc)
qed

lemma complement_mod: "u \<le> 65535 \<Longrightarrow> (4294967295 - u) mod 65536 = 65535 - (u :: nat)"
proof -
  assume "u \<le> 65535"
  then have "4294967295 - u = (65535 - u) + 65535 * 65536" by simp
  then have "(4294967295 - u) mod 65536 = (65535 - u) mod 65536" by (metis mod_mult_self1)
  then show ?thesis by simp
qed

lemma checksum_ocsum: "unat (checksum a len m) = 65535 - ocsum (sum_list (cks_words m a (unat len)))"
proof -
  let ?n = "unat len"
  let ?l = "checksum_loop (?n div 2) 0 a 0 m"
  let ?b = "m (a + of_nat (?n - 1))"
  let ?s = "if ?n mod 2 = 1 then cks_add ?l (ucast ?b) else ?l"
  have "unat ?l = ocsum (sum_list (map (\<lambda>j. unat (rd16 m (a + of_nat (2 * j)))) [0..<?n div 2]))"
    using checksum_loop_ocsum [of 0 0 "?n div 2" 0] by (simp add: ocsum_def)
  then have s: "unat ?s = ocsum (sum_list (cks_words m a ?n))"
    using cks_add_ocsum [of ?l _ "ucast ?b"] unat_ucast8 [of ?b] by (auto simp: cks_words_def)
  then have le: "unat ?s \<le> 65535" using ocsum_le by metis
  have "?s \<le> - 1" by simp
  moreover have "NOT ?s = - 1 - ?s" by (simp add: not_eq_complement)
  moreover have "unat (- 1 :: u32) = 4294967295" by (simp add: unsigned_minus_1_eq_mask mask_eq_exp_minus_1)
  ultimately have "unat (NOT ?s) = 4294967295 - unat ?s" by (simp only: unat_sub)
  moreover have "(4294967295 - unat ?s) mod 65536 = 65535 - unat ?s" by (rule complement_mod [OF le])
  ultimately have "unat (NOT ?s AND 0xffff) = 65535 - unat ?s"
    unfolding net_mask_words by (simp add: unat_mod take_bit_eq_mod flip: take_bit_eq_mask)
  then show ?thesis using s
    by (simp add: checksum_def Let_def unsigned_ucast_eq take_bit_nat_eq_self_iff less_imp_diff_less)
qed

text \<open>A block that holds its own checksum in one of its 16-bit words sums to all ones, so it checks to 0.\<close>

lemma ocsum_complement: "ocsum (t + (65535 - ocsum t)) = 65535"
proof -
  have le: "ocsum t \<le> 65535" by (rule ocsum_le)
  then have "ocsum (t + (65535 - ocsum t)) =
      (if ocsum t + (65535 - ocsum t) > 65535 then ocsum t + (65535 - ocsum t) - 65535
       else ocsum t + (65535 - ocsum t))"
    by (intro ocsum_add) simp
  with le show ?thesis by simp
qed

lemma rd16_wr16_other: "b \<noteq> a \<Longrightarrow> b + 1 \<noteq> a \<Longrightarrow> b \<noteq> a + 1 \<Longrightarrow> rd16 (wr16 a v m) b = rd16 m b"
  by (simp add: rd16_def wr16_def)

lemma add_of_nat_neq:
  assumes "i < 65536" and "j < 65536" and "i \<noteq> j"
  shows "(a :: addr) + of_nat i \<noteq> a + of_nat j"
  using assms of_nat64_eq_iff [of i j] by simp

lemma cks_words_wr16:
  assumes "k < n div 2" and "n < 65536"
  shows "cks_words (wr16 (a + of_nat (2 * k)) v m) a n = (cks_words m a n)[k := unat v]"
proof -
  let ?m = "wr16 (a + of_nat (2 * k)) v m"
  have word: "rd16 ?m (a + of_nat (2 * i)) = (if i = k then v else rd16 m (a + of_nat (2 * i)))"
    if "i < n div 2" for i
  proof (cases "i = k")
    case False
    have "a + of_nat (2 * i) \<noteq> a + of_nat (2 * k)" "a + of_nat (2 * i + 1) \<noteq> a + of_nat (2 * k)"
      "a + of_nat (2 * i) \<noteq> a + of_nat (2 * k + 1)"
      using that assms False by (intro add_of_nat_neq; presburger)+
    then show ?thesis using False by (subst rd16_wr16_other) (simp_all add: ac_simps)
  qed simp
  have tail: "?m (a + of_nat (n - 1)) = m (a + of_nat (n - 1))" if "n mod 2 = 1"
  proof -
    have "a + of_nat (n - 1) \<noteq> a + of_nat (2 * k)" "a + of_nat (n - 1) \<noteq> a + of_nat (2 * k + 1)"
      using that assms by (intro add_of_nat_neq; presburger)+
    then show ?thesis by (simp add: wr16_def ac_simps)
  qed
  have "map (\<lambda>i. unat (rd16 ?m (a + of_nat (2 * i)))) [0..<n div 2] =
      (map (\<lambda>i. unat (rd16 m (a + of_nat (2 * i)))) [0..<n div 2])[k := unat v]"
    using assms(1) word by (intro nth_equalityI) (auto simp: nth_list_update)
  with tail assms(1) show ?thesis by (simp add: cks_words_def list_update_append)
qed

lemma checksum_verifies:
  assumes "k < unat len div 2" and "rd16 m (a + of_nat (2 * k)) = 0"
  shows "checksum a len (wr16 (a + of_nat (2 * k)) (checksum a len m) m) = 0"
proof -
  let ?n = "unat len"
  let ?ws = "cks_words m a ?n"
  let ?c = "checksum a len m"
  have n: "?n < 65536" using unsigned_less [of len, where ?'a = nat] by simp
  have k: "k < length ?ws" "?ws ! k = 0" using assms by (auto simp: cks_words_def nth_append)
  then have "sum_list (?ws[k := unat ?c]) = sum_list ?ws + unat ?c" by (simp add: sum_list_update)
  then have "sum_list (cks_words (wr16 (a + of_nat (2 * k)) ?c m) a ?n) =
      sum_list ?ws + (65535 - ocsum (sum_list ?ws))"
    using cks_words_wr16 [OF assms(1) n] by (simp add: checksum_ocsum)
  then have "unat (checksum a len (wr16 (a + of_nat (2 * k)) ?c m)) = 0"
    by (simp only: checksum_ocsum ocsum_complement)
  then show ?thesis by (simp add: unat_eq_0)
qed

section \<open>Properties\<close>

text \<open>
  The byte swaps are their own inverses, and a field stored in network order lies in memory with its
  most significant byte first.
\<close>

theorem byte_order_roundtrip:
  "ntoh16 (hton16 w) = w \<and> ntoh32 (hton32 v) = v \<and>
   wr16 a (hton16 w) m = m(a := ucast (drop_bit 8 w), a + 1 := ucast w)"
  using wr16_hton16 by simp

text \<open>
  \<open>checksum\<close> is the Internet checksum: it is the complement of the ones'-complement sum of the 16-bit
  words of the block, the last odd byte counted as a word.
\<close>

theorem checksum_is_ones_complement:
  "unat (checksum a len m) = 65535 - ocsum (sum_list (cks_words m a (unat len)))"
  by (rule checksum_ocsum)

text \<open>
  A sender that clears a checksum field, computes the checksum of the block and stores it in the field
  produces a block whose checksum is 0, which is what a receiver checks.
\<close>

theorem checksum_accepted:
  assumes "k < unat len div 2" and "rd16 m (a + of_nat (2 * k)) = 0"
  shows "checksum a len (wr16 (a + of_nat (2 * k)) (checksum a len m) m) = 0"
  using assms by (rule checksum_verifies)

end
