(* ===== verification/Netdev.thy ===== *)
theory Netdev
  imports Netutil
begin

text \<open>
  \<^verbatim>\<open>kernel/core/pci.c\<close>, \<^verbatim>\<open>kernel/core/netdev.c\<close>, \<^verbatim>\<open>kernel/net/pktbuf.h\<close> and \<^verbatim>\<open>kernel/dev/r8169.c\<close>: how frames
  enter and leave the machine. The chip is outside the model: what it answers when a register is read is
  an argument (\<open>cfg\<close> is the PCI configuration space, \<open>chip n\<close> the \<open>n\<close>-th value of the command register),
  what the driver writes to its registers is the port log, and the descriptor rings are fields that both
  sides use. The addresses of the rings and of the receive buffers are fixed by the linker.
\<close>

section \<open>Data\<close>

record pktbuf =
  pkt_len :: u32
  pb_buf :: addr
  pb_head :: addr

datatype txfun = R8169Tx

record net_device =
  ip_addr :: u32
  netmask :: nat
  gw_addr :: u32
  hw_addr :: "u8 list"
  nd_tx :: "txfun option"

record pci_device =
  pci_bus :: u8
  pci_slot :: u8
  pci_vendor :: u16
  pci_devid :: u16
  pci_bar0 :: u16
  pci_irq :: u8

record ring_desc =
  opts1 :: u32
  opts2 :: u32
  low_buf :: u32
  high_buf :: u32

record r8169_device_t =
  pcidev :: pci_device
  cur_rx :: u32
  cur_tx :: u32
  rx_ring :: "ring_desc list"
  tx_ring :: "ring_desc list"
  rx_buf :: addr
  ioaddr :: u32

record net_state = key_state +
  pktbufs :: "addr \<Rightarrow> pktbuf"
  netdev :: net_device
  nic :: r8169_device_t

definition ETHER_ADDR_LEN :: u32 where "ETHER_ADDR_LEN = 6"
definition sizeof_pktbuf :: u32 where "sizeof_pktbuf = 24"
definition RX_RING_SIZE :: nat where "RX_RING_SIZE = 1024"
definition TX_RING_SIZE :: nat where "TX_RING_SIZE = 1024"
definition RX_BUF_SIZE :: u32 where "RX_BUF_SIZE = 1536"
definition DescOwn :: u32 where "DescOwn = 0x80000000"
definition RingEnd :: u32 where "RingEnd = 0x40000000"
definition FirstFrag :: u32 where "FirstFrag = 0x20000000"
definition LastFrag :: u32 where "LastFrag = 0x10000000"
definition RxBufEmpty :: u8 where "RxBufEmpty = 0x01"
definition CmdReset :: u8 where "CmdReset = 0x10"

text \<open>Registers, as offsets from the I/O base address.\<close>

definition reg_port :: "u32 \<Rightarrow> u32 \<Rightarrow> u16" where
  "reg_port io off = ucast (io + off)"

section \<open>The network device\<close>

definition netdev_set_ip_addr :: "u32 \<Rightarrow> 'a net_state_scheme \<Rightarrow> 'a net_state_scheme" where
  "netdev_set_ip_addr v s = s\<lparr>netdev := (netdev s)\<lparr>ip_addr := v\<rparr>\<rparr>"

definition netdev_set_gw_addr :: "u32 \<Rightarrow> 'a net_state_scheme \<Rightarrow> 'a net_state_scheme" where
  "netdev_set_gw_addr v s = s\<lparr>netdev := (netdev s)\<lparr>gw_addr := v\<rparr>\<rparr>"

definition netdev_set_netmask :: "nat \<Rightarrow> 'a net_state_scheme \<Rightarrow> 'a net_state_scheme" where
  "netdev_set_netmask v s = s\<lparr>netdev := (netdev s)\<lparr>netmask := v\<rparr>\<rparr>"

definition netdev_set_tx_handler :: "txfun \<Rightarrow> 'a net_state_scheme \<Rightarrow> 'a net_state_scheme" where
  "netdev_set_tx_handler f s = s\<lparr>netdev := (netdev s)\<lparr>nd_tx := Some f\<rparr>\<rparr>"

definition netdev_set_hw_addr :: "u8 list \<Rightarrow> 'a net_state_scheme \<Rightarrow> 'a net_state_scheme" where
  "netdev_set_hw_addr mac s = s\<lparr>netdev := (netdev s)\<lparr>hw_addr := take (unat ETHER_ADDR_LEN) mac\<rparr>\<rparr>"

section \<open>PCI configuration space\<close>

definition PCI_CONFIG_ADDRESS_PORT :: u16 where "PCI_CONFIG_ADDRESS_PORT = 0xcf8"
definition PCI_CONFIG_DATA_PORT :: u16 where "PCI_CONFIG_DATA_PORT = 0xcfc"

definition pci_addr :: "u8 \<Rightarrow> u8 \<Rightarrow> u16 \<Rightarrow> u32" where
  "pci_addr bus slot off = push_bit 31 1 OR push_bit 16 (ucast bus) OR push_bit 11 (ucast slot) OR ucast off"

definition pci_read32 :: "(u32 \<Rightarrow> u32) \<Rightarrow> u8 \<Rightarrow> u8 \<Rightarrow> u16 \<Rightarrow> 'a machine_scheme \<Rightarrow> u32 \<times> 'a machine_scheme" where
  "pci_read32 cfg bus slot off s =
     (let a = pci_addr bus slot off in (cfg a, io_out32 PCI_CONFIG_ADDRESS_PORT a s))"

definition pci_read8 :: "(u32 \<Rightarrow> u32) \<Rightarrow> u8 \<Rightarrow> u8 \<Rightarrow> u16 \<Rightarrow> 'a machine_scheme \<Rightarrow> u8 \<times> 'a machine_scheme" where
  "pci_read8 cfg bus slot off s =
     (let (v, s1) = pci_read32 cfg bus slot (off AND 0xfffc) s
      in (ucast (drop_bit (unat (off AND 0x03) * 8) v AND 0xff), s1))"

definition pci_read16 :: "(u32 \<Rightarrow> u32) \<Rightarrow> u8 \<Rightarrow> u8 \<Rightarrow> u16 \<Rightarrow> 'a machine_scheme \<Rightarrow> u16 \<times> 'a machine_scheme" where
  "pci_read16 cfg bus slot off s =
     (let (v, s1) = pci_read32 cfg bus slot (off AND 0xfffc) s
      in (ucast (drop_bit (unat (off AND 0x03) * 8) v AND 0xffff), s1))"

definition pci_write32 :: "u8 \<Rightarrow> u8 \<Rightarrow> u16 \<Rightarrow> u32 \<Rightarrow> 'a machine_scheme \<Rightarrow> 'a machine_scheme" where
  "pci_write32 bus slot off v s =
     io_out32 PCI_CONFIG_DATA_PORT v (io_out32 PCI_CONFIG_ADDRESS_PORT (pci_addr bus slot off) s)"

definition pci_enable_bus_master :: "(u32 \<Rightarrow> u32) \<Rightarrow> pci_device \<Rightarrow> 'a machine_scheme \<Rightarrow> 'a machine_scheme" where
  "pci_enable_bus_master cfg dev s =
     (let (v, s1) = pci_read32 cfg (pci_bus dev) (pci_slot dev) 0x04 s
      in pci_write32 (pci_bus dev) (pci_slot dev) 0x04 (v OR push_bit 2 1) s1)"

text \<open>The two nested loops visit the slots in the order of the list.\<close>

definition pci_slots :: "(u8 \<times> u8) list" where
  "pci_slots = concat (map (\<lambda>b. map (\<lambda>sl. (of_nat b, of_nat sl)) [0..<32]) [0..<256])"

fun pci_scan ::
  "(u32 \<Rightarrow> u32) \<Rightarrow> u16 \<Rightarrow> u16 \<Rightarrow> (u8 \<times> u8) list \<Rightarrow> 'a machine_scheme \<Rightarrow> pci_device option \<times> 'a machine_scheme" where
  "pci_scan cfg target_vendor target_device [] s = (None, s)"
| "pci_scan cfg target_vendor target_device ((bus, slot) # rest) s =
     (let (vendor, s1) = pci_read16 cfg bus slot 0x00 s;
          (device, s2) = pci_read16 cfg bus slot 0x02 s1
      in if vendor \<noteq> target_vendor \<or> device \<noteq> target_device
         then pci_scan cfg target_vendor target_device rest s2
         else
           let (bar0, s3) = pci_read32 cfg bus slot 0x10 s2;
               (irq, s4) = pci_read8 cfg bus slot 0x3c s3
           in (Some \<lparr>pci_bus = bus, pci_slot = slot, pci_vendor = vendor, pci_devid = device,
                     pci_bar0 = ucast bar0, pci_irq = irq\<rparr>, s4))"

definition pci_find_device ::
  "(u32 \<Rightarrow> u32) \<Rightarrow> u16 \<Rightarrow> u16 \<Rightarrow> 'a machine_scheme \<Rightarrow> pci_device option \<times> 'a machine_scheme" where
  "pci_find_device cfg target_vendor target_device s = pci_scan cfg target_vendor target_device pci_slots s"

section \<open>The driver: transmit\<close>

definition desc_addr :: "ring_desc \<Rightarrow> addr" where
  "desc_addr d = push_bit 32 (ucast (high_buf d)) + ucast (low_buf d)"

definition r8169_tx :: "addr \<Rightarrow> 'a net_state_scheme \<Rightarrow> 'a net_state_scheme res" where
  "r8169_tx pkt s =
     (let dev = nic s; p = pktbufs s pkt in
      bindr (arr_get (tx_ring dev) (unat (cur_tx dev))) (\<lambda>tx_desc.
      if opts1 tx_desc AND DescOwn \<noteq> 0
      then Inr (printstr_log (''TX processing failed'' @ nl) s)
      else
        let s1 = s\<lparr>mem8 := memcpy (desc_addr tx_desc) (pb_head p) (pkt_len p) (mem8 s)\<rparr>;
            o1 = DescOwn OR FirstFrag OR LastFrag OR pkt_len p;
            next_tx = cur_tx dev + 1;
            wraps = unat next_tx \<ge> TX_RING_SIZE;
            d1 = tx_desc\<lparr>opts1 := (if wraps then o1 OR RingEnd else o1)\<rparr>;
            dev1 = dev\<lparr>tx_ring := (tx_ring dev)[unat (cur_tx dev) := d1],
                       cur_tx := (if wraps then next_tx - of_nat TX_RING_SIZE else next_tx)\<rparr>
        in Inr (io_out8 (reg_port (ioaddr dev) 0x38) 0x40 (s1\<lparr>nic := dev1\<rparr>))))"

text \<open>\<open>netdev->tx (pkt)\<close>.\<close>

definition netdev_tx :: "addr \<Rightarrow> 'a net_state_scheme \<Rightarrow> 'a net_state_scheme res" where
  "netdev_tx pkt s = (case nd_tx (netdev s) of None \<Rightarrow> Inl NullPtr | Some R8169Tx \<Rightarrow> r8169_tx pkt s)"

section \<open>The driver: receive\<close>

definition receive_one :: "ring_desc \<Rightarrow> 'a net_state_scheme \<Rightarrow> 'a net_state_scheme res" where
  "receive_one rx_desc s =
     (let len = (opts1 rx_desc AND 0x00001fff) - 4;
          pkt_data = desc_addr rx_desc in
      bindr (mem_alloc sizeof_pktbuf ''r8169_rx_pbuf'' s) (\<lambda>(pbuf, s1).
      bindr (mem_alloc len ''r8169_rx_pbuf_buf'' s1) (\<lambda>(buf, s2).
      let s3 = s2\<lparr>mem8 := memcpy buf pkt_data len (mem8 s2),
                  pktbufs := (pktbufs s2)(pbuf := \<lparr>pkt_len = len, pb_buf = buf, pb_head = buf\<rparr>)\<rparr> in
      bindr (wq_push EtherRx (Some pbuf) s3) (\<lambda>s4.
      let dev = nic s4;
          i = unat (cur_rx dev);
          next_rx = cur_rx dev + 1;
          dev1 = dev\<lparr>rx_ring := (rx_ring dev)[i := rx_desc\<lparr>opts1 := opts1 rx_desc OR DescOwn\<rparr>],
                     cur_rx := (if unat next_rx \<ge> RX_RING_SIZE then next_rx - of_nat RX_RING_SIZE else next_rx)\<rparr>
      in Inr (s4\<lparr>nic := dev1\<rparr>)))))"

partial_function (option) receive_loop ::
  "(nat \<Rightarrow> u8) \<Rightarrow> nat \<Rightarrow> 'a net_state_scheme \<Rightarrow> 'a net_state_scheme res option" where
  "receive_loop chip n s =
     (if chip n AND RxBufEmpty \<noteq> 0 then Some (Inr s)
      else
        case arr_get (rx_ring (nic s)) (unat (cur_rx (nic s))) of
          Inl e \<Rightarrow> Some (Inl e)
        | Inr rx_desc \<Rightarrow>
            if opts1 rx_desc AND DescOwn \<noteq> 0 then Some (Inr s)
            else
              case receive_one rx_desc s of
                Inl e \<Rightarrow> Some (Inl e)
              | Inr s1 \<Rightarrow> receive_loop chip (Suc n) s1)"

definition receive_packet :: "(nat \<Rightarrow> u8) \<Rightarrow> 'a net_state_scheme \<Rightarrow> 'a net_state_scheme res" where
  "receive_packet chip s = ended (receive_loop chip 0 s)"

definition log_if :: "bool \<Rightarrow> string \<Rightarrow> 'a con_state_scheme \<Rightarrow> 'a con_state_scheme" where
  "log_if b str s = (if b then printstr_log (str @ nl) s else s)"

text \<open>\<open>status\<close> is the interrupt status register the handler reads first.\<close>

definition r8169_int_handler :: "u16 \<Rightarrow> (nat \<Rightarrow> u8) \<Rightarrow> 'a net_state_scheme \<Rightarrow> 'a net_state_scheme res" where
  "r8169_int_handler status chip s =
     (let s1 = log_if (status AND 0x02 \<noteq> 0) ''RxErr''
              (log_if (status AND 0x08 \<noteq> 0) ''TxErr''
              (log_if (status AND 0x10 \<noteq> 0) ''RxOverflow''
              (log_if (status AND 0x20 \<noteq> 0) ''RxUnderrun LinkChange''
              (log_if (status AND 0x40 \<noteq> 0) ''RxFIFOOver''
              (log_if (status AND 0x4000 \<noteq> 0) ''PCSTimeout''
              (log_if (status AND 0x8000 \<noteq> 0) ''PCIErr'' s))))))
      in bindr (if status AND 0x01 \<noteq> 0 then receive_packet chip s1 else Inr s1) (\<lambda>s2.
         Inr (io_out16 (reg_port (ioaddr (nic s2)) 0x3e) status
               (pic_sendeoi (unat (pci_irq (pcidev (nic s2)))) s2))))"

section \<open>The driver: initialisation\<close>

definition setup_rx_desc :: "addr \<Rightarrow> nat \<Rightarrow> ring_desc \<Rightarrow> ring_desc" where
  "setup_rx_desc base i d =
     (let a = base + of_nat i * ucast RX_BUF_SIZE in
      d\<lparr>opts1 := (if i = RX_RING_SIZE - 1 then DescOwn OR RingEnd OR (RX_BUF_SIZE AND 0xffff)
                 else DescOwn OR (RX_BUF_SIZE AND 0xffff)),
        opts2 := 0, low_buf := ucast (a AND 0xffffffff), high_buf := ucast (drop_bit 32 a AND 0xffffffff)\<rparr>)"

definition setup_rx_descriptors :: "'a net_state_scheme \<Rightarrow> 'a net_state_scheme" where
  "setup_rx_descriptors s =
     (let dev = nic s in
      s\<lparr>nic := dev\<lparr>rx_ring := map (\<lambda>i. setup_rx_desc (rx_buf dev) i (rx_ring dev ! i)) [0..<RX_RING_SIZE]\<rparr>\<rparr>)"

text \<open>\<open>while ((io_in8 (ioaddr + ChipCmd) & CmdReset) != 0) {}\<close>: how many reads until the reset is done.\<close>

partial_function (option) wait_reset :: "(nat \<Rightarrow> u8) \<Rightarrow> nat \<Rightarrow> nat option" where
  "wait_reset chip n = (if chip n AND CmdReset \<noteq> 0 then wait_reset chip (Suc n) else Some n)"

definition init_r8169 ::
  "(u32 \<Rightarrow> u32) \<Rightarrow> (nat \<Rightarrow> u8) \<Rightarrow> (nat \<Rightarrow> u8) \<Rightarrow> u64 \<Rightarrow> u64 \<Rightarrow> u64 \<Rightarrow> 'a net_state_scheme
    \<Rightarrow> 'a net_state_scheme res" where
  "init_r8169 cfg chip mac rx_ring_addr tx_ring_addr asm_int_r8169 s =
     (let s1 = s\<lparr>nic := (nic s)\<lparr>cur_rx := 0, cur_tx := 0\<rparr>\<rparr>;
          (found, s2) = pci_find_device cfg 0x10ec 0x8136 s1
      in case found of
           None \<Rightarrow> panic (printstr_log (''Failed to find r8169 device'' @ nl) s2)
         | Some dev \<Rightarrow>
             let io = ucast (pci_bar0 dev) AND NOT 3;
                 out8 = (\<lambda>r. io_out8 (reg_port io r));
                 out16 = (\<lambda>r. io_out16 (reg_port io r));
                 out32 = (\<lambda>r. io_out32 (reg_port io r));
                 s3 = s2\<lparr>nic := (nic s2)\<lparr>pcidev := dev, ioaddr := io\<rparr>\<rparr>;
                 s4 = out8 0x37 CmdReset (out8 0x52 0x01 (pci_enable_bus_master cfg dev s3))
             in case wait_reset chip 0 of
                  None \<Rightarrow> Inl Diverges
                | Some _ \<Rightarrow>
                    let s5 = setup_rx_descriptors s4;
                        s6 = out8 0x37 0x0C (out8 0x50 0xC0 s5);
                        s7 = out16 0xda (ucast RX_BUF_SIZE)
                               (out32 0x44 (push_bit 13 7 OR push_bit 8 7 OR 0x08 OR 0x04 OR 0x02 OR 0x01) s6);
                        s8 = out32 0xe8 (ucast (drop_bit 32 rx_ring_addr)) (out32 0xe4 (ucast rx_ring_addr) s7);
                        s9 = out8 0xec 0x3f (out32 0x40 (push_bit 24 3 OR push_bit 8 7) s8);
                        s10 = out32 0x24 (ucast (drop_bit 32 tx_ring_addr)) (out32 0x20 (ucast tx_ring_addr) s9);
                        s11 = out16 0x3c (0x8000 OR 0x4000 OR 0x10 OR 0x40 OR 0x20 OR 0x08 OR 0x04 OR 0x02 OR 0x01) s10;
                        s12 = register_interrupt (unat (pci_irq dev)) asm_int_r8169 (out8 0x50 0x00 s11);
                        s13 = netdev_set_hw_addr (map mac [0..<6]) s12
                    in Inr (printstr_log (''Initialized r8169 deriver'' @ nl) (netdev_set_tx_handler R8169Tx s13)))"

section \<open>The rings\<close>

definition nic_ok :: "'a net_state_scheme \<Rightarrow> bool" where
  "nic_ok s =
     (length (rx_ring (nic s)) = RX_RING_SIZE \<and> length (tx_ring (nic s)) = TX_RING_SIZE \<and>
      unat (cur_rx (nic s)) < RX_RING_SIZE \<and> unat (cur_tx (nic s)) < TX_RING_SIZE \<and>
      nd_tx (netdev s) = Some R8169Tx)"

definition owned :: "ring_desc \<Rightarrow> bool" where
  "owned d = (opts1 d AND DescOwn \<noteq> 0)"

definition frame_len :: "ring_desc \<Rightarrow> u32" where
  "frame_len d = (opts1 d AND 0x1fff) - 4"

text \<open>A receive buffer lies below the memory the allocator manages.\<close>

definition dma_ok :: "ring_desc \<Rightarrow> bool" where
  "dma_ok d = (unat (desc_addr d) + 8192 \<le> unat MEM_START)"

text \<open>\<open>cur++; if (cur >= 1024) cur -= 1024;\<close>\<close>

definition ring_next :: "u32 \<Rightarrow> u32" where
  "ring_next c = (if unat (c + 1) \<ge> 1024 then c + 1 - 1024 else c + 1)"

lemma unat_ring_next: "unat c < 1024 \<Longrightarrow> unat (ring_next c) = (unat c + 1) mod 1024"
proof -
  assume c: "unat c < 1024"
  then have s: "unat (c + 1) = unat c + 1" by (subst unat_add_lem [THEN iffD1]) auto
  show ?thesis
  proof (cases "unat c + 1 = 1024")
    case True
    then have "c + 1 = 1024" using s by (simp add: word_unat_eq_iff)
    with True s show ?thesis by (simp add: ring_next_def)
  next
    case False
    with c s show ?thesis by (simp add: ring_next_def)
  qed
qed

lemma frame_len_bound: "unat (opts1 d AND 0x1fff) < 8192"
proof -
  have "unat (opts1 d AND mask 13) = unat (opts1 d) mod 8192"
    by (simp add: take_bit_eq_mask [symmetric] take_bit_eq_mod unat_mod)
  then show ?thesis by (simp add: mask_eq_exp_minus_1)
qed

lemma unat_frame_len: "4 \<le> unat (opts1 d AND 0x1fff) \<Longrightarrow> unat (frame_len d) = unat (opts1 d AND 0x1fff) - 4"
  unfolding frame_len_def by (subst unat_sub) (simp_all add: word_le_nat_alt)

lemma frame_fits: "4 \<le> unat (opts1 d AND 0x1fff) \<Longrightarrow> mem_fits (frame_len d)"
  using frame_len_bound [of d] unat_frame_len [of d]
  by (simp add: mem_fits_def MEM_GRANULARITY_def word_le_nat_alt unsigned_ucast_eq take_bit_nat_eq_self)

lemma dma_apart:
  assumes "a \<in> live_of h" and "dma_ok d" and "m \<le> 1048528" and "n \<le> 8192"
  shows "region a m \<inter> region (desc_addr d) n = {}"
proof -
  from live_block [OF assms(1)] obtain i where i: "i < MEM_BLOCKS" "a = mem_block i + sizeof_memhdr" by blast
  have False if x: "x \<in> region a m" "x \<in> region (desc_addr d) n" for x
  proof -
    from unat_region [OF x(1) [unfolded i(2)] i(1) assms(3)] have "10485760 \<le> unat x" by auto
    moreover from x(2) obtain k where k: "k < n" "x = desc_addr d + of_nat k" by (auto simp: region_def)
    have "unat (desc_addr d) + k < 10485760" using assms(2,4) k(1) by (simp add: dma_ok_def MEM_START_def)
    then have "unat x = unat (desc_addr d) + k"
      unfolding k(2) by (subst unat_add_lem [THEN iffD1]) (simp_all add: unat_of_nat64)
    ultimately show False using \<open>unat (desc_addr d) + k < 10485760\<close> by simp
  qed
  then show ?thesis by blast
qed


section \<open>Transmit\<close>

definition tx_rest :: "'a net_state_scheme \<Rightarrow> 'a net_state_scheme \<Rightarrow> bool" where
  "tx_rest s s' = (\<exists>m n c l. s' = s\<lparr>mem8 := m, nic := n, console := c, io_log := l\<rparr>)"

lemma tx_restI: "s' = s\<lparr>mem8 := m, nic := n, console := c, io_log := l\<rparr> \<Longrightarrow> tx_rest s s'"
  unfolding tx_rest_def by blast

definition tx_desc_sent :: "u32 \<Rightarrow> u32 \<Rightarrow> ring_desc \<Rightarrow> ring_desc" where
  "tx_desc_sent i len d =
     d\<lparr>opts1 := DescOwn OR FirstFrag OR LastFrag OR len OR (if unat i = TX_RING_SIZE - 1 then RingEnd else 0)\<rparr>"

lemma r8169_tx_eq:
  assumes "nic_ok s"
  shows "netdev_tx pkt s =
     (let dev = nic s; i = cur_tx dev; d = tx_ring dev ! unat i; p = pktbufs s pkt in
      if owned d then Inr (printstr_log (''TX processing failed'' @ nl) s)
      else Inr (io_out8 (reg_port (ioaddr dev) 0x38) 0x40
             (s\<lparr>mem8 := memcpy (desc_addr d) (pb_head p) (pkt_len p) (mem8 s),
                nic := dev\<lparr>tx_ring := (tx_ring dev)[unat i := tx_desc_sent i (pkt_len p) d],
                           cur_tx := ring_next i\<rparr>\<rparr>)))"
proof -
  have i: "unat (cur_tx (nic s)) < 1024" "length (tx_ring (nic s)) = 1024" "nd_tx (netdev s) = Some R8169Tx"
    using assms by (simp_all add: nic_ok_def TX_RING_SIZE_def)
  have s: "unat (cur_tx (nic s) + 1) = unat (cur_tx (nic s)) + 1"
    using i(1) by (subst unat_add_lem [THEN iffD1]) auto
  show ?thesis
    using i s by (auto simp: netdev_tx_def r8169_tx_def Let_def owned_def ring_next_def tx_desc_sent_def
        TX_RING_SIZE_def or.assoc)
qed

text \<open>The descriptor the driver will use next, and that it has passed \<open>k\<close> bytes to the card in it.\<close>

definition tx_next :: "'a net_state_scheme \<Rightarrow> ring_desc" where
  "tx_next s = tx_ring (nic s) ! unat (cur_tx (nic s))"

definition passed_on :: "nat \<Rightarrow> 'a net_state_scheme \<Rightarrow> 'a net_state_scheme \<Rightarrow> bool" where
  "passed_on k s s' =
     (tx_ring (nic s') = (tx_ring (nic s))[unat (cur_tx (nic s)) := tx_desc_sent (cur_tx (nic s)) (of_nat k) (tx_next s)] \<and>
      cur_tx (nic s') = ring_next (cur_tx (nic s)) \<and> rx_ring (nic s') = rx_ring (nic s))"

lemma netdev_tx_sent:
  assumes "nic_ok s" and p: "pb_head (pktbufs s pkt) = e" "pkt_len (pktbufs s pkt) = of_nat k" "k < 65536"
    and free: "\<not> owned (tx_next s)" and apart: "region (desc_addr (tx_next s)) k \<inter> region e k = {}"
  shows "\<exists>s'. netdev_tx pkt s = Inr s' \<and> passed_on k s s' \<and> bytes_at (mem8 s') (desc_addr (tx_next s)) k = bytes_at (mem8 s) e k \<and>
           bytes_at (mem8 s') e k = bytes_at (mem8 s) e k"
proof -
  have uk: "unat (of_nat k :: u32) = k" using p(3) by (simp add: unat_of_nat32)
  let ?f = "desc_addr (tx_next s)" and ?dev = "nic s"
  let ?s' = "io_out8 (reg_port (ioaddr ?dev) 0x38) 0x40
     (s\<lparr>mem8 := memcpy ?f e (of_nat k) (mem8 s),
        nic := ?dev\<lparr>tx_ring := (tx_ring ?dev)[unat (cur_tx ?dev) := tx_desc_sent (cur_tx ?dev) (of_nat k) (tx_next s)],
                    cur_tx := ring_next (cur_tx ?dev)\<rparr>\<rparr>)"
  have "netdev_tx pkt s = Inr ?s'" using free by (simp add: r8169_tx_eq [OF assms(1)] Let_def tx_next_def p(1,2))
  moreover have "bytes_at (mem8 ?s') ?f k = bytes_at (mem8 s) e k"
    using memcpy_copies [of ?f "of_nat k" e "mem8 s"] apart by (simp add: uk io_out8_def)
  moreover have "bytes_at (mem8 ?s') e k = bytes_at (mem8 s) e k"
  proof (rule bytes_at_cong)
    fix j assume "j < k"
    then have "e + of_nat j \<notin> region ?f k" using apart in_region [of j k e] by blast
    then show "mem8 ?s' (e + of_nat j) = mem8 s (e + of_nat j)"
      using memcpy_frame [of ?f "of_nat k" e _ "mem8 s"] apart by (simp add: uk io_out8_def)
  qed
  moreover have "passed_on k s ?s'" by (simp add: passed_on_def io_out8_def)
  ultimately show ?thesis by blast
qed

lemma ring_next_bound: "unat c < 1024 \<Longrightarrow> unat (ring_next c) < 1024"
  by (simp add: unat_ring_next)

lemma netdev_tx_ok:
  assumes "nic_ok s"
  shows "\<exists>s'. netdev_tx pkt s = Inr s' \<and> nic_ok s' \<and> tx_rest s s'"
proof (cases "owned (tx_ring (nic s) ! unat (cur_tx (nic s)))")
  case True
  let ?s = "printstr_log (''TX processing failed'' @ nl) s"
  have "netdev_tx pkt s = Inr ?s" using True by (simp add: r8169_tx_eq [OF assms] Let_def)
  moreover have "tx_rest s ?s"
    by (rule tx_restI [where m = "mem8 s" and n = "nic s" and l = "io_log s"]) (subst printstr_log_eq, simp)
  moreover have "nic_ok ?s" using assms by (simp add: nic_ok_def printstr_log_eq)
  ultimately show ?thesis by blast
next
  case False
  let ?dev = "nic s" and ?d = "tx_ring (nic s) ! unat (cur_tx (nic s))" and ?p = "pktbufs s pkt"
  let ?s = "io_out8 (reg_port (ioaddr ?dev) 0x38) 0x40
     (s\<lparr>mem8 := memcpy (desc_addr ?d) (pb_head ?p) (pkt_len ?p) (mem8 s),
        nic := ?dev\<lparr>tx_ring := (tx_ring ?dev)[unat (cur_tx ?dev) := tx_desc_sent (cur_tx ?dev) (pkt_len ?p) ?d],
                    cur_tx := ring_next (cur_tx ?dev)\<rparr>\<rparr>)"
  have "netdev_tx pkt s = Inr ?s" using False by (simp add: r8169_tx_eq [OF assms] Let_def)
  moreover have "tx_rest s ?s" by (rule tx_restI [where c = "console s"]) (simp add: io_out8_def)
  moreover have "nic_ok ?s"
    using assms ring_next_bound [of "cur_tx ?dev"] by (simp add: nic_ok_def io_out8_def TX_RING_SIZE_def)
  ultimately show ?thesis by blast
qed

section \<open>Receive\<close>

definition rx_desc_back :: "ring_desc \<Rightarrow> ring_desc" where
  "rx_desc_back d = d\<lparr>opts1 := opts1 d OR DescOwn\<rparr>"

lemma owned_back [simp]: "owned (rx_desc_back d)"
  by (simp add: owned_def rx_desc_back_def DescOwn_def bit.conj_disj_distrib2)

text \<open>What receiving never touches.\<close>

definition rx_same :: "'a net_state_scheme \<Rightarrow> 'a net_state_scheme \<Rightarrow> bool" where
  "rx_same s s' =
     (timers s' = timers s \<and> netdev s' = netdev s \<and> rflags s' = rflags s \<and> net_state.more s' = net_state.more s)"

lemma receive_one_ok:
  assumes inv: "wq_inv s ts ws" and av: "3 \<le> avail s" and len: "4 \<le> unat (opts1 d AND 0x1fff)"
  shows "\<exists>p b w s'. receive_one d s = Inr s' \<and> wq_inv s' ts (ws @ [w]) \<and>
           distinct [p, b, w] \<and> {p, b, w} \<inter> live s = {} \<and> live s' = {p, b, w} \<union> live s \<and>
           avail s' = avail s - 3 \<and> works s' = (works s)(w := \<lparr>wt_func = EtherRx, wt_arg = Some p\<rparr>) \<and>
           pktbufs s' = (pktbufs s)(p := \<lparr>pkt_len = frame_len d, pb_buf = b, pb_head = b\<rparr>) \<and>
           mem8 s' = memcpy b (desc_addr d) (frame_len d) (mem8 s) \<and> rx_same s s' \<and>
           (\<forall>y \<in> live s. y \<notin> set ws \<longrightarrow> links s' y = links s y) \<and>
           nic s' = (nic s)\<lparr>rx_ring := (rx_ring (nic s))[unat (cur_rx (nic s)) := rx_desc_back d],
                           cur_rx := ring_next (cur_rx (nic s))\<rparr>"
proof -
  have "mem_fits sizeof_pktbuf" by (simp add: mem_fits_def sizeof_pktbuf_def MEM_GRANULARITY_def)
  with wq_inv_alloc [OF inv this, of "''r8169_rx_pbuf''"] av obtain p s1 where
    s1: "mem_alloc sizeof_pktbuf ''r8169_rx_pbuf'' s = Inr (p, s1)" "wq_inv s1 ts ws" "p \<notin> live s"
      "live s1 = insert p (live s)" "avail s1 = avail s - 1" "mem_rest s s1" by auto
  have "0 < avail s1" using s1(5) av by simp
  from wq_inv_alloc [OF s1(2) frame_fits [OF len] this, of "''r8169_rx_pbuf_buf''"] obtain b s2 where
    s2: "mem_alloc (frame_len d) ''r8169_rx_pbuf_buf'' s1 = Inr (b, s2)" "wq_inv s2 ts ws" "b \<notin> live s1"
      "live s2 = insert b (live s1)" "avail s2 = avail s1 - 1" "mem_rest s1 s2" by auto
  let ?s3 = "s2\<lparr>mem8 := memcpy b (desc_addr d) (frame_len d) (mem8 s2),
               pktbufs := (pktbufs s2)(p := \<lparr>pkt_len = frame_len d, pb_buf = b, pb_head = b\<rparr>)\<rparr>"
  have i3: "wq_inv ?s3 ts ws" using s2(2) by (simp add: wq_view)
  have a3: "0 < avail ?s3" "avail ?s3 = avail s - 2" "live ?s3 = {b, p} \<union> live s"
    using s1 s2 av by (auto simp: mem_view)
  from wq_push_ok [OF i3 a3(1), of EtherRx "Some p"] obtain w s4 where
    s4: "wq_push EtherRx (Some p) ?s3 = Inr s4" "wq_inv s4 ts (ws @ [w])" "w \<notin> live ?s3"
      "live s4 = insert w (live ?s3)" "avail s4 = avail ?s3 - 1"
      "works s4 = (works ?s3)(w := \<lparr>wt_func = EtherRx, wt_arg = Some p\<rparr>)"
      "\<forall>y. y \<notin> set ws \<longrightarrow> y \<noteq> w \<longrightarrow> links s4 y = links ?s3 y" by blast
  from wq_push_rest [OF s4(1)] obtain fm mh wk l nx c tnx where
    e4: "s4 = ?s3\<lparr>freemem := fm, memhdrs := mh, works := wk, wq := l, links := nx, taskctl := c, task_links := tnx\<rparr>"
    by blast
  from s1(6) s2(6) obtain fm1 mh1 where e2: "s2 = s\<lparr>freemem := fm1, memhdrs := mh1\<rparr>" by (auto simp: mem_rest_def)
  let ?s5 = "s4\<lparr>nic := (nic s4)\<lparr>rx_ring := (rx_ring (nic s4))[unat (cur_rx (nic s4)) := rx_desc_back d],
                           cur_rx := ring_next (cur_rx (nic s4))\<rparr>\<rparr>"
  have "receive_one d s = Inr ?s5"
    using s1(1) s2(1) s4(1)
    by (simp add: receive_one_def Let_def frame_len_def rx_desc_back_def ring_next_def RX_RING_SIZE_def)
  moreover have "wq_inv ?s5 ts (ws @ [w])" using s4(2) by (simp add: wq_view)
  moreover have "live ?s5 = {p, b, w} \<union> live s" "avail ?s5 = avail s - 3"
    using s4(4,5) a3(2,3) by (auto simp: mem_view)
  moreover have "works ?s5 = (works s)(w := \<lparr>wt_func = EtherRx, wt_arg = Some p\<rparr>)"
    using s4(6) by (simp add: e2)
  moreover have "mem8 ?s5 = memcpy b (desc_addr d) (frame_len d) (mem8 s)" "rx_same s ?s5"
    "pktbufs ?s5 = (pktbufs s)(p := \<lparr>pkt_len = frame_len d, pb_buf = b, pb_head = b\<rparr>)"
    "nic ?s5 = (nic s)\<lparr>rx_ring := (rx_ring (nic s))[unat (cur_rx (nic s)) := rx_desc_back d],
                           cur_rx := ring_next (cur_rx (nic s))\<rparr>"
    by (simp_all add: e4 e2 rx_same_def)
  moreover have "links ?s5 y = links s y" if "y \<in> live s" "y \<notin> set ws" for y using s4(3,7) a3(3) that by (auto simp: e2)
  moreover have "distinct [p, b, w]" "{p, b, w} \<inter> live s = {}"
    using s1(3,4) s2(3) s4(3) a3(3) by auto
  ultimately show ?thesis by (intro exI [of _ p] exI [of _ b] exI [of _ w] exI [of _ ?s5]) simp
qed


text \<open>
  What a received frame leaves behind: a queued call of \<open>ether_rx\<close> on a packet buffer that holds the bytes
  of the descriptor's buffer.
\<close>

definition delivered :: "'a net_state_scheme \<Rightarrow> ring_desc \<Rightarrow> 'a net_state_scheme \<Rightarrow> addr \<Rightarrow> bool" where
  "delivered s d s' w =
     (\<exists>p b. works s' w = \<lparr>wt_func = EtherRx, wt_arg = Some p\<rparr> \<and>
        pktbufs s' p = \<lparr>pkt_len = frame_len d, pb_buf = b, pb_head = b\<rparr> \<and> {w, p, b} \<subseteq> live s' \<and>
        bytes_at (mem8 s') b (unat (frame_len d)) = bytes_at (mem8 s) (desc_addr d) (unat (frame_len d)))"

text \<open>Receiving leaves the blocks in use and the memory below the heap alone.\<close>

definition rx_keeps :: "'a net_state_scheme \<Rightarrow> 'a net_state_scheme \<Rightarrow> bool" where
  "rx_keeps s s' =
     (live s \<subseteq> live s' \<and> rx_same s s' \<and> (\<forall>a \<in> live s. works s' a = works s a \<and> pktbufs s' a = pktbufs s a) \<and>
      (\<forall>x. unat x < unat MEM_START \<or> (\<exists>a \<in> live s. x \<in> region a 1048528) \<longrightarrow> mem8 s' x = mem8 s x))"

lemma rx_keeps_refl: "rx_keeps s s"
  by (simp add: rx_keeps_def rx_same_def)

lemma rx_keeps_trans: "rx_keeps s s1 \<Longrightarrow> rx_keeps s1 s2 \<Longrightarrow> rx_keeps s s2"
  unfolding rx_keeps_def rx_same_def by (auto 4 4 dest: subsetD)

lemma region_mono: "m \<le> n \<Longrightarrow> region a m \<subseteq> region a n"
  by (auto simp: region_def)

lemma dma_region: "dma_ok d \<Longrightarrow> i < 8192 \<Longrightarrow> unat (desc_addr d + of_nat i) < unat MEM_START"
  by (subst unat_add_lem [THEN iffD1]) (auto simp: dma_ok_def MEM_START_def unat_of_nat64)

lemma delivered_keeps:
  assumes "delivered s d s1 w" and "rx_keeps s1 s2" and "unat (frame_len d) < 8192"
  shows "delivered s d s2 w"
proof -
  from assms(1) obtain p b where pb: "works s1 w = \<lparr>wt_func = EtherRx, wt_arg = Some p\<rparr>"
    "pktbufs s1 p = \<lparr>pkt_len = frame_len d, pb_buf = b, pb_head = b\<rparr>" "{w, p, b} \<subseteq> live s1"
    "bytes_at (mem8 s1) b (unat (frame_len d)) = bytes_at (mem8 s) (desc_addr d) (unat (frame_len d))"
    by (auto simp: delivered_def)
  have "mem8 s2 (b + of_nat i) = mem8 s1 (b + of_nat i)" if "i < unat (frame_len d)" for i
    using assms(2,3) pb(3) that in_region [of i 1048528 b] by (auto simp: rx_keeps_def)
  then have "bytes_at (mem8 s2) b (unat (frame_len d)) = bytes_at (mem8 s1) b (unat (frame_len d))"
    by (rule bytes_at_cong)
  with pb assms(2) show ?thesis
    unfolding delivered_def by (intro exI [of _ p] exI [of _ b]) (auto simp: rx_keeps_def)
qed

lemma receive_one_keeps:
  assumes inv: "wq_inv s ts ws" and av: "3 \<le> avail s" and len: "4 \<le> unat (opts1 d AND 0x1fff)" and dma: "dma_ok d"
  shows "\<exists>w s'. receive_one d s = Inr s' \<and> wq_inv s' ts (ws @ [w]) \<and> avail s' = avail s - 3 \<and>
           delivered s d s' w \<and> rx_keeps s s' \<and> (\<forall>y \<in> live s. y \<notin> set ws \<longrightarrow> links s' y = links s y) \<and> w \<notin> live s \<and>
           nic s' = (nic s)\<lparr>rx_ring := (rx_ring (nic s))[unat (cur_rx (nic s)) := rx_desc_back d],
                           cur_rx := ring_next (cur_rx (nic s))\<rparr>"
proof -
  from receive_one_ok [OF inv av len] obtain p b w s' where
    r: "receive_one d s = Inr s'" "wq_inv s' ts (ws @ [w])" "distinct [p, b, w]" "{p, b, w} \<inter> live s = {}"
      "live s' = {p, b, w} \<union> live s" "avail s' = avail s - 3"
      "works s' = (works s)(w := \<lparr>wt_func = EtherRx, wt_arg = Some p\<rparr>)"
      "pktbufs s' = (pktbufs s)(p := \<lparr>pkt_len = frame_len d, pb_buf = b, pb_head = b\<rparr>)"
      "mem8 s' = memcpy b (desc_addr d) (frame_len d) (mem8 s)" "rx_same s s'" "\<forall>y \<in> live s. y \<notin> set ws \<longrightarrow> links s' y = links s y"
      "nic s' = (nic s)\<lparr>rx_ring := (rx_ring (nic s))[unat (cur_rx (nic s)) := rx_desc_back d],
                           cur_rx := ring_next (cur_rx (nic s))\<rparr>" by blast
  have n: "unat (frame_len d) \<le> 8192" using frame_len_bound [of d] unat_frame_len [OF len] by simp
  have b: "b \<in> live_of (memhdrs s')" using r(5) by (simp add: mem_view)
  have ap: "region b (unat (frame_len d)) \<inter> region (desc_addr d) (unat (frame_len d)) = {}"
    using n by (intro dma_apart [OF b dma]) auto
  have "mem8 s' x = mem8 s x" if "unat x < unat MEM_START \<or> (\<exists>a \<in> live s. x \<in> region a 1048528)" for x
  proof -
    have "x \<notin> region b (unat (frame_len d))"
    proof
      assume x: "x \<in> region b (unat (frame_len d))"
      from live_block [OF b] obtain i where i: "i < MEM_BLOCKS" "b = mem_block i + sizeof_memhdr" by blast
      from unat_region [OF x [unfolded i(2)] i(1)] n have "\<not> unat x < unat MEM_START" by (auto simp: MEM_START_def)
      with that obtain a where a: "a \<in> live s" "x \<in> region a 1048528" by blast
      then have "a \<in> live_of (memhdrs s')" "a \<noteq> b" using r(4,5) by (auto simp: mem_view)
      from live_regions_disjoint [OF this(1) b this(2), of 1048528 "unat (frame_len d)"] n a(2) x show False by auto
    qed
    then show ?thesis unfolding r(9) by (rule memcpy_frame [OF ap])
  qed
  then have "rx_keeps s s'" using r(4,5,7,8,10) unfolding rx_keeps_def by auto
  moreover have "delivered s d s' w"
    using r(5,7,8) memcpy_copies [OF ap, of "mem8 s"] unfolding delivered_def r(9)
    by (intro exI [of _ p] exI [of _ b]) auto
  ultimately show ?thesis using r(1,2,4,6,11,12) by (intro exI [of _ w] exI [of _ s']) simp
qed


lemma delivered_before:
  assumes "delivered s1 d s2 w" and "rx_keeps s s1" and "dma_ok d" and "unat (frame_len d) < 8192"
  shows "delivered s d s2 w"
proof -
  have "bytes_at (mem8 s1) (desc_addr d) (unat (frame_len d)) = bytes_at (mem8 s) (desc_addr d) (unat (frame_len d))"
    using assms(2,4) dma_region [OF assms(3)] by (intro bytes_at_cong) (auto simp: rx_keeps_def)
  with assms(1) show ?thesis by (simp add: delivered_def)
qed

text \<open>The descriptor \<open>k\<close> places behind the driver's position, and one that holds a frame.\<close>

definition slot :: "'a net_state_scheme \<Rightarrow> nat \<Rightarrow> nat" where
  "slot s k = (unat (cur_rx (nic s)) + k) mod 1024"

definition has_frame :: "ring_desc \<Rightarrow> bool" where
  "has_frame d = (\<not> owned d \<and> 4 \<le> unat (opts1 d AND 0x1fff) \<and> dma_ok d)"

definition taken :: "nat \<Rightarrow> 'a net_state_scheme \<Rightarrow> 'a net_state_scheme \<Rightarrow> bool" where
  "taken n s s' =
     (unat (cur_rx (nic s')) = slot s n \<and>
      (\<forall>j < 1024. rx_ring (nic s') ! j =
         (if \<exists>k < n. j = slot s k then rx_desc_back (rx_ring (nic s) ! j) else rx_ring (nic s) ! j)))"

lemma slot_Suc: "slot s1 k = slot s (Suc k)" if "unat (cur_rx (nic s1)) = slot s 1"
  using that by (simp add: slot_def mod_simps)

lemma slot_neq_0: "0 < k \<Longrightarrow> k < 1024 \<Longrightarrow> unat (cur_rx (nic s)) < 1024 \<Longrightarrow> slot s k \<noteq> unat (cur_rx (nic s))"
  unfolding slot_def by (cases "unat (cur_rx (nic s)) + k < 1024") (auto simp: mod_if)

lemma slot_0: "unat (cur_rx (nic s)) < 1024 \<Longrightarrow> slot s 0 = unat (cur_rx (nic s))"
  by (simp add: slot_def)

lemma taken_Suc:
  assumes c: "unat (cur_rx (nic s)) < 1024" "length (rx_ring (nic s)) = 1024"
    and s1: "nic s1 = (nic s)\<lparr>rx_ring := (rx_ring (nic s))[unat (cur_rx (nic s)) := rx_desc_back d],
                           cur_rx := ring_next (cur_rx (nic s))\<rparr>"
    and d: "d = rx_ring (nic s) ! slot s 0" and t: "taken n s1 s2" and n: "n < 1024"
  shows "taken (Suc n) s s2"
proof -
  have c1: "unat (cur_rx (nic s1)) = slot s 1" using unat_ring_next [OF c(1)] by (simp add: s1 slot_def)
  note sl = slot_Suc [OF c1]
  have r1: "rx_ring (nic s1) ! j = (if j = slot s 0 then rx_desc_back (rx_ring (nic s) ! j) else rx_ring (nic s) ! j)"
    if "j < 1024" for j using c that d by (simp add: s1 slot_0)
  have r2: "rx_ring (nic s2) ! j =
      (if \<exists>k < n. j = slot s (Suc k) then rx_desc_back (rx_ring (nic s1) ! j) else rx_ring (nic s1) ! j)"
    if "j < 1024" for j using t that by (simp add: taken_def sl)
  have "rx_ring (nic s2) ! j =
      (if \<exists>k < Suc n. j = slot s k then rx_desc_back (rx_ring (nic s) ! j) else rx_ring (nic s) ! j)"
    if j: "j < 1024" for j
  proof (cases "j = slot s 0")
    case True
    have "slot s (Suc k) \<noteq> slot s 0" if "k < n" for k
      using slot_neq_0 [of "Suc k", OF _ _ c(1)] n that slot_0 [OF c(1)] by simp
    then have "\<not> (\<exists>k < n. j = slot s (Suc k))" using True by metis
    with True r1 [OF j] r2 [OF j] show ?thesis by auto
  next
    case False
    then have "(\<exists>k < Suc n. j = slot s k) \<longleftrightarrow> (\<exists>k < n. j = slot s (Suc k))"
      using less_Suc_eq_0_disj by auto
    with False r1 [OF j] r2 [OF j] show ?thesis by auto
  qed
  with t show ?thesis by (simp add: taken_def sl)
qed

text \<open>After one frame the ring looks the same from the next slot on, and the loop stops where it would have stopped.\<close>

lemma receive_next:
  assumes i: "unat (cur_rx (nic s)) < 1024" "length (rx_ring (nic s)) = 1024"
    and s1: "nic s1 = (nic s)\<lparr>rx_ring := (rx_ring (nic s))[unat (cur_rx (nic s)) := rx_desc_back d], cur_rx := ring_next (cur_rx (nic s))\<rparr>"
  shows "slot s1 k = slot s (Suc k)"
    and "Suc k < 1024 \<Longrightarrow> rx_ring (nic s1) ! slot s (Suc k) = rx_ring (nic s) ! slot s (Suc k)"
    and "Suc n \<le> 1024 \<Longrightarrow> chip (m + Suc n) AND RxBufEmpty \<noteq> 0 \<or> Suc n = 1024 \<or> owned (rx_ring (nic s) ! slot s (Suc n)) \<Longrightarrow>
      chip (Suc m + n) AND RxBufEmpty \<noteq> 0 \<or> n = 1024 \<or> owned (rx_ring (nic s1) ! slot s1 n)"
proof -
  have c1: "unat (cur_rx (nic s1)) = slot s 1" using unat_ring_next [OF i(1)] by (simp add: s1 slot_def)
  note sl = slot_Suc [OF c1]
  show "slot s1 k = slot s (Suc k)" by (rule sl)
  have same: "rx_ring (nic s1) ! slot s (Suc k) = rx_ring (nic s) ! slot s (Suc k)" if "Suc k < 1024" for k
    using slot_neq_0 [OF _ that i(1)] by (simp add: s1)
  then show "Suc k < 1024 \<Longrightarrow> rx_ring (nic s1) ! slot s (Suc k) = rx_ring (nic s) ! slot s (Suc k)" .
  assume n: "Suc n \<le> 1024" and stop: "chip (m + Suc n) AND RxBufEmpty \<noteq> 0 \<or> Suc n = 1024 \<or> owned (rx_ring (nic s) ! slot s (Suc n))"
  show "chip (Suc m + n) AND RxBufEmpty \<noteq> 0 \<or> n = 1024 \<or> owned (rx_ring (nic s1) ! slot s1 n)"
  proof (cases "Suc n = 1024")
    case True
    have "slot s 1024 = unat (cur_rx (nic s))" using i(1) by (simp add: slot_def)
    then have "slot s1 n = unat (cur_rx (nic s))" using sl [of n] True by simp
    then have "owned (rx_ring (nic s1) ! slot s1 n)" using i by (simp add: s1)
    then show ?thesis by blast
  next
    case False
    then show ?thesis using n stop same [of n] by (simp add: sl)
  qed
qed

lemma receive_loop_ok:
  assumes "wq_inv s ts ws" and "nic_ok s" and "n \<le> 1024" and "3 * n \<le> avail s"
    and "\<And>k. k < n \<Longrightarrow> chip (m + k) AND RxBufEmpty = 0 \<and> has_frame (rx_ring (nic s) ! slot s k)"
    and "chip (m + n) AND RxBufEmpty \<noteq> 0 \<or> n = 1024 \<or> owned (rx_ring (nic s) ! slot s n)"
  shows "\<exists>is s'. receive_loop chip m s = Some (Inr s') \<and> wq_inv s' ts (ws @ is) \<and> length is = n \<and>
           nic_ok s' \<and> avail s' = avail s - 3 * n \<and> rx_keeps s s' \<and> taken n s s' \<and>
           (\<forall>y \<in> live s. y \<notin> set ws \<longrightarrow> links s' y = links s y \<and> y \<notin> set is) \<and>
           (\<forall>k < n. delivered s (rx_ring (nic s) ! slot s k) s' (is ! k))"
  using assms
proof (induction n arbitrary: s ws m)
  case 0
  have i: "unat (cur_rx (nic s)) < 1024" "length (rx_ring (nic s)) = 1024"
    using "0.prems"(2) by (simp_all add: nic_ok_def RX_RING_SIZE_def)
  have "chip m AND RxBufEmpty \<noteq> 0 \<or> opts1 (rx_ring (nic s) ! unat (cur_rx (nic s))) AND DescOwn \<noteq> 0"
    using "0.prems"(6) slot_0 [OF i(1)] by (simp add: owned_def)
  then have "receive_loop chip m s = Some (Inr s)"
    using i by (subst receive_loop.simps) auto
  with "0.prems"(1,2) i show ?case by (auto simp: rx_keeps_refl taken_def slot_0)
next
  case (Suc n)
  let ?d = "rx_ring (nic s) ! slot s 0"
  have i: "unat (cur_rx (nic s)) < 1024" "length (rx_ring (nic s)) = 1024"
    using Suc.prems(2) by (simp_all add: nic_ok_def RX_RING_SIZE_def)
  have c: "chip m AND RxBufEmpty = 0" and f: "has_frame ?d" using Suc.prems(5) [of 0] by simp_all
  have d: "\<not> owned ?d" "4 \<le> unat (opts1 ?d AND 0x1fff)" "dma_ok ?d" using f by (simp_all add: has_frame_def)
  have "3 \<le> avail s" using Suc.prems(4) by simp
  from receive_one_keeps [OF Suc.prems(1) this d(2,3)] obtain w s1 where
    s1: "receive_one ?d s = Inr s1" "wq_inv s1 ts (ws @ [w])" "avail s1 = avail s - 3" "delivered s ?d s1 w"
      "rx_keeps s s1" "(\<forall>y \<in> live s. y \<notin> set ws \<longrightarrow> links s1 y = links s y) \<and> w \<notin> live s"
      "nic s1 = (nic s)\<lparr>rx_ring := (rx_ring (nic s))[unat (cur_rx (nic s)) := rx_desc_back ?d],
                           cur_rx := ring_next (cur_rx (nic s))\<rparr>" by blast
  note nx = receive_next [OF i s1(7)]
  have ok1: "nic_ok s1"
    using Suc.prems(2) ring_next_bound [OF i(1)] s1(5) by (simp add: nic_ok_def s1(7) RX_RING_SIZE_def rx_keeps_def rx_same_def)
  have fr: "chip (Suc m + k) AND RxBufEmpty = 0 \<and> has_frame (rx_ring (nic s1) ! slot s1 k)" if "k < n" for k
    using Suc.prems(5) [of "Suc k"] Suc.prems(3) that nx(2) [of k] by (simp add: nx(1))
  note st = nx(3) [of n chip m, OF Suc.prems(3,6)]
  have "n \<le> 1024" "3 * n \<le> avail s1" using Suc.prems(3,4) s1(3) by simp_all
  from Suc.IH [OF s1(2) ok1 this fr st] Suc.prems(3) obtain js s2 where
    s2: "receive_loop chip (Suc m) s1 = Some (Inr s2)" "wq_inv s2 ts ((ws @ [w]) @ js)" "length js = n" "nic_ok s2"
      "avail s2 = avail s1 - 3 * n" "rx_keeps s1 s2" "taken n s1 s2"
      "\<forall>y \<in> live s1. y \<notin> set (ws @ [w]) \<longrightarrow> links s2 y = links s1 y \<and> y \<notin> set js"
      "\<And>k. k < n \<Longrightarrow> delivered s1 (rx_ring (nic s1) ! slot s1 k) s2 (js ! k)" by auto
  have "receive_loop chip m s = Some (Inr s2)"
    using c d(1) i s1(1) s2(1) slot_0 [OF i(1)] by (subst receive_loop.simps) (simp add: owned_def)
  moreover have "delivered s (rx_ring (nic s) ! slot s k) s2 ((w # js) ! k)" if k: "k < Suc n" for k
  proof -
    let ?e = "rx_ring (nic s) ! slot s k"
    have e: "dma_ok ?e" "unat (frame_len ?e) < 8192"
      using Suc.prems(5) [OF k] frame_len_bound [of ?e] unat_frame_len [of ?e] by (auto simp: has_frame_def)
    show ?thesis
    proof (cases k)
      case 0
      with delivered_keeps [OF s1(4) s2(6)] e(2) show ?thesis by simp
    next
      case (Suc k')
      with k Suc.prems(3) have "delivered s1 ?e s2 (js ! k')" using s2(9) [of k'] nx(2) [of k'] by (simp add: nx(1))
      from delivered_before [OF this s1(5) e] show ?thesis using Suc by simp
    qed
  qed
  moreover have "taken (Suc n) s s2" using taken_Suc [OF i s1(7) refl s2(7)] Suc.prems(3) by simp
  moreover have "links s2 y = links s y \<and> y \<notin> set (w # js)" if "y \<in> live s" "y \<notin> set ws" for y
    using that s1(5,6) s2(8) by (auto simp: rx_keeps_def)
  ultimately show ?case
    using s2(2-5) s1(3) rx_keeps_trans [OF s1(5) s2(6)]
    by (intro exI [of _ "w # js"] exI [of _ s2]) simp
qed


section \<open>Initialisation\<close>

lemma split_address: "push_bit 32 (ucast (ucast (drop_bit 32 a AND 0xffffffff) :: u32)) + ucast (ucast (a AND 0xffffffff) :: u32) = (a :: addr)"
proof -
  have m: "(0xffffffff :: addr) = mask 32" by (simp add: mask_eq_exp_minus_1)
  have "push_bit 32 (ucast (ucast (drop_bit 32 a AND mask 32) :: u32)) + ucast (ucast (a AND mask 32) :: u32)
      = push_bit 32 (ucast (ucast (drop_bit 32 a AND mask 32) :: u32)) OR (ucast (ucast (a AND mask 32) :: u32) :: addr)"
    by (rule disjunctive_add_eq_or, rule bit_word_eqI) (auto simp: bit_simps)
  also have "\<dots> = a" by (rule bit_word_eqI) (auto simp: bit_simps dest: bit_imp_le_length)
  finally show ?thesis unfolding m .
qed

lemma desc_addr_setup: "desc_addr (setup_rx_desc base i d) = base + of_nat i * 1536"
  by (simp add: desc_addr_def setup_rx_desc_def Let_def RX_BUF_SIZE_def split_address)

lemma setup_rx_nth:
  "i < 1024 \<Longrightarrow> rx_ring (nic (setup_rx_descriptors s)) ! i = setup_rx_desc (rx_buf (nic s)) i (rx_ring (nic s) ! i)"
  by (simp add: setup_rx_descriptors_def Let_def RX_RING_SIZE_def)

lemma rx_buffers_disjoint:
  assumes "i < j" and "j < 1024"
  shows "region (base + of_nat i * 1536) 1536 \<inter> region (base + of_nat j * 1536) 1536 = {}"
proof -
  have False if "k < 1536" "l < 1536" and eq: "base + of_nat i * 1536 + of_nat k = base + of_nat j * 1536 + (of_nat l :: addr)" for k l
  proof -
    from eq have "(of_nat (i * 1536 + k) :: addr) = of_nat (j * 1536 + l)" by (simp add: ac_simps)
    then have "i * 1536 + k = j * 1536 + l" using assms that(1,2) by (subst (asm) of_nat64_eq_iff) simp_all
    moreover have "(i * 1536 + k) div 1536 = i" "(j * 1536 + l) div 1536 = j" using that(1,2) by simp_all
    ultimately show False using assms(1) by simp
  qed
  then show ?thesis by (auto simp: region_def)
qed

lemma opts1_setup:
  "owned (setup_rx_desc base i d)" "opts1 (setup_rx_desc base i d) AND RingEnd \<noteq> 0 \<longleftrightarrow> i = 1023"
  "opts1 (setup_rx_desc base i d) AND 0x1fff = 1536"
  by (simp_all add: owned_def setup_rx_desc_def Let_def DescOwn_def RingEnd_def RX_BUF_SIZE_def RX_RING_SIZE_def)

section \<open>Properties\<close>

text \<open>
  C14: the receive interrupt hands every frame the card has finished with to the work queue: the loop ends,
  it queues one call of \<open>ether_rx\<close> per frame, in the order of the ring and behind what was queued, each
  with its own copy of the frame, gives each descriptor back to the card, moves its position around the
  ring, and disturbs no block in use. \<open>n\<close> is the number of frames; three blocks of memory are used for each.
\<close>

theorem receive_packet_delivers:
  assumes "wq_inv s ts ws" and "nic_ok s" and "n \<le> 1024" and "3 * n \<le> avail s"
    and "\<And>k. k < n \<Longrightarrow> chip k AND RxBufEmpty = 0 \<and> has_frame (rx_ring (nic s) ! slot s k)"
    and "chip n AND RxBufEmpty \<noteq> 0 \<or> n = 1024 \<or> owned (rx_ring (nic s) ! slot s n)"
  shows "\<exists>is s'. receive_packet chip s = Inr s' \<and> wq_inv s' ts (ws @ is) \<and> length is = n \<and>
           (\<forall>k < n. delivered s (rx_ring (nic s) ! slot s k) s' (is ! k)) \<and>
           taken n s s' \<and> nic_ok s' \<and> rx_keeps s s' \<and> avail s' = avail s - 3 * n"
proof -
  from receive_loop_ok [OF assms(1-4), of chip 0] assms(5,6) obtain "is" s' where
    "receive_loop chip 0 s = Some (Inr s')" "wq_inv s' ts (ws @ is)" "length is = n" "nic_ok s'"
    "avail s' = avail s - 3 * n" "rx_keeps s s'" "taken n s s'"
    "\<forall>k < n. delivered s (rx_ring (nic s) ! slot s k) s' (is ! k)" by auto
  then show ?thesis by (intro exI [of _ "is"] exI [of _ s']) (simp add: receive_packet_def ended_def)
qed

text \<open>
  C19: the driver sends a frame only through a descriptor it owns. If the card still owns the descriptor the
  frame is dropped and only the log changes; otherwise the frame is copied to the descriptor's buffer, the
  descriptor is passed to the card as one whole frame of that length, with the end-of-ring mark exactly on
  the last one, the position moves around the ring, and the card is told to look.
\<close>

theorem r8169_tx_ring:
  assumes "nic_ok s"
  shows "let dev = nic s; i = cur_tx dev; d = tx_ring dev ! unat i; p = pktbufs s pkt in
     (owned d \<longrightarrow> (\<exists>c. r8169_tx pkt s = Inr (s\<lparr>console := c\<rparr>))) \<and>
     (\<not> owned d \<longrightarrow> r8169_tx pkt s =
        Inr (s\<lparr>mem8 := memcpy (desc_addr d) (pb_head p) (pkt_len p) (mem8 s),
               nic := dev\<lparr>tx_ring := (tx_ring dev)[unat i := tx_desc_sent i (pkt_len p) d], cur_tx := ring_next i\<rparr>,
               io_log := io_log s @ [Out8 (reg_port (ioaddr dev) 0x38) 0x40]\<rparr>)) \<and>
     unat (ring_next i) = (unat i + 1) mod 1024"
proof -
  have "nd_tx (netdev s) = Some R8169Tx" "unat (cur_tx (nic s)) < 1024"
    using assms by (simp_all add: nic_ok_def TX_RING_SIZE_def)
  then show ?thesis
    using r8169_tx_eq [OF assms, of pkt] printstr_log_eq [of "''TX processing failed'' @ nl" s]
    by (auto simp: netdev_tx_def Let_def io_out8_def unat_ring_next)
qed

text \<open>
  After \<open>setup_rx_descriptors\<close> every receive descriptor belongs to the card and offers a buffer of 1536
  bytes of its own, and only the last one carries the end-of-ring mark.
\<close>

theorem rx_ring_initialised:
  assumes "i < 1024"
  shows "let r = rx_ring (nic (setup_rx_descriptors s)) in
     length r = 1024 \<and> owned (r ! i) \<and> opts1 (r ! i) AND 0x1fff = 1536 \<and>
     (opts1 (r ! i) AND RingEnd \<noteq> 0 \<longleftrightarrow> i = 1023) \<and> desc_addr (r ! i) = rx_buf (nic s) + of_nat i * 1536 \<and>
     (\<forall>j. i < j \<longrightarrow> j < 1024 \<longrightarrow> region (desc_addr (r ! i)) 1536 \<inter> region (desc_addr (r ! j)) 1536 = {})"
  using assms rx_buffers_disjoint [of i _ "rx_buf (nic s)"]
  by (simp add: setup_rx_nth desc_addr_setup opts1_setup) (simp add: setup_rx_descriptors_def Let_def RX_RING_SIZE_def)

end
