(* ===== verification/Ether.thy ===== *)
theory Ether
  imports Netdev
begin

text \<open>
  The parts every sender shares: packet buffers (\<^verbatim>\<open>kernel/net/pktbuf.h\<close>), the Ethernet header of
  \<^verbatim>\<open>kernel/net/ether.c\<close>, and the address resolution protocol of \<^verbatim>\<open>kernel/net/arp.c\<close>. A header is
  written field by field into the byte memory, at the offsets its packed structure has in C.
\<close>

section \<open>Packet buffers\<close>

definition sizeof_ether_hdr :: u32 where "sizeof_ether_hdr = 14"

text \<open>
  The lines every sender starts with: a \<open>struct pktbuf\<close>, then a buffer of \<open>len\<close> bytes it points to.
\<close>

definition new_pkt :: "u32 \<Rightarrow> string \<Rightarrow> string \<Rightarrow> 'a net_state_scheme \<Rightarrow> (addr \<times> 'a net_state_scheme) res" where
  "new_pkt len nm nm_buf s =
     bindr (mem_alloc sizeof_pktbuf nm s) (\<lambda>(pkt, s1).
     bindr (mem_alloc len nm_buf s1) (\<lambda>(buf, s2).
     Inr (pkt, s2\<lparr>pktbufs := (pktbufs s2)(pkt := \<lparr>pkt_len = len, pb_buf = buf, pb_head = buf\<rparr>)\<rparr>)))"

text \<open>\<open>mem_free (pkt->buf_head); mem_free (pkt);\<close>\<close>

definition free_pkt :: "addr \<Rightarrow> 'a net_state_scheme \<Rightarrow> 'a net_state_scheme res" where
  "free_pkt pkt s = bindr (mem_free (pb_head (pktbufs s pkt)) s) (mem_free pkt)"

text \<open>\<open>pkt->buf = a\<close>, and \<open>pkt->buf += n\<close>.\<close>

definition set_buf :: "addr \<Rightarrow> addr \<Rightarrow> 'a net_state_scheme \<Rightarrow> 'a net_state_scheme" where
  "set_buf pkt a s = s\<lparr>pktbufs := (pktbufs s)(pkt := (pktbufs s pkt)\<lparr>pb_buf := a\<rparr>)\<rparr>"

definition adv_buf :: "addr \<Rightarrow> addr \<Rightarrow> 'a net_state_scheme \<Rightarrow> 'a net_state_scheme" where
  "adv_buf pkt n s = set_buf pkt (pb_buf (pktbufs s pkt) + n) s"

text \<open>A sequence of stores to memory.\<close>

definition store :: "(bytes \<Rightarrow> bytes) \<Rightarrow> 'a machine_scheme \<Rightarrow> 'a machine_scheme" where
  "store f s = s\<lparr>mem8 := f (mem8 s)\<rparr>"

section \<open>Ethernet\<close>

definition ETHER_TYPE_IPV4 :: u16 where "ETHER_TYPE_IPV4 = 0x0800"
definition ETHER_TYPE_ARP :: u16 where "ETHER_TYPE_ARP = 0x0806"

text \<open>
  \<open>struct ether_hdr\<close>: destination at 0, source at 6, type at 12. The destination address is passed by
  value; no caller passes one that the header being written overlaps.
\<close>

definition ether_hdr :: "addr \<Rightarrow> u8 list \<Rightarrow> u8 list \<Rightarrow> u16 \<Rightarrow> bytes \<Rightarrow> bytes" where
  "ether_hdr a dmac smac ty m = wr16 (a + 12) (hton16 ty) (wr_list (a + 6) smac (wr_list a dmac m))"

definition ether_tx :: "addr \<Rightarrow> u8 list \<Rightarrow> u16 \<Rightarrow> 'a net_state_scheme \<Rightarrow> 'a net_state_scheme res" where
  "ether_tx pkt dst_mac proto s =
     netdev_tx pkt (store (ether_hdr (pb_buf (pktbufs s pkt)) dst_mac (hw_addr (netdev s)) proto) s)"

section \<open>ARP\<close>

definition MAX_ARP_TABLE :: nat where "MAX_ARP_TABLE = 256"

record arpentry =
  ae_mac :: "u8 list"
  ae_ip :: u32

record arptable_t =
  next_entry_idx :: u32
  table :: "arpentry list"

record arp_state = net_state +
  arptable :: arptable_t

definition ARP_HARD_TYPE_ETHER :: u16 where "ARP_HARD_TYPE_ETHER = 1"
definition ARP_PROTO_TCPIP :: u16 where "ARP_PROTO_TCPIP = 0x0800"
definition ARP_HLEN_ETHER :: u8 where "ARP_HLEN_ETHER = 6"
definition ARP_PLEN_ETHER :: u8 where "ARP_PLEN_ETHER = 4"
definition ARP_OP_REQUEST :: u16 where "ARP_OP_REQUEST = 1"
definition ARP_OP_RESPONSE :: u16 where "ARP_OP_RESPONSE = 2"
definition sizeof_arp_hdr :: u32 where "sizeof_arp_hdr = 8"
definition sizeof_arp_etherip :: u32 where "sizeof_arp_etherip = 20"

definition ARP_PKT_LEN :: u32 where
  "ARP_PKT_LEN = sizeof_ether_hdr + sizeof_arp_hdr + sizeof_arp_etherip"

definition init_arptable :: "'a arp_state_scheme \<Rightarrow> 'a arp_state_scheme" where
  "init_arptable s =
     printstr_log (''Initialized ARP table'' @ nl) (s\<lparr>arptable := (arptable s)\<lparr>next_entry_idx := 0\<rparr>\<rparr>)"

definition register_arpentry :: "u8 list \<Rightarrow> u32 \<Rightarrow> 'a arp_state_scheme \<Rightarrow> 'a arp_state_scheme res" where
  "register_arpentry mac_addr ip s =
     (let t = arptable s; entry_id = next_entry_idx t in
      bindr (arr_set (table t) (unat entry_id) \<lparr>ae_mac = mac_addr, ae_ip = ip\<rparr>) (\<lambda>tbl.
      Inr (s\<lparr>arptable := \<lparr>next_entry_idx = entry_id + 1, table = tbl\<rparr>\<rparr>)))"

text \<open>The loop of \<open>find_mac_addr\<close> over the first \<open>next_entry_idx\<close> entries; \<open>None\<close> is the null pointer.\<close>

fun find_entry :: "u32 \<Rightarrow> arpentry list \<Rightarrow> u8 list option" where
  "find_entry ip [] = None"
| "find_entry ip (e # es) = (if ae_ip e = ip then Some (ae_mac e) else find_entry ip es)"

definition find_mac_addr :: "u32 \<Rightarrow> 'a arp_state_scheme \<Rightarrow> u8 list option" where
  "find_mac_addr ip s = find_entry ip (take (unat (next_entry_idx (arptable s))) (table (arptable s)))"

text \<open>\<open>struct arp_hdr\<close> at \<open>a\<close> and \<open>struct arp_etherip\<close> (sender, then target) behind it.\<close>

definition arp_hdr :: "addr \<Rightarrow> u16 \<Rightarrow> bytes \<Rightarrow> bytes" where
  "arp_hdr a opcode m =
     wr16 (a + 6) (hton16 opcode)
      (wr8 (a + 5) ARP_PLEN_ETHER
       (wr8 (a + 4) ARP_HLEN_ETHER
        (wr16 (a + 2) (hton16 ARP_PROTO_TCPIP) (wr16 a (hton16 ARP_HARD_TYPE_ETHER) m))))"

definition arp_etherip :: "addr \<Rightarrow> u8 list \<Rightarrow> u32 \<Rightarrow> u8 list \<Rightarrow> u32 \<Rightarrow> bytes \<Rightarrow> bytes" where
  "arp_etherip a smac sip dmac dip m =
     wr32 (a + 6) sip (wr_list a smac (wr32 (a + 16) dip (wr_list (a + 10) dmac m)))"

text \<open>
  The reply is built in blocks of its own, so the fields of the request are the same whenever the code
  reads them; the model reads them once.
\<close>

definition handle_arp_request :: "addr \<Rightarrow> 'a arp_state_scheme \<Rightarrow> 'a arp_state_scheme res" where
  "handle_arp_request arp s =
     (let dev = netdev s; smac = bytes_at (mem8 s) arp 6; sip = rd32 (mem8 s) (arp + 6) in
      if ntoh32 (rd32 (mem8 s) (arp + 16)) = ip_addr dev
      then
        bindr (new_pkt ARP_PKT_LEN ''arp_reply_pbuf'' ''arp_reply_pbuf_buf'' s) (\<lambda>(pkt, s1).
        let b = pb_buf (pktbufs s1 pkt) + ucast sizeof_ether_hdr;
            s2 = store (arp_hdr b ARP_OP_RESPONSE) s1;
            s3 = store (arp_etherip (b + ucast sizeof_arp_hdr) (hw_addr dev) (hton32 (ip_addr dev)) smac sip) s2 in
        bindr (ether_tx pkt smac ETHER_TYPE_ARP s3) (\<lambda>s4.
        bindr (register_arpentry smac (ntoh32 sip) s4) (free_pkt pkt)))
      else Inr s)"

definition handle_arp_response :: "addr \<Rightarrow> 'a arp_state_scheme \<Rightarrow> 'a arp_state_scheme res" where
  "handle_arp_response arp s =
     register_arpentry (bytes_at (mem8 s) arp 6) (ntoh32 (rd32 (mem8 s) (arp + 6))) s"

definition arp_rx :: "addr \<Rightarrow> 'a arp_state_scheme \<Rightarrow> 'a arp_state_scheme res" where
  "arp_rx pkt s =
     (let s1 = printstr_log (''ARP RX'' @ nl) s;
          arphdr = pb_buf (pktbufs s1 pkt);
          s2 = adv_buf pkt (ucast sizeof_arp_hdr) s1;
          arp = pb_buf (pktbufs s2 pkt);
          m = mem8 s2 in
      if ntoh16 (rd16 m arphdr) \<noteq> ARP_HARD_TYPE_ETHER \<or> ntoh16 (rd16 m (arphdr + 2)) \<noteq> ARP_PROTO_TCPIP \<or>
         m (arphdr + 4) \<noteq> ARP_HLEN_ETHER \<or> m (arphdr + 5) \<noteq> ARP_PLEN_ETHER
      then Inr (printstr_log (''invalid arp packet'' @ nl) s2)
      else
        let opcode = ntoh16 (rd16 m (arphdr + 6)) in
        if opcode = ARP_OP_REQUEST then handle_arp_request arp s2
        else if opcode = ARP_OP_RESPONSE then handle_arp_response arp s2
        else Inr (printstr_log (''unknown arp opcode'' @ nl) s2))"

definition arp_tx :: "u32 \<Rightarrow> 'a arp_state_scheme \<Rightarrow> 'a arp_state_scheme res" where
  "arp_tx dip s =
     (let dev = netdev s; bcast = replicate 6 0xff in
      bindr (new_pkt ARP_PKT_LEN ''arp_req_pbuf'' ''arp_req_pbuf_buf'' s) (\<lambda>(pkt, s1).
      let b = pb_buf (pktbufs s1 pkt) + ucast sizeof_ether_hdr;
          s2 = store (arp_hdr b ARP_OP_REQUEST) s1;
          s3 = store (arp_etherip (b + ucast sizeof_arp_hdr) (hw_addr dev) (hton32 (ip_addr dev))
                 bcast (hton32 dip)) s2 in
      bindr (ether_tx pkt bcast ETHER_TYPE_ARP s3) (free_pkt pkt)))"

section \<open>What sending changes\<close>

text \<open>
  A sender may write packet memory and the log, use the card, and take blocks as long as it gives them
  back; the length and the block of a packet buffer that others hold stay as they are.
\<close>

definition net_same :: "'a net_state_scheme \<Rightarrow> 'a net_state_scheme \<Rightarrow> bool" where
  "net_same s s' =
     ((\<exists>m pb n c l fm mh. s' = s\<lparr>mem8 := m, pktbufs := pb, nic := n, console := c, io_log := l,
         freemem := fm, memhdrs := mh\<rparr>) \<and>
      mem_inv s' \<and> live s' = live s \<and> avail s' = avail s \<and> nic_ok s' \<and>
      (\<forall>p \<in> live s. pkt_len (pktbufs s' p) = pkt_len (pktbufs s p) \<and> pb_head (pktbufs s' p) = pb_head (pktbufs s p)))"

definition tx_ready :: "nat \<Rightarrow> 'a net_state_scheme \<Rightarrow> bool" where
  "tx_ready n s = (mem_inv s \<and> n \<le> avail s \<and> nic_ok s)"

lemma tx_readyD: "tx_ready n s \<Longrightarrow> mem_inv s" "tx_ready n s \<Longrightarrow> n \<le> avail s" "tx_ready n s \<Longrightarrow> nic_ok s"
  by (simp_all add: tx_ready_def)

lemma net_same_refl: "tx_ready n s \<Longrightarrow> net_same s s"
  unfolding net_same_def tx_ready_def
  by (intro conjI exI [of _ "mem8 s"] exI [of _ "pktbufs s"] exI [of _ "nic s"] exI [of _ "console s"]
      exI [of _ "io_log s"] exI [of _ "freemem s"] exI [of _ "memhdrs s"]) simp_all

lemma net_same_trans: "net_same s s1 \<Longrightarrow> net_same s1 s2 \<Longrightarrow> net_same s s2"
  unfolding net_same_def by (elim conjE exE, intro conjI) (simp_all, intro exI, rule refl)

lemma net_same_ready: "tx_ready n s \<Longrightarrow> net_same s s' \<Longrightarrow> tx_ready n s'"
  by (simp add: tx_ready_def net_same_def)

lemma net_same_fields:
  assumes "net_same s s'"
  shows "links s' = links s" "timers s' = timers s" "timer_list s' = timer_list s" "wq s' = wq s" "works s' = works s"
    "taskctl s' = taskctl s" "task_links s' = task_links s" "tick s' = tick s" "rflags s' = rflags s"
    "netdev s' = netdev s" "net_state.more s' = net_state.more s"
  using assms by (auto simp: net_same_def)

lemma net_same_wq: "wq_inv s ts ws \<Longrightarrow> net_same s s' \<Longrightarrow> wq_inv s' ts ws"
  using net_same_fields [of s s'] by (simp add: wq_view wq_ok_def net_same_def mem_view)

lemma wq_tx_ready: "wq_inv s ts ws \<Longrightarrow> nic_ok s \<Longrightarrow> n \<le> avail s \<Longrightarrow> tx_ready n s"
  by (simp add: tx_ready_def wq_inv_mem)

text \<open>Writing memory, moving the data pointer of a packet, printing.\<close>

lemma net_same_simple:
  assumes "tx_ready n s" and "s' = s\<lparr>mem8 := m, pktbufs := (pktbufs s)(p := (pktbufs s p)\<lparr>pb_buf := a\<rparr>), console := c\<rparr>"
  shows "net_same s s'"
  unfolding net_same_def
proof (intro conjI)
  show "\<exists>m pb n c l fm mh. s' = s\<lparr>mem8 := m, pktbufs := pb, nic := n, console := c, io_log := l, freemem := fm, memhdrs := mh\<rparr>"
    by (intro exI [of _ m] exI [of _ "(pktbufs s)(p := (pktbufs s p)\<lparr>pb_buf := a\<rparr>)"] exI [of _ "nic s"] exI [of _ c]
        exI [of _ "io_log s"] exI [of _ "freemem s"] exI [of _ "memhdrs s"]) (simp add: assms(2))
qed (use assms in \<open>simp_all add: tx_ready_def mem_view nic_ok_def\<close>)

lemma net_same_store: "tx_ready n s \<Longrightarrow> net_same s (store f s)"
  by (rule net_same_simple [where m = "f (mem8 s)" and p = p and a = "pb_buf (pktbufs s p)" and c = "console s" for p])
    (simp_all add: store_def)

lemma net_same_set_buf: "tx_ready n s \<Longrightarrow> net_same s (set_buf p a s)"
  by (rule net_same_simple [where m = "mem8 s" and p = p and a = a and c = "console s"]) (simp_all add: set_buf_def)

lemma net_same_log: "tx_ready n s \<Longrightarrow> net_same s (printstr_log str s)"
  by (rule net_same_simple [where m = "mem8 s" and p = p and a = "pb_buf (pktbufs s p)"
        and c = "con_after (printstr_log str) s" for p]) (simp_all, subst printstr_log_eq, simp)

lemma net_same_num: "tx_ready n s \<Longrightarrow> net_same s (printnum_log k s)"
  by (rule net_same_simple [where m = "mem8 s" and p = p and a = "pb_buf (pktbufs s p)"
        and c = "con_after (printnum_log k) s" for p]) (simp_all, subst printnum_log_eq, simp)

lemma net_same_app: "tx_ready n s \<Longrightarrow> net_same s (printstr_app str s)"
  by (rule net_same_simple [where m = "mem8 s" and p = p and a = "pb_buf (pktbufs s p)"
        and c = "con_after (printstr_app str) s" for p]) (simp_all, subst printstr_app_eq, simp)

text \<open>One more step after a chain of such changes.\<close>

lemma net_same_step:
  assumes "tx_ready n s" and "net_same s s1"
  shows "net_same s (store f s1)" "net_same s (set_buf p a s1)" "net_same s (printstr_log str s1)"
    "net_same s (printnum_log k s1)" "net_same s (printstr_app str s1)"
  using net_same_trans [OF assms(2)] net_same_ready [OF assms] net_same_store net_same_set_buf net_same_log
    net_same_num net_same_app by blast+

lemma net_same_tx: "tx_ready n s \<Longrightarrow> \<exists>s'. netdev_tx pkt s = Inr s' \<and> net_same s s'"
proof -
  assume r: "tx_ready n s"
  from netdev_tx_ok [OF tx_readyD(3) [OF r], of pkt] obtain s' where s': "netdev_tx pkt s = Inr s'" "nic_ok s'" "tx_rest s s'"
    by blast
  from s'(3) obtain m nc c l where eq: "s' = s\<lparr>mem8 := m, nic := nc, console := c, io_log := l\<rparr>" by (auto simp: tx_rest_def)
  have "\<exists>m pb n c l fm mh. s' = s\<lparr>mem8 := m, pktbufs := pb, nic := n, console := c, io_log := l, freemem := fm, memhdrs := mh\<rparr>"
    by (intro exI [of _ m] exI [of _ "pktbufs s"] exI [of _ nc] exI [of _ c]
        exI [of _ l] exI [of _ "freemem s"] exI [of _ "memhdrs s"]) (simp add: eq)
  then have "net_same s s'" using r s'(2) unfolding net_same_def by (simp add: eq tx_ready_def mem_view)
  with s'(1) show ?thesis by blast
qed


section \<open>Building, sending and releasing a packet\<close>

lemma pktbuf_fits: "mem_fits sizeof_pktbuf"
  by (simp add: mem_fits_def sizeof_pktbuf_def MEM_GRANULARITY_def)

lemma new_pkt_ok:
  assumes "tx_ready (Suc (Suc n)) s" and "mem_fits len"
  shows "\<exists>p b s'. new_pkt len nm nm_buf s = Inr (p, s') \<and> tx_ready n s' \<and> p \<noteq> b \<and> {p, b} \<inter> live s = {} \<and>
           live s' = {p, b} \<union> live s \<and> avail s' = avail s - 2 \<and>
           (\<exists>fm mh. s' = s\<lparr>freemem := fm, memhdrs := mh,
              pktbufs := (pktbufs s)(p := \<lparr>pkt_len = len, pb_buf = b, pb_head = b\<rparr>)\<rparr>)"
proof -
  note r = tx_readyD [OF assms(1)]
  obtain p s1 where s1: "mem_alloc sizeof_pktbuf nm s = Inr (p, s1)" "mem_inv s1" "p \<notin> live s"
    "live s1 = insert p (live s)" "avail s1 = avail s - 1" "mem_rest s s1"
    by (rule kmem.allocE [OF r(1) pktbuf_fits]) (use r(2) in auto)
  obtain b s2 where s2: "mem_alloc len nm_buf s1 = Inr (b, s2)" "mem_inv s2" "b \<notin> live s1"
    "live s2 = insert b (live s1)" "avail s2 = avail s1 - 1" "mem_rest s1 s2"
    by (rule kmem.allocE [OF s1(2) assms(2)]) (use r(2) s1(5) in auto)
  from s1(6) s2(6) obtain fm mh where e: "s2 = s\<lparr>freemem := fm, memhdrs := mh\<rparr>" by (auto simp: mem_rest_def)
  let ?s = "s2\<lparr>pktbufs := (pktbufs s2)(p := \<lparr>pkt_len = len, pb_buf = b, pb_head = b\<rparr>)\<rparr>"
  have "new_pkt len nm nm_buf s = Inr (p, ?s)" using s1(1) s2(1) by (simp add: new_pkt_def)
  moreover have "tx_ready n ?s" using r s1(5) s2(2,5) by (simp add: tx_ready_def mem_view nic_ok_def e)
  moreover have "live ?s = {p, b} \<union> live s" "avail ?s = avail s - 2" using s1(4,5) s2(4,5) by (auto simp: mem_view)
  ultimately show ?thesis
    using s1(3,4) s2(3) by (intro exI [of _ p] exI [of _ b] exI [of _ ?s]) (auto simp: e)
qed

lemma free_pkt_ok:
  assumes "mem_inv s" and "p \<in> live s" and "pb_head (pktbufs s p) \<in> live s" and "pb_head (pktbufs s p) \<noteq> p"
  shows "\<exists>s'. free_pkt p s = Inr s' \<and> mem_inv s' \<and> live s' = live s - {p, pb_head (pktbufs s p)} \<and>
           avail s' = avail s + 2 \<and> mem_rest s s'"
proof -
  obtain s1 where s1: "mem_free (pb_head (pktbufs s p)) s = Inr s1" "mem_inv s1"
    "live s1 = live s - {pb_head (pktbufs s p)}" "avail s1 = avail s + 1" "mem_rest s s1"
    by (rule kmem.freeE [OF assms(1,3)])
  have "p \<in> live s1" using s1(3) assms(2,4) by auto
  then obtain s2 where s2: "mem_free p s1 = Inr s2" "mem_inv s2" "live s2 = live s1 - {p}"
    "avail s2 = avail s1 + 1" "mem_rest s1 s2" by (rule kmem.freeE [OF s1(2)])
  have "free_pkt p s = Inr s2" using s1(1) s2(1) by (simp add: free_pkt_def)
  with s1 s2 kmem.rest_trans [OF s1(5) s2(5)] show ?thesis by (intro exI [of _ s2]) auto
qed

lemma free_pkt_rest: "free_pkt p s = Inr s' \<Longrightarrow> mem_rest s s'"
  by (auto simp: free_pkt_def bindr_eq_Inr dest!: mem_free_rest intro: kmem.rest_trans)

text \<open>
  The contract of a layer that sends a packet somebody else has built: with \<open>need\<close> free blocks it returns
  and leaves the packet to its owner. Every sender above it then follows the same pattern: allocate, fill
  in, send, release.
\<close>

locale packet_layer =
  fixes lower :: "addr \<Rightarrow> 'a net_state_scheme \<Rightarrow> 'a net_state_scheme res" and need :: nat
  assumes lower_ok: "tx_ready need s \<Longrightarrow> \<exists>s'. lower pkt s = Inr s' \<and> net_same s s'"
begin

lemma send_packet:
  assumes r: "tx_ready (Suc (Suc need)) s" and len: "mem_fits len"
    and fill: "\<And>pkt s1. tx_ready need s1 \<Longrightarrow> net_same s1 (fill pkt s1)"
  shows "\<exists>s'. bindr (new_pkt len nm nm_buf s) (\<lambda>(pkt, s1). bindr (lower pkt (fill pkt s1)) (free_pkt pkt)) = Inr s' \<and>
           net_same s s'"
proof -
  from new_pkt_ok [OF r len, of nm nm_buf] obtain p b s1 fm mh where
    s1: "new_pkt len nm nm_buf s = Inr (p, s1)" "tx_ready need s1" "p \<noteq> b" "{p, b} \<inter> live s = {}"
      "live s1 = {p, b} \<union> live s" "avail s1 = avail s - 2"
    and e1: "s1 = s\<lparr>freemem := fm, memhdrs := mh,
               pktbufs := (pktbufs s)(p := \<lparr>pkt_len = len, pb_buf = b, pb_head = b\<rparr>)\<rparr>" by blast
  note f = fill [OF s1(2), of p]
  from lower_ok [OF net_same_ready [OF s1(2) f], of p] obtain s2 where
    s2: "lower p (fill p s1) = Inr s2" "net_same (fill p s1) s2" by blast
  have s12: "net_same s1 s2" by (rule net_same_trans [OF f s2(2)])
  have hd: "pb_head (pktbufs s2 p) = b" using s12 s1(5) by (simp add: net_same_def e1)
  have "mem_inv s2" "live s2 = live s1" "avail s2 = avail s1" using s12 by (simp_all add: net_same_def)
  with free_pkt_ok [of s2 p] hd s1(3,5) obtain s3 where
    s3: "free_pkt p s2 = Inr s3" "mem_inv s3" "live s3 = live s1 - {p, b}" "avail s3 = avail s1 + 2" "mem_rest s2 s3"
    by auto
  from s12 s3(5) obtain m pb n c l fm2 mh2 where
    e3: "s3 = s1\<lparr>mem8 := m, pktbufs := pb, nic := n, console := c, io_log := l, freemem := fm2, memhdrs := mh2\<rparr>"
    by (auto simp: net_same_def mem_rest_def)
  have pb: "pktbufs s3 = pktbufs s2" "nic_ok s3 = nic_ok s2" using s3(5) by (auto simp: mem_rest_def nic_ok_def)
  have "\<exists>m pb n c l fm mh. s3 = s\<lparr>mem8 := m, pktbufs := pb, nic := n, console := c, io_log := l, freemem := fm, memhdrs := mh\<rparr>"
    unfolding e3 e1 by (intro exI) simp
  moreover have "live s3 = live s" using s3(3) s1(4,5) by auto
  moreover have "avail s3 = avail s" using s3(4) s1(6) tx_readyD(2) [OF r] by simp
  moreover have "\<forall>q \<in> live s. pkt_len (pktbufs s3 q) = pkt_len (pktbufs s q) \<and> pb_head (pktbufs s3 q) = pb_head (pktbufs s q)"
    using s12 s1(4,5) unfolding net_same_def pb(1) by (auto simp: e1)
  moreover have "nic_ok s3" using s12 pb(2) by (simp add: net_same_def)
  ultimately have "net_same s s3" using s3(2) unfolding net_same_def by blast
  with s1(1) s2(1) s3(1) show ?thesis by simp
qed

end

lemma ether_tx_ok: "tx_ready 0 s \<Longrightarrow> \<exists>s'. ether_tx pkt mac ty s = Inr s' \<and> net_same s s'"
proof -
  assume r: "tx_ready 0 s"
  let ?s = "store (ether_hdr (pb_buf (pktbufs s pkt)) mac (hw_addr (netdev s)) ty) s"
  have s: "net_same s ?s" by (rule net_same_store [OF r])
  from net_same_tx [OF net_same_ready [OF r s], of pkt] net_same_trans [OF s] show ?thesis
    by (auto simp: ether_tx_def)
qed

interpretation ether: packet_layer "\<lambda>pkt. ether_tx pkt mac ty" 0 for mac ty
  by unfold_locales (rule ether_tx_ok)

lemma arp_fits: "mem_fits ARP_PKT_LEN"
  by (simp add: mem_fits_def ARP_PKT_LEN_def sizeof_ether_hdr_def sizeof_arp_hdr_def sizeof_arp_etherip_def MEM_GRANULARITY_def)

lemma store_store: "store f (store g s) = store (f \<circ> g) s"
  by (simp add: store_def)

lemma arp_tx_ok:
  assumes "tx_ready 2 s"
  shows "\<exists>s'. arp_tx dip s = Inr s' \<and> net_same s s'"
  unfolding arp_tx_def Let_def store_store
  by (rule ether.send_packet) (use assms in \<open>simp_all add: arp_fits net_same_store numeral_2_eq_2\<close>)


section \<open>The address table\<close>

definition arp_ok :: "'a arp_state_scheme \<Rightarrow> bool" where
  "arp_ok s = (length (table (arptable s)) = MAX_ARP_TABLE \<and> unat (next_entry_idx (arptable s)) \<le> MAX_ARP_TABLE)"

lemma find_entry_append:
  "find_entry ip (es @ fs) = (case find_entry ip es of Some m \<Rightarrow> Some m | None \<Rightarrow> find_entry ip fs)"
  by (induction es) auto

lemma register_arpentry_ok:
  assumes "arp_ok s" and "unat (next_entry_idx (arptable s)) < MAX_ARP_TABLE"
  shows "\<exists>t. register_arpentry mac ip s = Inr (s\<lparr>arptable := t\<rparr>) \<and> arp_ok (s\<lparr>arptable := t\<rparr>) \<and>
           (\<forall>x. find_mac_addr x (s\<lparr>arptable := t\<rparr>) =
              (case find_mac_addr x s of Some old \<Rightarrow> Some old | None \<Rightarrow> if x = ip then Some mac else None))"
proof -
  let ?t = "arptable s"
  let ?n = "unat (next_entry_idx ?t)" and ?e = "\<lparr>ae_mac = mac, ae_ip = ip\<rparr>"
  let ?t1 = "\<lparr>next_entry_idx = next_entry_idx ?t + 1, table = (table ?t)[?n := ?e]\<rparr>"
  have n: "?n < length (table ?t)" "?n < 256" using assms by (simp_all add: arp_ok_def MAX_ARP_TABLE_def)
  have su: "unat (next_entry_idx ?t + 1) = Suc ?n" using n(2) by (subst unat_add_lem [THEN iffD1]) auto
  have "register_arpentry mac ip s = Inr (s\<lparr>arptable := ?t1\<rparr>)" using n(1) by (simp add: register_arpentry_def Let_def)
  moreover have "arp_ok (s\<lparr>arptable := ?t1\<rparr>)" using assms su by (simp add: arp_ok_def)
  moreover have "find_mac_addr x (s\<lparr>arptable := ?t1\<rparr>) =
      (case find_mac_addr x s of Some old \<Rightarrow> Some old | None \<Rightarrow> if x = ip then Some mac else None)" for x
    using n(1) by (auto simp: find_mac_addr_def su take_list_update_snoc find_entry_append split: option.split)
  ultimately show ?thesis by blast
qed

lemma mem_free_arptable:
  "mem_free a (s\<lparr>arptable := t\<rparr>) = bindr (mem_free a s) (\<lambda>s1. Inr (s1\<lparr>arptable := t\<rparr>))"
proof -
  have comm: "s\<lparr>arptable := t, memhdrs := h, freemem := f\<rparr> = s\<lparr>memhdrs := h, freemem := f, arptable := t\<rparr>" for h f
    by (rule arp_state.equality) simp_all
  show ?thesis by (simp add: mem_free_def Let_def rflags_defs panic_def bindr_assoc comm)
qed

lemma free_pkt_arptable:
  "free_pkt p (s\<lparr>arptable := t\<rparr>) = bindr (free_pkt p s) (\<lambda>s1. Inr (s1\<lparr>arptable := t\<rparr>))"
  by (simp add: free_pkt_def mem_free_arptable bindr_assoc)

lemma register_free:
  fixes s :: "'a arp_state_scheme"
  assumes "unat (next_entry_idx (arptable s)) < length (table (arptable s))"
  shows "bindr (register_arpentry mac ip s) (free_pkt p) = bindr (free_pkt p s) (register_arpentry mac ip)"
proof -
  let ?n = "unat (next_entry_idx (arptable s))"
  define t where "t = \<lparr>next_entry_idx = next_entry_idx (arptable s) + 1, table = (table (arptable s))[?n := \<lparr>ae_mac = mac, ae_ip = ip\<rparr>]\<rparr>"
  have eq: "register_arpentry mac ip s1 = Inr (s1\<lparr>arptable := t\<rparr>)" if "arptable s1 = arptable s"
    for s1 :: "'a arp_state_scheme" using assms that by (simp add: register_arpentry_def Let_def t_def)
  note t = eq [OF refl]
  have "register_arpentry mac ip s1 = Inr (s1\<lparr>arptable := t\<rparr>)" if "free_pkt p s = Inr s1" for s1
  proof -
    from that obtain s0 where f: "mem_free (pb_head (pktbufs s p)) s = Inr s0" "mem_free p s0 = Inr s1"
      by (auto simp: free_pkt_def)
    have "arptable s1 = arptable s"
      using mem_free_rest [OF f(1)] mem_free_rest [OF f(2)] by (auto simp: mem_rest_def)
    then show ?thesis by (rule eq)
  qed
  then show ?thesis by (cases "free_pkt p s") (simp_all add: t free_pkt_arptable)
qed

lemma net_same_arptable: "net_same s s' \<Longrightarrow> arptable s' = arptable s"
  by (auto simp: net_same_def)

definition arp_reply :: "addr \<Rightarrow> 'a arp_state_scheme \<Rightarrow> 'a arp_state_scheme res" where
  "arp_reply arp s =
     bindr (new_pkt ARP_PKT_LEN ''arp_reply_pbuf'' ''arp_reply_pbuf_buf'' s) (\<lambda>(pkt, s1).
     let b = pb_buf (pktbufs s1 pkt) + ucast sizeof_ether_hdr in
     bindr (ether_tx pkt (bytes_at (mem8 s) arp 6) ETHER_TYPE_ARP
       (store (arp_etherip (b + ucast sizeof_arp_hdr) (hw_addr (netdev s)) (hton32 (ip_addr (netdev s)))
          (bytes_at (mem8 s) arp 6) (rd32 (mem8 s) (arp + 6)) \<circ> arp_hdr b ARP_OP_RESPONSE) s1)) (free_pkt pkt))"

lemma arp_reply_ok:
  assumes "tx_ready 2 s"
  shows "\<exists>s'. arp_reply arp s = Inr s' \<and> net_same s s'"
  unfolding arp_reply_def Let_def
  by (rule ether.send_packet) (use assms in \<open>simp_all add: arp_fits net_same_store numeral_2_eq_2\<close>)


lemma handle_arp_request_eq:
  assumes "tx_ready 2 s" and "arp_ok s" and "unat (next_entry_idx (arptable s)) < MAX_ARP_TABLE"
    and "ntoh32 (rd32 (mem8 s) (arp + 16)) = ip_addr (netdev s)"
  shows "handle_arp_request arp s =
     bindr (arp_reply arp s) (register_arpentry (bytes_at (mem8 s) arp 6) (ntoh32 (rd32 (mem8 s) (arp + 6))))"
proof -
  let ?fill = "\<lambda>pkt s1. store (arp_etherip (pb_buf (pktbufs s1 pkt) + ucast sizeof_ether_hdr + ucast sizeof_arp_hdr)
        (hw_addr (netdev s)) (hton32 (ip_addr (netdev s))) (bytes_at (mem8 s) arp 6) (rd32 (mem8 s) (arp + 6)) \<circ>
        arp_hdr (pb_buf (pktbufs s1 pkt) + ucast sizeof_ether_hdr) ARP_OP_RESPONSE) s1"
  let ?tx = "\<lambda>pkt s1. ether_tx pkt (bytes_at (mem8 s) arp 6) ETHER_TYPE_ARP (?fill pkt s1)"
  from new_pkt_ok [OF assms(1) [unfolded numeral_2_eq_2] arp_fits, of "''arp_reply_pbuf''" "''arp_reply_pbuf_buf''"]
  obtain p s1 where s1: "new_pkt ARP_PKT_LEN ''arp_reply_pbuf'' ''arp_reply_pbuf_buf'' s = Inr (p, s1)"
    "tx_ready 0 s1" "arptable s1 = arptable s" by auto
  have f: "net_same s1 (?fill p s1)" by (rule net_same_store [OF s1(2)])
  from ether_tx_ok [OF net_same_ready [OF s1(2) f], of p "bytes_at (mem8 s) arp 6" ETHER_TYPE_ARP] obtain s2 where
    s2: "?tx p s1 = Inr s2" "net_same (?fill p s1) s2" by blast
  have "arptable s2 = arptable s" using net_same_arptable [OF s2(2)] net_same_arptable [OF f] s1(3) by simp
  then have "unat (next_entry_idx (arptable s2)) < length (table (arptable s2))" using assms(2,3) by (simp add: arp_ok_def)
  from register_free [OF this] show ?thesis
    using assms(4) s1(1) s2(1) by (simp add: handle_arp_request_def arp_reply_def Let_def store_store)
qed

section \<open>Fields of a header\<close>

lemma rd16_eq: "m x = ucast v \<Longrightarrow> m (x + 1) = ucast (drop_bit 8 v) \<Longrightarrow> rd16 m x = v"
  using rd16_wr16 [of x v m] by (simp add: rd16_def wr16_def)

lemma wr32_bytes:
  "wr32 x v m x = ucast v" "wr32 x v m (x + 1) = ucast (drop_bit 8 v)"
  "wr32 x v m (x + 2) = ucast (drop_bit 16 v)" "wr32 x v m (x + 3) = ucast (drop_bit 24 v)"
  by (simp_all add: wr32_def wr16_def) (rule bit_word_eqI, auto simp: bit_simps)+

lemma rd32_eq:
  assumes "m x = ucast v" and "m (x + 1) = ucast (drop_bit 8 v)" and "m (x + 2) = ucast (drop_bit 16 v)"
    and "m (x + 3) = ucast (drop_bit 24 v)"
  shows "rd32 m x = v"
proof -
  have "rd32 m x = rd32 (wr32 x v m) x"
    using assms wr32_bytes [of x v m] by (simp add: rd32_def rd16_def add.assoc)
  then show ?thesis by simp
qed

lemma len6: "length xs = 6 \<Longrightarrow> \<exists>x0 x1 x2 x3 x4 x5. xs = [x0, x1, x2, x3, x4, x5]"
  by (auto simp: eval_nat_numeral length_Suc_conv)

lemma bytes_at_6: "bytes_at m a 6 = [m a, m (a + 1), m (a + 2), m (a + 3), m (a + 4), m (a + 5)]"
  by (simp add: bytes_at_def upt_rec)

lemmas wr_defs = wr8_def wr16_def wr32_def

lemma arp_layout:
  fixes a :: addr and sip dip :: u32 and op :: u16 and m :: bytes
  assumes "length smac = 6" and "length dmac = 6"
  defines "m' \<equiv> arp_etherip (a + 8) smac sip dmac dip (arp_hdr a op m)"
  shows "ntoh16 (rd16 m' a) = ARP_HARD_TYPE_ETHER" "ntoh16 (rd16 m' (a + 2)) = ARP_PROTO_TCPIP"
    "m' (a + 4) = ARP_HLEN_ETHER" "m' (a + 5) = ARP_PLEN_ETHER" "ntoh16 (rd16 m' (a + 6)) = op"
    "bytes_at m' (a + 8) 6 = smac" "rd32 m' (a + 14) = sip" "bytes_at m' (a + 18) 6 = dmac" "rd32 m' (a + 24) = dip"
proof -
  from len6 [OF assms(1)] len6 [OF assms(2)] obtain s0 s1 s2 s3 s4 s5 d0 d1 d2 d3 d4 d5 where
    l: "smac = [s0, s1, s2, s3, s4, s5]" "dmac = [d0, d1, d2, d3, d4, d5]" by metis
  note d = m'_def arp_etherip_def arp_hdr_def wr_defs l add.assoc
  have "rd16 m' a = hton16 ARP_HARD_TYPE_ETHER" by (rule rd16_eq) (simp_all add: d)
  then show "ntoh16 (rd16 m' a) = ARP_HARD_TYPE_ETHER" by simp
  have "rd16 m' (a + 2) = hton16 ARP_PROTO_TCPIP" by (rule rd16_eq) (simp_all add: d)
  then show "ntoh16 (rd16 m' (a + 2)) = ARP_PROTO_TCPIP" by simp
  have "rd16 m' (a + 6) = hton16 op" by (rule rd16_eq) (simp_all add: d)
  then show "ntoh16 (rd16 m' (a + 6)) = op" by simp
  show "rd32 m' (a + 14) = sip" using wr32_bytes [of "a + 14" sip] by (intro rd32_eq) (simp_all add: d)
  show "rd32 m' (a + 24) = dip" using wr32_bytes [of "a + 24" dip] by (intro rd32_eq) (simp_all add: d)
  show "m' (a + 4) = ARP_HLEN_ETHER" "m' (a + 5) = ARP_PLEN_ETHER" "bytes_at m' (a + 8) 6 = smac"
    "bytes_at m' (a + 18) 6 = dmac" by (simp_all add: d bytes_at_6)
qed


lemma ether_layout:
  fixes a :: addr and m :: bytes and ty :: u16
  assumes "length dmac = 6" and "length smac = 6"
  defines "m' \<equiv> ether_hdr a dmac smac ty m"
  shows "bytes_at m' a 6 = dmac" "bytes_at m' (a + 6) 6 = smac" "ntoh16 (rd16 m' (a + 12)) = ty"
    "\<And>x. x \<notin> region a 14 \<Longrightarrow> m' x = m x"
proof -
  from len6 [OF assms(1)] len6 [OF assms(2)] obtain s0 s1 s2 s3 s4 s5 d0 d1 d2 d3 d4 d5 where
    l: "smac = [s0, s1, s2, s3, s4, s5]" "dmac = [d0, d1, d2, d3, d4, d5]" by metis
  note d = m'_def ether_hdr_def wr_defs l add.assoc
  show "bytes_at m' a 6 = dmac" "bytes_at m' (a + 6) 6 = smac" by (simp_all add: d bytes_at_6)
  have "rd16 m' (a + 12) = hton16 ty" by (rule rd16_eq) (simp_all add: d)
  then show "ntoh16 (rd16 m' (a + 12)) = ty" by simp
  fix x
  assume x: "x \<notin> region a 14"
  have "x \<noteq> a + of_nat i" if "i < 14" for i using x in_region [OF that, of a] by auto
  from this [of 0] this [of 1] this [of 2] this [of 3] this [of 4] this [of 5] this [of 6] this [of 7] this [of 8]
    this [of 9] this [of 10] this [of 11] this [of 12] this [of 13]
  show "m' x = m x" by (simp add: d)
qed

text \<open>The same bytes at another address.\<close>

lemma copied_byte:
  assumes "bytes_at m' f k = bytes_at m e k" and "i < k"
  shows "m' (f + of_nat i) = m (e + of_nat i)"
  using arg_cong [OF assms(1), of "\<lambda>xs. xs ! i"] assms(2) by simp

lemma copied_rd16:
  assumes "bytes_at m' f k = bytes_at m e k" and "i + 2 \<le> k"
  shows "rd16 m' (f + of_nat i) = rd16 m (e + of_nat i)"
  using copied_byte [OF assms(1), of i] copied_byte [OF assms(1), of "Suc i"] assms(2) by (simp add: rd16_def ac_simps)

lemma copied_rd32:
  assumes "bytes_at m' f k = bytes_at m e k" and "i + 4 \<le> k"
  shows "rd32 m' (f + of_nat i) = rd32 m (e + of_nat i)"
  using copied_rd16 [OF assms(1), of i] copied_rd16 [OF assms(1), of "i + 2"] assms(2) by (simp add: rd32_def ac_simps)

lemma copied_part:
  assumes "bytes_at m' f k = bytes_at m e k" and "i + n \<le> k"
  shows "bytes_at m' (f + of_nat i) n = bytes_at m (e + of_nat i) n"
  using assms(2) by (intro bytes_at_cong) (use copied_byte [OF assms(1), of "i + j" for j] in \<open>simp add: add.assoc\<close>)

section \<open>The reply on the wire\<close>

text \<open>An ARP packet for Ethernet and IPv4 in a frame from \<open>smac\<close> to \<open>dmac\<close>, with their addresses as sender and target.\<close>

definition arp_frame :: "bytes \<Rightarrow> addr \<Rightarrow> u8 list \<Rightarrow> u8 list \<Rightarrow> u16 \<Rightarrow> u32 \<Rightarrow> u32 \<Rightarrow> bool" where
  "arp_frame m f dmac smac op sip dip =
     (bytes_at m f 6 = dmac \<and> bytes_at m (f + 6) 6 = smac \<and> ntoh16 (rd16 m (f + 12)) = ETHER_TYPE_ARP \<and>
      ntoh16 (rd16 m (f + 14)) = ARP_HARD_TYPE_ETHER \<and> ntoh16 (rd16 m (f + 16)) = ARP_PROTO_TCPIP \<and>
      m (f + 18) = ARP_HLEN_ETHER \<and> m (f + 19) = ARP_PLEN_ETHER \<and> ntoh16 (rd16 m (f + 20)) = op \<and>
      bytes_at m (f + 22) 6 = smac \<and> ntoh32 (rd32 m (f + 28)) = sip \<and> bytes_at m (f + 32) 6 = dmac \<and> ntoh32 (rd32 m (f + 38)) = dip)"

lemma copied_arp_frame:
  assumes "bytes_at m' f 42 = bytes_at m e 42"
  shows "arp_frame m' f dmac smac op sip dip = arp_frame m e dmac smac op sip dip"
  using copied_part [OF assms, of 0 6] copied_part [OF assms, of 6 6] copied_part [OF assms, of 22 6] copied_part [OF assms, of 32 6]
    copied_rd16 [OF assms, of 12] copied_rd16 [OF assms, of 14] copied_rd16 [OF assms, of 16] copied_rd16 [OF assms, of 20]
    copied_rd32 [OF assms, of 28] copied_rd32 [OF assms, of 38] copied_byte [OF assms, of 18] copied_byte [OF assms, of 19]
  by (simp add: arp_frame_def)

lemma arp_frame_built:
  assumes l: "length smac = 6" "length dmac = 6"
  shows "arp_frame (ether_hdr f dmac smac ETHER_TYPE_ARP
     (arp_etherip (f + 14 + 8) smac (hton32 sip) dmac (hton32 dip) (arp_hdr (f + 14) op m))) f dmac smac op sip dip"
proof -
  let ?m1 = "arp_etherip (f + 14 + 8) smac (hton32 sip) dmac (hton32 dip) (arp_hdr (f + 14) op m)"
  note a = arp_layout [OF l, of "f + 14" "hton32 sip" "hton32 dip" op m] and e = ether_layout [OF l(2,1), where a = f and ty = ETHER_TYPE_ARP and m = ?m1]
  have out: "ether_hdr f dmac smac ETHER_TYPE_ARP ?m1 (f + 14 + of_nat j) = ?m1 (f + 14 + of_nat j)" if "j < 28" for j
    using e(4) [of "f + of_nat (14 + j)"] offset_outside [of 14 "14 + j" f] that by (simp add: add.assoc)
  then have c: "bytes_at (ether_hdr f dmac smac ETHER_TYPE_ARP ?m1) (f + 14) 28 = bytes_at ?m1 (f + 14) 28" by (rule bytes_at_cong)
  show ?thesis
    using a e(1-3) copied_part [OF c, of 8 6] copied_part [OF c, of 18 6] copied_rd16 [OF c, of 0] copied_rd16 [OF c, of 2]
      copied_rd16 [OF c, of 6] copied_rd32 [OF c, of 14] copied_rd32 [OF c, of 24] copied_byte [OF c, of 4] copied_byte [OF c, of 5]
    by (simp add: arp_frame_def add.assoc)
qed

lemma arp_reply_sent:
  assumes r: "tx_ready 2 s" and hw: "length (hw_addr (netdev s)) = 6" and free: "\<not> owned (tx_next s)" "dma_ok (tx_next s)"
  shows "\<exists>s'. arp_reply arp s = Inr s' \<and> passed_on 42 s s' \<and>
     arp_frame (mem8 s') (desc_addr (tx_next s)) (bytes_at (mem8 s) arp 6) (hw_addr (netdev s)) ARP_OP_RESPONSE
       (ip_addr (netdev s)) (ntoh32 (rd32 (mem8 s) (arp + 6)))"
proof -
  let ?mac = "bytes_at (mem8 s) arp 6" and ?sip = "rd32 (mem8 s) (arp + 6)" and ?f = "desc_addr (tx_next s)"
  have pl: "ARP_PKT_LEN = of_nat 42" by (simp add: ARP_PKT_LEN_def sizeof_ether_hdr_def sizeof_arp_hdr_def sizeof_arp_etherip_def)
  from new_pkt_ok [OF r [unfolded numeral_2_eq_2] arp_fits, of "''arp_reply_pbuf''" "''arp_reply_pbuf_buf''"] obtain p b s1 fm mh where
    s1: "new_pkt ARP_PKT_LEN ''arp_reply_pbuf'' ''arp_reply_pbuf_buf'' s = Inr (p, s1)" "tx_ready 0 s1" "live s1 = {p, b} \<union> live s"
    and e1: "s1 = s\<lparr>freemem := fm, memhdrs := mh, pktbufs := (pktbufs s)(p := \<lparr>pkt_len = ARP_PKT_LEN, pb_buf = b, pb_head = b\<rparr>)\<rparr>" by blast
  define s2 where "s2 = store (ether_hdr b ?mac (hw_addr (netdev s)) ETHER_TYPE_ARP \<circ>
    (arp_etherip (b + 14 + 8) (hw_addr (netdev s)) (hton32 (ip_addr (netdev s))) ?mac ?sip \<circ> arp_hdr (b + 14) ARP_OP_RESPONSE)) s1"
  have f2: "pb_head (pktbufs s2 p) = b" "pkt_len (pktbufs s2 p) = of_nat 42" "tx_next s2 = tx_next s" "nic s2 = nic s" "memhdrs s2 = memhdrs s1"
    by (simp_all add: s2_def store_def e1 tx_next_def pl)
  have n2: "nic_ok s2" using s1(2) by (simp add: s2_def store_def tx_ready_def nic_ok_def)
  have "b \<in> live_of (memhdrs s1)" using s1(3) by (auto simp: mem_view)
  from dma_apart [OF this free(2), of 42 42] have "region ?f 42 \<inter> region b 42 = {}" by auto
  with netdev_tx_sent [OF n2 f2(1,2)] free(1) obtain s3 where
    s3: "netdev_tx p s2 = Inr s3" "passed_on 42 s2 s3" "bytes_at (mem8 s3) ?f 42 = bytes_at (mem8 s2) b 42" by (auto simp: f2(3))
  have eq: "arp_reply arp s = bindr (netdev_tx p s2) (free_pkt p)"
    using s1(1) by (simp add: arp_reply_def Let_def ether_tx_def e1 sizeof_ether_hdr_def sizeof_arp_hdr_def s2_def)
      (simp add: store_def comp_def)
  from arp_reply_ok [OF r, of arp] obtain s' where s': "arp_reply arp s = Inr s'" by blast
  then have "free_pkt p s3 = Inr s'" using eq s3(1) by simp
  from free_pkt_rest [OF this] have g: "mem8 s' = mem8 s3" "nic s' = nic s3" by (auto simp: mem_rest_def)
  have "mem8 s2 = ether_hdr b ?mac (hw_addr (netdev s)) ETHER_TYPE_ARP
      (arp_etherip (b + 14 + 8) (hw_addr (netdev s)) (hton32 (ip_addr (netdev s))) ?mac ?sip (arp_hdr (b + 14) ARP_OP_RESPONSE (mem8 s)))"
    by (simp add: s2_def store_def e1)
  with arp_frame_built [OF hw, of ?mac b "ip_addr (netdev s)" "ntoh32 ?sip" ARP_OP_RESPONSE "mem8 s"]
  have "arp_frame (mem8 s2) b ?mac (hw_addr (netdev s)) ARP_OP_RESPONSE (ip_addr (netdev s)) (ntoh32 ?sip)" by simp
  with copied_arp_frame [OF s3(3)] have "arp_frame (mem8 s') ?f ?mac (hw_addr (netdev s)) ARP_OP_RESPONSE (ip_addr (netdev s)) (ntoh32 ?sip)"
    by (simp add: g(1))
  moreover have "passed_on 42 s s'" using s3(2) by (simp add: passed_on_def g(2) f2(3,4))
  ultimately show ?thesis using s' by blast
qed

lemma register_arpentry_full:
  assumes "arp_ok s" and "unat (next_entry_idx (arptable s)) = MAX_ARP_TABLE"
  shows "register_arpentry mac ip s = Inl OutOfRange"
  using assms by (simp add: register_arpentry_def arp_ok_def arr_set_def Let_def)

section \<open>Properties\<close>

text \<open>
  C18: a request for the machine's own address is answered and its sender is remembered: the handler returns,
  gives back the blocks of the reply, changes nothing but packet memory, the card and the table, and
  afterwards the table maps the sender's address to the sender's card, unless the table already had an
  entry for that address, which then stays in force. When the card has a free descriptor, one frame of 42 bytes is passed to it:
  an ARP response from the machine's own addresses to those of the sender of the request.
\<close>

theorem arp_request_answered:
  assumes "tx_ready 2 s" and "arp_ok s" and "unat (next_entry_idx (arptable s)) < 256"
    and "ntoh32 (rd32 (mem8 s) (arp + 16)) = ip_addr (netdev s)"
  shows "\<exists>s'. handle_arp_request arp s = Inr s' \<and> net_same s (s'\<lparr>arptable := arptable s\<rparr>) \<and> arp_ok s' \<and>
           (\<forall>x. find_mac_addr x s' =
              (case find_mac_addr x s of
                 Some old \<Rightarrow> Some old
               | None \<Rightarrow> if x = ntoh32 (rd32 (mem8 s) (arp + 6)) then Some (bytes_at (mem8 s) arp 6) else None)) \<and>
           (length (hw_addr (netdev s)) = 6 \<longrightarrow> \<not> owned (tx_next s) \<longrightarrow> dma_ok (tx_next s) \<longrightarrow>
              passed_on 42 s s' \<and>
              arp_frame (mem8 s') (desc_addr (tx_next s)) (bytes_at (mem8 s) arp 6) (hw_addr (netdev s)) ARP_OP_RESPONSE
                (ip_addr (netdev s)) (ntoh32 (rd32 (mem8 s) (arp + 6))))"
proof -
  let ?mac = "bytes_at (mem8 s) arp 6" and ?sip = "ntoh32 (rd32 (mem8 s) (arp + 6))"
  have full: "unat (next_entry_idx (arptable s)) < MAX_ARP_TABLE" using assms(3) by (simp add: MAX_ARP_TABLE_def)
  from arp_reply_ok [OF assms(1), of arp] obtain s1 where s1: "arp_reply arp s = Inr s1" "net_same s s1" by blast
  have at: "arptable s1 = arptable s" by (rule net_same_arptable [OF s1(2)])
  then have "arp_ok s1" "unat (next_entry_idx (arptable s1)) < MAX_ARP_TABLE" "\<And>x. find_mac_addr x s1 = find_mac_addr x s"
    using assms(2) full by (simp_all add: arp_ok_def find_mac_addr_def)
  with register_arpentry_ok [of s1 ?mac ?sip] obtain t where
    t: "register_arpentry ?mac ?sip s1 = Inr (s1\<lparr>arptable := t\<rparr>)" "arp_ok (s1\<lparr>arptable := t\<rparr>)"
      "\<And>x. find_mac_addr x (s1\<lparr>arptable := t\<rparr>) =
         (case find_mac_addr x s of Some old \<Rightarrow> Some old | None \<Rightarrow> if x = ?sip then Some ?mac else None)" by auto
  have "s1\<lparr>arptable := t\<rparr>\<lparr>arptable := arptable s\<rparr> = s1" using at by simp
  then have "net_same s (s1\<lparr>arptable := t\<rparr>\<lparr>arptable := arptable s\<rparr>)" using s1(2) by metis
  moreover have "passed_on 42 s s1 \<and> arp_frame (mem8 s1) (desc_addr (tx_next s)) ?mac (hw_addr (netdev s)) ARP_OP_RESPONSE (ip_addr (netdev s)) ?sip"
    if "length (hw_addr (netdev s)) = 6" "\<not> owned (tx_next s)" "dma_ok (tx_next s)"
    using arp_reply_sent [OF assms(1) that, of arp] s1(1) by auto
  ultimately show ?thesis using t s1(1)
    by (intro exI [of _ "s1\<lparr>arptable := t\<rparr>"]) (simp add: handle_arp_request_eq [OF assms(1,2) full assms(4)] passed_on_def)
qed

text \<open>
  The receiver parses what the sender writes. When the packet holds the two structures \<open>arp_tx\<close> and
  \<open>handle_arp_request\<close> build, \<open>arp_rx\<close> accepts it and passes it to the handler of its opcode, at the place
  where the addresses are; any other opcode is logged and ignored.
\<close>

theorem arp_frame_roundtrip:
  assumes "length smac = 6" and "length dmac = 6"
    and "mem8 s = arp_etherip (pb_buf (pktbufs s pkt) + 8) smac sip dmac dip (arp_hdr (pb_buf (pktbufs s pkt)) op m)"
  shows "\<exists>s2. arp_rx pkt s =
           (if op = ARP_OP_REQUEST then handle_arp_request (pb_buf (pktbufs s pkt) + 8) s2
            else if op = ARP_OP_RESPONSE then handle_arp_response (pb_buf (pktbufs s pkt) + 8) s2
            else Inr (printstr_log (''unknown arp opcode'' @ nl) s2)) \<and>
         bytes_at (mem8 s2) (pb_buf (pktbufs s pkt) + 8) 6 = smac \<and> rd32 (mem8 s2) (pb_buf (pktbufs s pkt) + 14) = sip \<and>
         bytes_at (mem8 s2) (pb_buf (pktbufs s pkt) + 18) 6 = dmac \<and> rd32 (mem8 s2) (pb_buf (pktbufs s pkt) + 24) = dip"
proof -
  note l = arp_layout [OF assms(1,2), of "pb_buf (pktbufs s pkt)" sip dip op m, folded assms(3)]
  let ?s2 = "adv_buf pkt (ucast sizeof_arp_hdr) (printstr_log (''ARP RX'' @ nl) s)"
  have f: "mem8 ?s2 = mem8 s" "pb_buf (pktbufs ?s2 pkt) = pb_buf (pktbufs s pkt) + 8"
    "pktbufs (printstr_log (''ARP RX'' @ nl) s) = pktbufs s"
    by (simp_all add: adv_buf_def set_buf_def printstr_log_eq sizeof_arp_hdr_def)
  have "arp_rx pkt s =
           (if op = ARP_OP_REQUEST then handle_arp_request (pb_buf (pktbufs s pkt) + 8) ?s2
            else if op = ARP_OP_RESPONSE then handle_arp_response (pb_buf (pktbufs s pkt) + 8) ?s2
            else Inr (printstr_log (''unknown arp opcode'' @ nl) ?s2))"
    unfolding arp_rx_def Let_def f using l by simp
  with l f(1) show ?thesis by (intro exI [of _ ?s2]) simp
qed

end
