(* ===== verification/Ip.thy ===== *)
theory Ip
  imports Ether
begin

text \<open>
  The sending half of \<^verbatim>\<open>kernel/net/ip.c\<close> and the echo responder of \<^verbatim>\<open>kernel/net/icmp.c\<close>.
\<close>

definition IP_HDR_PROTO_ICMP :: u8 where "IP_HDR_PROTO_ICMP = 0x01"
definition IP_HDR_PROTO_TCP :: u8 where "IP_HDR_PROTO_TCP = 0x06"
definition IP_HDR_PROTO_UDP :: u8 where "IP_HDR_PROTO_UDP = 0x11"
definition sizeof_ip_hdr :: u32 where "sizeof_ip_hdr = 20"

text \<open>\<open>struct ip_hdr\<close> with a zero checksum field; \<open>ver_ihl\<close> is \<open>(4 << 4) | (20 / 4)\<close>.\<close>

definition ip_hdr :: "addr \<Rightarrow> u16 \<Rightarrow> u8 \<Rightarrow> u8 \<Rightarrow> u32 \<Rightarrow> u32 \<Rightarrow> bytes \<Rightarrow> bytes" where
  "ip_hdr a len ttl proto sip dip m =
     wr32 (a + 16) (hton32 dip)
      (wr32 (a + 12) (hton32 sip)
       (wr16 (a + 10) 0
        (wr8 (a + 9) proto
         (wr8 (a + 8) ttl
          (wr16 (a + 6) 0
           (wr16 (a + 4) 0x77
            (wr16 (a + 2) (hton16 len)
             (wr8 (a + 1) 0
              (wr8 a (push_bit 4 4 OR (ucast (sizeof_ip_hdr div 4) AND 0xf)) m)))))))))"

text \<open>
  \<open>(dip >> (32 - netmask)) == (ip_addr >> (32 - netmask))\<close>. C defines the shift for prefix lengths 1 to
  32; \<open>kstart\<close> sets 24.
\<close>

definition nexthop :: "net_device \<Rightarrow> u32 \<Rightarrow> u32" where
  "nexthop dev dip =
     (if drop_bit (32 - netmask dev) dip = drop_bit (32 - netmask dev) (ip_addr dev) then dip else gw_addr dev)"

definition ip_tx_log :: "u8 \<Rightarrow> string" where
  "ip_tx_log proto =
     (if proto = IP_HDR_PROTO_ICMP then ''ip_tx: ICMP''
      else if proto = IP_HDR_PROTO_TCP then ''ip_tx: TCP''
      else if proto = IP_HDR_PROTO_UDP then ''ip_tx: UDP''
      else ''ip_tx: UNKNOWN proto'') @ nl"

definition log_ip :: "u32 \<Rightarrow> 'a con_state_scheme \<Rightarrow> 'a con_state_scheme" where
  "log_ip ip s =
     printnum_log (drop_bit 0 ip AND 0xff) (printstr_log ''.''
      (printnum_log (drop_bit 8 ip AND 0xff) (printstr_log ''.''
       (printnum_log (drop_bit 16 ip AND 0xff) (printstr_log ''.''
        (printnum_log (drop_bit 24 ip AND 0xff) s))))))"

definition ip_tx :: "addr \<Rightarrow> u32 \<Rightarrow> u8 \<Rightarrow> u8 \<Rightarrow> 'a arp_state_scheme \<Rightarrow> 'a arp_state_scheme res" where
  "ip_tx pkt dip proto ttl s =
     (let iphdr = pb_buf (pktbufs s pkt);
          dev = netdev s;
          s1 = store (ip_hdr iphdr (ucast (pkt_len (pktbufs s pkt) - sizeof_ether_hdr)) ttl proto
                 (ip_addr dev) dip) s;
          s2 = store (wr16 (iphdr + 10) (checksum iphdr (ucast sizeof_ip_hdr) (mem8 s1))) s1;
          nexthop_ip = nexthop dev dip;
          s3 = printstr_log (ip_tx_log proto) s2
      in case find_mac_addr nexthop_ip s3 of
           None \<Rightarrow> arp_tx nexthop_ip (printstr_log nl (log_ip nexthop_ip (printstr_log ''Send arp: '' s3)))
         | Some mac_addr \<Rightarrow> ether_tx pkt mac_addr ETHER_TYPE_IPV4 (adv_buf pkt (- ucast sizeof_ether_hdr) s3))"

section \<open>ICMP\<close>

definition ICMP_HDR_TYPE_ECHO_REPLY :: u8 where "ICMP_HDR_TYPE_ECHO_REPLY = 0"
definition ICMP_HDR_TYPE_ECHO_REQUEST :: u8 where "ICMP_HDR_TYPE_ECHO_REQUEST = 8"
definition sizeof_icmp_hdr :: u32 where "sizeof_icmp_hdr = 8"

definition icmp_hdr :: "addr \<Rightarrow> u8 \<Rightarrow> u16 \<Rightarrow> u16 \<Rightarrow> bytes \<Rightarrow> bytes" where
  "icmp_hdr a ty ident seqnum m =
     wr16 (a + 6) seqnum (wr16 (a + 4) ident (wr16 (a + 2) 0 (wr8 (a + 1) 0 (wr8 a ty m))))"

definition icmp_rx :: "addr \<Rightarrow> u32 \<Rightarrow> 'a arp_state_scheme \<Rightarrow> 'a arp_state_scheme res" where
  "icmp_rx rxpkt sip s =
     (let rxhdr = pb_buf (pktbufs s rxpkt);
          s1 = adv_buf rxpkt (ucast sizeof_icmp_hdr) s in
      if mem8 s1 rxhdr = ICMP_HDR_TYPE_ECHO_REQUEST
      then
        let s2 = printstr_app (''icmp_rx: sends reply'' @ nl) s1;
            len = pkt_len (pktbufs s2 rxpkt) in
        bindr (new_pkt len ''icmp_reply_pbuf'' ''icmp_reply_pbuf_buf'' s2) (\<lambda>(txpkt, s3).
        let b = pb_buf (pktbufs s3 txpkt) + ucast (sizeof_ether_hdr + sizeof_ip_hdr);
            s4 = store (icmp_hdr b ICMP_HDR_TYPE_ECHO_REPLY (rd16 (mem8 s3) (rxhdr + 4))
                   (rd16 (mem8 s3) (rxhdr + 6))) s3;
            s5 = store (memcpy (b + ucast sizeof_icmp_hdr) (pb_buf (pktbufs s4 rxpkt))
                   (len - (sizeof_ether_hdr + sizeof_ip_hdr + sizeof_icmp_hdr))) s4;
            s6 = store (wr16 (b + 2) (checksum b (ucast (len - (sizeof_ether_hdr + sizeof_ip_hdr))) (mem8 s5))) s5;
            s7 = set_buf txpkt (b - ucast sizeof_ip_hdr) s6 in
        bindr (ip_tx txpkt (ntoh32 sip) IP_HDR_PROTO_ICMP 64 s7) (free_pkt txpkt))
      else Inr s1)"

section \<open>The header\<close>

lemma ip_hdr_layout:
  fixes a :: addr and m :: bytes and len :: u16 and ttl proto :: u8 and sip dip :: u32 and c :: u16
  defines "m' \<equiv> wr16 (a + 10) c (ip_hdr a len ttl proto sip dip m)"
  shows "m' a = 0x45" "ntoh16 (rd16 m' (a + 2)) = len" "m' (a + 8) = ttl" "m' (a + 9) = proto"
    "ntoh32 (rd32 m' (a + 12)) = sip" "ntoh32 (rd32 m' (a + 16)) = dip" "rd16 m' (a + 10) = c"
    "\<And>x. x \<notin> region a 20 \<Longrightarrow> m' x = m x"
proof -
  note d = m'_def ip_hdr_def wr_defs add.assoc
  show "m' a = 0x45" by (simp add: d sizeof_ip_hdr_def)
  show "m' (a + 8) = ttl" "m' (a + 9) = proto" by (simp_all add: d)
  have "rd16 m' (a + 2) = hton16 len" by (rule rd16_eq) (simp_all add: d)
  then show "ntoh16 (rd16 m' (a + 2)) = len" by simp
  show "rd16 m' (a + 10) = c" by (simp add: m'_def)
  have "rd32 m' (a + 12) = hton32 sip" using wr32_bytes [of "a + 12" "hton32 sip"] by (intro rd32_eq) (simp_all add: d)
  then show "ntoh32 (rd32 m' (a + 12)) = sip" by simp
  have "rd32 m' (a + 16) = hton32 dip" using wr32_bytes [of "a + 16" "hton32 dip"] by (intro rd32_eq) (simp_all add: d)
  then show "ntoh32 (rd32 m' (a + 16)) = dip" by simp
  fix x
  assume x: "x \<notin> region a 20"
  have "x \<noteq> a + of_nat i" if "i < 20" for i using x in_region [OF that, of a] by auto
  from this [of 0] this [of 1] this [of 2] this [of 3] this [of 4] this [of 5] this [of 6] this [of 7] this [of 8]
    this [of 9] this [of 10] this [of 11] this [of 12] this [of 13] this [of 14] this [of 15] this [of 16]
    this [of 17] this [of 18] this [of 19]
  show "m' x = m x" by (simp add: d)
qed

text \<open>A correct header: version and length, the fields given, and a checksum that verifies.\<close>

definition ip_hdr_ok :: "bytes \<Rightarrow> addr \<Rightarrow> u16 \<Rightarrow> u8 \<Rightarrow> u8 \<Rightarrow> u32 \<Rightarrow> u32 \<Rightarrow> bool" where
  "ip_hdr_ok m a len ttl proto sip dip =
     (m a = 0x45 \<and> ntoh16 (rd16 m (a + 2)) = len \<and> m (a + 8) = ttl \<and> m (a + 9) = proto \<and>
      ntoh32 (rd32 m (a + 12)) = sip \<and> ntoh32 (rd32 m (a + 16)) = dip \<and> checksum a 20 m = 0)"

lemma ip_hdr_ok_built:
  fixes a :: addr and m :: bytes and len :: u16 and ttl proto :: u8 and sip dip :: u32
  defines "m1 \<equiv> ip_hdr a len ttl proto sip dip m"
  shows "ip_hdr_ok (wr16 (a + 10) (checksum a 20 m1) m1) a len ttl proto sip dip"
proof -
  have "rd16 m1 (a + 10) = 0" unfolding m1_def by (rule rd16_eq) (simp_all add: ip_hdr_def wr_defs add.assoc)
  then have "checksum a 20 (wr16 (a + 10) (checksum a 20 m1) m1) = 0"
    using checksum_verifies [of 5 20 m1 a] by simp
  with ip_hdr_layout [where a = a and c = "checksum a 20 m1" and len = len and ttl = ttl and proto = proto and sip = sip and dip = dip and m = m] show ?thesis
    by (simp add: ip_hdr_ok_def m1_def)
qed


lemma rd16_cong: "m x = m' x \<Longrightarrow> m (x + 1) = m' (x + 1) \<Longrightarrow> rd16 m x = rd16 m' x"
  by (simp add: rd16_def)

lemma rd32_cong:
  "m x = m' x \<Longrightarrow> m (x + 1) = m' (x + 1) \<Longrightarrow> m (x + 2) = m' (x + 2) \<Longrightarrow> m (x + 3) = m' (x + 3) \<Longrightarrow> rd32 m x = rd32 m' x"
  by (simp add: rd32_def rd16_def add.assoc)

lemma checksum_cong:
  assumes "\<And>i. i < unat len \<Longrightarrow> m (a + of_nat i) = m' (a + of_nat i)"
  shows "checksum a len m = checksum a len m'"
proof -
  have "rd16 m (a + of_nat (2 * i)) = rd16 m' (a + of_nat (2 * i))" if "i < unat len div 2" for i
    using that assms [of "2 * i"] assms [of "2 * i + 1"] by (intro rd16_cong) (simp_all add: ac_simps)
  moreover have "m (a + of_nat (unat len - 1)) = m' (a + of_nat (unat len - 1))" if "unat len mod 2 = 1"
    using that by (intro assms) (auto intro: ccontr)
  ultimately have "cks_words m a (unat len) = cks_words m' a (unat len)" by (simp add: cks_words_def)
  then have "unat (checksum a len m) = unat (checksum a len m')" by (simp add: checksum_ocsum)
  then show ?thesis by (simp add: word_unat_eq_iff)
qed

lemma ip_hdr_ok_cong:
  assumes ok: "ip_hdr_ok m a len ttl proto sip dip" and eq: "\<And>i. i < 20 \<Longrightarrow> m' (a + of_nat i) = m (a + of_nat i)"
  shows "ip_hdr_ok m' a len ttl proto sip dip"
proof -
  have "checksum a 20 m' = checksum a 20 m" by (rule checksum_cong) (simp add: eq)
  moreover have "m' a = m a" "m' (a + 8) = m (a + 8)" "m' (a + 9) = m (a + 9)"
    using eq [of 0] eq [of 8] eq [of 9] by simp_all
  moreover have "rd16 m' (a + 2) = rd16 m (a + 2)" using eq [of 2] eq [of 3] by (intro rd16_cong) (simp_all add: add.assoc)
  moreover have "rd32 m' (a + 12) = rd32 m (a + 12)"
    using eq [of 12] eq [of 13] eq [of 14] eq [of 15] by (intro rd32_cong) (simp_all add: add.assoc)
  moreover have "rd32 m' (a + 16) = rd32 m (a + 16)"
    using eq [of 16] eq [of 17] eq [of 18] eq [of 19] by (intro rd32_cong) (simp_all add: add.assoc)
  ultimately show ?thesis using ok by (simp add: ip_hdr_ok_def)
qed

section \<open>Sending\<close>

text \<open>The state in which \<open>ip_tx\<close> looks for the next hop: header in place, one line logged.\<close>

definition ip_filled :: "addr \<Rightarrow> u32 \<Rightarrow> u8 \<Rightarrow> u8 \<Rightarrow> 'a arp_state_scheme \<Rightarrow> 'a arp_state_scheme" where
  "ip_filled pkt dip proto ttl s =
     (let h = pb_buf (pktbufs s pkt);
          m = ip_hdr h (ucast (pkt_len (pktbufs s pkt) - sizeof_ether_hdr)) ttl proto (ip_addr (netdev s)) dip (mem8 s)
      in printstr_log (ip_tx_log proto) (s\<lparr>mem8 := wr16 (h + 10) (checksum h 20 m) m\<rparr>))"

lemma ip_tx_eq:
  "ip_tx pkt dip proto ttl s =
     (let s3 = ip_filled pkt dip proto ttl s; hop = nexthop (netdev s) dip in
      case find_mac_addr hop s of
        None \<Rightarrow> arp_tx hop (printstr_log nl (log_ip hop (printstr_log ''Send arp: '' s3)))
      | Some mac_addr \<Rightarrow> ether_tx pkt mac_addr ETHER_TYPE_IPV4 (adv_buf pkt (- 14) s3))"
proof -
  have "find_mac_addr hop (ip_filled pkt dip proto ttl s) = find_mac_addr hop s" for hop
    by (simp add: ip_filled_def Let_def find_mac_addr_def printstr_log_eq)
  moreover have "ip_tx pkt dip proto ttl s =
     (let s3 = ip_filled pkt dip proto ttl s; hop = nexthop (netdev s) dip in
      case find_mac_addr hop s3 of
        None \<Rightarrow> arp_tx hop (printstr_log nl (log_ip hop (printstr_log ''Send arp: '' s3)))
      | Some mac_addr \<Rightarrow> ether_tx pkt mac_addr ETHER_TYPE_IPV4 (adv_buf pkt (- ucast sizeof_ether_hdr) s3))"
    by (simp add: ip_tx_def ip_filled_def Let_def store_def sizeof_ip_hdr_def cong: option.case_cong)
  ultimately show ?thesis by (simp add: Let_def sizeof_ether_hdr_def cong: option.case_cong)
qed

lemma net_same_filled: "tx_ready n s \<Longrightarrow> net_same s (ip_filled pkt dip proto ttl s)"
  unfolding ip_filled_def Let_def
  by (rule net_same_simple [where p = pkt and a = "pb_buf (pktbufs s pkt)"]) (simp_all, subst printstr_log_eq, simp)

lemma net_same_log_ip: "tx_ready n s \<Longrightarrow> net_same s (log_ip ip s)"
  unfolding log_ip_def by (intro net_same_step net_same_refl)

lemma ip_tx_ok:
  assumes "tx_ready 2 s"
  shows "\<exists>s'. ip_tx pkt dip proto ttl s = Inr s' \<and> net_same s s'"
proof -
  let ?hop = "nexthop (netdev s) dip" and ?s3 = "ip_filled pkt dip proto ttl s"
  have s3: "net_same s ?s3" by (rule net_same_filled [OF assms])
  show ?thesis
  proof (cases "find_mac_addr ?hop s")
    case None
    let ?s4 = "printstr_log nl (log_ip ?hop (printstr_log ''Send arp: '' ?s3))"
    have s4: "net_same s ?s4"
      using net_same_trans [OF net_same_step(3) [OF assms s3] net_same_log_ip [OF net_same_ready [OF assms net_same_step(3) [OF assms s3]]]]
      by (rule net_same_step(3) [OF assms])
    from arp_tx_ok [OF net_same_ready [OF assms s4], of ?hop] net_same_trans [OF s4] None show ?thesis
      by (auto simp: ip_tx_eq)
  next
    case (Some mac)
    let ?s4 = "adv_buf pkt (- 14) ?s3"
    have s4: "net_same s ?s4"
      unfolding adv_buf_def by (rule net_same_step(2) [OF assms s3])
    have "tx_ready 0 ?s4" using net_same_ready [OF assms s4] by (simp add: tx_ready_def)
    from ether_tx_ok [OF this, of pkt mac ETHER_TYPE_IPV4] net_same_trans [OF s4] Some show ?thesis
      by (auto simp: ip_tx_eq)
  qed
qed

interpretation ip: packet_layer "\<lambda>pkt. ip_tx pkt dip proto ttl" 2 for dip proto ttl
  by unfold_locales (rule ip_tx_ok)


section \<open>A header, a payload and a checksum over both\<close>

lemma region_offset: "region (a + of_nat h) n \<subseteq> region a (h + n)"
  unfolding region_def by (auto simp: add.assoc of_nat_add [symmetric] simp del: of_nat_add)

lemma checksummed_block:
  fixes a src :: addr and h n k :: nat and m :: bytes
  assumes src: "region (a + of_nat h) n \<inter> region src n = {}" and len: "h + n < 65536" and k: "2 * k + 2 \<le> h"
    and zero: "rd16 m (a + of_nat (2 * k)) = 0"
  defines "m1 \<equiv> memcpy (a + of_nat h) src (of_nat n) m"
  defines "m2 \<equiv> wr16 (a + of_nat (2 * k)) (checksum a (of_nat (h + n)) m1) m1"
  shows "checksum a (of_nat (h + n)) m2 = 0"
    and "bytes_at m2 (a + of_nat h) n = bytes_at m src n"
    and "\<And>i. i < h \<Longrightarrow> i \<noteq> 2 * k \<Longrightarrow> i \<noteq> 2 * k + 1 \<Longrightarrow> m2 (a + of_nat i) = m (a + of_nat i)"
    and "\<And>x. x \<notin> region a (h + n) \<Longrightarrow> m2 x = m x"
proof -
  have n: "unat (of_nat n :: u32) = n" using len by (simp add: unat_of_nat32)
  have fr: "m1 x = m x" if "x \<notin> region (a + of_nat h) n" for x
    unfolding m1_def using that src by (intro memcpy_frame) (simp_all add: n)
  have out: "a + of_nat i \<notin> region (a + of_nat h) n" if "i < h" for i
  proof
    assume "a + of_nat i \<in> region (a + of_nat h) n"
    then obtain j where "j < n" "a + of_nat i = a + of_nat (h + j)" by (auto simp: region_def add.assoc)
    then show False using offset_neq [of i "h + j" a] len that by simp
  qed
  have two: "(a + of_nat (2 * k)) + 1 = a + of_nat (2 * k + 1)" by (simp add: add.assoc)
  have hd: "m1 (a + of_nat i) = m (a + of_nat i)" if "i < h" for i by (rule fr [OF out [OF that]])
  have "rd16 m1 (a + of_nat (2 * k)) = rd16 m (a + of_nat (2 * k))"
    by (rule rd16_cong) (use hd [of "2 * k"] hd [of "2 * k + 1"] k in \<open>simp_all add: two del: of_nat_add of_nat_mult\<close>)
  then have "rd16 m1 (a + of_nat (2 * k)) = 0" using zero by simp
  moreover have "k < unat (of_nat (h + n) :: u16) div 2" using len k by (subst unat_of_nat16) auto
  ultimately show "checksum a (of_nat (h + n)) m2 = 0" unfolding m2_def by (rule checksum_verifies [rotated])
  have up: "m2 x = m1 x" if "x \<noteq> a + of_nat (2 * k)" "x \<noteq> a + of_nat (2 * k + 1)" for x
    using that by (simp add: m2_def wr16_def two del: of_nat_add of_nat_mult)
  have "m2 (a + of_nat h + of_nat i) = m1 (a + of_nat h + of_nat i)" if "i < n" for i
    using offset_neq [of "h + i" "2 * k" a] offset_neq [of "h + i" "2 * k + 1" a] len k that
    by (intro up) (simp_all add: add.assoc del: of_nat_mult)
  then have "bytes_at m2 (a + of_nat h) n = bytes_at m1 (a + of_nat h) n" by (rule bytes_at_cong)
  also have "\<dots> = bytes_at m src n" using memcpy_copies [of "a + of_nat h" "of_nat n" src m] src by (simp add: n m1_def)
  finally show "bytes_at m2 (a + of_nat h) n = bytes_at m src n" .
  show "m2 (a + of_nat i) = m (a + of_nat i)" if "i < h" "i \<noteq> 2 * k" "i \<noteq> 2 * k + 1" for i
    using up [of "a + of_nat i"] hd [OF that(1)] offset_neq [of i "2 * k" a] offset_neq [of i "2 * k + 1" a] that len k
    by (simp del: of_nat_add of_nat_mult)
  show "m2 x = m x" if x: "x \<notin> region a (h + n)" for x
  proof -
    have "m2 x = m1 x" using x in_region [of "2 * k" "h + n" a] in_region [of "2 * k + 1" "h + n" a] k by (intro up) auto
    moreover have "x \<notin> region (a + of_nat h) n" using x region_offset by blast
    ultimately show ?thesis using fr by simp
  qed
qed


section \<open>The echo responder\<close>

lemma icmp_hdr_layout:
  fixes a :: addr and m :: bytes and ty :: u8 and ident seqn :: u16
  defines "m' \<equiv> icmp_hdr a ty ident seqn m"
  shows "m' a = ty" "m' (a + 1) = 0" "rd16 m' (a + 2) = 0" "rd16 m' (a + 4) = ident" "rd16 m' (a + 6) = seqn"
    "\<And>x. x \<notin> region a 8 \<Longrightarrow> m' x = m x"
proof -
  note d = m'_def icmp_hdr_def wr_defs add.assoc
  show "m' a = ty" "m' (a + 1) = 0" by (simp_all add: d)
  show "rd16 m' (a + 2) = 0" "rd16 m' (a + 4) = ident" "rd16 m' (a + 6) = seqn"
    by (rule rd16_eq; simp add: d)+
  fix x
  assume x: "x \<notin> region a 8"
  have "x \<noteq> a + of_nat i" if "i < 8" for i using x in_region [OF that, of a] by auto
  from this [of 0] this [of 1] this [of 2] this [of 3] this [of 4] this [of 5] this [of 6] this [of 7]
  show "m' x = m x" by (simp add: d)
qed

definition icmp_reply_ok :: "bytes \<Rightarrow> addr \<Rightarrow> bytes \<Rightarrow> addr \<Rightarrow> nat \<Rightarrow> bool" where
  "icmp_reply_ok m' b m rx n =
     (m' b = ICMP_HDR_TYPE_ECHO_REPLY \<and> m' (b + 1) = 0 \<and> rd16 m' (b + 4) = rd16 m (rx + 4) \<and>
      rd16 m' (b + 6) = rd16 m (rx + 6) \<and> bytes_at m' (b + 8) n = bytes_at m (rx + 8) n \<and>
      checksum b (of_nat (8 + n)) m' = 0)"

lemma icmp_reply_built:
  fixes b rx :: addr and m :: bytes and n :: nat
  assumes src: "region b (8 + n) \<inter> region rx (8 + n) = {}" and len: "8 + n < 65536"
  defines "m1 \<equiv> icmp_hdr b ICMP_HDR_TYPE_ECHO_REPLY (rd16 m (rx + 4)) (rd16 m (rx + 6)) m"
  defines "m2 \<equiv> memcpy (b + 8) (rx + 8) (of_nat n) m1"
  shows "icmp_reply_ok (wr16 (b + 2) (checksum b (of_nat (8 + n)) m2) m2) b m rx n"
proof -
  note l = icmp_hdr_layout [where a = b and ty = ICMP_HDR_TYPE_ECHO_REPLY and ident = "rd16 m (rx + 4)"
      and seqn = "rd16 m (rx + 6)" and m = m, folded m1_def]
  have ap: "region (b + of_nat 8) n \<inter> region (rx + 8) n = {}"
    using src region_offset [of b 8 n] region_offset [of rx 8 n] by auto
  have z: "rd16 m1 (b + of_nat (2 * 1)) = 0" using l(3) by simp
  note c = checksummed_block [of b 8 n "rx + 8" 1 m1, OF ap len _ z, simplified, folded m2_def]
  let ?m = "wr16 (b + 2) (checksum b (of_nat (8 + n)) m2) m2"
  have "bytes_at m1 (rx + 8) n = bytes_at m (rx + 8) n"
  proof (rule bytes_at_cong)
    fix i assume "i < n"
    then have "rx + 8 + of_nat i \<in> region rx (8 + n)" using region_offset [of rx 8 n] in_region [of i n "rx + 8"] by auto
    then have "rx + 8 + of_nat i \<notin> region b 8" using src region_mono [of 8 "8 + n" b] by auto
    then show "m1 (rx + 8 + of_nat i) = m (rx + 8 + of_nat i)" by (rule l(6))
  qed
  moreover have "?m b = m1 b" "?m (b + 1) = m1 (b + 1)" using c(3) [of 0] c(3) [of 1] by simp_all
  moreover have "rd16 ?m (b + 4) = rd16 m1 (b + 4)" "rd16 ?m (b + 6) = rd16 m1 (b + 6)"
    using c(3) [of 4] c(3) [of 5] c(3) [of 6] c(3) [of 7] by (auto intro!: rd16_cong simp: add.assoc)
  ultimately show ?thesis using c(1,2) l by (simp add: icmp_reply_ok_def)
qed


lemma icmp_rx_ok:
  assumes r: "tx_ready 4 s" and req: "mem8 s (pb_buf (pktbufs s rxpkt)) = ICMP_HDR_TYPE_ECHO_REQUEST"
    and fits: "mem_fits (pkt_len (pktbufs s rxpkt))"
  shows "\<exists>s'. icmp_rx rxpkt sip s = Inr s' \<and> net_same s s'"
proof -
  let ?s2 = "printstr_app (''icmp_rx: sends reply'' @ nl) (adv_buf rxpkt (ucast sizeof_icmp_hdr) s)"
  let ?len = "pkt_len (pktbufs s rxpkt)"
  have s2: "net_same s ?s2" unfolding adv_buf_def by (intro net_same_step [OF r] net_same_set_buf [OF r])
  have e: "mem8 (adv_buf rxpkt (ucast sizeof_icmp_hdr) s) = mem8 s" "pkt_len (pktbufs ?s2 rxpkt) = ?len"
    by (simp_all add: adv_buf_def set_buf_def printstr_app_eq)
  have "tx_ready (Suc (Suc 2)) ?s2" using net_same_ready [OF r s2] by (simp add: eval_nat_numeral)
  note sp = ip.send_packet [OF this fits]
  have "\<exists>s'. icmp_rx rxpkt sip s = Inr s' \<and> net_same ?s2 s'"
    unfolding icmp_rx_def Let_def e
    by (simp only: req if_True refl, rule sp) (intro net_same_step | assumption | rule net_same_refl)+
  with net_same_trans [OF s2] show ?thesis by blast
qed


section \<open>Properties\<close>

text \<open>The frame as it leaves \<open>ip_tx\<close>: Ethernet header, then the IP header, then what the caller put there.\<close>

lemma ip_frame_built:
  fixes s :: "'a arp_state_scheme" and dip :: u32 and proto ttl :: u8
  assumes hw: "length (hw_addr (netdev s)) = 6" and h: "h = pb_buf (pktbufs s pkt)" and mac: "length mac = 6"
  defines "m \<equiv> ether_hdr (h - 14) mac (hw_addr (netdev s)) ETHER_TYPE_IPV4 (mem8 (ip_filled pkt dip proto ttl s))"
  shows "ip_hdr_ok m h (ucast (pkt_len (pktbufs s pkt) - 14)) ttl proto (ip_addr (netdev s)) dip"
    and "bytes_at m (h - 14) 6 = mac" and "bytes_at m (h - 8) 6 = hw_addr (netdev s)" and "ntoh16 (rd16 m (h - 2)) = ETHER_TYPE_IPV4"
    and "x \<notin> region (h - 14) 34 \<Longrightarrow> m x = mem8 s x"
proof -
  let ?m3 = "mem8 (ip_filled pkt dip proto ttl s)"
  note el = ether_layout [OF mac hw, where a = "h - 14" and ty = ETHER_TYPE_IPV4 and m = ?m3, folded m_def]
  let ?m1 = "ip_hdr h (ucast (pkt_len (pktbufs s pkt) - sizeof_ether_hdr)) ttl proto (ip_addr (netdev s)) dip (mem8 s)"
  have m3: "?m3 = wr16 (h + 10) (checksum h 20 ?m1) ?m1" by (simp add: ip_filled_def Let_def printstr_log_eq h)
  show "ip_hdr_ok m h (ucast (pkt_len (pktbufs s pkt) - 14)) ttl proto (ip_addr (netdev s)) dip"
  proof (rule ip_hdr_ok_cong)
    show "ip_hdr_ok ?m3 h (ucast (pkt_len (pktbufs s pkt) - 14)) ttl proto (ip_addr (netdev s)) dip"
      using ip_hdr_ok_built [of h] unfolding m3 by (simp add: sizeof_ether_hdr_def)
    fix i :: nat
    assume "i < 20"
    then have "h + of_nat i \<noteq> h - 14 + of_nat j" if "j < 14" for j
      using that offset_neq [of "i + 14" j "h - 14"] by (auto simp: algebra_simps)
    then show "m (h + of_nat i) = ?m3 (h + of_nat i)" by (intro el(4)) (auto simp: region_def)
  qed
  show "bytes_at m (h - 14) 6 = mac" "bytes_at m (h - 8) 6 = hw_addr (netdev s)" "ntoh16 (rd16 m (h - 2)) = ETHER_TYPE_IPV4"
    using el(1,2,3) by simp_all
  assume "x \<notin> region (h - 14) 34"
  then have "x \<notin> region (h - 14) 14" "x \<notin> region h 20"
    using region_mono [of 14 34 "h - 14"] region_offset [of "h - 14" 14 20] by auto
  with el(4) [of x] ip_hdr_layout(8) [of x h] show "m x = mem8 s x" unfolding m3 by simp
qed

text \<open>
  C16: what \<open>ip_tx\<close> puts on the wire. It always returns and leaves memory and packet to the caller. When the
  table knows the next hop, the packet is handed to the device with a correct IP header in front of the
  payload (version, length, time to live, protocol, addresses, and a checksum that verifies) and an
  Ethernet header from this card to the next hop in front of that, everything else unchanged; the next
  hop is the destination itself on the local network and the gateway otherwise. When the table does not
  know it, the packet is not sent: only a request for the next hop's address is.
\<close>

theorem ip_tx_correct:
  assumes "tx_ready 2 s" and "length (hw_addr (netdev s)) = 6" and "h = pb_buf (pktbufs s pkt)"
  shows "(\<exists>s'. ip_tx pkt dip proto ttl s = Inr s' \<and> net_same s s') \<and>
     (\<forall>mac. find_mac_addr (nexthop (netdev s) dip) s = Some mac \<longrightarrow> length mac = 6 \<longrightarrow>
        (\<exists>s3. ip_tx pkt dip proto ttl s = netdev_tx pkt s3 \<and> nic s3 = nic s \<and>
           ip_hdr_ok (mem8 s3) h (ucast (pkt_len (pktbufs s pkt) - 14)) ttl proto (ip_addr (netdev s)) dip \<and>
           bytes_at (mem8 s3) (h - 14) 6 = mac \<and> bytes_at (mem8 s3) (h - 8) 6 = hw_addr (netdev s) \<and>
           ntoh16 (rd16 (mem8 s3) (h - 2)) = ETHER_TYPE_IPV4 \<and>
           (\<forall>x. x \<notin> region (h - 14) 34 \<longrightarrow> mem8 s3 x = mem8 s x))) \<and>
     (find_mac_addr (nexthop (netdev s) dip) s = None \<longrightarrow>
        (\<exists>s3. ip_tx pkt dip proto ttl s = arp_tx (nexthop (netdev s) dip) s3 \<and> nic s3 = nic s))"
proof (intro conjI allI impI)
  let ?hop = "nexthop (netdev s) dip" and ?s3 = "ip_filled pkt dip proto ttl s"
  show "\<exists>s'. ip_tx pkt dip proto ttl s = Inr s' \<and> net_same s s'" by (rule ip_tx_ok [OF assms(1)])
  show "\<exists>s3. ip_tx pkt dip proto ttl s = arp_tx ?hop s3 \<and> nic s3 = nic s" if "find_mac_addr ?hop s = None"
    using that by (intro exI [of _ "printstr_log nl (log_ip ?hop (printstr_log ''Send arp: '' ?s3))"])
      (simp add: ip_tx_eq Let_def, simp add: ip_filled_def log_ip_def Let_def machine_simps)
  fix mac
  assume mac: "find_mac_addr ?hop s = Some mac" "length mac = 6"
  let ?s4 = "store (ether_hdr (h - 14) mac (hw_addr (netdev s)) ETHER_TYPE_IPV4) (adv_buf pkt (- 14) ?s3)"
  have f: "netdev ?s3 = netdev s" "pktbufs ?s3 = pktbufs s" "nic ?s3 = nic s" by (simp_all add: ip_filled_def Let_def printstr_log_eq)
  have "ip_tx pkt dip proto ttl s = netdev_tx pkt ?s4" "nic ?s4 = nic s"
    "mem8 ?s4 = ether_hdr (h - 14) mac (hw_addr (netdev s)) ETHER_TYPE_IPV4 (mem8 ?s3)"
    using mac(1) by (simp_all add: ip_tx_eq Let_def ether_tx_def store_def adv_buf_def set_buf_def f assms(3))
  with ip_frame_built [OF assms(2,3) mac(2)]
  show "\<exists>s3. ip_tx pkt dip proto ttl s = netdev_tx pkt s3 \<and> nic s3 = nic s \<and>
      ip_hdr_ok (mem8 s3) h (ucast (pkt_len (pktbufs s pkt) - 14)) ttl proto (ip_addr (netdev s)) dip \<and>
      bytes_at (mem8 s3) (h - 14) 6 = mac \<and> bytes_at (mem8 s3) (h - 8) 6 = hw_addr (netdev s) \<and>
      ntoh16 (rd16 (mem8 s3) (h - 2)) = ETHER_TYPE_IPV4 \<and>
      (\<forall>x. x \<notin> region (h - 14) 34 \<longrightarrow> mem8 s3 x = mem8 s x)" by (intro exI [of _ ?s4]) simp
qed


lemma icmp_reply_apart:
  fixes m :: bytes
  assumes "b \<noteq> e" and "b \<in> live s" and "e \<in> live s" and "42 + n < 65536"
  defines "m2 \<equiv> memcpy (b + 42) (e + 42) (of_nat n) (icmp_hdr (b + 34) ICMP_HDR_TYPE_ECHO_REPLY (rd16 m (e + 38)) (rd16 m (e + 40)) m)"
  shows "icmp_reply_ok (wr16 (b + 36) (checksum (b + 34) (of_nat (8 + n)) m2) m2) (b + 34) m (e + 34) n"
proof -
  have "b \<in> live_of (memhdrs s)" "e \<in> live_of (memhdrs s)" using assms(2,3) by (simp_all add: mem_view)
  then have "region b (34 + (8 + n)) \<inter> region e (34 + (8 + n)) = {}" using assms(1,4) by (intro live_regions_disjoint) auto
  then have "region (b + 34) (8 + n) \<inter> region (e + 34) (8 + n) = {}"
    using region_offset [of b 34 "8 + n"] region_offset [of e 34 "8 + n"] by auto
  from icmp_reply_built [OF this, of m] assms(4) show ?thesis by (simp add: add.assoc m2_def)
qed

text \<open>The reply as it is handed to IP.\<close>

lemma icmp_reply_sent:
  assumes "tx_ready 4 s" and "e \<in> live s" and "pb_buf (pktbufs s rx) = e + 34"
    and "mem8 s (e + 34) = ICMP_HDR_TYPE_ECHO_REQUEST" and "pkt_len (pktbufs s rx) = of_nat (42 + n)" and "42 + n < 65536"
    and "rx \<in> live s" and fits: "mem_fits (pkt_len (pktbufs s rx))"
  shows "\<exists>tx s7. icmp_rx rx sip s = bindr (ip_tx tx (ntoh32 sip) IP_HDR_PROTO_ICMP 64 s7) (free_pkt tx) \<and>
        pkt_len (pktbufs s7 tx) = pkt_len (pktbufs s rx) \<and>
        icmp_reply_ok (mem8 s7) (pb_buf (pktbufs s7 tx) + 20) (mem8 s) (e + 34) n"
proof -
  have req: "mem8 s (pb_buf (pktbufs s rx)) = ICMP_HDR_TYPE_ECHO_REQUEST" using assms(3,4) by simp
  let ?s2 = "printstr_app (''icmp_rx: sends reply'' @ nl) (adv_buf rx (ucast sizeof_icmp_hdr) s)"
  have e42: "pb_buf (pktbufs s rx) + 8 = e + 42" using assms(3) by simp
  have f2: "mem8 ?s2 = mem8 s" "mem8 (adv_buf rx (ucast sizeof_icmp_hdr) s) = mem8 s" "live ?s2 = live s"
    "pktbufs ?s2 = (pktbufs s)(rx := (pktbufs s rx)\<lparr>pb_buf := e + 42\<rparr>)"
    by (simp_all add: adv_buf_def set_buf_def printstr_app_eq mem_view sizeof_icmp_hdr_def e42)
  have "net_same s ?s2" unfolding adv_buf_def by (intro net_same_step [OF assms(1)] net_same_set_buf [OF assms(1)])
  from net_same_ready [OF assms(1) this] have "tx_ready (Suc (Suc 2)) ?s2" by (simp add: eval_nat_numeral)
  from new_pkt_ok [OF this fits, of "''icmp_reply_pbuf''" "''icmp_reply_pbuf_buf''"] obtain p b s3 fm mh where
    s3: "new_pkt (pkt_len (pktbufs s rx)) ''icmp_reply_pbuf'' ''icmp_reply_pbuf_buf'' ?s2 = Inr (p, s3)"
      "{p, b} \<inter> live s = {}" "live s3 = {p, b} \<union> live s"
    and e3: "s3 = ?s2\<lparr>freemem := fm, memhdrs := mh,
               pktbufs := (pktbufs ?s2)(p := \<lparr>pkt_len = pkt_len (pktbufs s rx), pb_buf = b, pb_head = b\<rparr>)\<rparr>"
    unfolding f2(3) by blast
  have rp: "rx \<noteq> p" using s3(2) assms(7) by auto
  have f3: "mem8 s3 = mem8 s" "pktbufs s3 p = \<lparr>pkt_len = pkt_len (pktbufs s rx), pb_buf = b, pb_head = b\<rparr>"
    "pb_buf (pktbufs s3 rx) = e + 42" using rp by (simp_all add: e3 f2 del: append_Cons)
  let ?m1 = "icmp_hdr (b + 34) ICMP_HDR_TYPE_ECHO_REPLY (rd16 (mem8 s) (e + 38)) (rd16 (mem8 s) (e + 40)) (mem8 s)"
  let ?m2 = "memcpy (b + 42) (e + 42) (of_nat n) ?m1"
  let ?m3 = "wr16 (b + 36) (checksum (b + 34) (of_nat (8 + n)) ?m2) ?m2"
  let ?s7 = "set_buf p (14 + b) (s3\<lparr>mem8 := ?m3\<rparr>)"
  have sz: "pkt_len (pktbufs s rx) - (sizeof_ether_hdr + sizeof_ip_hdr + sizeof_icmp_hdr) = of_nat n"
    "pkt_len (pktbufs s rx) - (sizeof_ether_hdr + sizeof_ip_hdr) = of_nat (8 + n)"
    by (simp_all add: assms(5) sizeof_ether_hdr_def sizeof_ip_hdr_def sizeof_icmp_hdr_def)
  have cast: "ucast (of_nat (8 + n) :: u32) = (of_nat (8 + n) :: u16)"
    using assms(6) by (simp add: unsigned_of_nat take_bit_nat_eq_self del: of_nat_add)
  have st: "store g (s3\<lparr>mem8 := m\<rparr>) = s3\<lparr>mem8 := g m\<rparr>" "store g s3 = s3\<lparr>mem8 := g (mem8 s)\<rparr>" for g m
    by (simp_all add: store_def f3)
  have "icmp_rx rx sip s = bindr (ip_tx p (ntoh32 sip) IP_HDR_PROTO_ICMP 64 ?s7) (free_pkt p)"
    using req s3(1) assms(3)
    by (simp add: icmp_rx_def Let_def f2 f3 sz cast st add.assoc del: of_nat_add append_Cons)
      (simp add: sizeof_ether_hdr_def sizeof_ip_hdr_def sizeof_icmp_hdr_def assms(5))
  moreover have "icmp_reply_ok ?m3 (b + 34) (mem8 s) (e + 34) n"
    using icmp_reply_apart [of b e s3 n "mem8 s"] s3(2,3) assms(2,6) by auto
  ultimately show ?thesis
    by (intro exI [of _ p] exI [of _ ?s7]) (simp add: set_buf_def f3 add.commute [of 34 b])
qed

text \<open>
  C17: an echo request is answered with its own content: the handler returns and gives back every block it
  took, and the message it hands to \<open>ip_tx\<close>, for the host the request came from, is an echo reply with
  the identifier, the sequence number and the data of the request and a checksum that verifies.
\<close>

theorem icmp_echo_answered:
  assumes "tx_ready 4 s" and "e \<in> live s" and "pb_buf (pktbufs s rx) = e + 34"
    and "mem8 s (e + 34) = ICMP_HDR_TYPE_ECHO_REQUEST" and "pkt_len (pktbufs s rx) = of_nat (42 + n)" and "42 + n < 65536"
    and "rx \<in> live s"
  shows "(\<exists>s'. icmp_rx rx sip s = Inr s' \<and> net_same s s') \<and>
     (\<exists>tx s7. icmp_rx rx sip s = bindr (ip_tx tx (ntoh32 sip) IP_HDR_PROTO_ICMP 64 s7) (free_pkt tx) \<and>
        pkt_len (pktbufs s7 tx) = pkt_len (pktbufs s rx) \<and>
        icmp_reply_ok (mem8 s7) (pb_buf (pktbufs s7 tx) + 20) (mem8 s) (e + 34) n)"
proof -
  have "unat (pkt_len (pktbufs s rx)) = 42 + n" using assms(6) unfolding assms(5) by (simp add: unat_of_nat32 del: of_nat_add)
  then have fits: "mem_fits (pkt_len (pktbufs s rx))"
    using assms(6) by (simp add: mem_fits_def MEM_GRANULARITY_def word_le_nat_alt unsigned_ucast_eq take_bit_nat_eq_self)
  have "mem8 s (pb_buf (pktbufs s rx)) = ICMP_HDR_TYPE_ECHO_REQUEST" using assms(3,4) by simp
  from icmp_rx_ok [OF assms(1) this fits] icmp_reply_sent [OF assms fits] show ?thesis by blast
qed

end
