(* ===== verification/Raw.thy ===== *)
theory Raw
  imports Ip
begin

text \<open>
  What the three kinds of sockets share (the queue of received data, the time-out argument, the search
  for a free socket), and the raw sockets of \<^verbatim>\<open>kernel/net/raw.c\<close>.
\<close>

section \<open>Received data\<close>

text \<open>\<open>struct raw_rx_data\<close>, \<open>struct udp_rx_data\<close> and \<open>struct tcp_rx_data\<close> have the same fields.\<close>

record rx_data =
  rxd_data :: addr
  rxd_len :: u32

record sock_state = arp_state +
  rxdatas :: "addr \<Rightarrow> rx_data"

definition sizeof_rx_data :: u32 where "sizeof_rx_data = 24"
definition sizeof_2int :: u32 where "sizeof_2int = 8"

text \<open>
  The receive path of every socket: allocate an entry and a buffer of \<open>cap\<close> bytes, copy \<open>len\<close> bytes from
  \<open>src\<close>. \<open>int data_len\<close> is kept as its 32-bit pattern.
\<close>

definition new_rx_data :: "addr \<Rightarrow> u32 \<Rightarrow> u32 \<Rightarrow> 'a sock_state_scheme \<Rightarrow> (addr \<times> 'a sock_state_scheme) res" where
  "new_rx_data src len cap s =
     bindr (mem_alloc sizeof_rx_data ''rx_data'' s) (\<lambda>(rx, s1).
     bindr (mem_alloc cap ''rx_data_data'' s1) (\<lambda>(data, s2).
     Inr (rx, store (memcpy data src len) (s2\<lparr>rxdatas := (rxdatas s2)(rx := \<lparr>rxd_data = data, rxd_len = len\<rparr>)\<rparr>))))"

text \<open>The \<open>while\<close> loop of the \<open>socket_free\<close> functions.\<close>

lemma list_popfront_count:
  assumes "list_popfront l nx = Inr (r, l', nx')" and "\<not> list_empty l"
  shows "unat (count l') < unat (count l)"
proof -
  from assms have "count l' = count l - 1" and nz: "count l \<noteq> 0"
    by (auto simp: list_popfront_def list_empty_def Let_def split: option.splits)
  with nz show ?thesis by (metis unat_gt_0 unat_minus_one diff_less zero_less_one)
qed

function drain_rx :: "addr listctl \<Rightarrow> 'a sock_state_scheme \<Rightarrow> (addr listctl \<times> 'a sock_state_scheme) res" where
  "drain_rx l s =
     (if list_empty l then Inr (l, s)
      else
        case list_popfront l (links s) of
          Inl e \<Rightarrow> Inl e
        | Inr (None, l1, nx) \<Rightarrow> Inl NullPtr
        | Inr (Some rx, l1, nx) \<Rightarrow>
            (case mem_free (rxd_data (rxdatas s rx)) (s\<lparr>links := nx\<rparr>) of
               Inl e \<Rightarrow> Inl e
             | Inr s1 \<Rightarrow> (case mem_free rx s1 of Inl e \<Rightarrow> Inl e | Inr s2 \<Rightarrow> drain_rx l1 s2)))"
  by pat_completeness auto
termination
  by (relation "measure (\<lambda>(l, _). unat (count l))") (auto dest: list_popfront_count)

declare drain_rx.simps [simp del]

text \<open>The index of the first entry with a property: the \<open>for\<close> loops that look for a free socket.\<close>

fun first_idx :: "('x \<Rightarrow> bool) \<Rightarrow> 'x list \<Rightarrow> nat \<Rightarrow> nat option" where
  "first_idx P [] i = None"
| "first_idx P (x # xs) i = (if P x then Some i else first_idx P xs (Suc i))"

text \<open>\<open>int *args = mem_alloc (2 * sizeof (int)); args[0] = x; args[1] = y;\<close>\<close>

definition new_args :: "string \<Rightarrow> u32 \<Rightarrow> u32 \<Rightarrow> 'a arp_state_scheme \<Rightarrow> (addr \<times> 'a arp_state_scheme) res" where
  "new_args nm x y s =
     bindr (mem_alloc sizeof_2int nm s) (\<lambda>(args, s1). Inr (args, store (wr32 (args + 4) y \<circ> wr32 args x) s1))"

text \<open>A socket id is a C \<open>int\<close>; an array access outside the table is a fault.\<close>

definition sock_get :: "'x list \<Rightarrow> int \<Rightarrow> 'x res" where
  "sock_get xs i = (if i < 0 then Inl OutOfRange else arr_get xs (nat i))"

text \<open>
  The end of the \<open>recv\<close> functions: take the first entry and copy at most \<open>sz\<close> bytes of it to the caller.
  The returned list control goes back into the socket.
\<close>

definition take_rx ::
  "addr listctl \<Rightarrow> addr \<Rightarrow> int \<Rightarrow> 'a sock_state_scheme \<Rightarrow> (int \<times> addr listctl \<times> 'a sock_state_scheme) res" where
  "take_rx l buf sz s =
     bindr (list_popfront l (links s)) (\<lambda>(r, l1, nx).
     case r of
       None \<Rightarrow> Inl NullPtr
     | Some rx \<Rightarrow>
         (let d = rxdatas s rx; data_len = min_int sz (sint (rxd_len d))
          in Inr (data_len, l1, store (memcpy buf (rxd_data d) (of_int data_len)) (s\<lparr>links := nx\<rparr>))))"

section \<open>Raw sockets\<close>

definition RAW_SOCKET_FREE :: u8 where "RAW_SOCKET_FREE = 0"
definition RAW_SOCKET_USED :: u8 where "RAW_SOCKET_USED = 1"
definition RAW_SOCKET_COUNT :: nat where "RAW_SOCKET_COUNT = 10"

record raw_socket =
  rs_rx_data_list :: "addr listctl"
  rs_wait_id :: u64
  rs_proto :: u8
  rs_flag :: u8

record raw_state = sock_state +
  raw_sockets :: "raw_socket list"

definition raw_upd :: "nat \<Rightarrow> (raw_socket \<Rightarrow> raw_socket) \<Rightarrow> 'a raw_state_scheme \<Rightarrow> 'a raw_state_scheme" where
  "raw_upd i f s = s\<lparr>raw_sockets := (raw_sockets s)[i := f (raw_sockets s ! i)]\<rparr>"

definition raw_socket_init :: "'a raw_state_scheme \<Rightarrow> 'a raw_state_scheme" where
  "raw_socket_init s =
     printstr_log (''Initialized RAW socket'' @ nl)
       (s\<lparr>raw_sockets := map (\<lambda>k. k\<lparr>rs_rx_data_list := list_init, rs_flag := RAW_SOCKET_FREE\<rparr>) (raw_sockets s)\<rparr>)"

definition raw_socket_open :: "u8 \<Rightarrow> 'a raw_state_scheme \<Rightarrow> (int \<times> 'a raw_state_scheme) res" where
  "raw_socket_open proto s =
     (case first_idx (\<lambda>k. rs_flag k = RAW_SOCKET_FREE) (raw_sockets s) 0 of
        Some i \<Rightarrow>
          Inr (int i, raw_upd i (\<lambda>k. k\<lparr>rs_wait_id := 0, rs_proto := proto, rs_flag := RAW_SOCKET_USED\<rparr>) s)
      | None \<Rightarrow> panic (printstr_log (''ERROR: exceed max raw socket count'' @ nl) s))"

definition raw_socket_free :: "int \<Rightarrow> 'a raw_state_scheme \<Rightarrow> 'a raw_state_scheme res" where
  "raw_socket_free socket_id s =
     (if socket_id < 0 \<or> socket_id \<ge> int RAW_SOCKET_COUNT
      then panic (printstr_log (''ERROR: invalid socket_id'' @ nl) s)
      else
        bindr (sock_get (raw_sockets s) socket_id) (\<lambda>k.
        if rs_flag k \<noteq> RAW_SOCKET_USED
        then panic (printstr_log (''ERROR: Tried to free unused raw socket'' @ nl) s)
        else
          let i = nat socket_id; s1 = raw_upd i (rs_flag_update (\<lambda>_. RAW_SOCKET_FREE)) s in
          bindr (drain_rx (rs_rx_data_list (raw_sockets s1 ! i)) s1) (\<lambda>(l, s2).
          Inr (raw_upd i (rs_rx_data_list_update (\<lambda>_. l)) s2))))"

definition raw_socket_send ::
  "int \<Rightarrow> u32 \<Rightarrow> addr \<Rightarrow> u32 \<Rightarrow> u8 \<Rightarrow> 'a raw_state_scheme \<Rightarrow> 'a raw_state_scheme res" where
  "raw_socket_send socket_id dip buf sz ttl s =
     (if socket_id < 0 \<or> socket_id \<ge> int RAW_SOCKET_COUNT
      then panic (printstr_log (''ERROR: invalid socket_id'' @ nl) s)
      else
        bindr (sock_get (raw_sockets s) socket_id) (\<lambda>socket.
        bindr (new_pkt (sizeof_ether_hdr + sizeof_ip_hdr + sz) ''raw_send_pbuf'' ''raw_send_pbuf_buf'' s)
          (\<lambda>(txpkt, s1).
        let b = pb_buf (pktbufs s1 txpkt) + ucast (sizeof_ether_hdr + sizeof_ip_hdr);
            s2 = store (memcpy b buf sz) s1;
            s3 = set_buf txpkt (b - ucast sizeof_ip_hdr) s2 in
        bindr (ip_tx txpkt dip (rs_proto socket) ttl s3) (free_pkt txpkt))))"

text \<open>
  \<open>wait_id\<close> is read back from memory as an \<open>int\<close> and compared with a 64-bit field, so it is sign-extended.
\<close>

definition raw_socket_recv_timeout :: "addr option \<Rightarrow> 'a raw_state_scheme \<Rightarrow> 'a raw_state_scheme res" where
  "raw_socket_recv_timeout arg s =
     (case arg of
        None \<Rightarrow> Inl NullPtr
      | Some args \<Rightarrow>
          let socket_id = sint (rd32 (mem8 s) args); wait_id = rd32 (mem8 s) (args + 4) in
          bindr (sock_get (raw_sockets s) socket_id) (\<lambda>socket.
          bindr (if rs_wait_id socket = scast wait_id then task_wakeup (RawSock (nat socket_id)) s else Inr s)
            (mem_free args)))"

definition raw_socket_recv ::
  "('a raw_state_scheme \<Rightarrow> 'a raw_state_scheme res) \<Rightarrow> int \<Rightarrow> addr \<Rightarrow> int \<Rightarrow> 'a raw_state_scheme
    \<Rightarrow> (int \<times> 'a raw_state_scheme) res" where
  "raw_socket_recv env socket_id buf sz s =
     (if socket_id < 0 \<or> socket_id \<ge> int RAW_SOCKET_COUNT
      then panic (printstr_log (''ERROR: invalid socket_id'' @ nl) s)
      else
        let i = nat socket_id in
        bindr (sock_get (raw_sockets s) socket_id) (\<lambda>socket.
        bindr (if list_empty (rs_rx_data_list socket)
               then
                 let w = get_tick s; s1 = raw_upd i (rs_wait_id_update (\<lambda>_. w)) s in
                 bindr (new_args ''raw_timeout_arg'' (of_int socket_id) (ucast w) s1) (\<lambda>(args, s2).
                 bindr (wq_push_with_delay RawSocketRecvTimeout (Some args) 5000 s2) (task_sleep env (RawSock i)))
               else Inr s) (\<lambda>s3.
        let l = rs_rx_data_list (raw_sockets s3 ! i) in
        if list_empty l then Inr (- 1, s3)
        else bindr (take_rx l buf sz s3) (\<lambda>(n, l1, s4).
             Inr (n, raw_upd i (rs_rx_data_list_update (\<lambda>_. l1)) s4)))))"

definition raw_recv_one :: "addr \<Rightarrow> u8 \<Rightarrow> nat \<Rightarrow> 'a raw_state_scheme \<Rightarrow> 'a raw_state_scheme res" where
  "raw_recv_one pkt proto i s =
     bindr (arr_get (raw_sockets s) i) (\<lambda>k.
     if rs_flag k = RAW_SOCKET_USED \<and> rs_proto k = proto
     then
       let p = pktbufs s pkt in
       bindr (new_rx_data (pb_buf p) (pkt_len p - sizeof_ether_hdr) (pkt_len p) s) (\<lambda>(rx, s1).
       bindr (list_pushback (rs_rx_data_list (raw_sockets s1 ! i)) rx (links s1)) (\<lambda>(l, nx).
       task_wakeup (RawSock i) (raw_upd i (rs_rx_data_list_update (\<lambda>_. l)) (s1\<lparr>links := nx\<rparr>))))
     else Inr s)"

definition raw_recv :: "addr \<Rightarrow> u8 \<Rightarrow> 'a raw_state_scheme \<Rightarrow> 'a raw_state_scheme res" where
  "raw_recv pkt proto s =
     (let rf = get_rflags s in
      bindr (for_list [0..<RAW_SOCKET_COUNT] (raw_recv_one pkt proto) (io_cli s)) (\<lambda>s1.
      Inr (set_rflags rf s1)))"

section \<open>Callers' buffers\<close>

text \<open>A caller's buffer lies inside one block in use: task stacks and packet buffers are such blocks.\<close>

definition in_block :: "'a mem_state_scheme \<Rightarrow> addr \<Rightarrow> nat \<Rightarrow> bool" where
  "in_block s buf n = (\<exists>e \<in> live s. region buf n \<subseteq> region e 1048528)"

lemma in_block_apart:
  assumes "in_block s buf n" and "b \<notin> live s" and "live s' = insert b (live s) \<union> X" and "h + k \<le> 1048528"
  shows "region (b + of_nat h) k \<inter> region buf n = {}"
proof -
  from assms(1) obtain e where e: "e \<in> live s" "region buf n \<subseteq> region e 1048528" by (auto simp: in_block_def)
  have "e \<in> live_of (memhdrs s')" "b \<in> live_of (memhdrs s')" "b \<noteq> e" using assms(2,3) e(1) by (auto simp: mem_view)
  then have "region b (h + k) \<inter> region e 1048528 = {}" using assms(4) by (intro live_regions_disjoint) simp_all
  then show ?thesis using e(2) region_offset [of b h k] by auto
qed

lemma in_block_mono: "in_block s buf n \<Longrightarrow> live s \<subseteq> live s' \<Longrightarrow> in_block s' buf n"
  by (auto simp: in_block_def)

lemma in_block_own: "a \<in> live s \<Longrightarrow> n \<le> 1048528 \<Longrightarrow> in_block s a n"
  unfolding in_block_def by (rule bexI [of _ a]) (auto simp: region_def)

lemma first_idx_None: "first_idx P xs i = None \<longleftrightarrow> (\<forall>x \<in> set xs. \<not> P x)"
  by (induction xs arbitrary: i) auto

lemma first_idx_SomeD:
  "first_idx P xs i = Some j \<Longrightarrow> \<exists>k < length xs. j = i + k \<and> P (xs ! k) \<and> (\<forall>m < k. \<not> P (xs ! m))"
proof (induction xs arbitrary: i)
  case (Cons x xs)
  show ?case
  proof (cases "P x")
    case True
    then show ?thesis using Cons.prems by (intro exI [of _ 0]) simp
  next
    case False
    with Cons.prems Cons.IH [of "Suc i"] obtain k where
      "k < length xs" "j = Suc i + k" "P (xs ! k)" "\<forall>m < k. \<not> P (xs ! m)" by auto
    with False show ?thesis by (intro exI [of _ "Suc k"]) (auto simp: less_Suc_eq_0_disj)
  qed
qed simp

lemma sint_small: "unat x < 2147483648 \<Longrightarrow> sint (x :: u32) = int (unat x)"
proof -
  assume "unat x < 2147483648"
  then have "int (unat x) < 2147483648" by linarith
  then have u: "0 \<le> uint x" "uint x < 2147483648" by simp_all
  have "sint x = signed_take_bit 31 (uint x)" by (simp add: sint_uint)
  also have "\<dots> = uint x" by (rule signed_take_bit_int_eq_self) (use u in \<open>simp_all add: order_trans [OF _ u(1)]\<close>)
  finally show ?thesis by simp
qed

section \<open>Queues of sockets\<close>

text \<open>
  All lists of the kernel share one store of links. The queues of the sockets are disjoint from each other
  and from the timers, the work queue and the items parked behind timers (\<open>wq_blocks\<close>), so work on one of
  them leaves the others alone. \<open>l\<close> gives the list control of each queue and \<open>Q\<close> its entries.
\<close>

definition wq_blocks :: "'a wq_state_scheme \<Rightarrow> addr list \<Rightarrow> addr list \<Rightarrow> addr set" where
  "wq_blocks s ts ws = set (ts @ ws @ parked (timers s) ts)"

definition queues_ok :: "'q set \<Rightarrow> ('q \<Rightarrow> addr listctl) \<Rightarrow> addr linkmap \<Rightarrow> addr set \<Rightarrow> ('q \<Rightarrow> addr list) \<Rightarrow> bool" where
  "queues_ok qs l nx B Q =
     ((\<forall>q \<in> qs. wf_list nx (l q) (Q q) \<and> set (Q q) \<subseteq> B) \<and>
      (\<forall>p \<in> qs. \<forall>q \<in> qs. p \<noteq> q \<longrightarrow> set (Q p) \<inter> set (Q q) = {}))"

lemma queues_okI:
  assumes "\<And>q. q \<in> qs \<Longrightarrow> wf_list nx (l q) (Q q)" and "\<And>q x. q \<in> qs \<Longrightarrow> x \<in> set (Q q) \<Longrightarrow> x \<in> B"
    and "\<And>p q x. p \<in> qs \<Longrightarrow> q \<in> qs \<Longrightarrow> p \<noteq> q \<Longrightarrow> x \<in> set (Q p) \<Longrightarrow> x \<notin> set (Q q)"
  shows "queues_ok qs l nx B Q"
  unfolding queues_ok_def using assms by blast

lemma queues_okD:
  assumes "queues_ok qs l nx B Q" and "q \<in> qs"
  shows "wf_list nx (l q) (Q q)" and "x \<in> set (Q q) \<Longrightarrow> x \<in> B"
    and "p \<in> qs \<Longrightarrow> p \<noteq> q \<Longrightarrow> x \<in> set (Q p) \<Longrightarrow> x \<notin> set (Q q)"
  using assms unfolding queues_ok_def by blast+

lemma queues_ok_frame:
  assumes ok: "queues_ok qs l nx B Q" and B: "\<And>q x. q \<in> qs \<Longrightarrow> x \<in> set (Q q) \<Longrightarrow> x \<in> B'"
    and l: "\<And>q. q \<in> qs \<Longrightarrow> l' q = l q" and nx: "\<And>q x. q \<in> qs \<Longrightarrow> x \<in> set (Q q) \<Longrightarrow> nx' x = nx x"
  shows "queues_ok qs l' nx' B' Q"
proof (rule queues_okI)
  fix q assume q: "q \<in> qs"
  show "wf_list nx' (l' q) (Q q)"
    unfolding l [OF q] by (rule wf_list_frame [OF queues_okD(1) [OF ok q]]) (rule nx [OF q])
qed (use B queues_okD(3) [OF ok] in blast)+

lemma queues_push:
  assumes ok: "queues_ok qs l nx B Q" and q: "q \<in> qs" and x: "x \<in> B" "\<And>p. p \<in> qs \<Longrightarrow> x \<notin> set (Q p)"
    and len: "length (Q q) < 65535"
  shows "\<exists>c nx'. list_pushback (l q) x nx = Inr (c, nx') \<and> queues_ok qs (l(q := c)) nx' B (Q(q := Q q @ [x])) \<and>
           (\<forall>y. y \<notin> B \<longrightarrow> nx' y = nx y)"
proof -
  obtain c nx' where c: "list_pushback (l q) x nx = Inr (c, nx')" "wf_list nx' c (Q q @ [x])"
    "\<And>y. y \<notin> set (Q q) \<Longrightarrow> y \<noteq> x \<Longrightarrow> nx' y = nx y"
    by (rule list_pushback_wf [OF queues_okD(1) [OF ok q] x(2) [OF q] len]) (rule that)
  have "queues_ok qs (l(q := c)) nx' B (Q(q := Q q @ [x]))"
  proof (rule queues_okI)
    fix p assume p: "p \<in> qs"
    have "wf_list nx' (l p) (Q p)" if "p \<noteq> q"
      by (rule wf_list_frame [OF queues_okD(1) [OF ok p]])
        (use c(3) queues_okD(3) [OF ok q p that] x(2) [OF p] in metis)
    then show "wf_list nx' ((l(q := c)) p) ((Q(q := Q q @ [x])) p)" using c(2) by simp
  next
    fix p y assume "p \<in> qs" "y \<in> set ((Q(q := Q q @ [x])) p)"
    then show "y \<in> B" using x(1) queues_okD(2) [OF ok] by (auto split: if_splits)
  next
    fix p r y assume pr: "p \<in> qs" "r \<in> qs" "p \<noteq> r" and y: "y \<in> set ((Q(q := Q q @ [x])) p)"
    have d: "y \<notin> set (Q r)" if "y \<in> set (Q p)" using queues_okD(3) [OF ok pr(2,1,3)] that .
    show "y \<notin> set ((Q(q := Q q @ [x])) r)"
      using d y pr(3) x(2) [OF pr(1)] x(2) [OF pr(2)] by (cases "p = q"; cases "r = q") auto
  qed
  with c(1,3) queues_okD(2) [OF ok q] x(1) show ?thesis by blast
qed

lemma queues_pop:
  assumes ok: "queues_ok qs l nx B Q" and q: "q \<in> qs" and Q: "Q q = x # xs"
  shows "\<exists>c nx'. list_popfront (l q) nx = Inr (Some x, c, nx') \<and> queues_ok qs (l(q := c)) nx' (B - {x}) (Q(q := xs)) \<and>
           (\<forall>y. y \<noteq> x \<longrightarrow> nx' y = nx y)"
proof -
  have wf: "wf_list nx (l q) (x # xs)" using queues_okD(1) [OF ok q] Q by simp
  let ?c = "l q\<lparr>count := count (l q) - 1, head := nx x\<rparr>" and ?nx = "nx(x := None)"
  note pop = list_popfront_Cons [OF wf]
  have x: "x \<notin> set xs" using wf_list_distinct [OF wf] by simp
  have other: "x \<notin> set (Q p)" if "p \<in> qs" "p \<noteq> q" for p using queues_okD(3) [OF ok that(1) q] that Q by fastforce
  have sub: "set ((Q(q := xs)) p) \<subseteq> set (Q p)" for p using Q by auto
  have "queues_ok qs (l(q := ?c)) ?nx (B - {x}) (Q(q := xs))"
  proof (rule queues_okI)
    fix p assume p: "p \<in> qs"
    have "wf_list ?nx (l p) (Q p)" if "p \<noteq> q"
      by (rule wf_list_frame [OF queues_okD(1) [OF ok p]]) (use other [OF p that] in auto)
    then show "wf_list ?nx ((l(q := ?c)) p) ((Q(q := xs)) p)" using pop by simp
    fix y assume "y \<in> set ((Q(q := xs)) p)"
    then show "y \<in> B - {x}" using queues_okD(2) [OF ok p] sub [of p] x other [OF p] by (auto split: if_splits)
  next
    fix p r y assume "p \<in> qs" "r \<in> qs" "p \<noteq> r" "y \<in> set ((Q(q := xs)) p)"
    then show "y \<notin> set ((Q(q := xs)) r)" using queues_okD(3) [OF ok] sub by blast
  qed
  with pop show ?thesis by auto
qed

definition sock_inv ::
  "'q set \<Rightarrow> ('q \<Rightarrow> 'a sock_state_scheme \<Rightarrow> addr listctl) \<Rightarrow> 'a sock_state_scheme \<Rightarrow> addr list \<Rightarrow> addr list
    \<Rightarrow> ('q \<Rightarrow> addr list) \<Rightarrow> bool" where
  "sock_inv qs get s ts ws Q =
     (wq_inv s ts ws \<and> queues_ok qs (\<lambda>q. get q s) (links s) (live s - wq_blocks s ts ws) Q)"

text \<open>What a queued entry holds.\<close>

definition pending :: "'a sock_state_scheme \<Rightarrow> addr \<Rightarrow> u8 list" where
  "pending s rx = bytes_at (mem8 s) (rxd_data (rxdatas s rx)) (unat (rxd_len (rxdatas s rx)))"

definition rx_ok :: "'a sock_state_scheme \<Rightarrow> addr \<Rightarrow> bool" where
  "rx_ok s rx = (rx \<in> live s \<and> rxd_data (rxdatas s rx) \<in> live s \<and> unat (rxd_len (rxdatas s rx)) \<le> 1048528)"

text \<open>Blocks in use, what they hold and what packet buffers and queue entries say stays.\<close>

definition blocks_kept :: "'a sock_state_scheme \<Rightarrow> 'a sock_state_scheme \<Rightarrow> bool" where
  "blocks_kept s s' =
     (live s \<subseteq> live s' \<and> pktbufs s' = pktbufs s \<and> netdev s' = netdev s \<and> nic s' = nic s \<and>
      (\<forall>a \<in> live s. rxdatas s' a = rxdatas s a) \<and> (\<forall>a \<in> live s. \<forall>x \<in> region a 1048528. mem8 s' x = mem8 s x))"

lemma blocks_kept_refl: "blocks_kept s s"
  by (simp add: blocks_kept_def)

lemma blocks_kept_trans: "blocks_kept s s1 \<Longrightarrow> blocks_kept s1 s2 \<Longrightarrow> blocks_kept s s2"
  by (auto simp: blocks_kept_def)

lemma pending_kept:
  assumes "blocks_kept s s'" and "rx_ok s rx"
  shows "pending s' rx = pending s rx" "rx_ok s' rx"
proof -
  let ?d = "rxdatas s rx"
  have d: "rxdatas s' rx = ?d" using assms by (simp add: blocks_kept_def rx_ok_def)
  have "mem8 s' (rxd_data ?d + of_nat i) = mem8 s (rxd_data ?d + of_nat i)" if "i < unat (rxd_len ?d)" for i
  proof -
    have "rxd_data ?d + of_nat i \<in> region (rxd_data ?d) 1048528"
      using that assms(2) by (intro in_region) (simp add: rx_ok_def)
    moreover have "\<forall>a \<in> live s. \<forall>x \<in> region a 1048528. mem8 s' x = mem8 s x" "rxd_data ?d \<in> live s"
      using assms by (simp_all add: blocks_kept_def rx_ok_def)
    ultimately show ?thesis by blast
  qed
  then show "pending s' rx = pending s rx" unfolding pending_def d by (rule bytes_at_cong)
  show "rx_ok s' rx" using assms d by (auto simp: rx_ok_def blocks_kept_def)
qed

lemma rx_data_fits: "mem_fits sizeof_rx_data"
  by (simp add: mem_fits_def sizeof_rx_data_def MEM_GRANULARITY_def)

text \<open>A new entry and its data are new blocks; the blocks in use before and the timers stay.\<close>

definition rx_fresh :: "'a sock_state_scheme \<Rightarrow> 'a sock_state_scheme \<Rightarrow> addr \<Rightarrow> bool" where
  "rx_fresh s s' rx =
     (rx \<notin> live s \<and> rxd_data (rxdatas s' rx) \<notin> live s \<and> live s \<subseteq> live s' \<and> timers s' = timers s)"

lemma new_rx_data_ok:
  assumes inv: "wq_inv s ts ws" and av: "2 \<le> avail s" and fits: "mem_fits cap" and len: "unat len \<le> 1048528"
    and src: "in_block s src (unat len)"
  shows "\<exists>rx d s'. new_rx_data src len cap s = Inr (rx, s') \<and> wq_inv s' ts ws \<and> rx \<noteq> d \<and> {rx, d} \<inter> live s = {} \<and>
           live s' = {rx, d} \<union> live s \<and> avail s' = avail s - 2 \<and> blocks_kept s s' \<and> rx_ok s' rx \<and>
           pending s' rx = bytes_at (mem8 s) src (unat len) \<and> links s' = links s \<and> timers s' = timers s \<and>
           sock_state.more s' = sock_state.more s \<and> rxd_data (rxdatas s' rx) = d"
proof -
  from wq_inv_alloc [OF inv rx_data_fits, of "''rx_data''"] av obtain rx s1 where
    s1: "mem_alloc sizeof_rx_data ''rx_data'' s = Inr (rx, s1)" "wq_inv s1 ts ws" "rx \<notin> live s"
      "live s1 = insert rx (live s)" "avail s1 = avail s - 1" "mem_rest s s1" by auto
  have "0 < avail s1" using s1(5) av by simp
  from wq_inv_alloc [OF s1(2) fits this, of "''rx_data_data''"] obtain d s2 where
    s2: "mem_alloc cap ''rx_data_data'' s1 = Inr (d, s2)" "wq_inv s2 ts ws" "d \<notin> live s1"
      "live s2 = insert d (live s1)" "avail s2 = avail s1 - 1" "mem_rest s1 s2" by auto
  from s1(6) s2(6) obtain fm mh where e2: "s2 = s\<lparr>freemem := fm, memhdrs := mh\<rparr>" by (auto simp: mem_rest_def)
  let ?m = "memcpy d src len (mem8 s)"
  let ?s3 = "s2\<lparr>rxdatas := (rxdatas s)(rx := \<lparr>rxd_data = d, rxd_len = len\<rparr>), mem8 := ?m\<rparr>"
  have "region (d + of_nat 0) (unat len) \<inter> region src (unat len) = {}"
    by (rule in_block_apart [OF src, of d s2 "{rx}"]) (use s1 s2 len in auto)
  then have ap: "region d (unat len) \<inter> region src (unat len) = {}" by simp
  have eq: "new_rx_data src len cap s = Inr (rx, ?s3)"
    using s1(1) s2(1) by (simp add: new_rx_data_def store_def e2)
  have lv: "live ?s3 = {rx, d} \<union> live s" "avail ?s3 = avail s - 2" using s1(4,5) s2(4,5) by (auto simp: mem_view)
  have "?m x = mem8 s x" if "a \<in> live s" "x \<in> region a 1048528" for a x
  proof -
    have "a \<in> live_of (memhdrs s2)" "d \<in> live_of (memhdrs s2)" "d \<noteq> a" using that s1 s2 by (auto simp: mem_view)
    then have "region d (unat len) \<inter> region a 1048528 = {}" using len by (intro live_regions_disjoint) simp_all
    then show ?thesis using that by (intro memcpy_frame [OF ap]) auto
  qed
  then have "blocks_kept s ?s3" using s1(3) lv by (auto simp: blocks_kept_def e2)
  moreover have "pending ?s3 rx = bytes_at (mem8 s) src (unat len)" using memcpy_copies [OF ap] by (simp add: pending_def)
  moreover have "rx_ok ?s3 rx" using lv len by (simp add: rx_ok_def)
  moreover have "wq_inv ?s3 ts ws" using s2(2) by (simp add: wq_view)
  moreover have "rx \<noteq> d" "{rx, d} \<inter> live s = {}" using s1(3,4) s2(3) by auto
  ultimately show ?thesis using eq lv by (intro exI [of _ rx] exI [of _ d] exI [of _ ?s3]) (simp add: e2)
qed

lemma wq_links:
  assumes "wq_inv s ts ws" and "\<And>y. y \<in> wq_blocks s ts ws \<Longrightarrow> nx y = links s y"
  shows "wq_inv (s\<lparr>links := nx\<rparr>) ts ws"
proof -
  have "wf_list nx (timer_list s) ts" if "wf_list (links s) (timer_list s) ts"
    by (rule wf_list_frame [OF that]) (simp add: assms(2) wq_blocks_def)
  moreover have "wf_list nx (wq s) ws" if "wf_list (links s) (wq s) ws"
    by (rule wf_list_frame [OF that]) (simp add: assms(2) wq_blocks_def)
  ultimately show ?thesis using assms(1) by (simp add: wq_view wq_ok_def)
qed

text \<open>
  The contract of a table of sockets: \<open>get\<close> reads and \<open>put\<close> replaces the list control of one queue, \<open>ok\<close> is
  the shape of the tables; both work on the sockets only. Everything the receive path does with a queue is
  proved here once, for every kind of socket.
\<close>

locale socket_queues =
  fixes qs :: "'q set" and get :: "'q \<Rightarrow> 'a sock_state_scheme \<Rightarrow> addr listctl"
    and put :: "'q \<Rightarrow> addr listctl \<Rightarrow> 'a sock_state_scheme \<Rightarrow> 'a sock_state_scheme"
    and ok :: "'a sock_state_scheme \<Rightarrow> bool"
  assumes get_put: "ok s \<Longrightarrow> p \<in> qs \<Longrightarrow> q \<in> qs \<Longrightarrow> get p (put q l s) = (if p = q then l else get p s)"
    and put_rest: "\<exists>m. put q l s = sock_state.more_update (\<lambda>_. m) s"
    and get_more: "sock_state.more s' = sock_state.more s \<Longrightarrow> get q s' = get q s"
    and ok_more: "sock_state.more s' = sock_state.more s \<Longrightarrow> ok s' = ok s"
    and ok_put: "ok (put q l s) = ok s"
begin

lemma put_fields:
  "wq_inv (put q l s) ts ws = wq_inv s ts ws" "live (put q l s) = live s" "avail (put q l s) = avail s"
  "timers (put q l s) = timers s" "links (put q l s) = links s" "mem8 (put q l s) = mem8 s"
  "rxdatas (put q l s) = rxdatas s" "pktbufs (put q l s) = pktbufs s" "sched_fine (put q l s) = sched_fine s"
proof -
  obtain m where "put q l s = sock_state.more_update (\<lambda>_. m) s" using put_rest by blast
  then show "wq_inv (put q l s) ts ws = wq_inv s ts ws" "live (put q l s) = live s" "avail (put q l s) = avail s"
    "timers (put q l s) = timers s" "links (put q l s) = links s" "mem8 (put q l s) = mem8 s"
    "rxdatas (put q l s) = rxdatas s" "pktbufs (put q l s) = pktbufs s" "sched_fine (put q l s) = sched_fine s"
    by (simp_all add: wq_view mem_view sched_fine_def)
qed

lemma inv_frame:
  assumes "sock_inv qs get s ts ws Q" and "wq_inv s' ts ws" and "links s' = links s" and "timers s' = timers s"
    and "live s \<subseteq> live s'" and "\<And>q. q \<in> qs \<Longrightarrow> get q s' = get q s"
  shows "sock_inv qs get s' ts ws Q"
proof -
  have ok: "queues_ok qs (\<lambda>q. get q s) (links s) (live s - wq_blocks s ts ws) Q" using assms(1) by (simp add: sock_inv_def)
  have "queues_ok qs (\<lambda>q. get q s') (links s') (live s' - wq_blocks s' ts ws) Q"
    by (rule queues_ok_frame [OF ok]) (use assms(3-6) queues_okD(2) [OF ok] in \<open>auto simp: wq_blocks_def\<close>)
  then show ?thesis using assms(2) by (simp add: sock_inv_def)
qed

lemma inv_wakeup:
  assumes inv: "sock_inv qs get s ts ws Q"
  shows "\<exists>s'. task_wakeup c s = Inr s' \<and> sock_inv qs get s' ts ws Q \<and> task_rest s s'"
proof -
  have w: "wq_inv s ts ws" using inv by (simp add: sock_inv_def)
  then have "sched_fine s" by (simp add: wq_inv_def)
  from task_wakeup_fine [OF this, of c] obtain s' where s': "task_wakeup c s = Inr s'" "sched_fine s'" "task_rest s s'" by blast
  from s'(3) obtain d nx where e: "s' = s\<lparr>taskctl := d, task_links := nx\<rparr>" by (auto simp: task_rest_def)
  have "wq_inv s' ts ws" using w s'(2) by (simp add: wq_view wq_ok_def e sched_fine_def)
  then have "sock_inv qs get s' ts ws Q"
    by (rule inv_frame [OF inv]) (simp add: e, simp add: e, simp add: e mem_view, rule get_more, simp add: e)
  with s' show ?thesis by blast
qed

lemma queue_length:
  assumes "sock_inv qs get s ts ws Q" and "q \<in> qs"
  shows "length (Q q) < 65535"
proof -
  have ok: "queues_ok qs (\<lambda>q. get q s) (links s) (live s - wq_blocks s ts ws) Q" using assms(1) by (simp add: sock_inv_def)
  have "length (Q q) \<le> MEM_BLOCKS"
    by (rule live_length [where h = "memhdrs s"])
      (use wf_list_distinct [OF queues_okD(1) [OF ok assms(2)]] queues_okD(2) [OF ok assms(2)] in \<open>auto simp: mem_view\<close>)
  then show ?thesis by (simp add: MEM_BLOCKS_def)
qed

lemma enqueue:
  assumes inv: "sock_inv qs get s ts ws Q" and k: "ok s" and q: "q \<in> qs"
    and x: "x \<in> live s" "x \<notin> wq_blocks s ts ws" "\<And>p. p \<in> qs \<Longrightarrow> x \<notin> set (Q p)"
  shows "\<exists>l nx. list_pushback (get q s) x (links s) = Inr (l, nx) \<and>
           sock_inv qs get (put q l (s\<lparr>links := nx\<rparr>)) ts ws (Q(q := Q q @ [x]))"
proof -
  let ?B = "live s - wq_blocks s ts ws"
  have w: "wq_inv s ts ws" and qok: "queues_ok qs (\<lambda>q. get q s) (links s) ?B Q" using inv by (simp_all add: sock_inv_def)
  have xB: "x \<in> ?B" using x(1,2) by simp
  from queues_push [OF qok q xB x(3) queue_length [OF inv q]] obtain l nx where
    l: "list_pushback (get q s) x (links s) = Inr (l, nx)"
      "queues_ok qs ((\<lambda>q. get q s)(q := l)) nx ?B (Q(q := Q q @ [x]))" "\<And>y. y \<notin> ?B \<Longrightarrow> nx y = links s y" by auto
  let ?s1 = "s\<lparr>links := nx\<rparr>"
  have k1: "ok ?s1" using k by (subst ok_more [of _ s]) simp_all
  have g: "get p (put q l ?s1) = ((\<lambda>q. get q s)(q := l)) p" if "p \<in> qs" for p
    using get_put [OF k1 that q, of l] get_more [of ?s1 s p] by simp
  have "wq_inv ?s1 ts ws" by (rule wq_links [OF w]) (use l(3) in blast)
  moreover have "queues_ok qs (\<lambda>p. get p (put q l ?s1)) nx ?B (Q(q := Q q @ [x]))"
    by (rule queues_ok_frame [OF l(2)]) (use g queues_okD(2) [OF l(2)] in auto)
  ultimately have "sock_inv qs get (put q l ?s1) ts ws (Q(q := Q q @ [x]))"
    by (simp add: sock_inv_def put_fields wq_blocks_def) (simp add: mem_view)
  with l(1) show ?thesis by blast
qed

lemma dequeue:
  assumes inv: "sock_inv qs get s ts ws Q" and k: "ok s" and q: "q \<in> qs" and Q: "Q q = x # xs"
  shows "\<exists>l nx. list_popfront (get q s) (links s) = Inr (Some x, l, nx) \<and> \<not> list_empty (get q s) \<and>
           sock_inv qs get (put q l (s\<lparr>links := nx\<rparr>)) ts ws (Q(q := xs))"
proof -
  let ?B = "live s - wq_blocks s ts ws"
  have w: "wq_inv s ts ws" and qok: "queues_ok qs (\<lambda>q. get q s) (links s) ?B Q" using inv by (simp_all add: sock_inv_def)
  have xB: "x \<in> ?B" using queues_okD(2) [OF qok q] Q by simp
  from queues_pop [OF qok q Q] obtain l nx where
    l: "list_popfront (get q s) (links s) = Inr (Some x, l, nx)"
      "queues_ok qs ((\<lambda>q. get q s)(q := l)) nx (?B - {x}) (Q(q := xs))" "\<And>y. y \<noteq> x \<Longrightarrow> nx y = links s y" by auto
  let ?s1 = "s\<lparr>links := nx\<rparr>"
  have k1: "ok ?s1" using k by (subst ok_more [of _ s]) simp_all
  have g: "get p (put q l ?s1) = ((\<lambda>q. get q s)(q := l)) p" if "p \<in> qs" for p
    using get_put [OF k1 that q, of l] get_more [of ?s1 s p] by simp
  have "wq_inv ?s1 ts ws" by (rule wq_links [OF w], rule l(3)) (use xB in auto)
  moreover have "queues_ok qs (\<lambda>p. get p (put q l ?s1)) nx ?B (Q(q := xs))"
    by (rule queues_ok_frame [OF l(2)]) (use g queues_okD(2) [OF l(2)] in auto)
  ultimately have "sock_inv qs get (put q l ?s1) ts ws (Q(q := xs))"
    by (simp add: sock_inv_def put_fields wq_blocks_def) (simp add: mem_view)
  moreover have "\<not> list_empty (get q s)" using list_empty_iff [OF queues_okD(1) [OF qok q]] Q by simp
  ultimately show ?thesis using l(1) by blast
qed

text \<open>Appending received data to a queue and waking its reader: the entry holds the data, all others stay.\<close>

lemma receive_data:
  assumes inv: "sock_inv qs get s ts ws Q" and k: "ok s" and q: "q \<in> qs" and av: "2 \<le> avail s"
    and fits: "mem_fits cap" and len: "unat len \<le> 1048528" and src: "in_block s src (unat len)"
  shows "\<exists>rx s1 l nx s'. new_rx_data src len cap s = Inr (rx, s1) \<and>
           list_pushback (get q s1) rx (links s1) = Inr (l, nx) \<and> task_wakeup c (put q l (s1\<lparr>links := nx\<rparr>)) = Inr s' \<and>
           sock_inv qs get s' ts ws (Q(q := Q q @ [rx])) \<and> ok s' \<and> avail s' = avail s - 2 \<and> blocks_kept s s' \<and>
           rx_ok s' rx \<and> pending s' rx = bytes_at (mem8 s) src (unat len) \<and> sock_state.more s1 = sock_state.more s \<and>
           sock_state.more s' = sock_state.more (put q l (s1\<lparr>links := nx\<rparr>)) \<and> rx_fresh s s' rx"
proof -
  have w: "wq_inv s ts ws" and qok: "queues_ok qs (\<lambda>q. get q s) (links s) (live s - wq_blocks s ts ws) Q"
    using inv by (simp_all add: sock_inv_def)
  from new_rx_data_ok [OF w av fits len src] obtain rx d s1 where
    s1: "new_rx_data src len cap s = Inr (rx, s1)" "wq_inv s1 ts ws" "rx \<noteq> d" "{rx, d} \<inter> live s = {}"
      "live s1 = {rx, d} \<union> live s" "avail s1 = avail s - 2" "blocks_kept s s1" "rx_ok s1 rx"
      "pending s1 rx = bytes_at (mem8 s) src (unat len)" "links s1 = links s" "timers s1 = timers s"
      "sock_state.more s1 = sock_state.more s" "rxd_data (rxdatas s1 rx) = d" by blast
  have inv1: "sock_inv qs get s1 ts ws Q"
    by (rule inv_frame [OF inv s1(2,10,11)]) (use s1(5) get_more [OF s1(12)] in auto)
  have k1: "ok s1" using k ok_more [OF s1(12)] by simp
  have "set (ts @ ws @ parked (timers s) ts) \<subseteq> live s" using w by (auto simp: wq_inv_def timer_inv_def)
  then have "rx \<notin> wq_blocks s1 ts ws" using s1(4) by (auto simp: wq_blocks_def s1(11))
  moreover have "rx \<notin> set (Q p)" if "p \<in> qs" for p using queues_okD(2) [OF qok that] s1(4) by auto
  ultimately obtain l nx where l: "list_pushback (get q s1) rx (links s1) = Inr (l, nx)"
    "sock_inv qs get (put q l (s1\<lparr>links := nx\<rparr>)) ts ws (Q(q := Q q @ [rx]))"
    using enqueue [OF inv1 k1 q, of rx] s1(5) by auto
  let ?s2 = "put q l (s1\<lparr>links := nx\<rparr>)"
  from inv_wakeup [OF l(2), of c] obtain s' where
    s': "task_wakeup c ?s2 = Inr s'" "sock_inv qs get s' ts ws (Q(q := Q q @ [rx]))" "task_rest ?s2 s'" by blast
  from s'(3) obtain tc tn where e: "s' = ?s2\<lparr>taskctl := tc, task_links := tn\<rparr>" by (auto simp: task_rest_def)
  obtain m where p: "?s2 = sock_state.more_update (\<lambda>_. m) (s1\<lparr>links := nx\<rparr>)" using put_rest by blast
  have "blocks_kept s s'" using s1(7) unfolding e p blocks_kept_def by (simp add: mem_view)
  moreover have "rx_ok s' rx" "pending s' rx = pending s1 rx" "avail s' = avail s1" "live s' = live s1" "timers s' = timers s1" "rxdatas s' = rxdatas s1"
    using s1(8) unfolding e p rx_ok_def pending_def by (simp_all add: mem_view)
  moreover have "sock_state.more s' = sock_state.more ?s2" by (simp add: e)
  moreover have "ok s'" using ok_put [of q l "s1\<lparr>links := nx\<rparr>"] ok_more [of "s1\<lparr>links := nx\<rparr>" s1] k1
      ok_more [OF \<open>sock_state.more s' = sock_state.more ?s2\<close>] by simp
  ultimately show ?thesis using s1(1,4,5,6,9,11,12,13) l(1) s'(1,2) by (auto simp: rx_fresh_def)
qed

text \<open>Taking the first entry of a queue into a caller's buffer of \<open>sz\<close> bytes. The entry's blocks stay allocated.\<close>

lemma take_data:
  assumes inv: "sock_inv qs get s ts ws Q" and k: "ok s" and q: "q \<in> qs" and Q: "Q q = rx # xs" and r: "rx_ok s rx"
    and sz: "0 \<le> sz"
  defines "n \<equiv> min (nat sz) (length (pending s rx))"
  assumes apart: "region buf n \<inter> region (rxd_data (rxdatas s rx)) n = {}"
  shows "\<exists>l s'. take_rx (get q s) buf sz s = Inr (int n, l, s') \<and> sock_inv qs get (put q l s') ts ws (Q(q := xs)) \<and>
           bytes_at (mem8 s') buf n = take n (pending s rx) \<and> live s' = live s \<and> avail s' = avail s \<and>
           sock_state.more s' = sock_state.more s \<and> (\<forall>x. x \<notin> region buf n \<longrightarrow> mem8 s' x = mem8 s x)"
proof -
  from dequeue [OF inv k q Q] obtain l nx where
    l: "list_popfront (get q s) (links s) = Inr (Some rx, l, nx)"
      "sock_inv qs get (put q l (s\<lparr>links := nx\<rparr>)) ts ws (Q(q := xs))" by blast
  let ?d = "rxdatas s rx"
  have len: "unat (rxd_len ?d) \<le> 1048528" using r by (simp add: rx_ok_def)
  then have "sint (rxd_len ?d) = int (unat (rxd_len ?d))" by (intro sint_small) simp
  then have mi: "min_int sz (sint (rxd_len ?d)) = int n"
    using sz by (auto simp: n_def min_int_def pending_def bytes_at_def min_def simp del: of_nat_unat)
  have n: "unat (of_int (int n) :: u32) = n"
    using len by (simp add: n_def pending_def bytes_at_def unat_of_nat32)
  let ?s' = "s\<lparr>links := nx, mem8 := memcpy buf (rxd_data ?d) (of_nat n) (mem8 s)\<rparr>"
  have eq: "take_rx (get q s) buf sz s = Inr (int n, l, ?s')"
    using l(1) mi by (simp add: take_rx_def Let_def store_def)
  have ap: "region buf (unat (of_nat n :: u32)) \<inter> region (rxd_data ?d) (unat (of_nat n :: u32)) = {}" using apart n by simp
  have "bytes_at (mem8 ?s') buf n = bytes_at (mem8 s) (rxd_data ?d) n" using memcpy_copies [OF ap, of "mem8 s"] n by simp
  also have "\<dots> = take n (pending s rx)" by (simp add: pending_def bytes_at_def take_map n_def min_def)
  finally have cp: "bytes_at (mem8 ?s') buf n = take n (pending s rx)" .
  have out: "mem8 ?s' x = mem8 s x" if "x \<notin> region buf n" for x using memcpy_frame [OF ap, of x "mem8 s"] n that by simp
  have k1: "ok ?s'" "ok (s\<lparr>links := nx\<rparr>)" using k ok_more [of ?s' s] ok_more [of "s\<lparr>links := nx\<rparr>" s] by simp_all
  have "sock_inv qs get (put q l ?s') ts ws (Q(q := xs))"
  proof (rule inv_frame [OF l(2)])
    show "wq_inv (put q l ?s') ts ws" using l(2) by (simp add: put_fields sock_inv_def) (simp add: wq_view)
    show "get p (put q l ?s') = get p (put q l (s\<lparr>links := nx\<rparr>))" if "p \<in> qs" for p
      using get_put [OF k1(1) that q, of l] get_put [OF k1(2) that q, of l] get_more [of ?s' "s\<lparr>links := nx\<rparr>" p] by simp
  qed (simp_all add: put_fields, simp add: mem_view)
  with eq cp out show ?thesis by (intro exI [of _ l] exI [of _ ?s']) (simp add: mem_view)
qed

end

end
