(* ===== verification/Udp.thy ===== *)
theory Udp
  imports Raw
begin

text \<open>
  The datagram sockets of \<^verbatim>\<open>kernel/net/udp.c\<close>.
\<close>

definition UDP_SOCKET_FREE :: u8 where "UDP_SOCKET_FREE = 0"
definition UDP_SOCKET_USED :: u8 where "UDP_SOCKET_USED = 1"
definition UDP_SOCKET_COUNT :: nat where "UDP_SOCKET_COUNT = 10"
definition UDP_PORT_START :: nat where "UDP_PORT_START = 5000"
definition sizeof_udp_hdr :: u32 where "sizeof_udp_hdr = 8"
definition sizeof_dummy_ip_hdr :: u32 where "sizeof_dummy_ip_hdr = 12"

record udp_socket =
  us_rx_data_list :: "addr listctl"
  us_wait_id :: u64
  us_port :: u16
  us_flag :: u8

record udp_state = raw_state +
  udp_sockets :: "udp_socket list"

definition udp_upd :: "nat \<Rightarrow> (udp_socket \<Rightarrow> udp_socket) \<Rightarrow> 'a udp_state_scheme \<Rightarrow> 'a udp_state_scheme" where
  "udp_upd i f s = s\<lparr>udp_sockets := (udp_sockets s)[i := f (udp_sockets s ! i)]\<rparr>"

definition udp_socket_init :: "'a udp_state_scheme \<Rightarrow> 'a udp_state_scheme" where
  "udp_socket_init s =
     printstr_log (''Initialized UDP socket'' @ nl)
       (s\<lparr>udp_sockets := map (\<lambda>k. k\<lparr>us_rx_data_list := list_init, us_flag := UDP_SOCKET_FREE\<rparr>) (udp_sockets s)\<rparr>)"

definition udp_socket_open :: "'a udp_state_scheme \<Rightarrow> (int \<times> 'a udp_state_scheme) res" where
  "udp_socket_open s =
     (case first_idx (\<lambda>k. us_flag k = UDP_SOCKET_FREE) (udp_sockets s) 0 of
        Some i \<Rightarrow>
          Inr (int i, udp_upd i (\<lambda>k. k\<lparr>us_wait_id := 0, us_flag := UDP_SOCKET_USED,
                                   us_port := of_nat (UDP_PORT_START + i)\<rparr>) s)
      | None \<Rightarrow> panic (printstr_log (''ERROR: exceed max udp socket count'' @ nl) s))"

definition udp_socket_free :: "int \<Rightarrow> 'a udp_state_scheme \<Rightarrow> 'a udp_state_scheme res" where
  "udp_socket_free socket_id s =
     (if socket_id < 0 \<or> socket_id \<ge> int UDP_SOCKET_COUNT
      then panic (printstr_log (''ERROR: invalid udp socket_id'' @ nl) s)
      else
        bindr (sock_get (udp_sockets s) socket_id) (\<lambda>k.
        if us_flag k \<noteq> UDP_SOCKET_USED
        then panic (printstr_log (''ERROR: Tried to free unused udp socket'' @ nl) s)
        else
          let i = nat socket_id; s1 = udp_upd i (us_flag_update (\<lambda>_. UDP_SOCKET_FREE)) s in
          bindr (drain_rx (us_rx_data_list (udp_sockets s1 ! i)) s1) (\<lambda>(l, s2).
          Inr (udp_upd i (us_rx_data_list_update (\<lambda>_. l)) s2))))"

text \<open>The pseudo header \<open>struct udp_dummy_ip_hdr\<close> (and \<open>struct tcp_dummy_ip_hdr\<close>, which is the same).\<close>

definition dummy_ip_hdr :: "addr \<Rightarrow> u32 \<Rightarrow> u32 \<Rightarrow> u8 \<Rightarrow> u16 \<Rightarrow> bytes \<Rightarrow> bytes" where
  "dummy_ip_hdr a sip dip proto len m =
     wr16 (a + 10) (hton16 len)
      (wr8 (a + 9) proto (wr8 (a + 8) 0 (wr32 (a + 4) (hton32 dip) (wr32 a (hton32 sip) m))))"

definition udp_hdr :: "addr \<Rightarrow> u16 \<Rightarrow> u16 \<Rightarrow> u16 \<Rightarrow> bytes \<Rightarrow> bytes" where
  "udp_hdr a sport dport len m =
     wr16 (a + 6) 0 (wr16 (a + 4) (hton16 len) (wr16 (a + 2) (hton16 dport) (wr16 a (hton16 sport) m)))"

text \<open>The datagram with its pseudo header and checksum, as it stands in memory when \<open>ip_tx\<close> is called.\<close>

definition udp_build :: "addr \<Rightarrow> u32 \<Rightarrow> u32 \<Rightarrow> u16 \<Rightarrow> u16 \<Rightarrow> addr \<Rightarrow> u32 \<Rightarrow> bytes \<Rightarrow> bytes" where
  "udp_build b sip dip sport dport buf sz m =
     (let a = b - ucast sizeof_dummy_ip_hdr;
          m1 = dummy_ip_hdr a sip dip IP_HDR_PROTO_UDP (ucast (sizeof_udp_hdr + sz)) m;
          m2 = udp_hdr b sport dport (ucast (sizeof_udp_hdr + sz)) m1;
          m3 = memcpy (b + ucast sizeof_udp_hdr) buf sz m2
      in wr16 (b + 6) (checksum a (ucast (sizeof_dummy_ip_hdr + sizeof_udp_hdr + sz)) m3) m3)"

definition udp_socket_send ::
  "int \<Rightarrow> u32 \<Rightarrow> u16 \<Rightarrow> addr \<Rightarrow> u32 \<Rightarrow> 'a udp_state_scheme \<Rightarrow> 'a udp_state_scheme res" where
  "udp_socket_send socket_id dip dport buf sz s =
     (if socket_id < 0 \<or> socket_id \<ge> int UDP_SOCKET_COUNT
      then panic (printstr_log (''ERROR: invalid udp socket_id'' @ nl) s)
      else
        bindr (sock_get (udp_sockets s) socket_id) (\<lambda>socket.
        bindr (new_pkt (sizeof_ether_hdr + sizeof_ip_hdr + sizeof_udp_hdr + sz) ''udp_send_pbuf'' ''udp_send_pbuf_buf'' s)
          (\<lambda>(txpkt, s1).
        let b = pb_buf (pktbufs s1 txpkt) + ucast (sizeof_ether_hdr + sizeof_ip_hdr);
            s2 = store (udp_build b (ip_addr (netdev s1)) dip (us_port socket) dport buf sz) s1;
            s3 = set_buf txpkt (b - ucast sizeof_ip_hdr) s2 in
        bindr (ip_tx txpkt dip IP_HDR_PROTO_UDP 64 s3) (free_pkt txpkt))))"

definition udp_socket_recv_timeout :: "addr option \<Rightarrow> 'a udp_state_scheme \<Rightarrow> 'a udp_state_scheme res" where
  "udp_socket_recv_timeout arg s =
     (case arg of
        None \<Rightarrow> Inl NullPtr
      | Some args \<Rightarrow>
          let socket_id = sint (rd32 (mem8 s) args); wait_id = rd32 (mem8 s) (args + 4) in
          bindr (sock_get (udp_sockets s) socket_id) (\<lambda>socket.
          bindr (if us_wait_id socket = scast wait_id then task_wakeup (UdpSock (nat socket_id)) s else Inr s)
            (mem_free args)))"

definition udp_socket_recv ::
  "('a udp_state_scheme \<Rightarrow> 'a udp_state_scheme res) \<Rightarrow> int \<Rightarrow> addr \<Rightarrow> int \<Rightarrow> 'a udp_state_scheme
    \<Rightarrow> (int \<times> 'a udp_state_scheme) res" where
  "udp_socket_recv env socket_id buf sz s =
     (if socket_id < 0 \<or> socket_id \<ge> int UDP_SOCKET_COUNT
      then panic (printstr_log (''ERROR: invalid udp socket_id'' @ nl) s)
      else
        let i = nat socket_id in
        bindr (sock_get (udp_sockets s) socket_id) (\<lambda>socket.
        bindr (if list_empty (us_rx_data_list socket)
               then
                 let w = get_tick s; s1 = udp_upd i (us_wait_id_update (\<lambda>_. w)) s in
                 bindr (new_args ''udp_timeout_arg'' (of_int socket_id) (ucast w) s1) (\<lambda>(args, s2).
                 bindr (wq_push_with_delay UdpSocketRecvTimeout (Some args) 5000 s2) (task_sleep env (UdpSock i)))
               else Inr s) (\<lambda>s3.
        let l = us_rx_data_list (udp_sockets s3 ! i) in
        if list_empty l then Inr (- 1, s3)
        else bindr (take_rx l buf sz s3) (\<lambda>(n, l1, s4).
             Inr (n, udp_upd i (us_rx_data_list_update (\<lambda>_. l1)) s4)))))"

definition udp_rx_one :: "addr \<Rightarrow> addr \<Rightarrow> nat \<Rightarrow> 'a udp_state_scheme \<Rightarrow> 'a udp_state_scheme res" where
  "udp_rx_one pkt udphdr i s =
     bindr (arr_get (udp_sockets s) i) (\<lambda>k.
     if us_flag k = UDP_SOCKET_USED \<and> us_port k = ntoh16 (rd16 (mem8 s) (udphdr + 2))
     then
       let p = pktbufs s pkt in
       bindr (new_rx_data (pb_buf p) (pkt_len p - sizeof_ether_hdr - sizeof_ip_hdr - sizeof_udp_hdr) (pkt_len p) s)
         (\<lambda>(rx, s1).
       bindr (list_pushback (us_rx_data_list (udp_sockets s1 ! i)) rx (links s1)) (\<lambda>(l, nx).
       task_wakeup (UdpSock i) (udp_upd i (us_rx_data_list_update (\<lambda>_. l)) (s1\<lparr>links := nx\<rparr>))))
     else Inr s)"

definition udp_rx :: "addr \<Rightarrow> 'a udp_state_scheme \<Rightarrow> 'a udp_state_scheme res" where
  "udp_rx pkt s =
     (let udphdr = pb_buf (pktbufs s pkt);
          s1 = adv_buf pkt (ucast sizeof_udp_hdr) s;
          rf = get_rflags s1 in
      bindr (for_list [0..<UDP_SOCKET_COUNT] (udp_rx_one pkt udphdr) (io_cli s1)) (\<lambda>s2.
      Inr (set_rflags rf s2)))"

section \<open>Datagrams on the wire\<close>

lemma pseudo_layout:
  fixes a :: addr and m :: bytes and sip dip :: u32 and proto :: u8 and len :: u16
  defines "m' \<equiv> dummy_ip_hdr a sip dip proto len m"
  shows "rd32 m' a = hton32 sip" "rd32 m' (a + 4) = hton32 dip" "m' (a + 8) = 0" "m' (a + 9) = proto"
    "rd16 m' (a + 10) = hton16 len" "\<And>x. x \<notin> region a 12 \<Longrightarrow> m' x = m x"
proof -
  note d = m'_def dummy_ip_hdr_def wr_defs add.assoc
  show "rd32 m' a = hton32 sip" using wr32_bytes [of a "hton32 sip"] by (intro rd32_eq) (simp_all add: d)
  show "rd32 m' (a + 4) = hton32 dip" using wr32_bytes [of "a + 4" "hton32 dip"] by (intro rd32_eq) (simp_all add: d)
  show "m' (a + 8) = 0" "m' (a + 9) = proto" by (simp_all add: d)
  show "rd16 m' (a + 10) = hton16 len" by (rule rd16_eq; simp add: d)
  fix x
  assume x: "x \<notin> region a 12"
  then have "x \<noteq> a + of_nat i" if "i < 12" for i using in_region [OF that, of a] by blast
  from this [of 0] this [of 1] this [of 2] this [of 3] this [of 4] this [of 5] this [of 6] this [of 7] this [of 8]
    this [of 9] this [of 10] this [of 11]
  show "m' x = m x" by (simp add: d)
qed

lemma udp_hdr_layout:
  fixes b :: addr and m :: bytes and sport dport len :: u16
  defines "m' \<equiv> udp_hdr b sport dport len m"
  shows "rd16 m' b = hton16 sport" "rd16 m' (b + 2) = hton16 dport" "rd16 m' (b + 4) = hton16 len"
    "rd16 m' (b + 6) = 0" "\<And>x. x \<notin> region b 8 \<Longrightarrow> m' x = m x"
proof -
  note d = m'_def udp_hdr_def wr_defs add.assoc
  show "rd16 m' b = hton16 sport" "rd16 m' (b + 2) = hton16 dport" "rd16 m' (b + 4) = hton16 len" "rd16 m' (b + 6) = 0"
    by (rule rd16_eq; simp add: d)+
  fix x
  assume x: "x \<notin> region b 8"
  then have "x \<noteq> b + of_nat i" if "i < 8" for i using in_region [OF that, of b] by blast
  from this [of 0] this [of 1] this [of 2] this [of 3] this [of 4] this [of 5] this [of 6] this [of 7]
  show "m' x = m x" by (simp add: d)
qed

definition pseudo_ok :: "bytes \<Rightarrow> addr \<Rightarrow> u32 \<Rightarrow> u32 \<Rightarrow> u8 \<Rightarrow> u16 \<Rightarrow> bool" where
  "pseudo_ok m a sip dip proto len =
     (ntoh32 (rd32 m a) = sip \<and> ntoh32 (rd32 m (a + 4)) = dip \<and> m (a + 8) = 0 \<and> m (a + 9) = proto \<and>
      ntoh16 (rd16 m (a + 10)) = len)"

definition udp_ok :: "bytes \<Rightarrow> addr \<Rightarrow> u16 \<Rightarrow> u16 \<Rightarrow> u8 list \<Rightarrow> bool" where
  "udp_ok m b sport dport data =
     (ntoh16 (rd16 m b) = sport \<and> ntoh16 (rd16 m (b + 2)) = dport \<and>
      ntoh16 (rd16 m (b + 4)) = of_nat (8 + length data) \<and> bytes_at m (b + 8) (length data) = data)"

lemma pseudo_ok_cong:
  assumes "\<And>i. i < 12 \<Longrightarrow> m' (a + of_nat i) = m (a + of_nat i)"
  shows "pseudo_ok m' a sip dip proto len = pseudo_ok m a sip dip proto len"
proof -
  have "rd32 m' a = rd32 m a" "rd32 m' (a + 4) = rd32 m (a + 4)"
    by (rule rd32_cong; use assms [of 0] assms [of 1] assms [of 2] assms [of 3] assms [of 4] assms [of 5]
        assms [of 6] assms [of 7] in \<open>simp add: add.assoc\<close>)+
  moreover have "rd16 m' (a + 10) = rd16 m (a + 10)"
    by (rule rd16_cong) (use assms [of 10] assms [of 11] in \<open>simp_all add: add.assoc\<close>)
  ultimately show ?thesis using assms [of 8] assms [of 9] by (simp add: pseudo_ok_def)
qed

lemma ucast_of_nat16: "(ucast (of_nat n :: u32) :: u16) = of_nat n"
  by (rule bit_word_eqI) (simp add: bit_ucast_iff bit_of_nat_iff bit_simps)

text \<open>
  The common shape of a datagram and a segment: a pseudo header of 12 bytes at \<open>b - 12\<close>, a header of \<open>h\<close>
  bytes at \<open>b\<close> with a zero checksum field at offset \<open>2 * k\<close>, the payload, and then the checksum over all of it.
\<close>

lemma transport_built:
  fixes b buf :: addr and m m2 :: bytes and h n k :: nat and sip dip :: u32 and proto :: u8 and len :: u16
  defines "m1 \<equiv> dummy_ip_hdr (b - 12) sip dip proto len m"
  assumes out: "\<forall>x. x \<notin> region b h \<longrightarrow> m2 x = m1 x" and zero: "rd16 m2 (b + of_nat (2 * k)) = 0"
    and src: "region (b - 12) (12 + h + n) \<inter> region buf n = {}" and len: "12 + h + n < 65536" and k: "2 * k + 2 \<le> h"
  defines "m3 \<equiv> memcpy (b + of_nat h) buf (of_nat n) m2"
  defines "m' \<equiv> wr16 (b + of_nat (2 * k)) (checksum (b - 12) (of_nat (12 + h + n)) m3) m3"
  shows "checksum (b - 12) (of_nat (12 + h + n)) m' = 0"
    and "pseudo_ok m' (b - 12) sip dip proto len"
    and "bytes_at m' (b + of_nat h) n = bytes_at m buf n"
    and "\<And>i. i < h \<Longrightarrow> i \<noteq> 2 * k \<Longrightarrow> i \<noteq> 2 * k + 1 \<Longrightarrow> m' (b + of_nat i) = m2 (b + of_nat i)"
    and "\<And>x. x \<notin> region (b - 12) (12 + h + n) \<Longrightarrow> m' x = m x"
proof -
  let ?a = "b - 12"
  note p = pseudo_layout [where a = ?a and sip = sip and dip = dip and proto = proto and len = len and m = m, folded m1_def]
  have at: "b + of_nat i = ?a + of_nat (12 + i)" for i by simp
  have ap: "region (?a + of_nat (12 + h)) n \<inter> region buf n = {}"
    using src region_offset [of ?a "12 + h" n] by auto
  have z: "rd16 m2 (?a + of_nat (2 * (6 + k))) = 0" using zero at [of "2 * k"] by simp
  have bk: "b + of_nat (2 * k) = ?a + of_nat (2 * (6 + k))" by simp
  have k6: "2 * (6 + k) + 2 \<le> 12 + h" using k by simp
  have bh: "b + of_nat h = ?a + of_nat (12 + h)" by (rule at)
  note eq = m'_def [unfolded m3_def bk bh]
  note c = checksummed_block [OF ap len k6 z, folded eq]
  show "checksum ?a (of_nat (12 + h + n)) m' = 0" by (rule c(1))
  have hd: "m' (?a + of_nat i) = m2 (?a + of_nat i)" if "i < 12 + h" "i \<noteq> 12 + 2 * k" "i \<noteq> 12 + 2 * k + 1" for i
    using c(3) [of i] that by simp
  show "m' (b + of_nat i) = m2 (b + of_nat i)" if "i < h" "i \<noteq> 2 * k" "i \<noteq> 2 * k + 1" for i
    unfolding at by (rule hd) (use that in simp_all)
  have sub: "region b h \<subseteq> region ?a (12 + h + n)" "region ?a 12 \<subseteq> region ?a (12 + h + n)"
    using region_offset [of ?a 12 h] region_mono [of "12 + h" "12 + h + n" ?a] region_mono [of 12 "12 + h + n" ?a] by auto
  have fr: "m2 x = m x" if "x \<notin> region ?a (12 + h + n)" for x
  proof -
    have "x \<notin> region b h" "x \<notin> region ?a 12" using that sub by blast+
    then show ?thesis using out p(6) [of x] by simp
  qed
  have "m' (?a + of_nat i) = m1 (?a + of_nat i)" if "i < 12" for i
  proof -
    have "?a + of_nat i \<notin> region b h"
    proof
      assume "?a + of_nat i \<in> region b h"
      then obtain j where "j < h" "?a + of_nat i = ?a + of_nat (12 + j)" by (auto simp: region_def)
      then show False using offset_neq [of i "12 + j" ?a] that len by simp
    qed
    then show ?thesis using hd [of i] out that by simp
  qed
  from pseudo_ok_cong [of m' ?a m1, OF this] p show "pseudo_ok m' ?a sip dip proto len" by (simp add: pseudo_ok_def)
  have "bytes_at m' (b + of_nat h) n = bytes_at m2 buf n"
    using c(2) unfolding bh .
  also have "\<dots> = bytes_at m buf n"
    by (rule bytes_at_cong, rule fr) (use src in_region in blast)
  finally show "bytes_at m' (b + of_nat h) n = bytes_at m buf n" .
  show "m' x = m x" if "x \<notin> region ?a (12 + h + n)" for x
    using c(4) [OF that] fr [OF that] by simp
qed

lemma udp_built:
  fixes b buf :: addr and m :: bytes and n :: nat and sip dip :: u32 and sport dport :: u16
  defines "m' \<equiv> udp_build b sip dip sport dport buf (of_nat n) m"
  assumes src: "region (b - 12) (20 + n) \<inter> region buf n = {}" and len: "20 + n < 65536"
  shows "udp_ok m' b sport dport (bytes_at m buf n)" "pseudo_ok m' (b - 12) sip dip IP_HDR_PROTO_UDP (of_nat (8 + n))"
    "checksum (b - 12) (of_nat (20 + n)) m' = 0" "\<And>x. x \<notin> region (b - 12) (20 + n) \<Longrightarrow> m' x = m x"
proof -
  obtain L :: u16 where L: "of_nat (8 + n) = L" by blast
  let ?m1 = "dummy_ip_hdr (b - 12) sip dip IP_HDR_PROTO_UDP L m"
  let ?m2 = "udp_hdr b sport dport L ?m1"
  have len8: "ucast (sizeof_udp_hdr + of_nat n) = L"
    using ucast_of_nat16 [of "8 + n"] L by (simp add: sizeof_udp_hdr_def)
  have len20: "ucast (sizeof_dummy_ip_hdr + sizeof_udp_hdr + of_nat n) = (of_nat (12 + 8 + n) :: u16)"
    using ucast_of_nat16 [of "12 + 8 + n"] by (simp add: sizeof_udp_hdr_def sizeof_dummy_ip_hdr_def)
  have at: "ucast sizeof_udp_hdr = (of_nat 8 :: u64)" "b + 6 = b + of_nat (2 * 3)" "ucast sizeof_dummy_ip_hdr = (12 :: u64)"
    by (simp_all add: sizeof_udp_hdr_def sizeof_dummy_ip_hdr_def)
  note eq = m'_def [unfolded udp_build_def Let_def len8 len20 at]
  note u = udp_hdr_layout [where b = b and sport = sport and dport = dport and len = L and m = ?m1]
  have out: "\<forall>x. x \<notin> region b 8 \<longrightarrow> ?m2 x = ?m1 x" using u(5) by simp
  have pre: "rd16 ?m2 (b + of_nat (2 * 3)) = 0" "region (b - 12) (12 + 8 + n) \<inter> region buf n = {}"
    "12 + 8 + n < 65536" "2 * 3 + 2 \<le> (8 :: nat)" using u(4) src len by simp_all
  note c = transport_built [where h = 8 and k = 3, OF out pre, folded eq]
  show "pseudo_ok m' (b - 12) sip dip IP_HDR_PROTO_UDP (of_nat (8 + n))" using c(2) L by simp
  have "rd16 m' b = rd16 ?m2 b" "rd16 m' (b + 2) = rd16 ?m2 (b + 2)" "rd16 m' (b + 4) = rd16 ?m2 (b + 4)"
    by (rule rd16_cong; use c(4) [of 0] c(4) [of 1] c(4) [of 2] c(4) [of 3] c(4) [of 4] c(4) [of 5] in \<open>simp add: add.assoc\<close>)+
  then show "udp_ok m' b sport dport (bytes_at m buf n)" using u c(3) L by (simp add: udp_ok_def)
  show "checksum (b - 12) (of_nat (20 + n)) m' = 0" using c(1) by simp
  show "m' x = m x" if "x \<notin> region (b - 12) (20 + n)" for x using c(5) that by simp
qed

section \<open>Sending\<close>

lemma udp_fits: "42 + n < 65536 \<Longrightarrow> mem_fits (of_nat (42 + n))"
  by (simp add: mem_fits_def MEM_GRANULARITY_def word_le_nat_alt unsigned_ucast_eq unat_of_nat32 take_bit_nat_eq_self del: of_nat_add)

lemma udp_send_ok:
  assumes "tx_ready 4 s" and "i < UDP_SOCKET_COUNT" and "length (udp_sockets s) = UDP_SOCKET_COUNT" and "42 + n < 65536"
  shows "\<exists>s'. udp_socket_send (int i) dip dport buf (of_nat n) s = Inr s' \<and> net_same s s'"
proof -
  have len: "sizeof_ether_hdr + sizeof_ip_hdr + sizeof_udp_hdr + of_nat n = (of_nat (42 + n) :: u32)"
    by (simp add: sizeof_ether_hdr_def sizeof_ip_hdr_def sizeof_udp_hdr_def)
  have fits: "mem_fits (of_nat (42 + n))" by (rule udp_fits [OF assms(4)])
  have sock: "sock_get (udp_sockets s) (int i) = Inr (udp_sockets s ! i)" "\<not> (int i < 0 \<or> int i \<ge> int UDP_SOCKET_COUNT)"
    using assms(2,3) by (simp_all add: sock_get_def arr_get_def)
  have r: "tx_ready (Suc (Suc 2)) s" using assms(1) by (simp add: eval_nat_numeral)
  show ?thesis unfolding udp_socket_send_def len sock(1) if_not_P [OF sock(2)] Let_def bindr_simps
    by (rule ip.send_packet [OF r fits]) (intro net_same_step | assumption | rule net_same_refl)+
qed

text \<open>The packet that \<open>udp_socket_send\<close> hands to IP, in a block \<open>b\<close> of its own.\<close>

lemma udp_send_built:
  fixes s :: "'a udp_state_scheme" and dip :: u32
  assumes "tx_ready 4 s" and i: "i < UDP_SOCKET_COUNT" "length (udp_sockets s) = UDP_SOCKET_COUNT"
    and buf: "in_block s buf n" and n: "42 + n < 65536"
  shows "\<exists>p b s3. udp_socket_send (int i) dip dport buf (of_nat n) s = bindr (ip_tx p dip IP_HDR_PROTO_UDP 64 s3) (free_pkt p) \<and>
           tx_ready 2 s3 \<and> b \<in> live s3 \<and> pktbufs s3 p = \<lparr>pkt_len = of_nat (42 + n), pb_buf = b + 14, pb_head = b\<rparr> \<and>
           netdev s3 = netdev s \<and> nic s3 = nic s \<and> arptable s3 = arptable s \<and>
           udp_ok (mem8 s3) (b + 34) (us_port (udp_sockets s ! i)) dport (bytes_at (mem8 s) buf n) \<and>
           pseudo_ok (mem8 s3) (b + 22) (ip_addr (netdev s)) dip IP_HDR_PROTO_UDP (of_nat (8 + n)) \<and>
           checksum (b + 22) (of_nat (20 + n)) (mem8 s3) = 0"
proof -
  have r: "tx_ready (Suc (Suc 2)) s" using assms(1) by (simp add: eval_nat_numeral)
  have len: "sizeof_ether_hdr + sizeof_ip_hdr + sizeof_udp_hdr + of_nat n = (of_nat (42 + n) :: u32)"
    by (simp add: sizeof_ether_hdr_def sizeof_ip_hdr_def sizeof_udp_hdr_def)
  have sock: "sock_get (udp_sockets s) (int i) = Inr (udp_sockets s ! i)" "\<not> (int i < 0 \<or> int i \<ge> int UDP_SOCKET_COUNT)"
    using i by (simp_all add: sock_get_def arr_get_def)
  from new_pkt_ok [OF r udp_fits [OF n], of "''udp_send_pbuf''" "''udp_send_pbuf_buf''"] obtain p b s1 fm mh where
    s1: "new_pkt (of_nat (42 + n)) ''udp_send_pbuf'' ''udp_send_pbuf_buf'' s = Inr (p, s1)" "tx_ready 2 s1" "{p, b} \<inter> live s = {}"
      "live s1 = {p, b} \<union> live s"
    and e1: "s1 = s\<lparr>freemem := fm, memhdrs := mh, pktbufs := (pktbufs s)(p := \<lparr>pkt_len = of_nat (42 + n), pb_buf = b, pb_head = b\<rparr>)\<rparr>"
    by blast
  define s3 where "s3 = set_buf p (b + 14) (store (udp_build (b + 34) (ip_addr (netdev s)) dip (us_port (udp_sockets s ! i)) dport buf (of_nat n)) s1)"
  have b: "b + 34 - 20 = b + 14" "b + 34 - 12 = b + 22" by simp_all
  have eq: "udp_socket_send (int i) dip dport buf (of_nat n) s = bindr (ip_tx p dip IP_HDR_PROTO_UDP 64 s3) (free_pkt p)"
    unfolding udp_socket_send_def len sock(1) if_not_P [OF sock(2)] Let_def bindr_simps s1(1)
    by (simp only: e1 s3_def sizeof_ether_hdr_def sizeof_ip_hdr_def) (simp add: add.commute [of 14 b])
  have "net_same s1 s3" unfolding s3_def by (intro net_same_step [OF s1(2)] net_same_refl [OF s1(2)])
  then have r3: "tx_ready 2 s3" "b \<in> live s3" using net_same_ready [OF s1(2)] s1(4) by (simp_all add: net_same_def)
  have f3: "netdev s3 = netdev s" "nic s3 = nic s" "arptable s3 = arptable s"
    "pktbufs s3 p = \<lparr>pkt_len = of_nat (42 + n), pb_buf = b + 14, pb_head = b\<rparr>"
    "mem8 s3 = udp_build (b + 34) (ip_addr (netdev s)) dip (us_port (udp_sockets s ! i)) dport buf (of_nat n) (mem8 s)"
    by (simp_all add: s3_def e1 set_buf_def store_def)
  have "region (b + of_nat 22) (20 + n) \<inter> region buf n = {}"
    by (rule in_block_apart [OF buf, of b s1 "{p}"]) (use s1(3,4) n in auto)
  then have "region (b + 34 - 12) (20 + n) \<inter> region buf n = {}" unfolding b by simp
  note u = udp_built [where sip = "ip_addr (netdev s)" and dip = dip and sport = "us_port (udp_sockets s ! i)" and dport = dport
      and m = "mem8 s", OF this, folded f3(5), unfolded b]
  show ?thesis using eq r3 f3(1-4) u n by (intro exI [of _ p] exI [of _ b] exI [of _ s3]) simp
qed

section \<open>Properties\<close>

text \<open>
  C15: what \<open>udp_socket_send\<close> sends. For a socket of the table and data in a block in use the call returns, gives
  back the blocks it took and changes nothing but packet memory and the card; the packet it hands
  to \<open>ip_tx\<close> is a datagram from the socket's port to the given port that carries exactly the caller's data, with a
  checksum over pseudo header, header and data that verifies.
\<close>

theorem udp_send_correct:
  assumes "tx_ready 4 s" and "i < UDP_SOCKET_COUNT" and "length (udp_sockets s) = UDP_SOCKET_COUNT"
    and "in_block s buf n" and "42 + n < 65536"
  shows "(\<exists>s'. udp_socket_send (int i) dip dport buf (of_nat n) s = Inr s' \<and> net_same s s') \<and>
     (\<exists>tx s3. udp_socket_send (int i) dip dport buf (of_nat n) s =
           bindr (ip_tx tx dip IP_HDR_PROTO_UDP 64 s3) (free_pkt tx) \<and>
        pkt_len (pktbufs s3 tx) = of_nat (42 + n) \<and>
        (let b = pb_buf (pktbufs s3 tx) + 20 in
           udp_ok (mem8 s3) b (us_port (udp_sockets s ! i)) dport (bytes_at (mem8 s) buf n) \<and>
           pseudo_ok (mem8 s3) (b - 12) (ip_addr (netdev s)) dip IP_HDR_PROTO_UDP (of_nat (8 + n)) \<and>
           checksum (b - 12) (of_nat (20 + n)) (mem8 s3) = 0))"
proof
  show "\<exists>s'. udp_socket_send (int i) dip dport buf (of_nat n) s = Inr s' \<and> net_same s s'"
    by (rule udp_send_ok [OF assms(1,2,3,5)])
  from udp_send_built [OF assms, of dip dport] obtain p b s3 where
    s3: "udp_socket_send (int i) dip dport buf (of_nat n) s = bindr (ip_tx p dip IP_HDR_PROTO_UDP 64 s3) (free_pkt p)"
      "pktbufs s3 p = \<lparr>pkt_len = of_nat (42 + n), pb_buf = b + 14, pb_head = b\<rparr>"
      "udp_ok (mem8 s3) (b + 34) (us_port (udp_sockets s ! i)) dport (bytes_at (mem8 s) buf n)"
      "pseudo_ok (mem8 s3) (b + 22) (ip_addr (netdev s)) dip IP_HDR_PROTO_UDP (of_nat (8 + n))"
      "checksum (b + 22) (of_nat (20 + n)) (mem8 s3) = 0" by blast
  have b: "pb_buf (pktbufs s3 p) + 20 = b + 34" "b + 34 - 12 = b + 22" by (simp_all add: s3(2))
  show "\<exists>tx s3. udp_socket_send (int i) dip dport buf (of_nat n) s = bindr (ip_tx tx dip IP_HDR_PROTO_UDP 64 s3) (free_pkt tx) \<and>
        pkt_len (pktbufs s3 tx) = of_nat (42 + n) \<and>
        (let b = pb_buf (pktbufs s3 tx) + 20 in
           udp_ok (mem8 s3) b (us_port (udp_sockets s ! i)) dport (bytes_at (mem8 s) buf n) \<and>
           pseudo_ok (mem8 s3) (b - 12) (ip_addr (netdev s)) dip IP_HDR_PROTO_UDP (of_nat (8 + n)) \<and>
           checksum (b - 12) (of_nat (20 + n)) (mem8 s3) = 0)"
    unfolding Let_def by (intro exI [of _ p] exI [of _ s3] conjI, rule s3(1), simp add: s3(2)) (unfold b, rule s3(3), rule s3(4), rule s3(5))
qed

end
