(* ===== verification/Tcp.thy ===== *)
theory Tcp
  imports Udp
begin

text \<open>
  The stream sockets of \<^verbatim>\<open>kernel/net/tcp.c\<close>: the connection states, the packets kept for
  retransmission, and the handler of a received segment.
\<close>

section \<open>Data\<close>

datatype TCP_STATE =
    CLOSED | LISTEN | SYN_RCVD | SYN_SENT | ESTABLISHED | FIN_WAIT_1 | CLOSING | CLOSE_WAIT

definition TCP_SOCKET_FREE :: u8 where "TCP_SOCKET_FREE = 0"
definition TCP_SOCKET_USED :: u8 where "TCP_SOCKET_USED = 1"
definition TCP_SOCKET_COUNT :: nat where "TCP_SOCKET_COUNT = 10"
definition TCP_PORT_START :: u64 where "TCP_PORT_START = 6000"
definition RETRANSMIT_DUP_ACK_NUM :: u32 where "RETRANSMIT_DUP_ACK_NUM = 3"
definition RETRANSMIT_ACK_TIMEOUT_MSEC :: u32 where "RETRANSMIT_ACK_TIMEOUT_MSEC = 1000"
definition TCP_FLAGS_FIN :: u8 where "TCP_FLAGS_FIN = 0x01"
definition TCP_FLAGS_SYN :: u8 where "TCP_FLAGS_SYN = 0x02"
definition TCP_FLAGS_ACK :: u8 where "TCP_FLAGS_ACK = 0x10"
definition sizeof_tcp_hdr :: u32 where "sizeof_tcp_hdr = 20"
definition sizeof_tcp_tx_data :: u32 where "sizeof_tcp_tx_data = 32"
definition sizeof_1int :: u32 where "sizeof_1int = 4"

record tcp_tx_data =
  tx_socket_id :: int
  send_seq_num :: u32
  wait_ack_num :: u32
  dup_ack_num :: u32
  tx_txpkt :: addr

record tcp_socket =
  ts_rx_data_list :: "addr listctl"
  ts_tx_data_list :: "addr listctl"
  ts_wait_id :: u64
  ts_sport :: u16
  ts_sip :: u32
  ts_dport :: u16
  ts_dip :: u32
  ts_flag :: u8
  ts_seq_num :: u32
  ts_ack_num :: u32
  ts_win_size :: u16
  ts_state :: TCP_STATE

record tcp_state = udp_state +
  tcp_sockets :: "tcp_socket list"
  txdatas :: "addr \<Rightarrow> tcp_tx_data"

definition tcp_upd :: "nat \<Rightarrow> (tcp_socket \<Rightarrow> tcp_socket) \<Rightarrow> 'a tcp_state_scheme \<Rightarrow> 'a tcp_state_scheme" where
  "tcp_upd i f s = s\<lparr>tcp_sockets := (tcp_sockets s)[i := f (tcp_sockets s ! i)]\<rparr>"

fun get_tcp_state_str :: "TCP_STATE \<Rightarrow> string" where
  "get_tcp_state_str CLOSED = ''CLOSED''"
| "get_tcp_state_str LISTEN = ''LISTEN''"
| "get_tcp_state_str SYN_RCVD = ''SYN_RCVD''"
| "get_tcp_state_str SYN_SENT = ''SYN_SENT''"
| "get_tcp_state_str ESTABLISHED = ''ESTABLISHED''"
| "get_tcp_state_str FIN_WAIT_1 = ''FIN_WAIT_1''"
| "get_tcp_state_str CLOSING = ''CLOSING''"
| "get_tcp_state_str CLOSE_WAIT = ''CLOSE_WAIT''"

datatype TCP_EVENT = EVENT_CONNECT | EVENT_TIMEOUT_SYN_ACK | EVENT_CLOSE | EVENT_RECV_PKT

fun get_tcp_event_str :: "TCP_EVENT \<Rightarrow> string" where
  "get_tcp_event_str EVENT_CONNECT = ''EVENT_CONNECT''"
| "get_tcp_event_str EVENT_TIMEOUT_SYN_ACK = ''EVENT_TIMEOUT_SYN_ACK''"
| "get_tcp_event_str EVENT_RECV_PKT = ''EVENT_RECV_PKT''"
| "get_tcp_event_str EVENT_CLOSE = ''EVENT_CLOSE''"

section \<open>Sockets\<close>

definition tcp_socket_init :: "'a tcp_state_scheme \<Rightarrow> 'a tcp_state_scheme" where
  "tcp_socket_init s =
     printstr_log (''Initialized TCP socket'' @ nl)
       (s\<lparr>tcp_sockets := map (\<lambda>k. k\<lparr>ts_rx_data_list := list_init, ts_tx_data_list := list_init,
                                 ts_flag := TCP_SOCKET_FREE\<rparr>) (tcp_sockets s)\<rparr>)"

definition tcp_port :: "u64 \<Rightarrow> u16" where
  "tcp_port tk = ucast (TCP_PORT_START + (tk * tk + tk) mod 10000)"

definition tcp_socket_open :: "'a tcp_state_scheme \<Rightarrow> (int \<times> 'a tcp_state_scheme) res" where
  "tcp_socket_open s =
     (case first_idx (\<lambda>k. ts_flag k = TCP_SOCKET_FREE) (tcp_sockets s) 0 of
        Some i \<Rightarrow>
          Inr (int i, tcp_upd i (\<lambda>k. k\<lparr>ts_wait_id := 0, ts_flag := TCP_SOCKET_USED,
                                   ts_sport := tcp_port (get_tick s), ts_state := CLOSED,
                                   ts_seq_num := 0, ts_ack_num := 0, ts_win_size := 65535\<rparr>) s)
      | None \<Rightarrow> panic (printstr_log (''ERROR: exceed max tcp socket count'' @ nl) s))"

definition tcp_connect_timeout :: "addr option \<Rightarrow> 'a tcp_state_scheme \<Rightarrow> 'a tcp_state_scheme res" where
  "tcp_connect_timeout arg s =
     (case arg of
        None \<Rightarrow> Inl NullPtr
      | Some args \<Rightarrow>
          let socket_id = sint (rd32 (mem8 s) args); i = nat socket_id in
          bindr (sock_get (tcp_sockets s) socket_id) (\<lambda>socket.
          bindr (if ts_state socket = SYN_SENT
                 then task_wakeup (TcpSock i) (printstr_log (''tcp: SYN_SENT -> CLOSED'' @ nl)
                        (tcp_upd i (ts_state_update (\<lambda>_. CLOSED)) s))
                 else Inr s) (mem_free args)))"

text \<open>\<open>struct tcp_hdr\<close>: the flags field holds the header length in words and the flags proper.\<close>

definition tcp_hdr :: "addr \<Rightarrow> u16 \<Rightarrow> u16 \<Rightarrow> u32 \<Rightarrow> u32 \<Rightarrow> u16 \<Rightarrow> u16 \<Rightarrow> bytes \<Rightarrow> bytes" where
  "tcp_hdr a sport dport seqn ackn flags win m =
     wr16 (a + 18) 0
      (wr16 (a + 16) 0
       (wr16 (a + 14) (hton16 win)
        (wr16 (a + 12) (hton16 flags)
         (wr32 (a + 8) (hton32 ackn)
          (wr32 (a + 4) (hton32 seqn) (wr16 (a + 2) (hton16 dport) (wr16 a (hton16 sport) m)))))))"

definition tcp_hdr_len :: "tcp_socket \<Rightarrow> u32" where
  "tcp_hdr_len k = (if ts_state k = CLOSED then sizeof_tcp_hdr + 4 else sizeof_tcp_hdr)"

definition mss_opt :: "u8 list" where
  "mss_opt = [0x02, 0x04, 0x05, 0xb4]"

text \<open>The segment with its pseudo header and checksum, as it stands in memory when \<open>ip_tx\<close> is called.\<close>

definition tcp_build ::
  "addr \<Rightarrow> tcp_socket \<Rightarrow> u32 \<Rightarrow> u32 \<Rightarrow> u16 \<Rightarrow> addr \<Rightarrow> u32 \<Rightarrow> u8 \<Rightarrow> bytes \<Rightarrow> bytes" where
  "tcp_build b k sip dip dport buf sz flags m =
     (let hlen = tcp_hdr_len k;
          a = b - ucast sizeof_dummy_ip_hdr;
          m1 = dummy_ip_hdr a sip dip IP_HDR_PROTO_TCP (ucast (hlen + sz)) m;
          m2 = tcp_hdr b (ts_sport k) dport (ts_seq_num k) (ts_ack_num k)
                 (ucast (push_bit 12 (hlen div 4) + ucast flags)) (ts_win_size k) m1;
          m3 = (if ts_state k = CLOSED then wr_list (b + ucast sizeof_tcp_hdr) mss_opt m2 else m2);
          m4 = memcpy (b + ucast hlen) buf sz m3
      in wr16 (b + 16) (checksum a (ucast (sizeof_dummy_ip_hdr + hlen + sz)) m4) m4)"

text \<open>The second half of \<open>tcp_send\<close>: keep the packet until it is acknowledged.\<close>

definition tcp_keep :: "int \<Rightarrow> u32 \<Rightarrow> addr \<Rightarrow> 'a tcp_state_scheme \<Rightarrow> 'a tcp_state_scheme res" where
  "tcp_keep socket_id sz txpkt s =
     (let i = nat socket_id in
      bindr (mem_alloc sizeof_tcp_tx_data ''tx_data'' s) (\<lambda>(tx, s1).
      let seqn = ts_seq_num (tcp_sockets s1 ! i);
          s2 = tcp_upd i (ts_seq_num_update (\<lambda>n. n + sz)) s1;
          d = \<lparr>tx_socket_id = socket_id, send_seq_num = seqn,
               wait_ack_num = ts_seq_num (tcp_sockets s2 ! i), dup_ack_num = 0, tx_txpkt = txpkt\<rparr>;
          s3 = s2\<lparr>txdatas := (txdatas s2)(tx := d)\<rparr> in
      bindr (list_pushback (ts_tx_data_list (tcp_sockets s3 ! i)) tx (links s3)) (\<lambda>(l, nx).
      let s4 = tcp_upd i (ts_tx_data_list_update (\<lambda>_. l)) (s3\<lparr>links := nx\<rparr>) in
      bindr (new_args ''tcp_ack_timeout_arg'' (of_int socket_id) seqn s4) (\<lambda>(args, s5).
      wq_push_with_delay TcpAckTimeout (Some args) RETRANSMIT_ACK_TIMEOUT_MSEC s5))))"

definition tcp_send ::
  "int \<Rightarrow> u32 \<Rightarrow> u16 \<Rightarrow> addr \<Rightarrow> u32 \<Rightarrow> u8 \<Rightarrow> bool \<Rightarrow> 'a tcp_state_scheme \<Rightarrow> 'a tcp_state_scheme res" where
  "tcp_send socket_id dip dport buf sz flags need_ack s =
     (if socket_id < 0 \<or> socket_id \<ge> int TCP_SOCKET_COUNT
      then panic (printstr_log (''ERROR: invalid tcp socket_id'' @ nl) s)
      else
        bindr (sock_get (tcp_sockets s) socket_id) (\<lambda>socket.
        bindr (new_pkt (sizeof_ether_hdr + sizeof_ip_hdr + tcp_hdr_len socket + sz) ''tcp_send_pbuf'' ''tcp_send_pbuf_buf'' s)
          (\<lambda>(txpkt, s1).
        let b = pb_buf (pktbufs s1 txpkt) + ucast (sizeof_ether_hdr + sizeof_ip_hdr);
            s2 = store (tcp_build b socket (ip_addr (netdev s1)) dip dport buf sz flags) s1;
            s3 = set_buf txpkt (b - ucast sizeof_ip_hdr) s2 in
        bindr (ip_tx txpkt dip IP_HDR_PROTO_TCP 64 s3) (\<lambda>s4.
        if need_ack then tcp_keep socket_id sz txpkt s4 else free_pkt txpkt s4))))"

text \<open>\<open>panic\<close> with the message of the functions that are called in the wrong state.\<close>

definition invalid_state :: "string \<Rightarrow> tcp_socket \<Rightarrow> 'a con_state_scheme \<Rightarrow> 'b res" where
  "invalid_state fn k s =
     panic (printstr_log nl (printstr_log (get_tcp_state_str (ts_state k)) (printstr_log (fn @ '', invalid state: '') s)))"

definition tcp_socket_connect ::
  "('a tcp_state_scheme \<Rightarrow> 'a tcp_state_scheme res) \<Rightarrow> int \<Rightarrow> u32 \<Rightarrow> u16 \<Rightarrow> 'a tcp_state_scheme
    \<Rightarrow> (int \<times> 'a tcp_state_scheme) res" where
  "tcp_socket_connect env socket_id dip dport s =
     (let i = nat socket_id in
      bindr (sock_get (tcp_sockets s) socket_id) (\<lambda>_.
      let s1 = tcp_upd i (\<lambda>k. k\<lparr>ts_sport := tcp_port (get_tick s), ts_dip := dip, ts_dport := dport\<rparr>) s;
          k1 = tcp_sockets s1 ! i in
      if ts_state k1 = CLOSED
      then
        bindr (tcp_send socket_id (ts_dip k1) (ts_dport k1) 0 0 TCP_FLAGS_SYN True s1) (\<lambda>s2.
        let s3 = tcp_upd i (\<lambda>k. k\<lparr>ts_seq_num := ts_seq_num k + 1, ts_state := SYN_SENT\<rparr>) s2 in
        bindr (mem_alloc sizeof_1int ''tcp_timeout_arg'' s3) (\<lambda>(args, s4).
        bindr (wq_push_with_delay TcpConnectTimeout (Some args) 5000 (store (wr32 args (of_int socket_id)) s4)) (\<lambda>s5.
        bindr (task_sleep env (TcpSock i) (printstr_log (''tcp: CLOSED -> SYN_SENT'' @ nl) s5)) (\<lambda>s6.
        Inr (if ts_state (tcp_sockets s6 ! i) = ESTABLISHED then 1 else 0, s6)))))
      else invalid_state ''tcp_socket_connect'' k1 s1))"

definition tcp_socket_bind :: "int \<Rightarrow> u32 \<Rightarrow> u16 \<Rightarrow> 'a tcp_state_scheme \<Rightarrow> (int \<times> 'a tcp_state_scheme) res" where
  "tcp_socket_bind socket_id sip sport s =
     bindr (sock_get (tcp_sockets s) socket_id) (\<lambda>k.
     if ts_state k = CLOSED
     then Inr (0, tcp_upd (nat socket_id) (\<lambda>k. k\<lparr>ts_sport := sport, ts_sip := sip\<rparr>) s)
     else invalid_state ''tcp_socket_bind'' k s)"

definition tcp_socket_listen :: "int \<Rightarrow> 'a tcp_state_scheme \<Rightarrow> (int \<times> 'a tcp_state_scheme) res" where
  "tcp_socket_listen socket_id s =
     bindr (sock_get (tcp_sockets s) socket_id) (\<lambda>k.
     if ts_state k = CLOSED
     then Inr (0, printstr_log (''tcp: CLOSED -> LISTEN'' @ nl)
                    (tcp_upd (nat socket_id) (ts_state_update (\<lambda>_. LISTEN)) s))
     else invalid_state ''tcp_socket_listen'' k s)"

definition tcp_socket_accept ::
  "('a tcp_state_scheme \<Rightarrow> 'a tcp_state_scheme res) \<Rightarrow> int \<Rightarrow> 'a tcp_state_scheme \<Rightarrow> (int \<times> 'a tcp_state_scheme) res" where
  "tcp_socket_accept env socket_id s =
     bindr (sock_get (tcp_sockets s) socket_id) (\<lambda>k.
     if ts_state k = LISTEN
     then
       bindr (task_sleep env (TcpSock (nat socket_id)) s) (\<lambda>s1.
       Inr (if ts_state (tcp_sockets s1 ! nat socket_id) = LISTEN then - 1 else 0, s1))
     else invalid_state ''tcp_socket_accept'' k s)"

definition tcp_socket_close ::
  "('a tcp_state_scheme \<Rightarrow> 'a tcp_state_scheme res) \<Rightarrow> int \<Rightarrow> 'a tcp_state_scheme \<Rightarrow> (int \<times> 'a tcp_state_scheme) res" where
  "tcp_socket_close env socket_id s =
     (let i = nat socket_id;
          wait = (\<lambda>s1. bindr (task_sleep env (TcpSock i) s1) (\<lambda>s2.
                   Inr (if ts_state (tcp_sockets s2 ! i) = CLOSED then - 1 else 0, s2))) in
      bindr (sock_get (tcp_sockets s) socket_id) (\<lambda>k.
      case ts_state k of
        ESTABLISHED \<Rightarrow>
          bindr (tcp_send socket_id (ts_dip k) (ts_dport k) 0 0 (TCP_FLAGS_ACK OR TCP_FLAGS_FIN) True s) (\<lambda>s1.
          wait (printstr_log (''tcp: ESTABLISHED -> FIN_WAIT_1'' @ nl)
            (tcp_upd i (\<lambda>k. k\<lparr>ts_seq_num := ts_seq_num k + 1, ts_state := FIN_WAIT_1\<rparr>) s1)))
      | CLOSED \<Rightarrow> Inr (0, s)
      | CLOSING \<Rightarrow> wait s
      | _ \<Rightarrow> invalid_state ''tcp_socket_close'' k s))"

definition tcp_socket_send :: "int \<Rightarrow> addr \<Rightarrow> int \<Rightarrow> 'a tcp_state_scheme \<Rightarrow> (int \<times> 'a tcp_state_scheme) res" where
  "tcp_socket_send socket_id buf sz s =
     bindr (sock_get (tcp_sockets s) socket_id) (\<lambda>k.
     if ts_state k = ESTABLISHED
     then bindr (tcp_send socket_id (ts_dip k) (ts_dport k) buf (of_int sz) TCP_FLAGS_ACK True s) (\<lambda>s1. Inr (0, s1))
     else invalid_state ''tcp_socket_send'' k s)"

definition tcp_socket_recv_timeout :: "addr option \<Rightarrow> 'a tcp_state_scheme \<Rightarrow> 'a tcp_state_scheme res" where
  "tcp_socket_recv_timeout arg s =
     (case arg of
        None \<Rightarrow> Inl NullPtr
      | Some args \<Rightarrow>
          let socket_id = sint (rd32 (mem8 s) args); wait_id = rd32 (mem8 s) (args + 4) in
          bindr (sock_get (tcp_sockets s) socket_id) (\<lambda>socket.
          bindr (if ts_wait_id socket = scast wait_id then task_wakeup (TcpSock (nat socket_id)) s else Inr s)
            (mem_free args)))"

definition tcp_socket_recv ::
  "('a tcp_state_scheme \<Rightarrow> 'a tcp_state_scheme res) \<Rightarrow> int \<Rightarrow> addr \<Rightarrow> int \<Rightarrow> int \<Rightarrow> 'a tcp_state_scheme
    \<Rightarrow> (int \<times> 'a tcp_state_scheme) res" where
  "tcp_socket_recv env socket_id buf sz timeout_msec s =
     (if socket_id < 0 \<or> socket_id \<ge> int TCP_SOCKET_COUNT
      then panic (printstr_log (''ERROR: invalid tcp socket_id'' @ nl) s)
      else
        let i = nat socket_id;
            deliver = (\<lambda>s3.
              let l = ts_rx_data_list (tcp_sockets s3 ! i) in
              if list_empty l then Inr (0, s3)
              else bindr (take_rx l buf sz s3) (\<lambda>(n, l1, s4).
                   Inr (n, tcp_upd i (ts_rx_data_list_update (\<lambda>_. l1)) s4))) in
        bindr (sock_get (tcp_sockets s) socket_id) (\<lambda>socket.
        if list_empty (ts_rx_data_list socket)
        then if ts_state socket = ESTABLISHED
             then if timeout_msec \<le> 0 then Inr (0, s)
                  else
                    let w = get_tick s; s1 = tcp_upd i (ts_wait_id_update (\<lambda>_. w)) s in
                    bindr (new_args ''tcp_timeout_arg'' (of_int socket_id) (ucast w) s1) (\<lambda>(args, s2).
                    bindr (wq_push_with_delay TcpSocketRecvTimeout (Some args) (of_int timeout_msec) s2) (\<lambda>s3.
                    bindr (task_sleep env (TcpSock i) s3) deliver))
             else Inr (- 1, s)
        else deliver s))"

section \<open>Acknowledgements\<close>

text \<open>\<open>txpkt->buf = txpkt->buf_head + sizeof (struct ether_hdr); ip_tx (txpkt, socket->dip, TCP, 64);\<close>\<close>

definition retransmit :: "nat \<Rightarrow> addr \<Rightarrow> 'a tcp_state_scheme \<Rightarrow> 'a tcp_state_scheme res" where
  "retransmit i tx s =
     (let p = tx_txpkt (txdatas s tx);
          s1 = set_buf p (pb_head (pktbufs s p) + ucast sizeof_ether_hdr) s
      in ip_tx p (ts_dip (tcp_sockets s ! i)) IP_HDR_PROTO_TCP 64 s1)"

text \<open>The loop of \<open>tcp_ack_timeout\<close> over the kept packets; the flag is \<open>already_acked\<close>.\<close>

partial_function (option) ack_timeout_loop ::
  "nat \<Rightarrow> u32 \<Rightarrow> addr option \<Rightarrow> bool \<Rightarrow> 'a tcp_state_scheme \<Rightarrow> (bool \<times> 'a tcp_state_scheme) res option" where
  "ack_timeout_loop i seqn p already_acked s =
     (case p of
        None \<Rightarrow> Some (Inr (already_acked, s))
      | Some tx \<Rightarrow>
          if send_seq_num (txdatas s tx) = seqn
          then (case retransmit i tx s of
                  Inl e \<Rightarrow> Some (Inl e)
                | Inr s1 \<Rightarrow> ack_timeout_loop i seqn (list_next tx (links s1)) False s1)
          else ack_timeout_loop i seqn (list_next tx (links s)) already_acked s)"

definition tcp_ack_timeout :: "addr option \<Rightarrow> 'a tcp_state_scheme \<Rightarrow> 'a tcp_state_scheme res" where
  "tcp_ack_timeout arg s =
     (case arg of
        None \<Rightarrow> Inl NullPtr
      | Some args \<Rightarrow>
          let socket_id = sint (rd32 (mem8 s) args); seqn = rd32 (mem8 s) (args + 4); i = nat socket_id in
          bindr (sock_get (tcp_sockets s) socket_id) (\<lambda>socket.
          if ts_state socket = CLOSED then mem_free args s
          else
            bindr (ended (ack_timeout_loop i seqn (list_head (ts_tx_data_list socket)) True s)) (\<lambda>(already_acked, s1).
            if already_acked then mem_free args s1
            else wq_push_with_delay TcpAckTimeout (Some args) RETRANSMIT_ACK_TIMEOUT_MSEC s1)))"

text \<open>\<open>mem_free (tx_data->txpkt->buf_head); mem_free (tx_data->txpkt); mem_free (tx_data);\<close>\<close>

definition free_tx :: "addr \<Rightarrow> 'a tcp_state_scheme \<Rightarrow> 'a tcp_state_scheme res" where
  "free_tx tx s = bindr (free_pkt (tx_txpkt (txdatas s tx)) s) (mem_free tx)"

text \<open>The debugging print of the packets kept for retransmission.\<close>

partial_function (option) show_tx_loop :: "addr option \<Rightarrow> 'a tcp_state_scheme \<Rightarrow> 'a tcp_state_scheme option" where
  "show_tx_loop p s =
     (case p of
        None \<Rightarrow> Some s
      | Some tx \<Rightarrow>
          show_tx_loop (list_next tx (links s))
            (printstr_app '' -> '' (printnum_app (wait_ack_num (txdatas s tx))
              (printstr_app ''a: '' (printnum_app (send_seq_num (txdatas s tx)) (printstr_app ''s: '' s))))))"

definition show_tx_buf :: "nat \<Rightarrow> 'a tcp_state_scheme \<Rightarrow> 'a tcp_state_scheme option" where
  "show_tx_buf i s =
     map_option (printstr_app nl) (show_tx_loop (list_head (ts_tx_data_list (tcp_sockets s ! i))) s)"

lemma show_tx_loop_ends: "lpath (links s) p xs \<Longrightarrow> \<exists>c. show_tx_loop p s = Some (s\<lparr>console := c\<rparr>)"
proof (induction xs arbitrary: p s)
  case Nil
  then show ?case by (subst show_tx_loop.simps) (auto intro: exI [of _ "console s"])
next
  case (Cons x xs)
  let ?s = "printstr_app '' -> '' (printnum_app (wait_ack_num (txdatas s x))
    (printstr_app ''a: '' (printnum_app (send_seq_num (txdatas s x)) (printstr_app ''s: '' s))))"
  obtain c where c: "?s = s\<lparr>console := c\<rparr>" by (simp add: printstr_app_eq printnum_app_eq)
  then have "lpath (links ?s) (links s x) xs" using Cons.prems by simp
  from Cons.IH [OF this] show ?case using Cons.prems c by (subst show_tx_loop.simps) (auto simp: list_next_def)
qed

lemma show_tx_buf_ends:
  assumes "wf_list (links s) (ts_tx_data_list (tcp_sockets s ! i)) xs"
  shows "\<exists>c. show_tx_buf i s = Some (s\<lparr>console := c\<rparr>)"
  using show_tx_loop_ends [of s "list_head (ts_tx_data_list (tcp_sockets s ! i))" xs] assms
  by (auto simp: show_tx_buf_def wf_list_def list_head_def printstr_app_eq)

text \<open>
  The three loops of \<open>handle_ack\<close>. The first starts at the second kept packet; when it frees one, it
  still reads the link of the freed entry, which \<open>list_remove\<close> has cleared.
\<close>

partial_function (option) ack_scan ::
  "nat \<Rightarrow> u32 \<Rightarrow> addr \<Rightarrow> addr option \<Rightarrow> bool \<Rightarrow> 'a tcp_state_scheme \<Rightarrow> (bool \<times> 'a tcp_state_scheme) res option" where
  "ack_scan i ackn prev p find_ack s =
     (case p of
        None \<Rightarrow> Some (Inr (find_ack, s))
      | Some tx \<Rightarrow>
          if wait_ack_num (txdatas s tx) \<le> ackn
          then
            let (l, nx) = list_remove (ts_tx_data_list (tcp_sockets s ! i)) (Some prev) (links s);
                s1 = tcp_upd i (ts_tx_data_list_update (\<lambda>_. l)) (s\<lparr>links := nx\<rparr>)
            in (case free_tx tx s1 of
                  Inl e \<Rightarrow> Some (Inl e)
                | Inr s2 \<Rightarrow> ack_scan i ackn tx (list_next tx (links s2)) True s2)
          else ack_scan i ackn tx (list_next tx (links s)) find_ack s)"

partial_function (option) dup_ack_loop ::
  "nat \<Rightarrow> u32 \<Rightarrow> addr option \<Rightarrow> 'a tcp_state_scheme \<Rightarrow> 'a tcp_state_scheme res option" where
  "dup_ack_loop i ackn p s =
     (case p of
        None \<Rightarrow> Some (Inr s)
      | Some tx \<Rightarrow>
          if send_seq_num (txdatas s tx) = ackn
          then
            let d = txdatas s tx; n = dup_ack_num d + 1;
                s1 = s\<lparr>txdatas := (txdatas s)(tx := d\<lparr>dup_ack_num := n\<rparr>)\<rparr>;
                s2 = printstr_log nl (printnum_log n (printstr_log ''dup_count: '' s1))
            in if n \<ge> RETRANSMIT_DUP_ACK_NUM
               then
                 (case retransmit i tx (printstr_log nl (printnum_log (pkt_len (pktbufs s2 (tx_txpkt d)))
                         (printstr_log ''retransmit: '' s2))) of
                    Inl e \<Rightarrow> Some (Inl e)
                  | Inr s3 \<Rightarrow> dup_ack_loop i ackn (list_next tx (links s3)) s3)
               else dup_ack_loop i ackn (list_next tx (links s2)) s2
          else dup_ack_loop i ackn (list_next tx (links s)) s)"

text \<open>The check of the head packet, after the first loop.\<close>

definition ack_head :: "nat \<Rightarrow> u32 \<Rightarrow> bool \<Rightarrow> 'a tcp_state_scheme \<Rightarrow> (bool \<times> 'a tcp_state_scheme) res" where
  "ack_head i ackn find_ack s =
     (case list_head (ts_tx_data_list (tcp_sockets s ! i)) of
        None \<Rightarrow> Inl NullPtr
      | Some tx \<Rightarrow>
          if wait_ack_num (txdatas s tx) \<le> ackn
          then
            bindr (list_popfront (ts_tx_data_list (tcp_sockets s ! i)) (links s)) (\<lambda>(_, l, nx).
            bindr (free_tx tx (tcp_upd i (ts_tx_data_list_update (\<lambda>_. l)) (s\<lparr>links := nx\<rparr>))) (\<lambda>s1.
            Inr (True, s1)))
          else Inr (find_ack, s))"

text \<open>\<open>ackn\<close> is \<open>ntoh32 (tcphdr->ack_num)\<close>; the received packet is in a block of its own.\<close>

definition handle_ack :: "nat \<Rightarrow> u32 \<Rightarrow> 'a tcp_state_scheme \<Rightarrow> 'a tcp_state_scheme res" where
  "handle_ack i ackn s =
     (case list_head (ts_tx_data_list (tcp_sockets s ! i)) of
        None \<Rightarrow> Inr s
      | Some first \<Rightarrow>
          bindr (ended (ack_scan i ackn first (list_next first (links s)) False s)) (\<lambda>(found, s1).
          bindr (ack_head i ackn found s1) (\<lambda>(found1, s2).
          if found1 then Inr s2
          else
            ended (dup_ack_loop i ackn (list_head (ts_tx_data_list (tcp_sockets s2 ! i)))
              (printstr_log nl (printnum_log ackn (printstr_log ''DETECTED DUPPED ACK: '' s2)))))))"

section \<open>Received segments\<close>

text \<open>The fields of a segment the handler looks at. \<open>sg_data\<close> is where its payload starts.\<close>

record segment =
  sg_sip :: u32
  sg_sport :: u16
  sg_seq :: u32
  sg_ack :: u32
  sg_flags :: u16
  sg_hlen :: u32
  sg_len :: u32

definition read_segment :: "addr \<Rightarrow> 'a net_state_scheme \<Rightarrow> segment" where
  "read_segment pkt s =
     (let h = pb_buf (pktbufs s pkt); ip = h - ucast sizeof_ip_hdr; m = mem8 s;
          ip_len = ucast (hton16 (rd16 m (ip + 2)));
          hlen = (ucast (drop_bit 12 (hton16 (rd16 m (h + 12))) AND 0xf)) * 4
      in \<lparr>sg_sip = ntoh32 (rd32 m (ip + 12)), sg_sport = ntoh16 (rd16 m h), sg_seq = ntoh32 (rd32 m (h + 4)),
          sg_ack = ntoh32 (rd32 m (h + 8)), sg_flags = ntoh16 (rd16 m (h + 12)), sg_hlen = hlen,
          sg_len = ip_len - sizeof_ip_hdr - hlen\<rparr>)"

definition has_flag :: "u8 \<Rightarrow> segment \<Rightarrow> bool" where
  "has_flag f g = (sg_flags g AND ucast f \<noteq> 0)"

text \<open>Append a received payload to the socket's queue and move the acknowledgement number.\<close>

definition tcp_queue_rx :: "nat \<Rightarrow> addr \<Rightarrow> segment \<Rightarrow> 'a tcp_state_scheme \<Rightarrow> 'a tcp_state_scheme res" where
  "tcp_queue_rx i rx g s =
     bindr (list_pushback (ts_rx_data_list (tcp_sockets s ! i)) rx (links s)) (\<lambda>(l, nx).
     Inr (tcp_upd i (\<lambda>k. k\<lparr>ts_rx_data_list := l, ts_ack_num := sg_seq g + sg_len g\<rparr>) (s\<lparr>links := nx\<rparr>)))"

text \<open>One function per case of the \<open>switch\<close> in \<open>tcp_recv_pkt\<close>.\<close>

definition recv_listen :: "nat \<Rightarrow> segment \<Rightarrow> 'a tcp_state_scheme \<Rightarrow> 'a tcp_state_scheme res" where
  "recv_listen i g s =
     (if has_flag TCP_FLAGS_SYN g
      then
        let s1 = tcp_upd i (\<lambda>k. k\<lparr>ts_ack_num := sg_seq g + 1, ts_dip := sg_sip g, ts_dport := sg_sport g\<rparr>) s;
            k = tcp_sockets s1 ! i in
        bindr (tcp_send (int i) (ts_dip k) (ts_dport k) 0 0 (TCP_FLAGS_SYN OR TCP_FLAGS_ACK) True s1) (\<lambda>s2.
        Inr (printstr_log (''tcp: LISTEN -> SYN_RCVD'' @ nl)
          (tcp_upd i (\<lambda>k. k\<lparr>ts_seq_num := ts_seq_num k + 1, ts_state := SYN_RCVD\<rparr>) s2)))
      else Inr s)"

definition recv_syn_rcvd :: "nat \<Rightarrow> segment \<Rightarrow> addr \<Rightarrow> 'a tcp_state_scheme \<Rightarrow> 'a tcp_state_scheme res" where
  "recv_syn_rcvd i g pkt s0 =
     (let s = adv_buf pkt (ucast (sg_hlen g)) s0 in
      if has_flag TCP_FLAGS_ACK g
      then
        bindr (handle_ack i (sg_ack g) s) (\<lambda>s1.
        bindr (if sg_len g > 0
               then bindr (new_rx_data (pb_buf (pktbufs s1 pkt)) (sg_len g) (sg_len g) s1) (\<lambda>(rx, s2).
                    tcp_queue_rx i rx g s2)
               else Inr s1) (\<lambda>s3.
        task_wakeup (TcpSock i) (printstr_log (''tcp: SYN_RCVD -> ESTABLISHED'' @ nl)
          (tcp_upd i (ts_state_update (\<lambda>_. ESTABLISHED)) s3))))
      else Inr s)"

definition recv_syn_sent :: "nat \<Rightarrow> segment \<Rightarrow> 'a tcp_state_scheme \<Rightarrow> 'a tcp_state_scheme res" where
  "recv_syn_sent i g s =
     (if has_flag TCP_FLAGS_SYN g \<and> has_flag TCP_FLAGS_ACK g
      then
        bindr (handle_ack i (sg_ack g) s) (\<lambda>s1.
        let s2 = tcp_upd i (ts_ack_num_update (\<lambda>_. sg_seq g + 1)) s1; k = tcp_sockets s2 ! i in
        bindr (tcp_send (int i) (ts_dip k) (ts_dport k) 0 0 TCP_FLAGS_ACK False s2) (\<lambda>s3.
        task_wakeup (TcpSock i) (printstr_log (''tcp: SYN_SENT -> ESTABLISHED'' @ nl)
          (tcp_upd i (ts_state_update (\<lambda>_. ESTABLISHED)) s3))))
      else Inr s)"

text \<open>A bare acknowledgement with the socket's current numbers.\<close>

definition send_ack :: "nat \<Rightarrow> u8 \<Rightarrow> bool \<Rightarrow> 'a tcp_state_scheme \<Rightarrow> 'a tcp_state_scheme res" where
  "send_ack i flags need_ack s =
     (let k = tcp_sockets s ! i in tcp_send (int i) (ts_dip k) (ts_dport k) 0 0 flags need_ack s)"

text \<open>The part of the \<open>ESTABLISHED\<close> case after the payload has been taken or found to be empty.\<close>

definition established_tail :: "nat \<Rightarrow> segment \<Rightarrow> 'a tcp_state_scheme \<Rightarrow> 'a tcp_state_scheme res" where
  "established_tail i g s =
     bindr (if has_flag TCP_FLAGS_ACK g then handle_ack i (sg_ack g) s else Inr s) (\<lambda>s1.
     if has_flag TCP_FLAGS_FIN g \<and> has_flag TCP_FLAGS_ACK g
     then
       bindr (send_ack i (TCP_FLAGS_ACK OR TCP_FLAGS_FIN) True (tcp_upd i (ts_ack_num_update (\<lambda>n. n + 1)) s1)) (\<lambda>s2.
       Inr (printstr_log (''tcp: ESTABLISHED -> CLOSING'' @ nl) (tcp_upd i (ts_state_update (\<lambda>_. CLOSING)) s2)))
     else if sg_len g > 0 then send_ack i TCP_FLAGS_ACK False s1
     else Inr s1)"

definition recv_established :: "nat \<Rightarrow> segment \<Rightarrow> addr \<Rightarrow> 'a tcp_state_scheme \<Rightarrow> 'a tcp_state_scheme res" where
  "recv_established i g pkt s0 =
     (let s = adv_buf pkt (ucast (sg_hlen g)) s0 in
      if sg_len g > 0
      then
        bindr (new_rx_data (pb_buf (pktbufs s pkt)) (sg_len g) (sg_len g) s) (\<lambda>(rx, s1).
        if ts_ack_num (tcp_sockets s1 ! i) \<noteq> sg_seq g
        then send_ack i TCP_FLAGS_ACK False (printstr_log (''PKT LOSS'' @ nl) s1)
        else
          bindr (tcp_queue_rx i rx g s1) (\<lambda>s2.
          bindr (task_wakeup (TcpSock i) s2) (established_tail i g)))
      else established_tail i g s)"

definition recv_fin_wait_1 :: "nat \<Rightarrow> segment \<Rightarrow> 'a tcp_state_scheme \<Rightarrow> 'a tcp_state_scheme res" where
  "recv_fin_wait_1 i g s =
     bindr (if has_flag TCP_FLAGS_ACK g then handle_ack i (sg_ack g) s else Inr s) (\<lambda>s1.
     if has_flag TCP_FLAGS_FIN g \<and> has_flag TCP_FLAGS_ACK g
     then
       bindr (send_ack i TCP_FLAGS_ACK False (tcp_upd i (ts_ack_num_update (\<lambda>n. n + 1)) s1)) (\<lambda>s2.
       task_wakeup (TcpSock i) (printstr_log (''tcp: FIN_WAIT_1 -> CLOSED'' @ nl)
         (tcp_upd i (ts_state_update (\<lambda>_. CLOSED)) s2)))
     else Inr s1)"

definition recv_closing :: "nat \<Rightarrow> segment \<Rightarrow> 'a tcp_state_scheme \<Rightarrow> 'a tcp_state_scheme res" where
  "recv_closing i g s =
     (if has_flag TCP_FLAGS_ACK g
      then task_wakeup (TcpSock i) (printstr_log (''tcp: CLOSING -> CLOSED'' @ nl)
             (tcp_upd i (ts_state_update (\<lambda>_. CLOSED)) s))
      else Inr s)"

definition tcp_recv_pkt :: "nat \<Rightarrow> addr \<Rightarrow> 'a tcp_state_scheme \<Rightarrow> 'a tcp_state_scheme res" where
  "tcp_recv_pkt i pkt s =
     (let g = read_segment pkt s in
      bindr (arr_get (tcp_sockets s) i) (\<lambda>k.
      case ts_state k of
        CLOSED \<Rightarrow> Inr s
      | LISTEN \<Rightarrow> recv_listen i g s
      | SYN_RCVD \<Rightarrow> recv_syn_rcvd i g pkt s
      | SYN_SENT \<Rightarrow> recv_syn_sent i g s
      | ESTABLISHED \<Rightarrow> recv_established i g pkt s
      | FIN_WAIT_1 \<Rightarrow> recv_fin_wait_1 i g s
      | CLOSING \<Rightarrow> recv_closing i g s
      | CLOSE_WAIT \<Rightarrow> Inr s))"

definition tcp_rx_one :: "addr \<Rightarrow> addr \<Rightarrow> nat \<Rightarrow> 'a tcp_state_scheme \<Rightarrow> 'a tcp_state_scheme res" where
  "tcp_rx_one pkt tcphdr i s =
     bindr (arr_get (tcp_sockets s) i) (\<lambda>k.
     if ts_flag k = TCP_SOCKET_USED \<and> ts_sport k = ntoh16 (rd16 (mem8 s) (tcphdr + 2)) then tcp_recv_pkt i pkt s
     else Inr s)"

definition tcp_rx :: "addr \<Rightarrow> 'a tcp_state_scheme \<Rightarrow> 'a tcp_state_scheme res" where
  "tcp_rx pkt s =
     (let tcphdr = pb_buf (pktbufs s pkt); rf = get_rflags s in
      bindr (for_list [0..<TCP_SOCKET_COUNT] (tcp_rx_one pkt tcphdr) (io_cli s)) (\<lambda>s1.
      Inr (set_rflags rf s1)))"

section \<open>Segments on the wire\<close>

lemma tcp_hdr_layout:
  fixes b :: addr and m :: bytes and sport dport flags win :: u16 and seqn ackn :: u32
  defines "m' \<equiv> tcp_hdr b sport dport seqn ackn flags win m"
  shows "rd16 m' b = hton16 sport" "rd16 m' (b + 2) = hton16 dport" "rd32 m' (b + 4) = hton32 seqn"
    "rd32 m' (b + 8) = hton32 ackn" "rd16 m' (b + 12) = hton16 flags" "rd16 m' (b + 14) = hton16 win"
    "rd16 m' (b + 16) = 0" "rd16 m' (b + 18) = 0" "\<And>x. x \<notin> region b 20 \<Longrightarrow> m' x = m x"
proof -
  note d = m'_def tcp_hdr_def wr_defs add.assoc
  show "rd16 m' b = hton16 sport" "rd16 m' (b + 2) = hton16 dport" "rd16 m' (b + 12) = hton16 flags"
    "rd16 m' (b + 14) = hton16 win" "rd16 m' (b + 16) = 0" "rd16 m' (b + 18) = 0"
    by (rule rd16_eq; simp add: d)+
  show "rd32 m' (b + 4) = hton32 seqn" using wr32_bytes [of "b + 4" "hton32 seqn"] by (intro rd32_eq) (simp_all add: d)
  show "rd32 m' (b + 8) = hton32 ackn" using wr32_bytes [of "b + 8" "hton32 ackn"] by (intro rd32_eq) (simp_all add: d)
  fix x
  assume x: "x \<notin> region b 20"
  have "x \<noteq> b + of_nat i" if "i < 20" for i using x in_region [OF that, of b] by auto
  from this [of 0] this [of 1] this [of 2] this [of 3] this [of 4] this [of 5] this [of 6] this [of 7] this [of 8]
    this [of 9] this [of 10] this [of 11] this [of 12] this [of 13] this [of 14] this [of 15] this [of 16]
    this [of 17] this [of 18] this [of 19]
  show "m' x = m x" by (simp add: d)
qed

text \<open>A segment of a socket: ports, numbers, header length, flags and window.\<close>

definition tcp_ok :: "bytes \<Rightarrow> addr \<Rightarrow> tcp_socket \<Rightarrow> u16 \<Rightarrow> u8 \<Rightarrow> u8 list \<Rightarrow> bool" where
  "tcp_ok m b k dport flags data =
     (ntoh16 (rd16 m b) = ts_sport k \<and> ntoh16 (rd16 m (b + 2)) = dport \<and> ntoh32 (rd32 m (b + 4)) = ts_seq_num k \<and>
      ntoh32 (rd32 m (b + 8)) = ts_ack_num k \<and>
      ntoh16 (rd16 m (b + 12)) = (if ts_state k = CLOSED then 0x6000 else 0x5000) + ucast flags \<and>
      ntoh16 (rd16 m (b + 14)) = ts_win_size k \<and>
      (ts_state k = CLOSED \<longrightarrow> bytes_at m (b + 20) 4 = mss_opt) \<and>
      bytes_at m (b + (if ts_state k = CLOSED then 24 else 20)) (length data) = data)"

lemma hdr_len_simps:
  "tcp_hdr_len k = (if ts_state k = CLOSED then 24 else 20)"
  by (simp add: tcp_hdr_len_def sizeof_tcp_hdr_def)

lemma ucast_add16: "(ucast (x + y :: u32) :: u16) = ucast x + ucast y"
  using ucast_of_nat16 [of "unat x + unat y"] ucast_of_nat16 [of "unat x"] ucast_of_nat16 [of "unat y"] by simp

lemma ucast_u8_u16: "(ucast (ucast (x :: u8) :: u32) :: u16) = ucast x"
  by (rule bit_word_eqI) (auto simp: bit_simps)

lemma wr_list4:
  "wr_list a [p, q, r, t] m = m(a := p, a + 1 := q, a + 2 := r, a + 3 := t)"
  by (simp add: add.assoc wr8_def)

lemma tcp_built:
  fixes b buf :: addr and m :: bytes and n :: nat and sip dip :: u32 and dport :: u16 and k :: tcp_socket and flags :: u8
  defines "m' \<equiv> tcp_build b k sip dip dport buf (of_nat n) flags m" and "h \<equiv> (if ts_state k = CLOSED then 24 else 20 :: nat)"
  assumes src: "region (b - 12) (12 + h + n) \<inter> region buf n = {}" and len: "12 + h + n < 65536"
  shows "tcp_ok m' b k dport flags (bytes_at m buf n)"
    "pseudo_ok m' (b - 12) sip dip IP_HDR_PROTO_TCP (of_nat (h + n))"
    "checksum (b - 12) (of_nat (12 + h + n)) m' = 0" "\<And>x. x \<notin> region (b - 12) (12 + h + n) \<Longrightarrow> m' x = m x"
proof -
  obtain L F :: u16 where L: "of_nat (h + n) = L" and F: "(if ts_state k = CLOSED then 0x6000 else 0x5000) + ucast flags = F" by blast
  let ?m1 = "dummy_ip_hdr (b - 12) sip dip IP_HDR_PROTO_TCP L m"
  let ?m2 = "tcp_hdr b (ts_sport k) dport (ts_seq_num k) (ts_ack_num k) F (ts_win_size k) ?m1"
  let ?m3 = "if ts_state k = CLOSED then wr_list (b + 20) mss_opt ?m2 else ?m2"
  have hl: "tcp_hdr_len k = of_nat h" by (simp add: hdr_len_simps h_def)
  have l: "ucast (tcp_hdr_len k + of_nat n) = L"
    using ucast_of_nat16 [of "h + n"] L unfolding hl by simp
  have l12: "ucast (sizeof_dummy_ip_hdr + tcp_hdr_len k + of_nat n) = (of_nat (12 + h + n) :: u16)"
    using ucast_of_nat16 [of "12 + h + n"] unfolding hl by (simp add: sizeof_dummy_ip_hdr_def)
  have f: "ucast (push_bit 12 (tcp_hdr_len k div 4) + ucast flags :: u32) = F"
    unfolding F [symmetric] ucast_add16 ucast_u8_u16 by (simp add: hdr_len_simps push_bit_eq_mult)
  have at: "ucast (tcp_hdr_len k) = (of_nat h :: u64)" "b + 16 = b + of_nat (2 * 8)" "ucast sizeof_dummy_ip_hdr = (12 :: u64)"
    "ucast sizeof_tcp_hdr = (20 :: u64)"
    by (simp_all add: hdr_len_simps h_def sizeof_dummy_ip_hdr_def sizeof_tcp_hdr_def)
  note eq = m'_def [unfolded tcp_build_def Let_def l l12 f at]
  note u = tcp_hdr_layout [where b = b and sport = "ts_sport k" and dport = dport and seqn = "ts_seq_num k"
      and ackn = "ts_ack_num k" and flags = F and win = "ts_win_size k" and m = ?m1]
  have low: "?m3 (b + of_nat i) = ?m2 (b + of_nat i)" if "i < 20" for i
    using that offset_neq [of i 20 b] offset_neq [of i 21 b] offset_neq [of i 22 b] offset_neq [of i 23 b]
    by (simp add: mss_opt_def wr_list4 add.assoc)
  have out: "?m3 x = ?m1 x" if "x \<notin> region b h" for x
  proof -
    have "x \<noteq> b + of_nat i" if "i < h" for i using \<open>x \<notin> region b h\<close> in_region [OF that, of b] by auto
    from this [of 20] this [of 21] this [of 22] this [of 23] have "?m3 x = ?m2 x"
      by (simp add: mss_opt_def wr_list4 add.assoc h_def)
    moreover have "x \<notin> region b 20" using that region_mono [of 20 h b] by (auto simp: h_def split: if_splits)
    ultimately show ?thesis using u(9) by simp
  qed
  have pre: "rd16 ?m3 (b + of_nat (2 * 8)) = 0" "2 * 8 + 2 \<le> h"
    using u(7) low [of 16] low [of 17] by (simp_all add: h_def rd16_def add.assoc)
  have out': "\<forall>x. x \<notin> region b h \<longrightarrow> ?m3 x = ?m1 x" using out by simp
  note c = transport_built [where h = h and k = 8, OF out' pre(1) src len pre(2), folded eq]
  show "pseudo_ok m' (b - 12) sip dip IP_HDR_PROTO_TCP (of_nat (h + n))" unfolding L by (rule c(2))
  show "checksum (b - 12) (of_nat (12 + h + n)) m' = 0" by (rule c(1))
  show "m' x = m x" if "x \<notin> region (b - 12) (12 + h + n)" for x by (rule c(5) [OF that])
  have eq2: "m' (b + of_nat i) = ?m2 (b + of_nat i)" if "i < 16" for i using c(4) [of i] low [of i] that pre(2) by simp
  have r16: "rd16 m' (b + of_nat i) = rd16 ?m2 (b + of_nat i)" if "i < 15" for i
    by (rule rd16_cong) (use eq2 [of i] eq2 [of "Suc i"] that in \<open>simp_all add: ac_simps\<close>)
  have r32: "rd32 m' (b + of_nat i) = rd32 ?m2 (b + of_nat i)" if "i < 13" for i
    by (rule rd32_cong) (use eq2 [of i] eq2 [of "i + 1"] eq2 [of "i + 2"] eq2 [of "i + 3"] that in \<open>simp_all add: ac_simps\<close>)
  have "bytes_at m' (b + 20) 4 = mss_opt" if cl: "ts_state k = CLOSED"
  proof -
    have "m' (b + 20) = 2" "m' (b + 21) = 4" "m' (b + 22) = 5" "m' (b + 23) = 0xb4"
      using c(4) [of 20] c(4) [of 21] c(4) [of 22] c(4) [of 23] cl
      by (simp_all add: h_def mss_opt_def wr_list4 add.assoc)
    then show ?thesis by (simp add: bytes_at_def mss_opt_def upt_rec add.assoc)
  qed
  moreover have "bytes_at m' (b + (if ts_state k = CLOSED then 24 else 20)) n = bytes_at m buf n"
    using c(3) by (simp add: h_def split: if_splits)
  ultimately show "tcp_ok m' b k dport flags (bytes_at m buf n)"
    using r16 [of 0] r16 [of 2] r16 [of 12] r16 [of 14] r32 [of 4] r32 [of 8] u F by (simp add: tcp_ok_def)
qed

end
