(* ===== verification/Sockets.thy ===== *)
theory Sockets
  imports Tcp
begin

text \<open>
  The queues of all sockets together: that they are one table in the sense of \<open>socket_queues\<close>, and what the
  receive paths of the socket kinds do to it.
\<close>

section \<open>All queues of the kernel's sockets\<close>

datatype sockq = RawRx nat | UdpRx nat | TcpRx nat | TcpTx nat

definition sockqs :: "sockq set" where
  "sockqs = RawRx ` {..<RAW_SOCKET_COUNT} \<union> UdpRx ` {..<UDP_SOCKET_COUNT} \<union>
     TcpRx ` {..<TCP_SOCKET_COUNT} \<union> TcpTx ` {..<TCP_SOCKET_COUNT}"

fun squeue :: "sockq \<Rightarrow> 'a tcp_state_scheme \<Rightarrow> addr listctl" where
  "squeue (RawRx i) s = rs_rx_data_list (raw_sockets s ! i)"
| "squeue (UdpRx i) s = us_rx_data_list (udp_sockets s ! i)"
| "squeue (TcpRx i) s = ts_rx_data_list (tcp_sockets s ! i)"
| "squeue (TcpTx i) s = ts_tx_data_list (tcp_sockets s ! i)"

fun set_squeue :: "sockq \<Rightarrow> addr listctl \<Rightarrow> 'a tcp_state_scheme \<Rightarrow> 'a tcp_state_scheme" where
  "set_squeue (RawRx i) l s = raw_upd i (rs_rx_data_list_update (\<lambda>_. l)) s"
| "set_squeue (UdpRx i) l s = udp_upd i (us_rx_data_list_update (\<lambda>_. l)) s"
| "set_squeue (TcpRx i) l s = tcp_upd i (ts_rx_data_list_update (\<lambda>_. l)) s"
| "set_squeue (TcpTx i) l s = tcp_upd i (ts_tx_data_list_update (\<lambda>_. l)) s"

definition tables_ok :: "'a tcp_state_scheme \<Rightarrow> bool" where
  "tables_ok s =
     (length (raw_sockets s) = RAW_SOCKET_COUNT \<and> length (udp_sockets s) = UDP_SOCKET_COUNT \<and>
      length (tcp_sockets s) = TCP_SOCKET_COUNT)"

lemma sockqs_simps [simp]:
  "RawRx i \<in> sockqs \<longleftrightarrow> i < RAW_SOCKET_COUNT" "UdpRx i \<in> sockqs \<longleftrightarrow> i < UDP_SOCKET_COUNT"
  "TcpRx i \<in> sockqs \<longleftrightarrow> i < TCP_SOCKET_COUNT" "TcpTx i \<in> sockqs \<longleftrightarrow> i < TCP_SOCKET_COUNT"
  by (auto simp: sockqs_def)

lemmas upd_defs = raw_upd_def udp_upd_def tcp_upd_def

interpretation socks: socket_queues sockqs squeue set_squeue tables_ok
proof
  fix s s' :: "'a tcp_state_scheme" and p q l
  show "squeue p (set_squeue q l s) = (if p = q then l else squeue p s)" if "tables_ok s" "p \<in> sockqs" "q \<in> sockqs"
    using that by (cases p; cases q) (auto simp: tables_ok_def upd_defs nth_list_update)
  show "\<exists>m. set_squeue q l s = sock_state.more_update (\<lambda>_. m) s"
    by (intro exI [of _ "sock_state.more (set_squeue q l s)"]) (cases q; cases s; simp add: upd_defs)
  show "squeue q s' = squeue q s" if "sock_state.more s' = sock_state.more s"
    using that by (cases q; cases s; cases s') auto
  show "tables_ok s' = tables_ok s" if "sock_state.more s' = sock_state.more s"
    using that by (cases s; cases s') (simp add: tables_ok_def)
  show "tables_ok (set_squeue q l s) = tables_ok s" by (cases q) (simp_all add: tables_ok_def upd_defs)
qed

section \<open>Receiving datagrams\<close>

lemma for_list_skip: "(\<And>i. i \<in> set is \<Longrightarrow> body i s = Inr s) \<Longrightarrow> for_list is body s = Inr s"
  by (induction "is") auto

lemma for_list_single:
  assumes "i < n" and "\<And>j. j < i \<Longrightarrow> body j s = Inr s" and "body i s = Inr s'"
    and "\<And>j. i < j \<Longrightarrow> j < n \<Longrightarrow> body j s' = Inr s'"
  shows "for_list [0..<n] body s = Inr s'"
proof -
  have split: "[0..<n] = [0..<i] @ i # [Suc i..<n]" using assms(1)
    by (metis le_add1 less_imp_le_nat plus_nat.add_0 upt_add_eq_append upt_conv_Cons le_add_diff_inverse)
  have "for_list [0..<i] body s = Inr s" by (rule for_list_skip) (simp add: assms(2))
  moreover have "for_list [Suc i..<n] body s' = Inr s'" by (rule for_list_skip) (simp add: assms(4))
  ultimately show ?thesis unfolding split for_list_append by (simp add: assms(3))
qed

definition udp_bound :: "'a udp_state_scheme \<Rightarrow> u16 \<Rightarrow> nat \<Rightarrow> bool" where
  "udp_bound s port i =
     (i < UDP_SOCKET_COUNT \<and> us_flag (udp_sockets s ! i) = UDP_SOCKET_USED \<and> us_port (udp_sockets s ! i) = port)"

lemma udp_rx_one_skip:
  assumes "length (udp_sockets s) = UDP_SOCKET_COUNT" and "j < UDP_SOCKET_COUNT"
    and "\<not> udp_bound s (ntoh16 (rd16 (mem8 s) (h + 2))) j"
  shows "udp_rx_one pkt h j s = Inr s"
  using assms by (auto simp: udp_rx_one_def udp_bound_def arr_get_def)

lemma udp_rx_one_deliver:
  assumes inv: "sock_inv sockqs squeue s ts ws Q" and k: "tables_ok s" and av: "2 \<le> avail s"
    and len: "pkt_len (pktbufs s pkt) = of_nat (42 + n)" "42 + n < 65536"
    and src: "in_block s (pb_buf (pktbufs s pkt)) n"
    and b: "udp_bound s (ntoh16 (rd16 (mem8 s) (h + 2))) i"
  shows "\<exists>rx s'. udp_rx_one pkt h i s = Inr s' \<and> sock_inv sockqs squeue s' ts ws (Q(UdpRx i := Q (UdpRx i) @ [rx])) \<and>
           tables_ok s' \<and> avail s' = avail s - 2 \<and> blocks_kept s s' \<and> rx_ok s' rx \<and>
           pending s' rx = bytes_at (mem8 s) (pb_buf (pktbufs s pkt)) n \<and> udp_bound s' = udp_bound s \<and> rx_fresh s s' rx"
proof -
  have l: "pkt_len (pktbufs s pkt) - sizeof_ether_hdr - sizeof_ip_hdr - sizeof_udp_hdr = of_nat n"
    by (simp add: len sizeof_ether_hdr_def sizeof_ip_hdr_def sizeof_udp_hdr_def)
  have n: "unat (of_nat n :: u32) = n" using len(2) by (simp add: unat_of_nat32)
  have fits: "mem_fits (pkt_len (pktbufs s pkt))"
    using len(2) unfolding len(1)
    by (simp add: mem_fits_def MEM_GRANULARITY_def word_le_nat_alt unsigned_ucast_eq unat_of_nat32 take_bit_nat_eq_self del: of_nat_add)
  have i: "UdpRx i \<in> sockqs" using b by (simp add: udp_bound_def)
  from socks.receive_data [OF inv k i av fits, of "of_nat n" "pb_buf (pktbufs s pkt)" "UdpSock i"] len(2) src
  obtain rx s1 c nx s' where
    s1: "new_rx_data (pb_buf (pktbufs s pkt)) (of_nat n) (pkt_len (pktbufs s pkt)) s = Inr (rx, s1)"
      "list_pushback (squeue (UdpRx i) s1) rx (links s1) = Inr (c, nx)"
      "task_wakeup (UdpSock i) (set_squeue (UdpRx i) c (s1\<lparr>links := nx\<rparr>)) = Inr s'"
      "sock_inv sockqs squeue s' ts ws (Q(UdpRx i := Q (UdpRx i) @ [rx]))" "tables_ok s'" "avail s' = avail s - 2"
      "blocks_kept s s'" "rx_ok s' rx" "pending s' rx = bytes_at (mem8 s) (pb_buf (pktbufs s pkt)) n" "rx_fresh s s' rx"
    and m: "sock_state.more s1 = sock_state.more s"
      "sock_state.more s' = sock_state.more (set_squeue (UdpRx i) c (s1\<lparr>links := nx\<rparr>))" unfolding n by auto
  have u: "udp_sockets s1 = udp_sockets s" using m(1) by (cases s; cases s1) simp
  have "udp_sockets s' = udp_sockets (set_squeue (UdpRx i) c (s1\<lparr>links := nx\<rparr>))"
    using m(2) by (cases s'; cases "set_squeue (UdpRx i) c (s1\<lparr>links := nx\<rparr>)") simp
  then have us: "udp_sockets s' = (udp_sockets s)[i := (udp_sockets s ! i)\<lparr>us_rx_data_list := c\<rparr>]"
    by (simp add: udp_upd_def u)
  have "udp_rx_one pkt h i s = Inr s'"
    using b k s1(1-3) by (simp add: udp_rx_one_def udp_bound_def tables_ok_def arr_get_def Let_def l)
  moreover have "us_flag (udp_sockets s' ! j) = us_flag (udp_sockets s ! j) \<and>
      us_port (udp_sockets s' ! j) = us_port (udp_sockets s ! j)" for j
    by (cases "i = j"; cases "j < length (udp_sockets s)") (simp_all add: us list_update_beyond)
  then have "udp_bound s' = udp_bound s" by (simp add: udp_bound_def fun_eq_iff)
  ultimately show ?thesis using s1 by blast
qed

lemma new_rx_data_taskctl: "new_rx_data src len cap s = Inr (rx, s') \<Longrightarrow> taskctl s' = taskctl s"
  by (auto simp: new_rx_data_def store_def dest!: mem_alloc_rest) (auto simp: mem_rest_def)

lemma udp_rx_one_wakes:
  assumes "udp_rx_one pkt h i s = Inr s'"
  shows "none_slept s s'" "udp_bound s (ntoh16 (rd16 (mem8 s) (h + 2))) i \<Longrightarrow> readers_woken (UdpSock i) s s'"
proof -
  let ?b = "us_flag (udp_sockets s ! i) = UDP_SOCKET_USED \<and> us_port (udp_sockets s ! i) = ntoh16 (rd16 (mem8 s) (h + 2))"
  have "none_slept s s' \<and> (?b \<longrightarrow> readers_woken (UdpSock i) s s')"
  proof (cases ?b)
    case False
    then have "s' = s" using assms by (auto simp: udp_rx_one_def arr_get_def split: if_splits)
    then show ?thesis using False by (auto simp: none_slept_refl)
  next
    case True
    let ?p = "pktbufs s pkt"
    from assms True obtain rx s1 l nx where
      s1: "new_rx_data (pb_buf ?p) (pkt_len ?p - sizeof_ether_hdr - sizeof_ip_hdr - sizeof_udp_hdr) (pkt_len ?p) s = Inr (rx, s1)"
        "task_wakeup (UdpSock i) (udp_upd i (us_rx_data_list_update (\<lambda>_. l)) (s1\<lparr>links := nx\<rparr>)) = Inr s'"
      by (auto simp: udp_rx_one_def arr_get_def Let_def split: if_splits)
    have e: "none_slept s (udp_upd i (us_rx_data_list_update (\<lambda>_. l)) (s1\<lparr>links := nx\<rparr>))"
      using new_rx_data_taskctl [OF s1(1)] by (intro none_slept_same) (simp add: udp_upd_def)
    show ?thesis using task_wakeup_wakes_all [OF s1(2)] none_slept_trans [OF e] woken_earlier [OF e] by blast
  qed
  then show "none_slept s s'" "udp_bound s (ntoh16 (rd16 (mem8 s) (h + 2))) i \<Longrightarrow> readers_woken (UdpSock i) s s'"
    by (simp_all add: udp_bound_def)
qed

section \<open>Reading from a socket\<close>

definition data_taken ::
  "sockq \<Rightarrow> addr \<Rightarrow> addr list \<Rightarrow> addr \<Rightarrow> nat \<Rightarrow> 'a tcp_state_scheme \<Rightarrow> addr list \<Rightarrow> addr list \<Rightarrow> (sockq \<Rightarrow> addr list)
    \<Rightarrow> 'a tcp_state_scheme \<Rightarrow> bool" where
  "data_taken q rx xs buf n s ts ws Q s' =
     (sock_inv sockqs squeue s' ts ws (Q(q := xs)) \<and> bytes_at (mem8 s') buf n = take n (pending s rx) \<and>
      live s' = live s \<and> (\<forall>x. x \<notin> region buf n \<longrightarrow> mem8 s' x = mem8 s x))"

lemma take_rx_ok:
  assumes inv: "sock_inv sockqs squeue s ts ws Q" and k: "tables_ok s" and q: "q \<in> sockqs" and Q: "Q q = rx # xs"
    and r: "rx_ok s rx" and sz: "0 \<le> sz"
  defines "n \<equiv> min (nat sz) (length (pending s rx))"
  assumes apart: "region buf n \<inter> region (rxd_data (rxdatas s rx)) n = {}"
  shows "\<exists>l s'. take_rx (squeue q s) buf sz s = Inr (int n, l, s') \<and> data_taken q rx xs buf n s ts ws Q (set_squeue q l s')"
    and "\<not> list_empty (squeue q s)"
proof -
  from socks.take_data [OF inv k q Q r sz apart [unfolded n_def]] obtain l s' where
    "take_rx (squeue q s) buf sz s = Inr (int n, l, s')" "sock_inv sockqs squeue (set_squeue q l s') ts ws (Q(q := xs))"
    "bytes_at (mem8 s') buf n = take n (pending s rx)" "live s' = live s" "\<forall>x. x \<notin> region buf n \<longrightarrow> mem8 s' x = mem8 s x"
    unfolding n_def by blast
  then show "\<exists>l s'. take_rx (squeue q s) buf sz s = Inr (int n, l, s') \<and> data_taken q rx xs buf n s ts ws Q (set_squeue q l s')"
    by (auto simp: data_taken_def socks.put_fields)
  show "\<not> list_empty (squeue q s)" using socks.dequeue [OF inv k q Q] by blast
qed

definition udp_delivered ::
  "nat \<Rightarrow> u8 list \<Rightarrow> 'a tcp_state_scheme \<Rightarrow> addr list \<Rightarrow> addr list \<Rightarrow> (sockq \<Rightarrow> addr list) \<Rightarrow> 'a tcp_state_scheme \<Rightarrow> bool" where
  "udp_delivered i data s ts ws Q s' =
     (\<exists>rx. sock_inv sockqs squeue s' ts ws (Q(UdpRx i := Q (UdpRx i) @ [rx])) \<and> rx_ok s' rx \<and> pending s' rx = data \<and>
        (\<forall>y. rx_ok s y \<longrightarrow> pending s' y = pending s y))"

text \<open>The handler leaves the header and looks at the sockets with interrupts off.\<close>

lemma udp_rx_start:
  assumes inv: "sock_inv sockqs squeue s ts ws Q" and k: "tables_ok s" and h: "h = pb_buf (pktbufs s pkt)"
  defines "s2 \<equiv> io_cli (adv_buf pkt 8 s)"
  shows "sock_inv sockqs squeue s2 ts ws Q" "mem8 s2 = mem8 s" "udp_bound s2 = udp_bound s" "pktbufs s2 pkt = (pktbufs s pkt)\<lparr>pb_buf := h + 8\<rparr>"
    "tables_ok s2" "avail s2 = avail s" "live s2 = live s" "rxdatas s2 = rxdatas s" "length (udp_sockets s2) = UDP_SOCKET_COUNT" "timers s2 = timers s"
    "udp_rx pkt s = bindr (for_list [0..<UDP_SOCKET_COUNT] (udp_rx_one pkt h) s2) (\<lambda>s'. Inr (set_rflags (get_rflags s) s'))"
proof -
  show f: "mem8 s2 = mem8 s" "udp_bound s2 = udp_bound s" "pktbufs s2 pkt = (pktbufs s pkt)\<lparr>pb_buf := h + 8\<rparr>"
    "tables_ok s2" "avail s2 = avail s" "live s2 = live s" "rxdatas s2 = rxdatas s" "length (udp_sockets s2) = UDP_SOCKET_COUNT" "timers s2 = timers s"
    using k by (simp_all add: s2_def adv_buf_def set_buf_def rflags_defs h udp_bound_def fun_eq_iff tables_ok_def mem_view)
  have w: "wq_inv s2 ts ws" using inv by (simp add: s2_def adv_buf_def set_buf_def rflags_defs sock_inv_def wq_view)
  show "sock_inv sockqs squeue s2 ts ws Q"
    by (rule socks.inv_frame [OF inv w]) (simp_all add: f, simp_all add: s2_def adv_buf_def set_buf_def rflags_defs,
        rule socks.get_more, simp)
  show "udp_rx pkt s = bindr (for_list [0..<UDP_SOCKET_COUNT] (udp_rx_one pkt h) s2) (\<lambda>s'. Inr (set_rflags (get_rflags s) s'))"
    by (simp add: udp_rx_def Let_def h sizeof_udp_hdr_def s2_def) (simp add: adv_buf_def set_buf_def rflags_defs)
qed

lemma udp_rx_unbound:
  assumes inv: "sock_inv sockqs squeue s ts ws Q" and k: "tables_ok s"
    and none: "\<forall>i. \<not> udp_bound s (ntoh16 (rd16 (mem8 s) (pb_buf (pktbufs s pkt) + 2))) i"
  shows "udp_rx pkt s = Inr (adv_buf pkt 8 s)"
proof -
  note f = udp_rx_start [OF inv k refl, of pkt]
  let ?s2 = "io_cli (adv_buf pkt 8 s)" and ?h = "pb_buf (pktbufs s pkt)"
  have "for_list [0..<UDP_SOCKET_COUNT] (udp_rx_one pkt ?h) ?s2 = Inr ?s2"
    by (rule for_list_skip, rule udp_rx_one_skip) (use none f(2,3,9) in auto)
  then show ?thesis by (simp add: f(11)) (simp add: adv_buf_def set_buf_def rflags_defs)
qed

lemma block_rd16:
  assumes "blocks_kept s s'" and "in_block s h n" and "i + 1 < n"
  shows "rd16 (mem8 s') (h + of_nat i) = rd16 (mem8 s) (h + of_nat i)"
proof -
  from assms(2) obtain e where e: "e \<in> live s" "region h n \<subseteq> region e 1048528" by (auto simp: in_block_def)
  have "mem8 s' x = mem8 s x" if "x \<in> region h n" for x using assms(1) e that by (auto simp: blocks_kept_def)
  from this [of "h + of_nat i"] this [of "h + of_nat (i + 1)"] show ?thesis
    using in_region [of i n h] in_region [of "i + 1" n h] assms(3) by (intro rd16_cong) (simp_all add: ac_simps)
qed

lemma udp_rx_bound:
  assumes inv: "sock_inv sockqs squeue s ts ws Q" and k: "tables_ok s" and av: "2 \<le> avail s"
    and h: "h = pb_buf (pktbufs s pkt)" and blk: "in_block s h (8 + n)"
    and len: "pkt_len (pktbufs s pkt) = of_nat (42 + n)" "42 + n < 65536"
    and i: "udp_bound s (ntoh16 (rd16 (mem8 s) (h + 2))) i" and one: "\<forall>j. udp_bound s (ntoh16 (rd16 (mem8 s) (h + 2))) j \<longrightarrow> j = i"
  shows "\<exists>rx s'. udp_rx pkt s = Inr s' \<and> sock_inv sockqs squeue s' ts ws (Q(UdpRx i := Q (UdpRx i) @ [rx])) \<and> rx_ok s' rx \<and>
      pending s' rx = bytes_at (mem8 s) (h + 8) n \<and> (\<forall>y. rx_ok s y \<longrightarrow> pending s' y = pending s y) \<and>
      tables_ok s' \<and> avail s' = avail s - 2 \<and> rflags s' = rflags s \<and> rx_fresh s s' rx \<and> readers_woken (UdpSock i) s s'"
proof -
  note f = udp_rx_start [OF inv k h]
  let ?s2 = "io_cli (adv_buf pkt 8 s)"
  have "in_block ?s2 (pb_buf (pktbufs ?s2 pkt)) n"
    using blk region_offset [of h 8 n] by (auto simp: in_block_def f)
  from udp_rx_one_deliver [OF f(1,5), where pkt = pkt and n = n and h = h and i = i] this av len i obtain rx s' where
    s': "udp_rx_one pkt h i ?s2 = Inr s'" "sock_inv sockqs squeue s' ts ws (Q(UdpRx i := Q (UdpRx i) @ [rx]))"
      "tables_ok s'" "avail s' = avail s - 2" "blocks_kept ?s2 s'" "rx_ok s' rx"
      "pending s' rx = bytes_at (mem8 s) (h + 8) n" "udp_bound s' = udp_bound s" "rx_fresh s s' rx"
    by (auto simp: f rx_fresh_def)
  have r: "rd16 (mem8 s') (h + 2) = rd16 (mem8 s) (h + 2)"
    using block_rd16 [OF s'(5), of h "8 + n" 2] blk by (simp add: in_block_def f)
  have iU: "i < UDP_SOCKET_COUNT" using i by (simp add: udp_bound_def)
  have "for_list [0..<UDP_SOCKET_COUNT] (udp_rx_one pkt h) ?s2 = Inr s'"
  proof (rule for_list_single [where i = i, OF iU])
    show "udp_rx_one pkt h i ?s2 = Inr s'" by (rule s'(1))
    show "udp_rx_one pkt h j ?s2 = Inr ?s2" if "j < i" for j
      by (rule udp_rx_one_skip [OF f(9)]) (use that iU one f in auto)
    show "udp_rx_one pkt h j s' = Inr s'" if "i < j" "j < UDP_SOCKET_COUNT" for j
      by (rule udp_rx_one_skip) (use that one s'(3,8) r in \<open>auto simp: tables_ok_def\<close>)
  qed
  then have eq: "udp_rx pkt s = Inr (set_rflags (get_rflags s) s')" by (simp add: f(11))
  let ?s3 = "set_rflags (get_rflags s) s'"
  have g: "rxdatas ?s3 = rxdatas s'" "mem8 ?s3 = mem8 s'" "live ?s3 = live s'" "avail ?s3 = avail s'" "rflags ?s3 = rflags s" "timers ?s3 = timers s'"
    "tables_ok ?s3 = tables_ok s'" "wq_inv ?s3 ts ws"
    using s'(2) by (simp_all add: rflags_defs mem_view tables_ok_def wq_view sock_inv_def)
  have "sock_inv sockqs squeue ?s3 ts ws (Q(UdpRx i := Q (UdpRx i) @ [rx]))"
    by (rule socks.inv_frame [OF s'(2) g(8)]) (simp_all add: g, simp_all add: rflags_defs, rule socks.get_more, simp)
  moreover have "pending ?s3 y = pending s y" if "rx_ok s y" for y
    using pending_kept [OF s'(5), of y] that by (simp add: pending_def rx_ok_def g f)
  moreover have "rx_ok ?s3 rx" "pending ?s3 rx = pending s' rx" using s'(6) by (simp_all add: rx_ok_def pending_def g)
  moreover have "readers_woken (UdpSock i) ?s2 s'" using udp_rx_one_wakes(2) [OF s'(1)] i by (simp add: f)
  then have "readers_woken (UdpSock i) s ?s3" by (simp add: readers_woken_def tcause_def tflag_def rflags_defs adv_buf_def set_buf_def)
  ultimately show ?thesis using eq s'(3,4,7,9) g by (intro exI [of _ rx] exI [of _ ?s3]) (simp add: rx_fresh_def)
qed

lemma udp_recv_takes:
  assumes inv: "sock_inv sockqs squeue s ts ws Q" and k: "tables_ok s" and i: "i < UDP_SOCKET_COUNT" and Q: "Q (UdpRx i) = rx # xs"
    and r: "rx_ok s rx" and sz: "0 \<le> sz"
  defines "n \<equiv> min (nat sz) (length (pending s rx))"
  assumes apart: "region buf n \<inter> region (rxd_data (rxdatas s rx)) n = {}"
  shows "\<exists>s'. udp_socket_recv env (int i) buf sz s = Inr (int n, s') \<and> data_taken (UdpRx i) rx xs buf n s ts ws Q s'"
  using take_rx_ok [OF inv k _ Q r sz apart [unfolded n_def], folded n_def] i k
  by (auto simp: udp_socket_recv_def Let_def tables_ok_def sock_get_def arr_get_def)

section \<open>Properties\<close>

text \<open>
  C11: a datagram reaches exactly the socket bound to its destination port: the handler returns, appends one
  entry with the datagram's payload to that socket's queue, behind what was there, wakes its readers, leaves
  every other queue of every kind of socket and all pending data as they were, and restores the
  interrupt flag. A datagram for a port nobody has bound only moves the packet's data pointer.
\<close>

theorem udp_rx_delivers:
  assumes inv: "sock_inv sockqs squeue s ts ws Q" and k: "tables_ok s" and av: "2 \<le> avail s"
    and h: "h = pb_buf (pktbufs s pkt)" and blk: "in_block s h (8 + n)"
    and len: "pkt_len (pktbufs s pkt) = of_nat (42 + n)" "42 + n < 65536"
  defines "port \<equiv> ntoh16 (rd16 (mem8 s) (h + 2))"
  shows "(\<forall>i. udp_bound s port i \<longrightarrow> (\<forall>j. udp_bound s port j \<longrightarrow> j = i) \<longrightarrow>
            (\<exists>s'. udp_rx pkt s = Inr s' \<and> udp_delivered i (bytes_at (mem8 s) (h + 8) n) s ts ws Q s' \<and>
               tables_ok s' \<and> avail s' = avail s - 2 \<and> rflags s' = rflags s \<and> readers_woken (UdpSock i) s s')) \<and>
         ((\<forall>i. \<not> udp_bound s port i) \<longrightarrow> udp_rx pkt s = Inr (adv_buf pkt 8 s))"
  using udp_rx_unbound [OF inv k, of pkt] udp_rx_bound [OF inv k av h blk len]
  unfolding udp_delivered_def port_def h by blast

text \<open>
  C12: reading from a socket of any of the three kinds with data pending returns at once, without sleeping: it
  takes the oldest entry, copies as much of it as the caller's buffer holds, returns that number of
  bytes, writes nothing outside the buffer, and leaves the other entries and every other queue in place.
\<close>

theorem socket_recv_takes:
  assumes inv: "sock_inv sockqs squeue s ts ws Q" and k: "tables_ok s" and r: "rx_ok s rx" and sz: "0 \<le> sz"
  defines "n \<equiv> min (nat sz) (length (pending s rx))"
  assumes apart: "region buf n \<inter> region (rxd_data (rxdatas s rx)) n = {}"
  shows "(i < 10 \<longrightarrow> Q (RawRx i) = rx # xs \<longrightarrow>
            (\<exists>s'. raw_socket_recv env (int i) buf sz s = Inr (int n, s') \<and> data_taken (RawRx i) rx xs buf n s ts ws Q s')) \<and>
         (i < 10 \<longrightarrow> Q (UdpRx i) = rx # xs \<longrightarrow>
            (\<exists>s'. udp_socket_recv env (int i) buf sz s = Inr (int n, s') \<and> data_taken (UdpRx i) rx xs buf n s ts ws Q s')) \<and>
         (i < 10 \<longrightarrow> Q (TcpRx i) = rx # xs \<longrightarrow>
            (\<exists>s'. tcp_socket_recv env (int i) buf sz msec s = Inr (int n, s') \<and> data_taken (TcpRx i) rx xs buf n s ts ws Q s'))"
proof (intro conjI impI)
  note t = take_rx_ok [OF inv k _ _ r sz apart [unfolded n_def], folded n_def]
  note d = RAW_SOCKET_COUNT_def UDP_SOCKET_COUNT_def TCP_SOCKET_COUNT_def tables_ok_def sock_get_def arr_get_def
  assume i: "i < 10"
  {
    assume "Q (RawRx i) = rx # xs"
    from t [OF _ this] i show "\<exists>s'. raw_socket_recv env (int i) buf sz s = Inr (int n, s') \<and> data_taken (RawRx i) rx xs buf n s ts ws Q s'"
      using k by (auto simp: raw_socket_recv_def Let_def d)
  next
    assume "Q (UdpRx i) = rx # xs"
    from t [OF _ this] i show "\<exists>s'. udp_socket_recv env (int i) buf sz s = Inr (int n, s') \<and> data_taken (UdpRx i) rx xs buf n s ts ws Q s'"
      using k by (auto simp: udp_socket_recv_def Let_def d)
  next
    assume "Q (TcpRx i) = rx # xs"
    from t [OF _ this] i show "\<exists>s'. tcp_socket_recv env (int i) buf sz msec s = Inr (int n, s') \<and> data_taken (TcpRx i) rx xs buf n s ts ws Q s'"
      using k by (auto simp: tcp_socket_recv_def Let_def d)
  }
qed

end
