(* ===== verification/Tcpsock.thy ===== *)
theory Tcpsock
  imports Sockets
begin

text \<open>
  What the stream sockets of \<^verbatim>\<open>kernel/net/tcp.c\<close> do on a well-formed kernel: sending and keeping a
  segment, opening a connection, taking data in order, releasing acknowledged packets.
\<close>

section \<open>Sending\<close>

lemma wq_inv_mono:
  assumes "wq_inv s ts ws" and "mem_inv s'" and "live s \<subseteq> live s'" and "links s' = links s" and "timer_list s' = timer_list s"
    and "timers s' = timers s" and "wq s' = wq s" and "taskctl s' = taskctl s" and "task_links s' = task_links s"
  shows "wq_inv s' ts ws"
  using assms by (auto simp: wq_view wq_ok_def mem_view)

text \<open>A new timer that will put the work \<open>f\<close> on \<open>arg\<close> into the queue after \<open>d\<close> ticks.\<close>

definition delayed ::
  "kfun \<Rightarrow> addr option \<Rightarrow> u32 \<Rightarrow> 'a wq_state_scheme \<Rightarrow> addr list \<Rightarrow> 'a wq_state_scheme \<Rightarrow> addr list \<Rightarrow> bool" where
  "delayed f arg d s ts s' ts' =
     (\<exists>a w. a \<notin> live s \<and> ts' = timer_insort (ttick s) (tick s + d) a ts \<and>
        timers s' a = \<lparr>te_tick = tick s + d, te_func = Some WqPushTimerFunc, te_arg = Some w\<rparr> \<and>
        works s' w = \<lparr>wt_func = f, wt_arg = arg\<rparr>)"

context socket_queues
begin

lemma inv_delay:
  assumes inv: "sock_inv qs get s ts ws Q" and av: "2 \<le> avail s" and t: "tick s + d \<noteq> END_TICK"
  shows "\<exists>s' ts'. wq_push_with_delay f arg d s = Inr s' \<and> sock_inv qs get s' ts' ws Q \<and> avail s' = avail s - 2 \<and>
           live s \<subseteq> live s' \<and> delay_rest s s' \<and> wq_blocks s' ts' ws \<inter> live s \<subseteq> wq_blocks s ts ws \<and> delayed f arg d s ts s' ts'"
proof -
  have w: "wq_inv s ts ws" and qok: "queues_ok qs (\<lambda>q. get q s) (links s) (live s - wq_blocks s ts ws) Q"
    using inv by (simp_all add: sock_inv_def)
  from wq_push_with_delay_ok [OF w av t, of f arg] obtain wk a s' where
    s': "wq_push_with_delay f arg d s = Inr s'" "wq_inv s' (timer_insort (ttick s) (tick s + d) a ts) ws" "wk \<notin> live s"
      "a \<notin> live s" "live s' = {wk, a} \<union> live s" "avail s' = avail s - 2"
      "set (parked (timers s') (timer_insort (ttick s) (tick s + d) a ts)) = insert wk (set (parked (timers s) ts))"
      "\<forall>b. b \<noteq> a \<longrightarrow> b \<notin> set ts \<longrightarrow> links s' b = links s b" "delay_rest s s'"
      "timers s' = (timers s)(a := \<lparr>te_tick = tick s + d, te_func = Some WqPushTimerFunc, te_arg = Some wk\<rparr>)"
      "works s' = (works s)(wk := \<lparr>wt_func = f, wt_arg = arg\<rparr>)" by blast
  let ?ts = "timer_insort (ttick s) (tick s + d) a ts"
  have more: "sock_state.more s' = sock_state.more s" using s'(9) by (auto simp: delay_rest_def)
  have "queues_ok qs (\<lambda>q. get q s') (links s') (live s' - wq_blocks s' ?ts ws) Q"
  proof (rule queues_ok_frame [OF qok])
    fix q x assume "q \<in> qs" "x \<in> set (Q q)"
    then have x: "x \<in> live s" "x \<notin> wq_blocks s ts ws" using queues_okD(2) [OF qok] by blast+
    then have "x \<noteq> a" "x \<noteq> wk" using s'(3,4) by auto
    with x s'(5,7,8) show "x \<in> live s' - wq_blocks s' ?ts ws" "links s' x = links s x" by (auto simp: wq_blocks_def)
  qed (rule get_more [OF more])
  with s'(2) have "sock_inv qs get s' ?ts ws Q" by (simp add: sock_inv_def)
  moreover have "wq_blocks s' ?ts ws \<inter> live s \<subseteq> wq_blocks s ts ws" using s'(3,4,7) by (auto simp: wq_blocks_def)
  moreover have "delayed f arg d s ts s' ?ts" using s'(4,10,11) by (auto simp: delayed_def)
  ultimately show ?thesis using s'(1,5,6,9) by (intro exI [of _ s'] exI [of _ ?ts]) auto
qed

lemma inv_push:
  assumes inv: "sock_inv qs get s ts ws Q" and av: "0 < avail s"
  shows "\<exists>a s'. wq_push f arg s = Inr s' \<and> sock_inv qs get s' ts (ws @ [a]) Q \<and> live s \<subseteq> live s' \<and> avail s' = avail s - 1 \<and>
           works s' a = \<lparr>wt_func = f, wt_arg = arg\<rparr>"
proof -
  have w: "wq_inv s ts ws" and qok: "queues_ok qs (\<lambda>q. get q s) (links s) (live s - wq_blocks s ts ws) Q"
    using inv by (simp_all add: sock_inv_def)
  from wq_push_ok [OF w av, of f arg] obtain a s' where
    s': "wq_push f arg s = Inr s'" "wq_inv s' ts (ws @ [a])" "a \<notin> live s" "live s' = insert a (live s)" "avail s' = avail s - 1"
      "timers s' = timers s" "works s' = (works s)(a := \<lparr>wt_func = f, wt_arg = arg\<rparr>)"
      "\<forall>y. y \<notin> set ws \<longrightarrow> y \<noteq> a \<longrightarrow> links s' y = links s y" by blast
  have more: "sock_state.more s' = sock_state.more s" using wq_push_rest [OF s'(1)] by auto
  have "queues_ok qs (\<lambda>q. get q s') (links s') (live s' - wq_blocks s' ts (ws @ [a])) Q"
  proof (rule queues_ok_frame [OF qok])
    fix q x assume "q \<in> qs" "x \<in> set (Q q)"
    then have x: "x \<in> live s" "x \<notin> wq_blocks s ts ws" using queues_okD(2) [OF qok] by blast+
    then have "x \<noteq> a" using s'(3) by auto
    with x s'(4,6,8) show "x \<in> live s' - wq_blocks s' ts (ws @ [a])" "links s' x = links s x" by (auto simp: wq_blocks_def)
  qed (rule get_more [OF more])
  with s' show ?thesis by (intro exI [of _ a] exI [of _ s']) (auto simp: sock_inv_def)
qed

lemma inv_alloc:
  assumes inv: "sock_inv qs get s ts ws Q" and fits: "mem_fits sz" and av: "0 < avail s"
  shows "\<exists>a s'. mem_alloc sz nm s = Inr (a, s') \<and> sock_inv qs get s' ts ws Q \<and> a \<notin> live s \<and> live s' = insert a (live s) \<and>
           avail s' = avail s - 1 \<and> mem_rest s s' \<and> a \<notin> wq_blocks s' ts ws \<and> (\<forall>q \<in> qs. a \<notin> set (Q q))"
proof -
  have w: "wq_inv s ts ws" and qok: "queues_ok qs (\<lambda>q. get q s) (links s) (live s - wq_blocks s ts ws) Q"
    using inv by (simp_all add: sock_inv_def)
  from wq_inv_alloc [OF w fits av, of nm] obtain a s' where
    s': "mem_alloc sz nm s = Inr (a, s')" "wq_inv s' ts ws" "a \<notin> live s" "live s' = insert a (live s)"
      "avail s' = avail s - 1" "mem_rest s s'" by blast
  have more: "sock_state.more s' = sock_state.more s" "links s' = links s" "timers s' = timers s" using s'(6) by (auto simp: mem_rest_def)
  have "sock_inv qs get s' ts ws Q"
    by (rule inv_frame [OF inv s'(2) more(2,3)]) (use s'(4) get_more [OF more(1)] in auto)
  moreover have "set (ts @ ws @ parked (timers s) ts) \<subseteq> live s" using w by (auto simp: wq_inv_def timer_inv_def)
  then have "a \<notin> wq_blocks s' ts ws" using s'(3) by (auto simp: wq_blocks_def more(3))
  moreover have "\<forall>q \<in> qs. a \<notin> set (Q q)" using queues_okD(2) [OF qok] s'(3) by blast
  ultimately show ?thesis using s' by blast
qed

end

lemma small_fits: "mem_fits sizeof_2int" "mem_fits sizeof_tcp_tx_data" "mem_fits sizeof_1int"
  by (simp_all add: mem_fits_def sizeof_2int_def sizeof_tcp_tx_data_def sizeof_1int_def MEM_GRANULARITY_def)

section \<open>Starting a timer\<close>

text \<open>Nothing but a timer with its work item and its argument block is new; the memory of the card and of all blocks in use stays.\<close>

definition armed :: "'a tcp_state_scheme \<Rightarrow> 'a tcp_state_scheme \<Rightarrow> bool" where
  "armed s s' =
     (live s \<subseteq> live s' \<and> avail s' = avail s - 3 \<and>
      (\<forall>x. unat x < unat MEM_START \<or> (\<exists>a \<in> live s. x \<in> region a 1048528) \<longrightarrow> mem8 s' x = mem8 s x) \<and>
      (\<exists>m fm mh nx l tm wk. s' = s\<lparr>mem8 := m, works := wk, freemem := fm, memhdrs := mh, links := nx, timer_list := l, timers := tm\<rparr>))"

lemma args_frame:
  assumes "a \<in> live s'" and "a \<notin> live s" and "live s \<subseteq> live s'" and "unat x < unat MEM_START \<or> (\<exists>b \<in> live s. x \<in> region b 1048528)"
  shows "x \<notin> region a 1048528"
proof
  assume x: "x \<in> region a 1048528"
  from assms(1) obtain i where i: "i < MEM_BLOCKS" "a = mem_block i + sizeof_memhdr" using live_block by (auto simp: mem_view)
  from unat_region [OF x [unfolded i(2)] i(1)] have "\<not> unat x < unat MEM_START" by (auto simp: MEM_START_def)
  with assms(4) obtain b where b: "b \<in> live s" "x \<in> region b 1048528" by blast
  have "region a 1048528 \<inter> region b 1048528 = {}"
    using assms(1-3) b(1) by (intro live_regions_disjoint [of _ "memhdrs s'"]) (auto simp: mem_view)
  with x b(2) show False by blast
qed

text \<open>An argument block, filled by \<open>g\<close>, and delayed work that gets it.\<close>

lemma args_armed:
  assumes inv: "sock_inv sockqs squeue s ts ws Q" and av: "3 \<le> avail s" and t: "tick s + d \<noteq> END_TICK" and fits: "mem_fits sz"
    and g: "\<And>a m x. x \<notin> region a 1048528 \<Longrightarrow> g a m x = m x"
  shows "\<exists>args s1 s' ts'. mem_alloc sz nm s = Inr (args, s1) \<and> wq_push_with_delay f (Some args) d (store (g args) s1) = Inr s' \<and>
           sock_inv sockqs squeue s' ts' ws Q \<and> armed s s' \<and> wq_blocks s' ts' ws \<inter> live s \<subseteq> wq_blocks s ts ws \<and>
           args \<notin> live s \<and> mem8 s' = g args (mem8 s) \<and> delayed f (Some args) d s ts s' ts'"
proof -
  have "0 < avail s" using av by simp
  from socks.inv_alloc [OF inv fits this, of nm] obtain args s1 where
    s1: "mem_alloc sz nm s = Inr (args, s1)" "sock_inv sockqs squeue s1 ts ws Q" "args \<notin> live s" "live s1 = insert args (live s)"
      "avail s1 = avail s - 1" "mem_rest s s1" by blast
  from s1(6) obtain fm mh where e1: "s1 = s\<lparr>freemem := fm, memhdrs := mh\<rparr>" by (auto simp: mem_rest_def)
  let ?s2 = "store (g args) s1"
  have "wq_inv ?s2 ts ws" using s1(2) by (simp add: sock_inv_def wq_view store_def)
  then have i2: "sock_inv sockqs squeue ?s2 ts ws Q"
    by (rule socks.inv_frame [OF s1(2)]) (simp_all add: store_def mem_view, rule socks.get_more, simp)
  have "2 \<le> avail ?s2" "tick ?s2 + d \<noteq> END_TICK" using s1(5) av t by (simp_all add: store_def mem_view) (simp add: e1)
  from socks.inv_delay [OF i2 this, of f "Some args"] obtain s' ts' where
    s': "wq_push_with_delay f (Some args) d ?s2 = Inr s'" "sock_inv sockqs squeue s' ts' ws Q" "avail s' = avail ?s2 - 2"
      "live ?s2 \<subseteq> live s'" "delay_rest ?s2 s'" "wq_blocks s' ts' ws \<inter> live ?s2 \<subseteq> wq_blocks ?s2 ts ws"
      "delayed f (Some args) d ?s2 ts s' ts'" by blast
  from s'(5) obtain fm7 mh7 nx7 l7 tm7 wk7 where
    e7: "s' = ?s2\<lparr>works := wk7, freemem := fm7, memhdrs := mh7, links := nx7, timer_list := l7, timers := tm7\<rparr>"
    by (auto simp: delay_rest_def)
  have "live s \<subseteq> live s'" "avail s' = avail s - 3" using s'(3,4) s1(4,5) by (auto simp: store_def mem_view)
  moreover have "mem8 s' x = mem8 s x" if "unat x < unat MEM_START \<or> (\<exists>a \<in> live s. x \<in> region a 1048528)" for x
    using g [OF args_frame [of args s1 s x]] s1(3,4) that by (auto simp: e7 e1 store_def)
  moreover have "\<exists>m fm mh nx l tm wk. s' = s\<lparr>mem8 := m, works := wk, freemem := fm, memhdrs := mh, links := nx, timer_list := l, timers := tm\<rparr>"
    by (intro exI [of _ "mem8 ?s2"] exI [of _ fm7] exI [of _ mh7] exI [of _ nx7] exI [of _ l7] exI [of _ tm7] exI [of _ wk7]) (simp add: e7 e1 store_def)
  ultimately have "armed s s'" by (simp add: armed_def)
  moreover have "wq_blocks s' ts' ws \<inter> live s \<subseteq> wq_blocks s ts ws"
    using s'(6) s1(4) by (auto simp: wq_blocks_def store_def mem_view e1)
  moreover have "mem8 s' = g args (mem8 s)" by (simp add: e7 e1 store_def)
  moreover have "ttick ?s2 = ttick s" "tick ?s2 = tick s" "live s \<subseteq> live ?s2"
    using s1(4) by (auto simp: store_def mem_view e1 ttick_def fun_eq_iff)
  then have "delayed f (Some args) d s ts s' ts'" using s'(7) by (auto simp: delayed_def)
  ultimately show ?thesis using s1(1,3) s'(1,2) by blast
qed

lemma wr32_outside: "x \<notin> region a 1048528 \<Longrightarrow> wr32 a v m x = m x" "x \<notin> region a 1048528 \<Longrightarrow> wr32 (a + 4) u m x = m x"
proof -
  assume "x \<notin> region a 1048528"
  then have "x \<noteq> a + of_nat i" if "i < 8" for i using in_region [of i 1048528 a] that by auto
  from this [of 0] this [of 1] this [of 2] this [of 3] this [of 4] this [of 5] this [of 6] this [of 7]
  show "wr32 a v m x = m x" "wr32 (a + 4) u m x = m x" by (simp_all add: wr_defs add.assoc)
qed

text \<open>A time-out: the block holds two integers, which the handler reads back.\<close>

definition timeout_set ::
  "kfun \<Rightarrow> u32 \<Rightarrow> u32 \<Rightarrow> u32 \<Rightarrow> 'a tcp_state_scheme \<Rightarrow> addr list \<Rightarrow> 'a tcp_state_scheme \<Rightarrow> addr list \<Rightarrow> bool" where
  "timeout_set f u v d s ts s' ts' =
     (\<exists>args. args \<notin> live s \<and> rd32 (mem8 s') args = u \<and> rd32 (mem8 s') (args + 4) = v \<and> delayed f (Some args) d s ts s' ts')"

lemma timeout_armed:
  assumes inv: "sock_inv sockqs squeue s ts ws Q" and av: "3 \<le> avail s" and t: "tick s + d \<noteq> END_TICK"
  shows "\<exists>args s2 s' ts'. new_args nm u v s = Inr (args, s2) \<and> wq_push_with_delay f (Some args) d s2 = Inr s' \<and>
           sock_inv sockqs squeue s' ts' ws Q \<and> armed s s' \<and> wq_blocks s' ts' ws \<inter> live s \<subseteq> wq_blocks s ts ws \<and>
           timeout_set f u v d s ts s' ts'"
proof -
  let ?g = "\<lambda>a. wr32 (a + 4) v \<circ> wr32 a u"
  have g: "?g a m x = m x" if "x \<notin> region a 1048528" for a m x using that by (simp add: wr32_outside)
  from args_armed [where g = ?g, OF inv av t small_fits(1) g, of nm f] obtain args s1 s' ts' where
    a: "mem_alloc sizeof_2int nm s = Inr (args, s1)" "wq_push_with_delay f (Some args) d (store (?g args) s1) = Inr s'"
      "sock_inv sockqs squeue s' ts' ws Q" "armed s s'" "wq_blocks s' ts' ws \<inter> live s \<subseteq> wq_blocks s ts ws"
      "args \<notin> live s" "mem8 s' = ?g args (mem8 s)" "delayed f (Some args) d s ts s' ts'" by blast
  have "rd32 (mem8 s') (args + 4) = v" by (simp add: a(7))
  moreover have "rd32 (mem8 s') args = u"
    using wr32_bytes [of args u "mem8 s"] by (simp add: a(7) comp_def) (rule rd32_eq; simp add: wr_defs add.assoc)
  ultimately have "timeout_set f u v d s ts s' ts'" using a(6,8) by (auto simp: timeout_set_def)
  with a(1-5) show ?thesis by (intro exI [of _ args] exI [of _ "store (?g args) s1"] exI [of _ s'] exI [of _ ts']) (simp add: new_args_def)
qed

section \<open>Keeping a packet\<close>

lemma seq_add: "ts_seq_num_update (\<lambda>n. n + sz) k = k\<lparr>ts_seq_num := ts_seq_num k + sz\<rparr>"
  by (cases k) simp

text \<open>The entry \<open>tcp_send\<close> keeps for a packet.\<close>

definition kept :: "'a tcp_state_scheme \<Rightarrow> addr \<Rightarrow> u32 \<Rightarrow> u32 \<Rightarrow> addr \<Rightarrow> bool" where
  "kept s tx seqn sz p =
     (send_seq_num (txdatas s tx) = seqn \<and> wait_ack_num (txdatas s tx) = seqn + sz \<and> dup_ack_num (txdatas s tx) = 0 \<and>
      tx_txpkt (txdatas s tx) = p)"

text \<open>The first half of \<open>tcp_keep\<close> takes a new entry into the queue, the second half starts its timer.\<close>

lemma keep_enqueue:
  fixes s :: "'a tcp_state_scheme" and sz :: u32 and p :: addr
  assumes inv: "sock_inv sockqs squeue s ts ws Q" and k: "tables_ok s" and i: "i < TCP_SOCKET_COUNT" and av: "0 < avail s"
  defines "d \<equiv> \<lparr>tx_socket_id = int i, send_seq_num = ts_seq_num (tcp_sockets s ! i), wait_ack_num = ts_seq_num (tcp_sockets s ! i) + sz,
    dup_ack_num = 0, tx_txpkt = p\<rparr>"
  shows "\<exists>tx s1 s3 l nx. mem_alloc sizeof_tcp_tx_data ''tx_data'' s = Inr (tx, s1) \<and> mem_rest s s1 \<and> tx \<notin> live s \<and>
           s3 = (tcp_upd i (ts_seq_num_update (\<lambda>n. n + sz)) s1)\<lparr>txdatas := (txdatas s)(tx := d)\<rparr> \<and>
           list_pushback (squeue (TcpTx i) s3) tx (links s3) = Inr (l, nx) \<and>
           sock_inv sockqs squeue (set_squeue (TcpTx i) l (s3\<lparr>links := nx\<rparr>)) ts ws (Q(TcpTx i := Q (TcpTx i) @ [tx])) \<and>
           avail (set_squeue (TcpTx i) l (s3\<lparr>links := nx\<rparr>)) = avail s - 1 \<and> live (set_squeue (TcpTx i) l (s3\<lparr>links := nx\<rparr>)) = insert tx (live s) \<and>
           tables_ok (set_squeue (TcpTx i) l (s3\<lparr>links := nx\<rparr>)) \<and> tick (set_squeue (TcpTx i) l (s3\<lparr>links := nx\<rparr>)) = tick s"
proof -
  from socks.inv_alloc [OF inv small_fits(2) av, of "''tx_data''"] obtain tx s1 where
    s1: "mem_alloc sizeof_tcp_tx_data ''tx_data'' s = Inr (tx, s1)" "sock_inv sockqs squeue s1 ts ws Q" "tx \<notin> live s"
      "live s1 = insert tx (live s)" "avail s1 = avail s - 1" "mem_rest s s1" "tx \<notin> wq_blocks s1 ts ws"
      "\<forall>q \<in> sockqs. tx \<notin> set (Q q)" by blast
  from s1(6) obtain fm mh where e1: "s1 = s\<lparr>freemem := fm, memhdrs := mh\<rparr>" by (auto simp: mem_rest_def)
  let ?s3 = "(tcp_upd i (ts_seq_num_update (\<lambda>n. n + sz)) s1)\<lparr>txdatas := (txdatas s)(tx := d)\<rparr>"
  have il: "i < length (tcp_sockets s)" using k i by (simp add: tables_ok_def)
  have k3: "tables_ok ?s3" using k by (simp add: tables_ok_def tcp_upd_def e1)
  have w3: "wq_inv ?s3 ts ws" using s1(2) by (simp add: sock_inv_def wq_view tcp_upd_def)
  have sq: "squeue q ?s3 = squeue q s1" for q
    using il by (cases q) (auto simp: tcp_upd_def e1 nth_list_update)
  have i3: "sock_inv sockqs squeue ?s3 ts ws Q"
    by (rule socks.inv_frame [OF s1(2) w3]) (rule sq | simp add: tcp_upd_def mem_view)+
  have "tx \<in> live ?s3" "tx \<notin> wq_blocks ?s3 ts ws" "TcpTx i \<in> sockqs"
    using s1(4,7) i by (simp_all add: tcp_upd_def mem_view wq_blocks_def)
  with socks.enqueue [OF i3 k3 _ _ _, of "TcpTx i" tx] s1(8) obtain l nx where
    l: "list_pushback (squeue (TcpTx i) ?s3) tx (links ?s3) = Inr (l, nx)"
      "sock_inv sockqs squeue (set_squeue (TcpTx i) l (?s3\<lparr>links := nx\<rparr>)) ts ws (Q(TcpTx i := Q (TcpTx i) @ [tx]))" by blast
  have "avail (set_squeue (TcpTx i) l (?s3\<lparr>links := nx\<rparr>)) = avail s - 1" "live (set_squeue (TcpTx i) l (?s3\<lparr>links := nx\<rparr>)) = insert tx (live s)"
    "tables_ok (set_squeue (TcpTx i) l (?s3\<lparr>links := nx\<rparr>))" "tick (set_squeue (TcpTx i) l (?s3\<lparr>links := nx\<rparr>)) = tick s"
    using s1(4,5) k3 by (simp_all add: mem_view tcp_upd_def tables_ok_def) (simp_all add: e1)
  with s1(1,3,6) l show ?thesis by blast
qed

lemma tcp_keep_ok:
  assumes inv: "sock_inv sockqs squeue s ts ws Q" and k: "tables_ok s" and i: "i < TCP_SOCKET_COUNT" and av: "4 \<le> avail s"
    and t: "tick s + RETRANSMIT_ACK_TIMEOUT_MSEC \<noteq> END_TICK"
  shows "\<exists>tx l ts' s'. tcp_keep (int i) sz p s = Inr s' \<and> tx \<notin> live s \<and>
           sock_inv sockqs squeue s' ts' ws (Q(TcpTx i := Q (TcpTx i) @ [tx])) \<and> tables_ok s' \<and>
           avail s' = avail s - 4 \<and> insert tx (live s) \<subseteq> live s' \<and> kept s' tx (ts_seq_num (tcp_sockets s ! i)) sz p \<and>
           (\<forall>a \<in> live s. txdatas s' a = txdatas s a) \<and> pktbufs s' = pktbufs s \<and> netdev s' = netdev s \<and> nic s' = nic s \<and>
           tcp_sockets s' = (tcp_sockets s)[i := (tcp_sockets s ! i)
             \<lparr>ts_seq_num := ts_seq_num (tcp_sockets s ! i) + sz, ts_tx_data_list := l\<rparr>] \<and>
           wq_blocks s' ts' ws \<inter> insert tx (live s) \<subseteq> wq_blocks s ts ws \<and>
           (\<forall>x. unat x < unat MEM_START \<or> (\<exists>a \<in> live s. x \<in> region a 1048528) \<longrightarrow> mem8 s' x = mem8 s x) \<and>
           timeout_set TcpAckTimeout (of_int (int i)) (ts_seq_num (tcp_sockets s ! i)) RETRANSMIT_ACK_TIMEOUT_MSEC s ts s' ts'"
proof -
  let ?k = "tcp_sockets s ! i"
  let ?d = "\<lparr>tx_socket_id = int i, send_seq_num = ts_seq_num ?k, wait_ack_num = ts_seq_num ?k + sz, dup_ack_num = 0, tx_txpkt = p\<rparr>"
  have il: "i < length (tcp_sockets s)" using k i by (simp add: tables_ok_def)
  have "0 < avail s" using av by simp
  from keep_enqueue [OF inv k i this, of sz p] obtain tx s1 s3 l nx where
    s1: "mem_alloc sizeof_tcp_tx_data ''tx_data'' s = Inr (tx, s1)" "mem_rest s s1" "tx \<notin> live s"
    and e3: "s3 = (tcp_upd i (ts_seq_num_update (\<lambda>n. n + sz)) s1)\<lparr>txdatas := (txdatas s)(tx := ?d)\<rparr>"
    and l: "list_pushback (squeue (TcpTx i) s3) tx (links s3) = Inr (l, nx)"
      "sock_inv sockqs squeue (set_squeue (TcpTx i) l (s3\<lparr>links := nx\<rparr>)) ts ws (Q(TcpTx i := Q (TcpTx i) @ [tx]))"
    and a4: "avail (set_squeue (TcpTx i) l (s3\<lparr>links := nx\<rparr>)) = avail s - 1" "live (set_squeue (TcpTx i) l (s3\<lparr>links := nx\<rparr>)) = insert tx (live s)"
      "tables_ok (set_squeue (TcpTx i) l (s3\<lparr>links := nx\<rparr>))" "tick (set_squeue (TcpTx i) l (s3\<lparr>links := nx\<rparr>)) = tick s" by blast
  from s1(2) obtain fm mh where e1: "s1 = s\<lparr>freemem := fm, memhdrs := mh\<rparr>" by (auto simp: mem_rest_def)
  let ?s4 = "set_squeue (TcpTx i) l (s3\<lparr>links := nx\<rparr>)"
  have "3 \<le> avail ?s4" "tick ?s4 + RETRANSMIT_ACK_TIMEOUT_MSEC \<noteq> END_TICK" using a4(1,4) av t by simp_all
  from timeout_armed [OF l(2) this, of "''tcp_ack_timeout_arg''" "of_int (int i)" "ts_seq_num ?k" TcpAckTimeout] obtain args s5 s' ts' where
    s': "new_args ''tcp_ack_timeout_arg'' (of_int (int i)) (ts_seq_num ?k) ?s4 = Inr (args, s5)"
      "wq_push_with_delay TcpAckTimeout (Some args) RETRANSMIT_ACK_TIMEOUT_MSEC s5 = Inr s'"
      "sock_inv sockqs squeue s' ts' ws (Q(TcpTx i := Q (TcpTx i) @ [tx]))" "armed ?s4 s'"
      "wq_blocks s' ts' ws \<inter> live ?s4 \<subseteq> wq_blocks ?s4 ts ws"
      "timeout_set TcpAckTimeout (of_int (int i)) (ts_seq_num ?k) RETRANSMIT_ACK_TIMEOUT_MSEC ?s4 ts s' ts'" by blast
  from s'(4) obtain m7 fm7 mh7 nx7 l7 tm7 wk7 where
    e7: "s' = ?s4\<lparr>mem8 := m7, works := wk7, freemem := fm7, memhdrs := mh7, links := nx7, timer_list := l7, timers := tm7\<rparr>"
    by (auto simp: armed_def)
  have m7: "\<forall>x. unat x < unat MEM_START \<or> (\<exists>a \<in> live ?s4. x \<in> region a 1048528) \<longrightarrow> mem8 s' x = mem8 ?s4 x"
    using s'(4) by (simp add: armed_def)
  have "ttick ?s4 = ttick s" "tick ?s4 = tick s" by (simp_all add: ttick_def fun_eq_iff e3 e1 tcp_upd_def)
  then have set: "timeout_set TcpAckTimeout (of_int (int i)) (ts_seq_num ?k) RETRANSMIT_ACK_TIMEOUT_MSEC s ts s' ts'"
    using s'(6) a4(2) by (auto simp: timeout_set_def delayed_def)
  have "ts_seq_num (tcp_sockets s1 ! i) = ts_seq_num ?k" "txdatas s1 = txdatas s" by (simp_all add: e1)
  then have "tcp_keep (int i) sz p s = Inr s'"
    using s1(1) l(1) s'(1,2) il e3 by (simp add: tcp_keep_def Let_def) (simp add: tcp_upd_def e1)
  moreover have "avail s' = avail s - 4" "insert tx (live s) \<subseteq> live s'" using s'(4) a4(1,2) by (simp_all add: armed_def)
  moreover have "txdatas s' = (txdatas s)(tx := ?d)" "pktbufs s' = pktbufs s" "netdev s' = netdev s" "nic s' = nic s"
    by (simp_all add: e7 e3 e1 tcp_upd_def)
  moreover have "tcp_sockets s' = (tcp_sockets s)[i := ?k\<lparr>ts_seq_num := ts_seq_num ?k + sz, ts_tx_data_list := l\<rparr>]"
    using il by (simp add: e7 e3 e1 tcp_upd_def seq_add)
  moreover have "tables_ok s'" using a4(3) by (simp add: tables_ok_def e7)
  moreover have "mem8 ?s4 = mem8 s" by (simp add: e3 e1 tcp_upd_def)
  then have "\<forall>x. unat x < unat MEM_START \<or> (\<exists>a \<in> live s. x \<in> region a 1048528) \<longrightarrow> mem8 s' x = mem8 s x"
    using m7 a4(2) by auto
  moreover have "wq_blocks s' ts' ws \<inter> insert tx (live s) \<subseteq> wq_blocks s ts ws"
    using s'(5) unfolding a4(2) by (simp add: wq_blocks_def e3 e1 tcp_upd_def)
  ultimately show ?thesis using s1(3) s'(3) set
    by (intro exI [of _ tx] exI [of _ l] exI [of _ ts'] exI [of _ s']) (simp add: kept_def)
qed

lemma net_same_sock:
  assumes "net_same s s'"
  shows "sock_state.more s' = sock_state.more s" "rxdatas s' = rxdatas s" "tcp_sockets s' = tcp_sockets s"
    "tables_ok s' = tables_ok s" "txdatas s' = txdatas s"
  using net_same_fields(11) [OF assms] by (cases s; cases s'; simp add: tables_ok_def)+

lemma net_same_inv:
  assumes "sock_inv sockqs squeue s ts ws Q" and "net_same s s'"
  shows "sock_inv sockqs squeue s' ts ws Q"
proof (rule socks.inv_frame [OF assms(1)])
  show "wq_inv s' ts ws" using assms net_same_wq by (auto simp: sock_inv_def)
  show "live s \<subseteq> live s'" using assms(2) by (simp add: net_same_def)
  show "squeue q s' = squeue q s" for q by (rule socks.get_more) (rule net_same_sock(1) [OF assms(2)])
qed (use net_same_fields [OF assms(2)] in simp_all)

lemma tcp_fits: "58 + n < 65536 \<Longrightarrow> mem_fits (sizeof_ether_hdr + sizeof_ip_hdr + tcp_hdr_len k + of_nat n)"
proof -
  assume n: "58 + n < 65536"
  let ?h = "if ts_state k = CLOSED then 24 else 20 :: nat"
  have "sizeof_ether_hdr + sizeof_ip_hdr + tcp_hdr_len k + of_nat n = (of_nat (34 + ?h + n) :: u32)"
    by (simp add: sizeof_ether_hdr_def sizeof_ip_hdr_def hdr_len_simps)
  moreover have "34 + ?h + n < 65536" using n by simp
  ultimately show ?thesis
    by (simp add: mem_fits_def MEM_GRANULARITY_def word_le_nat_alt unsigned_ucast_eq unat_of_nat32 take_bit_nat_eq_self del: of_nat_add)
qed

text \<open>Where \<open>tcp_send\<close> hands its packet to the network, and what follows.\<close>

definition tcp_filled :: "nat \<Rightarrow> addr \<Rightarrow> u32 \<Rightarrow> u16 \<Rightarrow> addr \<Rightarrow> u32 \<Rightarrow> u8 \<Rightarrow> 'a tcp_state_scheme \<Rightarrow> 'a tcp_state_scheme" where
  "tcp_filled i p dip dport buf sz flags s1 =
     (let b = pb_buf (pktbufs s1 p) + 34 in
      set_buf p (b - 20) (store (tcp_build b (tcp_sockets s1 ! i) (ip_addr (netdev s1)) dip dport buf sz flags) s1))"

lemma tcp_send_eq:
  assumes "i < TCP_SOCKET_COUNT" and "tables_ok s"
    and "new_pkt (sizeof_ether_hdr + sizeof_ip_hdr + tcp_hdr_len (tcp_sockets s ! i) + sz) ''tcp_send_pbuf'' ''tcp_send_pbuf_buf'' s
      = Inr (p, s1)" and "tcp_sockets s1 = tcp_sockets s"
  shows "tcp_send (int i) dip dport buf sz flags need s =
     bindr (ip_tx p dip IP_HDR_PROTO_TCP 64 (tcp_filled i p dip dport buf sz flags s1))
       (\<lambda>s4. if need then tcp_keep (int i) sz p s4 else free_pkt p s4)"
  using assms by (simp add: tcp_send_def sock_get_def arr_get_def tables_ok_def Let_def tcp_filled_def)
    (simp add: sizeof_ether_hdr_def sizeof_ip_hdr_def)

text \<open>The packet is built and handed to the network; the two blocks it takes are in no queue yet.\<close>

lemma tcp_send_parts:
  fixes s :: "'a tcp_state_scheme"
  assumes inv: "sock_inv sockqs squeue s ts ws Q" and k: "tables_ok s" and nic: "nic_ok s" and i: "i < TCP_SOCKET_COUNT"
    and av: "4 \<le> avail s" and n: "58 + n < 65536"
  defines "len \<equiv> sizeof_ether_hdr + sizeof_ip_hdr + tcp_hdr_len (tcp_sockets s ! i) + of_nat n"
  shows "\<exists>p b s1 s3. new_pkt len ''tcp_send_pbuf'' ''tcp_send_pbuf_buf'' s = Inr (p, s1) \<and> tcp_sockets s1 = tcp_sockets s \<and>
           ip_tx p dip IP_HDR_PROTO_TCP 64 (tcp_filled i p dip dport buf (of_nat n) flags s1) = Inr s3 \<and> p \<noteq> b \<and> {p, b} \<inter> live s = {} \<and>
           sock_inv sockqs squeue s3 ts ws Q \<and> tables_ok s3 \<and> nic_ok s3 \<and> avail s3 = avail s - 2 \<and> live s3 = {p, b} \<union> live s \<and>
           tick s3 = tick s \<and> tcp_sockets s3 = tcp_sockets s \<and> txdatas s3 = txdatas s \<and> timers s3 = timers s \<and> netdev s3 = netdev s \<and>
           pb_head (pktbufs s3 p) = b \<and> (\<forall>a \<in> live s. pb_head (pktbufs s3 a) = pb_head (pktbufs s a))"
proof -
  have w: "wq_inv s ts ws" using inv by (simp add: sock_inv_def)
  have "tx_ready (Suc (Suc 2)) s" using w nic av by (simp add: tx_ready_def wq_inv_mem)
  from new_pkt_ok [OF this tcp_fits [OF n], of "tcp_sockets s ! i" "''tcp_send_pbuf''" "''tcp_send_pbuf_buf''"] obtain p b s1 fm mh where
    s1: "new_pkt len ''tcp_send_pbuf'' ''tcp_send_pbuf_buf'' s = Inr (p, s1)" "tx_ready 2 s1" "p \<noteq> b" "{p, b} \<inter> live s = {}"
      "live s1 = {p, b} \<union> live s" "avail s1 = avail s - 2"
    and e1: "s1 = s\<lparr>freemem := fm, memhdrs := mh, pktbufs := (pktbufs s)(p := \<lparr>pkt_len = len, pb_buf = b, pb_head = b\<rparr>)\<rparr>"
    unfolding len_def by blast
  have w1: "wq_inv s1 ts ws" by (rule wq_inv_mono [OF w tx_readyD(1) [OF s1(2)]]) (use s1(5) in \<open>auto simp: e1\<close>)
  have i1: "sock_inv sockqs squeue s1 ts ws Q"
    by (rule socks.inv_frame [OF inv w1]) (use s1(5) in \<open>auto simp: e1 intro: socks.get_more\<close>)
  let ?s2 = "tcp_filled i p dip dport buf (of_nat n) flags s1"
  have n2: "net_same s1 ?s2" unfolding tcp_filled_def Let_def
    by (intro net_same_step [OF s1(2)] net_same_refl [OF s1(2)])
  from ip_tx_ok [OF net_same_ready [OF s1(2) n2], of p dip IP_HDR_PROTO_TCP 64] obtain s3 where
    s3: "ip_tx p dip IP_HDR_PROTO_TCP 64 ?s2 = Inr s3" "net_same ?s2 s3" by blast
  have n3: "net_same s1 s3" by (rule net_same_trans [OF n2 s3(2)])
  note f3 = net_same_sock [OF n3] net_same_fields [OF n3]
  have "avail s3 = avail s - 2" "live s3 = {p, b} \<union> live s" "nic_ok s3"
    and h3: "\<forall>q \<in> {p, b} \<union> live s. pb_head (pktbufs s3 q) = pb_head (pktbufs s1 q)"
    using n3 s1(5,6) by (simp_all add: net_same_def)
  moreover have "pb_head (pktbufs s3 p) = b" "\<forall>a \<in> live s. pb_head (pktbufs s3 a) = pb_head (pktbufs s a)"
    using h3 s1(4) by (auto simp: e1)
  moreover have "tables_ok s3" "tick s3 = tick s" "tcp_sockets s3 = tcp_sockets s" "txdatas s3 = txdatas s" "timers s3 = timers s"
    "netdev s3 = netdev s" using k f3 by (simp_all add: e1 tables_ok_def)
  moreover have "sock_inv sockqs squeue s3 ts ws Q" by (rule net_same_inv [OF i1 n3])
  moreover have "tcp_sockets s1 = tcp_sockets s" by (simp add: e1)
  ultimately show ?thesis using s1(1,3,4) s3(1) by (intro exI [of _ p] exI [of _ b] exI [of _ s1] exI [of _ s3]) simp
qed

lemma tcp_send_keep:
  assumes inv: "sock_inv sockqs squeue s ts ws Q" and k: "tables_ok s" and nic: "nic_ok s" and i: "i < TCP_SOCKET_COUNT"
    and av: "6 \<le> avail s" and n: "58 + n < 65536" and t: "tick s + RETRANSMIT_ACK_TIMEOUT_MSEC \<noteq> END_TICK"
  defines "k0 \<equiv> tcp_sockets s ! i"
  shows "\<exists>tx p b l ts' s' s1 s3. tcp_send (int i) dip dport buf (of_nat n) flags True s = Inr s' \<and> {tx, p, b} \<inter> live s = {} \<and>
           distinct [tx, p, b] \<and> sock_inv sockqs squeue s' ts' ws (Q(TcpTx i := Q (TcpTx i) @ [tx])) \<and> tables_ok s' \<and>
           nic_ok s' \<and> avail s' = avail s - 6 \<and> {tx, p, b} \<union> live s \<subseteq> live s' \<and>
           kept s' tx (ts_seq_num k0) (of_nat n) p \<and> pb_head (pktbufs s' p) = b \<and>
           (\<forall>a \<in> live s. txdatas s' a = txdatas s a) \<and>
           (\<forall>a \<in> live s. pb_head (pktbufs s' a) = pb_head (pktbufs s a)) \<and>
           tcp_sockets s' = (tcp_sockets s)[i := k0\<lparr>ts_seq_num := ts_seq_num k0 + of_nat n, ts_tx_data_list := l\<rparr>] \<and>
           wq_blocks s' ts' ws \<inter> live s \<subseteq> wq_blocks s ts ws \<and> {tx, p, b} \<inter> wq_blocks s' ts' ws = {} \<and>
           timeout_set TcpAckTimeout (of_int (int i)) (ts_seq_num k0) RETRANSMIT_ACK_TIMEOUT_MSEC s ts s' ts' \<and> netdev s' = netdev s \<and>
           new_pkt (sizeof_ether_hdr + sizeof_ip_hdr + tcp_hdr_len k0 + of_nat n) ''tcp_send_pbuf'' ''tcp_send_pbuf_buf'' s = Inr (p, s1) \<and>
           ip_tx p dip IP_HDR_PROTO_TCP 64 (tcp_filled i p dip dport buf (of_nat n) flags s1) = Inr s3 \<and> live s3 = {p, b} \<union> live s \<and>
           nic s' = nic s3 \<and> pktbufs s' = pktbufs s3 \<and> (\<forall>x. unat x < unat MEM_START \<or> (\<exists>a \<in> live s3. x \<in> region a 1048528) \<longrightarrow> mem8 s' x = mem8 s3 x)"
proof -
  have "4 \<le> avail s" using av by simp
  from tcp_send_parts [OF inv k nic i this n, of dip dport buf flags, folded k0_def] obtain p b s1 s3 where
    s3: "new_pkt (sizeof_ether_hdr + sizeof_ip_hdr + tcp_hdr_len k0 + of_nat n) ''tcp_send_pbuf'' ''tcp_send_pbuf_buf'' s = Inr (p, s1)"
      "tcp_sockets s1 = tcp_sockets s" "ip_tx p dip IP_HDR_PROTO_TCP 64 (tcp_filled i p dip dport buf (of_nat n) flags s1) = Inr s3"
      "p \<noteq> b" "{p, b} \<inter> live s = {}" "sock_inv sockqs squeue s3 ts ws Q" "tables_ok s3" "nic_ok s3" "avail s3 = avail s - 2"
      "live s3 = {p, b} \<union> live s"
    and f3: "tick s3 = tick s" "tcp_sockets s3 = tcp_sockets s" "txdatas s3 = txdatas s" "timers s3 = timers s" "pb_head (pktbufs s3 p) = b"
      "\<forall>a \<in> live s. pb_head (pktbufs s3 a) = pb_head (pktbufs s a)" "netdev s3 = netdev s" by blast
  have "4 \<le> avail s3" "tick s3 + RETRANSMIT_ACK_TIMEOUT_MSEC \<noteq> END_TICK" using av t s3(9) f3(1) by simp_all
  from tcp_keep_ok [OF s3(6,7) i this, of "of_nat n" p, unfolded f3(2), folded k0_def] obtain tx l ts' s' where
    s': "tcp_keep (int i) (of_nat n) p s3 = Inr s'" "tx \<notin> live s3"
      "sock_inv sockqs squeue s' ts' ws (Q(TcpTx i := Q (TcpTx i) @ [tx]))" "tables_ok s'" "avail s' = avail s3 - 4"
      "insert tx (live s3) \<subseteq> live s'" "kept s' tx (ts_seq_num k0) (of_nat n) p"
      "\<forall>a \<in> live s3. txdatas s' a = txdatas s3 a" "pktbufs s' = pktbufs s3" "netdev s' = netdev s3" "nic s' = nic s3"
      "tcp_sockets s' = (tcp_sockets s)[i := k0\<lparr>ts_seq_num := ts_seq_num k0 + of_nat n, ts_tx_data_list := l\<rparr>]"
      "wq_blocks s' ts' ws \<inter> insert tx (live s3) \<subseteq> wq_blocks s3 ts ws"
      "\<forall>x. unat x < unat MEM_START \<or> (\<exists>a \<in> live s3. x \<in> region a 1048528) \<longrightarrow> mem8 s' x = mem8 s3 x"
      "timeout_set TcpAckTimeout (of_int (int i)) (ts_seq_num k0) RETRANSMIT_ACK_TIMEOUT_MSEC s3 ts s' ts'" by blast
  have "wq_blocks s3 ts ws = wq_blocks s ts ws" by (simp add: wq_blocks_def f3(4))
  moreover have "wq_inv s ts ws" using inv by (simp add: sock_inv_def)
  then have "wq_blocks s ts ws \<subseteq> live s" by (auto simp: wq_blocks_def wq_inv_def timer_inv_def)
  ultimately have wb: "wq_blocks s' ts' ws \<inter> live s \<subseteq> wq_blocks s ts ws" "{tx, p, b} \<inter> wq_blocks s' ts' ws = {}"
    using s'(2,13) s3(5,10) by blast+
  have "tcp_send (int i) dip dport buf (of_nat n) flags True s = Inr s'"
    using tcp_send_eq [OF i k s3(1) [unfolded k0_def] s3(2)] s3(3) s'(1) by simp
  moreover have "nic_ok s'" using s3(8) s'(10,11) by (simp add: nic_ok_def)
  moreover have "ttick s3 = ttick s" by (simp add: ttick_def f3(4) fun_eq_iff)
  then have "timeout_set TcpAckTimeout (of_int (int i)) (ts_seq_num k0) RETRANSMIT_ACK_TIMEOUT_MSEC s ts s' ts'"
    using s'(15) s3(10) f3(1) by (auto simp: timeout_set_def delayed_def)
  moreover have "netdev s' = netdev s" using s'(10) f3(7) by simp
  ultimately show ?thesis
    using s'(2-7,11,12,14) s3(1,3,4,5,9,10) s'(8,9) f3(3,5,6) wb
    by (intro exI [of _ tx] exI [of _ p] exI [of _ b] exI [of _ l] exI [of _ ts'] exI [of _ s'] exI [of _ s1] exI [of _ s3]) simp
qed

lemma tcp_send_plain:
  assumes r: "tx_ready 4 s" and k: "tables_ok s" and i: "i < TCP_SOCKET_COUNT" and n: "58 + n < 65536"
  shows "\<exists>s'. tcp_send (int i) dip dport buf (of_nat n) flags False s = Inr s' \<and> net_same s s'"
proof -
  have neg: "\<not> (int i < 0 \<or> int i \<ge> int TCP_SOCKET_COUNT)" using i by simp
  have sock: "sock_get (tcp_sockets s) (int i) = Inr (tcp_sockets s ! i)"
    using i k by (simp add: sock_get_def arr_get_def tables_ok_def)
  have r2: "tx_ready (Suc (Suc 2)) s" using r by (simp add: eval_nat_numeral)
  show ?thesis
    unfolding tcp_send_def sock if_not_P [OF neg] Let_def bindr_simps if_False
    by (rule ip.send_packet [OF r2 tcp_fits [OF n]]) (intro net_same_step | assumption | rule net_same_refl)+
qed

section \<open>Opening a connection\<close>

lemma sock_upd_inv:
  assumes inv: "sock_inv sockqs squeue s ts ws Q"
    and f: "ts_rx_data_list (f (tcp_sockets s ! i)) = ts_rx_data_list (tcp_sockets s ! i)"
      "ts_tx_data_list (f (tcp_sockets s ! i)) = ts_tx_data_list (tcp_sockets s ! i)"
  shows "sock_inv sockqs squeue (tcp_upd i f s) ts ws Q"
proof -
  have sq: "squeue q (tcp_upd i f s) = squeue q s" for q
    using f by (cases q; cases "i < length (tcp_sockets s)") (auto simp: tcp_upd_def nth_list_update list_update_beyond)
  have "wq_inv (tcp_upd i f s) ts ws" using inv by (simp add: sock_inv_def wq_view tcp_upd_def)
  then show ?thesis by (rule socks.inv_frame [OF inv]) (rule sq | simp add: tcp_upd_def mem_view)+
qed

lemma tcp_upd_fields [simp]:
  "tables_ok (tcp_upd i f s) = tables_ok s" "nic_ok (tcp_upd i f s) = nic_ok s" "avail (tcp_upd i f s) = avail s"
  "live (tcp_upd i f s) = live s" "tick (tcp_upd i f s) = tick s" "txdatas (tcp_upd i f s) = txdatas s"
  "pktbufs (tcp_upd i f s) = pktbufs s" "mem8 (tcp_upd i f s) = mem8 s" "netdev (tcp_upd i f s) = netdev s"
  "rxdatas (tcp_upd i f s) = rxdatas s" "links (tcp_upd i f s) = links s" "mem_inv (tcp_upd i f s) = mem_inv s"
  by (simp_all add: tcp_upd_def tables_ok_def nic_ok_def mem_view)

lemma log_fields:
  "tables_ok (printstr_log m s) = tables_ok s" "nic_ok (printstr_log m s) = nic_ok s" "avail (printstr_log m s) = avail s"
  "live (printstr_log m s) = live s" "txdatas (printstr_log m s) = txdatas s" "tcp_sockets (printstr_log m s) = tcp_sockets s"
  "pktbufs (printstr_log m s) = pktbufs s" "mem8 (printstr_log m s) = mem8 s" "rxdatas (printstr_log m s) = rxdatas s"
  by (subst printstr_log_eq, simp add: tables_ok_def nic_ok_def mem_view)+

lemma log_inv:
  assumes inv: "sock_inv sockqs squeue s ts ws Q"
  shows "sock_inv sockqs squeue (printstr_log m s) ts ws Q"
proof (rule socks.inv_frame [OF inv])
  show "wq_inv (printstr_log m s) ts ws" using inv by (subst printstr_log_eq) (simp add: sock_inv_def wq_view)
  show "squeue q (printstr_log m s) = squeue q s" for q
    by (rule socks.get_more) (subst printstr_log_eq, simp)
qed (subst printstr_log_eq, simp add: mem_view)+

section \<open>Data on a connection\<close>

lemma handle_ack_none:
  assumes "sock_inv sockqs squeue s ts ws Q" and "i < TCP_SOCKET_COUNT" and "Q (TcpTx i) = []"
  shows "handle_ack i ackn s = Inr s"
proof -
  have "TcpTx i \<in> sockqs" using assms(2) by simp
  then have "wf_list (links s) (squeue (TcpTx i) s) []" using assms(1,3) queues_okD(1) unfolding sock_inv_def by metis
  from list_head_wf [OF this] show ?thesis by (simp add: handle_ack_def)
qed

lemma new_rx_inv:
  assumes inv: "sock_inv sockqs squeue s ts ws Q" and av: "2 \<le> avail s" and fits: "mem_fits cap"
    and len: "unat len \<le> 1048528" and src: "in_block s src (unat len)"
  shows "\<exists>rx s'. new_rx_data src len cap s = Inr (rx, s') \<and> sock_inv sockqs squeue s' ts ws Q \<and> rx \<in> live s' \<and>
           rx \<notin> wq_blocks s' ts ws \<and> (\<forall>q \<in> sockqs. rx \<notin> set (Q q)) \<and> avail s' = avail s - 2 \<and> blocks_kept s s' \<and> rx_ok s' rx \<and>
           pending s' rx = bytes_at (mem8 s) src (unat len) \<and> sock_state.more s' = sock_state.more s"
proof -
  have w: "wq_inv s ts ws" and qok: "queues_ok sockqs (\<lambda>q. squeue q s) (links s) (live s - wq_blocks s ts ws) Q"
    using inv by (simp_all add: sock_inv_def)
  from new_rx_data_ok [OF w av fits len src] obtain rx d s' where
    s': "new_rx_data src len cap s = Inr (rx, s')" "wq_inv s' ts ws" "{rx, d} \<inter> live s = {}"
      "live s' = {rx, d} \<union> live s" "avail s' = avail s - 2" "blocks_kept s s'" "rx_ok s' rx"
      "pending s' rx = bytes_at (mem8 s) src (unat len)" "links s' = links s" "timers s' = timers s"
      "sock_state.more s' = sock_state.more s" by blast
  have "sock_inv sockqs squeue s' ts ws Q"
    by (rule socks.inv_frame [OF inv s'(2,9,10)]) (use s'(4) socks.get_more [OF s'(11)] in auto)
  moreover have "set (ts @ ws @ parked (timers s) ts) \<subseteq> live s" using w by (auto simp: wq_inv_def timer_inv_def)
  then have "rx \<notin> wq_blocks s' ts ws" using s'(3) by (auto simp: wq_blocks_def s'(10))
  moreover have "\<forall>q \<in> sockqs. rx \<notin> set (Q q)" using queues_okD(2) [OF qok] s'(3) by blast
  ultimately show ?thesis using s' by blast
qed

lemma more_tcp: "sock_state.more s' = sock_state.more s \<Longrightarrow> tcp_sockets s' = tcp_sockets s \<and> tables_ok s' = tables_ok s"
  by (cases s; cases s') (simp add: tables_ok_def)

lemma tcp_queue_rx_ok:
  assumes inv: "sock_inv sockqs squeue s ts ws Q" and k: "tables_ok s" and i: "i < TCP_SOCKET_COUNT"
    and rx: "rx \<in> live s" "rx \<notin> wq_blocks s ts ws" "\<forall>q \<in> sockqs. rx \<notin> set (Q q)"
  shows "\<exists>l nx. tcp_queue_rx i rx g s = Inr (tcp_upd i (\<lambda>k. k\<lparr>ts_rx_data_list := l, ts_ack_num := sg_seq g + sg_len g\<rparr>) (s\<lparr>links := nx\<rparr>)) \<and>
           sock_inv sockqs squeue (tcp_upd i (\<lambda>k. k\<lparr>ts_rx_data_list := l, ts_ack_num := sg_seq g + sg_len g\<rparr>) (s\<lparr>links := nx\<rparr>)) ts ws
             (Q(TcpRx i := Q (TcpRx i) @ [rx]))"
proof -
  have q: "TcpRx i \<in> sockqs" using i by simp
  have il: "i < length (tcp_sockets s)" using k i by (simp add: tables_ok_def)
  from socks.enqueue [OF inv k q rx(1,2)] rx(3) obtain l nx where
    l: "list_pushback (squeue (TcpRx i) s) rx (links s) = Inr (l, nx)"
      "sock_inv sockqs squeue (set_squeue (TcpRx i) l (s\<lparr>links := nx\<rparr>)) ts ws (Q(TcpRx i := Q (TcpRx i) @ [rx]))" by blast
  let ?f = "\<lambda>k. k\<lparr>ts_ack_num := sg_seq g + sg_len g\<rparr>"
  have "sock_inv sockqs squeue (tcp_upd i ?f (set_squeue (TcpRx i) l (s\<lparr>links := nx\<rparr>))) ts ws (Q(TcpRx i := Q (TcpRx i) @ [rx]))"
    by (rule sock_upd_inv [OF l(2)]) simp_all
  moreover have "tcp_upd i ?f (set_squeue (TcpRx i) l (s\<lparr>links := nx\<rparr>)) =
      tcp_upd i (\<lambda>k. k\<lparr>ts_rx_data_list := l, ts_ack_num := sg_seq g + sg_len g\<rparr>) (s\<lparr>links := nx\<rparr>)"
    using il by (simp add: tcp_upd_def)
  ultimately show ?thesis using l(1) by (simp add: tcp_queue_rx_def) blast
qed

definition tcp_got :: "nat \<Rightarrow> segment \<Rightarrow> u8 list \<Rightarrow> 'a tcp_state_scheme \<Rightarrow> addr list \<Rightarrow> addr list \<Rightarrow> (sockq \<Rightarrow> addr list) \<Rightarrow> 'a tcp_state_scheme \<Rightarrow> bool" where
  "tcp_got i g data s ts ws Q s' =
     (\<exists>rx l. sock_inv sockqs squeue s' ts ws (Q(TcpRx i := Q (TcpRx i) @ [rx])) \<and> rx_ok s' rx \<and> pending s' rx = data \<and>
        (\<forall>y. rx_ok s y \<longrightarrow> pending s' y = pending s y) \<and>
        tcp_sockets s' = (tcp_sockets s)[i := (tcp_sockets s ! i)\<lparr>ts_rx_data_list := l, ts_ack_num := sg_seq g + sg_len g\<rparr>])"

lemma adv_buf_fields:
  "mem8 (adv_buf pkt a s) = mem8 s" "live (adv_buf pkt a s) = live s" "avail (adv_buf pkt a s) = avail s"
  "tcp_sockets (adv_buf pkt a s) = tcp_sockets s" "tables_ok (adv_buf pkt a s) = tables_ok s" "rxdatas (adv_buf pkt a s) = rxdatas s"
  "nic_ok (adv_buf pkt a s) = nic_ok s" "pb_buf (pktbufs (adv_buf pkt a s) pkt) = pb_buf (pktbufs s pkt) + a"
  by (simp_all add: adv_buf_def set_buf_def mem_view tables_ok_def nic_ok_def)

lemma adv_buf_inv:
  assumes inv: "sock_inv sockqs squeue s ts ws Q"
  shows "sock_inv sockqs squeue (adv_buf pkt a s) ts ws Q"
proof (rule socks.inv_frame [OF inv])
  show "wq_inv (adv_buf pkt a s) ts ws" using inv by (simp add: sock_inv_def wq_view adv_buf_def set_buf_def)
  show "squeue q (adv_buf pkt a s) = squeue q s" for q by (rule socks.get_more) (simp add: adv_buf_def set_buf_def)
qed (simp_all add: adv_buf_def set_buf_def mem_view)

lemma send_ack_ok:
  assumes inv: "sock_inv sockqs squeue s ts ws Q" and k: "tables_ok s" and nic: "nic_ok s" and i: "i < TCP_SOCKET_COUNT"
    and av: "4 \<le> avail s"
  shows "\<exists>s'. send_ack i flags False s = Inr s' \<and> sock_inv sockqs squeue s' ts ws Q \<and> tcp_sockets s' = tcp_sockets s \<and>
           avail s' = avail s \<and> nic_ok s' \<and> tables_ok s'"
proof -
  have "tx_ready 4 s" using inv nic av by (auto simp: tx_ready_def sock_inv_def dest: wq_inv_mem)
  from tcp_send_plain [OF this k i, of 0 "ts_dip (tcp_sockets s ! i)" "ts_dport (tcp_sockets s ! i)" 0 flags] obtain s' where
    s': "send_ack i flags False s = Inr s'" "net_same s s'" by (auto simp: send_ack_def Let_def)
  then show ?thesis using net_same_inv [OF inv s'(2)] net_same_sock [OF s'(2)] k
    by (intro exI [of _ s']) (simp add: net_same_def)
qed

text \<open>The copy of a segment's payload that the \<open>ESTABLISHED\<close> case makes first.\<close>

lemma established_copy:
  assumes inv: "sock_inv sockqs squeue s ts ws Q" and k: "tables_ok s" and nic: "nic_ok s" and av: "6 \<le> avail s"
    and a: "a = pb_buf (pktbufs s pkt) + h" and n: "n < 65536" and blk: "in_block s a n"
  shows "\<exists>rx s1. new_rx_data (pb_buf (pktbufs (adv_buf pkt h s) pkt)) (of_nat n) (of_nat n) (adv_buf pkt h s) = Inr (rx, s1) \<and>
           sock_inv sockqs squeue s1 ts ws Q \<and> rx \<in> live s1 \<and> rx \<notin> wq_blocks s1 ts ws \<and> (\<forall>q \<in> sockqs. rx \<notin> set (Q q)) \<and>
           avail s1 = avail s - 2 \<and> blocks_kept (adv_buf pkt h s) s1 \<and> rx_ok s1 rx \<and> pending s1 rx = bytes_at (mem8 s) a n \<and>
           tcp_sockets s1 = tcp_sockets s \<and> tables_ok s1 \<and> nic_ok s1"
proof -
  let ?s0 = "adv_buf pkt h s"
  have un: "unat (of_nat n :: u32) = n" using n by (simp add: unat_of_nat32)
  have fits: "mem_fits (of_nat n)"
    using n by (simp add: mem_fits_def MEM_GRANULARITY_def word_le_nat_alt unsigned_ucast_eq unat_of_nat32 take_bit_nat_eq_self)
  have at: "pb_buf (pktbufs ?s0 pkt) = a" by (simp add: adv_buf_fields a)
  have pre: "2 \<le> avail ?s0" "unat (of_nat n :: u32) \<le> 1048528" "in_block ?s0 a (unat (of_nat n :: u32))"
    using av n blk by (simp_all add: adv_buf_fields un in_block_def)
  from new_rx_inv [OF adv_buf_inv [OF inv] pre(1) fits pre(2,3)] obtain rx s1 where
    s1: "new_rx_data a (of_nat n) (of_nat n) ?s0 = Inr (rx, s1)" "sock_inv sockqs squeue s1 ts ws Q" "rx \<in> live s1"
      "rx \<notin> wq_blocks s1 ts ws" "\<forall>q \<in> sockqs. rx \<notin> set (Q q)" "avail s1 = avail s - 2" "blocks_kept ?s0 s1" "rx_ok s1 rx"
      "pending s1 rx = bytes_at (mem8 s) a n" "sock_state.more s1 = sock_state.more ?s0"
    unfolding adv_buf_fields un by blast
  have "tcp_sockets s1 = tcp_sockets s" "tables_ok s1" using more_tcp [OF s1(10)] k by (simp_all add: adv_buf_fields)
  moreover have "nic_ok s1" using s1(7) nic by (simp add: blocks_kept_def nic_ok_def adv_buf_def set_buf_def)
  ultimately show ?thesis using s1 unfolding at by blast
qed

text \<open>Queueing the copy and waking the reader.\<close>

lemma established_queue:
  assumes inv: "sock_inv sockqs squeue s1 ts ws Q" and k: "tables_ok s1" and nic: "nic_ok s1" and i: "i < TCP_SOCKET_COUNT"
    and rx: "rx \<in> live s1" "rx \<notin> wq_blocks s1 ts ws" "\<forall>q \<in> sockqs. rx \<notin> set (Q q)"
  shows "\<exists>l s2 s3. tcp_queue_rx i rx g s1 = Inr s2 \<and> task_wakeup (TcpSock i) s2 = Inr s3 \<and>
           sock_inv sockqs squeue s3 ts ws (Q(TcpRx i := Q (TcpRx i) @ [rx])) \<and> rxdatas s3 = rxdatas s1 \<and> mem8 s3 = mem8 s1 \<and>
           live s3 = live s1 \<and> avail s3 = avail s1 \<and> nic_ok s3 \<and> tables_ok s3 \<and>
           tcp_sockets s3 = (tcp_sockets s1)[i := (tcp_sockets s1 ! i)\<lparr>ts_rx_data_list := l, ts_ack_num := sg_seq g + sg_len g\<rparr>]"
proof -
  let ?f = "\<lambda>l k. k\<lparr>ts_rx_data_list := l, ts_ack_num := sg_seq g + sg_len g\<rparr>"
  from tcp_queue_rx_ok [OF inv k i rx, of g] obtain l nx where
    s2: "tcp_queue_rx i rx g s1 = Inr (tcp_upd i (?f l) (s1\<lparr>links := nx\<rparr>))"
      "sock_inv sockqs squeue (tcp_upd i (?f l) (s1\<lparr>links := nx\<rparr>)) ts ws (Q(TcpRx i := Q (TcpRx i) @ [rx]))" by blast
  let ?s2 = "tcp_upd i (?f l) (s1\<lparr>links := nx\<rparr>)"
  from socks.inv_wakeup [OF s2(2), of "TcpSock i"] obtain s3 where
    s3: "task_wakeup (TcpSock i) ?s2 = Inr s3" "sock_inv sockqs squeue s3 ts ws (Q(TcpRx i := Q (TcpRx i) @ [rx]))"
      "task_rest ?s2 s3" by blast
  from s3(3) obtain c tnx where e3: "s3 = ?s2\<lparr>taskctl := c, task_links := tnx\<rparr>" by (auto simp: task_rest_def)
  show ?thesis using s2(1) s3(1,2) nic k
    by (intro exI [of _ l] exI [of _ ?s2] exI [of _ s3])
      (simp add: e3 mem_view nic_ok_def tables_ok_def, simp add: tcp_upd_def)
qed

text \<open>A segment with \<open>n\<close> bytes of payload at \<open>a\<close> on an established connection: the handler copies it into new blocks.\<close>

lemma established_step:
  fixes s :: "'a tcp_state_scheme" and pkt :: addr
  assumes inv: "sock_inv sockqs squeue s ts ws Q" and k: "tables_ok s" and nic: "nic_ok s" and i: "i < TCP_SOCKET_COUNT"
    and av: "6 \<le> avail s" and st: "ts_state (tcp_sockets s ! i) = ESTABLISHED"
  defines "g \<equiv> read_segment pkt s" and "a \<equiv> pb_buf (pktbufs s pkt) + ucast (sg_hlen (read_segment pkt s))"
  assumes n: "sg_len g = of_nat n" "0 < n" "n < 65536" and blk: "in_block s a n"
  defines "s0 \<equiv> adv_buf pkt (ucast (sg_hlen g)) s"
  shows "tcp_recv_pkt i pkt s = recv_established i g pkt s" "0 < sg_len g"
    "\<exists>rx s1. new_rx_data (pb_buf (pktbufs s0 pkt)) (sg_len g) (sg_len g) s0 = Inr (rx, s1) \<and> sock_inv sockqs squeue s1 ts ws Q \<and>
       rx \<in> live s1 \<and> rx \<notin> wq_blocks s1 ts ws \<and> (\<forall>q \<in> sockqs. rx \<notin> set (Q q)) \<and> avail s1 = avail s - 2 \<and> 4 \<le> avail s1 \<and>
       blocks_kept s0 s1 \<and> rx_ok s1 rx \<and> pending s1 rx = bytes_at (mem8 s) a n \<and> tcp_sockets s1 = tcp_sockets s \<and> tables_ok s1 \<and> nic_ok s1"
proof -
  have "i < length (tcp_sockets s)" using k i by (simp add: tables_ok_def)
  with st show "tcp_recv_pkt i pkt s = recv_established i g pkt s" by (simp add: tcp_recv_pkt_def Let_def arr_get_def g_def)
  show "0 < sg_len g" using n by (simp add: unat_of_nat32 word_less_nat_alt)
  from established_copy [OF inv k nic av _ n(3) blk, of pkt "ucast (sg_hlen g)"] av
  show "\<exists>rx s1. new_rx_data (pb_buf (pktbufs s0 pkt)) (sg_len g) (sg_len g) s0 = Inr (rx, s1) \<and> sock_inv sockqs squeue s1 ts ws Q \<and>
       rx \<in> live s1 \<and> rx \<notin> wq_blocks s1 ts ws \<and> (\<forall>q \<in> sockqs. rx \<notin> set (Q q)) \<and> avail s1 = avail s - 2 \<and> 4 \<le> avail s1 \<and>
       blocks_kept s0 s1 \<and> rx_ok s1 rx \<and> pending s1 rx = bytes_at (mem8 s) a n \<and> tcp_sockets s1 = tcp_sockets s \<and> tables_ok s1 \<and> nic_ok s1"
    by (force simp: a_def g_def s0_def n(1) [unfolded g_def])
qed

lemma established_lost:
  fixes s :: "'a tcp_state_scheme" and pkt :: addr
  assumes inv: "sock_inv sockqs squeue s ts ws Q" and k: "tables_ok s" and nic: "nic_ok s" and i: "i < TCP_SOCKET_COUNT"
    and av: "6 \<le> avail s" and st: "ts_state (tcp_sockets s ! i) = ESTABLISHED"
  defines "g \<equiv> read_segment pkt s" and "a \<equiv> pb_buf (pktbufs s pkt) + ucast (sg_hlen (read_segment pkt s))"
  assumes n: "sg_len g = of_nat n" "0 < n" "n < 65536" and blk: "in_block s a n" and neq: "ts_ack_num (tcp_sockets s ! i) \<noteq> sg_seq g"
  shows "\<exists>s1 s'. tcp_recv_pkt i pkt s = send_ack i TCP_FLAGS_ACK False s1 \<and> tcp_sockets s1 = tcp_sockets s \<and>
           send_ack i TCP_FLAGS_ACK False s1 = Inr s' \<and> tcp_sockets s' = tcp_sockets s \<and>
           sock_inv sockqs squeue s' ts ws Q \<and> avail s' = avail s - 2"
proof -
  note step = established_step [OF inv k nic i av st n [unfolded g_def] blk [unfolded a_def], folded g_def]
  from step(3) obtain rx s1 where
    s1: "new_rx_data (pb_buf (pktbufs (adv_buf pkt (ucast (sg_hlen g)) s) pkt)) (sg_len g) (sg_len g) (adv_buf pkt (ucast (sg_hlen g)) s) = Inr (rx, s1)"
      "sock_inv sockqs squeue s1 ts ws Q" "avail s1 = avail s - 2" "4 \<le> avail s1" "tcp_sockets s1 = tcp_sockets s" "tables_ok s1" "nic_ok s1" by blast
  let ?s2 = "printstr_log (''PKT LOSS'' @ nl) s1"
  have f2: "tables_ok ?s2" "nic_ok ?s2" "4 \<le> avail ?s2" using s1(4,6,7) by (simp_all only: log_fields)
  have "tcp_recv_pkt i pkt s = send_ack i TCP_FLAGS_ACK False ?s2"
    unfolding step(1) recv_established_def Let_def using step(2) s1(1) neq s1(5) by (simp del: append_Cons)
  moreover from send_ack_ok [OF log_inv [OF s1(2)] f2(1,2) i f2(3), of TCP_FLAGS_ACK] obtain s' where
    "send_ack i TCP_FLAGS_ACK False ?s2 = Inr s'" "sock_inv sockqs squeue s' ts ws Q" "tcp_sockets s' = tcp_sockets ?s2"
    "avail s' = avail ?s2" by blast
  ultimately show ?thesis using s1(3,5) by (intro exI [of _ ?s2] exI [of _ s']) (simp add: log_fields del: append_Cons)
qed

lemma established_wakes:
  assumes "new_rx_data src len cap (adv_buf pkt h s) = Inr (rx, s1)" and "tcp_queue_rx i rx g s1 = Inr s2"
    and "task_wakeup c s2 = Inr s3"
  shows "readers_woken c s s3"
proof -
  have "taskctl s1 = taskctl s" using new_rx_data_taskctl [OF assms(1)] by (simp add: adv_buf_def set_buf_def)
  moreover have "taskctl s2 = taskctl s1" using assms(2) by (auto simp: tcp_queue_rx_def tcp_upd_def)
  ultimately have "none_slept s s2" by (intro none_slept_same) simp
  from woken_earlier [OF this task_wakeup_wakes_all(2) [OF assms(3)]] show ?thesis .
qed

lemma established_taken:
  fixes s :: "'a tcp_state_scheme" and pkt :: addr
  assumes inv: "sock_inv sockqs squeue s ts ws Q" and k: "tables_ok s" and nic: "nic_ok s" and i: "i < TCP_SOCKET_COUNT"
    and av: "6 \<le> avail s" and st: "ts_state (tcp_sockets s ! i) = ESTABLISHED"
  defines "g \<equiv> read_segment pkt s" and "a \<equiv> pb_buf (pktbufs s pkt) + ucast (sg_hlen (read_segment pkt s))"
  assumes n: "sg_len g = of_nat n" "0 < n" "n < 65536" and blk: "in_block s a n"
    and eq: "ts_ack_num (tcp_sockets s ! i) = sg_seq g"
  shows "\<exists>s1. tcp_recv_pkt i pkt s = established_tail i g s1 \<and> tcp_got i g (bytes_at (mem8 s) a n) s ts ws Q s1 \<and>
           readers_woken (TcpSock i) s s1 \<and> tables_ok s1 \<and> nic_ok s1 \<and> 4 \<le> avail s1 \<and> avail s1 = avail s - 2"
proof -
  note step = established_step [OF inv k nic i av st n [unfolded g_def] blk [unfolded a_def], folded g_def a_def]
  let ?s0 = "adv_buf pkt (ucast (sg_hlen g)) s"
  from step(3) obtain rx s1 where
    s1: "new_rx_data (pb_buf (pktbufs ?s0 pkt)) (sg_len g) (sg_len g) ?s0 = Inr (rx, s1)"
      "sock_inv sockqs squeue s1 ts ws Q" "rx \<in> live s1" "rx \<notin> wq_blocks s1 ts ws" "\<forall>q \<in> sockqs. rx \<notin> set (Q q)" "avail s1 = avail s - 2"
      "4 \<le> avail s1" "blocks_kept ?s0 s1" "rx_ok s1 rx" "pending s1 rx = bytes_at (mem8 s) a n" "tcp_sockets s1 = tcp_sockets s" "tables_ok s1" "nic_ok s1"
    unfolding a_def g_def by blast
  from established_queue [OF s1(2,12,13) i s1(3,4,5), of g] obtain l s2 s3 where
    s3: "tcp_queue_rx i rx g s1 = Inr s2" "task_wakeup (TcpSock i) s2 = Inr s3"
      "sock_inv sockqs squeue s3 ts ws (Q(TcpRx i := Q (TcpRx i) @ [rx]))"
    and f3: "rxdatas s3 = rxdatas s1" "mem8 s3 = mem8 s1" "live s3 = live s1" "avail s3 = avail s1" "nic_ok s3" "tables_ok s3"
      "tcp_sockets s3 = (tcp_sockets s1)[i := (tcp_sockets s1 ! i)\<lparr>ts_rx_data_list := l, ts_ack_num := sg_seq g + sg_len g\<rparr>]"
    by blast
  have "tcp_recv_pkt i pkt s = established_tail i g s3"
    unfolding step(1) recv_established_def Let_def using step(2) s1(1,11) eq s3(1,2) by simp
  moreover have "pending s3 y = pending s y" if "rx_ok s y" for y
    using pending_kept(1) [OF s1(8), of y] that by (simp add: pending_def rx_ok_def f3 adv_buf_fields)
  then have "tcp_got i g (bytes_at (mem8 s) a n) s ts ws Q s3"
    using s3(3) f3(7) s1(9,10,11) by (auto simp: tcp_got_def rx_ok_def pending_def f3)
  moreover have "readers_woken (TcpSock i) s s3" by (rule established_wakes [OF s1(1) s3(1,2)])
  ultimately show ?thesis using s1(6,7) f3(4,5,6) by (intro exI [of _ s3]) simp
qed

text \<open>A segment that does not carry FIN is acknowledged when it brought data, after its own acknowledgement has been handled.\<close>

lemma tail_answer:
  assumes "\<not> has_flag TCP_FLAGS_FIN g" and "0 < sg_len g"
  shows "established_tail i g s =
     bindr (if has_flag TCP_FLAGS_ACK g then handle_ack i (sg_ack g) s else Inr s) (send_ack i TCP_FLAGS_ACK False)"
  using assms by (simp add: established_tail_def)

lemma tail_none:
  assumes inv: "sock_inv sockqs squeue s ts ws Q" and k: "tables_ok s" "nic_ok s" "i < TCP_SOCKET_COUNT" "4 \<le> avail s" and Q: "Q (TcpTx i) = []"
    and g: "\<not> has_flag TCP_FLAGS_FIN g" "0 < sg_len g"
  shows "\<exists>s'. established_tail i g s = send_ack i TCP_FLAGS_ACK False s \<and> send_ack i TCP_FLAGS_ACK False s = Inr s' \<and>
           tcp_sockets s' = tcp_sockets s \<and> avail s' = avail s"
  using send_ack_ok [OF inv k, of TCP_FLAGS_ACK] handle_ack_none [OF inv k(3) Q, of "sg_ack g"] by (force simp: tail_answer [OF g])

text \<open>
  C9: on an established connection data is taken in order and nothing else is. A segment without FIN whose
  \<open>n\<close> bytes of payload carry the next expected sequence number is appended to the receive queue, the expected
  number moves behind it and the readers wake; then the acknowledgement it carries is handled and the new number
  is acknowledged. A payload with any other number leaves queue, numbers and state as they were, the
  acknowledgement it carries is not looked at, the expected number is acknowledged again, and the two blocks of
  its copy are not returned. A segment without payload is not acknowledged: only the acknowledgement it carries
  is handled. When no packet of the socket waits for an acknowledgement the handler returns in each of the cases.
\<close>

theorem tcp_data_in_order:
  fixes s :: "'a tcp_state_scheme" and pkt :: addr
  assumes inv: "sock_inv sockqs squeue s ts ws Q" and k: "tables_ok s" and nic: "nic_ok s" and i: "i < 10" and av: "6 \<le> avail s"
    and st: "ts_state (tcp_sockets s ! i) = ESTABLISHED"
  defines "g \<equiv> read_segment pkt s" and "a \<equiv> pb_buf (pktbufs s pkt) + ucast (sg_hlen (read_segment pkt s))"
  assumes n: "sg_len g = of_nat n" "n < 65536" and blk: "in_block s a n" and fin: "\<not> has_flag TCP_FLAGS_FIN g"
  shows "(0 < n \<longrightarrow> ts_ack_num (tcp_sockets s ! i) = sg_seq g \<longrightarrow>
            (\<exists>s1. tcp_got i g (bytes_at (mem8 s) a n) s ts ws Q s1 \<and> readers_woken (TcpSock i) s s1 \<and>
               tcp_recv_pkt i pkt s =
                 bindr (if has_flag TCP_FLAGS_ACK g then handle_ack i (sg_ack g) s1 else Inr s1) (send_ack i TCP_FLAGS_ACK False) \<and>
               (Q (TcpTx i) = [] \<longrightarrow>
                  (\<exists>s'. tcp_recv_pkt i pkt s = send_ack i TCP_FLAGS_ACK False s1 \<and> send_ack i TCP_FLAGS_ACK False s1 = Inr s' \<and>
                     tcp_sockets s' = tcp_sockets s1 \<and> avail s' = avail s - 2)))) \<and>
         (0 < n \<longrightarrow> ts_ack_num (tcp_sockets s ! i) \<noteq> sg_seq g \<longrightarrow>
            (\<exists>s1 s'. tcp_recv_pkt i pkt s = send_ack i TCP_FLAGS_ACK False s1 \<and> tcp_sockets s1 = tcp_sockets s \<and>
               send_ack i TCP_FLAGS_ACK False s1 = Inr s' \<and> tcp_sockets s' = tcp_sockets s \<and>
               sock_inv sockqs squeue s' ts ws Q \<and> avail s' = avail s - 2)) \<and>
         (n = 0 \<longrightarrow>
            tcp_recv_pkt i pkt s =
              (let s1 = adv_buf pkt (ucast (sg_hlen g)) s in if has_flag TCP_FLAGS_ACK g then handle_ack i (sg_ack g) s1 else Inr s1) \<and>
            (Q (TcpTx i) = [] \<longrightarrow> tcp_recv_pkt i pkt s = Inr (adv_buf pkt (ucast (sg_hlen g)) s)))"
proof (intro conjI impI)
  have iC: "i < TCP_SOCKET_COUNT" using i by (simp add: TCP_SOCKET_COUNT_def)
  then have il: "i < length (tcp_sockets s)" using k by (simp add: tables_ok_def)
  {
    assume p: "0 < n" "ts_ack_num (tcp_sockets s ! i) = sg_seq g"
    have pos: "0 < sg_len g" using n p(1) by (simp add: unat_of_nat32 word_less_nat_alt)
    from established_taken [OF inv k nic iC av st n(1) [unfolded g_def] p(1) n(2) blk [unfolded a_def] p(2) [unfolded g_def], folded g_def a_def]
    obtain s1 where s1: "tcp_recv_pkt i pkt s = established_tail i g s1" "tcp_got i g (bytes_at (mem8 s) a n) s ts ws Q s1"
      "readers_woken (TcpSock i) s s1" "tables_ok s1" "nic_ok s1" "4 \<le> avail s1" "avail s1 = avail s - 2" by blast
    have "\<exists>s'. established_tail i g s1 = send_ack i TCP_FLAGS_ACK False s1 \<and> send_ack i TCP_FLAGS_ACK False s1 = Inr s' \<and>
        tcp_sockets s' = tcp_sockets s1 \<and> avail s' = avail s1" if "Q (TcpTx i) = []"
      using s1(2) tail_none [OF _ s1(4,5) iC s1(6) _ fin pos, of ts ws] that by (fastforce simp: tcp_got_def)
    with s1 show "\<exists>s1. tcp_got i g (bytes_at (mem8 s) a n) s ts ws Q s1 \<and> readers_woken (TcpSock i) s s1 \<and>
       tcp_recv_pkt i pkt s =
         bindr (if has_flag TCP_FLAGS_ACK g then handle_ack i (sg_ack g) s1 else Inr s1) (send_ack i TCP_FLAGS_ACK False) \<and>
       (Q (TcpTx i) = [] \<longrightarrow>
          (\<exists>s'. tcp_recv_pkt i pkt s = send_ack i TCP_FLAGS_ACK False s1 \<and> send_ack i TCP_FLAGS_ACK False s1 = Inr s' \<and>
             tcp_sockets s' = tcp_sockets s1 \<and> avail s' = avail s - 2))"
      unfolding tail_answer [OF fin pos, symmetric] by (intro exI [of _ s1]) auto
  next
    assume p: "0 < n" "ts_ack_num (tcp_sockets s ! i) \<noteq> sg_seq g"
    from established_lost [OF inv k nic iC av st n(1) [unfolded g_def] p(1) n(2) blk [unfolded a_def] p(2) [unfolded g_def], folded g_def]
    show "\<exists>s1 s'. tcp_recv_pkt i pkt s = send_ack i TCP_FLAGS_ACK False s1 \<and> tcp_sockets s1 = tcp_sockets s \<and>
       send_ack i TCP_FLAGS_ACK False s1 = Inr s' \<and> tcp_sockets s' = tcp_sockets s \<and> sock_inv sockqs squeue s' ts ws Q \<and> avail s' = avail s - 2" .
  next
    let ?s1 = "adv_buf pkt (ucast (sg_hlen g)) s"
    assume "n = 0"
    then have z: "tcp_recv_pkt i pkt s = (if has_flag TCP_FLAGS_ACK g then handle_ack i (sg_ack g) ?s1 else Inr ?s1)"
      using st il n(1) fin by (simp add: tcp_recv_pkt_def Let_def arr_get_def recv_established_def established_tail_def flip: g_def)
        (cases "handle_ack i (sg_ack g) ?s1"; simp)
    then show "tcp_recv_pkt i pkt s =
        (let s1 = ?s1 in if has_flag TCP_FLAGS_ACK g then handle_ack i (sg_ack g) s1 else Inr s1)" by simp
    assume "Q (TcpTx i) = []"
    with handle_ack_none [OF adv_buf_inv [OF inv] iC] z show "tcp_recv_pkt i pkt s = Inr ?s1" by simp
  }
qed

lemma queues_remove:
  assumes ok: "queues_ok qs l nx B Q" and q: "q \<in> qs" and Q: "Q q = y # z # vs"
  shows "\<exists>c nx'. list_remove (l q) (Some y) nx = (c, nx') \<and> queues_ok qs (l(q := c)) nx' (B - {z}) (Q(q := y # vs)) \<and>
           nx' z = None \<and> (\<forall>w. w \<noteq> y \<longrightarrow> w \<noteq> z \<longrightarrow> nx' w = nx w)"
proof -
  obtain c nx' where c: "list_remove (l q) (Some y) nx = (c, nx')" by fastforce
  have wf: "wf_list nx (l q) ([] @ y # z # vs)" using queues_okD(1) [OF ok q] Q by simp
  note r = list_remove_wf [OF wf c, simplified]
  have yz: "y \<noteq> z" "z \<notin> set vs" using wf_list_distinct [OF wf] by auto
  have other: "y \<notin> set (Q p)" "z \<notin> set (Q p)" if "p \<in> qs" "p \<noteq> q" for p
    using queues_okD(3) [OF ok that(1) q] that Q by fastforce+
  have sub: "set ((Q(q := y # vs)) p) \<subseteq> set (Q p)" for p using Q by auto
  have "queues_ok qs (l(q := c)) nx' (B - {z}) (Q(q := y # vs))"
  proof (rule queues_okI)
    fix p assume p: "p \<in> qs"
    have "wf_list nx' (l p) (Q p)" if "p \<noteq> q"
      by (rule wf_list_frame [OF queues_okD(1) [OF ok p]]) (use r other [OF p that] in metis)
    then show "wf_list nx' ((l(q := c)) p) ((Q(q := y # vs)) p)" using r by simp
    fix x assume "x \<in> set ((Q(q := y # vs)) p)"
    then show "x \<in> B - {z}" using queues_okD(2) [OF ok p] sub [of p] yz other [OF p] by (auto split: if_splits)
  next
    fix p r x assume "p \<in> qs" "r \<in> qs" "p \<noteq> r" "x \<in> set ((Q(q := y # vs)) p)"
    then show "x \<notin> set ((Q(q := y # vs)) r)" using queues_okD(3) [OF ok] sub by blast
  qed
  with c r show ?thesis by blast
qed

context socket_queues
begin

lemma remove_second:
  assumes inv: "sock_inv qs get s ts ws Q" and k: "ok s" and q: "q \<in> qs" and Q: "Q q = y # z # vs"
  shows "\<exists>l nx. list_remove (get q s) (Some y) (links s) = (l, nx) \<and> nx z = None \<and>
           sock_inv qs get (put q l (s\<lparr>links := nx\<rparr>)) ts ws (Q(q := y # vs))"
proof -
  let ?B = "live s - wq_blocks s ts ws"
  have w: "wq_inv s ts ws" and qok: "queues_ok qs (\<lambda>q. get q s) (links s) ?B Q" using inv by (simp_all add: sock_inv_def)
  have yz: "y \<in> ?B" "z \<in> ?B" using queues_okD(2) [OF qok q] Q by auto
  from queues_remove [OF qok q Q] obtain l nx where
    l: "list_remove (get q s) (Some y) (links s) = (l, nx)" "nx z = None"
      "queues_ok qs ((\<lambda>q. get q s)(q := l)) nx (?B - {z}) (Q(q := y # vs))" "\<And>w. w \<noteq> y \<Longrightarrow> w \<noteq> z \<Longrightarrow> nx w = links s w" by auto
  let ?s1 = "s\<lparr>links := nx\<rparr>"
  have k1: "ok ?s1" using k by (subst ok_more [of _ s]) simp_all
  have g: "get p (put q l ?s1) = ((\<lambda>q. get q s)(q := l)) p" if "p \<in> qs" for p
    using get_put [OF k1 that q, of l] get_more [of ?s1 s p] by simp
  have "wq_inv ?s1 ts ws" by (rule wq_links [OF w], rule l(4)) (use yz in auto)
  moreover have "queues_ok qs (\<lambda>p. get p (put q l ?s1)) nx ?B (Q(q := y # vs))"
    by (rule queues_ok_frame [OF l(3)]) (use g queues_okD(2) [OF l(3)] in auto)
  ultimately have "sock_inv qs get (put q l ?s1) ts ws (Q(q := y # vs))"
    by (simp add: sock_inv_def put_fields wq_blocks_def) (simp add: mem_view)
  with l(1,2) show ?thesis by blast
qed

text \<open>Taking an item off the work queue, up to the release of its block.\<close>

lemma inv_pop:
  assumes inv: "sock_inv qs get s ts (w # ws) Q"
  shows "\<exists>s1 l nx. wq_execute call s = bindr (call (wt_func (works s w)) (wt_arg (works s w)) s1) (mem_free w) \<and>
           sock_inv qs get s1 ts ws Q \<and> w \<in> live s1 \<and> w \<notin> wq_blocks s1 ts ws \<and> (\<forall>q \<in> qs. w \<notin> set (Q q)) \<and> s1 = s\<lparr>wq := l, links := nx\<rparr>"
proof -
  have w: "wq_inv s ts (w # ws)" and qok: "queues_ok qs (\<lambda>q. get q s) (links s) (live s - wq_blocks s ts (w # ws)) Q"
    using inv by (simp_all add: sock_inv_def)
  from wq_execute_pop [OF w, of call] obtain s1 l nx where
    s1: "wq_execute call s = bindr (call (wt_func (works s w)) (wt_arg (works s w)) s1) (mem_free w)" "wq_inv s1 ts ws" "w \<in> live s1"
      "w \<notin> set (ts @ ws @ parked (timers s1) ts)" and e: "s1 = s\<lparr>wq := l, links := nx\<rparr>" and nx: "\<forall>x. x \<noteq> w \<longrightarrow> nx x = links s x" by blast
  have out: "x \<in> live s \<and> x \<notin> wq_blocks s ts (w # ws)" if "q \<in> qs" "x \<in> set (Q q)" for q x using queues_okD(2) [OF qok that(1)] that(2) by blast
  have wb: "wq_blocks s ts (w # ws) = insert w (wq_blocks s1 ts ws)" "live s1 = live s" by (auto simp: wq_blocks_def e mem_view)
  have "queues_ok qs (\<lambda>q. get q s1) (links s1) (live s1 - wq_blocks s1 ts ws) Q"
    by (rule queues_ok_frame [OF qok]) (use out nx wb get_more [of s1 s] in \<open>auto simp: e\<close>)
  then have "sock_inv qs get s1 ts ws Q" using s1(2) by (simp add: sock_inv_def)
  moreover have "w \<notin> wq_blocks s1 ts ws" "\<forall>q \<in> qs. w \<notin> set (Q q)" using s1(4) out by (auto simp: wq_blocks_def)
  ultimately show ?thesis using s1(1,3) e by blast
qed

lemma inv_free:
  assumes inv: "sock_inv qs get s ts ws Q" and x: "x \<in> live s" "x \<notin> wq_blocks s ts ws" "\<And>q. q \<in> qs \<Longrightarrow> x \<notin> set (Q q)"
  shows "\<exists>s'. mem_free x s = Inr s' \<and> sock_inv qs get s' ts ws Q \<and> live s' = live s - {x} \<and> avail s' = avail s + 1 \<and> mem_rest s s'"
proof -
  have w: "wq_inv s ts ws" and qok: "queues_ok qs (\<lambda>q. get q s) (links s) (live s - wq_blocks s ts ws) Q"
    using inv by (simp_all add: sock_inv_def)
  obtain s' where s': "mem_free x s = Inr s'" "wq_inv s' ts ws" "live s' = live s - {x}" "mem_rest s s'"
    using wq_inv_free [OF w x(1)] x(2) by (auto simp: wq_blocks_def)
  have "avail s' = avail s + 1" using s'(1) kmem.freeE [OF wq_inv_mem [OF w] x(1)] by (metis Inr_inject)
  moreover have more: "sock_state.more s' = sock_state.more s" "links s' = links s" "timers s' = timers s"
    using s'(4) by (auto simp: mem_rest_def)
  have "queues_ok qs (\<lambda>q. get q s') (links s') (live s' - wq_blocks s' ts ws) Q"
    by (rule queues_ok_frame [OF qok])
      (use queues_okD(2) [OF qok] x(3) s'(3) more get_more [OF more(1)] in \<open>auto simp: wq_blocks_def\<close>)
  ultimately show ?thesis using s' by (auto simp: sock_inv_def)
qed

end

section \<open>Releasing acknowledged packets\<close>

text \<open>The three blocks a kept packet takes: its entry, the packet buffer and the data.\<close>

definition tx_blocks :: "'a tcp_state_scheme \<Rightarrow> addr \<Rightarrow> addr list" where
  "tx_blocks s tx = [tx, tx_txpkt (txdatas s tx), pb_head (pktbufs s (tx_txpkt (txdatas s tx)))]"

definition tx_apart :: "'a tcp_state_scheme \<Rightarrow> addr list \<Rightarrow> addr list \<Rightarrow> (sockq \<Rightarrow> addr list) \<Rightarrow> addr \<Rightarrow> bool" where
  "tx_apart s ts ws Q tx =
     (distinct (tx_blocks s tx) \<and> set (tx_blocks s tx) \<subseteq> live s \<and> set (tx_blocks s tx) \<inter> wq_blocks s ts ws = {} \<and>
      (\<forall>q \<in> sockqs. set (tx_blocks s tx) \<inter> set (Q q) = {}))"

lemma mem_rest_fields:
  assumes "mem_rest s s'"
  shows "links s' = links s" "tcp_sockets s' = tcp_sockets s" "txdatas s' = txdatas s" "pktbufs s' = pktbufs s"
    "timers s' = timers s" "tables_ok s' = tables_ok s"
  using assms by (auto simp: mem_rest_def tables_ok_def)

lemma mem_rest_wq: "mem_rest s s' \<Longrightarrow> wq_blocks s' ts ws = wq_blocks s ts ws"
  by (auto simp: mem_rest_def wq_blocks_def)

lemma free_tx_ok:
  assumes inv: "sock_inv sockqs squeue s ts ws Q" and ap: "tx_apart s ts ws Q tx"
  shows "\<exists>s'. free_tx tx s = Inr s' \<and> sock_inv sockqs squeue s' ts ws Q \<and> live s' = live s - set (tx_blocks s tx) \<and>
           avail s' = avail s + 3 \<and> mem_rest s s'"
proof -
  let ?p = "tx_txpkt (txdatas s tx)"
  let ?b = "pb_head (pktbufs s ?p)"
  have d: "distinct [tx, ?p, ?b]" "{tx, ?p, ?b} \<subseteq> live s" "{tx, ?p, ?b} \<inter> wq_blocks s ts ws = {}"
    "\<And>q. q \<in> sockqs \<Longrightarrow> {tx, ?p, ?b} \<inter> set (Q q) = {}" using ap by (auto simp: tx_apart_def tx_blocks_def)
  have n: "x \<notin> set (Q q)" if "x \<in> {tx, ?p, ?b}" "q \<in> sockqs" for x q using d(4) [OF that(2)] that(1) by blast
  obtain s1 where s1: "mem_free ?b s = Inr s1" "sock_inv sockqs squeue s1 ts ws Q" "live s1 = live s - {?b}" "avail s1 = avail s + 1" "mem_rest s s1"
    using socks.inv_free [OF inv, of ?b] d(2,3) n [of ?b] by auto
  note b1 = mem_rest_wq [OF s1(5), of ts ws]
  have "?p \<in> live s1" "?p \<notin> wq_blocks s1 ts ws" using d(1,2,3) s1(3) b1 by auto
  then obtain s2 where s2: "mem_free ?p s1 = Inr s2" "sock_inv sockqs squeue s2 ts ws Q" "live s2 = live s1 - {?p}" "avail s2 = avail s1 + 1" "mem_rest s1 s2"
    using socks.inv_free [OF s1(2), of ?p] n [of ?p] by auto
  note b2 = mem_rest_wq [OF s2(5), of ts ws, unfolded b1]
  have "tx \<in> live s2" "tx \<notin> wq_blocks s2 ts ws" using d(1,2,3) s1(3) s2(3) b2 by auto
  then obtain s3 where s3: "mem_free tx s2 = Inr s3" "sock_inv sockqs squeue s3 ts ws Q" "live s3 = live s2 - {tx}" "avail s3 = avail s2 + 1" "mem_rest s2 s3"
    using socks.inv_free [OF s2(2), of tx] n [of tx] by auto
  have "free_tx tx s = Inr s3" using s1(1) s2(1) s3(1) by (simp add: free_tx_def free_pkt_def)
  moreover have "mem_rest s s3" by (rule mem_rest_trans [OF mem_rest_trans [OF s1(5) s2(5)] s3(5)])
  ultimately show ?thesis using s1(3,4) s2(3,4) s3(2-4) by (intro exI [of _ s3]) (auto simp: tx_blocks_def)
qed

text \<open>The scan behind the first kept packet stops after the second one, whose link it follows after taking it out.\<close>

lemma ack_scan_second:
  assumes inv: "sock_inv sockqs squeue s ts ws Q" and k: "tables_ok s" and q: "TcpTx i \<in> sockqs"
    and Q: "Q (TcpTx i) = a # b # rest" and acked: "wait_ack_num (txdatas s b) \<le> ackn"
    and ap: "tx_apart s ts ws (Q(TcpTx i := rest)) b" and ab: "a \<notin> set (tx_blocks s b)"
  shows "\<exists>s2. ack_scan i ackn a (Some b) False s = Some (Inr (True, s2)) \<and> sock_inv sockqs squeue s2 ts ws (Q(TcpTx i := a # rest)) \<and>
           live s2 = live s - set (tx_blocks s b) \<and> avail s2 = avail s + 3 \<and> tables_ok s2 \<and> txdatas s2 = txdatas s \<and>
           tx_blocks s2 = tx_blocks s \<and> wq_blocks s2 ts ws = wq_blocks s ts ws"
proof -
  let ?q = "TcpTx i"
  from socks.remove_second [OF inv k q Q] obtain l n1 where
    l: "list_remove (squeue ?q s) (Some a) (links s) = (l, n1)" "n1 b = None"
      "sock_inv sockqs squeue (set_squeue ?q l (s\<lparr>links := n1\<rparr>)) ts ws (Q(?q := a # rest))" by blast
  let ?s1 = "set_squeue ?q l (s\<lparr>links := n1\<rparr>)"
  have b1: "tx_blocks ?s1 = tx_blocks s" "wq_blocks ?s1 ts ws = wq_blocks s ts ws" "live ?s1 = live s" "avail ?s1 = avail s"
    "txdatas ?s1 = txdatas s" "tables_ok ?s1 = tables_ok s"
    by (simp_all add: tx_blocks_def wq_blocks_def tcp_upd_def mem_view tables_ok_def fun_eq_iff)
  have "tx_apart ?s1 ts ws (Q(?q := a # rest)) b" using ap ab unfolding tx_apart_def b1 by (auto split: if_splits)
  from free_tx_ok [OF l(3) this] obtain s2 where
    s2: "free_tx b ?s1 = Inr s2" "sock_inv sockqs squeue s2 ts ws (Q(?q := a # rest))" "live s2 = live s - set (tx_blocks s b)"
      "avail s2 = avail s + 3" "mem_rest ?s1 s2" unfolding b1 by blast
  note f2 = mem_rest_fields [OF s2(5)]
  have "ack_scan i ackn a (Some b) False s = Some (Inr (True, s2))"
    using acked l(1) s2(1) l(2) f2(1)
    by (subst ack_scan.simps) (simp add: ack_scan.simps [of _ _ _ None] list_next_def tcp_upd_def)
  moreover have "tables_ok s2" "txdatas s2 = txdatas s" "tx_blocks s2 = tx_blocks s" "wq_blocks s2 ts ws = wq_blocks s ts ws"
    using k f2 by (simp_all add: tx_blocks_def wq_blocks_def tables_ok_def tcp_upd_def fun_eq_iff [of "tx_blocks s2"])
  ultimately show ?thesis using s2 by blast
qed

text \<open>
  C21: a cumulative acknowledgement releases two packets, however many it covers. When the first two kept packets
  are covered, \<open>handle_ack\<close> releases exactly these two and leaves all the others in the queue, also
  those the same acknowledgement covers: after releasing the second it follows the link of the entry it has
  just taken out, which is empty.
\<close>

theorem ack_releases_two:
  assumes inv: "sock_inv sockqs squeue s ts ws Q" and k: "tables_ok s" and i: "i < 10"
    and Q: "Q (TcpTx i) = a # b # rest" and acked: "wait_ack_num (txdatas s a) \<le> ackn" "wait_ack_num (txdatas s b) \<le> ackn"
    and ap: "tx_apart s ts ws (Q(TcpTx i := rest)) a" "tx_apart s ts ws (Q(TcpTx i := rest)) b"
      "set (tx_blocks s a) \<inter> set (tx_blocks s b) = {}"
  shows "\<exists>s'. handle_ack i ackn s = Inr s' \<and> sock_inv sockqs squeue s' ts ws (Q(TcpTx i := rest)) \<and> avail s' = avail s + 6"
proof -
  let ?q = "TcpTx i"
  have iC: "?q \<in> sockqs" using i by (simp add: TCP_SOCKET_COUNT_def)
  have wf: "wf_list (links s) (squeue ?q s) (a # b # rest)"
    using inv queues_okD(1) [of sockqs "\<lambda>q. squeue q s" "links s" _ Q ?q] iC Q by (auto simp: sock_inv_def)
  have hd: "list_head (ts_tx_data_list (tcp_sockets s ! i)) = Some a" using list_head_wf [OF wf] by simp
  have nx: "list_next a (links s) = Some b" using wf by (auto simp: wf_list_def list_next_def)
  have "a \<notin> set (tx_blocks s b)" using ap(3) by (auto simp: tx_blocks_def)
  from ack_scan_second [OF inv k iC Q acked(2) ap(2) this] obtain s2 where
    scan: "ack_scan i ackn a (Some b) False s = Some (Inr (True, s2))"
    and s2: "sock_inv sockqs squeue s2 ts ws (Q(?q := a # rest))" "live s2 = live s - set (tx_blocks s b)" "avail s2 = avail s + 3"
      "tables_ok s2" "txdatas s2 = txdatas s" "tx_blocks s2 = tx_blocks s" "wq_blocks s2 ts ws = wq_blocks s ts ws" by blast
  from socks.dequeue [OF s2(1,4) iC, of a rest] obtain l2 n2 where
    l2: "list_popfront (squeue ?q s2) (links s2) = Inr (Some a, l2, n2)"
      "sock_inv sockqs squeue (set_squeue ?q l2 (s2\<lparr>links := n2\<rparr>)) ts ws (Q(?q := rest))" by auto
  let ?s3 = "set_squeue ?q l2 (s2\<lparr>links := n2\<rparr>)"
  have b3: "tx_blocks ?s3 = tx_blocks s2" "wq_blocks ?s3 ts ws = wq_blocks s2 ts ws" "live ?s3 = live s2" "avail ?s3 = avail s2"
    by (simp_all add: tx_blocks_def wq_blocks_def tcp_upd_def mem_view fun_eq_iff)
  have "tx_apart ?s3 ts ws (Q(?q := rest)) a" using ap(1,3) unfolding tx_apart_def b3 s2(2,6,7) by auto
  from free_tx_ok [OF l2(2) this] obtain s4 where
    s4: "free_tx a ?s3 = Inr s4" "sock_inv sockqs squeue s4 ts ws (Q(?q := rest))" "avail s4 = avail ?s3 + 3" by blast
  have "wf_list (links s2) (squeue ?q s2) (a # rest)"
    using s2(1) queues_okD(1) [of sockqs "\<lambda>q. squeue q s2" "links s2" _ "Q(?q := a # rest)" ?q] iC by (auto simp: sock_inv_def)
  then have hd2: "list_head (ts_tx_data_list (tcp_sockets s2 ! i)) = Some a" using list_head_wf by fastforce
  then have "ack_head i ackn True s2 = Inr (True, s4)" using l2(1) s4(1) acked(1) s2(5) by (simp add: ack_head_def)
  then have "handle_ack i ackn s = Inr s4" using hd nx scan by (simp add: handle_ack_def ended_def)
  then show ?thesis using s4(2,3) s2(3) unfolding b3 by (intro exI [of _ s4]) simp
qed

section \<open>Malformed segments\<close>

lemma hlen_bound: "unat (sg_hlen (read_segment pkt s)) \<le> 60"
proof -
  let ?x = "ucast (drop_bit 12 (hton16 (rd16 (mem8 s) (pb_buf (pktbufs s pkt) + 12))) AND 0xf) :: u32"
  have "unat (drop_bit 12 (hton16 (rd16 (mem8 s) (pb_buf (pktbufs s pkt) + 12))) AND 0xf) \<le> unat (0xf :: u16)"
    unfolding word_le_nat_alt [symmetric] by (rule word_and_le1)
  then have "unat ?x \<le> 15" by (simp add: unsigned_ucast_eq take_bit_nat_eq_self)
  moreover have "unat (?x * 4) \<le> unat ?x * 4" by (simp add: unat_word_ariths)
  ultimately show ?thesis by (simp add: read_segment_def Let_def)
qed

text \<open>
  C22: a segment on an established connection whose header length field points behind the end of its IP packet
  stops the kernel: the payload length wraps around and the allocation of the copy panics.
\<close>

theorem tcp_short_segment_panics:
  assumes "mem_inv s" and "0 < avail s" and "i < length (tcp_sockets s)" and "ts_state (tcp_sockets s ! i) = ESTABLISHED"
    and "unat (hton16 (rd16 (mem8 s) (pb_buf (pktbufs s pkt) - 18))) < 20 + unat (sg_hlen (read_segment pkt s))"
  shows "tcp_recv_pkt i pkt s = Inl Panic"
proof -
  let ?g = "read_segment pkt s" and ?s0 = "adv_buf pkt (ucast (sg_hlen (read_segment pkt s))) s"
  let ?w = "hton16 (rd16 (mem8 s) (pb_buf (pktbufs s pkt) - 18))"
  let ?l = "ucast ?w :: u32"
  have eq: "sg_len ?g = ?l - 20 - sg_hlen ?g" by (simp add: read_segment_def Let_def sizeof_ip_hdr_def)
  have "unat ?w < 2 ^ LENGTH(16)" by (rule unsigned_less)
  then have "unat ?w < 65536" by simp
  then have l: "unat ?l = unat ?w" by (simp add: unsigned_ucast_eq take_bit_nat_eq_self)
  have y: "unat (20 + sg_hlen ?g) = 20 + unat (sg_hlen ?g)" using hlen_bound [of pkt s] by (subst unat_add_lem [THEN iffD1]) simp_all
  have "sg_len ?g = ?l - (20 + sg_hlen ?g)" by (simp add: eq)
  then have "unat (sg_len ?g) = 2 ^ 32 + unat ?w - (20 + unat (sg_hlen ?g))"
    using assms(5) by (simp add: unat_sub_if_size y l word_size word_le_nat_alt)
  then have big: "4294967216 \<le> unat (sg_len ?g)" using hlen_bound [of pkt s] by simp
  then have pos: "sg_len ?g > 0" by (simp add: word_less_nat_alt)
  have large: "ucast (sg_len ?g) > MEM_GRANULARITY"
    using big by (simp add: MEM_GRANULARITY_def word_less_nat_alt unsigned_ucast_eq take_bit_nat_eq_self
        order_less_trans [OF unat_u32_lt])
  have "mem_inv ?s0" "0 < avail ?s0" using assms(1,2) by (simp_all add: adv_buf_def set_buf_def mem_view)
  from kmem.allocE [OF this(1) rx_data_fits this(2)] obtain rx s1 where
    "mem_alloc sizeof_rx_data ''rx_data'' ?s0 = Inr (rx, s1)" by metis
  then have "new_rx_data (pb_buf (pktbufs ?s0 pkt)) (sg_len ?g) (sg_len ?g) ?s0 = Inl Panic"
    by (simp add: new_rx_data_def mem_alloc_large [OF large])
  then show ?thesis using pos assms(3,4) by (simp add: tcp_recv_pkt_def Let_def arr_get_def recv_established_def)
qed

end
