(* ===== verification/Tcpstate.thy ===== *)
theory Tcpstate
  imports Tcpsock
begin

text \<open>
  The connection states of \<^verbatim>\<open>kernel/net/tcp.c\<close> as a state machine: for every state of the kernel, well-formed
  or not, which sockets an operation touches and which transitions a segment can cause.
\<close>

section \<open>Which sockets an operation changes\<close>

text \<open>
  Sending never touches a socket, whatever the state: the sockets and the address table are the part of
  the state behind \<open>net_state.more\<close>.
\<close>

lemma more_simple [simp]:
  "net_state.more (store f s) = net_state.more s" "net_state.more (set_buf p a s) = net_state.more s"
  "net_state.more (adv_buf p a s) = net_state.more s" "net_state.more (set_rflags r s) = net_state.more s"
  "net_state.more (printstr_log m s) = net_state.more s" "net_state.more (printnum_log n s) = net_state.more s"
  by (simp_all add: store_def set_buf_def adv_buf_def rflags_defs) (subst printstr_log_eq, simp, subst printnum_log_eq, simp)

lemma log_ip_more [simp]: "net_state.more (log_ip a s) = net_state.more s"
  by (simp add: log_ip_def Let_def)

named_theorems more_dest

lemma rest_more: "mem_rest s s' \<Longrightarrow> net_state.more s' = net_state.more s" "task_rest s s' \<Longrightarrow> net_state.more s' = net_state.more s"
  by (auto simp: mem_rest_def task_rest_def)

lemmas [more_dest] = rest_more(1) [OF mem_alloc_rest] rest_more(1) [OF mem_free_rest] rest_more(2) [OF task_wakeup_rest]

lemma pkt_more [more_dest]:
  "free_pkt p s = Inr s' \<Longrightarrow> net_state.more s' = net_state.more s"
  "new_pkt len a b s = Inr (p, s') \<Longrightarrow> net_state.more s' = net_state.more s"
  by (auto simp: free_pkt_def new_pkt_def Let_def dest!: more_dest)

lemma netdev_tx_more [more_dest]: "netdev_tx p s = Inr s' \<Longrightarrow> net_state.more s' = net_state.more s"
  by (auto simp: netdev_tx_def r8169_tx_def Let_def io_out8_def printstr_log_eq arr_get_def arr_set_def
      split: option.splits if_splits txfun.splits)

lemma ether_tx_more [more_dest]: "ether_tx p mac ty s = Inr s' \<Longrightarrow> net_state.more s' = net_state.more s"
  by (auto simp: ether_tx_def dest!: more_dest)

lemma arp_tx_more [more_dest]: "arp_tx dip s = Inr s' \<Longrightarrow> net_state.more s' = net_state.more s"
  by (auto simp: arp_tx_def Let_def dest!: more_dest)

lemma ip_tx_more [more_dest]: "ip_tx p dip proto ttl s = Inr s' \<Longrightarrow> net_state.more s' = net_state.more s"
  by (auto simp: ip_tx_def Let_def split: option.splits dest!: more_dest)

lemma set_timer_more [more_dest]: "set_timer f arg d s = Inr s' \<Longrightarrow> net_state.more s' = net_state.more s"
  by (auto simp: set_timer_def Let_def rflags_defs split: option.splits if_splits prod.splits dest!: more_dest)

lemma delay_more [more_dest]: "wq_push_with_delay f arg d s = Inr s' \<Longrightarrow> net_state.more s' = net_state.more s"
  by (auto simp: wq_push_with_delay_def Let_def dest!: more_dest)

text \<open>An operation on socket \<open>i\<close> that stays in its state.\<close>

definition only_sock :: "nat \<Rightarrow> 'a tcp_state_scheme \<Rightarrow> 'a tcp_state_scheme \<Rightarrow> bool" where
  "only_sock i s s' =
     (length (tcp_sockets s') = length (tcp_sockets s) \<and> (\<forall>j. j \<noteq> i \<longrightarrow> tcp_sockets s' ! j = tcp_sockets s ! j) \<and>
      ts_state (tcp_sockets s' ! i) = ts_state (tcp_sockets s ! i))"

named_theorems only_dest

lemma more_only: "net_state.more s' = net_state.more s \<Longrightarrow> only_sock i s s'"
  by (cases s; cases s') (simp add: only_sock_def)

lemma only_refl [simp]: "only_sock i s s"
  by (simp add: only_sock_def)

lemma only_trans: "only_sock i s s1 \<Longrightarrow> only_sock i s1 s2 \<Longrightarrow> only_sock i s s2"
  by (simp add: only_sock_def)

lemma only_upd: "ts_state (f (tcp_sockets s ! i)) = ts_state (tcp_sockets s ! i) \<Longrightarrow> only_sock i s (tcp_upd i f s)"
  by (cases "i < length (tcp_sockets s)") (auto simp: only_sock_def tcp_upd_def list_update_beyond)

lemma only_cong:
  "only_sock i s1 s' = only_sock i s s'" "only_sock i s' s1 = only_sock i s' s" if "tcp_sockets s1 = tcp_sockets s"
  using that by (simp_all add: only_sock_def)

lemma only_simple [simp]:
  "only_sock i s (printstr_log m s') = only_sock i s s'" "only_sock i s (printnum_log n s') = only_sock i s s'"
  "only_sock i s (store f s') = only_sock i s s'" "only_sock i s (adv_buf p a s') = only_sock i s s'"
  "only_sock i s (s'\<lparr>links := nx\<rparr>) = only_sock i s s'" "only_sock i s (s'\<lparr>txdatas := tx\<rparr>) = only_sock i s s'"
  "only_sock i s (s'\<lparr>rxdatas := rxd\<rparr>) = only_sock i s s'"
  "only_sock i (printstr_log m s') s = only_sock i s' s" "only_sock i (printnum_log n s') s = only_sock i s' s"
  "only_sock i (store f s') s = only_sock i s' s" "only_sock i (adv_buf p a s') s = only_sock i s' s"
  "only_sock i (s'\<lparr>links := nx\<rparr>) s = only_sock i s' s" "only_sock i (s'\<lparr>txdatas := tx\<rparr>) s = only_sock i s' s"
  by (rule only_cong; simp add: log_fields adv_buf_fields store_def | rule only_cong; subst printnum_log_eq; simp)+

lemma new_args_only [only_dest]: "new_args nm x y s = Inr (a, s') \<Longrightarrow> only_sock i s s'"
  by (auto simp: new_args_def dest!: more_dest intro: more_only)

lemma new_rx_only [only_dest]: "new_rx_data src len cap s = Inr (rx, s') \<Longrightarrow> only_sock i s s'"
  by (auto simp: new_rx_data_def dest!: more_dest intro: more_only)

lemma tcp_keep_only [only_dest]:
  assumes "tcp_keep (int i) sz p s = Inr s'"
  shows "only_sock i s s'"
proof -
  from assms obtain tx s1 d l nx args s5 where
    a: "mem_alloc sizeof_tcp_tx_data ''tx_data'' s = Inr (tx, s1)"
    and b: "new_args ''tcp_ack_timeout_arg'' (of_int (int i)) (ts_seq_num (tcp_sockets s1 ! i))
        (tcp_upd i (ts_tx_data_list_update (\<lambda>_. l))
          (tcp_upd i (ts_seq_num_update (\<lambda>n. n + sz)) s1\<lparr>txdatas := d, links := nx\<rparr>)) = Inr (args, s5)"
    and c: "wq_push_with_delay TcpAckTimeout (Some args) RETRANSMIT_ACK_TIMEOUT_MSEC s5 = Inr s'"
    by (auto simp: tcp_keep_def Let_def)
  have "only_sock i s s1" using a by (auto intro: more_only dest!: more_dest)
  moreover have "only_sock i s1 (tcp_upd i (ts_seq_num_update (\<lambda>n. n + sz)) s1)" by (rule only_upd) simp
  then have "only_sock i s1 (tcp_upd i (ts_seq_num_update (\<lambda>n. n + sz)) s1\<lparr>txdatas := d, links := nx\<rparr>)" by simp
  then have "only_sock i s1 (tcp_upd i (ts_tx_data_list_update (\<lambda>_. l))
          (tcp_upd i (ts_seq_num_update (\<lambda>n. n + sz)) s1\<lparr>txdatas := d, links := nx\<rparr>))"
    by (rule only_trans) (rule only_upd, simp)
  moreover note new_args_only [OF b]
  moreover have "only_sock i s5 s'" using c by (auto intro: more_only dest!: more_dest)
  ultimately show ?thesis by (blast intro: only_trans)
qed

lemma tcp_send_only [only_dest]:
  assumes "tcp_send (int i) dip dport buf sz flags need s = Inr s'"
  shows "only_sock i s s'"
proof -
  from assms obtain len p s1 g a s4 where
    "new_pkt len ''tcp_send_pbuf'' ''tcp_send_pbuf_buf'' s = Inr (p, s1)"
    "ip_tx p dip IP_HDR_PROTO_TCP 64 (set_buf p a (store g s1)) = Inr s4"
    and k: "(if need then tcp_keep (int i) sz p s4 else free_pkt p s4) = Inr s'"
    by (auto simp: tcp_send_def Let_def panic_def split: if_splits)
  then have "net_state.more s4 = net_state.more s" by (auto dest!: more_dest)
  then have "only_sock i s s4" by (rule more_only)
  moreover have "only_sock i s4 s'"
    using k by (cases need) (auto intro: more_only tcp_keep_only dest: pkt_more(1))
  ultimately show ?thesis by (rule only_trans)
qed

lemma free_tx_only [only_dest]: "free_tx tx s = Inr s' \<Longrightarrow> only_sock i s s'"
  by (auto simp: free_tx_def dest!: more_dest intro: more_only)

lemma retransmit_only [only_dest]: "retransmit j tx s = Inr s' \<Longrightarrow> only_sock i s s'"
  by (auto simp: retransmit_def Let_def dest!: more_dest intro: more_only)

definition only_res :: "nat \<Rightarrow> 'a tcp_state_scheme \<Rightarrow> 'a tcp_state_scheme res \<Rightarrow> bool" where
  "only_res i s r = (case r of Inl _ \<Rightarrow> True | Inr s' \<Rightarrow> only_sock i s s')"

lemma ack_scan_aux: "ack_scan i ackn prev p found s = Some r \<Longrightarrow> only_res i s (map_sum id snd r)"
proof (erule ack_scan.raw_induct [rotated], goal_cases)
  case (1 f i ackn prev p found s r)
  show ?case
  proof (cases p)
    case None
    then show ?thesis using 1(2) by (auto simp: only_res_def)
  next
    case (Some tx)
    obtain l nx where r: "list_remove (ts_tx_data_list (tcp_sockets s ! i)) (Some prev) (links s) = (l, nx)" by fastforce
    let ?s1 = "tcp_upd i (ts_tx_data_list_update (\<lambda>_. l)) (s\<lparr>links := nx\<rparr>)"
    have o1: "only_sock i s ?s1" using only_upd [of "ts_tx_data_list_update (\<lambda>_. l)" "s\<lparr>links := nx\<rparr>" i] by simp
    show ?thesis
    proof (cases "wait_ack_num (txdatas s tx) \<le> ackn")
      case True
      show ?thesis
      proof (cases "free_tx tx ?s1")
        case (Inl e)
        then show ?thesis using 1(2) Some True r by (auto simp: only_res_def)
      next
        case (Inr s2)
        then have "f i ackn tx (list_next tx (links s2)) True s2 = Some r" using 1(2) Some True r by simp
        from 1(1) [OF this] only_trans [OF o1 free_tx_only [OF Inr]] show ?thesis
          by (auto simp: only_res_def split: sum.splits intro: only_trans)
      qed
    next
      case False
      then show ?thesis using 1 Some by simp
    qed
  qed
qed

lemma dup_ack_aux: "dup_ack_loop i ackn p s = Some r \<Longrightarrow> only_res i s r"
proof (erule dup_ack_loop.raw_induct [rotated], goal_cases)
  case (1 f i ackn p s r)
  show ?case
  proof (cases p)
    case None
    then show ?thesis using 1(2) by (auto simp: only_res_def)
  next
    case (Some tx)
    have ih: "only_sock i s2 x" if "f i a q s2 = Some (Inr x)" for a q s2 x using 1(1) [OF that] by (simp add: only_res_def)
    show ?thesis
      using 1(2) Some
      by (auto simp: Let_def only_res_def split: if_splits sum.splits dest!: ih retransmit_only [where i = i] intro: only_trans)
  qed
qed

lemma handle_ack_only [only_dest]:
  assumes "handle_ack i ackn s = Inr s'"
  shows "only_sock i s s'"
proof (cases "list_head (ts_tx_data_list (tcp_sockets s ! i))")
  case None
  then show ?thesis using assms by (simp add: handle_ack_def)
next
  case (Some first)
  from assms Some obtain b s1 b2 s2 where
    1: "ack_scan i ackn first (list_next first (links s)) False s = Some (Inr (b, s1))" and 2: "ack_head i ackn b s1 = Inr (b2, s2)"
    and 3: "(if b2 then Inr s2 else ended (dup_ack_loop i ackn (list_head (ts_tx_data_list (tcp_sockets s2 ! i)))
              (printstr_log nl (printnum_log ackn (printstr_log ''DETECTED DUPPED ACK: '' s2))))) = Inr s'"
    by (auto simp: handle_ack_def ended_def split: option.splits)
  have "only_sock i s s1" using ack_scan_aux [OF 1] by (simp add: only_res_def)
  moreover have "only_sock i s1 s2"
  proof -
    have u: "only_sock i s1 (tcp_upd i (ts_tx_data_list_update (\<lambda>_. l)) (s1\<lparr>links := nx\<rparr>))" for l nx
      using only_upd [of "ts_tx_data_list_update (\<lambda>_. l)" "s1\<lparr>links := nx\<rparr>" i] by simp
    show ?thesis using 2 by (auto simp: ack_head_def split: option.splits if_splits dest!: free_tx_only [where i = i] intro: only_trans [OF u])
  qed
  moreover have "only_sock i s2 s'"
    using 3 by (auto simp: only_res_def ended_def split: if_splits option.splits dest!: dup_ack_aux)
  ultimately show ?thesis by (blast intro: only_trans)
qed

lemma tcp_queue_rx_only [only_dest]: "tcp_queue_rx i rx g s = Inr s' \<Longrightarrow> only_sock i s s'"
  using only_upd [of "\<lambda>k. k\<lparr>ts_rx_data_list := l, ts_ack_num := a\<rparr>" "s\<lparr>links := nx\<rparr>" i for l a nx]
  by (auto simp: tcp_queue_rx_def)

lemma send_ack_only [only_dest]: "send_ack i flags need s = Inr s' \<Longrightarrow> only_sock i s s'"
  by (auto simp: send_ack_def Let_def dest: tcp_send_only)

lemma wakeup_only [only_dest]: "task_wakeup c s = Inr s' \<Longrightarrow> only_sock i s s'"
  by (rule more_only) (auto dest!: more_dest)

section \<open>The state machine\<close>

text \<open>The transitions a received segment may cause, with the flags that cause them.\<close>

inductive tcp_trans :: "segment \<Rightarrow> TCP_STATE \<Rightarrow> TCP_STATE \<Rightarrow> bool" for g where
  stay: "tcp_trans g st st"
| syn: "has_flag TCP_FLAGS_SYN g \<Longrightarrow> tcp_trans g LISTEN SYN_RCVD"
| ack: "has_flag TCP_FLAGS_ACK g \<Longrightarrow> tcp_trans g SYN_RCVD ESTABLISHED"
| syn_ack: "has_flag TCP_FLAGS_SYN g \<Longrightarrow> has_flag TCP_FLAGS_ACK g \<Longrightarrow> tcp_trans g SYN_SENT ESTABLISHED"
| fin: "has_flag TCP_FLAGS_FIN g \<Longrightarrow> has_flag TCP_FLAGS_ACK g \<Longrightarrow> tcp_trans g ESTABLISHED CLOSING"
| fin_wait: "has_flag TCP_FLAGS_FIN g \<Longrightarrow> has_flag TCP_FLAGS_ACK g \<Longrightarrow> tcp_trans g FIN_WAIT_1 CLOSED"
| closing: "has_flag TCP_FLAGS_ACK g \<Longrightarrow> tcp_trans g CLOSING CLOSED"

inductive_cases tcp_trans_CLOSED: "tcp_trans g CLOSED st"

definition sock_moved :: "nat \<Rightarrow> segment \<Rightarrow> 'a tcp_state_scheme \<Rightarrow> 'a tcp_state_scheme \<Rightarrow> bool" where
  "sock_moved i g s s' =
     (length (tcp_sockets s') = length (tcp_sockets s) \<and> (\<forall>j. j \<noteq> i \<longrightarrow> tcp_sockets s' ! j = tcp_sockets s ! j) \<and>
      tcp_trans g (ts_state (tcp_sockets s ! i)) (ts_state (tcp_sockets s' ! i)))"

lemma moved_stay: "only_sock i s s' \<Longrightarrow> sock_moved i g s s'"
  by (simp add: only_sock_def sock_moved_def stay)

lemma moved_step:
  assumes "only_sock i s s1" and "only_sock i (tcp_upd i f s1) s'" and "i < length (tcp_sockets s)"
    and "tcp_trans g (ts_state (tcp_sockets s ! i)) (ts_state (f (tcp_sockets s1 ! i)))"
  shows "sock_moved i g s s'"
  using assms by (auto simp: only_sock_def sock_moved_def tcp_upd_def)

lemma recv_listen_moved:
  assumes "recv_listen i g s = Inr s'" and "i < length (tcp_sockets s)" and "ts_state (tcp_sockets s ! i) = LISTEN"
  shows "sock_moved i g s s'"
proof (cases "has_flag TCP_FLAGS_SYN g")
  case True
  let ?f = "\<lambda>k. k\<lparr>ts_ack_num := sg_seq g + 1, ts_dip := sg_sip g, ts_dport := sg_sport g\<rparr>"
  from assms(1) True obtain dip dport s2 where
    s2: "tcp_send (int i) dip dport 0 0 (TCP_FLAGS_SYN OR TCP_FLAGS_ACK) True (tcp_upd i ?f s) = Inr s2"
      "s' = printstr_log (''tcp: LISTEN -> SYN_RCVD'' @ nl)
          (tcp_upd i (\<lambda>k. k\<lparr>ts_seq_num := ts_seq_num k + 1, ts_state := SYN_RCVD\<rparr>) s2)"
    by (auto simp: recv_listen_def Let_def)
  have "only_sock i s s2" by (rule only_trans [OF only_upd tcp_send_only [OF s2(1)]]) simp
  from moved_step [OF this, of "\<lambda>k. k\<lparr>ts_seq_num := ts_seq_num k + 1, ts_state := SYN_RCVD\<rparr>" s'] assms(2,3) True show ?thesis
    unfolding s2(2) by (simp add: syn del: append_Cons)
next
  case False
  then show ?thesis using assms(1) by (simp add: recv_listen_def moved_stay)
qed

lemma recv_syn_rcvd_moved:
  assumes "recv_syn_rcvd i g pkt s = Inr s'" and "i < length (tcp_sockets s)" and "ts_state (tcp_sockets s ! i) = SYN_RCVD"
  shows "sock_moved i g s s'"
proof (cases "has_flag TCP_FLAGS_ACK g")
  case True
  let ?s0 = "adv_buf pkt (ucast (sg_hlen g)) s"
  from assms(1) True obtain s1 s3 where
    1: "handle_ack i (sg_ack g) ?s0 = Inr s1"
    and 3: "(if sg_len g > 0
               then bindr (new_rx_data (pb_buf (pktbufs s1 pkt)) (sg_len g) (sg_len g) s1) (\<lambda>(rx, s2). tcp_queue_rx i rx g s2)
               else Inr s1) = Inr s3"
    and 4: "task_wakeup (TcpSock i) (printstr_log (''tcp: SYN_RCVD -> ESTABLISHED'' @ nl)
          (tcp_upd i (ts_state_update (\<lambda>_. ESTABLISHED)) s3)) = Inr s'"
    by (auto simp: recv_syn_rcvd_def Let_def)
  have "only_sock i s s1" using handle_ack_only [OF 1] by simp
  moreover have "only_sock i s1 s3" using 3 by (auto split: if_splits dest!: only_dest intro: only_trans)
  ultimately have "only_sock i s s3" by (rule only_trans)
  moreover have "only_sock i (tcp_upd i (ts_state_update (\<lambda>_. ESTABLISHED)) s3) s'"
    using wakeup_only [OF 4, of i] by (simp del: append_Cons)
  ultimately show ?thesis by (rule moved_step) (use assms(2,3) True in \<open>simp_all add: ack\<close>)
next
  case False
  then show ?thesis using assms(1) by (auto simp: recv_syn_rcvd_def Let_def intro: moved_stay)
qed

lemma recv_syn_sent_moved:
  assumes "recv_syn_sent i g s = Inr s'" and "i < length (tcp_sockets s)" and "ts_state (tcp_sockets s ! i) = SYN_SENT"
  shows "sock_moved i g s s'"
proof (cases "has_flag TCP_FLAGS_SYN g \<and> has_flag TCP_FLAGS_ACK g")
  case True
  from assms(1) True obtain s1 dip dport s3 where
    1: "handle_ack i (sg_ack g) s = Inr s1"
    and 3: "tcp_send (int i) dip dport 0 0 TCP_FLAGS_ACK False (tcp_upd i (ts_ack_num_update (\<lambda>_. sg_seq g + 1)) s1) = Inr s3"
    and 4: "task_wakeup (TcpSock i) (printstr_log (''tcp: SYN_SENT -> ESTABLISHED'' @ nl)
          (tcp_upd i (ts_state_update (\<lambda>_. ESTABLISHED)) s3)) = Inr s'"
    by (auto simp: recv_syn_sent_def Let_def)
  have "only_sock i s1 s3" by (rule only_trans [OF only_upd tcp_send_only [OF 3]]) simp
  with handle_ack_only [OF 1] have "only_sock i s s3" by (rule only_trans)
  moreover have "only_sock i (tcp_upd i (ts_state_update (\<lambda>_. ESTABLISHED)) s3) s'"
    using wakeup_only [OF 4, of i] by (simp del: append_Cons)
  ultimately show ?thesis by (rule moved_step) (use assms(2,3) True in \<open>simp_all add: syn_ack\<close>)
next
  case False
  then show ?thesis using assms(1) by (auto simp: recv_syn_sent_def intro: moved_stay)
qed

lemma established_tail_moved:
  assumes "established_tail i g s = Inr s'" and "i < length (tcp_sockets s)" and "ts_state (tcp_sockets s ! i) = ESTABLISHED"
  shows "sock_moved i g s s'"
proof -
  from assms(1) obtain s1 where 1: "(if has_flag TCP_FLAGS_ACK g then handle_ack i (sg_ack g) s else Inr s) = Inr s1"
    by (auto simp: established_tail_def)
  have o1: "only_sock i s s1" using 1 by (auto split: if_splits dest: handle_ack_only)
  show ?thesis
  proof (cases "has_flag TCP_FLAGS_FIN g \<and> has_flag TCP_FLAGS_ACK g")
    case True
    from assms(1) 1 True obtain s2 where
      2: "send_ack i (TCP_FLAGS_ACK OR TCP_FLAGS_FIN) True (tcp_upd i (ts_ack_num_update (\<lambda>n. n + 1)) s1) = Inr s2"
      and s': "s' = printstr_log (''tcp: ESTABLISHED -> CLOSING'' @ nl) (tcp_upd i (ts_state_update (\<lambda>_. CLOSING)) s2)"
      by (auto simp: established_tail_def)
    have "only_sock i s1 s2" by (rule only_trans [OF only_upd send_ack_only [OF 2]]) simp
    with o1 have "only_sock i s s2" by (rule only_trans)
    moreover have "only_sock i (tcp_upd i (ts_state_update (\<lambda>_. CLOSING)) s2) s'" by (simp add: s' del: append_Cons)
    ultimately show ?thesis by (rule moved_step) (use assms(2,3) True in \<open>simp_all add: fin\<close>)
  next
    case False
    with assms(1) 1 have "(if sg_len g > 0 then send_ack i TCP_FLAGS_ACK False s1 else Inr s1) = Inr s'"
      by (auto simp: established_tail_def split: if_splits)
    then have "only_sock i s1 s'" by (auto split: if_splits dest: send_ack_only)
    with o1 show ?thesis by (blast intro: moved_stay only_trans)
  qed
qed

lemma moved_trans:
  assumes "only_sock i s s1" and "sock_moved i g s1 s'"
  shows "sock_moved i g s s'"
  using assms by (simp add: only_sock_def sock_moved_def)

lemma recv_established_moved:
  assumes "recv_established i g pkt s = Inr s'" and "i < length (tcp_sockets s)" and "ts_state (tcp_sockets s ! i) = ESTABLISHED"
  shows "sock_moved i g s s'"
proof (cases "sg_len g > 0")
  case True
  let ?s0 = "adv_buf pkt (ucast (sg_hlen g)) s"
  from assms(1) True obtain rx s1 where
    1: "new_rx_data (pb_buf (pktbufs ?s0 pkt)) (sg_len g) (sg_len g) ?s0 = Inr (rx, s1)"
    and r: "(if ts_ack_num (tcp_sockets s1 ! i) \<noteq> sg_seq g
        then send_ack i TCP_FLAGS_ACK False (printstr_log (''PKT LOSS'' @ nl) s1)
        else bindr (tcp_queue_rx i rx g s1) (\<lambda>s2. bindr (task_wakeup (TcpSock i) s2) (established_tail i g))) = Inr s'"
    by (auto simp: recv_established_def Let_def)
  have o1: "only_sock i s s1" using new_rx_only [OF 1, of i] by simp
  show ?thesis
  proof (cases "ts_ack_num (tcp_sockets s1 ! i) = sg_seq g")
    case True
    with r obtain s2 s3 where s: "tcp_queue_rx i rx g s1 = Inr s2" "task_wakeup (TcpSock i) s2 = Inr s3" "established_tail i g s3 = Inr s'"
      by auto
    have "only_sock i s s3" using o1 tcp_queue_rx_only [OF s(1)] wakeup_only [OF s(2)] by (blast intro: only_trans)
    moreover from this have "sock_moved i g s3 s'"
      using assms(2,3) by (intro established_tail_moved [OF s(3)]) (simp_all add: only_sock_def)
    ultimately show ?thesis by (rule moved_trans)
  next
    case False
    with r have "only_sock i s1 s'" by (auto dest: send_ack_only simp del: append_Cons)
    with o1 show ?thesis by (blast intro: moved_stay only_trans)
  qed
next
  case False
  then have "established_tail i g (adv_buf pkt (ucast (sg_hlen g)) s) = Inr s'" using assms(1) by (simp add: recv_established_def Let_def)
  then have "sock_moved i g (adv_buf pkt (ucast (sg_hlen g)) s) s'"
    using assms(2,3) by (intro established_tail_moved) (simp_all add: adv_buf_fields)
  then show ?thesis by (rule moved_trans [rotated]) simp
qed

lemma recv_fin_wait_moved:
  assumes "recv_fin_wait_1 i g s = Inr s'" and "i < length (tcp_sockets s)" and "ts_state (tcp_sockets s ! i) = FIN_WAIT_1"
  shows "sock_moved i g s s'"
proof -
  from assms(1) obtain s1 where 1: "(if has_flag TCP_FLAGS_ACK g then handle_ack i (sg_ack g) s else Inr s) = Inr s1"
    by (auto simp: recv_fin_wait_1_def)
  have o1: "only_sock i s s1" using 1 by (auto split: if_splits dest: handle_ack_only)
  show ?thesis
  proof (cases "has_flag TCP_FLAGS_FIN g \<and> has_flag TCP_FLAGS_ACK g")
    case True
    from assms(1) 1 True obtain s2 where
      2: "send_ack i TCP_FLAGS_ACK False (tcp_upd i (ts_ack_num_update (\<lambda>n. n + 1)) s1) = Inr s2"
      and 3: "task_wakeup (TcpSock i) (printstr_log (''tcp: FIN_WAIT_1 -> CLOSED'' @ nl)
         (tcp_upd i (ts_state_update (\<lambda>_. CLOSED)) s2)) = Inr s'"
      by (auto simp: recv_fin_wait_1_def)
    have "only_sock i s1 s2" by (rule only_trans [OF only_upd send_ack_only [OF 2]]) simp
    with o1 have "only_sock i s s2" by (rule only_trans)
    moreover have "only_sock i (tcp_upd i (ts_state_update (\<lambda>_. CLOSED)) s2) s'" using wakeup_only [OF 3, of i] by (simp del: append_Cons)
    ultimately show ?thesis by (rule moved_step) (use assms(2,3) True in \<open>simp_all add: fin_wait\<close>)
  next
    case False
    with assms(1) 1 o1 show ?thesis by (auto simp: recv_fin_wait_1_def intro: moved_stay)
  qed
qed

lemma recv_closing_moved:
  assumes "recv_closing i g s = Inr s'" and "i < length (tcp_sockets s)" and "ts_state (tcp_sockets s ! i) = CLOSING"
  shows "sock_moved i g s s'"
proof (cases "has_flag TCP_FLAGS_ACK g")
  case True
  then have w: "task_wakeup (TcpSock i) (printstr_log (''tcp: CLOSING -> CLOSED'' @ nl)
             (tcp_upd i (ts_state_update (\<lambda>_. CLOSED)) s)) = Inr s'" using assms(1) by (simp add: recv_closing_def)
  have "only_sock i (tcp_upd i (ts_state_update (\<lambda>_. CLOSED)) s) s'" using wakeup_only [OF w, of i] by (simp del: append_Cons)
  then show ?thesis by (rule moved_step [OF only_refl]) (use assms(2,3) True in \<open>simp_all add: closing\<close>)
next
  case False
  then show ?thesis using assms(1) by (auto simp: recv_closing_def intro: moved_stay)
qed

text \<open>
  C8: the state machine of the stream sockets. Whatever a received segment makes the handler do (sending,
  acknowledging, retransmitting, waking tasks), when the handler returns, the state of the socket the
  segment is for has made one of the transitions of \<open>tcp_trans\<close>, caused by the flags that transition
  requires, or none; and no other socket has changed in any field.
\<close>

theorem tcp_transitions:
  assumes "tcp_recv_pkt i pkt s = Inr s'"
  shows "sock_moved i (read_segment pkt s) s s'"
proof -
  have i: "i < length (tcp_sockets s)"
    using assms by (auto simp: tcp_recv_pkt_def Let_def arr_get_def split: if_splits)
  show ?thesis
    using assms i
    by (cases "ts_state (tcp_sockets s ! i)")
      (auto simp: tcp_recv_pkt_def Let_def arr_get_def intro: moved_stay recv_listen_moved recv_syn_rcvd_moved
        recv_syn_sent_moved recv_established_moved recv_fin_wait_moved recv_closing_moved)
qed

end
