(* ===== verification/Netrx.thy ===== *)
theory Netrx
  imports Tcpstate
begin

text \<open>
  The receiving half of \<^verbatim>\<open>kernel/net/ip.c\<close> and \<^verbatim>\<open>kernel/net/ether.c\<close>, and the dispatch of the function
  pointers that the work queue and the timers carry: with every protocol in place, no function pointer
  of the kernel is left abstract.
\<close>

definition ip_rx_proto :: "addr \<Rightarrow> u8 \<Rightarrow> u32 \<Rightarrow> 'a tcp_state_scheme \<Rightarrow> 'a tcp_state_scheme res" where
  "ip_rx_proto pkt proto sip s =
     (if proto = IP_HDR_PROTO_ICMP then icmp_rx pkt sip (printstr_log (''ip_rx: ICMP'' @ nl) s)
      else if proto = IP_HDR_PROTO_TCP then tcp_rx pkt (printstr_log (''ip_rx: TCP'' @ nl) s)
      else if proto = IP_HDR_PROTO_UDP then udp_rx pkt (printstr_log (''ip_rx: UDP'' @ nl) s)
      else Inr (printstr_log (''ip_rx: UNKNOWN proto'' @ nl) s))"

definition ip_rx :: "addr \<Rightarrow> 'a tcp_state_scheme \<Rightarrow> 'a tcp_state_scheme res" where
  "ip_rx pkt s =
     (let iphdr = pb_buf (pktbufs s pkt) in
      if ip_addr (netdev s) \<noteq> ntoh32 (rd32 (mem8 s) (iphdr + 16)) then Inr s
      else
        bindr (raw_recv pkt (mem8 s (iphdr + 9)) s) (\<lambda>s1.
        let s2 = adv_buf pkt (ucast sizeof_ip_hdr) s1
        in ip_rx_proto pkt (mem8 s2 (iphdr + 9)) (rd32 (mem8 s2) (iphdr + 12)) s2))"

definition ether_rx :: "addr option \<Rightarrow> 'a tcp_state_scheme \<Rightarrow> 'a tcp_state_scheme res" where
  "ether_rx arg s =
     (case arg of
        None \<Rightarrow> Inl NullPtr
      | Some pkt \<Rightarrow>
          let ehdr = pb_buf (pktbufs s pkt); ty = ntoh16 (rd16 (mem8 s) (ehdr + 12)) in
          if ty = ETHER_TYPE_ARP then arp_rx pkt (adv_buf pkt (ucast sizeof_ether_hdr) s)
          else if ty = ETHER_TYPE_IPV4 then ip_rx pkt (adv_buf pkt (ucast sizeof_ether_hdr) s)
          else Inr (printstr_log nl (printhex_log (ucast ty) (printstr_log ''unknown ether type: '' s))))"

text \<open>The functions \<open>wq_push\<close>, \<open>wq_push_with_delay\<close> and \<open>set_timer\<close> are called with.\<close>

fun kcall :: "kfun \<Rightarrow> addr option \<Rightarrow> 'a tcp_state_scheme \<Rightarrow> 'a tcp_state_scheme res" where
  "kcall WqPushTimerFunc arg s = wq_push_timer_func arg s"
| "kcall EtherRx arg s = ether_rx arg s"
| "kcall UdpSocketRecvTimeout arg s = udp_socket_recv_timeout arg s"
| "kcall RawSocketRecvTimeout arg s = raw_socket_recv_timeout arg s"
| "kcall TcpConnectTimeout arg s = tcp_connect_timeout arg s"
| "kcall TcpAckTimeout arg s = tcp_ack_timeout arg s"
| "kcall TcpSocketRecvTimeout arg s = tcp_socket_recv_timeout arg s"

section \<open>Frames nobody takes\<close>

text \<open>A frame of an unknown type, or an IP packet for another host.\<close>

definition not_for_us :: "addr \<Rightarrow> 'a tcp_state_scheme \<Rightarrow> bool" where
  "not_for_us pkt s =
     (let e = pb_buf (pktbufs s pkt); ty = ntoh16 (rd16 (mem8 s) (e + 12)) in
      ty \<noteq> ETHER_TYPE_ARP \<and> (ty = ETHER_TYPE_IPV4 \<longrightarrow> ntoh32 (rd32 (mem8 s) (e + 30)) \<noteq> ip_addr (netdev s)))"

lemma ether_rx_ignores:
  assumes "not_for_us pkt s"
  shows "\<exists>pb c. ether_rx (Some pkt) s = Inr (s\<lparr>pktbufs := pb, console := c\<rparr>)"
proof (cases "ntoh16 (rd16 (mem8 s) (pb_buf (pktbufs s pkt) + 12)) = ETHER_TYPE_IPV4")
  case True
  then have "ether_rx (Some pkt) s = Inr (adv_buf pkt (ucast sizeof_ether_hdr) s)"
    using assms by (simp add: not_for_us_def Let_def ether_rx_def ip_rx_def ETHER_TYPE_ARP_def ETHER_TYPE_IPV4_def)
      (auto simp: adv_buf_def set_buf_def sizeof_ether_hdr_def add.commute [of 30])
  moreover have "adv_buf pkt (ucast sizeof_ether_hdr) s =
      s\<lparr>pktbufs := (pktbufs s)(pkt := (pktbufs s pkt)\<lparr>pb_buf := pb_buf (pktbufs s pkt) + ucast sizeof_ether_hdr\<rparr>), console := console s\<rparr>"
    by (simp add: adv_buf_def set_buf_def)
  ultimately show ?thesis by metis
next
  case False
  let ?f = "\<lambda>s. printstr_log nl (printhex_log (ucast (ntoh16 (rd16 (mem8 s) (pb_buf (pktbufs s pkt) + 12)))) (printstr_log ''unknown ether type: '' s))"
  have "ether_rx (Some pkt) s = Inr (?f s)" using assms False by (simp add: not_for_us_def Let_def ether_rx_def)
  moreover obtain c where "?f s = s\<lparr>pktbufs := pktbufs s, console := c\<rparr>"
    by (subst (asm) printstr_log_eq, subst (asm) printhex_log_eq, subst (asm) printstr_log_eq) auto
  ultimately show ?thesis by metis
qed

text \<open>
  C23: a frame that is not for this machine costs two blocks of memory for good. Executing its queued work returns,
  removes the item from the work queue and releases the item's block, and nothing else: the packet buffer
  and the data block the interrupt handler allocated for the frame are still in use afterwards, and no
  queue refers to them any more.
\<close>

theorem ignored_frame_leaks:
  assumes inv: "wq_inv s ts (w # ws)" and wk: "works s w = \<lparr>wt_func = EtherRx, wt_arg = Some pkt\<rparr>" and no: "not_for_us pkt s"
  shows "\<exists>s'. wq_execute kcall s = Inr s' \<and> wq_inv s' ts ws \<and> live s' = live s - {w} \<and> avail s' = avail s + 1"
proof -
  from wq_execute_pop [OF inv, of kcall] wk obtain s1 l nx where
    s1: "wq_execute kcall s = bindr (ether_rx (Some pkt) s1) (mem_free w)" "wq_inv s1 ts ws" "w \<in> live s1"
      "w \<notin> set (ts @ ws @ parked (timers s1) ts)" and e1: "s1 = s\<lparr>wq := l, links := nx\<rparr>" by auto
  have "not_for_us pkt s1" using no by (simp add: not_for_us_def e1)
  from ether_rx_ignores [OF this] obtain pb c where
    r: "ether_rx (Some pkt) s1 = Inr (s1\<lparr>pktbufs := pb, console := c\<rparr>)" by blast
  let ?s2 = "s1\<lparr>pktbufs := pb, console := c\<rparr>"
  have i2: "wq_inv ?s2 ts ws" "w \<in> live ?s2" "w \<notin> set (ts @ ws @ parked (timers ?s2) ts)" "live ?s2 = live s" "avail ?s2 = avail s"
    using s1(2,3,4) by (simp_all add: wq_view mem_view) (simp_all add: e1)
  from wq_inv_free [OF i2(1,2,3)] obtain s' where
    s': "mem_free w ?s2 = Inr s'" "wq_inv s' ts ws" "live s' = live ?s2 - {w}" by blast
  have "avail s' = avail ?s2 + 1" using s'(1) kmem.freeE [OF wq_inv_mem [OF i2(1)] i2(2)] by (metis Inr_inject)
  with s1(1) r s' i2(4,5) show ?thesis by (intro exI [of _ s']) simp
qed

section \<open>A datagram on its way to the reader\<close>

text \<open>A frame in memory at \<open>e\<close> that carries a datagram for \<open>port\<close> of this host.\<close>

definition udp_frame :: "addr \<Rightarrow> u16 \<Rightarrow> 'a tcp_state_scheme \<Rightarrow> bool" where
  "udp_frame e port s =
     (ntoh16 (rd16 (mem8 s) (e + 12)) = ETHER_TYPE_IPV4 \<and> ntoh32 (rd32 (mem8 s) (e + 30)) = ip_addr (netdev s) \<and>
      mem8 s (e + 23) = IP_HDR_PROTO_UDP \<and> ntoh16 (rd16 (mem8 s) (e + 36)) = port)"

definition no_raw_reader :: "u8 \<Rightarrow> 'a raw_state_scheme \<Rightarrow> bool" where
  "no_raw_reader proto s = (\<forall>k \<in> set (raw_sockets s). rs_flag k \<noteq> RAW_SOCKET_USED \<or> rs_proto k \<noteq> proto)"

lemma raw_recv_skip:
  assumes "no_raw_reader proto s" and "length (raw_sockets s) = RAW_SOCKET_COUNT"
  shows "raw_recv pkt proto s = Inr s"
proof -
  have "raw_recv_one pkt proto i (io_cli s) = Inr (io_cli s)" if "i < RAW_SOCKET_COUNT" for i
    using assms that nth_mem [of i "raw_sockets s"] by (auto simp: raw_recv_one_def arr_get_def no_raw_reader_def rflags_defs)
  then have "for_list [0..<RAW_SOCKET_COUNT] (raw_recv_one pkt proto) (io_cli s) = Inr (io_cli s)" by (intro for_list_skip) simp
  then show ?thesis by (simp add: raw_recv_def Let_def) (simp add: rflags_defs)
qed

text \<open>Through Ethernet and IP the frame reaches \<open>udp_rx\<close> with its data pointer behind both headers.\<close>

lemma ether_rx_udp:
  assumes fr: "udp_frame (pb_buf (pktbufs s pkt)) port s" and raw: "no_raw_reader IP_HDR_PROTO_UDP s" and k: "tables_ok s"
  shows "ether_rx (Some pkt) s = udp_rx pkt (printstr_log (''ip_rx: UDP'' @ nl) (adv_buf pkt 20 (adv_buf pkt 14 s)))"
proof -
  let ?e = "pb_buf (pktbufs s pkt)" and ?s1 = "adv_buf pkt 14 s"
  have b: "pb_buf (pktbufs ?s1 pkt) = ?e + 14" "mem8 ?s1 = mem8 s" "netdev ?s1 = netdev s" "raw_sockets ?s1 = raw_sockets s"
    by (simp_all add: adv_buf_def set_buf_def)
  have "raw_recv pkt IP_HDR_PROTO_UDP ?s1 = Inr ?s1"
    using raw k by (intro raw_recv_skip) (simp_all add: no_raw_reader_def b tables_ok_def)
  moreover have o: "?e + 14 + 16 = ?e + 30" "?e + 14 + 9 = ?e + 23" by simp_all
  have f: "ntoh32 (rd32 (mem8 s) (?e + 30)) = ip_addr (netdev s)" "mem8 s (?e + 23) = IP_HDR_PROTO_UDP" using fr by (simp_all add: udp_frame_def)
  ultimately have "ip_rx pkt ?s1 = ip_rx_proto pkt IP_HDR_PROTO_UDP (rd32 (mem8 s) (?e + 14 + 12)) (adv_buf pkt 20 ?s1)"
    unfolding ip_rx_def by (simp only: Let_def b o f adv_buf_fields) (simp add: sizeof_ip_hdr_def adv_buf_fields b o f)
  also have "\<dots> = udp_rx pkt (printstr_log (''ip_rx: UDP'' @ nl) (adv_buf pkt 20 ?s1))"
    by (simp add: ip_rx_proto_def IP_HDR_PROTO_ICMP_def IP_HDR_PROTO_TCP_def IP_HDR_PROTO_UDP_def)
  finally have "ip_rx pkt ?s1 = udp_rx pkt (printstr_log (''ip_rx: UDP'' @ nl) (adv_buf pkt 20 ?s1))" .
  then show ?thesis
    using fr by (simp add: ether_rx_def udp_frame_def Let_def sizeof_ether_hdr_def ETHER_TYPE_ARP_def ETHER_TYPE_IPV4_def)
qed

lemma rx_entry_state:
  fixes s :: "'a tcp_state_scheme" and msg pkt a b
  assumes inv: "sock_inv sockqs squeue s ts ws Q"
  defines "s' \<equiv> printstr_log msg (adv_buf pkt b (adv_buf pkt a s))"
  shows "sock_inv sockqs squeue s' ts ws Q" "tables_ok s' = tables_ok s" "avail s' = avail s" "live s' = live s" "mem8 s' = mem8 s"
    "pb_buf (pktbufs s' pkt) = pb_buf (pktbufs s pkt) + a + b" "pkt_len (pktbufs s' pkt) = pkt_len (pktbufs s pkt)"
    "udp_bound s' = udp_bound s" "timers s' = timers s" "rflags s' = rflags s" "rxdatas s' = rxdatas s"
proof -
  show "sock_inv sockqs squeue s' ts ws Q" unfolding s'_def by (intro log_inv adv_buf_inv inv)
  have e: "s' = (adv_buf pkt b (adv_buf pkt a s))\<lparr>console := console s'\<rparr>" unfolding s'_def by (subst (1 2) printstr_log_eq) simp
  show "tables_ok s' = tables_ok s" "avail s' = avail s" "live s' = live s" "mem8 s' = mem8 s"
    "pb_buf (pktbufs s' pkt) = pb_buf (pktbufs s pkt) + a + b" "pkt_len (pktbufs s' pkt) = pkt_len (pktbufs s pkt)"
    "udp_bound s' = udp_bound s" "timers s' = timers s" "rflags s' = rflags s" "rxdatas s' = rxdatas s"
    by (subst e, simp add: adv_buf_def set_buf_def tables_ok_def mem_view udp_bound_def fun_eq_iff)+
qed

lemma udp_frame_queued:
  assumes inv: "sock_inv sockqs squeue s ts (w # ws) Q" and k: "tables_ok s" and av: "2 \<le> avail s"
    and wk: "works s w = \<lparr>wt_func = EtherRx, wt_arg = Some pkt\<rparr>" and e: "e = pb_buf (pktbufs s pkt)"
    and fr: "udp_frame e port s" and raw: "no_raw_reader IP_HDR_PROTO_UDP s"
    and blk: "in_block s e (42 + n)" and len: "pkt_len (pktbufs s pkt) = of_nat (42 + n)" "42 + n < 65536"
    and i: "udp_bound s port i" and one: "\<forall>j. udp_bound s port j \<longrightarrow> j = i"
  shows "\<exists>rx s'. wq_execute kcall s = Inr s' \<and> sock_inv sockqs squeue s' ts ws (Q(UdpRx i := Q (UdpRx i) @ [rx])) \<and> rx_ok s' rx \<and>
      pending s' rx = bytes_at (mem8 s) (e + 42) n \<and> (\<forall>y. rx_ok s y \<longrightarrow> pending s' y = pending s y) \<and> tables_ok s' \<and>
      avail s' = avail s - 1 \<and> rflags s' = rflags s \<and>
      (\<forall>b k. in_block s b k \<longrightarrow> region b k \<inter> region (rxd_data (rxdatas s' rx)) 1048528 = {}) \<and> readers_woken (UdpSock i) s s' \<and> live s - {w} \<subseteq> live s'"
proof -
  from socks.inv_pop [OF inv, of kcall] wk obtain s1 l nx where
    s1: "wq_execute kcall s = bindr (ether_rx (Some pkt) s1) (mem_free w)" "sock_inv sockqs squeue s1 ts ws Q" "w \<in> live s1"
      "w \<notin> wq_blocks s1 ts ws" "\<forall>q \<in> sockqs. w \<notin> set (Q q)" and e1: "s1 = s\<lparr>wq := l, links := nx\<rparr>" by auto
  define msg where "msg = ''ip_rx: UDP'' @ nl"
  let ?s2 = "printstr_log msg (adv_buf pkt 20 (adv_buf pkt 14 s1))"
  have f1: "tables_ok s1 = tables_ok s" "avail s1 = avail s" "live s1 = live s" "mem8 s1 = mem8 s" "pktbufs s1 = pktbufs s"
    "udp_bound s1 = udp_bound s" "rflags s1 = rflags s" "rxdatas s1 = rxdatas s"
    "udp_frame e port s1 = udp_frame e port s" "no_raw_reader IP_HDR_PROTO_UDP s1 = no_raw_reader IP_HDR_PROTO_UDP s"
    by (simp_all add: e1 tables_ok_def mem_view udp_bound_def fun_eq_iff udp_frame_def no_raw_reader_def)
  note f2 = rx_entry_state [OF s1(2), where msg = msg and pkt = pkt and a = 14 and b = 20, unfolded f1]
  have call: "ether_rx (Some pkt) s1 = udp_rx pkt ?s2" using ether_rx_udp [of s1 pkt port] fr raw k by (simp add: f1 e [symmetric] msg_def)
  have o: "e + 34 + 2 = e + 36" "e + 34 + 8 = e + 42" "e + 34 = pb_buf (pktbufs ?s2 pkt)" unfolding f2(6) e by simp_all
  have p: "ntoh16 (rd16 (mem8 s) (e + 34 + 2)) = port" unfolding o(1) using fr by (simp add: udp_frame_def)
  have b2: "in_block ?s2 (e + 34) (8 + n)" using blk region_offset [of e 34 "8 + n"] by (auto simp: in_block_def f2(4))
  from udp_rx_bound [OF f2(1) _ _ o(3) b2, where i = i, unfolded f2 p o(2)] k av len i one obtain rx s3 where
    s3: "udp_rx pkt ?s2 = Inr s3" "sock_inv sockqs squeue s3 ts ws (Q(UdpRx i := Q (UdpRx i) @ [rx]))" "rx_ok s3 rx"
      "pending s3 rx = bytes_at (mem8 s) (e + 42) n" "\<forall>y. rx_ok ?s2 y \<longrightarrow> pending s3 y = pending ?s2 y" "tables_ok s3"
      "avail s3 = avail s - 2" "rflags s3 = rflags s" "rx_fresh ?s2 s3 rx" "readers_woken (UdpSock i) ?s2 s3" by blast
  have fresh: "rx \<notin> live s" "rxd_data (rxdatas s3 rx) \<notin> live s" "live s \<subseteq> live s3" "timers s3 = timers s1"
    using s3(9) by (simp_all add: rx_fresh_def f2)
  have w: "w \<in> live s3" "w \<notin> wq_blocks s3 ts ws" "w \<noteq> rx" "w \<noteq> rxd_data (rxdatas s3 rx)"
    using s1(3,4) fresh by (auto simp: f1 wq_blocks_def)
  have "w \<notin> set ((Q(UdpRx i := Q (UdpRx i) @ [rx])) q)" if "q \<in> sockqs" for q using s1(5) that w(3) by (cases "q = UdpRx i") auto
  from socks.inv_free [OF s3(2) w(1,2) this] obtain s' where
    s': "mem_free w s3 = Inr s'" "sock_inv sockqs squeue s' ts ws (Q(UdpRx i := Q (UdpRx i) @ [rx]))" "live s' = live s3 - {w}"
      "avail s' = avail s3 + 1" "mem_rest s3 s'" by blast
  from s'(5) have g: "mem8 s' = mem8 s3" "rxdatas s' = rxdatas s3" "tables_ok s' = tables_ok s3" "rflags s' = rflags s3"
    by (auto simp: mem_rest_def tables_ok_def)
  have "region b m \<inter> region (rxd_data (rxdatas s' rx)) 1048528 = {}" if "in_block s b m" for b m
  proof -
    from that obtain d where d: "d \<in> live s" "region b m \<subseteq> region d 1048528" by (auto simp: in_block_def)
    have "region d 1048528 \<inter> region (rxd_data (rxdatas s3 rx)) 1048528 = {}"
      using d(1) fresh s3(3) by (intro live_regions_disjoint [of _ "memhdrs s3"]) (auto simp: rx_ok_def mem_view)
    with d(2) show ?thesis by (auto simp: g)
  qed
  moreover have "none_slept s ?s2" by (rule none_slept_same) (simp add: e1 adv_buf_def set_buf_def printstr_log_eq)
  from woken_later [OF woken_earlier [OF this s3(10)] rest_slept [OF s'(5)]] have "readers_woken (UdpSock i) s s'" .
  moreover have "wq_execute kcall s = Inr s'" using s1(1) call s3(1) s'(1) by simp
  moreover have "rx_ok s' rx" using s3(3) w(3,4) by (auto simp: rx_ok_def g s'(3))
  moreover have "pending s' y = pending s y" if "rx_ok s y" for y
    using s3(5) that by (simp add: pending_def rx_ok_def g f2)
  moreover have "live s - {w} \<subseteq> live s'" using fresh(3) s'(3) by blast
  ultimately show ?thesis using s'(2,4) s3(4,6,7,8) av g by (intro exI [of _ rx] exI [of _ s']) (simp add: pending_def)
qed

section \<open>From the wire to the work queue\<close>

text \<open>The receive interrupt puts no task to sleep.\<close>

lemma wq_push_slept: "wq_push f arg s = Inr s' \<Longrightarrow> none_slept s s'"
proof -
  assume "wq_push f arg s = Inr s'"
  then obtain a s1 l nx where s1: "mem_alloc sizeof_work_task ''wq_task'' s = Inr (a, s1)"
    "task_wakeup WqObj (set_rflags (get_rflags s1) ((io_cli (s1\<lparr>works := (works s1)(a := \<lparr>wt_func = f, wt_arg = arg\<rparr>)\<rparr>))\<lparr>wq := l, links := nx\<rparr>)) = Inr s'"
    by (auto simp: wq_push_def wq_append_def Let_def rflags_defs)
  have "none_slept s s1" by (rule rest_slept [OF mem_alloc_rest [OF s1(1)]])
  moreover have "none_slept s1 (set_rflags (get_rflags s1) ((io_cli (s1\<lparr>works := (works s1)(a := \<lparr>wt_func = f, wt_arg = arg\<rparr>)\<rparr>))\<lparr>wq := l, links := nx\<rparr>))"
    by (rule none_slept_same) (simp add: rflags_defs)
  ultimately show ?thesis using task_wakeup_wakes_all(1) [OF s1(2)] by (blast intro: none_slept_trans)
qed

lemma receive_one_slept:
  assumes "receive_one d s = Inr s'"
  shows "none_slept s s'"
proof -
  let ?len = "(opts1 d AND 0x00001fff) - 4"
  from assms obtain p s1 b s2 s4 where s4: "mem_alloc sizeof_pktbuf ''r8169_rx_pbuf'' s = Inr (p, s1)"
    "mem_alloc ?len ''r8169_rx_pbuf_buf'' s1 = Inr (b, s2)"
    "wq_push EtherRx (Some p) (s2\<lparr>mem8 := memcpy b (desc_addr d) ?len (mem8 s2),
       pktbufs := (pktbufs s2)(p := \<lparr>pkt_len = ?len, pb_buf = b, pb_head = b\<rparr>)\<rparr>) = Inr s4" "taskctl s' = taskctl s4"
    by (auto simp: receive_one_def Let_def)
  note n = rest_slept [OF mem_alloc_rest [OF s4(1)]] rest_slept [OF mem_alloc_rest [OF s4(2)]] wq_push_slept [OF s4(3)]
    none_slept_same [OF s4(4)]
  have "none_slept s2 s4" using n(3) by (simp add: none_slept_def tflag_def tcause_def fun_eq_iff)
  then show ?thesis by (intro none_slept_trans [OF n(1) none_slept_trans [OF n(2) none_slept_trans [OF _ n(4)]]])
qed

lemma receive_loop_slept: "receive_loop chip n s = Some r \<Longrightarrow> (case r of Inl e \<Rightarrow> True | Inr s' \<Rightarrow> none_slept s s')"
proof (erule receive_loop.raw_induct [rotated], goal_cases)
  case (1 loop chip n s r)
  have ih: "none_slept s2 x" if "loop c k s2 = Some (Inr x)" for c k s2 x using 1(1) [OF that] by simp
  show ?case using 1(2) by (auto simp: none_slept_refl split: if_splits sum.splits dest!: ih intro: none_slept_trans [OF receive_one_slept])
qed

lemma receive_packet_slept: "receive_packet chip s = Inr s' \<Longrightarrow> none_slept s s'"
  by (auto simp: receive_packet_def ended_def split: option.splits dest!: receive_loop_slept)

text \<open>The receive interrupt keeps the queues of all sockets.\<close>

lemma receive_packet_inv:
  assumes inv: "sock_inv sockqs squeue s ts ws Q" and "nic_ok s" and "n \<le> 1024" and "3 * n \<le> avail s"
    and "\<And>k. k < n \<Longrightarrow> chip k AND RxBufEmpty = 0 \<and> has_frame (rx_ring (nic s) ! slot s k)"
    and "chip n AND RxBufEmpty \<noteq> 0 \<or> n = 1024 \<or> owned (rx_ring (nic s) ! slot s n)"
  shows "\<exists>is s'. receive_packet chip s = Inr s' \<and> sock_inv sockqs squeue s' ts (ws @ is) Q \<and> length is = n \<and>
           (\<forall>k < n. delivered s (rx_ring (nic s) ! slot s k) s' (is ! k)) \<and> nic_ok s' \<and> rx_keeps s s' \<and> avail s' = avail s - 3 * n \<and>
           (\<forall>y \<in> live s. y \<notin> set ws \<longrightarrow> y \<notin> set is)"
proof -
  have w: "wq_inv s ts ws" and qok: "queues_ok sockqs (\<lambda>q. squeue q s) (links s) (live s - wq_blocks s ts ws) Q"
    using inv by (simp_all add: sock_inv_def)
  from receive_loop_ok [OF w assms(2-4), of chip 0] assms(5,6) obtain "is" s' where
    s': "receive_loop chip 0 s = Some (Inr s')" "wq_inv s' ts (ws @ is)" "length is = n" "nic_ok s'"
      "avail s' = avail s - 3 * n" "rx_keeps s s'" "\<forall>y \<in> live s. y \<notin> set ws \<longrightarrow> links s' y = links s y \<and> y \<notin> set is"
      "\<forall>k < n. delivered s (rx_ring (nic s) ! slot s k) s' (is ! k)" by auto
  have k: "timers s' = timers s" "net_state.more s' = net_state.more s" "live s \<subseteq> live s'" using s'(6) by (simp_all add: rx_keeps_def rx_same_def)
  have more: "sock_state.more s' = sock_state.more s" using k(2) by (cases s; cases s') simp
  have "queues_ok sockqs (\<lambda>q. squeue q s') (links s') (live s' - wq_blocks s' ts (ws @ is)) Q"
  proof (rule queues_ok_frame [OF qok])
    fix q x assume "q \<in> sockqs" "x \<in> set (Q q)"
    then have "x \<in> live s" "x \<notin> wq_blocks s ts ws" using queues_okD(2) [OF qok] by blast+
    then show "x \<in> live s' - wq_blocks s' ts (ws @ is)" "links s' x = links s x" using s'(7) k(1,3) by (auto simp: wq_blocks_def)
  qed (rule socks.get_more [OF more])
  with s' show ?thesis
    by (intro exI [of _ "is"] exI [of _ s']) (simp add: sock_inv_def receive_packet_def ended_def)
qed

text \<open>A frame copied to another place is the same frame.\<close>

lemma udp_frame_copied:
  assumes "bytes_at (mem8 s') b k = bytes_at (mem8 s) a k" and "42 \<le> k" and "netdev s' = netdev s"
  shows "udp_frame b port s' = udp_frame a port s"
proof -
  have m: "mem8 s' (b + of_nat i) = mem8 s (a + of_nat i)" if "i < 42" for i
    using arg_cong [OF assms(1), of "\<lambda>xs. xs ! i"] that assms(2) by simp
  have "rd16 (mem8 s') (b + 12) = rd16 (mem8 s) (a + 12)" "rd16 (mem8 s') (b + 36) = rd16 (mem8 s) (a + 36)"
    "rd32 (mem8 s') (b + 30) = rd32 (mem8 s) (a + 30)" "mem8 s' (b + 23) = mem8 s (a + 23)"
    using m [of 12] m [of 13] m [of 36] m [of 37] m [of 30] m [of 31] m [of 32] m [of 33] m [of 23]
    by (simp_all add: rd16_def rd32_def add.assoc)
  then show ?thesis by (simp add: udp_frame_def assms(3))
qed

lemma copied_tail:
  assumes "bytes_at m' b (i + n) = bytes_at m a (i + n)"
  shows "bytes_at m' (b + of_nat i) n = bytes_at m (a + of_nat i) n"
  using assms by (simp add: bytes_at_append)

end
