(* ===== verification/Syscall.thy ===== *)
theory Syscall
  imports Netrx
begin

text \<open>
  Both sides of the system call interface: the dispatcher of \<^verbatim>\<open>kernel/core/syscall.c\<close> and the stubs of
  \<^verbatim>\<open>kernel/user/user_syscall.c\<close>. Arguments travel as 64-bit registers; every handler narrows them to
  the types of the function it calls, the way C's conversions do.
\<close>

section \<open>Conversions\<close>

text \<open>\<open>uint64_t\<close> to \<open>int\<close> and back.\<close>

definition to_int :: "u64 \<Rightarrow> int" where
  "to_int x = sint (ucast x :: u32)"

definition from_int :: "int \<Rightarrow> u64" where
  "from_int i = of_int i"

text \<open>The bytes of the string at an address, up to its terminator.\<close>

partial_function (option) rd_str :: "bytes \<Rightarrow> addr \<Rightarrow> u8 list \<Rightarrow> u8 list option" where
  "rd_str m a acc = (if m a = 0 then Some (rev acc) else rd_str m (a + 1) (m a # acc))"

section \<open>The handlers\<close>

type_synonym 'a outcome = "(int \<times> 'a tcp_state_scheme) res"
type_synonym 'a others = "'a tcp_state_scheme \<Rightarrow> 'a tcp_state_scheme res"

definition syscall_print_str :: "u64 \<Rightarrow> 'a tcp_state_scheme \<Rightarrow> 'a outcome" where
  "syscall_print_str str s =
     (case rd_str (mem8 s) str [] of
        None \<Rightarrow> Inl Diverges
      | Some bs \<Rightarrow> Inr (0, printstr AppScreen bs s))"

definition syscall_print_num :: "u64 \<Rightarrow> 'a tcp_state_scheme \<Rightarrow> 'a outcome" where
  "syscall_print_num num s = Inr (0, printnum_app (ucast num) s)"

definition syscall_raw_socket :: "u64 \<Rightarrow> 'a tcp_state_scheme \<Rightarrow> 'a outcome" where
  "syscall_raw_socket proto s = raw_socket_open (ucast proto) s"

definition syscall_raw_socket_send :: "u64 \<Rightarrow> u64 \<Rightarrow> u64 \<Rightarrow> u64 \<Rightarrow> u64 \<Rightarrow> 'a tcp_state_scheme \<Rightarrow> 'a outcome" where
  "syscall_raw_socket_send sock dip buf sz ttl s =
     bindr (raw_socket_send (to_int sock) (ucast dip) buf (ucast sz) (ucast ttl) s) (\<lambda>s1. Inr (0, s1))"

definition syscall_raw_socket_recv :: "'a others \<Rightarrow> u64 \<Rightarrow> u64 \<Rightarrow> u64 \<Rightarrow> 'a tcp_state_scheme \<Rightarrow> 'a outcome" where
  "syscall_raw_socket_recv env sock buf sz s = raw_socket_recv env (to_int sock) buf (to_int sz) s"

definition syscall_udp_socket :: "'a tcp_state_scheme \<Rightarrow> 'a outcome" where
  "syscall_udp_socket s = udp_socket_open s"

definition syscall_udp_socket_send :: "u64 \<Rightarrow> u64 \<Rightarrow> u64 \<Rightarrow> u64 \<Rightarrow> u64 \<Rightarrow> 'a tcp_state_scheme \<Rightarrow> 'a outcome" where
  "syscall_udp_socket_send sock dip dport buf sz s =
     bindr (udp_socket_send (to_int sock) (ucast dip) (ucast dport) buf (ucast sz) s) (\<lambda>s1. Inr (0, s1))"

definition syscall_udp_socket_recv :: "'a others \<Rightarrow> u64 \<Rightarrow> u64 \<Rightarrow> u64 \<Rightarrow> 'a tcp_state_scheme \<Rightarrow> 'a outcome" where
  "syscall_udp_socket_recv env sock buf sz s = udp_socket_recv env (to_int sock) buf (to_int sz) s"

definition syscall_key_getc :: "'a others \<Rightarrow> u64 \<Rightarrow> 'a tcp_state_scheme \<Rightarrow> 'a outcome" where
  "syscall_key_getc env is_blocking s =
     bindr (key_getc env (to_int is_blocking \<noteq> 0) s) (\<lambda>(ch, s1). Inr (sint ch, s1))"

definition syscall_get_tick :: "'a tcp_state_scheme \<Rightarrow> 'a outcome" where
  "syscall_get_tick s = Inr (to_int (get_tick s), s)"

definition syscall_tcp_socket :: "'a tcp_state_scheme \<Rightarrow> 'a outcome" where
  "syscall_tcp_socket s = tcp_socket_open s"

definition syscall_tcp_socket_connect :: "'a others \<Rightarrow> u64 \<Rightarrow> u64 \<Rightarrow> u64 \<Rightarrow> 'a tcp_state_scheme \<Rightarrow> 'a outcome" where
  "syscall_tcp_socket_connect env sock dip dport s =
     tcp_socket_connect env (to_int sock) (ucast dip) (ucast dport) s"

definition syscall_tcp_socket_send :: "u64 \<Rightarrow> u64 \<Rightarrow> u64 \<Rightarrow> 'a tcp_state_scheme \<Rightarrow> 'a outcome" where
  "syscall_tcp_socket_send sock buf sz s =
     bindr (tcp_socket_send (to_int sock) buf (to_int sz) s) (\<lambda>(_, s1). Inr (0, s1))"

definition syscall_tcp_socket_recv :: "'a others \<Rightarrow> u64 \<Rightarrow> u64 \<Rightarrow> u64 \<Rightarrow> u64 \<Rightarrow> 'a tcp_state_scheme \<Rightarrow> 'a outcome" where
  "syscall_tcp_socket_recv env sock buf sz timeout_msec s =
     tcp_socket_recv env (to_int sock) buf (to_int sz) (to_int timeout_msec) s"

definition syscall_tcp_socket_close :: "'a others \<Rightarrow> u64 \<Rightarrow> 'a tcp_state_scheme \<Rightarrow> 'a outcome" where
  "syscall_tcp_socket_close env sock s = tcp_socket_close env (to_int sock) s"

definition syscall_tcp_socket_bind :: "u64 \<Rightarrow> u64 \<Rightarrow> u64 \<Rightarrow> 'a tcp_state_scheme \<Rightarrow> 'a outcome" where
  "syscall_tcp_socket_bind sock sip sport s = tcp_socket_bind (to_int sock) (ucast sip) (ucast sport) s"

definition syscall_tcp_socket_listen :: "u64 \<Rightarrow> 'a tcp_state_scheme \<Rightarrow> 'a outcome" where
  "syscall_tcp_socket_listen sock s = tcp_socket_listen (to_int sock) s"

definition syscall_tcp_socket_accept :: "'a others \<Rightarrow> u64 \<Rightarrow> 'a tcp_state_scheme \<Rightarrow> 'a outcome" where
  "syscall_tcp_socket_accept env sock s = tcp_socket_accept env (to_int sock) s"

definition syscall_handler ::
  "'a others \<Rightarrow> u64 \<Rightarrow> u64 \<Rightarrow> u64 \<Rightarrow> u64 \<Rightarrow> u64 \<Rightarrow> u64 \<Rightarrow> 'a tcp_state_scheme \<Rightarrow> 'a outcome" where
  "syscall_handler env rdi rsi rdx rcx r8 r9 s =
     (if rdi = 1 then syscall_print_str rsi s
      else if rdi = 2 then syscall_print_num rsi s
      else if rdi = 3 then syscall_raw_socket rsi s
      else if rdi = 4 then syscall_raw_socket_send rsi rdx rcx r8 r9 s
      else if rdi = 5 then syscall_raw_socket_recv env rsi rdx rcx s
      else if rdi = 6 then syscall_udp_socket s
      else if rdi = 7 then syscall_udp_socket_send rsi rdx rcx r8 r9 s
      else if rdi = 8 then syscall_udp_socket_recv env rsi rdx rcx s
      else if rdi = 9 then syscall_key_getc env rsi s
      else if rdi = 10 then syscall_get_tick s
      else if rdi = 11 then syscall_tcp_socket s
      else if rdi = 12 then syscall_tcp_socket_connect env rsi rdx rcx s
      else if rdi = 13 then syscall_tcp_socket_send rsi rdx rcx s
      else if rdi = 14 then syscall_tcp_socket_recv env rsi rdx rcx r8 s
      else if rdi = 15 then syscall_tcp_socket_close env rsi s
      else if rdi = 16 then syscall_tcp_socket_bind rsi rdx rcx s
      else if rdi = 17 then syscall_tcp_socket_listen rsi s
      else if rdi = 18 then syscall_tcp_socket_accept env rsi s
      else panic (printstr_app nl (printnum_log (ucast rdi) (printstr_log ''unknown syscall rdi:'' s))))"

definition init_syscall :: "u64 \<Rightarrow> 'a tcp_state_scheme \<Rightarrow> 'a tcp_state_scheme" where
  "init_syscall asm_syscall_handler s =
     printstr_log (''Initialized syscall'' @ nl) (set_syscall 0x80 asm_syscall_handler s)"

section \<open>The user side\<close>

text \<open>
  \<open>int 0x80\<close> goes through an interrupt gate: the processor clears the interrupt flag, and \<open>iretq\<close> restores
  the flags of the caller. The stub itself saves and restores every register but the result.
\<close>

definition sys_call :: "'a others \<Rightarrow> u64 \<Rightarrow> u64 \<Rightarrow> u64 \<Rightarrow> u64 \<Rightarrow> u64 \<Rightarrow> u64 \<Rightarrow> 'a tcp_state_scheme \<Rightarrow> 'a outcome" where
  "sys_call env n a1 a2 a3 a4 a5 s =
     bindr (syscall_handler env n a1 a2 a3 a4 a5 (io_cli s)) (\<lambda>(r, s1).
     Inr (r, set_rflags (get_rflags s) s1))"

definition sys_print_str :: "'a others \<Rightarrow> addr \<Rightarrow> 'a tcp_state_scheme \<Rightarrow> 'a outcome" where
  "sys_print_str env str s = sys_call env 1 str 0 0 0 0 s"

definition sys_print_num :: "'a others \<Rightarrow> u64 \<Rightarrow> 'a tcp_state_scheme \<Rightarrow> 'a outcome" where
  "sys_print_num env num s = sys_call env 2 num 0 0 0 0 s"

definition sys_raw_socket :: "'a others \<Rightarrow> u8 \<Rightarrow> 'a tcp_state_scheme \<Rightarrow> 'a outcome" where
  "sys_raw_socket env proto s = sys_call env 3 (ucast proto) 0 0 0 0 s"

definition sys_raw_socket_send :: "'a others \<Rightarrow> int \<Rightarrow> u32 \<Rightarrow> addr \<Rightarrow> int \<Rightarrow> int \<Rightarrow> 'a tcp_state_scheme \<Rightarrow> 'a outcome" where
  "sys_raw_socket_send env sock dip buf sz ttl s =
     sys_call env 4 (from_int sock) (ucast dip) buf (from_int sz) (from_int ttl) s"

definition sys_raw_socket_recv :: "'a others \<Rightarrow> int \<Rightarrow> addr \<Rightarrow> int \<Rightarrow> 'a tcp_state_scheme \<Rightarrow> 'a outcome" where
  "sys_raw_socket_recv env sock buf sz s = sys_call env 5 (from_int sock) buf (from_int sz) 0 0 s"

definition sys_udp_socket :: "'a others \<Rightarrow> 'a tcp_state_scheme \<Rightarrow> 'a outcome" where
  "sys_udp_socket env s = sys_call env 6 0 0 0 0 0 s"

definition sys_udp_socket_send :: "'a others \<Rightarrow> int \<Rightarrow> u32 \<Rightarrow> u16 \<Rightarrow> addr \<Rightarrow> int \<Rightarrow> 'a tcp_state_scheme \<Rightarrow> 'a outcome" where
  "sys_udp_socket_send env sock dip dport buf sz s =
     sys_call env 7 (from_int sock) (ucast dip) (ucast dport) buf (from_int sz) s"

definition sys_udp_socket_recv :: "'a others \<Rightarrow> int \<Rightarrow> addr \<Rightarrow> int \<Rightarrow> 'a tcp_state_scheme \<Rightarrow> 'a outcome" where
  "sys_udp_socket_recv env sock buf sz s = sys_call env 8 (from_int sock) buf (from_int sz) 0 0 s"

definition sys_key_getc :: "'a others \<Rightarrow> int \<Rightarrow> 'a tcp_state_scheme \<Rightarrow> 'a outcome" where
  "sys_key_getc env is_blocking s = sys_call env 9 (from_int is_blocking) 0 0 0 0 s"

definition sys_get_tick :: "'a others \<Rightarrow> 'a tcp_state_scheme \<Rightarrow> (u64 \<times> 'a tcp_state_scheme) res" where
  "sys_get_tick env s = bindr (sys_call env 10 0 0 0 0 0 s) (\<lambda>(r, s1). Inr (from_int r, s1))"

definition sys_tcp_socket :: "'a others \<Rightarrow> 'a tcp_state_scheme \<Rightarrow> 'a outcome" where
  "sys_tcp_socket env s = sys_call env 11 0 0 0 0 0 s"

definition sys_tcp_socket_connect :: "'a others \<Rightarrow> int \<Rightarrow> u32 \<Rightarrow> u16 \<Rightarrow> 'a tcp_state_scheme \<Rightarrow> 'a outcome" where
  "sys_tcp_socket_connect env sock dip dport s =
     sys_call env 12 (from_int sock) (ucast dip) (ucast dport) 0 0 s"

definition sys_tcp_socket_send :: "'a others \<Rightarrow> int \<Rightarrow> addr \<Rightarrow> int \<Rightarrow> 'a tcp_state_scheme \<Rightarrow> 'a outcome" where
  "sys_tcp_socket_send env sock buf sz s = sys_call env 13 (from_int sock) buf (from_int sz) 0 0 s"

definition sys_tcp_socket_recv :: "'a others \<Rightarrow> int \<Rightarrow> addr \<Rightarrow> int \<Rightarrow> int \<Rightarrow> 'a tcp_state_scheme \<Rightarrow> 'a outcome" where
  "sys_tcp_socket_recv env sock buf sz timeout_msec s =
     sys_call env 14 (from_int sock) buf (from_int sz) (from_int timeout_msec) 0 s"

definition sys_tcp_socket_close :: "'a others \<Rightarrow> int \<Rightarrow> 'a tcp_state_scheme \<Rightarrow> 'a outcome" where
  "sys_tcp_socket_close env sock s = sys_call env 15 (from_int sock) 0 0 0 0 s"

definition sys_tcp_socket_bind :: "'a others \<Rightarrow> int \<Rightarrow> u32 \<Rightarrow> u16 \<Rightarrow> 'a tcp_state_scheme \<Rightarrow> 'a outcome" where
  "sys_tcp_socket_bind env sock sip sport s =
     sys_call env 16 (from_int sock) (ucast sip) (ucast sport) 0 0 s"

definition sys_tcp_socket_listen :: "'a others \<Rightarrow> int \<Rightarrow> 'a tcp_state_scheme \<Rightarrow> 'a outcome" where
  "sys_tcp_socket_listen env sock s = sys_call env 17 (from_int sock) 0 0 0 0 s"

definition sys_tcp_socket_accept :: "'a others \<Rightarrow> int \<Rightarrow> 'a tcp_state_scheme \<Rightarrow> 'a outcome" where
  "sys_tcp_socket_accept env sock s = sys_call env 18 (from_int sock) 0 0 0 0 s"

section \<open>What the stubs reach\<close>

definition c_int :: "int \<Rightarrow> bool" where
  "c_int i = (- 2147483648 \<le> i \<and> i < 2147483648)"

lemma to_from_int: "c_int i \<Longrightarrow> to_int (from_int i) = i"
  by (simp add: c_int_def to_int_def from_int_def sint_uint unsigned_of_int uint_word_of_int_eq
      signed_take_bit_take_bit signed_take_bit_int_eq_self)

lemma ucast_back:
  "ucast (ucast (x :: u8) :: u64) = x" "ucast (ucast (y :: u16) :: u64) = y" "ucast (ucast (z :: u32) :: u64) = z"
  by (rule bit_word_eqI, auto simp: bit_simps)+

lemma ucast_from_int: "(ucast (from_int i) :: u32) = of_int i" "(ucast (from_int i) :: u8) = of_int i"
  by (simp_all add: from_int_def) (rule bit_word_eqI, auto simp: bit_simps bit_word_of_int_iff)+

lemma rd_str_bytes: "bytes_at m a (Suc (length bs)) = bs @ [0] \<Longrightarrow> 0 \<notin> set bs \<Longrightarrow> rd_str m a acc = Some (rev acc @ bs)"
proof (induction bs arbitrary: a acc)
  case Nil
  then show ?case by (subst rd_str.simps) (simp add: bytes_at_def)
next
  case (Cons b bs)
  from bytes_at_append [of m a 1 "Suc (length bs)"] Cons.prems(1)
  have "m a = b" "bytes_at m (a + 1) (Suc (length bs)) = bs @ [0]" by (simp_all add: bytes_at_def [of m a "Suc 0"])
  with Cons show ?case by (subst rd_str.simps) simp
qed

lemma tick_back: "from_int (to_int (ucast t)) = (if t < 2 ^ 31 then ucast t else scast (t :: u32))"
proof (cases "t < 2 ^ 31")
  case True
  then have "uint t < 2 ^ 31" by (simp add: word_less_alt)
  moreover have "- (2 ^ 31) \<le> uint t" by (rule order_trans [OF _ unsigned_greater_eq]) simp
  ultimately have "sint t = uint t" by (simp add: sint_uint) (rule signed_take_bit_int_eq_self, simp_all)
  then have "(scast t :: u64) = ucast t" by (simp only: scast_eq ucast_eq)
  with True show ?thesis by (simp add: from_int_def to_int_def ucast_back)
next
  case False
  then show ?thesis by (simp add: from_int_def to_int_def ucast_back)
qed

text \<open>A kernel function as a system call runs it: interrupts off, the caller's flags restored at the end.\<close>

definition kernel_entry :: "('a tcp_state_scheme \<Rightarrow> 'a outcome) \<Rightarrow> 'a tcp_state_scheme \<Rightarrow> 'a outcome" where
  "kernel_entry f s = bindr (f (io_cli s)) (\<lambda>(r, s1). Inr (r, set_rflags (get_rflags s) s1))"

definition zero_result :: "('s \<Rightarrow> 's res) \<Rightarrow> 's \<Rightarrow> (int \<times> 's) res" where
  "zero_result f s = bindr (f s) (\<lambda>s1. Inr (0, s1))"

text \<open>
  C20: each of the eighteen stubs of the user library reaches the kernel function it stands for, with the arguments
  it was given: the conversions to registers and back lose nothing of an \<open>int\<close>, an address or an unsigned
  argument. Two calls narrow: a printed number keeps its low 32 bits, and the tick count comes back through an
  \<open>int\<close>, exact below \<open>2 ^ 31\<close> and sign extended from there on. An unknown call number stops the kernel.
\<close>

theorem syscalls_reach_kernel:
  assumes "c_int sock" and "c_int sz" and "c_int msec" and "c_int blocking"
  shows "(cstr (mem8 s) str bs \<longrightarrow>
       sys_print_str env str s = kernel_entry (zero_result (\<lambda>s. Inr (printstr AppScreen bs s))) s) \<and>
    sys_print_num env num s = kernel_entry (zero_result (\<lambda>s. Inr (printnum_app (ucast num) s))) s \<and>
    sys_get_tick env s = Inr (if tick s < 2 ^ 31 then get_tick s else scast (tick s), s) \<and>
    sys_raw_socket env proto s = kernel_entry (raw_socket_open proto) s \<and>
    sys_raw_socket_send env sock dip buf sz ttl s =
      kernel_entry (zero_result (raw_socket_send sock dip buf (of_int sz) (of_int ttl))) s \<and>
    sys_raw_socket_recv env sock buf sz s = kernel_entry (raw_socket_recv env sock buf sz) s \<and>
    sys_udp_socket env s = kernel_entry udp_socket_open s \<and>
    sys_udp_socket_send env sock dip dport buf sz s =
      kernel_entry (zero_result (udp_socket_send sock dip dport buf (of_int sz))) s \<and>
    sys_udp_socket_recv env sock buf sz s = kernel_entry (udp_socket_recv env sock buf sz) s \<and>
    sys_key_getc env blocking s = kernel_entry (\<lambda>s. bindr (key_getc env (blocking \<noteq> 0) s) (\<lambda>(ch, s1). Inr (sint ch, s1))) s \<and>
    sys_tcp_socket env s = kernel_entry tcp_socket_open s \<and>
    sys_tcp_socket_connect env sock dip dport s = kernel_entry (tcp_socket_connect env sock dip dport) s \<and>
    sys_tcp_socket_send env sock buf sz s = kernel_entry (\<lambda>s. bindr (tcp_socket_send sock buf sz s) (\<lambda>(_, s1). Inr (0, s1))) s \<and>
    sys_tcp_socket_recv env sock buf sz msec s = kernel_entry (tcp_socket_recv env sock buf sz msec) s \<and>
    sys_tcp_socket_close env sock s = kernel_entry (tcp_socket_close env sock) s \<and>
    sys_tcp_socket_bind env sock dip dport s = kernel_entry (tcp_socket_bind sock dip dport) s \<and>
    sys_tcp_socket_listen env sock s = kernel_entry (tcp_socket_listen sock) s \<and>
    sys_tcp_socket_accept env sock s = kernel_entry (tcp_socket_accept env sock) s \<and>
    (n = 0 \<or> 18 < n \<longrightarrow> sys_call env n a1 a2 a3 a4 a5 s = Inl Panic)"
proof -
  note d = sys_call_def syscall_handler_def kernel_entry_def zero_result_def to_from_int [OF assms(1)] to_from_int [OF assms(2)]
    to_from_int [OF assms(3)] to_from_int [OF assms(4)] ucast_back ucast_from_int bindr_assoc
  have "sys_call env n a1 a2 a3 a4 a5 s = Inl Panic" if "n = 0 \<or> 18 < n"
    using that by (auto simp: sys_call_def syscall_handler_def panic_def)
  moreover have "sys_print_str env str s = kernel_entry (zero_result (\<lambda>s. Inr (printstr AppScreen bs s))) s" if "cstr (mem8 s) str bs"
    using rd_str_bytes [of "mem8 (io_cli s)" str bs "[]"] that
    by (simp add: d sys_print_str_def syscall_print_str_def cstr_def rflags_defs)
  moreover have "sys_print_num env num s = kernel_entry (zero_result (\<lambda>s. Inr (printnum_app (ucast num) s))) s"
    by (simp add: d sys_print_num_def syscall_print_num_def)
  moreover have "sys_get_tick env s = Inr (if tick s < 2 ^ 31 then get_tick s else scast (tick s), s)"
    by (simp add: d sys_get_tick_def syscall_get_tick_def tick_back get_tick_def rflags_defs)
  ultimately show ?thesis
    by (simp add: d sys_raw_socket_def sys_raw_socket_send_def sys_raw_socket_recv_def sys_udp_socket_def sys_udp_socket_send_def
      sys_udp_socket_recv_def sys_key_getc_def sys_tcp_socket_def sys_tcp_socket_connect_def sys_tcp_socket_send_def
      sys_tcp_socket_recv_def sys_tcp_socket_close_def sys_tcp_socket_bind_def sys_tcp_socket_listen_def sys_tcp_socket_accept_def
      syscall_raw_socket_def syscall_raw_socket_send_def syscall_raw_socket_recv_def syscall_udp_socket_def syscall_udp_socket_send_def
      syscall_udp_socket_recv_def syscall_key_getc_def syscall_tcp_socket_def syscall_tcp_socket_connect_def syscall_tcp_socket_send_def
      syscall_tcp_socket_recv_def syscall_tcp_socket_close_def syscall_tcp_socket_bind_def syscall_tcp_socket_listen_def syscall_tcp_socket_accept_def)
qed

end
