(* ===== verification/Kernel.thy ===== *)
theory Kernel
  imports Syscall
begin

text \<open>
  \<^verbatim>\<open>kernel/core/kernel.c\<close>: the boot sequence, the main loop that runs the work queue, and the idle
  task. What the linker and the hardware provide (addresses of the entry points and tables, the answers
  of the network chip) is one record of parameters.
\<close>

record platform =
  pl_tss :: u64
  pl_asm_int :: "nat \<Rightarrow> u64"
  pl_int_keyboard :: u64
  pl_int_pit :: u64
  pl_int_r8169 :: u64
  pl_syscall_handler :: u64
  pl_userland_main :: u64
  pl_idle_main :: u64
  pl_rx_ring :: u64
  pl_tx_ring :: u64
  pl_cfg :: "u32 \<Rightarrow> u32"
  pl_chip :: "nat \<Rightarrow> u8"
  pl_mac :: "nat \<Rightarrow> u8"

definition HOST_IP :: u32 where
  "HOST_IP = push_bit 24 192 OR push_bit 16 168 OR push_bit 8 2 OR 2"

definition GATEWAY_IP :: u32 where
  "GATEWAY_IP = push_bit 24 192 OR push_bit 16 168 OR push_bit 8 2 OR 1"

text \<open>\<open>initscreen\<close> to \<open>init_interrupt\<close> and \<open>init_keyboard\<close>, then the devices and tables.\<close>

definition init_core :: "platform \<Rightarrow> 'a tcp_state_scheme \<Rightarrow> 'a tcp_state_scheme res" where
  "init_core pl s =
     (let s1 = tr_load (init_tss (init_gdtidt (pl_tss pl) (pl_asm_int pl) (initscreen s)));
          s2 = init_keyboard (pl_int_keyboard pl) (init_interrupt s1);
          s3 = init_pit (pl_int_pit pl) (mem_init s2) in
      bindr (init_timer s3) (\<lambda>s4. Inr (wq_init (init_syscall (pl_syscall_handler pl) s4))))"

definition init_net :: "platform \<Rightarrow> 'a tcp_state_scheme \<Rightarrow> 'a tcp_state_scheme res" where
  "init_net pl s =
     (let s1 = init_arptable (raw_socket_init (tcp_socket_init (udp_socket_init s))) in
      bindr (init_r8169 (pl_cfg pl) (pl_chip pl) (pl_mac pl) (pl_rx_ring pl) (pl_tx_ring pl) (pl_int_r8169 pl) s1)
        (\<lambda>s2. Inr (netdev_set_netmask 24 (netdev_set_gw_addr GATEWAY_IP (netdev_set_ip_addr HOST_IP s2)))))"

definition start_tasks :: "platform \<Rightarrow> 'a tcp_state_scheme \<Rightarrow> 'a tcp_state_scheme res" where
  "start_tasks pl s =
     bindr (task_init s) (\<lambda>(_, s1).
     bindr (task_start (pl_userland_main pl) TASK_PRIORITY_HIGH True s1) (\<lambda>(_, s2).
     bindr (task_start (pl_idle_main pl) TASK_PRIORITY_LOW False s2) (\<lambda>(_, s3).
     Inr (io_sti s3))))"

text \<open>\<open>kstart\<close> up to its endless loop.\<close>

definition kstart :: "platform \<Rightarrow> 'a tcp_state_scheme \<Rightarrow> 'a tcp_state_scheme res" where
  "kstart pl s = bindr (init_core pl s) (\<lambda>s1. bindr (init_net pl s1) (start_tasks pl))"

text \<open>One round of the endless loop.\<close>

definition main_step :: "('a tcp_state_scheme \<Rightarrow> 'a tcp_state_scheme res) \<Rightarrow> 'a tcp_state_scheme \<Rightarrow> 'a tcp_state_scheme res" where
  "main_step env s =
     (let s1 = io_cli s in
      if wq_empty s1 then bindr (task_sleep env wq_cond s1) (\<lambda>s2. Inr (io_sti s2))
      else wq_execute kcall (io_sti s1))"

text \<open>One round of \<open>task_idle_main\<close>.\<close>

definition idle_step :: "('a tcp_state_scheme \<Rightarrow> 'a tcp_state_scheme res) \<Rightarrow> 'a tcp_state_scheme \<Rightarrow> 'a tcp_state_scheme res" where
  "idle_step env s = io_hlt env s"

section \<open>What booting leaves alone\<close>

text \<open>The parts of the state the boot sequence builds up. Console, tables and ports are not among them.\<close>

definition boot_view ::
  "'a net_state_scheme \<Rightarrow>
     (memtbl \<times> (addr \<Rightarrow> memhdr) \<times> addr linkmap \<times> addr listctl \<times> (addr \<Rightarrow> timer_entry) \<times> addr listctl) \<times>
     (TASKCTL \<times> nat linkmap) \<times> r8169_device_t \<times> net_device \<times> 'a" where
  "boot_view s =
     ((freemem s, memhdrs s, links s, timer_list s, timers s, wq s), (taskctl s, task_links s), nic s, netdev s, net_state.more s)"

named_theorems boot_simps

lemma view_basic [boot_simps]:
  "boot_view (printstr_log m s) = boot_view s" "boot_view (set_idt i a s) = boot_view s" "boot_view (set_syscall i a s) = boot_view s"
  "boot_view (io_out8 p v s) = boot_view s" "boot_view (io_out16 p w s) = boot_view s" "boot_view (io_out32 p x s) = boot_view s"
  "boot_view (s\<lparr>console := c\<rparr>) = boot_view s" "boot_view (s\<lparr>idtr := r\<rparr>) = boot_view s" "boot_view (io_sti s) = boot_view s"
  by (simp_all add: boot_view_def set_idt_def set_syscall_def machine_simps)

lemma view_fold_idt [boot_simps]: "boot_view (fold (\<lambda>i. set_idt (h i) (a i)) xs s) = boot_view s"
  by (induction xs arbitrary: s) (simp_all add: boot_simps)

lemma view_register [boot_simps]: "boot_view (register_interrupt irq a s) = boot_view s"
  by (simp add: register_interrupt_def boot_simps pic_clearmask_def Let_def) (simp add: boot_view_def io_defs)

lemma view_init [boot_simps]:
  "boot_view (initscreen s) = boot_view s" "boot_view (init_gdtidt tss h s) = boot_view s" "boot_view (init_tss s) = boot_view s"
  "boot_view (tr_load s) = boot_view s" "boot_view (init_interrupt s) = boot_view s" "boot_view (init_keyboard a s) = boot_view s"
  "boot_view (init_pit a s) = boot_view s" "boot_view (init_syscall a s) = boot_view s"
proof -
  show "boot_view (initscreen s) = boot_view s" by (simp add: initscreen_def Let_def boot_simps)
  have "boot_view (s\<lparr>gdt := d, gdt_tss := t, gdtr := r\<rparr>) = boot_view s" for d t r by (simp add: boot_view_def)
  then show "boot_view (init_gdtidt tss h s) = boot_view s" by (simp only: init_gdtidt_def Let_def boot_simps)
  show "boot_view (init_tss s) = boot_view s" by (simp add: init_tss_def boot_simps) (simp add: boot_view_def)
  show "boot_view (tr_load s) = boot_view s" by (simp add: tr_load_def boot_view_def)
  show "boot_view (init_interrupt s) = boot_view s"
    by (simp add: init_interrupt_def init_pic_def Let_def boot_simps) (simp add: boot_view_def machine_simps)
  show "boot_view (init_keyboard a s) = boot_view s"
    by (simp add: init_keyboard_def Let_def boot_simps) (simp add: boot_view_def view_register [unfolded boot_view_def])
  show "boot_view (init_pit a s) = boot_view s" by (simp add: init_pit_def Let_def boot_simps) (simp add: boot_view_def)
  show "boot_view (init_syscall a s) = boot_view s" by (simp add: init_syscall_def boot_simps)
qed

lemma view_fields:
  assumes "boot_view s' = boot_view s"
  shows "freemem s' = freemem s" "memhdrs s' = memhdrs s" "links s' = links s" "timer_list s' = timer_list s" "timers s' = timers s"
    "wq s' = wq s" "taskctl s' = taskctl s" "task_links s' = task_links s" "nic s' = nic s" "netdev s' = netdev s"
    "net_state.more s' = net_state.more s"
  using assms by (simp_all add: boot_view_def)

lemma init_core_ok:
  assumes "length (mt_addr (freemem s)) = MEM_TABLE_SIZE"
  shows "\<exists>a s'. init_core pl s = Inr s' \<and> timer_inv s' [a] \<and> wq s' = list_init \<and> avail s' = 1489 \<and> live s' = {a} \<and>
           taskctl s' = taskctl s \<and> task_links s' = task_links s \<and> nic s' = nic s \<and> netdev s' = netdev s \<and>
           net_state.more s' = net_state.more s"
proof -
  define s2 where "s2 = init_keyboard (pl_int_keyboard pl) (init_interrupt (tr_load (init_tss (init_gdtidt (pl_tss pl) (pl_asm_int pl) (initscreen s)))))"
  have v2: "boot_view s2 = boot_view s" by (simp add: s2_def boot_simps)
  let ?s3 = "init_pit (pl_int_pit pl) (mem_init s2)"
  have "length (mt_addr (freemem s2)) = MEM_TABLE_SIZE" using assms view_fields(1) [OF v2] by simp
  from mem_init_inv [OF this] have m: "mem_inv (mem_init s2)" "avail (mem_init s2) = MEM_BLOCKS" "live (mem_init s2) = {}" by simp_all
  have v3: "boot_view ?s3 = boot_view (mem_init s2)" by (simp add: boot_simps)
  have m3: "mem_inv ?s3" "avail ?s3 = 1490" "live ?s3 = {}"
    using m view_fields(1,2) [OF v3] by (simp_all add: mem_view MEM_BLOCKS_def)
  have f3: "taskctl ?s3 = taskctl s" "task_links ?s3 = task_links s" "nic ?s3 = nic s" "netdev ?s3 = netdev s"
    "net_state.more ?s3 = net_state.more s"
    using view_fields [OF v2] view_fields [OF v3]
    by (simp_all add: mem_init_def machine_simps split: prod.splits)
  from init_timer_ok [OF m3(1)] m3(2,3) obtain a s4 where
    s4: "init_timer ?s3 = Inr s4" "timer_inv s4 [a]" "live s4 = {a}" "avail s4 = 1489" by auto
  have f4: "taskctl s4 = taskctl ?s3" "task_links s4 = task_links ?s3" "nic s4 = nic ?s3" "netdev s4 = netdev ?s3"
    "net_state.more s4 = net_state.more ?s3"
    using s4(1) by (auto simp: init_timer_def Let_def machine_simps dest!: mem_alloc_rest simp: mem_rest_def)
  let ?s5 = "init_syscall (pl_syscall_handler pl) s4"
  have v5: "boot_view ?s5 = boot_view s4" by (simp add: boot_simps)
  let ?s6 = "wq_init ?s5"
  have f6: "freemem ?s6 = freemem s4" "memhdrs ?s6 = memhdrs s4" "links ?s6 = links s4" "timer_list ?s6 = timer_list s4" "timers ?s6 = timers s4"
    "taskctl ?s6 = taskctl s4" "task_links ?s6 = task_links s4" "nic ?s6 = nic s4" "netdev ?s6 = netdev s4" "net_state.more ?s6 = net_state.more s4"
    "wq ?s6 = list_init"
    using view_fields [OF v5] by (simp_all add: wq_init_def machine_simps)
  have "init_core pl s = Inr ?s6" using s4(1) by (simp add: init_core_def Let_def s2_def)
  moreover have "timer_inv ?s6 [a]"
    by (rule timer_inv_frame [OF s4(2)]) (use s4(2) f6 in \<open>auto simp: timer_inv_def mem_view\<close>)
  moreover have "avail ?s6 = 1489" "live ?s6 = {a}" using s4(3,4) f6(1,2) by (simp_all add: mem_view)
  ultimately show ?thesis using f6 f4 f3 by (intro exI [of _ a] exI [of _ ?s6]) simp
qed

text \<open>The network card is on the bus and comes out of its reset.\<close>

definition card_present :: "platform \<Rightarrow> bool" where
  "card_present pl =
     (list_ex (\<lambda>(bus, slot). pl_cfg pl (pci_addr bus slot 0) = 0x813610ec) pci_slots \<and> wait_reset (pl_chip pl) 0 \<noteq> None)"

lemma pci_scan_frame: "\<exists>l. snd (pci_scan cfg v d xs s) = s\<lparr>io_log := l\<rparr>"
proof (induction xs arbitrary: s)
  case Nil
  show ?case by (intro exI [of _ "io_log s"]) simp
next
  case (Cons x xs)
  obtain bus slot where x: "x = (bus, slot)" by fastforce
  have r: "\<exists>l. snd (pci_scan cfg v d xs (s\<lparr>io_log := k\<rparr>)) = s\<lparr>io_log := l\<rparr>" for k using Cons [of "s\<lparr>io_log := k\<rparr>"] by simp
  show ?case unfolding x by (simp add: pci_read16_def pci_read8_def pci_read32_def io_defs Let_def r) blast
qed

lemma pci_scan_finds:
  assumes "list_ex (\<lambda>(bus, slot). cfg (pci_addr bus slot 0) = 0x813610ec) xs"
  shows "fst (pci_scan cfg 0x10ec 0x8136 xs s) \<noteq> None"
  using assms
proof (induction xs arbitrary: s)
  case (Cons x xs)
  obtain bus slot where x: "x = (bus, slot)" by fastforce
  show ?case
  proof (cases "cfg (pci_addr bus slot 0) = 0x813610ec")
    case True
    then show ?thesis by (simp add: x pci_read16_def pci_read8_def pci_read32_def Let_def)
  next
    case False
    then have "fst (pci_scan cfg 0x10ec 0x8136 xs s') \<noteq> None" for s' :: "'a machine_scheme" using Cons by (simp add: x)
    then show ?thesis by (simp add: x pci_read16_def pci_read8_def pci_read32_def Let_def)
  qed
qed simp

lemma init_r8169_ok:
  assumes "card_present pl" and "length (tx_ring (nic s)) = TX_RING_SIZE"
  shows "\<exists>s'. init_r8169 (pl_cfg pl) (pl_chip pl) (pl_mac pl) rxa txa h s = Inr s' \<and> nic_ok s' \<and>
           length (hw_addr (netdev s')) = 6 \<and>
           freemem s' = freemem s \<and> memhdrs s' = memhdrs s \<and> links s' = links s \<and> timer_list s' = timer_list s \<and> timers s' = timers s \<and>
           wq s' = wq s \<and> taskctl s' = taskctl s \<and> task_links s' = task_links s \<and> net_state.more s' = net_state.more s"
proof -
  let ?s1 = "s\<lparr>nic := (nic s)\<lparr>cur_rx := 0, cur_tx := 0\<rparr>\<rparr>"
  obtain found s2 where f: "pci_find_device (pl_cfg pl) 0x10ec 0x8136 ?s1 = (found, s2)" by fastforce
  from pci_scan_finds [where cfg = "pl_cfg pl" and xs = pci_slots and s = ?s1] f assms(1) obtain dev where dev: "found = Some dev"
    by (auto simp: pci_find_device_def card_present_def)
  from pci_scan_frame [where cfg = "pl_cfg pl" and v = "0x10ec" and d = "0x8136" and xs = pci_slots and s = ?s1] f obtain l where s2: "s2 = ?s1\<lparr>io_log := l\<rparr>"
    by (auto simp: pci_find_device_def)
  obtain k where k: "wait_reset (pl_chip pl) 0 = Some k" using assms(1) by (auto simp: card_present_def)
  let ?io = "ucast (pci_bar0 dev) AND NOT 3 :: u32"
  define s3 where "s3 = s2\<lparr>nic := (nic s2)\<lparr>pcidev := dev, ioaddr := ?io\<rparr>\<rparr>"
  define s4 where "s4 = io_out8 (reg_port ?io 0x37) CmdReset (io_out8 (reg_port ?io 0x52) 0x01 (pci_enable_bus_master (pl_cfg pl) dev s3))"
  have v4: "boot_view s4 = boot_view s3"
    by (simp add: s4_def boot_simps pci_enable_bus_master_def pci_read32_def pci_write32_def Let_def)
  define o8 where "o8 = (\<lambda>r. io_out8 (reg_port ?io r) :: u8 \<Rightarrow> 'a net_state_scheme \<Rightarrow> 'a net_state_scheme)"
  define o16 where "o16 = (\<lambda>r. io_out16 (reg_port ?io r) :: u16 \<Rightarrow> 'a net_state_scheme \<Rightarrow> 'a net_state_scheme)"
  define o32 where "o32 = (\<lambda>r. io_out32 (reg_port ?io r) :: u32 \<Rightarrow> 'a net_state_scheme \<Rightarrow> 'a net_state_scheme)"
  note o = o8_def o16_def o32_def
  define s11 where "s11 = o16 0x3c (0x8000 OR 0x4000 OR 0x10 OR 0x40 OR 0x20 OR 0x08 OR 0x04 OR 0x02 OR 0x01)
    (o32 0x24 (ucast (drop_bit 32 txa)) (o32 0x20 (ucast txa) (o8 0xec 0x3f (o32 0x40 (push_bit 24 3 OR push_bit 8 7)
    (o32 0xe8 (ucast (drop_bit 32 rxa)) (o32 0xe4 (ucast rxa) (o16 0xda (ucast RX_BUF_SIZE)
    (o32 0x44 (push_bit 13 7 OR push_bit 8 7 OR 0x08 OR 0x04 OR 0x02 OR 0x01) (o8 0x37 0x0C (o8 0x50 0xC0 (setup_rx_descriptors s4)))))))))))"
  define s12 where "s12 = register_interrupt (unat (pci_irq dev)) h (o8 0x50 0x00 s11)"
  have v12: "boot_view s12 = boot_view (setup_rx_descriptors s4)" by (simp only: s12_def s11_def o boot_simps)
  have eq: "init_r8169 (pl_cfg pl) (pl_chip pl) (pl_mac pl) rxa txa h s =
      Inr (printstr_log (''Initialized r8169 deriver'' @ nl) (netdev_set_tx_handler R8169Tx (netdev_set_hw_addr (map (pl_mac pl) [0..<6]) s12)))"
    by (simp only: init_r8169_def Let_def f dev k s12_def s11_def s4_def s3_def o prod.case option.case)
  let ?s5 = "setup_rx_descriptors s4"
  have f5: "freemem ?s5 = freemem s" "memhdrs ?s5 = memhdrs s" "links ?s5 = links s" "timer_list ?s5 = timer_list s" "timers ?s5 = timers s"
    "wq ?s5 = wq s" "taskctl ?s5 = taskctl s" "task_links ?s5 = task_links s" "net_state.more ?s5 = net_state.more s"
    "tx_ring (nic ?s5) = tx_ring (nic s)" "length (rx_ring (nic ?s5)) = RX_RING_SIZE" "cur_rx (nic ?s5) = 0" "cur_tx (nic ?s5) = 0"
    using view_fields [OF v4] by (simp_all add: setup_rx_descriptors_def Let_def s3_def s2)
  note f12 = view_fields [OF v12] f5
  let ?s' = "printstr_log (''Initialized r8169 deriver'' @ nl) (netdev_set_tx_handler R8169Tx (netdev_set_hw_addr (map (pl_mac pl) [0..<6]) s12))"
  have "nic_ok ?s'" "length (hw_addr (netdev ?s')) = 6"
    using assms(2) by (simp_all add: nic_ok_def netdev_set_tx_handler_def netdev_set_hw_addr_def printstr_log_eq f12 RX_RING_SIZE_def TX_RING_SIZE_def ETHER_ADDR_LEN_def)
  then show ?thesis
    unfolding eq
    by (intro exI [of _ ?s']) (simp add: netdev_set_tx_handler_def netdev_set_hw_addr_def printstr_log_eq f12)
qed

definition boot_ok :: "'a tcp_state_scheme \<Rightarrow> bool" where
  "boot_ok s =
     (length (mt_addr (freemem s)) = MEM_TABLE_SIZE \<and> length (tasks (taskctl s)) = MAX_TASK \<and> length (lists (taskctl s)) = 2 \<and>
      length (tx_ring (nic s)) = TX_RING_SIZE \<and> tables_ok s \<and> length (table (arptable s)) = MAX_ARP_TABLE)"

text \<open>Sockets with nothing in their queues.\<close>

lemma init_net_ok:
  assumes "card_present pl" and "length (tx_ring (nic s)) = TX_RING_SIZE" and k: "tables_ok s" and "length (table (arptable s)) = MAX_ARP_TABLE"
  shows "\<exists>s'. init_net pl s = Inr s' \<and> nic_ok s' \<and> tables_ok s' \<and> arp_ok s' \<and> next_entry_idx (arptable s') = 0 \<and>
           ip_addr (netdev s') = HOST_IP \<and> (\<forall>q \<in> sockqs. squeue q s' = list_init) \<and>
           freemem s' = freemem s \<and> memhdrs s' = memhdrs s \<and> links s' = links s \<and> timer_list s' = timer_list s \<and> timers s' = timers s \<and>
           wq s' = wq s \<and> taskctl s' = taskctl s \<and> task_links s' = task_links s"
proof -
  let ?s1 = "init_arptable (raw_socket_init (tcp_socket_init (udp_socket_init s)))"
  note d = init_arptable_def raw_socket_init_def tcp_socket_init_def udp_socket_init_def printstr_log_eq Let_def
  have f1: "nic ?s1 = nic s" "freemem ?s1 = freemem s" "memhdrs ?s1 = memhdrs s" "links ?s1 = links s" "timer_list ?s1 = timer_list s"
    "timers ?s1 = timers s" "wq ?s1 = wq s" "taskctl ?s1 = taskctl s" "task_links ?s1 = task_links s" "tables_ok ?s1"
    "arp_ok ?s1" "next_entry_idx (arptable ?s1) = 0"
    using assms(3,4) by (simp_all add: d tables_ok_def arp_ok_def)
  have q1: "squeue q ?s1 = list_init" if "q \<in> sockqs" for q
    using that k by (cases q) (simp_all add: d tables_ok_def)
  have "length (tx_ring (nic ?s1)) = TX_RING_SIZE" using assms(2) f1(1) by simp
  from init_r8169_ok [OF assms(1) this, of "pl_rx_ring pl" "pl_tx_ring pl" "pl_int_r8169 pl"] obtain s2 where
    s2: "init_r8169 (pl_cfg pl) (pl_chip pl) (pl_mac pl) (pl_rx_ring pl) (pl_tx_ring pl) (pl_int_r8169 pl) ?s1 = Inr s2" "nic_ok s2"
      "freemem s2 = freemem ?s1" "memhdrs s2 = memhdrs ?s1" "links s2 = links ?s1" "timer_list s2 = timer_list ?s1" "timers s2 = timers ?s1"
      "wq s2 = wq ?s1" "taskctl s2 = taskctl ?s1" "task_links s2 = task_links ?s1" "net_state.more s2 = net_state.more ?s1" by blast
  let ?s3 = "netdev_set_netmask 24 (netdev_set_gw_addr GATEWAY_IP (netdev_set_ip_addr HOST_IP s2))"
  note nd = netdev_set_netmask_def netdev_set_gw_addr_def netdev_set_ip_addr_def
  have m3: "net_state.more ?s3 = net_state.more ?s1" using s2(11) by (simp add: nd)
  have t3: "tables_ok ?s3 = tables_ok ?s1" "arp_ok ?s3 = arp_ok ?s1" "arptable ?s3 = arptable ?s1" "squeue q ?s3 = squeue q ?s1" for q
    using m3 by (cases ?s3; cases ?s1; cases q; simp add: tables_ok_def arp_ok_def)+
  have "init_net pl s = Inr ?s3" using s2(1) by (simp add: init_net_def Let_def)
  moreover have "nic_ok ?s3" "ip_addr (netdev ?s3) = HOST_IP" using s2(2) by (simp_all add: nic_ok_def nd)
  ultimately show ?thesis
    using s2(3-10) f1 q1 t3 by (intro exI [of _ ?s3]) (simp add: nd)
qed

section \<open>The kernel after booting\<close>

lemma task_init_more: "task_init s = Inr (n, s') \<Longrightarrow> task_state.more s' = task_state.more s \<and> links s' = links s"
  by (auto simp: task_init_def Let_def printstr_log_eq machine_simps)

lemma task_start_more:
  assumes "task_start func priority user s = Inr (n, s')"
  shows "task_state.more s' = task_state.more s \<and> links s' = links s" "current_task (taskctl s') = current_task (taskctl s)"
  using assms
  by (auto simp: task_start_def ready_push_def Let_def mem_rest_def dest!: mem_alloc_rest)

lemma more_task_fields:
  assumes "task_state.more s' = task_state.more (s :: 'a tcp_state_scheme)"
  shows "timer_list s' = timer_list s" "timers s' = timers s" "wq s' = wq s" "nic s' = nic s" "netdev s' = netdev s"
    "arptable s' = arptable s" "raw_sockets s' = raw_sockets s" "udp_sockets s' = udp_sockets s" "tcp_sockets s' = tcp_sockets s"
  using assms by (cases s, cases s', simp)+

lemma start_tasks_ok:
  assumes "length (tasks (taskctl s)) = MAX_TASK" and "length (lists (taskctl s)) = 2" and m: "mem_inv s" "2 \<le> avail s"
  shows "\<exists>s'. start_tasks pl s = Inr s' \<and> task_state.more s' = task_state.more s \<and> links s' = links s \<and> sched_fine s' \<and>
           mem_inv s' \<and> avail s' = avail s - 2 \<and> live s \<subseteq> live s' \<and> interrupts_on s' \<and>
           current_task (taskctl s') = 0 \<and> next_task_id (taskctl s') = 3 \<and>
           sched_inv s' (\<lambda>p. if p = TASK_PRIORITY_HIGH then [1] else if p = TASK_PRIORITY_LOW then [2] else [])"
proof -
  from task_init_ok [OF assms(1,2)] obtain s1 where
    s1: "task_init s = Inr (0, s1)" "sched_inv s1 (\<lambda>_. [])" "current_task (taskctl s1) = 0" "next_task_id (taskctl s1) = 1"
      "tflag s1 0 = TASK_RUNNING" "freemem s1 = freemem s" "memhdrs s1 = memhdrs s" by blast
  have m1: "mem_inv s1" "avail s1 = avail s" "live s1 = live s" using m(1) s1(6,7) by (simp_all add: mem_view)
  have p: "TASK_PRIORITY_HIGH < 2" "TASK_PRIORITY_LOW < 2" "TASK_PRIORITY_LOW \<noteq> TASK_PRIORITY_HIGH" by (simp_all add: prio_defs)
  have "0 < avail s1" "next_task_id (taskctl s1) < MAX_TASK" using m m1 s1(4) by (simp_all add: MAX_TASK_def)
  from task_start_ok [OF s1(2) m1(1) this p(1), of "pl_userland_main pl" True] s1(4) obtain ks2 s2 where
    s2: "task_start (pl_userland_main pl) TASK_PRIORITY_HIGH True s1 = Inr (1, s2)"
      "sched_inv s2 ((\<lambda>_. [])(TASK_PRIORITY_HIGH := [1]))" "mem_inv s2" "live s2 = insert ks2 (live s1)" "avail s2 = avail s1 - 1"
      "next_task_id (taskctl s2) = 2" "tflag s2 = (tflag s1)(1 := TASK_RUNNING)" by auto
  have "0 < avail s2" "next_task_id (taskctl s2) < MAX_TASK" using m m1 s2(5,6) by (simp_all add: MAX_TASK_def)
  from task_start_ok [OF s2(2,3) this p(2), of "pl_idle_main pl" False] s2(6) p(3) obtain ks3 s3 where
    s3: "task_start (pl_idle_main pl) TASK_PRIORITY_LOW False s2 = Inr (2, s3)"
      "sched_inv s3 ((\<lambda>_. [])(TASK_PRIORITY_HIGH := [1], TASK_PRIORITY_LOW := [2]))" "mem_inv s3" "live s3 = insert ks3 (live s2)" "avail s3 = avail s2 - 1"
      "next_task_id (taskctl s3) = 3" "tflag s3 = (tflag s2)(2 := TASK_RUNNING)" by auto
  note more = task_init_more [OF s1(1)] task_start_more [OF s2(1)] task_start_more [OF s3(1)]
  let ?s' = "io_sti s3"
  have q: "(\<lambda>_. [])(TASK_PRIORITY_HIGH := [1], TASK_PRIORITY_LOW := [2]) =
      (\<lambda>p. if p = TASK_PRIORITY_HIGH then [1] else if p = TASK_PRIORITY_LOW then [2] else [])"
    using p(3) by auto
  have f: "taskctl ?s' = taskctl s3" "task_links ?s' = task_links s3" "mem_inv ?s' = mem_inv s3" "avail ?s' = avail s3" "live ?s' = live s3"
    "task_state.more ?s' = task_state.more s3" "links ?s' = links s3"
    by (simp_all add: io_sti_def mem_view)
  have inv: "sched_inv ?s' (\<lambda>p. if p = TASK_PRIORITY_HIGH then [1] else if p = TASK_PRIORITY_LOW then [2] else [])"
    using s3(2) f(1,2) unfolding q by (simp add: sched_view)
  have "tflag s3 0 = TASK_RUNNING" using s1(5) s2(7) s3(7) by simp
  then have "cur_running (taskctl ?s')" using f(1) more s1(3) by (simp add: cur_running_def tflag_def)
  with inv have "sched_fine ?s'" by (auto simp: sched_fine_def sched_view)
  moreover have "start_tasks pl s = Inr ?s'" using s1(1) s2(1) s3(1) by (simp add: start_tasks_def)
  ultimately show ?thesis
    using inv f more s1(3) s2 s3 m1 cli_sti [of s3] by (intro exI [of _ ?s']) auto
qed

lemma kernel_boots:
  assumes "boot_ok s" and "card_present pl"
  shows "\<exists>sentinel s'. kstart pl s = Inr s' \<and>
           sock_inv sockqs squeue s' [sentinel] [] (\<lambda>_. []) \<and> tables_ok s' \<and> nic_ok s' \<and> arp_ok s' \<and>
           next_entry_idx (arptable s') = 0 \<and> ip_addr (netdev s') = HOST_IP \<and>
           current_task (taskctl s') = 0 \<and> next_task_id (taskctl s') = 3 \<and>
           sched_inv s' (\<lambda>p. if p = TASK_PRIORITY_HIGH then [1] else if p = TASK_PRIORITY_LOW then [2] else []) \<and>
           avail s' = 1487 \<and> interrupts_on s'"
proof -
  note b = assms(1) [unfolded boot_ok_def]
  from b init_core_ok [of s pl] obtain a s1 where
    s1: "init_core pl s = Inr s1" "timer_inv s1 [a]" "wq s1 = list_init" "avail s1 = 1489"
      "taskctl s1 = taskctl s" "task_links s1 = task_links s" "nic s1 = nic s" "net_state.more s1 = net_state.more s" by blast
  have n1: "tables_ok s1" "length (table (arptable s1)) = MAX_ARP_TABLE" "length (tx_ring (nic s1)) = TX_RING_SIZE"
    using b s1(7,8) by (cases s; cases s1; simp add: tables_ok_def)+
  from init_net_ok [OF assms(2) n1(3,1,2)] obtain s2 where
    s2: "init_net pl s1 = Inr s2" "nic_ok s2" "tables_ok s2" "arp_ok s2" "next_entry_idx (arptable s2) = 0" "ip_addr (netdev s2) = HOST_IP"
      "\<forall>q \<in> sockqs. squeue q s2 = list_init" "freemem s2 = freemem s1" "memhdrs s2 = memhdrs s1" "links s2 = links s1"
      "timer_list s2 = timer_list s1" "timers s2 = timers s1" "wq s2 = wq s1" "taskctl s2 = taskctl s1" by blast
  have m2: "mem_inv s2" "avail s2 = 1489" "live s2 = live s1" using timer_inv_mem [OF s1(2)] s1(4) s2(8,9) by (simp_all add: mem_view)
  have "length (tasks (taskctl s2)) = MAX_TASK" "length (lists (taskctl s2)) = 2" "2 \<le> avail s2"
    using b s2(14) s1(5) m2(2) by simp_all
  from start_tasks_ok [OF this(1,2) m2(1) this(3), of pl] obtain s3 where
    s3: "start_tasks pl s2 = Inr s3" "task_state.more s3 = task_state.more s2" "sched_fine s3" "mem_inv s3" "avail s3 = avail s2 - 2"
      "live s2 \<subseteq> live s3" "links s3 = links s2" "interrupts_on s3" "current_task (taskctl s3) = 0" "next_task_id (taskctl s3) = 3"
      "sched_inv s3 (\<lambda>p. if p = TASK_PRIORITY_HIGH then [1] else if p = TASK_PRIORITY_LOW then [2] else [])" by blast
  note f3 = s3(7) more_task_fields [OF s3(2)]
  have t3: "tables_ok s3" "squeue q s3 = squeue q s2" for q using s2(3) f3 by (simp add: tables_ok_def, cases q, simp_all)
  have "timer_inv s3 [a]"
    by (rule timer_inv_frame [OF s1(2)]) (use s1(2) f3 s2 s3(4,6) m2(3) in \<open>auto simp: timer_inv_def\<close>)
  moreover have "wf_list (links s3) (wq s3) []" using f3(4) s2(13) s1(3) by (simp add: list_init_wf)
  ultimately have "wq_inv s3 [a] []" using s3(3) by (rule wq_boot)
  moreover have "queues_ok sockqs (\<lambda>q. squeue q s3) (links s3) B (\<lambda>_. [])" for B
    by (rule queues_okI) (use s2(7) t3(2) in \<open>auto simp: list_init_wf\<close>)
  ultimately have "sock_inv sockqs squeue s3 [a] [] (\<lambda>_. [])" by (simp add: sock_inv_def)
  moreover have "kstart pl s = Inr s3" using s1(1) s2(1) s3(1) by (simp add: kstart_def)
  moreover have "nic_ok s3" "arp_ok s3" using s2(2,4) f3 by (simp_all add: nic_ok_def arp_ok_def)
  ultimately show ?thesis using s2(5,6) t3(1) f3 s3 m2(2) by (intro exI [of _ a] exI [of _ s3]) simp
qed

text \<open>
  C3: Booting. On a machine with the network card on its bus, \<open>kstart\<close> passes all its initialisations without a
  panic and reaches its loop with interrupts on, task 0 current and the two tasks it starts ready (the user
  task at the high priority, the idle task at the low one). All invariants the other components rely on hold
  there: one timer (the sentinel), an empty work queue, empty socket queues, the card's rings, an empty ARP
  table; three of the 1490 blocks are in use.
\<close>

theorem kstart_boots:
  assumes "boot_ok s" and "card_present pl"
  shows "\<exists>sentinel s'. kstart pl s = Inr s' \<and>
           sock_inv sockqs squeue s' [sentinel] [] (\<lambda>_. []) \<and> tables_ok s' \<and> nic_ok s' \<and> arp_ok s' \<and>
           next_entry_idx (arptable s') = 0 \<and> ip_addr (netdev s') = HOST_IP \<and>
           current_task (taskctl s') = 0 \<and> next_task_id (taskctl s') = 3 \<and>
           sched_inv s' (\<lambda>p. if p = TASK_PRIORITY_HIGH then [1] else if p = TASK_PRIORITY_LOW then [2] else []) \<and>
           avail s' = 1487 \<and> interrupts_on s'"
  by (rule kernel_boots [OF assms])

end
