(* ===== verification/Dns.thy ===== *)
theory Dns
  imports Kernel
begin

text \<open>
  \<^verbatim>\<open>kernel/user/dns.c\<close>: the resolver of the user program. It runs in the user task, on the flat memory and
  through the system call stubs. Arrays on its stack are addresses the compiler chooses: one record of
  parameters. A string literal is kept as its bytes; \<open>print_lit\<close> is what the print call does with them.
\<close>

section \<open>Data\<close>

record dns_locals =
  dl_txbuf :: addr
  dl_rxbuf :: addr
  dl_arpa :: addr

definition DNS_TYPE_LEN :: addr where "DNS_TYPE_LEN = 2"
definition DNS_TYPE_A :: u16 where "DNS_TYPE_A = 1"
definition DNS_TYPE_PTR :: u16 where "DNS_TYPE_PTR = 0x0c"
definition DNS_CLASS_LEN :: addr where "DNS_CLASS_LEN = 2"
definition DNS_CLASS_IN :: u16 where "DNS_CLASS_IN = 1"
definition DNS_OFFSET_LEN :: addr where "DNS_OFFSET_LEN = 2"
definition DNS_TTL_LEN :: addr where "DNS_TTL_LEN = 4"
definition DNS_LENGTH_LEN :: addr where "DNS_LENGTH_LEN = 2"
definition sizeof_dns_hdr :: u32 where "sizeof_dns_hdr = 12"

definition RESOLVER_IP :: u32 where
  "RESOLVER_IP = push_bit 24 8 OR push_bit 16 8 OR push_bit 8 8 OR 8"

abbreviation DOT :: u8 where
  "DOT \<equiv> 46"

text \<open>The bytes of a literal, and a call that prints it.\<close>

definition lit :: "string \<Rightarrow> u8 list" where
  "lit str = map byte_of str"

definition print_lit :: "'a others \<Rightarrow> string \<Rightarrow> 'a tcp_state_scheme \<Rightarrow> 'a tcp_state_scheme res" where
  "print_lit env str s = Inr (set_rflags (get_rflags s) (printstr AppScreen (lit str) (io_cli s)))"

text \<open>A call whose result the program ignores.\<close>

definition void :: "('b \<times> 's) res \<Rightarrow> 's res" where
  "void r = bindr r (\<lambda>(_, s). Inr s)"

text \<open>Statements in sequence.\<close>

fun run :: "('s \<Rightarrow> 's res) list \<Rightarrow> 's \<Rightarrow> 's res" where
  "run [] s = Inr s"
| "run (f # fs) s = bindr (f s) (run fs)"

section \<open>Names\<close>

text \<open>The loop of \<open>set_qsection\<close>: \<open>start\<close> and \<open>end\<close> are C ints.\<close>

partial_function (option) qs_loop ::
  "addr \<Rightarrow> u32 \<Rightarrow> addr \<Rightarrow> u32 \<Rightarrow> u32 \<Rightarrow> bytes \<Rightarrow> (addr \<times> u32 \<times> u32 \<times> bytes) option" where
  "qs_loop name name_len buf start pos m =
     (if pos < name_len
      then
        let pos1 = pos + 1 in
        if m (name + scast pos1) = DOT
        then
          let n = pos1 - start;
              m1 = memcpy (buf + 1) (name + scast start) n (wr8 buf (ucast n) m) in
          qs_loop name name_len (buf + 1 + scast n) (pos1 + 1) (pos1 + 1) m1
        else qs_loop name name_len buf start pos1 m
      else Some (buf, start, pos, m))"

definition set_qsection :: "addr \<Rightarrow> addr \<Rightarrow> u16 \<Rightarrow> u16 \<Rightarrow> bytes \<Rightarrow> (u32 \<times> bytes) option" where
  "set_qsection buf_head name ty cls m =
     (case strlen name m of
        None \<Rightarrow> None
      | Some name_len \<Rightarrow>
          (case qs_loop name name_len buf_head 0 0 m of
             None \<Rightarrow> None
           | Some (buf, start, pos, m1) \<Rightarrow>
               let n = pos - start;
                   m2 = memcpy (buf + 1) (name + scast start) n (wr8 buf (ucast n) m1);
                   buf1 = buf + 1 + scast n;
                   m3 = wr8 buf1 0 m2;
                   buf2 = buf1 + 1;
                   m4 = wr16 buf2 (hton16 ty) m3;
                   buf3 = buf2 + DNS_TYPE_LEN;
                   m5 = wr16 buf3 (hton16 cls) m4;
                   buf4 = buf3 + DNS_CLASS_LEN
               in Some (ucast (buf4 - buf_head), m5)))"

partial_function (option) parse_domain_name ::
  "'a others \<Rightarrow> addr \<Rightarrow> addr \<Rightarrow> int \<Rightarrow> 'a tcp_state_scheme \<Rightarrow> (int \<times> 'a tcp_state_scheme) res option" where
  "parse_domain_name env rbuf wbuf wlen s =
     (let c = mem8 s rbuf in
      if c = 0 then Some (Inr (0, s))
      else if c = 0xc0
      then Some (bindr (print_lit env (''ERROR can not parse offset'' @ nl) s) (\<lambda>s1. Inr (- 1, s1)))
      else
        let nextlen = uint c in
        if wlen - nextlen < 0
        then Some (bindr (print_lit env (''ERROR not enough space to write parsed domain name'' @ nl) s)
               (\<lambda>s1. Inr (- 1, s1)))
        else
          parse_domain_name env (rbuf + 1 + ucast c) (wbuf + ucast c + 1) (wlen - nextlen - 1)
            (store (\<lambda>m. wr8 (wbuf + ucast c) DOT (memcpy wbuf (rbuf + 1) (ucast c) m)) s))"

definition set_num :: "addr \<Rightarrow> u8 \<Rightarrow> bytes \<Rightarrow> int \<times> bytes" where
  "set_num buf orinum m =
     (let (buf1, num1, ret1, m1) =
            (if 100 \<le> orinum then (buf + 1, orinum mod 100, 1, wr8 buf (orinum div 100 + 48) m) else (buf, orinum, 0, m));
          (buf2, num2, ret2, m2) =
            (if 100 \<le> orinum \<or> 10 \<le> num1 then (buf1 + 1, num1 mod 10, ret1 + 1, wr8 buf1 (num1 div 10 + 48) m1)
             else (buf1, num1, ret1, m1))
      in (ret2 + 1, wr8 buf2 (num2 + 48) m2))"

definition set_num_dot :: "u8 \<Rightarrow> addr \<times> bytes \<Rightarrow> addr \<times> bytes" where
  "set_num_dot num p =
     (let (buf, m) = p; (len, m1) = set_num buf num m; buf1 = buf + of_int len in (buf1 + 1, wr8 buf1 DOT m1))"

definition generate_arpa_address :: "addr \<Rightarrow> u32 \<Rightarrow> bytes \<Rightarrow> bytes" where
  "generate_arpa_address buf ip m =
     (let addr1 = ucast (ip AND 0xff);
          addr2 = ucast (drop_bit 8 ip AND 0xff);
          addr3 = ucast (drop_bit 16 ip AND 0xff);
          addr4 = ucast (drop_bit 24 ip AND 0xff);
          (buf1, m1) = set_num_dot addr4 (set_num_dot addr3 (set_num_dot addr2 (set_num_dot addr1 (buf, m))))
      in wr8 (buf1 + 13) 0 (wr_list buf1 (lit ''in-addr.arpa'') m1))"

section \<open>Queries\<close>

text \<open>\<open>memset (txbuf, 0, 500); memset (rxbuf, 0, 500);\<close> and the header of a question.\<close>

definition dns_query_hdr :: "addr \<Rightarrow> addr \<Rightarrow> bytes \<Rightarrow> bytes" where
  "dns_query_hdr txbuf rxbuf m =
     (let m1 = memset rxbuf 0 500 (memset txbuf 0 500 m);
          m2 = wr16 txbuf (hton16 777) m1;
          m3 = wr16 (txbuf + 2) (hton16 (push_bit 8 1 OR push_bit 4 1)) m2;
          m4 = wr16 (txbuf + 4) (hton16 1) m3
      in wr16 (txbuf + 10) 0 (wr16 (txbuf + 8) 0 (wr16 (txbuf + 6) 0 m4)))"

text \<open>The question section, the datagram to the resolver and the wait for its answer.\<close>

definition dns_ask ::
  "'a others \<Rightarrow> int \<Rightarrow> addr \<Rightarrow> addr \<Rightarrow> addr \<Rightarrow> u16 \<Rightarrow> 'a tcp_state_scheme \<Rightarrow> (u32 \<times> int \<times> 'a tcp_state_scheme) res" where
  "dns_ask env sock txbuf rxbuf name ty s =
     (case set_qsection (txbuf + ucast sizeof_dns_hdr) name ty DNS_CLASS_IN (mem8 s) of
        None \<Rightarrow> Inl Diverges
      | Some (qlen, m1) \<Rightarrow>
          bindr (void (sys_udp_socket_send env sock RESOLVER_IP 53 txbuf (sint (sizeof_dns_hdr + qlen)) (s\<lparr>mem8 := m1\<rparr>))) (\<lambda>s1.
          bindr (sys_udp_socket_recv env sock rxbuf 500 s1) (\<lambda>(ret, s2).
          Inr (qlen, ret, s2))))"

text \<open>What \<open>resolve_addr\<close> reads out of an answer to a question section of \<open>qlen\<close> bytes.\<close>

definition dns_answer :: "addr \<Rightarrow> u32 \<Rightarrow> bytes \<Rightarrow> u32" where
  "dns_answer rxbuf qlen m =
     (let rx1 = rxbuf + ucast sizeof_dns_hdr; rx2 = rx1 + scast qlen in
      if ntoh16 (rd16 m (rxbuf + 4)) \<noteq> 1 then 0
      else if m rx2 \<noteq> 0xc0 then 0
      else
        let rx3 = rx2 + DNS_OFFSET_LEN + DNS_TYPE_LEN + DNS_CLASS_LEN + DNS_TTL_LEN in
        if ntoh16 (rd16 m rx3) \<noteq> 4 then 0
        else
          let rx4 = rx3 + DNS_LENGTH_LEN in
          push_bit 8 (push_bit 8 (push_bit 8 (ucast (m rx4)) + ucast (m (rx4 + 1))) + ucast (m (rx4 + 2))) + ucast (m (rx4 + 3)))"

definition resolve_addr ::
  "'a others \<Rightarrow> dns_locals \<Rightarrow> int \<Rightarrow> addr \<Rightarrow> 'a tcp_state_scheme \<Rightarrow> (u32 \<times> 'a tcp_state_scheme) res" where
  "resolve_addr env l sock name s =
     bindr (dns_ask env sock (dl_txbuf l) (dl_rxbuf l) name DNS_TYPE_A (store (dns_query_hdr (dl_txbuf l) (dl_rxbuf l)) s))
       (\<lambda>(qlen, ret, s1).
     if ret = - 1
     then bindr (run [print_lit env ''Failed to resolve dns: '', \<lambda>s. void (sys_print_str env name s), print_lit env nl] s1)
            (\<lambda>s2. Inr (0, s2))
     else Inr (dns_answer (dl_rxbuf l) qlen (mem8 s1), s1))"

text \<open>The loop over the answers of \<open>resolve_host\<close>.\<close>

fun ptr_loop :: "'a others \<Rightarrow> nat \<Rightarrow> addr \<Rightarrow> addr \<Rightarrow> int \<Rightarrow> 'a tcp_state_scheme \<Rightarrow> (int \<times> 'a tcp_state_scheme) res" where
  "ptr_loop env 0 rx buf buflen s = Inr (- 1, s)"
| "ptr_loop env (Suc k) rx buf buflen s =
     (let m = mem8 s in
      if m rx \<noteq> 0xc0 then Inr (- 1, s)
      else
        let rx1 = rx + DNS_OFFSET_LEN;
            ty = ntoh16 (rd16 m rx1);
            rx2 = rx1 + DNS_TYPE_LEN + DNS_CLASS_LEN + DNS_TTL_LEN;
            domain_len = ntoh16 (rd16 m rx2);
            rx3 = rx2 + DNS_LENGTH_LEN
        in if ty \<noteq> DNS_TYPE_PTR then ptr_loop env k (rx3 + ucast domain_len) buf buflen s
           else ended (parse_domain_name env rx3 buf buflen s))"

text \<open>What \<open>resolve_host\<close> makes of an answer to a question section of \<open>qlen\<close> bytes.\<close>

definition host_answer :: "'a others \<Rightarrow> addr \<Rightarrow> u32 \<Rightarrow> addr \<Rightarrow> int \<Rightarrow> 'a tcp_state_scheme \<Rightarrow> (int \<times> 'a tcp_state_scheme) res" where
  "host_answer env rx qlen buf buflen s =
     (let m = mem8 s; rx1 = rx + ucast sizeof_dns_hdr + scast qlen in
      if ntoh16 (rd16 m (rx + 4)) \<noteq> 1 then Inr (- 1, s)
      else if ntoh16 (rd16 m (rx + 6)) = 0 then Inr (- 1, s)
      else if m rx1 \<noteq> 0xc0 then Inr (- 1, s)
      else ptr_loop env (unat (ntoh16 (rd16 m (rx + 6)))) rx1 buf buflen s)"

definition resolve_host ::
  "'a others \<Rightarrow> dns_locals \<Rightarrow> int \<Rightarrow> u32 \<Rightarrow> addr \<Rightarrow> int \<Rightarrow> 'a tcp_state_scheme \<Rightarrow> (int \<times> 'a tcp_state_scheme) res" where
  "resolve_host env l sock ip buf buflen s =
     (let s1 = store (dns_query_hdr (dl_txbuf l) (dl_rxbuf l)) s;
          s2 = store (\<lambda>m. generate_arpa_address (dl_arpa l) ip (memset (dl_arpa l) 0 100 m)) s1 in
      bindr (dns_ask env sock (dl_txbuf l) (dl_rxbuf l) (dl_arpa l) DNS_TYPE_PTR s2) (\<lambda>(qlen, ret, s3).
      if ret = - 1 then Inr (- 1, s3) else host_answer env (dl_rxbuf l) qlen buf buflen s3))"

section \<open>Writing a list of bytes\<close>

lemma wr_list_append: "wr_list a (xs @ ys) m = wr_list (a + of_nat (length xs)) ys (wr_list a xs m)"
  by (induction xs arbitrary: a m) (simp_all add: add.assoc)

lemma wr_list_frame: "x \<notin> region a (length bs) \<Longrightarrow> wr_list a bs m x = m x"
proof (induction bs arbitrary: a m)
  case (Cons b bs)
  have "region (a + 1) (length bs) \<subseteq> region a (Suc (length bs))" using region_offset [of a 1 "length bs"] by simp
  moreover have "a \<in> region a (Suc (length bs))" using in_region [of 0 "Suc (length bs)" a] by simp
  ultimately have "x \<notin> region (a + 1) (length bs)" "x \<noteq> a" using Cons.prems by auto
  moreover from this(1) have "wr_list (a + 1) bs (m(a := b)) x = (m(a := b)) x" by (rule Cons.IH)
  ultimately show ?case by simp
qed simp

lemma wr_list_nth:
  assumes "i < length bs" and "length bs \<le> 18446744073709551616"
  shows "wr_list a bs m (a + of_nat i) = bs ! i"
  using assms
proof (induction bs arbitrary: a m i)
  case (Cons b bs)
  show ?case
  proof (cases i)
    case 0
    have "a \<notin> region (a + 1) (length bs)"
    proof
      assume "a \<in> region (a + 1) (length bs)"
      then obtain j where j: "j < length bs" "a + of_nat 0 = a + of_nat (Suc j)" by (auto simp: region_def add.assoc)
      then show False using offset_inj [of 0 "Suc j" a] Cons.prems(2) by simp
    qed
    then show ?thesis using 0 by (simp add: wr_list_frame)
  next
    case (Suc j)
    have "wr_list (a + 1) bs (m(a := b)) (a + 1 + of_nat j) = bs ! j" by (rule Cons.IH) (use Suc Cons.prems in simp_all)
    then show ?thesis using Suc by (simp add: add.assoc)
  qed
qed simp

lemma bytes_wr_list: "length bs \<le> 18446744073709551616 \<Longrightarrow> bytes_at (wr_list a bs m) a (length bs) = bs"
  by (rule nth_equalityI) (simp_all add: wr_list_nth)

lemma bytes_wr_list_other: "region a (length bs) \<inter> region b n = {} \<Longrightarrow> bytes_at (wr_list a bs m) b n = bytes_at m b n"
proof (rule bytes_at_cong)
  fix i
  assume d: "region a (length bs) \<inter> region b n = {}" and "i < n"
  from in_region [OF this(2), of b] d have "b + of_nat i \<notin> region a (length bs)" by blast
  then show "wr_list a bs m (b + of_nat i) = m (b + of_nat i)" by (rule wr_list_frame)
qed

lemma cstr_wr_list: "region a (length bs) \<inter> region b (Suc (length xs)) = {} \<Longrightarrow> cstr (wr_list a bs m) b xs = cstr m b xs"
  unfolding cstr_def by (simp only: bytes_wr_list_other)

lemma wr_list_eqI:
  assumes "length bs \<le> 18446744073709551616" and "bytes_at m' a (length bs) = bs" and "\<And>x. x \<notin> region a (length bs) \<Longrightarrow> m' x = m x"
  shows "m' = wr_list a bs m"
proof
  fix x
  show "m' x = wr_list a bs m x"
  proof (cases "x \<in> region a (length bs)")
    case True
    then obtain i where i: "i < length bs" "x = a + of_nat i" by (auto simp: region_def)
    have "m' x = bytes_at m' a (length bs) ! i" using i by simp
    with i show ?thesis by (simp only: assms(2) wr_list_nth [OF i(1) assms(1)])
  next
    case False
    then show ?thesis using assms(3) by (simp add: wr_list_frame)
  qed
qed

lemma memcpy_wr_list:
  assumes "region dst (unat n) \<inter> region src (unat n) = {}"
  shows "memcpy dst src n m = wr_list dst (bytes_at m src (unat n)) m"
  by (rule wr_list_eqI)
    (use unat_u32_lt [of n] memcpy_copies [OF assms] memcpy_frame [OF assms] in auto)

lemma memset_wr_list: "memset dst v n m = wr_list dst (replicate (unat n) v) m"
proof (rule wr_list_eqI)
  show "bytes_at (memset dst v n m) dst (length (replicate (unat n) v)) = replicate (unat n) v"
    by (rule nth_equalityI) (simp_all add: memset_spec in_region)
qed (use unat_u32_lt [of n] in \<open>simp_all add: memset_spec\<close>)

lemma wr16_wr_list: "wr16 a (hton16 v) m = wr_list a [ucast (drop_bit 8 v), ucast v] m"
  by (simp add: wr16_hton16)

lemma scast_of_nat: "n < 2147483648 \<Longrightarrow> (scast (of_nat n :: u32) :: u64) = of_nat n"
proof -
  assume n: "n < 2147483648"
  then have u: "unat (of_nat n :: u32) = n" by (simp add: unat_of_nat32)
  have "sint (of_nat n :: u32) = int n" using sint_small [of "of_nat n"] n u by simp
  then show ?thesis by (simp add: scast_eq del: of_nat_unat)
qed

section \<open>Encoding names\<close>

text \<open>A domain name is a list of labels: as text with dots between them, and as the protocol writes it.\<close>

fun dotted :: "u8 list list \<Rightarrow> u8 list" where
  "dotted [] = []"
| "dotted [l] = l"
| "dotted (l # ls) = l @ DOT # dotted ls"

definition label_enc :: "u8 list \<Rightarrow> u8 list" where
  "label_enc l = of_nat (length l) # l"

definition name_enc :: "u8 list list \<Rightarrow> u8 list" where
  "name_enc ls = concat (map label_enc ls)"

definition label_ok :: "u8 list \<Rightarrow> bool" where
  "label_ok l = (l \<noteq> [] \<and> DOT \<notin> set l \<and> length l < 192)"

definition question :: "u8 list list \<Rightarrow> u16 \<Rightarrow> u16 \<Rightarrow> u8 list" where
  "question ls ty cls = name_enc ls @ [0, ucast (drop_bit 8 ty), ucast ty, ucast (drop_bit 8 cls), ucast cls]"

lemma length_dotted: "ls \<noteq> [] \<Longrightarrow> Suc (length (dotted ls)) = length (name_enc ls)"
  by (induction ls rule: dotted.induct) (simp_all add: name_enc_def label_enc_def)

lemma name_enc_simps [simp]: "name_enc [] = []" "name_enc (l # ls) = label_enc l @ name_enc ls" "length (label_enc l) = Suc (length l)"
  by (simp_all add: name_enc_def label_enc_def)

lemma cstr_char: "cstr m a xs \<Longrightarrow> drop p xs = ys \<Longrightarrow> i < length ys \<Longrightarrow> m (a + of_nat (p + i)) = ys ! i"
  using cstr_nth(1) [of m a xs "p + i"] by auto

lemma cstr_bytes:
  assumes "cstr m a xs" and "drop p xs = l @ rest"
  shows "bytes_at m (a + of_nat p) (length l) = l"
  using cstr_char [OF assms] by (intro nth_equalityI) (simp_all add: nth_append add.assoc)

lemma u32_pos:
  assumes "Suc q = n" and "n \<le> k" and "k < 2147483648"
  shows "of_nat q < (of_nat k :: u32)" "(of_nat q :: u32) + 1 = of_nat n" "scast (of_nat n :: u32) = (of_nat n :: u64)"
  using assms scast_of_nat [of n] by (auto simp: word_less_nat_alt unat_of_nat32)

lemma qs_step:
  assumes "Suc q = n" and "n \<le> k" and "k < 2147483648"
  shows "qs_loop name (of_nat k) b st (of_nat q) m =
    (if m (name + of_nat n) = DOT
     then qs_loop name (of_nat k) (b + 1 + scast (of_nat n - st)) (of_nat (Suc n)) (of_nat (Suc n))
            (memcpy (b + 1) (name + scast st) (of_nat n - st) (wr8 b (ucast (of_nat n - st)) m))
     else qs_loop name (of_nat k) b st (of_nat n) m)"
proof -
  have s: "(of_nat (Suc n) :: u32) = of_nat n + 1" by simp
  show ?thesis by (subst qs_loop.simps) (simp only: u32_pos [OF assms] Let_def s if_True)
qed

text \<open>Inside a label nothing happens.\<close>

lemma qs_scan:
  assumes xs: "cstr m name xs" "length xs < 2147483648" and l: "drop p xs = l @ rest" "DOT \<notin> set l" and i: "i < length l" and p: "p \<le> length xs"
  shows "qs_loop name (of_nat (length xs)) b start (of_nat (p + i)) m = qs_loop name (of_nat (length xs)) b start (of_nat (p + length l - 1)) m"
  using i
proof (induction "length l - 1 - i" arbitrary: i)
  case 0
  then have "p + i = p + length l - 1" by simp
  then show ?case by simp
next
  case (Suc k)
  then have i: "Suc i < length l" by simp
  have len: "p + length l \<le> length xs" using arg_cong [OF l(1), of length] p by simp
  have "m (name + of_nat (p + Suc i)) = l ! Suc i" using cstr_char [OF xs(1) l(1), of "Suc i"] i by (simp add: nth_append)
  moreover have "l ! Suc i \<noteq> DOT" using l(2) i nth_mem [of "Suc i" l] by metis
  ultimately have "qs_loop name (of_nat (length xs)) b start (of_nat (p + i)) m = qs_loop name (of_nat (length xs)) b start (of_nat (p + Suc i)) m"
    using qs_step [of "p + i" "p + Suc i" "length xs" name b start m] i len xs(2) by simp
  also have "\<dots> = qs_loop name (of_nat (length xs)) b start (of_nat (p + length l - 1)) m"
    using Suc i by (intro Suc.hyps(1)) simp_all
  finally show ?case .
qed

text \<open>The block of one label, as both places of the code write it.\<close>

lemma put_label:
  assumes "cstr m name xs" and "length xs < 2147483648" and "drop p xs = l @ rest"
    and "region b (Suc (length l)) \<inter> region name (Suc (length xs)) = {}" and "p \<le> length xs"
  shows "memcpy (b + 1) (name + scast (of_nat p :: u32)) (of_nat (length l)) (wr8 b (ucast (of_nat (length l) :: u32)) m) =
      wr_list b (label_enc l) m"
proof -
  have len: "p + length l \<le> length xs" using arg_cong [OF assms(3), of length] assms(5) by simp
  then have u: "unat (of_nat (length l) :: u32) = length l" "scast (of_nat p :: u32) = (of_nat p :: u64)"
    using assms(2) scast_of_nat [of p] by (simp_all add: unat_of_nat32)
  have sub: "region (name + of_nat p) (length l) \<subseteq> region name (Suc (length xs))"
    using region_offset [of name p "length l"] region_mono [of "p + length l" "Suc (length xs)" name] len by auto
  have b1: "region (b + 1) (length l) \<subseteq> region b (Suc (length l))" using region_offset [of b 1 "length l"] by simp
  note disj = assms(4)
  have bb: "b \<in> region b (Suc (length l))" using in_region [of 0 "Suc (length l)" b] by simp
  have "bytes_at (wr8 b v m) (name + of_nat p) (length l) = bytes_at m (name + of_nat p) (length l)" for v
  proof -
    have "region b (length [v]) = {b}" by (auto simp: region_def)
    then have "region b (length [v]) \<inter> region (name + of_nat p) (length l) = {}" using disj bb sub by auto
    from bytes_wr_list_other [OF this, of m] show ?thesis by (simp add: wr8_def)
  qed
  moreover have "region (b + 1) (length l) \<inter> region (name + of_nat p) (length l) = {}" using assms(4) sub b1 by blast
  moreover have "(ucast (of_nat (length l) :: u32) :: u8) = of_nat (length l)" by transfer simp
  ultimately show ?thesis
    using cstr_bytes [OF assms(1,3)] by (simp add: u memcpy_wr_list label_enc_def wr8_def)
qed

lemma dotted_Cons: "ls \<noteq> [] \<Longrightarrow> dotted (l # ls) = l @ DOT # dotted ls"
  by (cases ls) simp_all

lemma qs_loop_ok:
  assumes "cstr m name xs" and len: "length xs < 2147483648" and "drop p xs = dotted (l # ls)" and "p \<le> length xs"
    and "\<forall>x \<in> set (l # ls). x \<noteq> [] \<and> DOT \<notin> set x" and "region b (Suc (length (dotted (l # ls)))) \<inter> region name (Suc (length xs)) = {}"
  shows "\<exists>q. qs_loop name (of_nat (length xs)) b (of_nat p) (of_nat p) m =
             Some (b + of_nat (length (name_enc (butlast (l # ls)))), of_nat q, of_nat (length xs), wr_list b (name_enc (butlast (l # ls))) m) \<and>
           drop q xs = last (l # ls) \<and> q \<le> length xs"
  using assms(1,3-)
proof (induction ls arbitrary: l p b m)
  case Nil
  have l: "drop p xs = l @ []" "DOT \<notin> set l" "0 < length l" "p + length l = length xs" using Nil.prems by auto
  let ?q = "p + length l - 1"
  have "qs_loop name (of_nat (length xs)) b (of_nat p) (of_nat p) m = qs_loop name (of_nat (length xs)) b (of_nat p) (of_nat ?q) m"
    using qs_scan [OF Nil.prems(1) len l(1,2,3) Nil.prems(3)] by simp
  also have "\<dots> = qs_loop name (of_nat (length xs)) b (of_nat p) (of_nat (length xs)) m"
  proof -
    have "Suc ?q = length xs" using l(3,4) by linarith
    from qs_step [OF this order_refl len, of name b "of_nat p" m] show ?thesis using cstr_nth(2) [OF Nil.prems(1)] by simp
  qed
  also have "\<dots> = Some (b, of_nat p, of_nat (length xs), m)" by (subst qs_loop.simps) simp
  finally show ?case using Nil.prems(2,3) by (intro exI [of _ p]) simp
next
  case (Cons l' ls)
  let ?r = "dotted (l' # ls)"
  have l: "drop p xs = l @ DOT # ?r" "DOT \<notin> set l" "0 < length l" using Cons.prems by auto
  have pl: "p + length l + 1 + length ?r = length xs" using arg_cong [OF l(1), of length] Cons.prems(3) by simp
  let ?q = "p + length l - 1"
  have dis: "region b (Suc (length l)) \<inter> region name (Suc (length xs)) = {}"
    using Cons.prems(5) region_mono [of "Suc (length l)" "Suc (length (dotted (l # l' # ls)))" b] by auto
  let ?m = "wr_list b (label_enc l) m"
  have "qs_loop name (of_nat (length xs)) b (of_nat p) (of_nat p) m = qs_loop name (of_nat (length xs)) b (of_nat p) (of_nat ?q) m"
    using qs_scan [OF Cons.prems(1) len l(1,2,3) Cons.prems(3)] by simp
  also have "\<dots> = qs_loop name (of_nat (length xs)) (b + of_nat (Suc (length l))) (of_nat (p + length l + 1)) (of_nat (p + length l + 1)) ?m"
  proof -
    have "(of_nat (p + length l) :: u32) - of_nat p = of_nat (length l)" "scast (of_nat (length l) :: u32) = (of_nat (length l) :: u64)"
      using pl len scast_of_nat [of "length l"] by simp_all
    moreover have "m (name + of_nat (p + length l)) = DOT" using cstr_char [OF Cons.prems(1) l(1), of "length l"] by simp
    moreover note put_label [OF Cons.prems(1) len l(1) dis Cons.prems(3)]
    moreover have "Suc ?q = p + length l" "p + length l \<le> length xs" using l(3) pl by simp_all
    note qs_step [OF this len, of name b "of_nat p" m]
    ultimately show ?thesis by (simp add: add.assoc)
  qed
  also have "\<exists>q. \<dots> = Some (b + of_nat (Suc (length l)) + of_nat (length (name_enc (butlast (l' # ls)))), of_nat q, of_nat (length xs),
      wr_list (b + of_nat (Suc (length l))) (name_enc (butlast (l' # ls))) ?m) \<and> drop q xs = last (l' # ls) \<and> q \<le> length xs"
  proof (rule Cons.IH)
    show "cstr ?m name xs" using Cons.prems(1) dis by (simp add: cstr_wr_list)
    show "drop (p + length l + 1) xs = ?r" using arg_cong [OF l(1), of "drop (length l + 1)"] by (simp add: add.commute add.left_commute)
    show "p + length l + 1 \<le> length xs" using pl by simp
    show "\<forall>x \<in> set (l' # ls). x \<noteq> [] \<and> DOT \<notin> set x" using Cons.prems(4) by simp
    have "region (b + of_nat (Suc (length l))) (Suc (length ?r)) \<subseteq> region b (Suc (length (dotted (l # l' # ls))))"
      using region_offset [of b "Suc (length l)" "Suc (length ?r)"] by simp
    then show "region (b + of_nat (Suc (length l))) (Suc (length ?r)) \<inter> region name (Suc (length xs)) = {}" using Cons.prems(5) by blast
  qed
  finally show ?case by (simp add: wr_list_append add.assoc)
qed

lemma set_qsection_ok:
  assumes c: "cstr m name (dotted ls)" and ls: "ls \<noteq> []" "\<forall>l \<in> set ls. l \<noteq> [] \<and> DOT \<notin> set l"
    and len: "length (question ls ty cls) < 2147483648"
    and dis: "region b (length (question ls ty cls)) \<inter> region name (Suc (length (dotted ls))) = {}"
  shows "set_qsection b name ty cls m = Some (of_nat (length (question ls ty cls)), wr_list b (question ls ty cls) m)"
proof -
  let ?xs = "dotted ls" let ?f = "name_enc (butlast ls)" let ?l = "last ls"
  obtain l' ls' where ls': "ls = l' # ls'" using ls(1) by (cases ls) auto
  have e: "length (name_enc ls) = Suc (length ?xs)" using length_dotted [OF ls(1)] by simp
  have n: "name_enc ls = ?f @ label_enc ?l" 
  proof -
    have "name_enc (butlast ls @ [?l]) = ?f @ label_enc ?l" by (simp add: name_enc_def)
    then show ?thesis using ls(1) by simp
  qed
  have lx: "length ?xs < 2147483648" using len e by (simp add: question_def)
  have pre: "region b k \<inter> region name (Suc (length ?xs)) = {}" if "k \<le> length (question ls ty cls)" for k
    using dis region_mono [OF that, of b] by blast
  have "region b (Suc (length ?xs)) \<inter> region name (Suc (length ?xs)) = {}" by (rule pre) (simp add: question_def e)
  then obtain q where q: "qs_loop name (of_nat (length ?xs)) b 0 0 m = Some (b + of_nat (length ?f), of_nat q, of_nat (length ?xs), wr_list b ?f m)"
      "drop q ?xs = ?l" "q \<le> length ?xs"
    using qs_loop_ok [of m name ?xs 0 l' ls' b] c lx ls(2) by (auto simp: ls')
  have k: "length ?xs = q + length ?l" using arg_cong [OF q(2), of length] q(3) by simp
  have cf: "cstr (wr_list b ?f m) name ?xs" using c pre [of "length ?f"] by (simp add: cstr_wr_list question_def n)
  have sub: "region (b + of_nat (length ?f)) (Suc (length ?l)) \<subseteq> region b (length (name_enc ls))"
    using region_offset [of b "length ?f" "Suc (length ?l)"] by (simp add: n)
  have "memcpy (b + of_nat (length ?f) + 1) (name + scast (of_nat q :: u32)) (of_nat (length ?l))
      (wr8 (b + of_nat (length ?f)) (ucast (of_nat (length ?l) :: u32)) (wr_list b ?f m)) = wr_list (b + of_nat (length ?f)) (label_enc ?l) (wr_list b ?f m)"
    by (rule put_label [OF cf lx _ _ q(3), where rest = "[]"]) (use q(2) sub pre [of "length (name_enc ls)"] in \<open>auto simp: question_def\<close>)
  also have "\<dots> = wr_list b (name_enc ls) m" by (simp add: n wr_list_append)
  finally have m2: "memcpy (b + of_nat (length ?f) + 1) (name + scast (of_nat q :: u32)) (of_nat (length ?l))
      (wr8 (b + of_nat (length ?f)) (ucast (of_nat (length ?l) :: u32)) (wr_list b ?f m)) = wr_list b (name_enc ls) m" .
  have d: "of_nat (length ?xs) - of_nat q = (of_nat (length ?l) :: u32)" "scast (of_nat (length ?l) :: u32) = (of_nat (length ?l) :: u64)"
    using k lx scast_of_nat [of "length ?l"] by simp_all
  have b1: "b + of_nat (length ?f) + 1 + of_nat (length ?l) = b + of_nat (length (name_enc ls))" by (simp add: n add.assoc)
  let ?t = "[0, ucast (drop_bit 8 ty), ucast ty, ucast (drop_bit 8 cls), ucast cls] :: u8 list"
  have tail: "wr16 (c + 1 + 2) (hton16 cls) (wr16 (c + 1) (hton16 ty) (wr8 c 0 m')) = wr_list c ?t m'" for c m'
    by (simp add: wr16_hton16 wr8_def add.assoc)
  have r: "(ucast (b + of_nat (length (name_enc ls)) + 1 + 2 + 2 - b) :: u32) = of_nat (length (question ls ty cls))"
  proof -
    have "b + of_nat (length (name_enc ls)) + 1 + 2 + 2 - b = (of_nat (length (question ls ty cls)) :: u64)" by (simp add: question_def)
    then show ?thesis by transfer simp
  qed
  have w: "wr_list (b + of_nat (length (name_enc ls))) ?t (wr_list b (name_enc ls) m) = wr_list b (question ls ty cls) m"
    by (simp only: question_def wr_list_append)
  have s0: "strlen name m = Some (of_nat (length ?xs))" using strlen_cstr [OF c] lx by simp
  show ?thesis
    by (simp only: set_qsection_def s0 q(1) option.case prod.case Let_def d m2 b1 DNS_TYPE_LEN_def DNS_CLASS_LEN_def tail r w)
qed

lemma region_sub: "h + n \<le> k \<Longrightarrow> region (a + of_nat h) n \<subseteq> region a k"
  using region_offset [of a h n] region_mono [of "h + n" k a] by blast

lemma bytes_at_split:
  assumes "bytes_at m a (i + n) = xs @ ys" and "length xs = i"
  shows "bytes_at m a i = xs" "bytes_at m (a + of_nat i) n = ys"
  using assms by (simp_all add: bytes_at_append append_eq_append_conv)

section \<open>Decoding names\<close>

lemma parse_domain_name_ok:
  assumes "\<forall>l \<in> set ls. l \<noteq> [] \<and> length l < 192" and "bytes_at (mem8 s) r (Suc (length (name_enc ls))) = name_enc ls @ [0]"
    and "length (name_enc ls) < 2147483648" and "int (length (name_enc ls)) \<le> wlen"
    and "region w (length (name_enc ls)) \<inter> region r (Suc (length (name_enc ls))) = {}"
  shows "parse_domain_name env r w wlen s = Some (Inr (0, s\<lparr>mem8 := wr_list w (concat (map (\<lambda>l. l @ [DOT]) ls)) (mem8 s)\<rparr>))"
  using assms
proof (induction ls arbitrary: r w wlen s)
  case Nil
  then have "mem8 s r = 0" by (simp add: bytes_at_def)
  then show ?case by (subst parse_domain_name.simps) (simp add: Let_def)
next
  case (Cons l ls)
  let ?c = "mem8 s r" and ?n = "length (name_enc ls)" and ?k = "length l"
  have "bytes_at (mem8 s) r (1 + (?k + Suc ?n)) = [of_nat ?k] @ (l @ name_enc ls @ [0])" using Cons.prems(2) by (simp add: label_enc_def)
  from bytes_at_split [OF this] have b1: "bytes_at (mem8 s) r 1 = [of_nat ?k]" "bytes_at (mem8 s) (r + 1) (?k + Suc ?n) = l @ (name_enc ls @ [0])" by simp_all
  note by1 = b1(1) bytes_at_split [OF b1(2) refl]
  have k: "0 < ?k" "?k < 192" using Cons.prems(1) by auto
  have c: "?c = of_nat ?k" using by1(1) by (simp add: bytes_at_def)
  have uc: "unat (of_nat ?k :: u8) = ?k" using k by (simp add: unsigned_of_nat take_bit_nat_eq_self)
  have cc: "?c \<noteq> 0" "?c \<noteq> 0xc0" "uint ?c = int ?k" "(ucast ?c :: u64) = of_nat ?k" "unat (ucast ?c :: u32) = ?k"
  proof -
    show "uint ?c = int ?k" using uc c by (metis uint_nat)
    show "?c \<noteq> 0" "?c \<noteq> 0xc0" using uc c k by (auto dest: arg_cong [of _ _ unat])
    show "(ucast ?c :: u64) = of_nat ?k" using of_nat_unat [of ?c] uc c by metis
    show "unat (ucast ?c :: u32) = ?k" using uc c k by (simp add: unsigned_ucast_eq take_bit_nat_eq_self)
  qed
  have len: "length (name_enc (l # ls)) = Suc (?k + ?n)" by simp
  have sub: "region (r + 1) ?k \<subseteq> region r (Suc (Suc (?k + ?n)))" "region (r + 1 + of_nat ?k) (Suc ?n) \<subseteq> region r (Suc (Suc (?k + ?n)))"
    "region w ?k \<subseteq> region w (Suc (?k + ?n))" "region w (Suc ?k) \<subseteq> region w (Suc (?k + ?n))" "region (w + of_nat ?k + 1) ?n \<subseteq> region w (Suc (?k + ?n))"
    using region_sub [of 1 ?k "Suc (Suc (?k + ?n))" r] region_sub [of "1 + ?k" "Suc ?n" "Suc (Suc (?k + ?n))" r]
      region_mono [of ?k "Suc (?k + ?n)" w] region_mono [of "Suc ?k" "Suc (?k + ?n)" w] region_sub [of "?k + 1" ?n "Suc (?k + ?n)" w]
    by (simp_all add: ac_simps)
  note dis = Cons.prems(5) [unfolded len]
  let ?m = "wr_list w (l @ [DOT]) (mem8 s)"
  have "memcpy w (r + 1) (ucast ?c) (mem8 s) = wr_list w l (mem8 s)"
    using memcpy_wr_list [of w "ucast ?c" "r + 1" "mem8 s"] dis sub(1,3) by1(2) cc(5) by auto
  then have m: "wr8 (w + of_nat ?k) DOT (memcpy w (r + 1) (ucast ?c) (mem8 s)) = ?m" by (simp add: wr_list_append cc(4) wr8_def)
  have "parse_domain_name env r w wlen s = parse_domain_name env (r + 1 + of_nat ?k) (w + of_nat ?k + 1) (wlen - int ?k - 1) (s\<lparr>mem8 := ?m\<rparr>)"
    using cc(1,2) Cons.prems(4) by (subst parse_domain_name.simps) (simp add: Let_def store_def m cc(3,4))
  also have "\<dots> = Some (Inr (0, (s\<lparr>mem8 := ?m\<rparr>)\<lparr>mem8 := wr_list (w + of_nat ?k + 1) (concat (map (\<lambda>l. l @ [DOT]) ls)) (mem8 (s\<lparr>mem8 := ?m\<rparr>))\<rparr>))"
  proof (rule Cons.IH)
    have "region w (length (l @ [DOT])) \<inter> region (r + 1 + of_nat ?k) (Suc ?n) = {}" using dis sub(2,4) by auto
    from bytes_wr_list_other [OF this, of "mem8 s"] by1(3) show "bytes_at (mem8 (s\<lparr>mem8 := ?m\<rparr>)) (r + 1 + of_nat ?k) (Suc ?n) = name_enc ls @ [0]" by simp
    show "region (w + of_nat ?k + 1) ?n \<inter> region (r + 1 + of_nat ?k) (Suc ?n) = {}" using dis sub(2,5) by blast
  qed (use Cons.prems in auto)
  finally show ?case by (simp add: wr_list_append ac_simps)
qed

lemma concat_dotted: "ls \<noteq> [] \<Longrightarrow> concat (map (\<lambda>l. l @ [DOT]) ls) = dotted ls @ [DOT]"
  by (induction ls rule: dotted.induct) simp_all

section \<open>Properties\<close>

text \<open>
  C33: names survive the wire. For a name of labels of at most 191 bytes \<open>set_qsection\<close> ends, writes exactly the
  encoded question (each label behind its length, a zero, type and class in network order) and returns its
  size; \<open>parse_domain_name\<close> on what it wrote ends successfully and gives back the dotted name, with the dot
  it appends to every label.
\<close>

theorem dns_name_roundtrip:
  assumes "cstr (mem8 s) name (dotted ls)" and "ls \<noteq> []" and "\<forall>l \<in> set ls. label_ok l"
    and "length (question ls ty cls) < 2147483648" and "int (length (dotted ls)) < wlen"
    and "region b (length (question ls ty cls)) \<inter> region name (Suc (length (dotted ls))) = {}"
    and "region w (Suc (length (dotted ls))) \<inter> region b (length (question ls ty cls)) = {}"
  shows "\<exists>m. set_qsection b name ty cls (mem8 s) = Some (of_nat (length (question ls ty cls)), m) \<and>
           bytes_at m b (length (question ls ty cls)) = question ls ty cls \<and>
           (\<forall>x. x \<notin> region b (length (question ls ty cls)) \<longrightarrow> m x = mem8 s x) \<and>
           parse_domain_name env b w wlen (s\<lparr>mem8 := m\<rparr>) = Some (Inr (0, s\<lparr>mem8 := wr_list w (dotted ls @ [DOT]) m\<rparr>))"
proof -
  let ?q = "question ls ty cls" and ?n = "length (name_enc ls)"
  let ?m = "wr_list b ?q (mem8 s)"
  have ok: "\<forall>l \<in> set ls. l \<noteq> [] \<and> DOT \<notin> set l" "\<forall>l \<in> set ls. l \<noteq> [] \<and> length l < 192" using assms(3) by (auto simp: label_ok_def)
  have n: "?n = Suc (length (dotted ls))" "length ?q = Suc ?n + 4" using length_dotted [OF assms(2)] by (simp_all add: question_def)
  have q: "bytes_at ?m b (length ?q) = ?q" using assms(4) by (intro bytes_wr_list) simp
  then have "bytes_at ?m b (Suc ?n + 4) = (name_enc ls @ [0]) @ drop 1 [0, ucast (drop_bit 8 ty), ucast ty, ucast (drop_bit 8 cls), ucast cls]"
    unfolding n(2) by (simp add: question_def)
  from bytes_at_split(1) [OF this] have e: "bytes_at ?m b (Suc ?n) = name_enc ls @ [0]" by simp
  have sub: "region b (Suc ?n) \<subseteq> region b (length ?q)" by (rule region_mono) (simp add: n(2))
  have "parse_domain_name env b w wlen (s\<lparr>mem8 := ?m\<rparr>) =
      Some (Inr (0, (s\<lparr>mem8 := ?m\<rparr>)\<lparr>mem8 := wr_list w (concat (map (\<lambda>l. l @ [DOT]) ls)) (mem8 (s\<lparr>mem8 := ?m\<rparr>))\<rparr>))"
    by (rule parse_domain_name_ok [OF ok(2)]) (use e n assms(4,5,7) sub in auto)
  then show ?thesis
    using set_qsection_ok [OF assms(1,2) ok(1) assms(4,6)] q wr_list_frame [of _ b ?q "mem8 s"]
    by (intro exI [of _ ?m]) (simp add: concat_dotted [OF assms(2)])
qed

end
