(* ===== verification/User_app.thy ===== *)
theory User_app
  imports Dns
begin

text \<open>
  \<^verbatim>\<open>kernel/user/user_app.c\<close>: the shell of the user task and its commands. Loops that wait for the network or
  the keyboard are partial: \<open>None\<close> says that the command does not end. The arrays on the stacks of the
  functions are addresses the compiler chooses, and string literals are kept as their bytes.
\<close>

section \<open>Data\<close>

record app_locals =
  al_line :: addr
  al_char :: addr
  al_part :: addr
  al_pkt :: addr
  al_domain :: addr
  al_host :: addr
  al_path :: addr
  al_port :: addr
  al_req :: addr
  al_rd :: addr
  al_wr :: addr
  al_dns :: dns_locals

definition rd64 :: "bytes \<Rightarrow> addr \<Rightarrow> u64" where
  "rd64 m a = ucast (rd32 m a) OR push_bit 32 (ucast (rd32 m (a + 4)))"

definition wr64 :: "addr \<Rightarrow> u64 \<Rightarrow> bytes \<Rightarrow> bytes" where
  "wr64 a v m = wr32 (a + 4) (ucast (drop_bit 32 v)) (wr32 a (ucast v) m)"

section \<open>Combinators\<close>

text \<open>A pure computation that may not end, a step of a loop that may not end, and a counted loop with \<open>return\<close> inside.\<close>

definition must_end :: "'b option \<Rightarrow> 'b res" where
  "must_end r = (case r of None \<Rightarrow> Inl Diverges | Some x \<Rightarrow> Inr x)"

definition andr :: "'b res \<Rightarrow> ('b \<Rightarrow> 'c res option) \<Rightarrow> 'c res option" where
  "andr r f = (case r of Inl e \<Rightarrow> Some (Inl e) | Inr x \<Rightarrow> f x)"

lemma andr_mono [partial_function_mono]:
  assumes "\<And>x. mono_option (\<lambda>f. g f x)"
  shows "mono_option (\<lambda>f. andr r (g f))"
  unfolding andr_def using assms by (cases r) (simp_all add: monotone_def option.leq_refl)

fun for_break :: "('x \<Rightarrow> 's \<Rightarrow> (bool \<times> 's) res) \<Rightarrow> 'x list \<Rightarrow> 's \<Rightarrow> 's res" where
  "for_break f [] s = Inr s"
| "for_break f (x # xs) s = bindr (f x s) (\<lambda>(stop, s1). if stop then Inr s1 else for_break f xs s1)"

text \<open>\<open>strncmp\<close> with a literal, as many bytes as it has.\<close>

definition strncmp_lit :: "string \<Rightarrow> addr \<Rightarrow> bytes \<Rightarrow> bool" where
  "strncmp_lit str a m = (bytes_at m a (length str) = lit str)"

definition put_num :: "'a others \<Rightarrow> u64 \<Rightarrow> 'a tcp_state_scheme \<Rightarrow> 'a tcp_state_scheme res" where
  "put_num env n s = void (sys_print_num env n s)"

definition put_str :: "'a others \<Rightarrow> addr \<Rightarrow> 'a tcp_state_scheme \<Rightarrow> 'a tcp_state_scheme res" where
  "put_str env a s = void (sys_print_str env a s)"

definition put_ip :: "'a others \<Rightarrow> u32 \<Rightarrow> 'a tcp_state_scheme \<Rightarrow> 'a tcp_state_scheme res" where
  "put_ip env ip =
     run [put_num env (ucast (drop_bit 24 ip AND 0xff)), print_lit env ''.'',
          put_num env (ucast (drop_bit 16 ip AND 0xff)), print_lit env ''.'',
          put_num env (ucast (drop_bit 8 ip AND 0xff)), print_lit env ''.'',
          put_num env (ucast (ip AND 0xff))]"

section \<open>Numbers and addresses\<close>

function stoi_loop :: "nat \<Rightarrow> nat \<Rightarrow> addr \<Rightarrow> u32 \<Rightarrow> bytes \<Rightarrow> u32" where
  "stoi_loop i len buf ret m =
     (if i < len
      then
        let c = m (buf + of_nat i) in
        if c < 48 \<or> 57 < c then 0 else stoi_loop (Suc i) len buf (ret * 10 + (ucast c - 48)) m
      else ret)"
  by pat_completeness auto
termination
  by (relation "measure (\<lambda>(i, len, _). len - i)") auto

declare stoi_loop.simps [simp del]

definition stoi :: "addr \<Rightarrow> bytes \<Rightarrow> u32 option" where
  "stoi buf m = map_option (\<lambda>len. stoi_loop 0 (unat len) buf 0 m) (strlen buf m)"

text \<open>The block from \<open>start\<close> to \<open>pos\<close>, copied to \<open>tmpbuf\<close> and read as a number.\<close>

definition ip_block :: "addr \<Rightarrow> addr \<Rightarrow> u32 \<Rightarrow> u32 \<Rightarrow> u32 \<Rightarrow> bytes \<Rightarrow> (u32 \<times> bytes) option" where
  "ip_block tmpbuf buf start pos ret m =
     (let m1 = memcpy tmpbuf (buf + scast start) (pos - start) (memset tmpbuf 0 100 m) in
      map_option (\<lambda>v. (push_bit 8 ret + v, m1)) (stoi tmpbuf m1))"

partial_function (option) ip_loop ::
  "addr \<Rightarrow> addr \<Rightarrow> u32 \<Rightarrow> u32 \<Rightarrow> u32 \<Rightarrow> nat \<Rightarrow> u32 \<Rightarrow> bytes \<Rightarrow> (u32 \<times> u32 \<times> nat \<times> u32 \<times> bytes) option" where
  "ip_loop tmpbuf buf buf_len start pos dotcount ret m =
     (if pos < buf_len
      then
        let pos1 = pos + 1 in
        if m (buf + scast pos1) = DOT
        then
          Option.bind (ip_block tmpbuf buf start pos1 ret m) (\<lambda>(ret1, m1).
            ip_loop tmpbuf buf buf_len (pos1 + 1) (pos1 + 1) (Suc dotcount) ret1 m1)
        else ip_loop tmpbuf buf buf_len start pos1 dotcount ret m
      else Some (start, pos, dotcount, ret, m))"

definition parse_ipaddr :: "addr \<Rightarrow> addr \<Rightarrow> bytes \<Rightarrow> (u32 \<times> bytes) option" where
  "parse_ipaddr tmpbuf buf m =
     Option.bind (strlen buf m) (\<lambda>buf_len.
     Option.bind (ip_loop tmpbuf buf buf_len 0 0 0 0 m) (\<lambda>(start, pos, dotcount, ret, m1).
     if dotcount \<noteq> 3 then Some (0, m1) else ip_block tmpbuf buf start pos ret m1))"

text \<open>\<open>ipaddr = parse_ipaddr (buf)\<close> and, when that fails, \<open>resolve_addr\<close>.\<close>

definition app_parse :: "app_locals \<Rightarrow> addr \<Rightarrow> 'a tcp_state_scheme \<Rightarrow> (u32 \<times> 'a tcp_state_scheme) res" where
  "app_parse l buf s = bindr (must_end (parse_ipaddr (al_part l) buf (mem8 s))) (\<lambda>(ip, m). Inr (ip, s\<lparr>mem8 := m\<rparr>))"

definition app_resolve ::
  "'a others \<Rightarrow> app_locals \<Rightarrow> u32 \<Rightarrow> int \<Rightarrow> addr \<Rightarrow> 'a tcp_state_scheme \<Rightarrow> (u32 \<times> 'a tcp_state_scheme) res" where
  "app_resolve env l ip sock name s = (if ip = 0 then resolve_addr env (al_dns l) sock name s else Inr (ip, s))"

section \<open>ping and traceroute\<close>

text \<open>An echo request with \<open>n\<close> as identifier and sequence number, before its checksum.\<close>

definition echo_hdr :: "addr \<Rightarrow> nat \<Rightarrow> bytes \<Rightarrow> bytes" where
  "echo_hdr a n m =
     wr16 (a + 6) (of_nat n) (wr16 (a + 4) (of_nat n) (wr16 (a + 2) 0 (wr8 (a + 1) 0 (wr8 a ICMP_HDR_TYPE_ECHO_REQUEST m))))"

definition ping_round :: "'a others \<Rightarrow> app_locals \<Rightarrow> int \<Rightarrow> int \<Rightarrow> u32 \<Rightarrow> nat \<Rightarrow> 'a tcp_state_scheme \<Rightarrow> 'a tcp_state_scheme res" where
  "ping_round env l raw_sock udp_sock ip seq s =
     (let buf = al_pkt l in
      bindr (sys_get_tick env (store (echo_hdr buf seq) s)) (\<lambda>(t, s1).
      let s2 = store (\<lambda>m. wr16 (buf + 2) (checksum buf 16 m) m) (store (wr64 (buf + 8) t) s1) in
      bindr (void (sys_raw_socket_send env udp_sock ip buf 16 64 s2)) (\<lambda>s3.
      bindr (sys_raw_socket_recv env raw_sock buf 36 s3) (\<lambda>(ret, s4).
      if ret = - 1 then print_lit env (''timeout!'' @ nl) s4
      else
        let send_tick = rd64 (mem8 s4) (buf + 28) in
        bindr (sys_get_tick env s4) (\<lambda>(recv_tick, s5).
        run [print_lit env ''seq='', put_num env (of_nat seq), print_lit env '' ttl='', put_num env (ucast (mem8 s5 (buf + 8))),
             print_lit env '' time='', put_num env (recv_tick - send_tick), print_lit env ('' ms'' @ nl)] s5)))))"

definition exec_ping :: "'a others \<Rightarrow> app_locals \<Rightarrow> addr \<Rightarrow> 'a tcp_state_scheme \<Rightarrow> 'a tcp_state_scheme res" where
  "exec_ping env l buf s =
     bindr (app_parse l buf s) (\<lambda>(ip0, s1).
     bindr (sys_raw_socket env IP_HDR_PROTO_ICMP s1) (\<lambda>(raw_sock, s2).
     bindr (sys_udp_socket env s2) (\<lambda>(udp_sock, s3).
     bindr (app_resolve env l ip0 udp_sock buf s3) (\<lambda>(ip, s4).
     if ip = 0 then Inr s4
     else
       bindr (run [print_lit env ''PING '', put_str env buf, print_lit env '' ('', put_ip env ip, print_lit env ('')'' @ nl)] s4)
         (for_list [0..<5] (ping_round env l raw_sock udp_sock ip))))))"

definition trace_round ::
  "'a others \<Rightarrow> app_locals \<Rightarrow> int \<Rightarrow> int \<Rightarrow> u32 \<Rightarrow> nat \<Rightarrow> 'a tcp_state_scheme \<Rightarrow> (bool \<times> 'a tcp_state_scheme) res" where
  "trace_round env l raw_sock udp_sock ip ttl s =
     (let buf = al_pkt l; dom = al_domain l in
      bindr (sys_get_tick env (store (echo_hdr buf ttl) s)) (\<lambda>(send_tick, s1).
      let s2 = store (\<lambda>m. wr16 (buf + 2) (checksum buf 8 m) m) s1 in
      bindr (void (sys_raw_socket_send env udp_sock ip buf 8 (int ttl) s2)) (\<lambda>s3.
      bindr (sys_raw_socket_recv env raw_sock buf 28 s3) (\<lambda>(ret, s4).
      if ret = - 1
      then bindr (run [put_num env (of_nat ttl), print_lit env ('' timeout!'' @ nl)] s4) (\<lambda>s5. Inr (False, s5))
      else
        bindr (sys_get_tick env s4) (\<lambda>(recv_tick, s5).
        let s6 = store (memset dom 0 200) s5 in
        bindr (resolve_host env (al_dns l) udp_sock (ntoh32 (rd32 (mem8 s6) (buf + 12))) dom 200 s6) (\<lambda>(ret1, s7).
        let sip = ntoh32 (rd32 (mem8 s7) (buf + 12)) in
        bindr (run [put_num env (of_nat ttl), print_lit env '' '',
                    run (if ret1 \<noteq> - 1
                         then [put_str env dom, print_lit env ''('', put_ip env sip, print_lit env '') '']
                         else [put_ip env sip, print_lit env '' '']),
                    put_num env (recv_tick - send_tick), print_lit env ('' ms'' @ nl)] s7) (\<lambda>s8.
        Inr (mem8 s8 (buf + 20) = ICMP_HDR_TYPE_ECHO_REPLY, s8))))))))"

definition exec_traceroute :: "'a others \<Rightarrow> app_locals \<Rightarrow> addr \<Rightarrow> 'a tcp_state_scheme \<Rightarrow> 'a tcp_state_scheme res" where
  "exec_traceroute env l buf s =
     bindr (app_parse l buf s) (\<lambda>(ip0, s1).
     bindr (sys_raw_socket env IP_HDR_PROTO_ICMP s1) (\<lambda>(raw_sock, s2).
     bindr (sys_udp_socket env s2) (\<lambda>(udp_sock, s3).
     bindr (app_resolve env l ip0 udp_sock buf s3) (\<lambda>(ip, s4).
     if ip = 0 then Inr s4
     else
       bindr (run [print_lit env ''traceroute to '', put_str env buf, print_lit env '' ('', put_ip env ip, print_lit env ('')'' @ nl)] s4)
         (for_break (trace_round env l raw_sock udp_sock ip) [1..<20])))))"

section \<open>httpget\<close>

text \<open>The first position below \<open>n\<close> where the character stands.\<close>

definition find_char :: "u8 \<Rightarrow> addr \<Rightarrow> nat \<Rightarrow> bytes \<Rightarrow> nat option" where
  "find_char c buf n m = List.find (\<lambda>i. m (buf + of_nat i) = c) [0..<n]"

definition url_split :: "addr \<Rightarrow> addr \<Rightarrow> addr \<Rightarrow> u32 \<Rightarrow> bytes \<Rightarrow> bytes" where
  "url_split host path buf buf_len m =
     (let m1 = memset path 0 100 (memset host 0 100 m);
          m2 = (case find_char 47 buf (unat buf_len) m1 of
                  None \<Rightarrow> m1
                | Some i \<Rightarrow> strncpy path (buf + of_nat i) (buf_len - of_nat i) (strncpy host buf (of_nat i) m1))
      in if m2 path = 0 then wr8 path 47 (strncpy host buf buf_len m2) else m2)"

text \<open>\<open>strncpy (req, str, strlen (str)); req += strlen (str);\<close> for a literal and for a string in memory.\<close>

definition req_lit :: "string \<Rightarrow> addr \<times> bytes \<Rightarrow> (addr \<times> bytes) option" where
  "req_lit str p = (let (req, m) = p in Some (req + of_nat (length str), wr_list req (lit str) m))"

definition req_str :: "addr \<Rightarrow> addr \<times> bytes \<Rightarrow> (addr \<times> bytes) option" where
  "req_str a p =
     (let (req, m) = p in
      Option.bind (strlen a m) (\<lambda>n.
      let m1 = strncpy req a n m in
      Option.bind (strlen a m1) (\<lambda>n1. Some (req + ucast n1, m1))))"

definition http_request :: "addr \<Rightarrow> addr \<Rightarrow> addr \<Rightarrow> bytes \<Rightarrow> bytes option" where
  "http_request req path host m =
     Option.bind (req_lit ''GET '' (req, memset req 0 500 m)) (\<lambda>p1.
     Option.bind (req_str path p1) (\<lambda>p2.
     Option.bind (req_lit ('' HTTP/1.1'' @ [CHR 0x0d, CHR 0x0a] @ ''HOST:  '') p2) (\<lambda>p3.
     Option.bind (req_str host p3) (\<lambda>p4.
     Option.bind (req_lit [CHR 0x0d, CHR 0x0a, CHR 0x0d, CHR 0x0a] p4) (\<lambda>p5. Some (snd p5))))))"

text \<open>A second attempt to connect when the first one fails.\<close>

definition connect_twice :: "'a others \<Rightarrow> int \<Rightarrow> u32 \<Rightarrow> u16 \<Rightarrow> 'a tcp_state_scheme \<Rightarrow> 'a outcome" where
  "connect_twice env sock ip port s =
     bindr (sys_tcp_socket_connect env sock ip port s) (\<lambda>(ret, s1).
     if ret \<noteq> 1 then sys_tcp_socket_connect env sock ip port s1 else Inr (ret, s1))"

partial_function (option) http_loop :: "'a others \<Rightarrow> addr \<Rightarrow> int \<Rightarrow> 'a tcp_state_scheme \<Rightarrow> 'a tcp_state_scheme res option" where
  "http_loop env res sock s =
     andr (sys_tcp_socket_recv env sock res 1500 2000 (store (memset res 0 1500) s)) (\<lambda>(ret, s1).
     andr (put_str env res s1) (\<lambda>s2.
     if ret \<le> 0 then Some (Inr s2) else http_loop env res sock s2))"

definition exec_httpget :: "'a others \<Rightarrow> app_locals \<Rightarrow> addr \<Rightarrow> 'a tcp_state_scheme \<Rightarrow> 'a tcp_state_scheme res" where
  "exec_httpget env l url s =
     bindr (must_end (strlen url (mem8 s))) (\<lambda>buf_len.
     if \<not> strncmp_lit ''http://'' url (mem8 s)
     then print_lit env (''invalid format. use httpget http://hoge.com/fuga'' @ nl) s
     else
       let host = al_host l; path = al_path l; req = al_req l;
           s1 = store (url_split host path (url + 7) buf_len) s in
       bindr (sys_udp_socket env s1) (\<lambda>(udp_sock, s2).
       bindr (resolve_addr env (al_dns l) udp_sock host s2) (\<lambda>(ip, s3).
       if ip = 0 then Inr s3
       else
         bindr (run [print_lit env ''HTTPGET host: '', put_str env host, print_lit env '' ('', put_ip env ip, print_lit env '')'',
                     print_lit env '' path: '', put_str env path, print_lit env nl] s3) (\<lambda>s4.
         bindr (must_end (http_request req path host (mem8 s4))) (\<lambda>m.
         bindr (sys_tcp_socket env (s4\<lparr>mem8 := m\<rparr>)) (\<lambda>(sock, s5).
         bindr (connect_twice env sock ip 80 s5) (\<lambda>(_, s6).
         bindr (must_end (strlen req (mem8 s6))) (\<lambda>n.
         bindr (void (sys_tcp_socket_send env sock req (sint n) s6)) (\<lambda>s7.
         bindr (ended (http_loop env (al_rd l) sock s7)) (\<lambda>s8.
         void (sys_tcp_socket_close env sock s8)))))))))))"

section \<open>telnet\<close>

text \<open>Control sequences of three bytes are taken out of what was received.\<close>

function telnet_filter :: "nat \<Rightarrow> nat \<Rightarrow> nat \<Rightarrow> addr \<Rightarrow> bytes \<Rightarrow> nat \<times> bytes" where
  "telnet_filter src dst n buf m =
     (if src < n
      then
        if m (buf + of_nat src) = 0xff then telnet_filter (src + 3) dst n buf m
        else telnet_filter (Suc src) (Suc dst) n buf (wr8 (buf + of_nat dst) (m (buf + of_nat src)) m)
      else (dst, m))"
  by pat_completeness auto
termination
  by (relation "measure (\<lambda>(src, _, n, _). n - src)") auto

declare telnet_filter.simps [simp del]

definition telnet_show :: "'a others \<Rightarrow> addr \<Rightarrow> int \<Rightarrow> 'a tcp_state_scheme \<Rightarrow> 'a tcp_state_scheme res" where
  "telnet_show env buf n s =
     (let (k, m) = telnet_filter 0 0 (nat n) buf (mem8 s) in
      bindr (put_str env buf (s\<lparr>mem8 := wr8 (buf + of_nat k) 0 m\<rparr>)) (\<lambda>s1. Inr (store (memset buf 0 1500) s1)))"

partial_function (option) telnet_loop :: "'a others \<Rightarrow> app_locals \<Rightarrow> int \<Rightarrow> 'a tcp_state_scheme \<Rightarrow> 'a tcp_state_scheme res option" where
  "telnet_loop env l sock s =
     andr (sys_tcp_socket_recv env sock (al_rd l) 1500 0 s) (\<lambda>(ret, s1).
     andr (if 0 < ret then telnet_show env (al_rd l) ret s1 else Inr s1) (\<lambda>s2.
     if ret < 0 then Some (Inr s2)
     else
       andr (sys_key_getc env 0 s2) (\<lambda>(c, s3).
       let s4 = store (wr8 (al_char l) (of_int c)) s3 in
       andr (if (of_int c :: u8) \<noteq> 0 then void (sys_tcp_socket_send env sock (al_char l) 1 s4) else Inr s4)
         (telnet_loop env l sock))))"

definition exec_telnet :: "'a others \<Rightarrow> app_locals \<Rightarrow> addr \<Rightarrow> 'a tcp_state_scheme \<Rightarrow> 'a tcp_state_scheme res" where
  "exec_telnet env l buf s =
     bindr (app_parse l buf s) (\<lambda>(ip0, s1).
     bindr (sys_udp_socket env s1) (\<lambda>(udp_sock, s2).
     bindr (app_resolve env l ip0 udp_sock buf s2) (\<lambda>(ip, s3).
     if ip = 0 then Inr s3
     else
       bindr (run [print_lit env ''telnet to '', put_str env buf, print_lit env '' ('', put_ip env ip, print_lit env ('')'' @ nl)] s3) (\<lambda>s4.
       bindr (sys_tcp_socket env s4) (\<lambda>(sock, s5).
       bindr (connect_twice env sock ip 23 s5) (\<lambda>(ret, s6).
       if ret \<noteq> 1 then Inr s6
       else
         bindr (ended (telnet_loop env l sock (store (memset (al_rd l) 0 1500) s6))) (\<lambda>s7.
         void (sys_tcp_socket_close env sock s7))))))))"

section \<open>nc\<close>

definition nc_split :: "addr \<Rightarrow> addr \<Rightarrow> addr \<Rightarrow> u32 \<Rightarrow> bytes \<Rightarrow> bytes" where
  "nc_split host port buf buf_len m =
     (let m1 = memset port 0 100 (memset host 0 100 m) in
      case find_char 32 buf (unat buf_len) m1 of
        None \<Rightarrow> m1
      | Some i \<Rightarrow> strncpy port (buf + of_nat i + 1) (buf_len - of_nat i - 1) (strncpy host buf (of_nat i) m1))"

text \<open>The typed line is complete: \<open>exit\<close>, or send it. The flag says to leave the loop.\<close>

definition nc_line :: "'a others \<Rightarrow> app_locals \<Rightarrow> int \<Rightarrow> nat \<Rightarrow> 'a tcp_state_scheme \<Rightarrow> (bool \<times> 'a tcp_state_scheme) res" where
  "nc_line env l sock write_pos s =
     bindr (must_end (strlen (al_wr l) (mem8 s))) (\<lambda>n.
     if n = 4 \<and> strncmp_lit ''exit'' (al_wr l) (mem8 s) then Inr (True, s)
     else
       bindr (void (sys_tcp_socket_send env sock (al_wr l) (int write_pos) s)) (\<lambda>s1.
       Inr (False, store (memset (al_wr l) 0 100) s1)))"

partial_function (option) nc_loop :: "'a others \<Rightarrow> app_locals \<Rightarrow> int \<Rightarrow> nat \<Rightarrow> 'a tcp_state_scheme \<Rightarrow> 'a tcp_state_scheme res option" where
  "nc_loop env l sock write_pos s =
     andr (sys_tcp_socket_recv env sock (al_rd l) 100 0 s) (\<lambda>(ret, s1).
     andr (if 0 < ret then bindr (put_str env (al_rd l) s1) (\<lambda>s2. Inr (store (memset (al_rd l) 0 100) s2)) else Inr s1) (\<lambda>s2.
     if ret < 0 then Some (Inr s2)
     else
       andr (sys_key_getc env 0 s2) (\<lambda>(c, s3).
       let ch = of_int c :: u8 in
       if ch = 0 then nc_loop env l sock write_pos s3
       else
         andr (put_str env (al_char l) (store (\<lambda>m. wr8 (al_char l + 1) 0 (wr8 (al_char l) ch m)) s3)) (\<lambda>s4.
         if ch = 0x0a
         then andr (nc_line env l sock write_pos s4) (\<lambda>(stop, s5). if stop then Some (Inr s5) else nc_loop env l sock 0 s5)
         else
           let s5 = store (wr8 (al_wr l + of_nat write_pos) ch) s4 in
           if 90 < Suc write_pos then Some (print_lit env (nl @ ''command too long'' @ nl) s5)
           else nc_loop env l sock (Suc write_pos) s5))))"

definition exec_nc :: "'a others \<Rightarrow> app_locals \<Rightarrow> addr \<Rightarrow> 'a tcp_state_scheme \<Rightarrow> 'a tcp_state_scheme res" where
  "exec_nc env l buf s =
     bindr (must_end (strlen buf (mem8 s))) (\<lambda>buf_len.
     let host = al_host l; port = al_port l; s1 = store (nc_split host port buf buf_len) s in
     if mem8 s1 host = 0 then Inr s1
     else
       bindr (sys_udp_socket env s1) (\<lambda>(udp_sock, s2).
       bindr (app_parse l host s2) (\<lambda>(ip0, s3).
       bindr (app_resolve env l ip0 udp_sock host s3) (\<lambda>(ip, s4).
       if ip = 0 then Inr s4
       else
         bindr (must_end (stoi port (mem8 s4))) (\<lambda>dstport.
         if dstport = 0 then run [print_lit env ''invalid port: '', put_str env port, print_lit env nl] s4
         else
           bindr (run [print_lit env ''nc '', put_str env host, print_lit env '' ('', put_ip env ip, print_lit env '')'', print_lit env '' : '',
                       put_num env (ucast dstport), print_lit env nl] s4) (\<lambda>s5.
           bindr (sys_tcp_socket env s5) (\<lambda>(sock, s6).
           bindr (connect_twice env sock ip (ucast dstport) s6) (\<lambda>(ret, s7).
           if ret \<noteq> 1 then Inr s7
           else
             bindr (print_lit env (''Connected: type exit to exit nc command'' @ nl) s7) (\<lambda>s8.
             bindr (ended (nc_loop env l sock 0 (store (\<lambda>m. memset (al_rd l) 0 100 (memset (al_wr l) 0 100 m)) s8))) (\<lambda>s9.
             void (sys_tcp_socket_close env sock s9)))))))))))"

text \<open>The empty delay loop of \<open>exec_nctest\<close> changes nothing.\<close>

definition nctest_round :: "'a others \<Rightarrow> app_locals \<Rightarrow> int \<Rightarrow> nat \<Rightarrow> 'a tcp_state_scheme \<Rightarrow> 'a tcp_state_scheme res" where
  "nctest_round env l sock i s =
     bindr (run [print_lit env ''i = '', put_num env (of_nat i), print_lit env nl] s) (\<lambda>s1.
     void (sys_tcp_socket_send env sock (al_pkt l) 2
       (store (\<lambda>m. wr8 (al_pkt l + 1) 10 (wr8 (al_pkt l) (48 + of_nat (i mod 10)) m)) s1)))"

definition exec_nctest :: "'a others \<Rightarrow> app_locals \<Rightarrow> 'a tcp_state_scheme \<Rightarrow> 'a tcp_state_scheme res" where
  "exec_nctest env l s =
     (let ip = push_bit 24 192 + push_bit 16 168 + push_bit 8 2 + 1 in
      bindr (print_lit env (''nctest'' @ nl) s) (\<lambda>s1.
      bindr (sys_tcp_socket env s1) (\<lambda>(sock, s2).
      bindr (connect_twice env sock ip 8888 s2) (\<lambda>(ret, s3).
      if ret \<noteq> 1 then Inr s3
      else
        bindr (print_lit env (''Connected: test start'' @ nl) s3) (\<lambda>s4.
        bindr (for_list [0..<30] (nctest_round env l sock) s4) (\<lambda>s5.
        void (sys_tcp_socket_close env sock s5)))))))"

partial_function (option) ncserver_loop :: "'a others \<Rightarrow> addr \<Rightarrow> int \<Rightarrow> 'a tcp_state_scheme \<Rightarrow> 'a tcp_state_scheme res option" where
  "ncserver_loop env buf sock s =
     andr (sys_tcp_socket_recv env sock buf 1500 1000 (store (memset buf 0 1505) s)) (\<lambda>(ret, s1).
     if ret = 0 then andr (print_lit env (''tcp_socket_recv timeout'' @ nl) s1) (ncserver_loop env buf sock)
     else if ret = - 1 then Some (print_lit env (''tcp_socket_recv ret -1'' @ nl) s1)
     else andr (run [put_str env buf, print_lit env nl] s1) (ncserver_loop env buf sock))"

definition exec_ncserver :: "'a others \<Rightarrow> app_locals \<Rightarrow> addr \<Rightarrow> 'a tcp_state_scheme \<Rightarrow> 'a tcp_state_scheme res" where
  "exec_ncserver env l buf s =
     bindr (sys_tcp_socket env s) (\<lambda>(sock, s1).
     bindr (must_end (stoi buf (mem8 s1))) (\<lambda>port.
     if port = 0 then run [print_lit env ''invalid port: '', put_str env buf, print_lit env nl] s1
     else
       bindr (void (sys_tcp_socket_bind env sock HOST_IP (ucast port) s1)) (\<lambda>s2.
       bindr (void (sys_tcp_socket_listen env sock s2)) (\<lambda>s3.
       bindr (sys_tcp_socket_accept env sock s3) (\<lambda>(ret, s4).
       bindr (print_lit env (if ret = - 1 then ''failed to accept'' @ nl else ''tcp connected'' @ nl) s4) (\<lambda>s5.
       bindr (ended (ncserver_loop env (al_rd l) sock s5)) (\<lambda>s6.
       void (sys_tcp_socket_close env sock s6))))))))"

section \<open>The shell\<close>

definition help_text :: "string list" where
  "help_text =
     [''ping dest (ipaddr/hostname)'', ''traceroute dest (ipaddr/hostname)'', ''httpget URL (http only)'',
      ''telnet dest (ipaddr/hostname)'', ''nc dest (ipaddr/hostname)'', ''nctest dest (ipaddr/hostname)'',
      ''ncserver port'']"

definition thankyou_text :: "string list" where
  "thankyou_text =
     ['' _____ _              _    __   __        '',
      ''|_   _| |_  __ _ _ _ | |__ '' @ [CHR 0x5c] @ '' '' @ [CHR 0x5c] @ '' / /__ _  _ '',
      ''  | | | '' @ [CHR 0x27] @ '' '' @ [CHR 0x5c] @ ''/ _'' @ [CHR 0x60] @ '' | '' @ [CHR 0x27] @ '' '' @ [CHR 0x5c] @ ''| / /  '' @ [CHR 0x5c] @ '' V / _ '' @ [CHR 0x5c] @ '' || |'',
      ''  |_| |_||_'' @ [CHR 0x5c] @ ''__,_|_||_|_'' @ [CHR 0x5c] @ ''_'' @ [CHR 0x5c] @ ''   |_|'' @ [CHR 0x5c] @ ''___/'' @ [CHR 0x5c] @ ''_,_|'',
      ''                                          '',
      ''                ___        '',
      ''               | __|__ _ _ '',
      ''               | _/ _ '' @ [CHR 0x5c] @ '' '' @ [CHR 0x27] @ ''_|'',
      ''               |_|'' @ [CHR 0x5c] @ ''___/_|  '',
      ''            '',
      ''__      __    _      _    _             _   _ '',
      [CHR 0x5c] @ '' '' @ [CHR 0x5c] @ ''    / /_ _| |_ __| |_ (_)_ _  __ _  | | | |'',
      '' '' @ [CHR 0x5c] @ '' '' @ [CHR 0x5c] @ ''/'' @ [CHR 0x5c] @ ''/ / _'' @ [CHR 0x60] @ '' |  _/ _| '' @ [CHR 0x27] @ '' '' @ [CHR 0x5c] @ ''| | '' @ [CHR 0x27] @ '' '' @ [CHR 0x5c] @ ''/ _'' @ [CHR 0x60] @ '' | |_| |_|'',
      ''  '' @ [CHR 0x5c] @ ''_/'' @ [CHR 0x5c] @ ''_/'' @ [CHR 0x5c] @ ''__,_|'' @ [CHR 0x5c] @ ''__'' @ [CHR 0x5c] @ ''__|_||_|_|_||_'' @ [CHR 0x5c] @ ''__, | (_) (_)'',
      ''                                |___/         '',
      '''']"

definition exec_command :: "'a others \<Rightarrow> app_locals \<Rightarrow> addr \<Rightarrow> 'a tcp_state_scheme \<Rightarrow> 'a tcp_state_scheme res" where
  "exec_command env l buf s =
     (let is_cmd = (\<lambda>c. strncmp_lit c buf (mem8 s)) in
      if is_cmd ''ping '' then exec_ping env l (buf + 5) s
      else if is_cmd ''traceroute '' then exec_traceroute env l (buf + 11) s
      else if is_cmd ''httpget '' then exec_httpget env l (buf + 8) s
      else if is_cmd ''telnet '' then exec_telnet env l (buf + 7) s
      else if is_cmd ''nc '' then exec_nc env l (buf + 3) s
      else if is_cmd ''nctest'' then exec_nctest env l s
      else if is_cmd ''ncserver '' then exec_ncserver env l (buf + 9) s
      else if is_cmd ''help'' then run (map (\<lambda>t. print_lit env (t @ nl)) help_text) s
      else if is_cmd ''thankyou'' then run (map (\<lambda>t. print_lit env (t @ nl)) thankyou_text) s
      else run [print_lit env ''command not found: '', put_str env buf, print_lit env nl] s)"

text \<open>The inner loop of \<open>userland_main\<close>: it returns the number of characters of the line.\<close>

partial_function (option) read_line :: "'a others \<Rightarrow> app_locals \<Rightarrow> nat \<Rightarrow> 'a tcp_state_scheme \<Rightarrow> (nat \<times> 'a tcp_state_scheme) res option" where
  "read_line env l buf_pos s =
     andr (sys_key_getc env 1 s) (\<lambda>(c, s1).
     let ch = of_int c :: u8 in
     if ch = 0 then read_line env l buf_pos s1
     else
       andr (put_str env (al_char l) (store (\<lambda>m. wr8 (al_char l + 1) 0 (wr8 (al_char l) ch m)) s1)) (\<lambda>s2.
       if ch = 0x0a then Some (Inr (buf_pos, s2))
       else
         let s3 = store (wr8 (al_line l + of_nat buf_pos) ch) s2 in
         if 90 < Suc buf_pos
         then Some (bindr (print_lit env (nl @ ''command too long'' @ nl) s3) (\<lambda>s4. Inr (Suc buf_pos, s4)))
         else read_line env l (Suc buf_pos) s3))"

text \<open>One round of the endless loop of \<open>userland_main\<close>.\<close>

definition userland_round :: "'a others \<Rightarrow> app_locals \<Rightarrow> 'a tcp_state_scheme \<Rightarrow> 'a tcp_state_scheme res" where
  "userland_round env l s =
     bindr (print_lit env ''> '' s) (\<lambda>s1.
     bindr (ended (read_line env l 0 (store (memset (al_line l) 0 100) s1))) (\<lambda>(buf_pos, s2).
     if 0 < buf_pos then exec_command env l (al_line l) s2 else Inr s2))"

section \<open>Literals and lines\<close>

text \<open>
  The compiler keeps a literal somewhere in memory; printing and comparing it there is what \<open>print_lit\<close> and
  \<open>strncmp_lit\<close> do.
\<close>

lemma print_lit_call:
  assumes "cstr (mem8 s) a (lit str)"
  shows "void (sys_print_str env a s) = print_lit env str s"
proof -
  have "rd_str (mem8 (io_cli s)) a [] = Some (lit str)"
    using rd_str_bytes [of "mem8 s" a "lit str" "[]"] assms by (simp add: cstr_def rflags_defs)
  then show ?thesis
    by (simp add: sys_print_str_def sys_call_def syscall_handler_def syscall_print_str_def void_def print_lit_def)
qed

lemma strncmp_lit_call:
  assumes "bytes_at m p (length str) = lit str" and "length str < 4294967296"
  shows "strncmp_lit str a m \<longleftrightarrow> strncmp p a (of_nat (length str)) m \<noteq> 0"
  using assms by (auto simp: strncmp_lit_def strncmp_iff unat_of_nat32)

text \<open>The line buffer of 100 bytes: at most 91 characters are stored.\<close>

lemma read_line_bound:
  assumes "read_line env l p s = Some (Inr (n, s'))" and "p \<le> 90"
  shows "n \<le> 91"
proof -
  have "\<forall>n s'. r = Inr (n, s') \<longrightarrow> p \<le> 90 \<longrightarrow> n \<le> 91" if "read_line env l p s = Some r" for r
    by (rule read_line.raw_induct [where P = "\<lambda>env l p s r. \<forall>n s'. r = Inr (n, s') \<longrightarrow> p \<le> 90 \<longrightarrow> n \<le> 91", OF _ that])
      (fastforce simp: andr_def Let_def print_lit_def split: sum.splits if_splits prod.splits)
  then show ?thesis using assms by blast
qed

section \<open>Parsing numbers and addresses\<close>

text \<open>What \<open>stoi\<close> makes of a string: zero when a character is not a digit.\<close>

definition stoi_value :: "u8 list \<Rightarrow> u32" where
  "stoi_value ds = (if list_all is_digit ds then of_nat (dec_value ds) else 0)"

lemma foldl_digits:
  "list_all is_digit ds \<Longrightarrow>
   (of_nat (foldl (\<lambda>acc d. acc * 10 + unat (d - 48)) n ds) :: u32) = foldl (\<lambda>acc d. acc * 10 + (ucast d - 48)) (of_nat n) ds"
proof (induction ds arbitrary: n)
  case (Cons d ds)
  have "(of_nat (unat (d - 48)) :: u32) = ucast d - 48"
  proof -
    have "unat (d - 48) = unat d - 48" using Cons.prems by (simp add: is_digit_def unat_sub)
    moreover have "48 \<le> unat d" using Cons.prems by (simp add: is_digit_def word_le_nat_alt)
    ultimately have "(of_nat (unat (d - 48)) :: u32) = of_nat (unat d) - 48" by (simp add: of_nat_diff)
    then show ?thesis by (simp add: of_nat_unat)
  qed
  with Cons show ?case by simp
qed simp

lemma stoi_loop_spec:
  assumes "cstr m a ds" and "i \<le> length ds"
  shows "stoi_loop i (length ds) a ret m =
    (if list_all is_digit (drop i ds) then foldl (\<lambda>acc d. acc * 10 + (ucast d - 48)) ret (drop i ds) else 0)"
  using assms(2)
proof (induction "length ds - i" arbitrary: i ret)
  case 0
  then show ?case by (subst stoi_loop.simps) simp
next
  case (Suc k)
  then have i: "i < length ds" by simp
  have c: "m (a + of_nat i) = ds ! i" using cstr_nth(1) [OF assms(1) i] by simp
  have d: "drop i ds = ds ! i # drop (Suc i) ds" using i by (simp add: Cons_nth_drop_Suc)
  have "stoi_loop (Suc i) (length ds) a r m =
      (if list_all is_digit (drop (Suc i) ds) then foldl (\<lambda>acc d. acc * 10 + (ucast d - 48)) r (drop (Suc i) ds) else 0)" for r
    using Suc i by (intro Suc.hyps(1)) simp_all
  then show ?case using i by (subst stoi_loop.simps) (auto simp: c d is_digit_def Let_def not_less)
qed

lemma stoi_ok: "cstr m a ds \<Longrightarrow> length ds < 4294967296 \<Longrightarrow> stoi a m = Some (stoi_value ds)"
  using stoi_loop_spec [of m a ds 0 0] foldl_digits [of ds 0]
  by (simp add: stoi_def strlen_cstr unat_of_nat32 stoi_value_def dec_value_def)

lemma ip_step:
  assumes "Suc q = n" and "n \<le> k" and "k < 2147483648"
  shows "ip_loop tmp buf (of_nat k) st (of_nat q) dots ret m =
    (if m (buf + of_nat n) = DOT
     then Option.bind (ip_block tmp buf st (of_nat n) ret m) (\<lambda>(ret1, m1).
            ip_loop tmp buf (of_nat k) (of_nat (Suc n)) (of_nat (Suc n)) (Suc dots) ret1 m1)
     else ip_loop tmp buf (of_nat k) st (of_nat n) dots ret m)"
proof -
  have s: "(of_nat (Suc n) :: u32) = of_nat n + 1" by simp
  show ?thesis by (subst ip_loop.simps) (simp only: u32_pos [OF assms] Let_def s if_True)
qed

lemma ip_scan:
  assumes xs: "cstr m buf xs" "length xs < 2147483648" and l: "drop p xs = l @ rest" "DOT \<notin> set l" and i: "i < length l" and p: "p \<le> length xs"
  shows "ip_loop tmp buf (of_nat (length xs)) st (of_nat (p + i)) dots ret m =
    ip_loop tmp buf (of_nat (length xs)) st (of_nat (p + length l - 1)) dots ret m"
  using i
proof (induction "length l - 1 - i" arbitrary: i)
  case 0
  then have "p + i = p + length l - 1" by simp
  then show ?case by simp
next
  case (Suc k)
  then have i: "Suc i < length l" by simp
  have len: "p + length l \<le> length xs" using arg_cong [OF l(1), of length] p by simp
  have "m (buf + of_nat (p + Suc i)) = l ! Suc i" using cstr_char [OF xs(1) l(1), of "Suc i"] i by (simp add: nth_append)
  moreover have "l ! Suc i \<noteq> DOT" using l(2) i nth_mem [of "Suc i" l] by metis
  ultimately have "ip_loop tmp buf (of_nat (length xs)) st (of_nat (p + i)) dots ret m = ip_loop tmp buf (of_nat (length xs)) st (of_nat (p + Suc i)) dots ret m"
    using ip_step [of "p + i" "p + Suc i" "length xs" tmp buf st dots ret m] i len xs(2) by simp
  also have "\<dots> = ip_loop tmp buf (of_nat (length xs)) st (of_nat (p + length l - 1)) dots ret m"
    using Suc i by (intro Suc.hyps(1)) simp_all
  finally show ?case .
qed

text \<open>One part: \<open>tmpbuf\<close> is overwritten, nothing else.\<close>

lemma ip_block_ok:
  assumes c: "cstr m buf xs" and len: "length xs < 2147483648" and l: "drop p xs = l @ rest" "length l < 100" and p: "p \<le> length xs"
    and dis: "region tmp 100 \<inter> region buf (Suc (length xs)) = {}"
  shows "\<exists>m'. ip_block tmp buf (of_nat p) (of_nat (p + length l)) ret m = Some (push_bit 8 ret + stoi_value l, m') \<and>
           (\<forall>x. x \<notin> region tmp 100 \<longrightarrow> m' x = m x)"
proof -
  have pl: "p + length l \<le> length xs" using arg_cong [OF l(1), of length] p by simp
  have u: "(of_nat (p + length l) :: u32) - of_nat p = of_nat (length l)" "unat (of_nat (length l) :: u32) = length l"
    "scast (of_nat p :: u32) = (of_nat p :: u64)"
    using pl len scast_of_nat [of p] by (simp_all add: unat_of_nat32)
  let ?m0 = "wr_list tmp (replicate 100 0) m" and ?k = "length l"
  have sub: "region tmp ?k \<subseteq> region tmp 100" "region (buf + of_nat p) ?k \<subseteq> region buf (Suc (length xs))"
    using l(2) pl by (auto intro!: region_mono region_sub)
  have "bytes_at ?m0 (buf + of_nat p) ?k = bytes_at m (buf + of_nat p) ?k" using dis sub by (intro bytes_wr_list_other) auto
  then have src: "bytes_at ?m0 (buf + of_nat p) ?k = l" using cstr_bytes [OF c l(1)] by simp
  let ?m1 = "wr_list tmp l ?m0"
  have "memcpy tmp (buf + of_nat p) (of_nat ?k) ?m0 = ?m1"
    using memcpy_wr_list [of tmp "of_nat ?k" "buf + of_nat p" ?m0] dis sub src u(2) by auto
  then have m1: "memcpy tmp (buf + scast (of_nat p :: u32)) (of_nat (p + ?k) - of_nat p) (memset tmp 0 100 m) = ?m1"
    by (simp add: memset_wr_list u)
  have "cstr ?m1 tmp l"
  proof -
    have z: "?m1 (tmp + of_nat ?k) = 0"
    proof -
      have "tmp + of_nat ?k \<notin> region tmp ?k" using l(2) offset_inj [of ?k _ tmp] by (auto simp: region_def)
      then have "?m1 (tmp + of_nat ?k) = ?m0 (tmp + of_nat ?k)" by (rule wr_list_frame)
      then show ?thesis using l(2) by (simp add: wr_list_nth)
    qed
    have "bytes_at ?m1 tmp (?k + 1) = l @ [0]" unfolding bytes_at_append using z l(2) by (simp add: bytes_wr_list) (simp add: bytes_at_def)
    moreover have "0 \<notin> set l"
    proof -
      have "set l \<subseteq> set xs" using set_drop_subset [of p xs] by (auto simp: l(1))
      moreover have "0 \<notin> set xs" using c by (simp add: cstr_def)
      ultimately show ?thesis by blast
    qed
    ultimately show ?thesis by (simp add: cstr_def)
  qed
  with stoi_ok l(2) have "stoi tmp ?m1 = Some (stoi_value l)" by simp
  moreover have "?m1 x = m x" if "x \<notin> region tmp 100" for x using that sub(1) by (subst wr_list_frame, blast, subst wr_list_frame) simp_all
  ultimately show ?thesis unfolding ip_block_def Let_def m1 by auto
qed

lemma cstr_outside:
  assumes "cstr m buf xs" and "\<forall>x. x \<notin> W \<longrightarrow> m' x = m x" and "W \<inter> region buf (Suc (length xs)) = {}"
  shows "cstr m' buf xs"
proof -
  have "bytes_at m' buf (Suc (length xs)) = bytes_at m buf (Suc (length xs))"
    by (rule bytes_at_cong) (use assms(2,3) in_region [of _ "Suc (length xs)" buf] in blast)
  with assms(1) show ?thesis unfolding cstr_def by simp
qed

definition ip_value :: "u32 \<Rightarrow> u8 list list \<Rightarrow> u32" where
  "ip_value r ls = foldl (\<lambda>r l. push_bit 8 r + stoi_value l) r ls"

lemma ip_value_simps [simp]: "ip_value r [] = r" "ip_value r (l # ls) = ip_value (push_bit 8 r + stoi_value l) ls"
  by (simp_all add: ip_value_def)

lemma ip_loop_ok:
  assumes "cstr m buf xs" and len: "length xs < 2147483648" and "drop p xs = dotted (l # ls)" and "p \<le> length xs"
    and "\<forall>x \<in> set (l # ls). x \<noteq> [] \<and> DOT \<notin> set x \<and> length x < 100" and dis: "region tmp 100 \<inter> region buf (Suc (length xs)) = {}"
  shows "\<exists>q m'. ip_loop tmp buf (of_nat (length xs)) (of_nat p) (of_nat p) dots ret m =
             Some (of_nat q, of_nat (length xs), dots + length ls, ip_value ret (butlast (l # ls)), m') \<and>
           drop q xs = last (l # ls) \<and> q \<le> length xs \<and> (\<forall>x. x \<notin> region tmp 100 \<longrightarrow> m' x = m x)"
  using assms(1,3-5)
proof (induction ls arbitrary: l p dots ret m)
  case Nil
  have l: "drop p xs = l @ []" "DOT \<notin> set l" "0 < length l" using Nil.prems by auto
  have pl: "p + length l = length xs" using arg_cong [OF l(1), of length] Nil.prems(3) by simp
  let ?q = "p + length l - 1"
  have "ip_loop tmp buf (of_nat (length xs)) (of_nat p) (of_nat p) dots ret m = ip_loop tmp buf (of_nat (length xs)) (of_nat p) (of_nat ?q) dots ret m"
    using ip_scan [OF Nil.prems(1) len l(1,2,3) Nil.prems(3)] by simp
  also have "\<dots> = ip_loop tmp buf (of_nat (length xs)) (of_nat p) (of_nat (length xs)) dots ret m"
  proof -
    have "Suc ?q = length xs" using l(3) pl by linarith
    from ip_step [OF this order_refl len, of tmp buf "of_nat p" dots ret m] show ?thesis using cstr_nth(2) [OF Nil.prems(1)] by simp
  qed
  also have "\<dots> = Some (of_nat p, of_nat (length xs), dots, ret, m)" by (subst ip_loop.simps) simp
  finally show ?case using Nil.prems(2,3) by (intro exI [of _ p] exI [of _ m]) simp
next
  case (Cons l' ls)
  let ?r = "dotted (l' # ls)" and ?q = "p + length l - 1"
  have l: "drop p xs = l @ DOT # ?r" "DOT \<notin> set l" "0 < length l" "length l < 100" using Cons.prems by auto
  have pl: "p + length l + 1 + length ?r = length xs" using arg_cong [OF l(1), of length] Cons.prems(3) by simp
  from ip_block_ok [OF Cons.prems(1) len l(1,4) Cons.prems(3) dis, of ret] obtain m1 where
    m1: "ip_block tmp buf (of_nat p) (of_nat (p + length l)) ret m = Some (push_bit 8 ret + stoi_value l, m1)"
      "\<forall>x. x \<notin> region tmp 100 \<longrightarrow> m1 x = m x" by blast
  have "ip_loop tmp buf (of_nat (length xs)) (of_nat p) (of_nat p) dots ret m = ip_loop tmp buf (of_nat (length xs)) (of_nat p) (of_nat ?q) dots ret m"
    using ip_scan [OF Cons.prems(1) len l(1,2,3) Cons.prems(3)] by simp
  also have "\<dots> = ip_loop tmp buf (of_nat (length xs)) (of_nat (Suc (p + length l))) (of_nat (Suc (p + length l))) (Suc dots) (push_bit 8 ret + stoi_value l) m1"
  proof -
    have "m (buf + of_nat (p + length l)) = DOT" using cstr_char [OF Cons.prems(1) l(1), of "length l"] by simp
    moreover have "Suc ?q = p + length l" "p + length l \<le> length xs" using l(3) pl by simp_all
    note ip_step [OF this len, of tmp buf "of_nat p" dots ret m]
    ultimately show ?thesis using m1(1) by simp
  qed
  also have "\<exists>q m'. \<dots> = Some (of_nat q, of_nat (length xs), Suc dots + length ls, ip_value (push_bit 8 ret + stoi_value l) (butlast (l' # ls)), m') \<and>
      drop q xs = last (l' # ls) \<and> q \<le> length xs \<and> (\<forall>x. x \<notin> region tmp 100 \<longrightarrow> m' x = m1 x)"
  proof (rule Cons.IH)
    show "cstr m1 buf xs" by (rule cstr_outside [OF Cons.prems(1) m1(2) dis])
    show "drop (Suc (p + length l)) xs = ?r" using arg_cong [OF l(1), of "drop (length l + 1)"] by (simp add: add.commute add.left_commute)
  qed (use pl Cons.prems(4) in auto)
  finally show ?case using m1(2) by auto
qed

lemma parse_ipaddr_ok:
  assumes c: "cstr m buf (dotted ls)" and ls: "ls \<noteq> []" "\<forall>l \<in> set ls. l \<noteq> [] \<and> DOT \<notin> set l \<and> length l < 100"
    and len: "length (dotted ls) < 2147483648" and dis: "region tmp 100 \<inter> region buf (Suc (length (dotted ls))) = {}"
  shows "\<exists>m'. parse_ipaddr tmp buf m = Some (if length ls = 4 then ip_value 0 ls else 0, m') \<and> (\<forall>x. x \<notin> region tmp 100 \<longrightarrow> m' x = m x)"
proof -
  let ?xs = "dotted ls"
  obtain l' ls' where ls': "ls = l' # ls'" using ls(1) by (cases ls) auto
  from ip_loop_ok [of m buf ?xs 0 l' ls' tmp 0 0] c len ls(2) dis obtain q m1 where
    q: "ip_loop tmp buf (of_nat (length ?xs)) 0 0 0 0 m = Some (of_nat q, of_nat (length ?xs), length ls - 1, ip_value 0 (butlast ls), m1)"
      "drop q ?xs = last ls" "q \<le> length ?xs" "\<forall>x. x \<notin> region tmp 100 \<longrightarrow> m1 x = m x" by (auto simp: ls')
  have s: "strlen buf m = Some (of_nat (length ?xs))" using strlen_cstr [OF c] len by simp
  have k: "length ?xs = q + length (last ls)" using arg_cong [OF q(2), of length] q(3) by simp
  have c1: "cstr m1 buf ?xs" by (rule cstr_outside [OF c q(4) dis])
  have last: "length (last ls) < 100" using ls by simp
  from ip_block_ok [OF c1 len _ last q(3) dis, of "[]" "ip_value 0 (butlast ls)"] q(2) k obtain m2 where
    m2: "ip_block tmp buf (of_nat q) (of_nat (length ?xs)) (ip_value 0 (butlast ls)) m1 = Some (push_bit 8 (ip_value 0 (butlast ls)) + stoi_value (last ls), m2)"
      "\<forall>x. x \<notin> region tmp 100 \<longrightarrow> m2 x = m1 x" by auto
  have "ip_value 0 (butlast ls @ [last ls]) = push_bit 8 (ip_value 0 (butlast ls)) + stoi_value (last ls)" by (simp add: ip_value_def)
  then have v: "push_bit 8 (ip_value 0 (butlast ls)) + stoi_value (last ls) = ip_value 0 ls" using ls(1) by simp
  show ?thesis
  proof (cases "length ls = 4")
    case True
    then show ?thesis using q(4) m2 by (simp add: parse_ipaddr_def s q(1) v)
  next
    case False
    then show ?thesis using q(4) ls(1) by (auto simp: parse_ipaddr_def s q(1))
  qed
qed

section \<open>Telnet control sequences\<close>

text \<open>The received bytes without the control sequences, each the byte 255 and the two bytes behind it.\<close>

function strip_ctl :: "u8 list \<Rightarrow> u8 list" where
  "strip_ctl [] = []"
| "strip_ctl (x # xs) = (if x = 0xff then strip_ctl (drop 2 xs) else x # strip_ctl xs)"
  by pat_completeness auto
termination
  by (relation "measure length") auto

lemma telnet_filter_spec:
  assumes "n < 18446744073709551616" and "dst \<le> src"
  shows "telnet_filter src dst n buf m =
    (let ys = strip_ctl (bytes_at m (buf + of_nat src) (n - src)) in (dst + length ys, wr_list (buf + of_nat dst) ys m))"
  using assms
proof (induction src dst n buf m rule: telnet_filter.induct)
  case (1 src dst n buf m)
  let ?c = "m (buf + of_nat src)"
  show ?case
  proof (cases "src < n")
    case False
    then show ?thesis by (subst telnet_filter.simps) (simp add: bytes_at_def)
  next
    case True
    have "bytes_at m (buf + of_nat src) (1 + (n - Suc src)) = [?c] @ bytes_at m (buf + of_nat (Suc src)) (n - Suc src)"
      unfolding bytes_at_append by (simp add: bytes_at_def ac_simps)
    then have b: "bytes_at m (buf + of_nat src) (n - src) = ?c # bytes_at m (buf + of_nat (Suc src)) (n - Suc src)" using True by (simp add: Suc_diff_Suc)
    show ?thesis
    proof (cases "?c = 0xff")
      case True
      have "drop 2 (bytes_at m (buf + of_nat (Suc src)) (n - Suc src)) = bytes_at m (buf + of_nat (src + 3)) (n - (src + 3))"
        by (rule nth_equalityI) (auto simp: ac_simps)
      then show ?thesis using True \<open>src < n\<close> 1 by (subst telnet_filter.simps) (simp add: b Let_def)
    next
      case False
      let ?m = "wr8 (buf + of_nat dst) ?c m"
      have "bytes_at ?m (buf + of_nat (Suc src)) (n - Suc src) = bytes_at m (buf + of_nat (Suc src)) (n - Suc src)"
      proof (rule bytes_at_cong)
        fix i
        assume "i < n - Suc src"
        then have "buf + of_nat (Suc src + i) \<noteq> buf + of_nat dst" using 1(3,4) offset_inj [of "Suc src + i" dst buf] by simp
        then show "?m (buf + of_nat (Suc src) + of_nat i) = m (buf + of_nat (Suc src) + of_nat i)" by (simp add: add.assoc wr8_def)
      qed
      moreover have "wr_list (buf + of_nat dst) (?c # ys) m = wr_list (buf + of_nat (Suc dst)) ys ?m" for ys by (simp add: wr8_def ac_simps)
      ultimately show ?thesis using False \<open>src < n\<close> 1 by (subst telnet_filter.simps) (simp add: b Let_def del: wr_list.simps)
    qed
  qed
qed

section \<open>Decimal text\<close>

definition dec_text :: "u8 \<Rightarrow> u8 list" where
  "dec_text n =
     (if 100 \<le> n then [n div 100 + 48, n mod 100 div 10 + 48, n mod 100 mod 10 + 48]
      else if 10 \<le> n then [n div 10 + 48, n mod 10 + 48] else [n + 48])"

definition ip_bytes :: "u32 \<Rightarrow> u8 list" where
  "ip_bytes ip = [ucast (drop_bit 24 ip), ucast (drop_bit 16 ip), ucast (drop_bit 8 ip), ucast ip]"

lemma set_num_text: "set_num b n m = (int (length (dec_text n)), wr_list b (dec_text n) m)"
  by (simp add: set_num_def dec_text_def wr8_def Let_def)

lemma unat_u8: "unat (n :: u8) < 256"
  using unsigned_less [of n] by simp

lemma digit_bounds: "k < 10 \<Longrightarrow> unat (n :: u8) = k \<Longrightarrow> is_digit (n + 48) \<and> n + 48 \<noteq> 0"
proof -
  assume k: "k < 10" "unat n = k"
  then have "unat (n + 48) = k + 48" by (subst unat_add_lem [THEN iffD1]) simp_all
  with k show ?thesis by (auto simp: is_digit_def word_le_nat_alt dest: arg_cong [of _ _ unat])
qed

lemma dec_text_ok: "list_all is_digit (dec_text n)" "0 \<notin> set (dec_text n)" "dec_value (dec_text n) = unat n" "dec_text n \<noteq> []" "length (dec_text n) \<le> 3"
proof -
  note u = unat_u8 [of n]
  have d: "unat (n div 100) < 10" "unat (n mod 100 div 10) < 10" "unat (n mod 100 mod 10) < 10" "unat (n mod 10) < 10"
    using u by (simp_all add: unat_div unat_mod)
  have e: "\<not> 100 \<le> n \<Longrightarrow> unat (n div 10) < 10" "\<not> 10 \<le> n \<Longrightarrow> unat n < 10" by (simp_all add: unat_div word_le_nat_alt)
  show "list_all is_digit (dec_text n)" "0 \<notin> set (dec_text n)"
    using d e digit_bounds by (auto simp: dec_text_def)
  show "dec_value (dec_text n) = unat n"
    by (auto simp: dec_text_def dec_value_def unat_div unat_mod)
  show "dec_text n \<noteq> []" "length (dec_text n) \<le> 3" by (simp_all add: dec_text_def)
qed

lemma digit_not_dot: "list_all is_digit ds \<Longrightarrow> DOT \<notin> set ds"
  by (auto simp: list_all_iff is_digit_def)

lemma add_low_byte: "push_bit 8 x + ucast (y :: u8) = push_bit 8 x OR (ucast y :: u32)"
  by (rule disjunctive_add_eq_or) (rule bit_word_eqI, auto simp: bit_simps dest: bit_imp_le_length)

lemma join_bytes:
  "push_bit 8 (push_bit 8 (push_bit 8 (push_bit 8 0 OR ucast (ucast (drop_bit 24 ip) :: u8)) OR ucast (ucast (drop_bit 16 ip) :: u8)) OR
    ucast (ucast (drop_bit 8 ip) :: u8)) OR ucast (ucast ip :: u8) = (ip :: u32)"
  by (rule word_eq_fields4 [of 8 _ _ 8 8]) (auto simp: bit_simps dest: bit_imp_le_length)

lemma ip_value_bytes: "ip_value 0 (map dec_text (ip_bytes ip)) = ip"
proof -
  have "stoi_value (dec_text n) = ucast n" for n using dec_text_ok [of n] by (simp add: stoi_value_def of_nat_unat)
  then show ?thesis using join_bytes [of ip] by (simp only: ip_bytes_def list.map ip_value_simps add_low_byte)
qed

lemma set_num_dot_text: "set_num_dot n (b, m) = (b + of_nat (length (dec_text n @ [DOT])), wr_list b (dec_text n @ [DOT]) m)"
  by (simp add: set_num_dot_def set_num_text wr_list_append wr8_def ac_simps)

definition arpa_labels :: "u32 \<Rightarrow> u8 list list" where
  "arpa_labels ip = map dec_text (rev (ip_bytes ip)) @ [lit ''in-addr'', lit ''arpa'']"

lemma arpa_labels_ok: "length (dotted (arpa_labels ip)) \<le> 28" "0 \<notin> set (dotted (arpa_labels ip))" "\<forall>l \<in> set (arpa_labels ip). label_ok l"
proof -
  have t: "length (dec_text n) \<le> 3" "dec_text n \<noteq> []" "DOT \<notin> set (dec_text n)" "0 \<notin> set (dec_text n)" "length (dec_text n) < 192" for n
    using dec_text_ok [of n] digit_not_dot by auto
  show "length (dotted (arpa_labels ip)) \<le> 28"
    using t(1) [of "ucast ip"] t(1) [of "ucast (drop_bit 8 ip)"] t(1) [of "ucast (drop_bit 16 ip)"] t(1) [of "ucast (drop_bit 24 ip)"]
    by (simp add: arpa_labels_def ip_bytes_def lit_def)
  show "0 \<notin> set (dotted (arpa_labels ip))" using t(4) by (simp add: arpa_labels_def ip_bytes_def lit_def byte_of_def)
  show "\<forall>l \<in> set (arpa_labels ip). label_ok l" using t(2,3,5) by (simp add: arpa_labels_def ip_bytes_def lit_def byte_of_def label_ok_def)
qed

lemma arpa_text:
  "generate_arpa_address b ip m =
     wr8 (b + of_nat (length (dotted (arpa_labels ip)) + 1)) 0 (wr_list b (dotted (arpa_labels ip)) m)"
proof -
  have mask: "ucast (w AND 0xff) = (ucast w :: u8)" for w :: u32
    unfolding net_mask_words by (rule bit_word_eqI) (auto simp: bit_simps dest: bit_imp_le_length)
  define p q r s where "p = dec_text (ucast ip) @ [DOT]" and "q = dec_text (ucast (drop_bit 8 ip)) @ [DOT]"
    and "r = dec_text (ucast (drop_bit 16 ip)) @ [DOT]" and "s = dec_text (ucast (drop_bit 24 ip)) @ [DOT]"
  note defs = p_def q_def r_def s_def
  have d: "dotted (arpa_labels ip) = p @ q @ r @ s @ lit ''in-addr.arpa''"
    by (simp add: defs arpa_labels_def ip_bytes_def lit_def byte_of_def)
  have l: "length (lit ''in-addr.arpa'') = 12" by (simp add: lit_def)
  have "generate_arpa_address b ip m =
      wr8 (b + of_nat (length p) + of_nat (length q) + of_nat (length r) + of_nat (length s) + 13) 0
        (wr_list (b + of_nat (length p) + of_nat (length q) + of_nat (length r) + of_nat (length s)) (lit ''in-addr.arpa'')
          (wr_list (b + of_nat (length p) + of_nat (length q) + of_nat (length r)) s
            (wr_list (b + of_nat (length p) + of_nat (length q)) r (wr_list (b + of_nat (length p)) q (wr_list b p m)))))"
    by (simp only: generate_arpa_address_def mask set_num_dot_text Let_def prod.case defs)
  then show ?thesis by (simp add: d wr_list_append l ac_simps)
qed

section \<open>Properties\<close>

text \<open>
  C34: addresses typed by the user. On a text of non-empty parts between dots \<open>parse_ipaddr\<close> ends and changes
  nothing but its own buffer. With four parts it returns the number they denote (a part that is not decimal
  counts as zero), with any other number of parts zero. For the text the shell prints for an address it
  returns that address.
\<close>

theorem parse_ipaddr_correct:
  assumes "cstr m buf (dotted ls)" and "ls \<noteq> []" and "\<forall>l \<in> set ls. l \<noteq> [] \<and> DOT \<notin> set l \<and> length l < 100"
    and "length (dotted ls) < 2147483648" and "region tmp 100 \<inter> region buf (Suc (length (dotted ls))) = {}"
  shows "\<exists>m'. parse_ipaddr tmp buf m = Some (if length ls = 4 then ip_value 0 ls else 0, m') \<and>
           (\<forall>x. x \<notin> region tmp 100 \<longrightarrow> m' x = m x) \<and> (ls = map dec_text (ip_bytes ip) \<longrightarrow> parse_ipaddr tmp buf m = Some (ip, m'))"
proof -
  from parse_ipaddr_ok [OF assms] obtain m' where
    m': "parse_ipaddr tmp buf m = Some (if length ls = 4 then ip_value 0 ls else 0, m')" "\<forall>x. x \<notin> region tmp 100 \<longrightarrow> m' x = m x" by blast
  moreover have "parse_ipaddr tmp buf m = Some (ip, m')" if "ls = map dec_text (ip_bytes ip)"
    using m'(1) ip_value_bytes [of ip] that by (simp add: ip_bytes_def)
  ultimately show ?thesis by blast
qed

text \<open>
  C35: the name asked for in a reverse lookup. In a cleared buffer \<open>generate_arpa_address\<close> leaves a terminated
  string: the four bytes of the address in reverse order, in decimal, followed by \<open>in-addr.arpa\<close>. It is a
  name of valid labels, and nothing outside the first 30 bytes of the buffer changes.
\<close>

theorem arpa_name_correct:
  "cstr (generate_arpa_address b ip (memset b 0 100 m)) b (dotted (arpa_labels ip)) \<and> (\<forall>l \<in> set (arpa_labels ip). label_ok l) \<and>
   (\<forall>x. x \<notin> region b 30 \<longrightarrow> generate_arpa_address b ip (memset b 0 100 m) x = memset b 0 100 m x)"
proof -
  let ?xs = "dotted (arpa_labels ip)" and ?m = "memset b 0 100 m" and ?g = "generate_arpa_address b ip (memset b 0 100 m)"
  let ?k = "length ?xs"
  note k = arpa_labels_ok(1) [of ip]
  have g: "?g = (wr_list b ?xs ?m)(b + of_nat (?k + 1) := 0)" by (simp add: arpa_text wr8_def)
  have off: "b + of_nat i = b + of_nat j \<longleftrightarrow> i = j" if "i < 100" "j < 100" for i j using that offset_inj [of i j b] by simp
  have "?g (b + of_nat i) = (?xs @ [0]) ! i" if "i < Suc ?k" for i
  proof (cases "i < ?k")
    case True
    then have "?g (b + of_nat i) = wr_list b ?xs ?m (b + of_nat i)" using off [of i "?k + 1"] k by (simp only: g fun_upd_apply) simp
    also have "\<dots> = ?xs ! i" using True k by (intro wr_list_nth) simp_all
    finally show ?thesis using True by (simp add: nth_append)
  next
    case False
    then have i: "i = ?k" using that by simp
    have "b + of_nat ?k \<notin> region b ?k" using off [of ?k] k by (auto simp: region_def)
    then have "wr_list b ?xs ?m (b + of_nat ?k) = ?m (b + of_nat ?k)" by (rule wr_list_frame)
    also have "\<dots> = 0" using k in_region [of ?k 100 b] by (simp add: memset_spec)
    finally show ?thesis using i by (simp only: g fun_upd_apply) simp
  qed
  then have "bytes_at ?g b (Suc ?k) = ?xs @ [0]" by (intro nth_equalityI) simp_all
  then have "cstr ?g b ?xs" using arpa_labels_ok(2) by (simp add: cstr_def)
  moreover have "?g x = ?m x" if "x \<notin> region b 30" for x
  proof -
    have "x \<notin> region b ?k" "x \<noteq> b + of_nat (?k + 1)" using that k region_mono [of ?k 30 b] in_region [of "?k + 1" 30 b] by auto
    from wr_list_frame [OF this(1), of ?m] this(2) show ?thesis by (simp only: g fun_upd_apply if_False)
  qed
  ultimately show ?thesis using arpa_labels_ok(3) by blast
qed

text \<open>
  C36: the telnet client shows what was sent without the control sequences. The loop that compacts the buffer in
  place computes the same as the list function that drops every 255 and the two bytes behind it, and returns
  the number of bytes left.
\<close>

theorem telnet_filter_strips:
  assumes "n \<le> 1500"
  shows "telnet_filter 0 0 n buf m = (length (strip_ctl (bytes_at m buf n)), wr_list buf (strip_ctl (bytes_at m buf n)) m)"
  using telnet_filter_spec [of n 0 0 buf m] assms by (simp add: Let_def)

section \<open>Answers\<close>

text \<open>Messages as they are on the wire: a header, and records whose name is a pointer into the message.\<close>

definition be16 :: "u16 \<Rightarrow> u8 list" where
  "be16 v = [ucast (drop_bit 8 v), ucast v]"

definition dns_header :: "u16 \<Rightarrow> u16 \<Rightarrow> u16 \<Rightarrow> u16 \<Rightarrow> u16 \<Rightarrow> u16 \<Rightarrow> u8 list" where
  "dns_header ident opt qd an ns ar = be16 ident @ be16 opt @ be16 qd @ be16 an @ be16 ns @ be16 ar"

record dns_record =
  rr_off :: u8
  rr_type :: u16
  rr_class :: u16
  rr_ttl :: "u8 list"
  rr_data :: "u8 list"

definition rr_ok :: "dns_record \<Rightarrow> bool" where
  "rr_ok r = (length (rr_ttl r) = 4 \<and> length (rr_data r) < 65536)"

definition rr_enc :: "dns_record \<Rightarrow> u8 list" where
  "rr_enc r = [0xc0, rr_off r] @ be16 (rr_type r) @ be16 (rr_class r) @ rr_ttl r @ be16 (of_nat (length (rr_data r))) @ rr_data r"

definition of_be32 :: "u8 list \<Rightarrow> u32" where
  "of_be32 bs = foldl (\<lambda>v b. push_bit 8 v + ucast b) 0 bs"

lemma of_be32_ip: "of_be32 (ip_bytes ip) = ip"
  using join_bytes [of ip] by (simp only: of_be32_def ip_bytes_def foldl.simps add_low_byte)

lemma length_be16 [simp]: "length (be16 v) = 2"
  by (simp add: be16_def)

lemma length_rr_enc: "rr_ok r \<Longrightarrow> length (rr_enc r) = 12 + length (rr_data r)"
  by (simp add: rr_ok_def rr_enc_def)

lemma be16_read:
  assumes "bytes_at m a 2 = be16 v"
  shows "ntoh16 (rd16 m a) = v"
proof -
  have "m a = ucast (drop_bit 8 v)" "m (a + 1) = ucast v" using assms by (simp_all add: bytes_at_def be16_def upt_rec)
  then have "wr16 a (hton16 v) m = m" by (simp add: wr16_wr_list fun_upd_idem)
  then have "rd16 m a = hton16 v" using rd16_wr16 [of a "hton16 v" m] by simp
  then show ?thesis by simp
qed

lemma bytes_at_drop: "bytes_at m a n = xs @ ys \<Longrightarrow> bytes_at m (a + of_nat (length xs)) (n - length xs) = ys"
  using bytes_at_split(2) [of m a "length xs" "n - length xs" xs ys] arg_cong [of _ _ length] 
  by (metis length_append length_bytes_at le_add1 le_add_diff_inverse)

lemma bytes_at_take: "bytes_at m a n = xs @ ys \<Longrightarrow> bytes_at m a (length xs) = xs"
  using bytes_at_split(1) [of m a "length xs" "n - length xs" xs ys]
  by (metis length_append length_bytes_at le_add1 le_add_diff_inverse)

text \<open>Where the reader finds the fields of a record.\<close>

lemma rr_read:
  assumes "bytes_at m a n = rr_enc r @ rest" and "rr_ok r"
  shows "m a = 0xc0" "ntoh16 (rd16 m (a + 2)) = rr_type r" "ntoh16 (rd16 m (a + 10)) = of_nat (length (rr_data r))"
    "bytes_at m (a + 12) (length (rr_data r)) = rr_data r" "bytes_at m (a + of_nat (length (rr_enc r))) (n - length (rr_enc r)) = rest"
proof -
  let ?d = "rr_data r"
  show "m a = 0xc0" using bytes_at_take [of m a n "[0xc0]"] assms(1) by (simp add: rr_enc_def bytes_at_def upt_rec)
  have "bytes_at m a n = [0xc0, rr_off r] @ be16 (rr_type r) @ (be16 (rr_class r) @ rr_ttl r @ be16 (of_nat (length ?d)) @ ?d @ rest)"
    using assms(1) by (simp add: rr_enc_def)
  from bytes_at_take [OF bytes_at_drop [OF this]] show "ntoh16 (rd16 m (a + 2)) = rr_type r" by (intro be16_read) simp
  have "bytes_at m a n = ([0xc0, rr_off r] @ be16 (rr_type r) @ be16 (rr_class r) @ rr_ttl r) @ be16 (of_nat (length ?d)) @ (?d @ rest)"
    using assms(1) by (simp add: rr_enc_def)
  from bytes_at_take [OF bytes_at_drop [OF this]] assms(2) show "ntoh16 (rd16 m (a + 10)) = of_nat (length ?d)"
    by (intro be16_read) (simp add: rr_ok_def)
  have "bytes_at m a n = ([0xc0, rr_off r] @ be16 (rr_type r) @ be16 (rr_class r) @ rr_ttl r @ be16 (of_nat (length ?d))) @ ?d @ rest"
    using assms(1) by (simp add: rr_enc_def)
  from bytes_at_take [OF bytes_at_drop [OF this]] assms(2) show "bytes_at m (a + 12) (length ?d) = ?d" by (simp add: rr_ok_def)
  show "bytes_at m (a + of_nat (length (rr_enc r))) (n - length (rr_enc r)) = rest" by (rule bytes_at_drop [OF assms(1)])
qed

text \<open>Records of other types are skipped, and the name of the first pointer record is read.\<close>

lemma ptr_loop_skips:
  assumes "bytes_at (mem8 s) a n = concat (map rr_enc rs) @ rest" and "\<forall>r \<in> set rs. rr_ok r \<and> rr_type r \<noteq> DNS_TYPE_PTR"
  shows "ptr_loop env (length rs + k) a buf buflen s = ptr_loop env k (a + of_nat (length (concat (map rr_enc rs)))) buf buflen s"
  using assms
proof (induction rs arbitrary: a n)
  case (Cons r rs)
  have ok: "rr_ok r" "rr_type r \<noteq> DNS_TYPE_PTR" using Cons.prems(2) by simp_all
  have "bytes_at (mem8 s) a n = rr_enc r @ (concat (map rr_enc rs) @ rest)" using Cons.prems(1) by simp
  note f = rr_read [OF this ok(1)]
  have "a + 12 + ucast (of_nat (length (rr_data r)) :: u16) = a + of_nat (length (rr_enc r))"
    using ok(1) length_rr_enc [OF ok(1)] by (simp add: rr_ok_def unsigned_of_nat take_bit_nat_eq_self)
  then have "ptr_loop env (length (r # rs) + k) a buf buflen s = ptr_loop env (length rs + k) (a + of_nat (length (rr_enc r))) buf buflen s"
    using f(1,2,3) ok(2) by (simp add: Let_def DNS_OFFSET_LEN_def DNS_TYPE_LEN_def DNS_CLASS_LEN_def DNS_TTL_LEN_def DNS_LENGTH_LEN_def add.assoc)
  also have "\<dots> = ptr_loop env k (a + of_nat (length (rr_enc r)) + of_nat (length (concat (map rr_enc rs)))) buf buflen s"
    using f(5) Cons.prems(2) by (intro Cons.IH) simp_all
  finally show ?case by (simp add: add.assoc)
qed simp

lemma dns_answer_first:
  assumes msg: "bytes_at m rx n = dns_header ident opt 1 an ns ar @ q @ rr_enc r @ rest" and ok: "rr_ok r" and q: "length q < 2147483648"
  shows "dns_answer rx (of_nat (length q)) m = (if length (rr_data r) = 4 then of_be32 (rr_data r) else 0)"
proof -
  let ?h = "dns_header ident opt 1 an ns ar"
  have "bytes_at m rx n = (be16 ident @ be16 opt) @ be16 1 @ (be16 an @ be16 ns @ be16 ar @ q @ rr_enc r @ rest)"
    using msg by (simp add: dns_header_def)
  from bytes_at_take [OF bytes_at_drop [OF this]] have qd: "ntoh16 (rd16 m (rx + 4)) = 1" by (intro be16_read) simp
  let ?a = "rx + 12 + of_nat (length q)"
  have "bytes_at m rx n = (?h @ q) @ rr_enc r @ rest" using msg by simp
  from bytes_at_drop [OF this] have "bytes_at m ?a (n - length (?h @ q)) = rr_enc r @ rest" by (simp add: dns_header_def add.assoc)
  note f = rr_read [OF this ok]
  have four: "(of_nat (length (rr_data r)) :: u16) = 4 \<longleftrightarrow> length (rr_data r) = 4"
    using ok of_nat_inverse [of "length (rr_data r)" "4 :: u16"] by (auto simp: rr_ok_def unat_of_nat16)
  have d: "rr_data r = [m (?a + 12), m (?a + 13), m (?a + 14), m (?a + 15)]" if "length (rr_data r) = 4"
    using f(4) that by (simp add: bytes_at_def upt_rec add.assoc)
  note eval = dns_answer_def Let_def sizeof_dns_hdr_def DNS_OFFSET_LEN_def DNS_TYPE_LEN_def DNS_CLASS_LEN_def DNS_TTL_LEN_def DNS_LENGTH_LEN_def
    add.assoc
  show ?thesis
  proof (cases "length (rr_data r) = 4")
    case True
    have v: "of_be32 (rr_data r) = push_bit 8 (push_bit 8 (push_bit 8 (ucast (m (?a + 12))) + ucast (m (?a + 13))) + ucast (m (?a + 14))) + ucast (m (?a + 15))"
      unfolding d [OF True] by (simp add: of_be32_def)
    show ?thesis using f(1,3) qd four True scast_of_nat [OF q] by (simp add: eval v)
  qed (use f(1,3) qd four scast_of_nat [OF q] in \<open>simp add: eval\<close>)
qed

lemma ptr_loop_reads:
  assumes msg: "bytes_at (mem8 s) a n = rr_enc r @ rest" and ok: "rr_ok r" "rr_type r = DNS_TYPE_PTR" "rr_data r = name_enc ls @ [0]"
    and ls: "ls \<noteq> []" "\<forall>l \<in> set ls. label_ok l" and len: "int (length (dotted ls)) < wlen" "length (dotted ls) < 2147483640"
    and ap: "region w (Suc (length (dotted ls))) \<inter> region a n = {}"
  shows "ptr_loop env (Suc k) a w wlen s = Inr (0, store (wr_list w (dotted ls @ [DOT])) s)"
proof -
  note f = rr_read [OF msg ok(1)]
  let ?n = "length (name_enc ls)"
  have n: "?n = Suc (length (dotted ls))" using length_dotted [OF ls(1)] by simp
  have ok': "\<forall>l \<in> set ls. l \<noteq> [] \<and> length l < 192" using ls(2) by (auto simp: label_ok_def)
  have "12 + Suc ?n \<le> n" using arg_cong [OF msg, of length] length_rr_enc [OF ok(1)] ok(3) by simp
  from region_sub [OF this, of a] ap have "region w ?n \<inter> region (a + 12) (Suc ?n) = {}" by (auto simp: n)
  then have "parse_domain_name env (a + 12) w wlen s = Some (Inr (0, s\<lparr>mem8 := wr_list w (concat (map (\<lambda>l. l @ [DOT]) ls)) (mem8 s)\<rparr>))"
    using f(4) len ok(3) by (intro parse_domain_name_ok [OF ok']) (simp_all add: n)
  then show ?thesis
    using f(1,2,3) ok(2) concat_dotted [OF ls(1)]
    by (simp add: Let_def DNS_OFFSET_LEN_def DNS_TYPE_LEN_def DNS_CLASS_LEN_def DNS_TTL_LEN_def DNS_LENGTH_LEN_def add.assoc ended_def store_def)
qed

text \<open>The guards of \<open>resolve_host\<close> let a message through whose header counts its records, and it visits these.\<close>

lemma host_answer_counted:
  assumes msg: "bytes_at (mem8 s) rx n = dns_header ident opt 1 (of_nat (length rs)) ns ar @ q @ concat (map rr_enc rs) @ rest"
    and cnt: "length rs < 65536" and ok: "\<forall>r \<in> set rs. rr_ok r" and q: "length q < 2147483648"
  shows "host_answer env rx (of_nat (length q)) w wlen s = ptr_loop env (length rs) (rx + 12 + of_nat (length q)) w wlen s"
proof -
  let ?h = "dns_header ident opt 1 (of_nat (length rs)) ns ar"
  have "bytes_at (mem8 s) rx n = (be16 ident @ be16 opt) @ be16 1 @ (be16 (of_nat (length rs)) @ be16 ns @ be16 ar @ q @ concat (map rr_enc rs) @ rest)"
    using msg by (simp add: dns_header_def)
  from bytes_at_take [OF bytes_at_drop [OF this]] have qd: "ntoh16 (rd16 (mem8 s) (rx + 4)) = 1" by (intro be16_read) simp
  have "bytes_at (mem8 s) rx n = (be16 ident @ be16 opt @ be16 1) @ be16 (of_nat (length rs)) @ (be16 ns @ be16 ar @ q @ concat (map rr_enc rs) @ rest)"
    using msg by (simp add: dns_header_def)
  from bytes_at_take [OF bytes_at_drop [OF this]] have an: "ntoh16 (rd16 (mem8 s) (rx + 6)) = of_nat (length rs)" by (intro be16_read) simp
  have u: "unat (of_nat (length rs) :: u16) = length rs" using cnt by (simp add: unat_of_nat16)
  have z: "(of_nat (length rs) :: u16) = 0 \<longleftrightarrow> rs = []" by (simp only: word_unat_eq_iff u) simp
  have a: "rx + ucast sizeof_dns_hdr + scast (of_nat (length q) :: u32) = rx + 12 + of_nat (length q)"
    using scast_of_nat [OF q] by (simp add: sizeof_dns_hdr_def)
  show ?thesis
  proof (cases rs)
    case Nil
    then show ?thesis using qd an by (simp add: host_answer_def Let_def)
  next
    case (Cons r rs')
    have "bytes_at (mem8 s) rx n = (?h @ q) @ rr_enc r @ (concat (map rr_enc rs') @ rest)" using msg Cons by simp
    from bytes_at_drop [OF this] have "bytes_at (mem8 s) (rx + 12 + of_nat (length q)) (n - length (?h @ q)) = rr_enc r @ (concat (map rr_enc rs') @ rest)"
      by (simp add: dns_header_def add.assoc)
    note f = rr_read(1) [OF this]
    then have "mem8 s (rx + 12 + of_nat (length q)) = 0xc0" using ok Cons by simp
    moreover have "(of_nat (length rs) :: u16) \<noteq> 0" using z Cons by simp
    ultimately show ?thesis unfolding host_answer_def Let_def a qd an u by simp
  qed
qed

text \<open>
  C37: the answers of a name server are read as they are meant. Whatever identifier and options a message has, with one
  question and the records its header counts, \<open>resolve_addr\<close> takes the address of the first record when that record has
  four bytes of data, and fails with zero otherwise. \<open>resolve_host\<close> looks at the counted records, skips those of other
  types, reads the name of the first pointer record into the caller's buffer, and fails with \<open>-1\<close> when there is no such record or
  no record at all. Both are stated of the part of the function that follows the receive call.
\<close>

theorem dns_answers_decoded:
  assumes msg: "bytes_at (mem8 s) rx n = dns_header ident opt 1 (of_nat (length rs)) ns ar @ q @ concat (map rr_enc rs) @ rest"
    and cnt: "length rs < 65536"
    and ok: "\<forall>r \<in> set rs. rr_ok r" and q: "length q < 2147483648" and len: "int (length (dotted ls)) < wlen" "length (dotted ls) < 2147483640"
    and ls: "ls \<noteq> []" "\<forall>l \<in> set ls. label_ok l" and ap: "region w (Suc (length (dotted ls))) \<inter> region rx n = {}"
  shows "(rs \<noteq> [] \<longrightarrow> dns_answer rx (of_nat (length q)) (mem8 s) = (if length (rr_data (hd rs)) = 4 then of_be32 (rr_data (hd rs)) else 0)) \<and>
    (\<forall>us r vs. rs = us @ r # vs \<longrightarrow> (\<forall>u \<in> set us. rr_type u \<noteq> DNS_TYPE_PTR) \<longrightarrow> rr_type r = DNS_TYPE_PTR \<longrightarrow> rr_data r = name_enc ls @ [0] \<longrightarrow>
       host_answer env rx (of_nat (length q)) w wlen s = Inr (0, store (wr_list w (dotted ls @ [DOT])) s)) \<and>
    ((\<forall>r \<in> set rs. rr_type r \<noteq> DNS_TYPE_PTR) \<longrightarrow> host_answer env rx (of_nat (length q)) w wlen s = Inr (- 1, s))"
proof -
  let ?h = "dns_header ident opt 1 (of_nat (length rs)) ns ar" and ?a = "rx + 12 + of_nat (length q)"
  have "bytes_at (mem8 s) rx n = (?h @ q) @ concat (map rr_enc rs) @ rest" using msg by simp
  from bytes_at_drop [OF this] have recs: "bytes_at (mem8 s) ?a (n - length (?h @ q)) = concat (map rr_enc rs) @ rest"
    by (simp add: dns_header_def add.assoc)
  note host = host_answer_counted [OF msg cnt ok q, of env w wlen]
  have "dns_answer rx (of_nat (length q)) (mem8 s) = (if length (rr_data (hd rs)) = 4 then of_be32 (rr_data (hd rs)) else 0)" if "rs \<noteq> []"
    using dns_answer_first [where r = "hd rs" and rest = "concat (map rr_enc (tl rs)) @ rest" and q = q] msg ok q that by (cases rs) auto
  moreover have "host_answer env rx (of_nat (length q)) w wlen s = Inr (- 1, s)" if "\<forall>r \<in> set rs. rr_type r \<noteq> DNS_TYPE_PTR"
    using ptr_loop_skips [OF recs, of env 0] ok that by (simp add: host)
  moreover have "host_answer env rx (of_nat (length q)) w wlen s = Inr (0, store (wr_list w (dotted ls @ [DOT])) s)"
    if rs: "rs = us @ r # vs" "\<forall>u \<in> set us. rr_type u \<noteq> DNS_TYPE_PTR" "rr_type r = DNS_TYPE_PTR" "rr_data r = name_enc ls @ [0]" for us r vs
  proof -
    let ?u = "length (concat (map rr_enc us))" and ?k = "n - length (?h @ q)"
    have split: "bytes_at (mem8 s) ?a ?k = concat (map rr_enc us) @ (rr_enc r @ concat (map rr_enc vs) @ rest)" using recs rs(1) by simp
    note rec = bytes_at_drop [OF split]
    have "12 + length q + ?u + (?k - ?u) \<le> n"
      using arg_cong [OF msg, of length] arg_cong [OF split, of length] by (simp add: dns_header_def)
    from region_sub [OF this, of rx] ap have "region w (Suc (length (dotted ls))) \<inter> region (?a + of_nat ?u) (?k - ?u) = {}"
      by (auto simp: add.assoc)
    from ptr_loop_reads [OF rec _ rs(3,4) ls len this, of env "length vs"] ok rs(1)
    have "ptr_loop env (length rs) ?a w wlen s = Inr (0, store (wr_list w (dotted ls @ [DOT])) s)"
      using ptr_loop_skips [OF split, of env "Suc (length vs)"] rs(1,2) ok by simp
    then show ?thesis by (simp add: host)
  qed
  ultimately show ?thesis by blast
qed

end
