(* ===== verification/Hosts.thy ===== *)
theory Hosts
  imports Netrx
begin

text \<open>
  Two hosts on one network: a packet from the call that sends it to the descriptor the card transmits, and from there
  through the other host to the program that reads it.
\<close>

section \<open>Headers at another address\<close>

lemma copied_checksum:
  assumes "bytes_at m' f k = bytes_at m e k" and "i + unat n \<le> k"
  shows "checksum (f + of_nat i) n m' = checksum (e + of_nat i) n m"
proof -
  have "rd16 m' (f + of_nat i + of_nat (2 * j)) = rd16 m (e + of_nat i + of_nat (2 * j))" if "j < unat n div 2" for j
    using copied_rd16 [OF assms(1), of "i + 2 * j"] assms(2) that by (simp add: add.assoc)
  moreover have "m' (f + of_nat i + of_nat (unat n - 1)) = m (e + of_nat i + of_nat (unat n - 1))" if "unat n mod 2 = 1"
    using copied_byte [OF assms(1), of "i + (unat n - 1)"] assms(2) that by (cases "unat n") (simp_all add: add.assoc)
  ultimately have "cks_words m' (f + of_nat i) (unat n) = cks_words m (e + of_nat i) (unat n)" by (simp add: cks_words_def)
  then have "unat (checksum (f + of_nat i) n m') = unat (checksum (e + of_nat i) n m)" by (simp add: checksum_ocsum)
  then show ?thesis by (simp add: word_unat_eq_iff)
qed

lemma copied_ip_hdr:
  assumes "bytes_at m' f k = bytes_at m e k" and "i + 20 \<le> k"
  shows "ip_hdr_ok m' (f + of_nat i) len ttl proto sip dip = ip_hdr_ok m (e + of_nat i) len ttl proto sip dip"
proof -
  have c: "checksum (f + of_nat i) 20 m' = checksum (e + of_nat i) 20 m"
    by (rule copied_checksum [OF assms(1)]) (use assms(2) in simp)
  show ?thesis
  using copied_byte [OF assms(1), of i] copied_byte [OF assms(1), of "i + 8"] copied_byte [OF assms(1), of "i + 9"]
    copied_rd16 [OF assms(1), of "i + 2"] copied_rd32 [OF assms(1), of "i + 12"] copied_rd32 [OF assms(1), of "i + 16"]
    c assms(2)
  by (simp add: ip_hdr_ok_def ac_simps)
qed

lemma copied_udp:
  assumes "bytes_at m' f k = bytes_at m e k" and "i + 8 + length data \<le> k"
  shows "udp_ok m' (f + of_nat i) sport dport data = udp_ok m (e + of_nat i) sport dport data"
  using copied_rd16 [OF assms(1), of i] copied_rd16 [OF assms(1), of "i + 2"] copied_rd16 [OF assms(1), of "i + 4"]
    copied_part [OF assms(1), of "i + 8" "length data"] assms(2)
  by (simp add: udp_ok_def ac_simps)

section \<open>From IP to the transmit ring\<close>

text \<open>A frame in memory: an Ethernet header to \<open>mac\<close>, then an IP header.\<close>

definition ip_frame :: "bytes \<Rightarrow> addr \<Rightarrow> u8 list \<Rightarrow> u8 list \<Rightarrow> u16 \<Rightarrow> u8 \<Rightarrow> u8 \<Rightarrow> u32 \<Rightarrow> u32 \<Rightarrow> bool" where
  "ip_frame m f dmac smac len ttl proto sip dip =
     (bytes_at m f 6 = dmac \<and> bytes_at m (f + 6) 6 = smac \<and> ntoh16 (rd16 m (f + 12)) = ETHER_TYPE_IPV4 \<and>
      ip_hdr_ok m (f + 14) len ttl proto sip dip)"

lemma copied_ip_frame:
  assumes "bytes_at m' f k = bytes_at m e k" and "34 \<le> k"
  shows "ip_frame m' f dmac smac len ttl proto sip dip = ip_frame m e dmac smac len ttl proto sip dip"
  using copied_part [OF assms(1), of 0 6] copied_part [OF assms(1), of 6 6] copied_rd16 [OF assms(1), of 12]
    copied_ip_hdr [OF assms(1), of 14] assms(2)
  by (simp add: ip_frame_def)

lemma ip_tx_sent:
  fixes s :: "'a arp_state_scheme"
  assumes r: "tx_ready 2 s" and hw: "length (hw_addr (netdev s)) = 6"
    and mac: "find_mac_addr (nexthop (netdev s) dip) s = Some mac" "length mac = 6"
    and e: "pb_head (pktbufs s pkt) = e" "pb_buf (pktbufs s pkt) = e + 14" "pkt_len (pktbufs s pkt) = of_nat k" "34 \<le> k" "k < 65536"
    and free: "\<not> owned (tx_next s)" and apart: "region (desc_addr (tx_next s)) k \<inter> region e k = {}"
  shows "\<exists>s' m. ip_tx pkt dip proto ttl s = Inr s' \<and> net_same s s' \<and> passed_on k s s' \<and>
           bytes_at (mem8 s') (desc_addr (tx_next s)) k = bytes_at m e k \<and> bytes_at (mem8 s') e k = bytes_at m e k \<and>
           ip_frame m e mac (hw_addr (netdev s)) (of_nat (k - 14)) ttl proto (ip_addr (netdev s)) dip \<and>
           (\<forall>x. x \<notin> region e 34 \<longrightarrow> m x = mem8 s x)"
proof -
  let ?s3 = "ip_filled pkt dip proto ttl s"
  define s4 where "s4 = store (ether_hdr e mac (hw_addr (netdev s)) ETHER_TYPE_IPV4) (adv_buf pkt (- 14) ?s3)"
  have f: "netdev ?s3 = netdev s" "pktbufs ?s3 = pktbufs s" "nic ?s3 = nic s" by (simp_all add: ip_filled_def Let_def printstr_log_eq)
  have m4: "mem8 s4 = ether_hdr e mac (hw_addr (netdev s)) ETHER_TYPE_IPV4 (mem8 ?s3)" by (simp add: s4_def store_def adv_buf_def set_buf_def)
  have eq: "ip_tx pkt dip proto ttl s = netdev_tx pkt s4"
    using mac(1) by (simp add: ip_tx_eq Let_def ether_tx_def s4_def adv_buf_def set_buf_def f e(2))
  have n4: "nic s4 = nic s" "pb_head (pktbufs s4 pkt) = e" "pkt_len (pktbufs s4 pkt) = of_nat k" "netdev s4 = netdev s"
    by (simp_all add: s4_def store_def adv_buf_def set_buf_def f e(1,3))
  have h: "e + 14 - 14 = e" "e + 14 - 8 = e + 6" "e + 14 - 2 = e + 12" by simp_all
  have "(ucast (of_nat k - 14 :: u32) :: u16) = of_nat (k - 14)" using ucast_of_nat16 [of "k - 14"] e(4) by (simp add: of_nat_diff)
  with ip_frame_built [OF hw e(2) [symmetric] mac(2), where dip = dip and proto = proto and ttl = ttl] e(3)
  have fr: "ip_frame (mem8 s4) e mac (hw_addr (netdev s)) (of_nat (k - 14)) ttl proto (ip_addr (netdev s)) dip"
    "\<And>x. x \<notin> region e 34 \<Longrightarrow> mem8 s4 x = mem8 s x" unfolding ip_frame_def m4 h by simp_all
  have nk: "nic_ok s4" using tx_readyD(3) [OF r] by (simp add: nic_ok_def n4)
  have d: "tx_next s4 = tx_next s" by (simp add: n4 tx_next_def)
  from netdev_tx_sent [OF nk n4(2,3) e(5)] free apart obtain s' where
    s': "netdev_tx pkt s4 = Inr s'" "passed_on k s4 s'" "bytes_at (mem8 s') (desc_addr (tx_next s)) k = bytes_at (mem8 s4) e k"
      "bytes_at (mem8 s') e k = bytes_at (mem8 s4) e k" by (auto simp: d)
  from ip_tx_ok [OF r, of pkt dip proto ttl] s'(1) eq have ns: "net_same s s'" by auto
  have "passed_on k s s'" using s'(2) by (simp add: passed_on_def n4 d)
  then show ?thesis using eq s'(1,3,4) ns fr by (intro exI [of _ s'] exI [of _ "mem8 s4"]) simp
qed

section \<open>A datagram on the wire\<close>

text \<open>
  What a sender on this host needs: blocks for a packet, its own hardware address, that of the next hop, and a free descriptor
  with a buffer below the memory of the allocator.
\<close>

definition can_send :: "u32 \<Rightarrow> u8 list \<Rightarrow> 'a arp_state_scheme \<Rightarrow> bool" where
  "can_send dip mac s =
     (tx_ready 4 s \<and> length (hw_addr (netdev s)) = 6 \<and> find_mac_addr (nexthop (netdev s) dip) s = Some mac \<and> length mac = 6 \<and>
      \<not> owned (tx_next s) \<and> dma_ok (tx_next s))"

lemma udp_sent:
  fixes s :: "'a udp_state_scheme" and dip :: u32
  assumes ok: "can_send dip mac s" and i: "i < UDP_SOCKET_COUNT" "length (udp_sockets s) = UDP_SOCKET_COUNT"
    and buf: "in_block s buf n" and n: "42 + n \<le> 8192"
  defines "f \<equiv> desc_addr (tx_next s)"
  shows "\<exists>s'. udp_socket_send (int i) dip dport buf (of_nat n) s = Inr s' \<and> net_same s s' \<and> passed_on (42 + n) s s' \<and>
           ip_frame (mem8 s') f mac (hw_addr (netdev s)) (of_nat (28 + n)) 64 IP_HDR_PROTO_UDP (ip_addr (netdev s)) dip \<and>
           udp_ok (mem8 s') (f + 34) (us_port (udp_sockets s ! i)) dport (bytes_at (mem8 s) buf n)"
proof -
  have c: "tx_ready 4 s" "length (hw_addr (netdev s)) = 6" "find_mac_addr (nexthop (netdev s) dip) s = Some mac" "length mac = 6"
    "\<not> owned (tx_next s)" "dma_ok (tx_next s)" using ok by (simp_all add: can_send_def)
  have n1: "42 + n < 65536" using n by simp
  let ?data = "bytes_at (mem8 s) buf n" and ?sp = "us_port (udp_sockets s ! i)" and ?k = "42 + n"
  from udp_send_built [OF c(1) i buf n1, of dip dport] obtain p b s3 where
    s3: "udp_socket_send (int i) dip dport buf (of_nat n) s = bindr (ip_tx p dip IP_HDR_PROTO_UDP 64 s3) (free_pkt p)"
      "tx_ready 2 s3" "b \<in> live s3" "pktbufs s3 p = \<lparr>pkt_len = of_nat ?k, pb_buf = b + 14, pb_head = b\<rparr>"
      "netdev s3 = netdev s" "nic s3 = nic s" "arptable s3 = arptable s" "udp_ok (mem8 s3) (b + 34) ?sp dport ?data" by blast
  have d: "tx_next s3 = tx_next s" "find_mac_addr a s3 = find_mac_addr a s" for a
    by (simp_all add: tx_next_def s3(6) find_mac_addr_def s3(7))
  have ap: "region f ?k \<inter> region b ?k = {}"
    using dma_apart [of b "memhdrs s3" "tx_next s" ?k ?k] c(6) s3(3) n unfolding f_def by (auto simp: mem_view)
  from ip_tx_sent [OF s3(2), of dip mac p b ?k IP_HDR_PROTO_UDP 64] c(2-5) s3(4) n1 ap obtain s4 m where
    s4: "ip_tx p dip IP_HDR_PROTO_UDP 64 s3 = Inr s4" "passed_on ?k s3 s4" "bytes_at (mem8 s4) f ?k = bytes_at m b ?k"
      "ip_frame m b mac (hw_addr (netdev s)) (of_nat (28 + n)) 64 IP_HDR_PROTO_UDP (ip_addr (netdev s)) dip"
      "\<forall>x. x \<notin> region b 34 \<longrightarrow> m x = mem8 s3 x" by (auto simp: s3(5) d f_def [symmetric])
  from udp_send_ok [OF c(1) i n1, of dip dport buf] s3(1) s4(1) obtain s' where
    s': "udp_socket_send (int i) dip dport buf (of_nat n) s = Inr s'" "net_same s s'" "free_pkt p s4 = Inr s'" by auto
  then have rest: "mem8 s' = mem8 s4" "nic s' = nic s4" using free_pkt_rest [OF s'(3)] by (auto simp: mem_rest_def)
  have "m (b + of_nat (34 + j)) = mem8 s3 (b + of_nat (34 + j))" if "j < 8 + n" for j
    using s4(5) offset_outside [of 34 "34 + j" b] that n by simp
  then have "bytes_at m (b + of_nat 34) (8 + n) = bytes_at (mem8 s3) (b + of_nat 34) (8 + n)"
    by (intro bytes_at_cong) (simp add: add.assoc)
  from copied_udp [OF this, of 0 ?data] s3(8) have "udp_ok m (b + 34) ?sp dport ?data" by simp
  with copied_udp [OF s4(3), of 34 ?data] have "udp_ok (mem8 s') (f + 34) ?sp dport ?data" by (simp add: rest)
  moreover have "passed_on ?k s s'" using s4(2) by (simp add: passed_on_def rest tx_next_def s3(6))
  ultimately show ?thesis using s' s4(4) copied_ip_frame [OF s4(3)] by (auto simp: rest)
qed

section \<open>From the receive ring to the reader\<close>

lemma take_bytes_at: "take k (bytes_at m a n) = bytes_at m a (min k n)"
  by (rule nth_equalityI) auto

text \<open>
  The receive interrupt and one round of the main loop: the payload of the frame is the last entry of the socket's queue, in a
  block that was not in use before, and every task that sleeps on the socket can run again.
\<close>

lemma datagram_queued:
  assumes inv: "sock_inv sockqs squeue s ts [] Q" and k: "tables_ok s" and nic: "nic_ok s" and av: "5 \<le> avail s"
    and chip: "chip 0 AND RxBufEmpty = 0" "chip 1 AND RxBufEmpty \<noteq> 0"
    and d: "d = rx_ring (nic s) ! unat (cur_rx (nic s))" "has_frame d" "frame_len d = of_nat (42 + n)" "42 + n < 65536"
    and fr: "udp_frame (desc_addr d) port s" and raw: "no_raw_reader IP_HDR_PROTO_UDP s"
    and i: "udp_bound s port i" and one: "\<forall>j. udp_bound s port j \<longrightarrow> j = i"
  shows "\<exists>s1 s2 rx. receive_packet chip s = Inr s1 \<and> wq_execute kcall s1 = Inr s2 \<and>
           sock_inv sockqs squeue s2 ts [] (Q(UdpRx i := Q (UdpRx i) @ [rx])) \<and> rx_ok s2 rx \<and>
           pending s2 rx = bytes_at (mem8 s) (desc_addr d + 42) n \<and> (\<forall>y. rx_ok s1 y \<longrightarrow> pending s2 y = pending s1 y) \<and>
           tables_ok s2 \<and> avail s2 = avail s - 4 \<and> rflags s2 = rflags s \<and> readers_woken (UdpSock i) s s2 \<and>
           (\<forall>b k. in_block s b k \<longrightarrow> region b k \<inter> region (rxd_data (rxdatas s2 rx)) 1048528 = {}) \<and> live s \<subseteq> live s2"
proof -
  have sl: "slot s 0 = unat (cur_rx (nic s))" using nic by (intro slot_0) (simp add: nic_ok_def RX_RING_SIZE_def)
  from receive_packet_inv [OF inv nic, of 1 chip] av chip d(1,2) obtain w s1 where
    s1: "receive_packet chip s = Inr s1" "sock_inv sockqs squeue s1 ts [w] Q" "delivered s d s1 w" "rx_keeps s s1" "avail s1 = avail s - 3" "w \<notin> live s"
    by (auto simp: sl length_Suc_conv)
  have len: "unat (frame_len d) = 42 + n" using d(4) unfolding d(3) by (simp add: unat_of_nat32 del: of_nat_add)
  from s1(3) obtain p b where
    pb: "works s1 w = \<lparr>wt_func = EtherRx, wt_arg = Some p\<rparr>" "pktbufs s1 p = \<lparr>pkt_len = frame_len d, pb_buf = b, pb_head = b\<rparr>"
      "b \<in> live s1" "bytes_at (mem8 s1) b (42 + n) = bytes_at (mem8 s) (desc_addr d) (42 + n)"
    by (auto simp: delivered_def len)
  have same: "netdev s1 = netdev s" "rflags s1 = rflags s" "raw_sockets s1 = raw_sockets s" "udp_sockets s1 = udp_sockets s" "tcp_sockets s1 = tcp_sockets s"
    "live s \<subseteq> live s1" using s1(4) by (cases s; cases s1; simp add: rx_keeps_def rx_same_def)+
  have f1: "udp_frame b port s1" using udp_frame_copied [OF pb(4) _ same(1)] fr by simp
  have f2: "no_raw_reader IP_HDR_PROTO_UDP s1" "tables_ok s1" "udp_bound s1 = udp_bound s" "2 \<le> avail s1"
    using raw k s1(5) av by (simp_all add: no_raw_reader_def tables_ok_def udp_bound_def fun_eq_iff same)
  have f3: "in_block s1 b (42 + n)" using pb(3) d(4) region_mono [of "42 + n" 1048528 b] by (auto simp: in_block_def)
  have f4: "b = pb_buf (pktbufs s1 p)" "pkt_len (pktbufs s1 p) = of_nat (42 + n)" by (simp_all add: pb(2) d(3))
  have f5: "udp_bound s1 port i" "\<forall>j. udp_bound s1 port j \<longrightarrow> j = i" unfolding f2(3) by (rule i, rule one)
  from udp_frame_queued [OF s1(2) f2(2,4) pb(1) f4(1) f1 f2(1) f3 f4(2) d(4) f5] obtain rx s2 where
    s2: "wq_execute kcall s1 = Inr s2" "sock_inv sockqs squeue s2 ts [] (Q(UdpRx i := Q (UdpRx i) @ [rx]))" "rx_ok s2 rx"
      "pending s2 rx = bytes_at (mem8 s1) (b + 42) n" "\<forall>y. rx_ok s1 y \<longrightarrow> pending s2 y = pending s1 y" "tables_ok s2"
      "avail s2 = avail s1 - 1" "rflags s2 = rflags s1" "readers_woken (UdpSock i) s1 s2"
    and ap: "\<forall>b k. in_block s1 b k \<longrightarrow> region b k \<inter> region (rxd_data (rxdatas s2 rx)) 1048528 = {}" and l2: "live s1 - {w} \<subseteq> live s2" by blast
  have "bytes_at (mem8 s1) (b + 42) n = bytes_at (mem8 s) (desc_addr d + 42) n" using copied_tail [OF pb(4)] by simp
  moreover have "readers_woken (UdpSock i) s s2" by (rule woken_earlier [OF receive_packet_slept [OF s1(1)] s2(9)])
  moreover have "region c k \<inter> region (rxd_data (rxdatas s2 rx)) 1048528 = {}" if "in_block s c k" for c k
    using ap in_block_mono [OF that same(6)] by blast
  moreover have "live s \<subseteq> live s2" using same(6) s1(6) l2 by blast
  ultimately show ?thesis using s1(1,5) s2 same(2) by (intro exI [of _ s1] exI [of _ s2] exI [of _ rx]) simp
qed

text \<open>Reading the only entry of a queue into a buffer that does not overlap it.\<close>

lemma only_entry_read:
  assumes inv: "sock_inv sockqs squeue s ts ws (Q(UdpRx i := [rx]))" and k: "tables_ok s" "i < UDP_SOCKET_COUNT" and r: "rx_ok s rx"
    and sz: "0 \<le> sz" and ap: "region buf (nat sz) \<inter> region (rxd_data (rxdatas s rx)) 1048528 = {}"
  defines "m \<equiv> min (nat sz) (length (pending s rx))"
  shows "\<exists>s'. udp_socket_recv env (int i) buf sz s = Inr (int m, s') \<and> bytes_at (mem8 s') buf m = take m (pending s rx) \<and>
           sock_inv sockqs squeue s' ts ws (Q(UdpRx i := [])) \<and> live s' = live s \<and>
           (\<forall>x. x \<notin> region buf m \<longrightarrow> mem8 s' x = mem8 s x)"
proof -
  have "m \<le> nat sz" "m \<le> 1048528" using r by (simp_all add: m_def pending_def rx_ok_def min.coboundedI2)
  from region_mono [OF this(1), of buf] region_mono [OF this(2), of "rxd_data (rxdatas s rx)"] ap
  have "region buf m \<inter> region (rxd_data (rxdatas s rx)) m = {}" by blast
  from udp_recv_takes [OF inv k(1,2) _ r sz this [unfolded m_def], of "[]" env] show ?thesis
    by (simp add: data_taken_def m_def) blast
qed

lemma datagram_read:
  assumes inv: "sock_inv sockqs squeue s ts [] Q" and k: "tables_ok s" and nic: "nic_ok s" and av: "5 \<le> avail s"
    and chip: "chip 0 AND RxBufEmpty = 0" "chip 1 AND RxBufEmpty \<noteq> 0"
    and d: "d = rx_ring (nic s) ! unat (cur_rx (nic s))" "has_frame d" "frame_len d = of_nat (42 + n)" "42 + n < 65536"
    and fr: "udp_frame (desc_addr d) port s" and raw: "no_raw_reader IP_HDR_PROTO_UDP s"
    and i: "udp_bound s port i" and one: "\<forall>j. udp_bound s port j \<longrightarrow> j = i"
    and sz: "0 \<le> sz" and buf: "in_block s buf (nat sz)"
  defines "m \<equiv> min (nat sz) n"
  shows "\<exists>s1 s2. receive_packet chip s = Inr s1 \<and> wq_execute kcall s1 = Inr s2 \<and>
           udp_delivered i (bytes_at (mem8 s) (desc_addr d + 42) n) s1 ts [] Q s2 \<and> avail s2 = avail s - 4 \<and> rflags s2 = rflags s \<and>
           (Q (UdpRx i) = [] \<longrightarrow>
              (\<exists>s3. udp_socket_recv env (int i) buf sz s2 = Inr (int m, s3) \<and>
                 bytes_at (mem8 s3) buf m = bytes_at (mem8 s) (desc_addr d + 42) m \<and> sock_inv sockqs squeue s3 ts [] Q))"
proof -
  from datagram_queued [OF inv k nic av chip d fr raw i one] obtain s1 s2 rx where
    s2: "receive_packet chip s = Inr s1" "wq_execute kcall s1 = Inr s2"
      "sock_inv sockqs squeue s2 ts [] (Q(UdpRx i := Q (UdpRx i) @ [rx]))" "rx_ok s2 rx"
      "pending s2 rx = bytes_at (mem8 s) (desc_addr d + 42) n" "\<forall>y. rx_ok s1 y \<longrightarrow> pending s2 y = pending s1 y"
      "tables_ok s2" "avail s2 = avail s - 4" "rflags s2 = rflags s"
    and ap: "region buf (nat sz) \<inter> region (rxd_data (rxdatas s2 rx)) 1048528 = {}" using buf by blast
  have "\<exists>s3. udp_socket_recv env (int i) buf sz s2 = Inr (int m, s3) \<and>
      bytes_at (mem8 s3) buf m = bytes_at (mem8 s) (desc_addr d + 42) m \<and> sock_inv sockqs squeue s3 ts [] Q" if Q: "Q (UdpRx i) = []"
    using only_entry_read [OF _ s2(7) _ s2(4) sz ap, of ts "[]" Q i env] s2(3) i
    by (auto simp: Q s2(5) take_bytes_at m_def udp_bound_def fun_upd_idem)
  with s2 show ?thesis by (intro exI [of _ s1] exI [of _ s2]) (auto simp: udp_delivered_def)
qed


text \<open>
  A host with one frame of \<open>k\<close> bytes in its receive ring and a program about to read socket \<open>j\<close>, the only one bound to
  \<open>port\<close>, into a buffer of \<open>sz\<close> bytes.
\<close>

definition receiver ::
  "(nat \<Rightarrow> u8) \<Rightarrow> ring_desc \<Rightarrow> nat \<Rightarrow> u16 \<Rightarrow> nat \<Rightarrow> addr \<Rightarrow> int \<Rightarrow> addr list \<Rightarrow> (sockq \<Rightarrow> addr list) \<Rightarrow> 'a tcp_state_scheme \<Rightarrow> bool" where
  "receiver chip d k port j buf sz ts Q s =
     (sock_inv sockqs squeue s ts [] Q \<and> tables_ok s \<and> nic_ok s \<and> 5 \<le> avail s \<and>
      chip 0 AND RxBufEmpty = 0 \<and> chip 1 AND RxBufEmpty \<noteq> 0 \<and>
      d = rx_ring (nic s) ! unat (cur_rx (nic s)) \<and> has_frame d \<and> frame_len d = of_nat k \<and>
      no_raw_reader IP_HDR_PROTO_UDP s \<and> udp_bound s port j \<and> (\<forall>i. udp_bound s port i \<longrightarrow> i = j) \<and> Q (UdpRx j) = [] \<and>
      0 \<le> sz \<and> in_block s buf (nat sz))"

lemma udp_frameI:
  assumes "ip_frame (mem8 s) f dmac smac len ttl IP_HDR_PROTO_UDP sip (ip_addr (netdev s))" and "udp_ok (mem8 s) (f + 34) sport port data"
  shows "udp_frame f port s" and "bytes_at (mem8 s) (f + 42) (length data) = data"
proof -
  have o: "f + 34 + 2 = f + 36" "f + 34 + 8 = f + 42" "f + 14 + 16 = f + 30" "f + 14 + 9 = f + 23" by simp_all
  show "udp_frame f port s" using assms unfolding udp_frame_def ip_frame_def ip_hdr_ok_def udp_ok_def o by simp
  show "bytes_at (mem8 s) (f + 42) (length data) = data" using assms(2) unfolding udp_ok_def o by simp
qed

lemma frame_received:
  assumes rx: "receiver chip d (42 + n) port j buf sz ts Q s" and n: "42 + n < 65536"
    and ip: "ip_frame (mem8 s) (desc_addr d) mac smac len ttl IP_HDR_PROTO_UDP sip (ip_addr (netdev s))"
    and udp: "udp_ok (mem8 s) (desc_addr d + 34) sport port data" "length data = n"
  shows "\<exists>s1 s2 s3. receive_packet chip s = Inr s1 \<and> wq_execute kcall s1 = Inr s2 \<and>
           udp_socket_recv env (int j) buf sz s2 = Inr (int (min (nat sz) n), s3) \<and>
           bytes_at (mem8 s3) buf (min (nat sz) n) = take (nat sz) data"
proof -
  have inv: "sock_inv sockqs squeue s ts [] Q" "tables_ok s" "nic_ok s" "5 \<le> avail s"
    and chip: "chip 0 AND RxBufEmpty = 0" "chip 1 AND RxBufEmpty \<noteq> 0"
    and d: "d = rx_ring (nic s) ! unat (cur_rx (nic s))" "has_frame d" "frame_len d = of_nat (42 + n)"
    and raw: "no_raw_reader IP_HDR_PROTO_UDP s" and b: "udp_bound s port j" "\<forall>i. udp_bound s port i \<longrightarrow> i = j"
    and q: "Q (UdpRx j) = []" and sz: "0 \<le> sz" "in_block s buf (nat sz)" using rx unfolding receiver_def by blast+
  have fr: "udp_frame (desc_addr d) port s" by (rule udp_frameI(1) [OF ip udp(1)])
  have data: "bytes_at (mem8 s) (desc_addr d + 42) n = data" using udp_frameI(2) [OF ip udp(1)] udp(2) by simp
  have "bytes_at (mem8 s) (desc_addr d + 42) (min (nat sz) n) = take (nat sz) data"
    unfolding data [symmetric] take_bytes_at ..
  with datagram_read [OF inv(1,2,3,4) chip d n fr raw b sz, of env] q show ?thesis by fastforce
qed

end
