(* ===== verification/Blocking.thy ===== *)
theory Blocking
  imports Hosts
begin

text \<open>
  Receive calls that find nothing and sleep: what the task leaves behind when it goes to sleep (a timer for the time-out, its
  wait cause, another task on the processor) and what the call does with what it finds when it continues.
\<close>

section \<open>Going to sleep\<close>

lemma sleep_switches:
  assumes good: "sched_good idle s" and cur: "c = current_task (taskctl s)" "c \<noteq> idle"
  shows "\<exists>s1 n s2. sleep_mark cause s = Inr s1 \<and> schedule s1 = Inr (Some (c, n), s2) \<and> sched_good idle s2 \<and>
           tflag s2 c = TASK_WAITING \<and> tcause s2 c = cause \<and> c < next_task_id (taskctl s2) \<and> task_rest s s2"
proof -
  from good obtain q where q: "sched_inv s q" "idle < next_task_id (taskctl s)" "tflag s idle = TASK_RUNNING"
    "tprio s idle = TASK_PRIORITY_LOW" by (auto simp: sched_good_def)
  from sleep_mark_ok [OF q(1), of cause] obtain s1 where
    s1: "sleep_mark cause s = Inr s1" "sched_inv s1 q" "same_tasks s s1" "tflag s1 = (tflag s)(c := TASK_WAITING)" "tcause s1 = (tcause s)(c := cause)"
    by (auto simp: cur)
  from schedule_ok [OF s1(2)] obtain r s2 q' where
    s2: "schedule s1 = Inr (r, s2)" "tasks (taskctl s2) = tasks (taskctl s1)" "next_task_id (taskctl s2) = next_task_id (taskctl s1)"
      "case r of None \<Rightarrow> s2 = s1 | Some (d, n) \<Rightarrow> d = current_task (taskctl s1) \<and> n = current_task (taskctl s2)" by auto
  have c1: "current_task (taskctl s1) = c" using s1(3) cur by (simp add: same_tasks_def)
  have good2: "sched_good idle s2"
    by (rule schedule_keeps_good [OF s1(2) _ _ _ _ s2(1)]) (use q s1(3,4) cur c1 in \<open>auto simp: same_tasks_def\<close>)
  have f: "tflag s2 c = TASK_WAITING" "tcause s2 c = cause" "c < next_task_id (taskctl s2)"
    using s1(2,4,5) c1 by (simp_all add: tflag_def tcause_def s2(2,3) fun_eq_iff sched_inv_def)
  have "current_task (taskctl s2) \<noteq> c" using good2 f(1) by (auto simp: sched_good_def TASK_RUNNING_def TASK_WAITING_def)
  then obtain n where r: "r = Some (c, n)" using s2(4) c1 by (cases r) auto
  have "task_rest s s1" using s1(1) by (auto simp: sleep_mark_def Let_def) (rule task_restI [where nx = "task_links s"], simp)
  from task_rest_trans [OF this schedule_rest [OF s2(1)]] s1(1) s2(1) good2 f show ?thesis unfolding r by blast
qed

text \<open>A task that sleeps on a socket leaves all queues in order and another task running.\<close>

definition asleep :: "nat \<Rightarrow> nat \<Rightarrow> waitobj \<Rightarrow> 'a task_state_scheme \<Rightarrow> 'a task_state_scheme \<Rightarrow> bool" where
  "asleep idle c cause s s1 =
     (sched_good idle s1 \<and> tflag s1 c = TASK_WAITING \<and> tcause s1 c = cause \<and> c < next_task_id (taskctl s1) \<and> (\<exists>rf tc nx. s1 = s\<lparr>rflags := rf, taskctl := tc, task_links := nx\<rparr>))"

lemma sock_sleep:
  assumes inv: "sock_inv sockqs squeue s ts ws Q" and good: "sched_good idle s" and cur: "c = current_task (taskctl s)" "c \<noteq> idle"
  shows "\<exists>s1. asleep idle c cause s s1 \<and> sock_inv sockqs squeue s1 ts ws Q \<and>
           (\<forall>env. task_sleep env cause s = bindr (env s1) (\<lambda>s2. Inr (set_rflags (rflags s) s2)))"
proof -
  have "sched_good idle (io_cli s)" using good by (simp add: sched_good_def sched_view tflag_def tprio_def rflags_defs)
  from sleep_switches [OF this, of c cause] cur obtain s0 n s1 where
    s1: "sleep_mark cause (io_cli s) = Inr s0" "schedule s0 = Inr (Some (c, n), s1)" "sched_good idle s1" "tflag s1 c = TASK_WAITING" "tcause s1 c = cause"
      "task_rest (io_cli s) s1" "c < next_task_id (taskctl s1)" by (auto simp: rflags_defs)
  from s1(6) obtain rf tc nx where e: "s1 = s\<lparr>rflags := rf, taskctl := tc, task_links := nx\<rparr>" by (auto simp: task_rest_def rflags_defs)
  have w: "wq_inv s ts ws" using inv by (simp add: sock_inv_def)
  have "sched_fine s1" using s1(3) by (auto simp: sched_good_def sched_fine_def sched_view cur_running_def tflag_def)
  then have "wq_inv s1 ts ws" using w by (simp add: wq_view wq_ok_def e sched_fine_def)
  then have "sock_inv sockqs squeue s1 ts ws Q"
    by (rule socks.inv_frame [OF inv]) (simp add: e, simp add: e, simp add: e mem_view, rule socks.get_more, simp add: e)
  moreover have "task_sleep env cause s = bindr (env s1) (\<lambda>s2. Inr (set_rflags (rflags s) s2))" for env
    using s1(1,2) by (simp add: task_sleep_def task_switch_def Let_def) (simp add: rflags_defs)
  ultimately show ?thesis using s1(3-5,7) e by (intro exI [of _ s1]) (auto simp: asleep_def)
qed

section \<open>Waiting for a datagram\<close>

text \<open>The task has armed the time-out of socket \<open>i\<close> and sleeps on it; the wait number is the tick of the call.\<close>

definition udp_waiting :: "nat \<Rightarrow> nat \<Rightarrow> nat \<Rightarrow> 'a tcp_state_scheme \<Rightarrow> 'a tcp_state_scheme \<Rightarrow> bool" where
  "udp_waiting idle c i s s1 =
     (\<exists>s0. armed (udp_upd i (us_wait_id_update (\<lambda>_. get_tick s)) s) s0 \<and> asleep idle c (UdpSock i) s0 s1)"

lemma udp_recv_sleeps:
  assumes inv: "sock_inv sockqs squeue s ts ws Q" and k: "tables_ok s" and i: "i < UDP_SOCKET_COUNT" and Q: "Q (UdpRx i) = []"
    and av: "3 \<le> avail s" and t: "tick s + 5000 \<noteq> END_TICK"
    and good: "sched_good idle s" and cur: "c = current_task (taskctl s)" "c \<noteq> idle"
  shows "\<exists>s1 ts'. sock_inv sockqs squeue s1 ts' ws Q \<and> udp_waiting idle c i s s1 \<and>
           timeout_set UdpSocketRecvTimeout (of_int (int i)) (ucast (get_tick s)) 5000 s ts s1 ts' \<and>
           us_wait_id (udp_sockets s1 ! i) = get_tick s \<and>
           (\<forall>env s2. env s1 = Inr s2 \<longrightarrow> length (udp_sockets s2) = UDP_SOCKET_COUNT \<longrightarrow>
              udp_socket_recv env (int i) buf sz s =
                (let s3 = set_rflags (rflags s) s2 in
                 if list_empty (us_rx_data_list (udp_sockets s3 ! i)) then Inr (- 1, s3) else udp_socket_recv env (int i) buf sz s3))"
proof -
  let ?s = "udp_upd i (us_wait_id_update (\<lambda>_. get_tick s)) s"
  have il: "i < length (udp_sockets s)" using k i by (simp add: tables_ok_def)
  have w: "wq_inv ?s ts ws" using inv by (simp add: sock_inv_def wq_view udp_upd_def)
  have sq: "squeue q ?s = squeue q s" for q using il by (cases q) (auto simp: udp_upd_def nth_list_update)
  have inv0: "sock_inv sockqs squeue ?s ts ws Q" by (rule socks.inv_frame [OF inv w]) (simp_all add: udp_upd_def mem_view sq [unfolded udp_upd_def])
  have "3 \<le> avail ?s" "tick ?s + 5000 \<noteq> END_TICK" using av t by (simp_all add: udp_upd_def mem_view)
  from timeout_armed [OF inv0 this, of "''udp_timeout_arg''" "of_int (int i)" "ucast (get_tick s)" UdpSocketRecvTimeout] obtain args s2 s0 ts' where
    s0: "new_args ''udp_timeout_arg'' (of_int (int i)) (ucast (get_tick s)) ?s = Inr (args, s2)"
      "wq_push_with_delay UdpSocketRecvTimeout (Some args) 5000 s2 = Inr s0" "sock_inv sockqs squeue s0 ts' ws Q" "armed ?s s0"
      "timeout_set UdpSocketRecvTimeout (of_int (int i)) (ucast (get_tick s)) 5000 ?s ts s0 ts'" by blast
  have tc: "taskctl s0 = taskctl s" "task_links s0 = task_links s" "rflags s0 = rflags s" using s0(4) by (auto simp: armed_def udp_upd_def)
  have "sched_good idle s0" using good by (simp add: sched_good_def sched_view tflag_def tprio_def tc)
  from sock_sleep [OF s0(3) this, of c "UdpSock i"] cur obtain s1 where
    s1: "asleep idle c (UdpSock i) s0 s1" "sock_inv sockqs squeue s1 ts' ws Q"
      "\<forall>env. task_sleep env (UdpSock i) s0 = bindr (env s1) (\<lambda>s2. Inr (set_rflags (rflags s) s2))" by (auto simp: tc)
  have empty: "list_empty (us_rx_data_list (udp_sockets s ! i))"
    using inv i Q queues_okD(1) [of sockqs "\<lambda>q. squeue q s" "links s" "live s - wq_blocks s ts ws" Q "UdpRx i"] by (simp add: sock_inv_def list_empty_iff)
  have "udp_socket_recv env (int i) buf sz s =
      (let s3 = set_rflags (rflags s) s2 in
       if list_empty (us_rx_data_list (udp_sockets s3 ! i)) then Inr (- 1, s3) else udp_socket_recv env (int i) buf sz s3)"
    if "env s1 = Inr s2" "length (udp_sockets s2) = UDP_SOCKET_COUNT" for env s2
    using s1(3) s0(1,2) i il empty that by (simp add: udp_socket_recv_def sock_get_def arr_get_def Let_def) (simp add: rflags_defs)
  moreover have "timeout_set UdpSocketRecvTimeout (of_int (int i)) (ucast (get_tick s)) 5000 s ts s1 ts'"
  proof -
    have "ttick ?s = ttick s" "tick ?s = tick s" "live ?s = live s"
      by (simp_all add: ttick_def fun_eq_iff udp_upd_def mem_view)
    moreover have "mem8 s1 = mem8 s0" "timers s1 = timers s0" "works s1 = works s0" using s1(1) by (auto simp: asleep_def)
    ultimately show ?thesis using s0(5) by (simp add: timeout_set_def delayed_def)
  qed
  moreover have "us_wait_id (udp_sockets s1 ! i) = get_tick s"
    using s0(4) s1(1) il by (auto simp: armed_def asleep_def udp_upd_def)
  ultimately show ?thesis using s0(4) s1 by (intro exI [of _ s1] exI [of _ ts']) (auto simp: udp_waiting_def)
qed

lemma flags_inv:
  "sock_inv sockqs squeue (set_rflags f s) ts ws Q = sock_inv sockqs squeue s ts ws Q" "tables_ok (set_rflags f s) = tables_ok s"
  "rx_ok (set_rflags f s) = rx_ok s" "pending (set_rflags f s) = pending s" "rxdatas (set_rflags f s) = rxdatas s"
proof -
  have "squeue q (set_rflags f s) = squeue q s" for q by (cases q) (simp_all add: rflags_defs)
  then show "sock_inv sockqs squeue (set_rflags f s) ts ws Q = sock_inv sockqs squeue s ts ws Q"
    by (simp add: sock_inv_def wq_blocks_def) (simp add: wq_view rflags_defs mem_view)
qed (simp_all add: rflags_defs tables_ok_def rx_ok_def pending_def mem_view fun_eq_iff)

lemma udp_queue_empty:
  "sock_inv sockqs squeue s ts ws Q \<Longrightarrow> i < UDP_SOCKET_COUNT \<Longrightarrow> list_empty (us_rx_data_list (udp_sockets s ! i)) = (Q (UdpRx i) = [])"
  using queues_okD(1) [of sockqs "\<lambda>q. squeue q s" "links s" "live s - wq_blocks s ts ws" Q "UdpRx i"]
  by (simp add: sock_inv_def list_empty_iff)

text \<open>
  C13: a receive call on a UDP socket with nothing pending. It arms a time-out and goes to sleep on the socket: another task
  runs, and all queues are in order. The time-out is one new timer, due 5000 ticks after the call, whose work is the
  time-out handler of UDP sockets on a new block with the socket's number and the tick of the call, which is also the wait
  number of the socket. Whatever happened to the socket when the call continues, it returns the oldest entry if
  there is one and \<open>-1\<close> if there is none, and it restores the flags register.
\<close>

theorem udp_recv_waits:
  assumes inv: "sock_inv sockqs squeue s ts ws Q" and k: "tables_ok s" and i: "i < UDP_SOCKET_COUNT" and Q: "Q (UdpRx i) = []"
    and av: "3 \<le> avail s" and t: "tick s + 5000 \<noteq> END_TICK"
    and good: "sched_good idle s" and cur: "c = current_task (taskctl s)" "c \<noteq> idle"
  shows "\<exists>s1 ts1. sock_inv sockqs squeue s1 ts1 ws Q \<and> udp_waiting idle c i s s1 \<and>
     timeout_set UdpSocketRecvTimeout (of_int (int i)) (ucast (get_tick s)) 5000 s ts s1 ts1 \<and> us_wait_id (udp_sockets s1 ! i) = get_tick s \<and>
     (\<forall>env s2 ts2 ws2 Q2. env s1 = Inr s2 \<longrightarrow> sock_inv sockqs squeue s2 ts2 ws2 Q2 \<longrightarrow> tables_ok s2 \<longrightarrow>
        (Q2 (UdpRx i) = [] \<longrightarrow> udp_socket_recv env (int i) buf sz s = Inr (- 1, set_rflags (rflags s) s2)) \<and>
        (\<forall>rx xs n. Q2 (UdpRx i) = rx # xs \<longrightarrow> rx_ok s2 rx \<longrightarrow> 0 \<le> sz \<longrightarrow> n = min (nat sz) (length (pending s2 rx)) \<longrightarrow>
           region buf n \<inter> region (rxd_data (rxdatas s2 rx)) n = {} \<longrightarrow>
           (\<exists>s'. udp_socket_recv env (int i) buf sz s = Inr (int n, s') \<and>
              data_taken (UdpRx i) rx xs buf n (set_rflags (rflags s) s2) ts2 ws2 Q2 s')))"
proof -
  from udp_recv_sleeps [OF inv k i Q av t good cur, of buf sz] obtain s1 ts1 where
    s1: "sock_inv sockqs squeue s1 ts1 ws Q" "udp_waiting idle c i s s1"
      "timeout_set UdpSocketRecvTimeout (of_int (int i)) (ucast (get_tick s)) 5000 s ts s1 ts1" "us_wait_id (udp_sockets s1 ! i) = get_tick s"
    and go: "\<forall>env s2. env s1 = Inr s2 \<longrightarrow> length (udp_sockets s2) = UDP_SOCKET_COUNT \<longrightarrow>
              udp_socket_recv env (int i) buf sz s =
                (let s3 = set_rflags (rflags s) s2 in
                 if list_empty (us_rx_data_list (udp_sockets s3 ! i)) then Inr (- 1, s3) else udp_socket_recv env (int i) buf sz s3)" by blast
  have "(Q2 (UdpRx i) = [] \<longrightarrow> udp_socket_recv env (int i) buf sz s = Inr (- 1, set_rflags (rflags s) s2)) \<and>
      (\<forall>rx xs n. Q2 (UdpRx i) = rx # xs \<longrightarrow> rx_ok s2 rx \<longrightarrow> 0 \<le> sz \<longrightarrow> n = min (nat sz) (length (pending s2 rx)) \<longrightarrow>
         region buf n \<inter> region (rxd_data (rxdatas s2 rx)) n = {} \<longrightarrow>
         (\<exists>s'. udp_socket_recv env (int i) buf sz s = Inr (int n, s') \<and>
            data_taken (UdpRx i) rx xs buf n (set_rflags (rflags s) s2) ts2 ws2 Q2 s'))"
    if e: "env s1 = Inr s2" "sock_inv sockqs squeue s2 ts2 ws2 Q2" "tables_ok s2" for env s2 ts2 ws2 Q2
  proof -
    let ?s3 = "set_rflags (rflags s) s2"
    have i3: "sock_inv sockqs squeue ?s3 ts2 ws2 Q2" "tables_ok ?s3" using e by (simp_all add: flags_inv)
    have len: "length (udp_sockets s2) = UDP_SOCKET_COUNT" using e(3) by (simp add: tables_ok_def)
    then have "udp_socket_recv env (int i) buf sz s = (let s3 = ?s3 in
        if list_empty (us_rx_data_list (udp_sockets s3 ! i)) then Inr (- 1, s3) else udp_socket_recv env (int i) buf sz s3)"
      using go e(1) by blast
    then have eq: "udp_socket_recv env (int i) buf sz s = (if Q2 (UdpRx i) = [] then Inr (- 1, ?s3) else udp_socket_recv env (int i) buf sz ?s3)"
      using udp_queue_empty [OF i3(1) i] by simp
    show ?thesis using udp_recv_takes [OF i3 i, of _ _ sz buf env] unfolding eq by (auto simp: flags_inv)
  qed
  with s1 show ?thesis by blast
qed

section \<open>Woken by a datagram\<close>

text \<open>
  What happens while a task sleeps: the card writes a frame into the buffer of its next receive descriptor, the receive interrupt and
  the main loop process it, and the scheduler switches. \<open>dma\<close> is the card's access to memory: it is only known to have
  stored the frame \<open>F\<close> and nothing else.
\<close>

definition traffic :: "('a tcp_state_scheme \<Rightarrow> 'a tcp_state_scheme) \<Rightarrow> (nat \<Rightarrow> u8) \<Rightarrow> 'a tcp_state_scheme \<Rightarrow> 'a tcp_state_scheme res" where
  "traffic dma chip s =
     bindr (receive_packet chip (dma s)) (\<lambda>s1. bindr (wq_execute kcall s1) (\<lambda>s2. bindr (schedule s2) (\<lambda>(_, s3). Inr s3)))"

definition stored :: "u8 list \<Rightarrow> ring_desc \<Rightarrow> 'a net_state_scheme \<Rightarrow> 'a net_state_scheme \<Rightarrow> bool" where
  "stored F d s s' =
     (nic_ok s' \<and> d = rx_ring (nic s') ! unat (cur_rx (nic s')) \<and> has_frame d \<and> frame_len d = of_nat (length F) \<and>
      bytes_at (mem8 s') (desc_addr d) (length F) = F \<and> (\<forall>x. x \<notin> region (desc_addr d) (length F) \<longrightarrow> mem8 s' x = mem8 s x) \<and>
      (\<exists>m n. s' = s\<lparr>mem8 := m, nic := n\<rparr>))"

lemma sock_schedule:
  assumes inv: "sock_inv sockqs squeue s ts ws Q"
  shows "\<exists>r s'. schedule s = Inr (r, s') \<and> sock_inv sockqs squeue s' ts ws Q \<and> task_rest s s' \<and> tflag s' = tflag s"
proof -
  have w: "wq_inv s ts ws" "sched_fine s" using inv by (simp_all add: sock_inv_def wq_inv_def)
  from schedule_fine [OF w(2)] obtain r s' where s': "schedule s = Inr (r, s')" "sched_fine s'" "task_rest s s'" "tflag s' = tflag s" by blast
  from s'(3) obtain c nx where e: "s' = s\<lparr>taskctl := c, task_links := nx\<rparr>" by (auto simp: task_rest_def)
  have "wq_inv s' ts ws" using w(1) s'(2) by (simp add: wq_view wq_ok_def e sched_fine_def)
  then have "sock_inv sockqs squeue s' ts ws Q"
    by (rule socks.inv_frame [OF inv]) (simp add: e, simp add: e, simp add: e mem_view, rule socks.get_more, simp add: e)
  with s' show ?thesis by blast
qed

lemma stored_keeps:
  assumes "stored F d s s'"
  shows "sock_inv sockqs squeue s' ts ws Q = sock_inv sockqs squeue s ts ws Q" "tables_ok s' = tables_ok s" "nic_ok s'" "avail s' = avail s" "live s' = live s"
    "no_raw_reader p s' = no_raw_reader p s" "udp_bound s' = udp_bound s" "netdev s' = netdev s" "taskctl s' = taskctl s" "rflags s' = rflags s"
proof -
  from assms obtain m n where e: "s' = s\<lparr>mem8 := m, nic := n\<rparr>" by (auto simp: stored_def)
  have "squeue q s' = squeue q s" for q by (cases q) (simp_all add: e)
  then show "sock_inv sockqs squeue s' ts ws Q = sock_inv sockqs squeue s ts ws Q"
    by (simp add: sock_inv_def wq_blocks_def) (simp add: wq_view e mem_view)
  show "nic_ok s'" using assms by (simp add: stored_def)
  show "tables_ok s' = tables_ok s" "avail s' = avail s" "live s' = live s" "no_raw_reader p s' = no_raw_reader p s"
    "udp_bound s' = udp_bound s" "netdev s' = netdev s" "taskctl s' = taskctl s" "rflags s' = rflags s"
    by (simp_all add: e tables_ok_def mem_view no_raw_reader_def udp_bound_def fun_eq_iff)
qed

lemma waiting_keeps:
  assumes "udp_waiting idle c i s s1" and "tables_ok s"
  shows "tables_ok s1" "avail s1 = avail s - 3" "live s \<subseteq> live s1" "no_raw_reader p s1 = no_raw_reader p s" "udp_bound s1 = udp_bound s"
    "netdev s1 = netdev s" "nic s1 = nic s" "tcause s1 c = UdpSock i" "c < next_task_id (taskctl s1)"
    "unat x < unat MEM_START \<or> (\<exists>a \<in> live s. x \<in> region a 1048528) \<Longrightarrow> mem8 s1 x = mem8 s x"
proof -
  let ?s = "udp_upd i (us_wait_id_update (\<lambda>_. get_tick s)) s"
  from assms(1) obtain s0 where s0: "armed ?s s0" "asleep idle c (UdpSock i) s0 s1" by (auto simp: udp_waiting_def)
  from s0(1) obtain m fm mh nx l tm wk where
    e0: "s0 = ?s\<lparr>mem8 := m, works := wk, freemem := fm, memhdrs := mh, links := nx, timer_list := l, timers := tm\<rparr>" by (auto simp: armed_def)
  from s0(2) obtain rf tc tn where e1: "s1 = s0\<lparr>rflags := rf, taskctl := tc, task_links := tn\<rparr>" by (auto simp: asleep_def)
  show "tables_ok s1" using assms(2) by (simp add: e1 e0 tables_ok_def udp_upd_def)
  show "avail s1 = avail s - 3" "live s \<subseteq> live s1" using s0(1) by (simp_all add: armed_def e1 mem_view udp_upd_def)
  show "no_raw_reader p s1 = no_raw_reader p s" "netdev s1 = netdev s" "nic s1 = nic s" by (simp_all add: e1 e0 udp_upd_def no_raw_reader_def)
  show "udp_bound s1 = udp_bound s"
    by (cases "i < length (udp_sockets s)") (auto simp: e1 e0 udp_upd_def udp_bound_def fun_eq_iff nth_list_update list_update_beyond)
  show "tcause s1 c = UdpSock i" "c < next_task_id (taskctl s1)" using s0(2) by (simp_all add: asleep_def)
  assume "unat x < unat MEM_START \<or> (\<exists>a \<in> live s. x \<in> region a 1048528)"
  then show "mem8 s1 x = mem8 s x" using s0(1) by (auto simp: armed_def e1 udp_upd_def mem_view)
qed

lemma recv_at_once_rest:
  assumes "udp_socket_recv env (int i) buf sz s = Inr (k, s')" and "\<not> list_empty (us_rx_data_list (udp_sockets s ! i))"
    and "length (udp_sockets s) = UDP_SOCKET_COUNT" and "i < UDP_SOCKET_COUNT"
  shows "taskctl s' = taskctl s" "rflags s' = rflags s" "tables_ok s' = tables_ok s"
  using assms by (auto simp: udp_socket_recv_def sock_get_def arr_get_def Let_def take_rx_def store_def udp_upd_def tables_ok_def split: option.splits)

text \<open>The reader that sleeps is served by the datagram that arrives meanwhile.\<close>

lemma sleeper_served:
  assumes inv: "sock_inv sockqs squeue s ts [] Q" and k: "tables_ok s" and Q: "Q (UdpRx i) = []" and av: "8 \<le> avail s"
    and t: "tick s + 5000 \<noteq> END_TICK" and good: "sched_good idle s" and cur: "c = current_task (taskctl s)" "c \<noteq> idle"
    and i: "udp_bound s port i" and one: "\<forall>j. udp_bound s port j \<longrightarrow> j = i" and raw: "no_raw_reader IP_HDR_PROTO_UDP s"
    and sz: "0 \<le> sz" and buf: "in_block s buf (nat sz)"
    and fr: "ip_frame m e dmac smac len ttl IP_HDR_PROTO_UDP sip (ip_addr (netdev s))" "udp_ok m (e + 34) sport port data" "42 + length data < 65536"
    and chip: "chip 0 AND RxBufEmpty = 0" "chip 1 AND RxBufEmpty \<noteq> 0"
    and dma: "\<forall>s1. udp_waiting idle c i s s1 \<longrightarrow> stored (bytes_at m e (42 + length data)) d s1 (dma s1)"
  defines "n \<equiv> min (nat sz) (length data)"
  shows "\<exists>s' ts'. udp_socket_recv (traffic dma chip) (int i) buf sz s = Inr (int n, s') \<and> bytes_at (mem8 s') buf n = take (nat sz) data \<and>
           sock_inv sockqs squeue s' ts' [] Q \<and> tables_ok s' \<and> rflags s' = rflags s \<and> tflag s' c = TASK_RUNNING \<and> live s \<subseteq> live s'"
proof -
  have iU: "i < UDP_SOCKET_COUNT" using i by (simp add: udp_bound_def)
  have "3 \<le> avail s" using av by simp
  from udp_recv_sleeps [OF inv k iU Q this t good cur, of buf sz] obtain s1 ts1 where
    s1: "sock_inv sockqs squeue s1 ts1 [] Q" "udp_waiting idle c i s s1"
    and go: "\<forall>env s2. env s1 = Inr s2 \<longrightarrow> length (udp_sockets s2) = UDP_SOCKET_COUNT \<longrightarrow>
              udp_socket_recv env (int i) buf sz s =
                (let s3 = set_rflags (rflags s) s2 in
                 if list_empty (us_rx_data_list (udp_sockets s3 ! i)) then Inr (- 1, s3) else udp_socket_recv env (int i) buf sz s3)" by blast
  note w = waiting_keeps [OF s1(2) k]
  let ?k = "42 + length data" and ?t = "dma s1"
  have st: "stored (bytes_at m e ?k) d s1 ?t" using dma s1(2) by blast
  note f = stored_keeps [OF st]
  have i2: "sock_inv sockqs squeue ?t ts1 [] Q" "tables_ok ?t" "5 \<le> avail ?t" "no_raw_reader IP_HDR_PROTO_UDP ?t" "udp_bound ?t = udp_bound s"
    "netdev ?t = netdev s" "live s \<subseteq> live ?t" "tcause ?t c = UdpSock i" "c < next_task_id (taskctl ?t)"
    using s1(1) w av raw by (simp_all only: f tcause_def)
  have d: "d = rx_ring (nic ?t) ! unat (cur_rx (nic ?t))" "has_frame d" "frame_len d = of_nat ?k" "bytes_at (mem8 ?t) (desc_addr d) ?k = bytes_at m e ?k"
    using st unfolding stored_def length_bytes_at by blast+
  have "ip_frame (mem8 ?t) (desc_addr d) dmac smac len ttl IP_HDR_PROTO_UDP sip (ip_addr (netdev ?t))"
    "udp_ok (mem8 ?t) (desc_addr d + 34) sport port data"
    using copied_ip_frame [OF d(4)] copied_udp [OF d(4), of 34 data] fr(1,2) by (simp_all only: i2(6) length_bytes_at) simp_all
  note u = udp_frameI [OF this]
  from datagram_queued [OF i2(1,2) f(3) i2(3) chip d(1-3) fr(3) u(1) i2(4), unfolded i2(5), OF i one, unfolded Q append_Nil] obtain t1 t2 rx where
    t2: "receive_packet chip ?t = Inr t1" "wq_execute kcall t1 = Inr t2" "sock_inv sockqs squeue t2 ts1 [] (Q(UdpRx i := [rx]))" "rx_ok t2 rx"
      "pending t2 rx = bytes_at (mem8 ?t) (desc_addr d + 42) (length data)" "tables_ok t2" "readers_woken (UdpSock i) ?t t2"
      "\<forall>b k. in_block ?t b k \<longrightarrow> region b k \<inter> region (rxd_data (rxdatas t2 rx)) 1048528 = {}" "live ?t \<subseteq> live t2"
    by blast
  from sock_schedule [OF t2(3)] obtain r t3 where
    t3: "schedule t2 = Inr (r, t3)" "sock_inv sockqs squeue t3 ts1 [] (Q(UdpRx i := [rx]))" "task_rest t2 t3" "tflag t3 = tflag t2" by blast
  let ?s3 = "set_rflags (rflags s) t3"
  have l3': "live t3 = live t2" using t3(3) by (auto simp: task_rest_def mem_view)
  have r3: "rxdatas t3 = rxdatas t2" "rx_ok t3 rx" "pending t3 rx = data" "tables_ok t3"
    using t3(3) t2(4-6) u(2) by (auto simp: task_rest_def rx_ok_def pending_def tables_ok_def mem_view)
  have env: "traffic dma chip s1 = Inr t3" using t2(1,2) t3(1) by (simp add: traffic_def)
  have len: "length (udp_sockets t3) = UDP_SOCKET_COUNT" using r3(4) by (simp add: tables_ok_def)
  have ne: "\<not> list_empty (us_rx_data_list (udp_sockets ?s3 ! i))"
    using udp_queue_empty [of ?s3 ts1 "[]" "Q(UdpRx i := [rx])" i] t3(2) iU by (simp add: flags_inv)
  have eq: "udp_socket_recv (traffic dma chip) (int i) buf sz s = udp_socket_recv (traffic dma chip) (int i) buf sz ?s3"
    using go env len ne by (simp add: Let_def)
  have ap: "region buf (nat sz) \<inter> region (rxd_data (rxdatas ?s3 rx)) 1048528 = {}"
    using t2(8) in_block_mono [OF buf i2(7)] by (simp add: flags_inv r3(1))
  have i3: "sock_inv sockqs squeue ?s3 ts1 [] (Q(UdpRx i := [rx]))" "tables_ok ?s3" "rx_ok ?s3 rx" "pending ?s3 rx = data"
    using t3(2) r3 by (simp_all only: flags_inv)
  from only_entry_read [OF i3(1,2) iU i3(3) sz ap, of "traffic dma chip", unfolded i3(4), folded n_def] obtain s' where
    s': "udp_socket_recv (traffic dma chip) (int i) buf sz ?s3 = Inr (int n, s')" "bytes_at (mem8 s') buf n = take n data"
      "sock_inv sockqs squeue s' ts1 [] (Q(UdpRx i := []))" "live s' = live ?s3" by (auto simp only: fun_upd_upd)
  have l3: "length (udp_sockets ?s3) = UDP_SOCKET_COUNT" using len by (simp add: rflags_defs)
  note keep = recv_at_once_rest [OF s'(1) ne l3 iU]
  have "tflag t3 c = TASK_RUNNING" using t2(7) i2(8,9) t3(4) by (simp add: readers_woken_def)
  then have "tflag s' c = TASK_RUNNING" by (simp add: tflag_def keep(1)) (simp add: rflags_defs)
  moreover have "rflags s' = rflags s" "tables_ok s'" using keep(2,3) r3(4) by (simp_all add: flags_inv) (simp add: rflags_defs)
  moreover have "live s \<subseteq> live s'" using i2(7) t2(9) l3' s'(4) by (simp add: mem_view rflags_defs)
  moreover have "Q(UdpRx i := []) = Q" using Q by (simp add: fun_upd_idem)
  moreover have "take n data = take (nat sz) data" by (simp add: n_def min_def)
  ultimately show ?thesis using eq s' by (intro exI [of _ s'] exI [of _ ts1]) simp
qed

text \<open>
  C7: a reader that sleeps is woken by the datagram it waits for. The task calls the receive function of a socket with nothing
  pending; while it sleeps the card stores a datagram for the socket's port, the interrupt and the main loop process it and the scheduler
  switches. The call then returns the payload, as much as was asked for, in the caller's buffer; the queue is empty again, the
  flags are restored, and the task is marked as able to run.
\<close>

theorem sleeping_reader_gets_datagram:
  assumes inv: "sock_inv sockqs squeue s ts [] Q" and k: "tables_ok s" and Q: "Q (UdpRx i) = []" and av: "8 \<le> avail s"
    and t: "tick s + 5000 \<noteq> END_TICK" and good: "sched_good idle s" and cur: "c = current_task (taskctl s)" "c \<noteq> idle"
    and i: "udp_bound s port i" and one: "\<forall>j. udp_bound s port j \<longrightarrow> j = i" and raw: "no_raw_reader IP_HDR_PROTO_UDP s"
    and sz: "0 \<le> sz" and buf: "in_block s buf (nat sz)"
    and fr: "ip_frame m e dmac smac len ttl IP_HDR_PROTO_UDP sip (ip_addr (netdev s))" "udp_ok m (e + 34) sport port data" "42 + length data < 65536"
    and chip: "chip 0 AND RxBufEmpty = 0" "chip 1 AND RxBufEmpty \<noteq> 0"
    and dma: "\<forall>s1. udp_waiting idle c i s s1 \<longrightarrow> stored (bytes_at m e (42 + length data)) d s1 (dma s1)"
  defines "n \<equiv> min (nat sz) (length data)"
  shows "\<exists>s' ts'. udp_socket_recv (traffic dma chip) (int i) buf sz s = Inr (int n, s') \<and> bytes_at (mem8 s') buf n = take (nat sz) data \<and>
           sock_inv sockqs squeue s' ts' [] Q \<and> tables_ok s' \<and> rflags s' = rflags s \<and> tflag s' c = TASK_RUNNING"
  using sleeper_served [OF assms(1-19)] unfolding n_def by blast

end
