(* ===== verification/Handshake.thy ===== *)
theory Handshake
  imports Blocking
begin

text \<open>
  The three-way handshake of two stream sockets: what a segment looks like on the wire, how the other host reads it, and how the
  acknowledgements of SYN and SYN-ACK are handled.
\<close>

section \<open>A segment on the wire\<close>

definition hdr_bytes :: "tcp_socket \<Rightarrow> nat" where
  "hdr_bytes k = (if ts_state k = CLOSED then 24 else 20)"

lemma copied_tcp:
  assumes "bytes_at m' f k = bytes_at m e k" and "i + hdr_bytes t + length data \<le> k"
  shows "tcp_ok m' (f + of_nat i) t dport flags data = tcp_ok m (e + of_nat i) t dport flags data"
proof -
  have c: "bytes_at m' (f + of_nat (i + 20)) 4 = bytes_at m (e + of_nat (i + 20)) 4" if "ts_state t = CLOSED"
    using copied_part [OF assms(1), of "i + 20" 4] assms(2) that by (simp add: hdr_bytes_def)
  show ?thesis
    using copied_rd16 [OF assms(1), of i] copied_rd16 [OF assms(1), of "i + 2"] copied_rd32 [OF assms(1), of "i + 4"]
      copied_rd32 [OF assms(1), of "i + 8"] copied_rd16 [OF assms(1), of "i + 12"] copied_rd16 [OF assms(1), of "i + 14"]
      copied_part [OF assms(1), of "i + hdr_bytes t" "length data"] c assms(2)
    by (simp add: tcp_ok_def hdr_bytes_def ac_simps split: if_splits)
qed

text \<open>The frame of a segment with the numbers of the socket \<open>t\<close> that sends it.\<close>

definition tcp_frame :: "bytes \<Rightarrow> addr \<Rightarrow> u8 list \<Rightarrow> u8 list \<Rightarrow> u32 \<Rightarrow> u32 \<Rightarrow> tcp_socket \<Rightarrow> u16 \<Rightarrow> u8 \<Rightarrow> u8 list \<Rightarrow> bool" where
  "tcp_frame m f dmac smac sip dip t dport flags data =
     (ip_frame m f dmac smac (of_nat (20 + hdr_bytes t + length data)) 64 IP_HDR_PROTO_TCP sip dip \<and>
      tcp_ok m (f + 34) t dport flags data)"

lemma copied_tcp_frame:
  assumes "bytes_at m' f (34 + hdr_bytes t + length data) = bytes_at m e (34 + hdr_bytes t + length data)"
  shows "tcp_frame m' f dmac smac sip dip t dport flags data = tcp_frame m e dmac smac sip dip t dport flags data"
  using copied_ip_frame [OF assms] copied_tcp [OF assms, of 34] by (simp add: tcp_frame_def)

text \<open>What the handler of the other host reads from it.\<close>

definition sent_segment :: "u32 \<Rightarrow> tcp_socket \<Rightarrow> u8 \<Rightarrow> u8 list \<Rightarrow> segment" where
  "sent_segment sip t flags data =
     \<lparr>sg_sip = sip, sg_sport = ts_sport t, sg_seq = ts_seq_num t, sg_ack = ts_ack_num t,
      sg_flags = (if ts_state t = CLOSED then 0x6000 else 0x5000) + ucast flags, sg_hlen = of_nat (hdr_bytes t), sg_len = of_nat (length data)\<rparr>"

lemma flag_word:
  fixes f :: u8 and w :: u16
  assumes "w = 0x6000 \<or> w = 0x5000"
  shows "drop_bit 12 (w + ucast f) AND 0xf = (if w = 0x6000 then 6 else 5 :: u16)"
proof -
  have f: "unat f < 256" using unsigned_less [of f] by simp
  then have u: "unat (ucast f :: u16) = unat f" by (simp add: unsigned_ucast_eq take_bit_nat_eq_self)
  have "unat (w + ucast f) = unat w + unat f" using assms f by (subst unat_add_lem [THEN iffD1]) (auto simp: u)
  then have "unat (drop_bit 12 (w + ucast f)) = (unat w + unat f) div 4096" by (subst unat_drop_bit_eq) (simp add: drop_bit_eq_div)
  also have "\<dots> = unat (if w = 0x6000 then 6 else 5 :: u16)" using assms f by auto
  finally have "drop_bit 12 (w + ucast f) = (if w = 0x6000 then 6 else 5 :: u16)" by (simp only: word_unat_eq_iff)
  then show ?thesis by simp
qed

lemma hton_ntoh_same: "hton16 w = ntoh16 w"
  by (simp add: hton16_def ntoh16_def)

lemma segment_read:
  assumes fr: "tcp_frame (mem8 s) e dmac smac sip dip t dport flags data" and p: "pb_buf (pktbufs s pkt) = e + 34"
    and n: "44 + length data < 65536"
  shows "read_segment pkt s = sent_segment sip t flags data"
proof -
  let ?h = "hdr_bytes t" and ?n = "length data"
  have o: "e + 34 - ucast sizeof_ip_hdr = e + 14" by (simp add: sizeof_ip_hdr_def)
  have ip: "hton16 (rd16 (mem8 s) (e + 14 + 2)) = of_nat (20 + ?h + ?n)" "ntoh32 (rd32 (mem8 s) (e + 14 + 12)) = sip"
    using fr unfolding tcp_frame_def ip_frame_def ip_hdr_ok_def hton_ntoh_same by blast+
  have t: "ntoh16 (rd16 (mem8 s) (e + 34)) = ts_sport t" "ntoh32 (rd32 (mem8 s) (e + 34 + 4)) = ts_seq_num t"
    "ntoh32 (rd32 (mem8 s) (e + 34 + 8)) = ts_ack_num t"
    "ntoh16 (rd16 (mem8 s) (e + 34 + 12)) = (if ts_state t = CLOSED then 0x6000 else 0x5000) + ucast flags"
    using fr unfolding tcp_frame_def tcp_ok_def by blast+
  have hl: "ucast (drop_bit 12 ((if ts_state t = CLOSED then 0x6000 else 0x5000) + ucast flags :: u16) AND 0xf) * 4 = (of_nat ?h :: u32)"
    by (simp add: flag_word hdr_bytes_def)
  have h: "?h \<le> 24" by (simp add: hdr_bytes_def)
  then have "20 + ?h + ?n < 65536" using n by simp
  then have "ucast (of_nat (20 + ?h + ?n) :: u16) = (of_nat (20 + ?h + ?n) :: u32)"
    by (simp add: word_unat_eq_iff unsigned_ucast_eq unat_of_nat32 take_bit_nat_eq_self unsigned_of_nat take_bit_nat_eq_self del: of_nat_add)
  then have l: "ucast (of_nat (20 + ?h + ?n) :: u16) - sizeof_ip_hdr - of_nat ?h = (of_nat ?n :: u32)" by (simp add: sizeof_ip_hdr_def)
  show ?thesis unfolding read_segment_def Let_def p o ip hton_ntoh_same t hl sent_segment_def
    using ip(1) by (simp only: hton_ntoh_same l)
qed


section \<open>From the socket to the transmit ring\<close>

lemma tcp_frame_sent:
  fixes s :: "'a tcp_state_scheme" and dip :: u32 and i :: nat
  assumes ok: "can_send dip mac s" and i: "i < TCP_SOCKET_COUNT" and buf: "0 < n \<longrightarrow> in_block s buf n" and n: "58 + n \<le> 8192"
  defines "t \<equiv> tcp_sockets s ! i" and "f \<equiv> desc_addr (tx_next s)"
  shows "\<exists>p s1 s3. new_pkt (sizeof_ether_hdr + sizeof_ip_hdr + tcp_hdr_len t + of_nat n) ''tcp_send_pbuf'' ''tcp_send_pbuf_buf'' s = Inr (p, s1) \<and>
           ip_tx p dip IP_HDR_PROTO_TCP 64 (tcp_filled i p dip dport buf (of_nat n) flags s1) = Inr s3 \<and>
           passed_on (34 + hdr_bytes t + n) s s3 \<and> tx_ready 2 s3 \<and> tcp_sockets s1 = tcp_sockets s \<and> net_same s1 s3 \<and> live s \<subseteq> live s3 \<and>
           tcp_frame (mem8 s3) f mac (hw_addr (netdev s)) (ip_addr (netdev s)) dip t dport flags (bytes_at (mem8 s) buf n) \<and>
           tcp_frame (mem8 s3) (pb_head (pktbufs s3 p)) mac (hw_addr (netdev s)) (ip_addr (netdev s)) dip t dport flags (bytes_at (mem8 s) buf n)"
proof -
  have c: "tx_ready 4 s" "length (hw_addr (netdev s)) = 6" "find_mac_addr (nexthop (netdev s) dip) s = Some mac" "length mac = 6"
    "\<not> owned (tx_next s)" "dma_ok (tx_next s)" using ok by (simp_all add: can_send_def)
  let ?data = "bytes_at (mem8 s) buf n" and ?k = "34 + hdr_bytes t + n" and ?h = "hdr_bytes t"
  have h: "?h \<le> 24" by (simp add: hdr_bytes_def)
  have k: "34 \<le> ?k" "?k < 65536" "?k \<le> 8192" using h n by simp_all
  have len: "sizeof_ether_hdr + sizeof_ip_hdr + tcp_hdr_len t + of_nat n = (of_nat ?k :: u32)"
    by (simp add: sizeof_ether_hdr_def sizeof_ip_hdr_def hdr_len_simps hdr_bytes_def)
  have r: "tx_ready (Suc (Suc 2)) s" using c(1) by (simp add: eval_nat_numeral)
  have "58 + n < 65536" using n by simp
  from new_pkt_ok [OF r tcp_fits [OF this, of t, unfolded len], of "''tcp_send_pbuf''" "''tcp_send_pbuf_buf''"] obtain p b s1 fm mh where
    s1: "new_pkt (of_nat ?k) ''tcp_send_pbuf'' ''tcp_send_pbuf_buf'' s = Inr (p, s1)" "tx_ready 2 s1" "{p, b} \<inter> live s = {}"
      "live s1 = {p, b} \<union> live s"
    and e1: "s1 = s\<lparr>freemem := fm, memhdrs := mh, pktbufs := (pktbufs s)(p := \<lparr>pkt_len = of_nat ?k, pb_buf = b, pb_head = b\<rparr>)\<rparr>"
    by blast
  define s2 where "s2 = tcp_filled i p dip dport buf (of_nat n) flags s1"
  have b: "b + 34 - 20 = b + 14" "b + 34 - 12 = b + 22" by simp_all
  have n2: "net_same s1 s2" unfolding s2_def tcp_filled_def Let_def by (intro net_same_step [OF s1(2)] net_same_refl [OF s1(2)])
  then have r2: "tx_ready 2 s2" "b \<in> live s2" using net_same_ready [OF s1(2)] s1(4) by (simp_all add: net_same_def)
  have f2: "netdev s2 = netdev s" "nic s2 = nic s" "arptable s2 = arptable s"
    "pktbufs s2 p = \<lparr>pkt_len = of_nat ?k, pb_buf = b + 14, pb_head = b\<rparr>"
    "mem8 s2 = tcp_build (b + 34) t (ip_addr (netdev s)) dip dport buf (of_nat n) flags (mem8 s)"
    by (simp_all add: s2_def tcp_filled_def e1 set_buf_def store_def t_def b)
  have "region (b + of_nat 22) (12 + ?h + n) \<inter> region buf n = {}"
    by (cases "n = 0") (use buf in_block_apart [of s buf n b s1 "{p}" 22 "12 + ?h + n"] s1(3,4) n h in \<open>auto simp: region_def\<close>)
  then have "region (b + 34 - 12) (12 + ?h + n) \<inter> region buf n = {}" unfolding b by simp
  from tcp_built(1) [OF this [unfolded hdr_bytes_def], of "ip_addr (netdev s)" dip dport flags "mem8 s"] n h
  have built: "tcp_ok (mem8 s2) (b + 34) t dport flags ?data" unfolding f2(5) by (simp add: hdr_bytes_def)
  have d: "tx_next s2 = tx_next s" "find_mac_addr a s2 = find_mac_addr a s" for a
    by (simp_all add: tx_next_def f2(2) find_mac_addr_def f2(3))
  have ap: "region f ?k \<inter> region b ?k = {}"
    using dma_apart [of b "memhdrs s2" "tx_next s" ?k ?k] c(6) r2(2) k unfolding f_def by (auto simp: mem_view)
  from ip_tx_sent [OF r2(1), of dip mac p b ?k IP_HDR_PROTO_TCP 64] c(2-5) f2(4) k ap obtain s3 m where
    s3: "ip_tx p dip IP_HDR_PROTO_TCP 64 s2 = Inr s3" "net_same s2 s3" "passed_on ?k s2 s3" "bytes_at (mem8 s3) f ?k = bytes_at m b ?k"
      "ip_frame m b mac (hw_addr (netdev s)) (of_nat (?k - 14)) 64 IP_HDR_PROTO_TCP (ip_addr (netdev s)) dip"
      "\<forall>x. x \<notin> region b 34 \<longrightarrow> m x = mem8 s2 x" "bytes_at (mem8 s3) b ?k = bytes_at m b ?k" by (auto simp: f2(1) d f_def [symmetric])
  have "m (b + of_nat (34 + j)) = mem8 s2 (b + of_nat (34 + j))" if "j < ?h + n" for j
    using s3(6) offset_outside [of 34 "34 + j" b] that n h by simp
  then have "bytes_at m (b + of_nat 34) (?h + n) = bytes_at (mem8 s2) (b + of_nat 34) (?h + n)"
    by (intro bytes_at_cong) (simp add: add.assoc)
  from copied_tcp [OF this, of 0 t ?data] built have "tcp_ok m (b + 34) t dport flags ?data" by simp
  with s3(5) have "tcp_frame m b mac (hw_addr (netdev s)) (ip_addr (netdev s)) dip t dport flags ?data" by (simp add: tcp_frame_def add.assoc)
  with copied_tcp_frame [of "mem8 s3" f t ?data m b] copied_tcp_frame [of "mem8 s3" b t ?data m b] s3(4,7)
  have "tcp_frame (mem8 s3) f mac (hw_addr (netdev s)) (ip_addr (netdev s)) dip t dport flags ?data"
    "tcp_frame (mem8 s3) b mac (hw_addr (netdev s)) (ip_addr (netdev s)) dip t dport flags ?data" by simp_all
  moreover have "p \<in> live s1" "pb_head (pktbufs s1 p) = b" using s1(4) by (simp_all add: e1)
  then have "pb_head (pktbufs s3 p) = b" using net_same_trans [OF n2 s3(2)] by (simp add: net_same_def)
  moreover have "passed_on ?k s s3" using s3(3) by (simp add: passed_on_def tx_next_def f2(2))
  moreover have "tx_ready 2 s3" by (rule net_same_ready [OF r2(1) s3(2)])
  moreover have "net_same s1 s3" by (rule net_same_trans [OF n2 s3(2)])
  moreover from this have "live s \<subseteq> live s3" using s1(4) by (auto simp: net_same_def)
  moreover have "tcp_sockets s1 = tcp_sockets s" by (simp add: e1)
  ultimately show ?thesis using s1(1) s3(1) unfolding len s2_def by blast
qed


text \<open>A segment that is kept until it is acknowledged: its frame is in the transmit ring and in the kept packet.\<close>

definition segment_out ::
  "'a tcp_state_scheme \<Rightarrow> 'a tcp_state_scheme \<Rightarrow> u8 list \<Rightarrow> u32 \<Rightarrow> tcp_socket \<Rightarrow> u16 \<Rightarrow> u8 \<Rightarrow> u8 list \<Rightarrow> bool" where
  "segment_out s s' mac dip t dport flags data =
     (passed_on (34 + hdr_bytes t + length data) s s' \<and>
      tcp_frame (mem8 s') (desc_addr (tx_next s)) mac (hw_addr (netdev s)) (ip_addr (netdev s)) dip t dport flags data)"

definition segment_in_packet ::
  "'a tcp_state_scheme \<Rightarrow> addr \<Rightarrow> u8 list \<Rightarrow> u32 \<Rightarrow> tcp_socket \<Rightarrow> u16 \<Rightarrow> u8 \<Rightarrow> u8 list \<Rightarrow> bool" where
  "segment_in_packet s p mac dip t dport flags data =
     tcp_frame (mem8 s) (pb_head (pktbufs s p)) mac (hw_addr (netdev s)) (ip_addr (netdev s)) dip t dport flags data"

lemma dma_low:
  assumes "dma_ok d" and "j < 8192"
  shows "unat (desc_addr d + of_nat j) < unat MEM_START"
proof -
  have "unat (desc_addr d) + j < unat MEM_START" using assms by (simp add: dma_ok_def)
  moreover have "unat (of_nat j :: u64) = j" using assms(2) by (simp add: unat_of_nat64)
  moreover have "unat (desc_addr d + of_nat j) \<le> unat (desc_addr d) + unat (of_nat j :: u64)"
    unfolding unat_word_ariths by (rule mod_less_eq_dividend)
  ultimately show ?thesis by linarith
qed

lemma tcp_sent_kept:
  fixes s :: "'a tcp_state_scheme" and dip :: u32 and i :: nat
  assumes inv: "sock_inv sockqs squeue s ts ws Q" and k: "tables_ok s" and nic: "nic_ok s" and i: "i < TCP_SOCKET_COUNT"
    and av: "6 \<le> avail s" and buf: "0 < n \<longrightarrow> in_block s buf n" and n: "58 + n \<le> 8192" and t: "tick s + RETRANSMIT_ACK_TIMEOUT_MSEC \<noteq> END_TICK"
  defines "k0 \<equiv> tcp_sockets s ! i"
  shows "\<exists>tx p l ts' s'. tcp_send (int i) dip dport buf (of_nat n) flags True s = Inr s' \<and>
           sock_inv sockqs squeue s' ts' ws (Q(TcpTx i := Q (TcpTx i) @ [tx])) \<and> tables_ok s' \<and> nic_ok s' \<and> avail s' = avail s - 6 \<and>
           live s \<subseteq> live s' \<and> kept s' tx (ts_seq_num k0) (of_nat n) p \<and> tx_apart s' ts' ws Q tx \<and> set (tx_blocks s' tx) \<inter> live s = {} \<and>
           tcp_sockets s' = (tcp_sockets s)[i := k0\<lparr>ts_seq_num := ts_seq_num k0 + of_nat n, ts_tx_data_list := l\<rparr>] \<and>
           wq_blocks s' ts' ws \<inter> live s \<subseteq> wq_blocks s ts ws \<and> netdev s' = netdev s \<and>
           timeout_set TcpAckTimeout (of_int (int i)) (ts_seq_num k0) RETRANSMIT_ACK_TIMEOUT_MSEC s ts s' ts' \<and>
           (\<forall>mac. can_send dip mac s \<longrightarrow>
              segment_out s s' mac dip k0 dport flags (bytes_at (mem8 s) buf n) \<and>
              segment_in_packet s' p mac dip k0 dport flags (bytes_at (mem8 s) buf n))"
proof -
  have n1: "58 + n < 65536" using n by simp
  from tcp_send_keep [OF inv k nic i av n1 t, of dip dport buf flags, folded k0_def] obtain tx p b l ts' s' s1 s3 where
    s': "tcp_send (int i) dip dport buf (of_nat n) flags True s = Inr s'" "{tx, p, b} \<inter> live s = {}" "distinct [tx, p, b]"
      "sock_inv sockqs squeue s' ts' ws (Q(TcpTx i := Q (TcpTx i) @ [tx]))" "tables_ok s'" "nic_ok s'" "avail s' = avail s - 6" "{tx, p, b} \<union> live s \<subseteq> live s'"
      "kept s' tx (ts_seq_num k0) (of_nat n) p" "pb_head (pktbufs s' p) = b"
      "tcp_sockets s' = (tcp_sockets s)[i := k0\<lparr>ts_seq_num := ts_seq_num k0 + of_nat n, ts_tx_data_list := l\<rparr>]"
      "wq_blocks s' ts' ws \<inter> live s \<subseteq> wq_blocks s ts ws" "{tx, p, b} \<inter> wq_blocks s' ts' ws = {}"
      "timeout_set TcpAckTimeout (of_int (int i)) (ts_seq_num k0) RETRANSMIT_ACK_TIMEOUT_MSEC s ts s' ts'" "netdev s' = netdev s"
    and s3: "new_pkt (sizeof_ether_hdr + sizeof_ip_hdr + tcp_hdr_len k0 + of_nat n) ''tcp_send_pbuf'' ''tcp_send_pbuf_buf'' s = Inr (p, s1)"
      "ip_tx p dip IP_HDR_PROTO_TCP 64 (tcp_filled i p dip dport buf (of_nat n) flags s1) = Inr s3" "live s3 = {p, b} \<union> live s"
      "nic s' = nic s3" "pktbufs s' = pktbufs s3" "\<forall>x. unat x < unat MEM_START \<or> (\<exists>a \<in> live s3. x \<in> region a 1048528) \<longrightarrow> mem8 s' x = mem8 s3 x"
    by (elim exE conjE) (rule that; assumption)
  have h: "hdr_bytes k0 \<le> 24" by (simp add: hdr_bytes_def)
  let ?data = "bytes_at (mem8 s) buf n" and ?k = "34 + hdr_bytes k0 + n"
  have out: "segment_out s s' mac dip k0 dport flags ?data \<and> segment_in_packet s' p mac dip k0 dport flags ?data" if ok: "can_send dip mac s" for mac
  proof -
    have dma: "dma_ok (tx_next s)" using ok by (simp add: can_send_def)
    from tcp_frame_sent [OF ok i buf n, of dport flags, folded k0_def] obtain q t1 t3 where
      q: "new_pkt (sizeof_ether_hdr + sizeof_ip_hdr + tcp_hdr_len k0 + of_nat n) ''tcp_send_pbuf'' ''tcp_send_pbuf_buf'' s = Inr (q, t1)"
        "ip_tx q dip IP_HDR_PROTO_TCP 64 (tcp_filled i q dip dport buf (of_nat n) flags t1) = Inr t3"
      and f: "passed_on ?k s t3" "tcp_frame (mem8 t3) (desc_addr (tx_next s)) mac (hw_addr (netdev s)) (ip_addr (netdev s)) dip k0 dport flags ?data"
        "tcp_frame (mem8 t3) (pb_head (pktbufs t3 q)) mac (hw_addr (netdev s)) (ip_addr (netdev s)) dip k0 dport flags ?data" by blast
    have "q = p" "t1 = s1" using q(1) s3(1) by simp_all
    then have e: "q = p" "t3 = s3" using q(2) s3(2) by simp_all
    note f = f [unfolded e]
    have "unat (desc_addr (tx_next s) + of_nat j) < unat MEM_START" if "j < ?k" for j using dma_low [OF dma, of j] that n h by simp
    then have "bytes_at (mem8 s') (desc_addr (tx_next s)) ?k = bytes_at (mem8 s3) (desc_addr (tx_next s)) ?k"
      using s3(6) by (intro bytes_at_cong) simp
    then have "tcp_frame (mem8 s') (desc_addr (tx_next s)) mac (hw_addr (netdev s)) (ip_addr (netdev s)) dip k0 dport flags ?data"
      using copied_tcp_frame [of "mem8 s'" "desc_addr (tx_next s)" k0 ?data "mem8 s3"] f(2) by simp
    moreover have "passed_on ?k s s'" using f(1) by (simp add: passed_on_def s3(4))
    moreover have "b + of_nat j \<in> region b 1048528" if "j < ?k" for j using in_region [of j 1048528 b] that n h by simp
    then have "bytes_at (mem8 s') b ?k = bytes_at (mem8 s3) b ?k" using s3(3,6) by (intro bytes_at_cong) blast
    ultimately show ?thesis using f(3) copied_tcp_frame [of "mem8 s'" b k0 ?data "mem8 s3" b]
      s'(10) by (simp add: segment_out_def segment_in_packet_def s'(15) s3(5))
  qed
  have b: "tx_blocks s' tx = [tx, p, b]" using s'(9,10) by (simp add: tx_blocks_def kept_def)
  have "queues_ok sockqs (\<lambda>q. squeue q s) (links s) (live s - wq_blocks s ts ws) Q" using inv by (simp add: sock_inv_def)
  then have "set (Q q) \<subseteq> live s" if "q \<in> sockqs" for q using queues_okD(2) [OF _ that] by blast
  then have ap: "tx_apart s' ts' ws Q tx" using s'(2,3,8,13) by (fastforce simp: tx_apart_def b)
  have "set (tx_blocks s' tx) \<inter> live s = {}" "live s \<subseteq> live s'" using s'(2,8) by (auto simp: b)
  note r = s' ap this
  show ?thesis
    by (intro exI [of _ tx] exI [of _ p] exI [of _ l] exI [of _ ts'] exI [of _ s'] conjI) (rule r allI impI out | assumption)+
qed

section \<open>Answering a connection request\<close>

lemma tcp_upd_sent [simp]:
  "can_send dip mac (tcp_upd i f s) = can_send dip mac s" "segment_out (tcp_upd i f s) s' = segment_out s s'"
  "segment_out s (tcp_upd i f s') = segment_out s s'" "segment_in_packet (tcp_upd i f s) = segment_in_packet s"
  "timeout_set h u v d (tcp_upd i f s) ts s' ts' = timeout_set h u v d s ts s' ts'"
  "timeout_set h u v d s ts (tcp_upd i f s') ts' = timeout_set h u v d s ts s' ts'"
  "tx_blocks (tcp_upd i f s) = tx_blocks s" "wq_blocks (tcp_upd i f s) ts ws = wq_blocks s ts ws"
proof -
  have t: "ttick (tcp_upd i f s) = ttick s" by (simp add: ttick_def fun_eq_iff tcp_upd_def)
  show "timeout_set h u v d (tcp_upd i f s) ts s' ts' = timeout_set h u v d s ts s' ts'"
    "timeout_set h u v d s ts (tcp_upd i f s') ts' = timeout_set h u v d s ts s' ts'"
    by (simp_all add: timeout_set_def delayed_def t) (simp_all add: tcp_upd_def)
qed (simp_all add: fun_eq_iff tcp_upd_def can_send_def find_mac_addr_def tx_ready_def nic_ok_def tx_next_def mem_view segment_out_def passed_on_def
      segment_in_packet_def tx_blocks_def wq_blocks_def)

lemma log_sent:
  "segment_out s (printstr_log m s') = segment_out s s'" "segment_in_packet (printstr_log m s') = segment_in_packet s'"
  "timeout_set h u v d s ts (printstr_log m s') ts' = timeout_set h u v d s ts s' ts'"
  "tx_blocks (printstr_log m s') = tx_blocks s'" "wq_blocks (printstr_log m s') ts ws = wq_blocks s' ts ws" "netdev (printstr_log m s') = netdev s'"
  by (subst printstr_log_eq,
      simp add: fun_eq_iff segment_out_def passed_on_def tx_next_def segment_in_packet_def timeout_set_def delayed_def tx_blocks_def wq_blocks_def)+

text \<open>The socket as it answers: the peer's address, port and number are entered.\<close>

definition answering :: "segment \<Rightarrow> tcp_socket \<Rightarrow> tcp_socket" where
  "answering g k = k\<lparr>ts_ack_num := sg_seq g + 1, ts_dip := sg_sip g, ts_dport := sg_sport g\<rparr>"

lemma listen_syn:
  fixes s :: "'a tcp_state_scheme"
  assumes inv: "sock_inv sockqs squeue s ts ws Q" and k: "tables_ok s" and nic: "nic_ok s" and i: "i < TCP_SOCKET_COUNT"
    and av: "6 \<le> avail s" and t: "tick s + 1000 \<noteq> END_TICK" and syn: "has_flag TCP_FLAGS_SYN g"
  defines "k0 \<equiv> tcp_sockets s ! i"
  shows "\<exists>tx p l ts' s'. recv_listen i g s = Inr s' \<and>
           sock_inv sockqs squeue s' ts' ws (Q(TcpTx i := Q (TcpTx i) @ [tx])) \<and> tables_ok s' \<and> nic_ok s' \<and> avail s' = avail s - 6 \<and>
           live s \<subseteq> live s' \<and> kept s' tx (ts_seq_num k0) 0 p \<and> tx_apart s' ts' ws Q tx \<and> netdev s' = netdev s \<and>
           tcp_sockets s' = (tcp_sockets s)[i := (answering g k0)\<lparr>ts_tx_data_list := l, ts_seq_num := ts_seq_num k0 + 1, ts_state := SYN_RCVD\<rparr>] \<and>
           timeout_set TcpAckTimeout (of_int (int i)) (ts_seq_num k0) 1000 s ts s' ts' \<and>
           (\<forall>mac. can_send (sg_sip g) mac s \<longrightarrow>
              segment_out s s' mac (sg_sip g) (answering g k0) (sg_sport g) (TCP_FLAGS_SYN OR TCP_FLAGS_ACK) [] \<and>
              segment_in_packet s' p mac (sg_sip g) (answering g k0) (sg_sport g) (TCP_FLAGS_SYN OR TCP_FLAGS_ACK) [])"
proof -
  have il: "i < length (tcp_sockets s)" using k i by (simp add: tables_ok_def)
  let ?s1 = "tcp_upd i (\<lambda>k. k\<lparr>ts_ack_num := sg_seq g + 1, ts_dip := sg_sip g, ts_dport := sg_sport g\<rparr>) s"
  have i1: "sock_inv sockqs squeue ?s1 ts ws Q" by (rule sock_upd_inv [OF inv]) simp_all
  have tc: "tcp_sockets ?s1 = (tcp_sockets s)[i := answering g k0]" by (simp add: tcp_upd_def answering_def k0_def)
  have pre: "tables_ok ?s1" "nic_ok ?s1" "6 \<le> avail ?s1" "tick ?s1 + RETRANSMIT_ACK_TIMEOUT_MSEC \<noteq> END_TICK"
    using k nic av t by (simp_all add: RETRANSMIT_ACK_TIMEOUT_MSEC_def)
  have k1: "tcp_sockets ?s1 ! i = answering g k0" using il by (simp add: tc)
  have none: "0 < (0 :: nat) \<longrightarrow> in_block ?s1 0 0" "58 + 0 \<le> (8192 :: nat)" "bytes_at (mem8 s) 0 0 = []" "(of_nat 0 :: u32) = 0"
    by (simp_all add: bytes_at_def)
  from tcp_sent_kept [OF i1 pre(1,2) i pre(3) none(1,2) pre(4), of "sg_sip g" "sg_sport g" "TCP_FLAGS_SYN OR TCP_FLAGS_ACK",
      unfolded k1 tcp_upd_sent tcp_upd_fields none(3,4) add_0_right] obtain tx p l ts' s2 where
    s2: "tcp_send (int i) (sg_sip g) (sg_sport g) 0 0 (TCP_FLAGS_SYN OR TCP_FLAGS_ACK) True ?s1 = Inr s2"
      "sock_inv sockqs squeue s2 ts' ws (Q(TcpTx i := Q (TcpTx i) @ [tx]))" "tables_ok s2" "nic_ok s2" "avail s2 = avail s - 6" "live s \<subseteq> live s2"
      "kept s2 tx (ts_seq_num (answering g k0)) 0 p" "tx_apart s2 ts' ws Q tx"
      "tcp_sockets s2 = (tcp_sockets ?s1)[i := (answering g k0)\<lparr>ts_seq_num := ts_seq_num (answering g k0), ts_tx_data_list := l\<rparr>]" "netdev s2 = netdev s"
      "timeout_set TcpAckTimeout (of_int (int i)) (ts_seq_num (answering g k0)) RETRANSMIT_ACK_TIMEOUT_MSEC s ts s2 ts'"
      "\<forall>mac. can_send (sg_sip g) mac s \<longrightarrow>
          segment_out s s2 mac (sg_sip g) (answering g k0) (sg_sport g) (TCP_FLAGS_SYN OR TCP_FLAGS_ACK) [] \<and>
          segment_in_packet s2 p mac (sg_sip g) (answering g k0) (sg_sport g) (TCP_FLAGS_SYN OR TCP_FLAGS_ACK) []"
    by (elim exE conjE) (rule that; assumption)
  let ?f2 = "\<lambda>k. k\<lparr>ts_seq_num := ts_seq_num k + 1, ts_state := SYN_RCVD\<rparr>"
  let ?s3 = "printstr_log (''tcp: LISTEN -> SYN_RCVD'' @ nl) (tcp_upd i ?f2 s2)"
  have "recv_listen i g s = Inr ?s3" using syn s2(1) k1 by (simp add: recv_listen_def Let_def answering_def del: append_Cons)
  moreover have "sock_inv sockqs squeue ?s3 ts' ws (Q(TcpTx i := Q (TcpTx i) @ [tx]))"
    by (rule log_inv, rule sock_upd_inv [OF s2(2)]) simp_all
  moreover have "tcp_sockets ?s3 = (tcp_sockets s)[i := (answering g k0)\<lparr>ts_tx_data_list := l, ts_seq_num := ts_seq_num k0 + 1, ts_state := SYN_RCVD\<rparr>]"
    using il by (simp add: log_fields s2(9) tc tcp_upd_def answering_def k0_def del: append_Cons)
  moreover have "ts_seq_num (answering g k0) = ts_seq_num k0" by (simp add: answering_def)
  ultimately show ?thesis using s2
    by (intro exI [of _ tx] exI [of _ p] exI [of _ l] exI [of _ ts'] exI [of _ ?s3])
      (simp add: log_fields log_sent kept_def tx_apart_def RETRANSMIT_ACK_TIMEOUT_MSEC_def del: append_Cons)
qed

text \<open>
  C10: a connection request to a listening socket is answered and remembered. The handler returns; the socket
  takes the peer's address and port and one more than its sequence number as the number to acknowledge,
  enters \<open>SYN_RCVD\<close> and counts its own SYN; the packet it sent is kept for retransmission under the
  number it was sent with, and a timer of 1000 ticks is set for it; every other socket and queue is as before. When the
  peer's card is known and the card has a free descriptor, the answer is in the transmit ring and in the kept packet: one frame
  to the peer's address and port with SYN and ACK set, the socket's number and one more than the request's. A segment
  without the SYN flag changes nothing.
\<close>

theorem tcp_listen_accepts_syn:
  fixes s :: "'a tcp_state_scheme" and pkt :: addr
  assumes inv: "sock_inv sockqs squeue s ts ws Q" and k: "tables_ok s" and nic: "nic_ok s" and i: "i < 10"
    and av: "6 \<le> avail s" and t: "tick s + 1000 \<noteq> END_TICK" and st: "ts_state (tcp_sockets s ! i) = LISTEN"
  defines "g \<equiv> read_segment pkt s" and "k0 \<equiv> tcp_sockets s ! i"
  shows "(has_flag TCP_FLAGS_SYN g \<longrightarrow>
           (\<exists>tx p l ts' s'. tcp_recv_pkt i pkt s = Inr s' \<and>
              sock_inv sockqs squeue s' ts' ws (Q(TcpTx i := Q (TcpTx i) @ [tx])) \<and> tables_ok s' \<and> nic_ok s' \<and>
              kept s' tx (ts_seq_num k0) 0 p \<and> timeout_set TcpAckTimeout (of_int (int i)) (ts_seq_num k0) 1000 s ts s' ts' \<and>
              tcp_sockets s' = (tcp_sockets s)[i := k0\<lparr>ts_ack_num := sg_seq g + 1, ts_dip := sg_sip g, ts_dport := sg_sport g,
                ts_tx_data_list := l, ts_seq_num := ts_seq_num k0 + 1, ts_state := SYN_RCVD\<rparr>] \<and>
              (\<forall>mac. can_send (sg_sip g) mac s \<longrightarrow>
                 segment_out s s' mac (sg_sip g) (answering g k0) (sg_sport g) (TCP_FLAGS_SYN OR TCP_FLAGS_ACK) [] \<and>
                 segment_in_packet s' p mac (sg_sip g) (answering g k0) (sg_sport g) (TCP_FLAGS_SYN OR TCP_FLAGS_ACK) []))) \<and>
         (\<not> has_flag TCP_FLAGS_SYN g \<longrightarrow> tcp_recv_pkt i pkt s = Inr s)"
proof (intro conjI impI)
  have iC: "i < TCP_SOCKET_COUNT" using i by (simp add: TCP_SOCKET_COUNT_def)
  then have "i < length (tcp_sockets s)" using k by (simp add: tables_ok_def)
  then have rl: "tcp_recv_pkt i pkt s = recv_listen i g s" using st by (simp add: tcp_recv_pkt_def Let_def arr_get_def g_def)
  show "tcp_recv_pkt i pkt s = Inr s" if "\<not> has_flag TCP_FLAGS_SYN g" using that by (simp add: rl recv_listen_def)
  assume "has_flag TCP_FLAGS_SYN g"
  from listen_syn [OF inv k nic iC av t this, folded k0_def, folded rl] show "\<exists>tx p l ts' s'. tcp_recv_pkt i pkt s = Inr s' \<and>
      sock_inv sockqs squeue s' ts' ws (Q(TcpTx i := Q (TcpTx i) @ [tx])) \<and> tables_ok s' \<and> nic_ok s' \<and>
      kept s' tx (ts_seq_num k0) 0 p \<and> timeout_set TcpAckTimeout (of_int (int i)) (ts_seq_num k0) 1000 s ts s' ts' \<and>
      tcp_sockets s' = (tcp_sockets s)[i := k0\<lparr>ts_ack_num := sg_seq g + 1, ts_dip := sg_sip g, ts_dport := sg_sport g,
        ts_tx_data_list := l, ts_seq_num := ts_seq_num k0 + 1, ts_state := SYN_RCVD\<rparr>] \<and>
      (\<forall>mac. can_send (sg_sip g) mac s \<longrightarrow>
         segment_out s s' mac (sg_sip g) (answering g k0) (sg_sport g) (TCP_FLAGS_SYN OR TCP_FLAGS_ACK) [] \<and>
         segment_in_packet s' p mac (sg_sip g) (answering g k0) (sg_sport g) (TCP_FLAGS_SYN OR TCP_FLAGS_ACK) [])"
    by (elim exE conjE) (intro exI conjI, assumption+, simp add: answering_def, assumption)
qed

end
