(* ===== verification/Lock.thy ===== *)
theory Lock
  imports Task
begin

text \<open>
  \<^verbatim>\<open>core/lock.c\<close> and \<open>_test_and_set\<close> of \<^verbatim>\<open>core/asm.s\<close>. The file is not in the object list of the kernel's build and nothing calls it.
  \<open>sti\<close> is not defined anywhere in the repository (the assembler file exports \<open>io_sti\<close>): it is the parameter \<open>sti\<close>.
\<close>

section \<open>The functions\<close>

text \<open>
  \<open>lock bts [rdi], rsi\<close> sets bit number \<open>rsi\<close> of the bit string that starts at \<open>rdi\<close>, the eighth part of the number being an
  offset in bytes; the result is \<open>rsi\<close> if the bit was set before and 0 if not.
\<close>

definition test_and_set :: "addr \<Rightarrow> u64 \<Rightarrow> 'a task_state_scheme \<Rightarrow> u64 \<times> 'a task_state_scheme" where
  "test_and_set mtx val s =
     (let a = mtx + signed_drop_bit 3 val; n = unat (val AND 7) in
      (if bit (mem8 s a) n then val else 0, s\<lparr>mem8 := (mem8 s)(a := set_bit n (mem8 s a))\<rparr>))"

definition mutex_init :: "addr \<Rightarrow> 'a task_state_scheme \<Rightarrow> 'a task_state_scheme" where
  "mutex_init mtx s = s\<lparr>mem8 := (\<lambda>x. if x - mtx < 8 then 0 else mem8 s x)\<rparr>"

text \<open>\<open>while (test_and_set (mtx, 1)) { task_sleep (mtx); }\<close>\<close>

partial_function (option) lock_loop ::
  "('a task_state_scheme \<Rightarrow> 'a task_state_scheme res) \<Rightarrow> addr \<Rightarrow> 'a task_state_scheme \<Rightarrow> 'a task_state_scheme res option" where
  "lock_loop env mtx s =
     (let (r, s1) = test_and_set mtx 1 s in
      if r \<noteq> 0
      then (case task_sleep env (MutexAt mtx) s1 of Inl e \<Rightarrow> Some (Inl e) | Inr s2 \<Rightarrow> lock_loop env mtx s2)
      else Some (Inr s1))"

definition mutex_lock ::
  "('a task_state_scheme \<Rightarrow> 'a task_state_scheme res) \<Rightarrow> ('a task_state_scheme \<Rightarrow> 'a task_state_scheme) \<Rightarrow> addr \<Rightarrow> 'a task_state_scheme
     \<Rightarrow> 'a task_state_scheme res option" where
  "mutex_lock env sti mtx s =
     (let rf = get_rflags s in
      if rf AND 0x0020 \<noteq> 0
      then Some (panic (printstr_app (''Tried to get lock in interruption'' @ nl) s))
      else
        (case lock_loop env mtx (io_cli s) of
           None \<Rightarrow> None
         | Some r \<Rightarrow> Some (bindr r (\<lambda>s1. Inr (sti s1)))))"

definition mutex_unlock :: "addr \<Rightarrow> 'a task_state_scheme \<Rightarrow> 'a task_state_scheme res" where
  "mutex_unlock mtx s = (let (_, s1) = test_and_set mtx 0 s in task_wakeup (MutexAt mtx) s1)"

section \<open>Properties\<close>

text \<open>Bit 1 of the lock word is the bit that \<open>mutex_lock\<close> tests.\<close>

definition locked :: "addr \<Rightarrow> 'a task_state_scheme \<Rightarrow> bool" where
  "locked mtx s = bit (mem8 s mtx) 1"

lemma test_and_set_lock:
  "test_and_set mtx 1 s = (if locked mtx s then 1 else 0, s\<lparr>mem8 := (mem8 s)(mtx := set_bit 1 (mem8 s mtx))\<rparr>)"
  by (simp add: test_and_set_def locked_def)

lemma test_and_set_unlock:
  "test_and_set mtx 0 s = (0, s\<lparr>mem8 := (mem8 s)(mtx := set_bit 0 (mem8 s mtx))\<rparr>)"
  by (simp add: test_and_set_def)

lemma set_bit_keeps: "bit (w :: u8) n \<Longrightarrow> bit (set_bit m w) n"
  by (simp add: bit_set_bit_iff possible_bit_def exp_eq_zero_iff)

lemma init_free: "\<not> locked mtx (mutex_init mtx s)"
  by (simp add: locked_def mutex_init_def)

text \<open>Nobody clears the bit again: unlocking sets another one, and sleeping on the lock keeps it.\<close>

lemma unlock_keeps_locked:
  assumes "locked mtx s" and "mutex_unlock mtx s = Inr s'"
  shows "locked mtx s'"
proof -
  let ?s = "s\<lparr>mem8 := (mem8 s)(mtx := set_bit 0 (mem8 s mtx))\<rparr>"
  have "task_rest ?s s'" using assms(2) by (intro task_wakeup_rest) (simp add: mutex_unlock_def test_and_set_unlock)
  then have "mem8 s' = mem8 ?s" by (auto simp: task_rest_def)
  then show ?thesis using assms(1) by (simp add: locked_def set_bit_keeps)
qed

definition keeps_locked :: "('a task_state_scheme \<Rightarrow> 'a task_state_scheme res) \<Rightarrow> addr \<Rightarrow> bool" where
  "keeps_locked env mtx = (\<forall>t t'. env t = Inr t' \<longrightarrow> locked mtx t \<longrightarrow> locked mtx t')"

lemma sleep_keeps_locked:
  assumes env: "keeps_locked env mtx" and s: "locked mtx s" and call: "task_sleep env cause s = Inr s'"
  shows "locked mtx s'"
proof -
  from call obtain s1 r s2 where s1: "sleep_mark cause (io_cli s) = Inr s1" "schedule s1 = Inr (r, s2)"
    and s': "\<exists>s3. (case r of None \<Rightarrow> Inr s2 | Some _ \<Rightarrow> env s2) = Inr s3 \<and> s' = set_rflags (rflags s) s3"
    by (auto simp: task_sleep_def task_switch_def Let_def get_rflags_def bindr_eq_Inr)
  have "mem8 s1 = mem8 s" using s1(1) by (auto simp: sleep_mark_def Let_def rflags_defs)
  then have "mem8 s2 = mem8 s" using schedule_rest [OF s1(2)] by (auto simp: task_rest_def)
  then have "locked mtx s2" using s by (simp add: locked_def)
  then show ?thesis using s' env by (auto simp: locked_def keeps_locked_def rflags_defs split: option.splits)
qed

lemma lock_loop_stuck: "lock_loop env mtx s = Some r \<Longrightarrow> keeps_locked env mtx \<longrightarrow> locked mtx s \<longrightarrow> (\<exists>e. r = Inl e)"
proof (erule lock_loop.raw_induct [rotated], goal_cases)
  case (1 loop env mtx s r)
  show ?case
  proof (intro impI)
    assume a: "keeps_locked env mtx" "locked mtx s"
    let ?s1 = "s\<lparr>mem8 := (mem8 s)(mtx := set_bit 1 (mem8 s mtx))\<rparr>"
    have t: "test_and_set mtx 1 s = (1, ?s1)" "locked mtx ?s1"
      using a(2) by (simp_all add: test_and_set_lock) (simp add: locked_def set_bit_keeps)
    show "\<exists>e. r = Inl e"
    proof (cases "task_sleep env (MutexAt mtx) ?s1")
      case (Inl e)
      with 1(2) have "Some r = Some (Inl e)" unfolding t(1) Let_def prod.case by (simp only: Inl sum.case) simp
      then show ?thesis by blast
    next
      case (Inr s2)
      then have "loop env mtx s2 = Some r" using 1(2) by (simp add: t(1))
      from 1(1) [OF this] sleep_keeps_locked [OF a(1) t(2) Inr] a(1) show ?thesis by blast
    qed
  qed
qed

text \<open>
  C39: a mutex of this code can be taken once. Taking a free mutex succeeds at once and marks it taken; \<open>mutex_unlock\<close> sets
  bit 0 of the word where \<open>mutex_lock\<close> tests bit 1, so a taken mutex is still taken after it has been released. With
  other tasks that only use these functions no later call of \<open>mutex_lock\<close> ever returns.
\<close>

theorem mutex_taken_once:
  assumes free: "\<not> locked mtx s" and flag: "rflags s AND 0x0020 = 0" and others: "keeps_locked env mtx"
  shows "mutex_lock env sti mtx s = Some (Inr (sti ((io_cli s)\<lparr>mem8 := (mem8 s)(mtx := set_bit 1 (mem8 s mtx))\<rparr>))) \<and>
         locked mtx ((io_cli s)\<lparr>mem8 := (mem8 s)(mtx := set_bit 1 (mem8 s mtx))\<rparr>) \<and>
         (\<forall>s2 s3. locked mtx s2 \<longrightarrow> mutex_unlock mtx s2 = Inr s3 \<longrightarrow> locked mtx s3) \<and>
         (\<forall>s4 s5. locked mtx s4 \<longrightarrow> mutex_lock env sti mtx s4 \<noteq> Some (Inr s5))"
proof -
  have "\<not> locked mtx (io_cli s)" using free by (simp add: locked_def rflags_defs)
  then have "lock_loop env mtx (io_cli s) = Some (Inr ((io_cli s)\<lparr>mem8 := (mem8 s)(mtx := set_bit 1 (mem8 s mtx))\<rparr>))"
    by (subst lock_loop.simps) (simp add: test_and_set_lock Let_def, simp add: rflags_defs)
  then have "mutex_lock env sti mtx s = Some (Inr (sti ((io_cli s)\<lparr>mem8 := (mem8 s)(mtx := set_bit 1 (mem8 s mtx))\<rparr>)))"
    using flag by (simp add: mutex_lock_def get_rflags_def)
  moreover have "mutex_lock env sti mtx s4 \<noteq> Some (Inr s5)" if "locked mtx s4" for s4 s5
  proof
    assume c: "mutex_lock env sti mtx s4 = Some (Inr s5)"
    then obtain r where r: "lock_loop env mtx (io_cli s4) = Some r" "bindr r (\<lambda>s1. Inr (sti s1)) = Inr s5"
      by (auto simp: mutex_lock_def Let_def panic_def split: if_splits option.splits)
    have "locked mtx (io_cli s4)" using that by (simp add: locked_def rflags_defs)
    with lock_loop_stuck [OF r(1)] others r(2) show False by auto
  qed
  moreover have "locked mtx ((io_cli s)\<lparr>mem8 := (mem8 s)(mtx := set_bit 1 (mem8 s mtx))\<rparr>)"
    by (simp add: locked_def rflags_defs bit_set_bit_iff possible_bit_def exp_eq_zero_iff)
  ultimately show ?thesis using unlock_keeps_locked by blast
qed

text \<open>The test for interrupt context looks at bit 5, which is always clear; the interrupt flag is bit 9.\<close>

lemma interrupt_test_misses: "rflags s = RFLAGS_IF OR 2 \<Longrightarrow> rflags s AND 0x0020 = 0"
  by (simp add: RFLAGS_IF_def)

end
