(* ===== verification/Examples.thy ===== *)
theory Examples
  imports User_app Handshake Lock
begin

text \<open>
  Concrete kernel states, and the properties applied to them. \<open>kernel0\<close> is the zeroed memory the boot
  loader leaves; the other states come from it by running the initialisation code of the model.
\<close>

section \<open>States\<close>

definition blank_screen :: SCREEN where
  "blank_screen = \<lparr>sc_width = 0, sc_height = 0, sc_startx = 0, sc_starty = 0, sc_x = 0, sc_y = 0\<rparr>"

definition blank_task :: TASK where
  "blank_task = \<lparr>t_rsp = 0, t_rip = 0, t_flag = 0, t_task_id = 0, t_priority = 0, t_waitcause = NoCause\<rparr>"

definition blank_gate :: idt_gate where
  "blank_gate = set_idt_gate 0 0 0"

definition blank_desc :: ring_desc where
  "blank_desc = \<lparr>opts1 = 0, opts2 = 0, low_buf = 0, high_buf = 0\<rparr>"

definition kernel0 :: tcp_state where
  "kernel0 =
     \<lparr>rflags = 2, io_log = [], mem8 = (\<lambda>_. 0), links = (\<lambda>_. None),
      console = \<lparr>appscreen = blank_screen, logscreen = blank_screen, vram = (\<lambda>_. 0), FONT_ADR = 0, fontmem = (\<lambda>_. 0)\<rparr>,
      freemem = \<lparr>mt_len = 0, mt_addr = replicate MEM_TABLE_SIZE 0\<rparr>,
      memhdrs = (\<lambda>_. \<lparr>mem_flag = 0, mh_name = replicate MAX_MEM_NAME 0, mh_start = 0, mh_size = 0\<rparr>),
      taskctl = \<lparr>current_task = 0, lists = [list_init, list_init], next_task_id = 0, tasks = replicate MAX_TASK blank_task\<rparr>,
      task_links = (\<lambda>_. None), sframes = (\<lambda>_. zero_frame),
      gdt = (\<lambda>_. \<lparr>sd_limit_low = 0, sd_base_low = 0, sd_w2 = 0, sd_w3 = 0\<rparr>),
      gdt_tss = \<lparr>td_limit_low = 0, td_base_low = 0, td_w2 = 0, td_w3 = 0, td_base_high = 0, td_reserved = 0\<rparr>,
      idt = (\<lambda>_. blank_gate), gdtr = \<lparr>tr_size = 0, tr_base = 0\<rparr>, idtr = \<lparr>tr_size = 0, tr_base = 0\<rparr>,
      tss_storage = \<lparr>tss_rsp0l = 0, tss_rsp0h = 0, tss_others = []\<rparr>, tr = 0,
      master_imr = 0, slave_imr = 0,
      timer_list = list_init, tick = 0, timers = (\<lambda>_. \<lparr>te_tick = 0, te_func = None, te_arg = None\<rparr>),
      wq = list_init, works = (\<lambda>_. \<lparr>wt_func = EtherRx, wt_arg = None\<rparr>),
      keys = \<lparr>key_buf = replicate KEY_BUF_LEN 0, key_buf_read = 0, key_buf_write = 0, key_buf_size = 0\<rparr>,
      pktbufs = (\<lambda>_. \<lparr>pkt_len = 0, pb_buf = 0, pb_head = 0\<rparr>),
      netdev = \<lparr>ip_addr = 0, netmask = 0, gw_addr = 0, hw_addr = replicate 6 0, nd_tx = None\<rparr>,
      nic = \<lparr>pcidev = \<lparr>pci_bus = 0, pci_slot = 0, pci_vendor = 0, pci_devid = 0, pci_bar0 = 0, pci_irq = 0\<rparr>,
             cur_rx = 0, cur_tx = 0, rx_ring = replicate RX_RING_SIZE blank_desc,
             tx_ring = replicate TX_RING_SIZE blank_desc, rx_buf = 0x200000, ioaddr = 0\<rparr>,
      arptable = \<lparr>next_entry_idx = 0, table = replicate MAX_ARP_TABLE \<lparr>ae_mac = replicate 6 0, ae_ip = 0\<rparr>\<rparr>,
      rxdatas = (\<lambda>_. \<lparr>rxd_data = 0, rxd_len = 0\<rparr>),
      raw_sockets = replicate RAW_SOCKET_COUNT
        \<lparr>rs_rx_data_list = list_init, rs_wait_id = 0, rs_proto = 0, rs_flag = 0\<rparr>,
      udp_sockets = replicate UDP_SOCKET_COUNT
        \<lparr>us_rx_data_list = list_init, us_wait_id = 0, us_port = 0, us_flag = 0\<rparr>,
      tcp_sockets = replicate TCP_SOCKET_COUNT
        \<lparr>ts_rx_data_list = list_init, ts_tx_data_list = list_init, ts_wait_id = 0, ts_sport = 0, ts_sip = 0,
         ts_dport = 0, ts_dip = 0, ts_flag = 0, ts_seq_num = 0, ts_ack_num = 0, ts_win_size = 0, ts_state = CLOSED\<rparr>,
      txdatas = (\<lambda>_. \<lparr>tx_socket_id = 0, send_seq_num = 0, wait_ack_num = 0, dup_ack_num = 0, tx_txpkt = 0\<rparr>)\<rparr>"

text \<open>Memory initialised.\<close>

definition k_mem :: tcp_state where
  "k_mem = mem_init kernel0"

text \<open>Task 0 runs, task 1 is ready with high priority, task 2 is ready with low priority, task 3 waits for a key.\<close>

definition tasks4 :: TASKCTL where
  "tasks4 =
     \<lparr>current_task = 0,
      lists = [\<lparr>count = 1, head = Some 2, tail = Some 2\<rparr>, \<lparr>count = 1, head = Some 1, tail = Some 1\<rparr>],
      next_task_id = 4,
      tasks = [blank_task\<lparr>t_flag := TASK_RUNNING, t_priority := 1\<rparr>, blank_task\<lparr>t_flag := TASK_RUNNING, t_priority := 1\<rparr>,
               blank_task\<lparr>t_flag := TASK_RUNNING\<rparr>,
               blank_task\<lparr>t_flag := TASK_WAITING, t_priority := 1, t_waitcause := KeyCond\<rparr>] @
              replicate (MAX_TASK - 4) blank_task\<rparr>"

definition queues4 :: "nat \<Rightarrow> nat list" where
  "queues4 p = (if p = TASK_PRIORITY_HIGH then [1] else if p = TASK_PRIORITY_LOW then [2] else [])"

definition k_sched :: tcp_state where
  "k_sched = k_mem\<lparr>taskctl := tasks4, task_links := (\<lambda>_. None)\<rparr>"

definition got :: "'a res \<Rightarrow> 'a \<Rightarrow> 'a" where
  "got r d = (case r of Inl _ \<Rightarrow> d | Inr x \<Rightarrow> x)"

text \<open>The timer list with its sentinel and an empty work queue.\<close>

definition k_wq :: tcp_state where
  "k_wq = wq_init (got (init_timer k_sched) k_sched)"

section \<open>Their invariants\<close>

lemma k_mem_ok: "mem_inv k_mem" "avail k_mem = 1490" "live k_mem = {}"
  using mem_init_inv [of kernel0] by (simp_all add: k_mem_def kernel0_def MEM_BLOCKS_def)

lemma k_mem_fields: "tick k_mem = 0" "keys k_mem = keys kernel0" "links k_mem = (\<lambda>_. None)"
  by (simp_all add: k_mem_def mem_init_def printstr_log_eq kernel0_def split: prod.splits)

lemma tasks4_fields:
  "length (tasks tasks4) = MAX_TASK" "next_task_id tasks4 = 4" "current_task tasks4 = 0"
  "t_flag (tasks tasks4 ! 0) = TASK_RUNNING" "t_priority (tasks tasks4 ! 0) = 1" "length (lists tasks4) = 2"
  "lists tasks4 ! 0 = \<lparr>count = 1, head = Some 2, tail = Some 2\<rparr>"
  "lists tasks4 ! Suc 0 = \<lparr>count = 1, head = Some 1, tail = Some 1\<rparr>"
  by (simp_all add: tasks4_def MAX_TASK_def)

lemma tasks4_ready:
  "p < 2 \<Longrightarrow> set (queues4 p) = {i. i < 4 \<and> i \<noteq> 0 \<and> t_flag (tasks tasks4 ! i) = TASK_RUNNING \<and>
      t_priority (tasks tasks4 ! i) = p}"
  by (auto simp: queues4_def tasks4_def prio_defs less_2_cases less_Suc_eq eval_nat_numeral blank_task_def)

lemma tasks4_prio: "i < 4 \<Longrightarrow> t_priority (tasks tasks4 ! i) < 2"
  by (auto simp: tasks4_def less_Suc_eq eval_nat_numeral blank_task_def)

lemma tasks4_lists: "p < 2 \<Longrightarrow> wf_list (\<lambda>_. None) (lists tasks4 ! p) (queues4 p)"
  unfolding less_2_cases
  by (elim disjE) (simp_all add: wf_list_def tasks4_fields queues4_def prio_defs)

lemma tasks4_ok: "sched_ok tasks4 (\<lambda>_. None) queues4"
  unfolding sched_ok_def tasks4_fields(1,2,3,4,6)
  using tasks4_ready tasks4_prio tasks4_lists by (simp add: MAX_TASK_def queues4_def prio_defs)

lemma k_sched_ok:
  "sched_inv k_sched queues4" "tflag k_sched 0 = TASK_RUNNING" "current_task (taskctl k_sched) = 0"
  "tprio k_sched 0 = TASK_PRIORITY_HIGH" "next_task_id (taskctl k_sched) = 4"
  "mem_inv k_sched" "avail k_sched = 1490" "live k_sched = {}" "sched_fine k_sched"
  using tasks4_ok k_mem_ok
  by (auto simp: k_sched_def sched_view mem_view sched_fine_def)
    (simp_all add: tflag_def tprio_def cur_running_def tasks4_fields prio_defs)

lemma k_wq_ok:
  "\<exists>a. wq_inv k_wq [a] []" "avail k_wq = 1489" "tick k_wq = 0" "sched_fine k_wq"
  "key_reps (keys k_wq) []"
proof -
  obtain a s' where s': "init_timer k_sched = Inr s'" "timer_inv s' [a]" "avail s' = 1489"
    using init_timer_ok [OF k_sched_ok(6)] k_sched_ok(7) by auto
  have eq: "taskctl s' = taskctl k_sched" "task_links s' = task_links k_sched" "tick s' = tick k_sched"
    "keys s' = keys k_sched"
    using s'(1) by (auto simp: init_timer_def Let_def printstr_log_eq dest!: mem_alloc_rest simp: mem_rest_def)
  have k: "k_wq = wq_init s'" using s'(1) by (simp add: k_wq_def got_def)
  show fine: "sched_fine k_wq"
    using k_sched_ok(9) eq by (simp add: k wq_init_def printstr_log_eq sched_fine_def)
  then show "\<exists>a. wq_inv k_wq [a] []" using wq_init_ok [OF s'(2)] wq_boot [of k_wq a] k by auto
  show "avail k_wq = 1489" "tick k_wq = 0"
    using s'(3) eq by (simp_all add: k wq_init_def printstr_log_eq mem_view k_sched_def k_mem_fields)
  show "key_reps (keys k_wq) []"
    using eq by (simp add: k wq_init_def printstr_log_eq k_sched_def k_mem_fields kernel0_def key_reps_def
        key_inv_def key_content_def KEY_BUF_LEN_def)
qed

section \<open>The properties applied\<close>

subsection \<open>Library\<close>

definition chain :: "nat \<Rightarrow> nat linkmap" where
  "chain n i = (if Suc i < n then Some (Suc i) else None)"

definition chain_ctl :: "nat \<Rightarrow> nat listctl" where
  "chain_ctl n = \<lparr>count = of_nat n, head = (if n = 0 then None else Some 0), tail = Some (n - 1)\<rparr>"

lemma chain_path: "m < n \<Longrightarrow> lpath (chain n) (Some m) [m..<n]"
proof (induction "n - m" arbitrary: m)
  case 0
  then show ?case by simp
next
  case (Suc d)
  have "[m..<n] = m # [Suc m..<n]" using Suc.prems by (simp add: upt_conv_Cons)
  moreover have "lpath (chain n) (chain n m) [Suc m..<n]"
  proof (cases "Suc m < n")
    case True
    then show ?thesis using Suc.hyps(1) [of "Suc m"] Suc.hyps(2) by (simp add: chain_def)
  next
    case False
    then show ?thesis by (simp add: chain_def)
  qed
  ultimately show ?case by simp
qed

lemma chain_wf: "0 < n \<Longrightarrow> n < 65536 \<Longrightarrow> wf_list (chain n) (chain_ctl n) [0..<n]"
  using chain_path [of 0 n] by (auto simp: wf_list_def chain_ctl_def)

lemma chain3_wf: "wf_list (chain 3) (chain_ctl 3) [0, 1, 2]"
proof -
  have "[0..<3] = [0, 1, 2 :: nat]" by (simp add: upt_rec)
  moreover have "wf_list (chain 3) (chain_ctl 3) [0..<3]" by (rule chain_wf) simp_all
  ultimately show ?thesis by (simp only:)
qed

theorem list_fifo_witness:
  "\<exists>q1 q2. push_all klist_push [7, 8, 9] (chain_ctl 3, chain 3) = Inr q1 \<and>
     pop_n klist_pop 6 q1 = Inr ([0, 1, 2, 7, 8, 9], q2) \<and> list_empty (fst q2)"
proof -
  have len: "length [0, 1, 2 :: nat] + length [7, 8, 9 :: nat] = 6" by simp
  show ?thesis using list_fifo [OF chain3_wf, of "[7, 8, 9]"] unfolding len by (simp del: push_all.simps)
qed

theorem list_insert_remove_witness:
  "\<exists>l1 nx1 l2 nx2. list_insert (chain_ctl 3) (Some 1) 7 (chain 3) = (l1, nx1) \<and>
     list_remove l1 (Some 1) nx1 = (l2, nx2) \<and> wf_list nx1 l1 [0, 1, 7, 2] \<and> wf_list nx2 l2 [0, 1, 2]"
proof -
  obtain l1 nx1 where 1: "list_insert (chain_ctl 3) (Some 1) 7 (chain 3) = (l1, nx1)" by fastforce
  obtain l2 nx2 where 2: "list_remove l1 (Some 1) nx1 = (l2, nx2)" by fastforce
  have "wf_list (chain 3) (chain_ctl 3) ([0] @ 1 # [2])" using chain3_wf by simp
  from list_insert_remove [OF this _ _ _ 1 2] 1 2 show ?thesis by auto
qed

theorem list_count_wraps_witness:
  "\<exists>l' nx'. list_pushback (chain_ctl 65535) 70000 (chain 65535) = Inr (l', nx') \<and>
     count l' = 0 \<and> list_empty l' \<and> list_head l' = Some 0"
proof -
  have wf: "wf_list (chain 65535) (chain_ctl 65535) [0..<65535]" by (rule chain_wf) simp_all
  obtain l' nx' where p: "list_pushback (chain_ctl 65535) 70000 (chain 65535) = Inr (l', nx')"
    by (simp add: list_pushback_def chain_ctl_def list_empty_def Let_def)
  have "list_head (chain_ctl 65535) = Some 0" by (simp add: list_head_def chain_ctl_def)
  with list_count_wraps [OF wf _ p] p show ?thesis by simp
qed

definition text_mem :: bytes where
  "text_mem a = (if a < 3 then 65 + ucast a else 0)"

theorem memcpy_correct_witness:
  "bytes_at (memcpy 100 0 3 text_mem) 100 3 = [65, 66, 67] \<and> memcpy 100 0 3 text_mem 1 = 66"
proof -
  have "region 100 (unat (3 :: u32)) \<inter> region 0 (unat (3 :: u32)) = {}"
    by (auto simp: region_def lessThan_nat_numeral lessThan_Suc)
  from memcpy_correct [OF this, of text_mem]
  have c: "bytes_at (memcpy 100 0 3 text_mem) 100 3 = bytes_at text_mem 0 3"
    and f: "\<And>a. a \<notin> region 100 3 \<Longrightarrow> memcpy 100 0 3 text_mem a = text_mem a" by simp_all
  have "memcpy 100 0 3 text_mem 1 = text_mem 1"
    by (rule f) (auto simp: region_def lessThan_nat_numeral lessThan_Suc)
  with c show ?thesis by (simp add: bytes_at_def text_mem_def upt_rec)
qed

theorem strlen_correct_witness: "cstr text_mem 0 [65, 66, 67] \<and> strlen 0 text_mem = Some 3"
proof -
  have "cstr text_mem 0 [65, 66, 67]" by (simp add: cstr_def bytes_at_def text_mem_def upt_rec)
  with strlen_correct [OF this] show ?thesis by simp
qed

theorem screens_independent_witness:
  "wf_console (console (printstr AppScreen [72, 105] (initscreen kernel0))) \<and>
   get_screen LogScreen (console (printstr AppScreen [72, 105] (initscreen kernel0))) =
     get_screen LogScreen (console (initscreen kernel0))"
  using screens_independent [OF initscreen_wf, of AppScreen LogScreen "[72, 105]" kernel0] by simp

subsection \<open>Memory and tasks\<close>

theorem mem_alloc_exhausts_witness:
  "\<exists>as s'. alloc_n mem_alloc 1490 32 ''x'' (mem_init kernel0) = Inr (as, s') \<and> length as = 1490 \<and>
     distinct as \<and> live s' = set as \<and> mem_alloc 32 ''x'' s' = Inl Panic"
  using mem_alloc_exhausts [of kernel0 32 "''x''"] by (simp add: kernel0_def MEM_GRANULARITY_def)

theorem mem_alloc_free_restores_witness:
  "\<exists>a s1 s2. mem_alloc 100 ''x'' k_mem = Inr (a, s1) \<and> mem_free a s1 = Inr s2 \<and> avail s2 = 1490"
  using mem_alloc_free_restores [OF k_mem_ok(1), of 100 "''x''"] k_mem_ok(2) by (auto simp: MEM_GRANULARITY_def)

theorem mem_blocks_disjoint_witness:
  "\<exists>a b s1 s2. mem_alloc 100 ''x'' k_mem = Inr (a, s1) \<and> mem_alloc 100 ''y'' s1 = Inr (b, s2) \<and>
     region a 1048528 \<inter> region b 1048528 = {} \<and> (\<exists>s3. mem_free a s2 = Inr s3)"
proof -
  have len: "length (mt_addr (freemem kernel0)) = MEM_TABLE_SIZE" by (simp add: kernel0_def)
  have gr: "ucast (100 :: u32) \<le> MEM_GRANULARITY" by (simp add: MEM_GRANULARITY_def)
  note step = mem_blocks_disjoint [OF len]
  have more: "\<exists>a s'. mem_alloc 100 nm s = Inr (a, s') \<and> a \<notin> set H" if "mem_run kernel0 H s" "length H < 1490" for H s nm
    using step [OF that(1)] that(2) gr by blast
  have r0: "mem_run kernel0 [] k_mem" unfolding k_mem_def by (rule mem_run.start)
  obtain a s1 where 1: "mem_alloc 100 ''x'' k_mem = Inr (a, s1)" using more [OF r0, of "''x''"] by auto
  have r1: "mem_run kernel0 [a] s1" by (rule mem_run.alloc [OF r0 1])
  obtain b s2 where 2: "mem_alloc 100 ''y'' s1 = Inr (b, s2)" "b \<noteq> a" using more [OF r1, of "''y''"] by auto
  note d = step [OF mem_run.alloc [OF r1 2(1)]]
  have "region a 1048528 \<inter> region b 1048528 = {}" using d [THEN conjunct2, THEN conjunct1] 2(2) by simp
  moreover have "\<exists>s3. mem_free a s2 = Inr s3" using d [THEN conjunct2, THEN conjunct2, THEN conjunct2, THEN conjunct2, THEN conjunct2] by simp
  ultimately show ?thesis using 1 2(1) by blast
qed

theorem mem_accounting_witness:
  "avail k_mem + card (live k_mem) = 1490 \<and> mem_free (mem_block 5 + sizeof_memhdr) k_mem = Inl Panic"
proof -
  have "mem_block 5 \<in> mem_blocks" by (auto simp: mem_blocks_def MEM_BLOCKS_def)
  with mem_accounting [OF k_mem_ok(1)] k_mem_ok(3) show ?thesis by auto
qed

theorem schedule_refines_witness:
  "\<exists>r s' q'. schedule k_sched = Inr (r, s') \<and> sched_inv s' q' \<and> current_task (taskctl s') = 1 \<and>
     q' TASK_PRIORITY_HIGH = [0] \<and> q' TASK_PRIORITY_LOW = [2]"
proof -
  from schedule_refines [OF k_sched_ok(1)] k_sched_ok(2,3,4) obtain r s' q' where
    "schedule k_sched = Inr (r, s')" "sched_inv s' q'" and
    q: "(current_task (taskctl s'), q') = abs_schedule False TASK_PRIORITY_HIGH (0, queues4)" by auto
  moreover have "current_task (taskctl s') = 1" "q' TASK_PRIORITY_HIGH = [0]" "q' TASK_PRIORITY_LOW = [2]"
    using q by (auto simp: abs_schedule_def queues4_def prio_defs)
  ultimately show ?thesis by blast
qed

theorem scheduler_invariant_witness:
  "\<exists>s' q. (sched_step 2)\<^sup>*\<^sup>* k_sched s' \<and> sched_inv s' q \<and> current_task (taskctl s') = 1 \<and>
     tflag s' 1 = TASK_RUNNING"
proof -
  from schedule_ok [OF k_sched_ok(1)] k_sched_ok(2,3,4) obtain r s' where
    s': "schedule k_sched = Inr (r, s')" "current_task (taskctl s') = 1"
    by (auto simp: abs_schedule_def queues4_def prio_defs)
  have step: "(sched_step 2)\<^sup>*\<^sup>* k_sched s'" using s'(1) by (auto intro: sched_step.tick)
  have "tflag k_sched 2 = TASK_RUNNING" "tprio k_sched 2 = TASK_PRIORITY_LOW"
    by (simp_all add: k_sched_def tflag_def tprio_def tasks4_def blank_task_def prio_defs)
  then have "sched_good 2 k_sched" using k_sched_ok by (auto simp: sched_good_def)
  from scheduler_invariant [OF step this] step s'(2) show ?thesis by auto
qed

theorem round_robin_witness:
  "\<exists>s'. sched_n 2 k_sched = Inr ([1, 0], s') \<and> current_task (taskctl s') = 0"
proof -
  have "tflag k_sched (current_task (taskctl k_sched)) = TASK_RUNNING"
    "tprio k_sched (current_task (taskctl k_sched)) = TASK_PRIORITY_HIGH"
    "queues4 TASK_PRIORITY_HIGH = [1]"
    using k_sched_ok by (simp_all add: queues4_def)
  with round_robin [OF k_sched_ok(1)] k_sched_ok(3) show ?thesis by (auto simp: numeral_2_eq_2)
qed

theorem task_wakeup_wakes_witness:
  "\<exists>s'. task_wakeup KeyCond k_sched = Inr s' \<and> tflag s' 3 = TASK_RUNNING \<and> rflags s' = rflags k_sched"
proof -
  have "woken k_sched KeyCond 3"
    by (simp add: woken_def k_sched_def tflag_def tcause_def tasks4_def)
  with task_wakeup_wakes [OF k_sched_ok(1), of KeyCond] k_sched_ok(2,3,5) show ?thesis by auto
qed

theorem task_start_enqueues_witness:
  "\<exists>stack s'. task_start 0x1234 1 True k_sched = Inr (4, s') \<and> sched_inv s' (queues4(1 := [1, 4])) \<and>
     stack \<notin> live k_sched \<and> live s' = insert stack (live k_sched)"
proof -
  have "queues4 1 = [1]" by (simp add: queues4_def prio_defs)
  with task_start_enqueues [OF k_sched_ok(1,6), of 1 "0x1234" True] k_sched_ok(5,7) show ?thesis
    by (auto simp: MAX_TASK_def)
qed

subsection \<open>Descriptors, interrupts, timers, work and keys\<close>

theorem segment_roundtrip_witness:
  "seg_base (set_gdt_seg_desc 0x12345678 0xabcde 10 3 1 0 1) = 0x12345678 \<and>
   seg_limit (set_gdt_seg_desc 0x12345678 0xabcde 10 3 1 0 1) = 0xabcde \<and>
   seg_dpl (set_gdt_seg_desc 0x12345678 0xabcde 10 3 1 0 1) = 3"
  using segment_roundtrip [of 1 0 1 "0x12345678" "0xabcde" 10 3] by simp

theorem register_interrupt_correct_witness:
  "line_open (register_interrupt 11 0x4000 (init_pic kernel0)) 11 \<and>
   gate_offset (idt (register_interrupt 11 0x4000 (init_pic kernel0)) 43) = 0x4000"
  using register_interrupt_correct [OF _ init_pic_synced, of 11 "0x4000" kernel0] by simp

theorem set_timer_sorted_witness:
  "\<exists>a b s'. set_timer WqPushTimerFunc None 5 k_wq = Inr s' \<and> timer_inv s' [a, b] \<and> ttick s' a = 5 \<and>
     ttick s' b = END_TICK"
proof -
  obtain b where b: "wq_inv k_wq [b] []" using k_wq_ok(1) by blast
  then have t: "timer_inv k_wq [b]" "ttick k_wq b = END_TICK" by (auto simp: wq_inv_def timer_inv_def)
  have "tick k_wq + 5 \<noteq> END_TICK" by (simp add: k_wq_ok END_TICK_def)
  with set_timer_sorted [OF t(1), of 5 WqPushTimerFunc None] k_wq_ok(2,3) obtain a s' where
    s': "set_timer WqPushTimerFunc None 5 k_wq = Inr s'" "timer_inv s' (timer_insort (ttick k_wq) 5 a [b])"
    "ttick s' = (ttick k_wq)(a := 5)" by auto
  have "timer_insort (ttick k_wq) 5 a [b] = [a, b]" using t(2) by (simp add: timer_insort_def END_TICK_def word_le_nat_alt)
  with s' have inv: "timer_inv s' [a, b]" by simp
  then have "a \<noteq> b" using wf_list_distinct [of "links s'" "timer_list s'" "[a, b]"] by (simp add: timer_inv_def)
  with inv s' t(2) show ?thesis by (intro exI [of _ a] exI [of _ b] exI [of _ s']) simp
qed

theorem wq_delay_parks_witness:
  "\<exists>ts w a s'. wq_push_with_delay EtherRx None 3 k_wq = Inr s' \<and> wq_inv s' ts [] \<and>
     te_tick (timers s' a) = 3 \<and> te_arg (timers s' a) = Some w \<and> avail s' = 1487"
proof -
  obtain b where b: "wq_inv k_wq [b] []" using k_wq_ok(1) by blast
  have "tick k_wq + 3 \<noteq> END_TICK" by (simp add: k_wq_ok END_TICK_def)
  with wq_delay_parks [OF b, of 3 EtherRx None] k_wq_ok(2,3) show ?thesis by auto
qed

theorem wq_push_execute_witness:
  "\<exists>ts a s'. wq_push EtherRx (Some 5) k_wq = Inr s' \<and> wq_inv s' ts [a] \<and>
     works s' a = \<lparr>wt_func = EtherRx, wt_arg = Some 5\<rparr> \<and>
     (\<exists>s1. wq_execute (\<lambda>_ _ s. Inr s) s' = mem_free a s1)"
proof -
  obtain b where b: "wq_inv k_wq [b] []" using k_wq_ok(1) by blast
  from wq_push_execute [OF b, of EtherRx "Some 5" "\<lambda>_ _ s. Inr s"] k_wq_ok(2) show ?thesis by auto
qed

theorem int_pit_delivers_witness:
  "\<exists>s1 s2 ts w. wq_push_with_delay EtherRx None 1 k_wq = Inr s1 \<and>
     int_pit Inr (wq_call (\<lambda>_ _ s. Inr s)) s1 = Inr s2 \<and> wq_inv s2 ts [w] \<and>
     works s1 w = \<lparr>wt_func = EtherRx, wt_arg = None\<rparr>"
proof -
  obtain b where b: "wq_inv k_wq [b] []" using k_wq_ok(1) by blast
  then have tb: "ttick k_wq b = END_TICK" by (auto simp: wq_inv_def timer_inv_def)
  have "tick k_wq + 1 \<noteq> END_TICK" "2 \<le> avail k_wq" by (simp_all add: k_wq_ok END_TICK_def)
  from wq_push_with_delay_ok [OF b this(2,1), of EtherRx None] k_wq_ok(3) obtain w a s1 where
    s1: "wq_push_with_delay EtherRx None 1 k_wq = Inr s1" "wq_inv s1 (timer_insort (ttick k_wq) 1 a [b]) []"
    "timers s1 = (timers k_wq)(a := \<lparr>te_tick = 1, te_func = Some WqPushTimerFunc, te_arg = Some w\<rparr>)"
    "works s1 = (works k_wq)(w := \<lparr>wt_func = EtherRx, wt_arg = None\<rparr>)" "tick s1 = 0" by auto
  have "timer_insort (ttick k_wq) 1 a [b] = [a, b]" using tb by (simp add: timer_insort_def END_TICK_def word_le_nat_alt)
  with s1(2) have inv: "wq_inv s1 [a, b] []" by simp
  then have "ttick s1 b = END_TICK" by (simp add: wq_inv_def timer_inv_def)
  then have due: "takeWhile (\<lambda>x. ttick s1 x \<le> 1) [a, b] = [a]" and arg: "te_arg (timers s1 a) = Some w"
    using s1(3) by (simp_all add: END_TICK_def word_le_nat_alt) (simp add: ttick_def)
  have "tick s1 + 1 \<noteq> END_TICK" "(tick s1 + 1) mod 10 \<noteq> 0" using s1(5) by (simp_all add: END_TICK_def)
  with int_pit_delivers [OF inv, of Inr "\<lambda>_ _ s. Inr s"] obtain s2 where
    s2: "int_pit Inr (wq_call (\<lambda>_ _ s. Inr s)) s1 = Inr s2" "due_delivered (pic_sendeoi PIT_IRQ s1\<lparr>tick := tick s1 + 1\<rparr>) [a, b] [] s2" by blast
  have "tick (pic_sendeoi PIT_IRQ s1\<lparr>tick := tick s1 + 1\<rparr>) = 1" "timers (pic_sendeoi PIT_IRQ s1\<lparr>tick := tick s1 + 1\<rparr>) = timers s1"
    "ttick (pic_sendeoi PIT_IRQ s1\<lparr>tick := tick s1 + 1\<rparr>) = ttick s1"
    using s1(5) by (simp_all add: pic_sendeoi_def io_defs ttick_def fun_eq_iff)
  with s2(2) due arg have "wq_inv s2 [b] [w]" using \<open>ttick s1 b = END_TICK\<close> by (auto simp: due_delivered_def Let_def END_TICK_def split: if_splits)
  with s1 s2(1) show ?thesis by auto
qed

theorem key_ring_bounded_fifo_witness:
  "\<exists>r1 r2. push_all key_buf_push [104, 105] (keys k_wq) = Inr r1 \<and>
     pop_n key_ring_pop 2 r1 = Inr ([104, 105], r2)"
  using key_ring_bounded_fifo [OF k_wq_ok(5), of "[104, 105]"]
  by (auto simp: numeral_2_eq_2 simp del: push_all.simps pop_n.simps)

theorem int_keyboard_appends_witness:
  "\<exists>s'. int_keyboard 0x1e k_wq = Inr s' \<and> key_reps (keys s') [97]"
proof -
  have "decode_key 0x1e = Some 97"
    by (simp add: decode_key_def KEY_TABLE_SIZE_def keytable_def byte_of_def)
  with int_keyboard_appends [OF k_wq_ok(5,4), of "0x1e"] show ?thesis by auto
qed

theorem checksum_accepted_witness:
  "checksum 0x1000 20 (wr16 (0x1000 + of_nat (2 * 5)) (checksum 0x1000 20 (\<lambda>_. 0)) (\<lambda>_. 0)) = 0"
  by (rule checksum_accepted) (simp_all add: rd16_def)

subsection \<open>The network\<close>

text \<open>
  The card driven, address 10.0.0.2/24 behind gateway 10.0.0.1, one host 10.0.0.7 in the address table. The
  first receive descriptor holds a frame of 64 bytes, the others belong to the card.
\<close>

definition host_mac :: "u8 list" where
  "host_mac = [2, 0, 0, 0, 0, 7]"

definition rx_descs :: "ring_desc list" where
  "rx_descs = blank_desc\<lparr>opts1 := 64, low_buf := 0x200000\<rparr> # replicate 1023 (blank_desc\<lparr>opts1 := DescOwn\<rparr>)"

definition wire :: "tcp_state \<Rightarrow> tcp_state" where
  "wire s =
     s\<lparr>netdev := \<lparr>ip_addr = 0x0a000002, netmask = 24, gw_addr = 0x0a000001, hw_addr = [2, 0, 0, 0, 0, 2],
                 nd_tx = Some R8169Tx\<rparr>,
       nic := (nic s)\<lparr>cur_rx := 0, cur_tx := 0, rx_ring := rx_descs, tx_ring := replicate TX_RING_SIZE blank_desc\<rparr>,
       arptable := \<lparr>next_entry_idx = 1, table = \<lparr>ae_mac = host_mac, ae_ip = 0x0a000007\<rparr> #
                                            replicate 255 \<lparr>ae_mac = replicate 6 0, ae_ip = 0\<rparr>\<rparr>\<rparr>"

lemma wire_fields:
  "nic_ok (wire s)" "arp_ok (wire s)" "length (hw_addr (netdev (wire s))) = 6" "ip_addr (netdev (wire s)) = 0x0a000002"
  "mem8 (wire s) = mem8 s" "pktbufs (wire s) = pktbufs s" "find_mac_addr 0x0a000007 (wire s) = Some host_mac"
  "find_mac_addr 0x0a000009 (wire s) = None" "live (wire s) = live s" "avail (wire s) = avail s"
  "wq_inv (wire s) ts ws = wq_inv s ts ws" "rx_ring (nic (wire s)) = rx_descs" "cur_rx (nic (wire s)) = 0"
  "next_entry_idx (arptable (wire s)) = 1" "mem_inv (wire s) = mem_inv s"
  "nexthop (netdev (wire s)) 0x0a000007 = 0x0a000007" "tx_ring (nic (wire s)) ! 0 = blank_desc" "cur_tx (nic (wire s)) = 0"
  by (simp_all add: wire_def nic_ok_def arp_ok_def rx_descs_def RX_RING_SIZE_def TX_RING_SIZE_def MAX_ARP_TABLE_def
      find_mac_addr_def mem_view wq_view nexthop_def)

definition k_net :: tcp_state where
  "k_net = wire k_wq"

lemma k_net_ready: "\<exists>a. wq_inv k_net [a] []" "n \<le> 1489 \<Longrightarrow> tx_ready n k_net"
  using k_wq_ok by (auto simp: k_net_def wire_fields tx_ready_def wq_inv_mem)

theorem receive_packet_delivers_witness:
  "\<exists>a w s'. receive_packet (\<lambda>_. 0) k_net = Inr s' \<and> wq_inv s' [a] [w] \<and>
     delivered k_net (blank_desc\<lparr>opts1 := 64, low_buf := 0x200000\<rparr>) s' w \<and> avail s' = 1486"
proof -
  let ?d = "blank_desc\<lparr>opts1 := 64, low_buf := 0x200000\<rparr>"
  obtain a where a: "wq_inv k_net [a] []" using k_net_ready(1) by blast
  have f: "nic_ok k_net" "avail k_net = 1489" "rx_ring (nic k_net) = rx_descs" "cur_rx (nic k_net) = 0"
    by (simp_all add: k_net_def wire_fields k_wq_ok)
  have fr: "has_frame ?d" by (simp add: has_frame_def owned_def dma_ok_def desc_addr_def DescOwn_def blank_desc_def MEM_START_def)
  have d0: "rx_descs ! 0 = ?d" "owned (rx_descs ! 1)"
    by (simp_all add: rx_descs_def owned_def DescOwn_def)
  from receive_packet_delivers [OF a f(1), of 1 "\<lambda>_. 0"] f d0 fr obtain "is" s' where
    "receive_packet (\<lambda>_. 0) k_net = Inr s'" "wq_inv s' [a] is" "length is = 1" "delivered k_net ?d s' (is ! 0)" "avail s' = 1486"
    by (auto simp: slot_def)
  then show ?thesis by (cases "is") auto
qed

theorem r8169_tx_ring_witness:
  "\<exists>m. r8169_tx 0x1000 k_net =
     Inr (k_net\<lparr>mem8 := m, nic := (nic k_net)\<lparr>tx_ring := (tx_ring (nic k_net))[0 := tx_desc_sent 0
              (pkt_len (pktbufs k_net 0x1000)) blank_desc], cur_tx := 1\<rparr>,
          io_log := io_log k_net @ [Out8 (reg_port (ioaddr (nic k_net)) 0x38) 0x40]\<rparr>)"
proof -
  have f: "nic_ok k_net" "tx_ring (nic k_net) ! 0 = blank_desc" "cur_tx (nic k_net) = 0" by (simp_all add: k_net_def wire_fields)
  have "\<not> owned blank_desc" "ring_next 0 = 1" by (simp_all add: owned_def blank_desc_def ring_next_def)
  with r8169_tx_ring [OF f(1), of "0x1000"] f(2,3) show ?thesis by (auto simp: Let_def)
qed

theorem rx_ring_initialised_witness:
  "desc_addr (rx_ring (nic (setup_rx_descriptors kernel0)) ! 2) = rx_buf (nic kernel0) + 2 * 1536 \<and>
   owned (rx_ring (nic (setup_rx_descriptors kernel0)) ! 2)"
  using rx_ring_initialised [of 2 kernel0] by (simp add: Let_def)

text \<open>A frame in memory at \<open>a\<close>: a request for 10.0.0.2 from 10.0.0.9.\<close>

definition arp_mem :: "addr \<Rightarrow> bytes" where
  "arp_mem a = arp_etherip (a + 8) [2, 0, 0, 0, 0, 9] (hton32 0x0a000009) (replicate 6 0) (hton32 0x0a000002)
     (arp_hdr a ARP_OP_REQUEST (\<lambda>_. 0))"

lemma k_net_mem: "tx_ready 2 (k_net\<lparr>mem8 := m\<rparr>)" "arp_ok (k_net\<lparr>mem8 := m\<rparr>)"
  "find_mac_addr x (k_net\<lparr>mem8 := m\<rparr>) = find_mac_addr x k_net"
  using k_net_ready(2) [of 2] by (simp_all add: tx_ready_def mem_view nic_ok_def arp_ok_def find_mac_addr_def k_net_def wire_def
      MAX_ARP_TABLE_def)

lemma len_replicate: "length (replicate 6 x) = 6"
  by simp

theorem arp_request_answered_witness:
  "\<exists>s'. handle_arp_request 0x1008 (k_net\<lparr>mem8 := arp_mem 0x1000\<rparr>) = Inr s' \<and>
     find_mac_addr 0x0a000009 s' = Some [2, 0, 0, 0, 0, 9] \<and> find_mac_addr 0x0a000007 s' = Some host_mac \<and>
     arp_frame (mem8 s') 0 [2, 0, 0, 0, 0, 9] [2, 0, 0, 0, 0, 2] ARP_OP_RESPONSE 0x0a000002 0x0a000009"
proof -
  let ?s = "k_net\<lparr>mem8 := arp_mem 0x1000\<rparr>"
  have l6: "length [2, 0, 0, 0, 0, 9 :: u8] = 6" by simp
  note l = arp_layout [OF l6 len_replicate, of "0x1000" "hton32 0x0a000009" 0 "hton32 0x0a000002" ARP_OP_REQUEST "\<lambda>_. 0",
      folded arp_mem_def, simplified]
  have f: "unat (next_entry_idx (arptable ?s)) < 256" "ip_addr (netdev ?s) = 0x0a000002" "hw_addr (netdev ?s) = [2, 0, 0, 0, 0, 2]"
    "find_mac_addr 0x0a000009 k_net = None" "find_mac_addr 0x0a000007 k_net = Some host_mac" "tx_next ?s = blank_desc"
    by (simp_all add: k_net_def wire_fields tx_next_def) (simp add: wire_def)
  have d: "\<not> owned blank_desc" "dma_ok blank_desc" "desc_addr blank_desc = 0"
    by (simp_all add: owned_def dma_ok_def desc_addr_def blank_desc_def MEM_START_def)
  have "ntoh32 (rd32 (mem8 ?s) (0x1008 + 16)) = ip_addr (netdev ?s)" using l f(2) by simp
  from arp_request_answered [OF k_net_mem(1,2) f(1) this, unfolded f(2,3,6) d(3)] obtain s' where
    s': "handle_arp_request 0x1008 ?s = Inr s'"
    "\<And>x. find_mac_addr x s' =
       (case find_mac_addr x ?s of
          Some old \<Rightarrow> Some old
        | None \<Rightarrow> if x = ntoh32 (rd32 (mem8 ?s) (0x1008 + 6)) then Some (bytes_at (mem8 ?s) 0x1008 6) else None)"
    "arp_frame (mem8 s') 0 (bytes_at (mem8 ?s) 0x1008 6) [2, 0, 0, 0, 0, 2] ARP_OP_RESPONSE 0x0a000002 (ntoh32 (rd32 (mem8 ?s) (0x1008 + 6)))"
    using d(1,2) by auto
  then show ?thesis using l f(4,5) by (intro exI [of _ s']) (simp add: k_net_mem(3))
qed

theorem arp_frame_roundtrip_witness:
  "\<exists>s2. arp_rx 0x2000 (kernel0\<lparr>mem8 := arp_mem 0\<rparr>) = handle_arp_request 8 s2 \<and>
     bytes_at (mem8 s2) 8 6 = [2, 0, 0, 0, 0, 9] \<and> rd32 (mem8 s2) 24 = hton32 0x0a000002"
proof -
  have l6: "length [2, 0, 0, 0, 0, 9 :: u8] = 6" by simp
  have 0: "pb_buf (pktbufs (kernel0\<lparr>mem8 := arp_mem 0\<rparr>) 0x2000) = 0" by (simp add: kernel0_def)
  from arp_frame_roundtrip [OF l6 len_replicate, of "kernel0\<lparr>mem8 := arp_mem 0\<rparr>" "0x2000" "hton32 0x0a000009" 0
      "hton32 0x0a000002" ARP_OP_REQUEST "\<lambda>_. 0"]
  show ?thesis unfolding 0 by (simp add: arp_mem_def) blast
qed

theorem ip_tx_correct_witness:
  "\<exists>s' s3. ip_tx 0x1000 0x0a000007 IP_HDR_PROTO_UDP 64 k_net = Inr s' \<and>
     ip_tx 0x1000 0x0a000007 IP_HDR_PROTO_UDP 64 k_net = netdev_tx 0x1000 s3 \<and>
     ip_hdr_ok (mem8 s3) (pb_buf (pktbufs k_net 0x1000)) (ucast (pkt_len (pktbufs k_net 0x1000) - 14)) 64 IP_HDR_PROTO_UDP
       0x0a000002 0x0a000007"
proof -
  have f: "length (hw_addr (netdev k_net)) = 6" "ip_addr (netdev k_net) = 0x0a000002"
    "find_mac_addr (nexthop (netdev k_net) 0x0a000007) k_net = Some host_mac" "length host_mac = 6"
    by (simp_all add: k_net_def wire_fields host_mac_def)
  have "tx_ready 2 k_net" by (rule k_net_ready(2)) simp
  from ip_tx_correct [OF this f(1) refl, of "0x1000" "0x0a000007" IP_HDR_PROTO_UDP 64] f(2,3,4) show ?thesis
    by auto
qed

text \<open>A kernel that holds two blocks, a packet buffer and its data.\<close>

definition k_pkt :: "addr \<Rightarrow> addr \<Rightarrow> tcp_state \<Rightarrow> tcp_state" where
  "k_pkt p e s = s\<lparr>mem8 := (\<lambda>_. 0)(e + 34 := ICMP_HDR_TYPE_ECHO_REQUEST),
     pktbufs := (pktbufs s)(p := \<lparr>pkt_len = 50, pb_buf = e + 34, pb_head = e\<rparr>)\<rparr>"

theorem icmp_echo_answered_witness:
  "\<exists>rx e s s'. rx \<in> live s \<and> e \<in> live s \<and> icmp_rx rx (hton32 0x0a000007) (k_pkt rx e s) = Inr s' \<and>
     live s' = live s"
proof -
  have fits: "mem_fits 100" by (simp add: mem_fits_def MEM_GRANULARITY_def)
  obtain b where b: "wq_inv k_net [b] []" using k_net_ready(1) by blast
  have n: "nic_ok k_net" "avail k_net = 1489" by (simp_all add: k_net_def wire_fields k_wq_ok)
  obtain p s1 where s1: "mem_alloc 100 ''x'' k_net = Inr (p, s1)" "wq_inv s1 [b] []" "live s1 = insert p (live k_net)"
      "avail s1 = avail k_net - 1" "mem_rest k_net s1"
    using wq_inv_alloc [OF b fits, of "''x''"] n(2) by auto
  obtain e s2 where s2: "mem_alloc 100 ''x'' s1 = Inr (e, s2)" "wq_inv s2 [b] []" "live s2 = insert e (live s1)"
      "avail s2 = avail s1 - 1" "mem_rest s1 s2"
    using wq_inv_alloc [OF s1(2) fits, of "''x''"] n(2) s1(4) by auto
  have "nic_ok s2" using n(1) s1(5) s2(5) by (auto simp: mem_rest_def nic_ok_def)
  with s2(2,4) s1(4) n(2) have "tx_ready 4 (k_pkt p e s2)"
    by (auto simp: tx_ready_def k_pkt_def mem_view nic_ok_def dest!: wq_inv_mem)
  moreover have "live (k_pkt p e s2) = live s2" by (simp add: k_pkt_def mem_view)
  moreover have "p \<in> live s2" "e \<in> live s2" using s1(3) s2(3) by auto
  ultimately have "\<exists>s'. icmp_rx p (hton32 0x0a000007) (k_pkt p e s2) = Inr s' \<and> net_same (k_pkt p e s2) s'"
    using icmp_echo_answered [of "k_pkt p e s2" e p 8 "hton32 0x0a000007"] by (simp add: k_pkt_def)
  then show ?thesis using \<open>p \<in> live s2\<close> \<open>e \<in> live s2\<close> \<open>live (k_pkt p e s2) = live s2\<close>
    by (auto simp: net_same_def)
qed

subsection \<open>Sockets\<close>

text \<open>Tables with the card up, and \<open>n\<close> blocks of memory in use beside the timer's sentinel.\<close>

lemma k_wq_socks: "raw_sockets k_wq = raw_sockets kernel0" "udp_sockets k_wq = udp_sockets kernel0" "tcp_sockets k_wq = tcp_sockets kernel0"
proof -
  obtain s' where s': "init_timer k_sched = Inr s'" using init_timer_ok [OF k_sched_ok(6)] k_sched_ok(7) by auto
  have k: "k_wq = wq_init s'" using s' by (simp add: k_wq_def got_def)
  have "tcp_state.more s' = tcp_state.more k_sched \<and> raw_sockets s' = raw_sockets k_sched \<and> udp_sockets s' = udp_sockets k_sched \<and>
      tcp_sockets s' = tcp_sockets k_sched"
    using s' by (auto simp: init_timer_def Let_def printstr_log_eq dest!: mem_alloc_rest simp: mem_rest_def)
  then show "raw_sockets k_wq = raw_sockets kernel0" "udp_sockets k_wq = udp_sockets kernel0" "tcp_sockets k_wq = tcp_sockets kernel0"
    by (simp_all add: k wq_init_def printstr_log_eq k_sched_def k_mem_def mem_init_def split: prod.splits)
qed

lemma k_net_socks:
  "tables_ok k_net" "q \<in> sockqs \<Longrightarrow> squeue q k_net = list_init" "tick k_net = 0"
  "tcp_sockets k_net = tcp_sockets kernel0" "udp_sockets k_net = udp_sockets kernel0"
  by (cases q; simp add: k_net_def wire_def tables_ok_def k_wq_socks k_wq_ok; simp add: kernel0_def)+

lemma k_net_inv: "\<exists>b. sock_inv sockqs squeue k_net [b] [] (\<lambda>_. [])"
proof -
  obtain b where "wq_inv k_net [b] []" using k_net_ready(1) by blast
  moreover have "queues_ok sockqs (\<lambda>q. squeue q k_net) (links k_net) B (\<lambda>_. [])" for B
    by (rule queues_okI) (auto simp: k_net_socks(2) list_init_wf)
  ultimately show ?thesis by (auto simp: sock_inv_def)
qed

definition holds :: "addr \<Rightarrow> addr list \<Rightarrow> tcp_state \<Rightarrow> bool" where
  "holds b as s =
     (sock_inv sockqs squeue s [b] [] (\<lambda>_. []) \<and> mem_rest k_net s \<and> distinct as \<and> set as \<subseteq> live s \<and>
      set as \<inter> wq_blocks s [b] [] = {} \<and> avail s = 1489 - length as)"

lemma k_holds: "n \<le> 1489 \<Longrightarrow> \<exists>b as s. holds b as s \<and> length as = n"
proof (induction n)
  case 0
  obtain b where "sock_inv sockqs squeue k_net [b] [] (\<lambda>_. [])" using k_net_inv by blast
  then have "holds b [] k_net" by (simp add: holds_def mem_rest_refl k_net_def wire_fields k_wq_ok)
  then show ?case by auto
next
  case (Suc n)
  then obtain b as s where h: "holds b as s" "length as = n" by auto
  have fits: "mem_fits 100" by (simp add: mem_fits_def MEM_GRANULARITY_def)
  have "0 < avail s" using h Suc.prems by (simp add: holds_def)
  with socks.inv_alloc [OF _ fits, of s "[b]" "[]" "\<lambda>_. []" "''x''"] h(1) obtain a s' where
    s': "sock_inv sockqs squeue s' [b] [] (\<lambda>_. [])" "a \<notin> live s" "live s' = insert a (live s)" "avail s' = avail s - 1"
      "mem_rest s s'" "a \<notin> wq_blocks s' [b] []" by (auto simp: holds_def)
  have "wq_blocks s' [b] [] = wq_blocks s [b] []" using s'(5) by (auto simp: wq_blocks_def mem_rest_def)
  with h s' mem_rest_trans [OF _ s'(5)] have "holds b (a # as) s'" by (auto simp: holds_def)
  then show ?case using h(2) by (intro exI [of _ b] exI [of _ "a # as"] exI [of _ s']) simp
qed

lemma holds_fields:
  assumes "holds b as s"
  shows "sock_inv sockqs squeue s [b] [] (\<lambda>_. [])" "tables_ok s" "nic_ok s" "tick s = 0" "mem_inv s" "avail s = 1489 - length as"
    "tcp_sockets s = tcp_sockets kernel0" "udp_sockets s = udp_sockets kernel0" "mem8 s = mem8 k_net" "wq_inv s [b] []"
proof -
  obtain fm mh where s: "s = k_net\<lparr>freemem := fm, memhdrs := mh\<rparr>" using assms by (auto simp: holds_def mem_rest_def)
  show "tables_ok s" "nic_ok s" "tick s = 0" "tcp_sockets s = tcp_sockets kernel0" "udp_sockets s = udp_sockets kernel0" "mem8 s = mem8 k_net"
    using k_net_socks wire_fields(1) [of k_wq, folded k_net_def] by (simp_all add: s tables_ok_def nic_ok_def)
qed (use assms in \<open>auto simp: holds_def sock_inv_def dest: wq_inv_mem\<close>)

text \<open>Contents of memory, packets, and new socket tables whose queues are as empty as the old ones.\<close>

definition loaded :: "bytes \<Rightarrow> (addr \<Rightarrow> pktbuf) \<Rightarrow> udp_socket list \<Rightarrow> tcp_socket list \<Rightarrow> tcp_state \<Rightarrow> tcp_state" where
  "loaded m pb us ks s = s\<lparr>mem8 := m, pktbufs := pb, udp_sockets := us, tcp_sockets := ks\<rparr>"

lemma loaded_fields [simp]:
  "mem8 (loaded m pb us ks s) = m" "pktbufs (loaded m pb us ks s) = pb" "udp_sockets (loaded m pb us ks s) = us"
  "tcp_sockets (loaded m pb us ks s) = ks"
  by (simp_all add: loaded_def)

definition empty_socks :: "udp_socket list \<Rightarrow> tcp_socket list \<Rightarrow> bool" where
  "empty_socks us ks =
     (length us = 10 \<and> length ks = 10 \<and> (\<forall>i < 10. us_rx_data_list (us ! i) = list_init \<and>
        ts_rx_data_list (ks ! i) = list_init \<and> ts_tx_data_list (ks ! i) = list_init))"

lemma kernel0_socks: "empty_socks (udp_sockets kernel0) (tcp_sockets kernel0)"
  by (simp add: kernel0_def empty_socks_def UDP_SOCKET_COUNT_def TCP_SOCKET_COUNT_def)

lemma empty_socks_upd:
  "i < 10 \<Longrightarrow> empty_socks us ks \<Longrightarrow> us_rx_data_list u = list_init \<Longrightarrow> empty_socks (us[i := u]) ks"
  "i < 10 \<Longrightarrow> empty_socks us ks \<Longrightarrow> ts_rx_data_list k = list_init \<Longrightarrow> ts_tx_data_list k = list_init \<Longrightarrow> empty_socks us (ks[i := k])"
  by (auto simp: empty_socks_def nth_list_update)

lemma loaded_ok:
  fixes s :: tcp_state and m :: bytes and pb :: "addr \<Rightarrow> pktbuf" and us :: "udp_socket list" and ks :: "tcp_socket list"
  assumes h: "holds b as s" and e: "empty_socks us ks"
  defines "s' \<equiv> loaded m pb us ks s"
  shows "sock_inv sockqs squeue s' [b] [] (\<lambda>_. [])" "tables_ok s'" "nic_ok s'" "tick s' = 0" "mem_inv s'" "avail s' = 1489 - length as"
    "live s' = live s" "wq_blocks s' [b] [] = wq_blocks s [b] []"
proof -
  note f = holds_fields [OF h]
  show "tables_ok s'" using f(2) e by (simp add: s'_def loaded_def tables_ok_def empty_socks_def UDP_SOCKET_COUNT_def TCP_SOCKET_COUNT_def)
  show v: "nic_ok s'" "tick s' = 0" "mem_inv s'" "avail s' = 1489 - length as" "live s' = live s" "wq_blocks s' [b] [] = wq_blocks s [b] []"
    using f by (simp_all add: s'_def loaded_def nic_ok_def mem_view wq_blocks_def)
  have w: "wq_inv s' [b] []" using f(10) by (simp add: s'_def loaded_def wq_view)
  have q: "squeue q s' = squeue q s" if "q \<in> sockqs" for q
    using that e kernel0_socks f(7,8)
    by (cases q) (simp_all add: s'_def loaded_def empty_socks_def UDP_SOCKET_COUNT_def TCP_SOCKET_COUNT_def)
  show "sock_inv sockqs squeue s' [b] [] (\<lambda>_. [])"
    by (rule socks.inv_frame [OF f(1) w]) (use v(5) q in \<open>simp_all add: s'_def loaded_def\<close>)
qed


theorem udp_send_correct_witness:
  "\<exists>buf (s :: tcp_state) s' tx s3. udp_socket_send 0 0x0a000007 53 buf 3 s = Inr s' \<and>
     udp_socket_send 0 0x0a000007 53 buf 3 s = bindr (ip_tx tx 0x0a000007 IP_HDR_PROTO_UDP 64 s3) (free_pkt tx) \<and>
     pkt_len (pktbufs s3 tx) = 45"
proof -
  obtain b as s where h: "holds b as s" "length as = 1" using k_holds [of 1] by auto
  then obtain e where as: "as = [e]" by (auto simp: length_Suc_conv)
  note f = holds_fields [OF h(1)]
  have "e \<in> live s" using h(1) as by (simp add: holds_def)
  then have blk: "in_block s e 3" by (rule in_block_own) simp
  have "tx_ready 4 s" using f(3,5,6) h(2) by (simp add: tx_ready_def)
  moreover have "length (udp_sockets s) = UDP_SOCKET_COUNT" using f(2) by (simp add: tables_ok_def)
  ultimately have "(\<exists>s'. udp_socket_send 0 0x0a000007 53 e 3 s = Inr s') \<and>
      (\<exists>tx s3. udp_socket_send 0 0x0a000007 53 e 3 s = bindr (ip_tx tx 0x0a000007 IP_HDR_PROTO_UDP 64 s3) (free_pkt tx) \<and>
         pkt_len (pktbufs s3 tx) = 45)"
    using udp_send_correct [of s 0 e 3 "0x0a000007" 53] blk by (auto simp: UDP_SOCKET_COUNT_def)
  then show ?thesis by blast
qed

text \<open>A UDP socket bound to port 53.\<close>

definition udp53 :: "udp_socket list" where
  "udp53 = (udp_sockets kernel0)[0 := (udp_sockets kernel0 ! 0)\<lparr>us_flag := UDP_SOCKET_USED, us_port := 53\<rparr>]"

lemma udp53_ok: "empty_socks udp53 (tcp_sockets kernel0)" "us_flag (udp53 ! 0) = UDP_SOCKET_USED" "us_port (udp53 ! 0) = 53"
  "0 < i \<Longrightarrow> i < 10 \<Longrightarrow> us_port (udp53 ! i) = 0"
proof -
  show "empty_socks udp53 (tcp_sockets kernel0)" unfolding udp53_def
    using kernel0_socks by (intro empty_socks_upd) (auto simp: empty_socks_def)
qed (simp_all add: udp53_def kernel0_def UDP_SOCKET_COUNT_def)

theorem udp_rx_delivers_witness:
  "\<exists>b p (s :: tcp_state) s'. udp_rx p s = Inr s' \<and> udp_delivered 0 [104, 105, 33] s [b] [] (\<lambda>_. []) s'"
proof -
  obtain b as s where h: "holds b as s" "length as = 2" using k_holds [of 2] by auto
  then obtain p e where as: "as = [p, e]" by (auto simp: length_Suc_conv numeral_2_eq_2)
  let ?m = "wr_list (e + 8) [104, 105, 33] (wr16 (e + 2) (hton16 53) (\<lambda>_. 0))"
  let ?s = "loaded ?m ((pktbufs s)(p := \<lparr>pkt_len = 45, pb_buf = e, pb_head = e\<rparr>)) udp53 (tcp_sockets kernel0) s"
  note l = loaded_ok [OF h(1) udp53_ok(1), of ?m "(pktbufs s)(p := \<lparr>pkt_len = 45, pb_buf = e, pb_head = e\<rparr>)"]
  have f: "pb_buf (pktbufs ?s p) = e" "pkt_len (pktbufs ?s p) = of_nat (42 + 3)" "mem8 ?s = ?m" "udp_sockets ?s = udp53" by simp_all
  have "e \<in> live ?s" using l(7) h(1) as by (simp add: holds_def)
  then have blk: "in_block ?s e (8 + 3)" by (rule in_block_own) simp
  have port: "ntoh16 (rd16 ?m (e + 2)) = 53" by (simp add: rd16_def wr16_def add.assoc hton16_def ntoh16_def reverse16_def)
  have data: "bytes_at ?m (e + 8) 3 = [104, 105, 33]" by (simp add: bytes_at_def upt_rec add.assoc)
  have bound: "udp_bound ?s 53 0" using udp53_ok(2,3) by (simp add: udp_bound_def UDP_SOCKET_COUNT_def)
  have only: "j = 0" if "udp_bound ?s 53 j" for j
    using that udp53_ok(4) [of j] by (cases "j = 0") (simp_all add: udp_bound_def UDP_SOCKET_COUNT_def)
  have av: "2 \<le> avail ?s" using l(6) h(2) by simp
  have bd: "udp_bound ?s (ntoh16 (rd16 (mem8 ?s) (e + 2))) 0" "\<forall>j. udp_bound ?s (ntoh16 (rd16 (mem8 ?s) (e + 2))) j \<longrightarrow> j = 0"
    unfolding f(3) port using bound only by blast+
  have len: "42 + 3 < (65536 :: nat)" by simp
  from conjunct1 [OF udp_rx_delivers [OF l(1,2) av f(1) [symmetric] blk f(2) len], THEN spec, THEN mp, THEN mp, OF bd]
  obtain s' where "udp_rx p ?s = Inr s'" "udp_delivered 0 (bytes_at (mem8 ?s) (e + 8) 3) ?s [b] [] (\<lambda>_. []) s'" by blast
  then show ?thesis unfolding f(3) data by blast
qed

theorem socket_recv_takes_witness:
  "\<exists>(s :: tcp_state) s'. udp_socket_recv Inr 0 0 2 s = Inr (2, s') \<and> bytes_at (mem8 s') 0 2 = [104, 105]"
proof -
  obtain b as s where h: "holds b as s" "length as = 2" using k_holds [of 2] by auto
  then obtain p e where as: "as = [p, e]" by (auto simp: length_Suc_conv numeral_2_eq_2)
  let ?m = "wr_list e [104, 105, 33] (\<lambda>_. 0)"
  let ?s = "loaded ?m (pktbufs s) udp53 (tcp_sockets kernel0) s"
  note l = loaded_ok [OF h(1) udp53_ok(1), of ?m "pktbufs s"]
  have "e \<in> live ?s" using l(7) h(1) as by (simp add: holds_def)
  then have blk: "in_block ?s e (unat (3 :: u32))" by (rule in_block_own) simp
  have data: "bytes_at ?m e 3 = [104, 105, 33]" by (simp add: bytes_at_def upt_rec add.assoc)
  have "mem_fits 3" "UdpRx 0 \<in> sockqs" "2 \<le> avail ?s" using l(6) h(2) by (simp_all add: mem_fits_def MEM_GRANULARITY_def UDP_SOCKET_COUNT_def)
  from socks.receive_data [OF l(1,2) this(2,3,1) _ blk, of NoCause] obtain rx and s' :: tcp_state where
    s': "sock_inv sockqs squeue s' [b] [] ((\<lambda>_. [])(UdpRx 0 := [rx]))" "tables_ok s'" "rx_ok s' rx" "pending s' rx = bytes_at (mem8 ?s) e 3"
    by auto
  have "region 0 2 \<inter> region (rxd_data (rxdatas s' rx)) 2 = {}"
    using dma_apart [of "rxd_data (rxdatas s' rx)" "memhdrs s'" blank_desc 2 2] s'(3)
    by (auto simp: rx_ok_def mem_view dma_ok_def desc_addr_def blank_desc_def MEM_START_def)
  moreover have "pending s' rx = [104, 105, 33]" using s'(4) data by simp
  ultimately show ?thesis using socket_recv_takes [OF s'(1,2,3), where sz = 2 and buf = 0 and i = 0 and xs = "[]" and env = Inr]
    by (auto simp: data_taken_def numeral_2_eq_2)
qed

text \<open>A mutex in zeroed memory.\<close>

theorem mutex_taken_once_witness:
  "\<exists>s1. mutex_lock Inr id 0x5000 kernel0 = Some (Inr s1) \<and> locked 0x5000 s1 \<and> (\<forall>s2. mutex_lock Inr id 0x5000 s1 \<noteq> Some (Inr s2))"
proof -
  have h: "\<not> locked 0x5000 kernel0" "rflags kernel0 AND 0x0020 = 0" by (simp_all add: kernel0_def locked_def)
  have e: "keeps_locked (Inr :: tcp_state \<Rightarrow> tcp_state res) 0x5000" by (simp add: keeps_locked_def)
  show ?thesis using mutex_taken_once [OF h e, of id] unfolding id_apply by blast
qed

text \<open>The task that runs is not the idle task, task 2.\<close>

lemma k_wq_task: "taskctl k_wq = tasks4" "task_links k_wq = (\<lambda>_. None)"
proof -
  obtain s' where s': "init_timer k_sched = Inr s'" using init_timer_ok [OF k_sched_ok(6)] k_sched_ok(7) by auto
  have k: "k_wq = wq_init s'" using s' by (simp add: k_wq_def got_def)
  have "taskctl s' = taskctl k_sched" "task_links s' = task_links k_sched"
    using s' by (auto simp: init_timer_def Let_def printstr_log_eq dest!: mem_alloc_rest simp: mem_rest_def)
  then show "taskctl k_wq = tasks4" "task_links k_wq = (\<lambda>_. None)" by (simp_all add: k wq_init_def printstr_log_eq k_sched_def)
qed

lemma loaded_good:
  assumes "holds b as s"
  shows "sched_good 2 (loaded m pb us ks s)" "current_task (taskctl (loaded m pb us ks s)) = 0"
proof -
  have t: "taskctl (loaded m pb us ks s) = tasks4" "task_links (loaded m pb us ks s) = (\<lambda>_. None)"
    using assms k_wq_task by (auto simp: holds_def mem_rest_def loaded_def k_net_def wire_def)
  have "t_flag (tasks tasks4 ! 2) = TASK_RUNNING" "t_priority (tasks tasks4 ! 2) = TASK_PRIORITY_LOW" "2 < next_task_id tasks4"
    by (simp_all add: tasks4_def blank_task_def prio_defs)
  with tasks4_ok show "sched_good 2 (loaded m pb us ks s)" "current_task (taskctl (loaded m pb us ks s)) = 0"
    by (auto simp: sched_good_def sched_view t tflag_def tprio_def tasks4_fields)
qed

lemma udp53_bound: "udp_bound (loaded m pb udp53 ks s) 53 0" "\<forall>j. udp_bound (loaded m pb udp53 ks s) 53 j \<longrightarrow> j = 0"
  using udp53_ok(2,3,4) by (auto simp: udp_bound_def UDP_SOCKET_COUNT_def intro: ccontr)

theorem udp_recv_waits_witness:
  "\<exists>(s :: tcp_state) s1 b ts1. sock_inv sockqs squeue s [b] [] (\<lambda>_. []) \<and> udp_waiting 2 0 0 s s1 \<and>
     timeout_set UdpSocketRecvTimeout 0 0 5000 s [b] s1 ts1 \<and>
     udp_socket_recv Inr 0 0 2 s = Inr (- 1, set_rflags (rflags s) s1)"
proof -
  obtain b as s where h: "holds b as s" "length as = 0" using k_holds [of 0] by auto
  let ?s = "loaded (\<lambda>_. 0) (pktbufs s) udp53 (tcp_sockets kernel0) s"
  note l = loaded_ok [OF h(1) udp53_ok(1), of "\<lambda>_. 0" "pktbufs s"] and g = loaded_good [OF h(1), of "\<lambda>_. 0" "pktbufs s" udp53 "tcp_sockets kernel0"]
  have a: "0 < UDP_SOCKET_COUNT" "3 \<le> avail ?s" "tick ?s + 5000 \<noteq> END_TICK" "0 = current_task (taskctl ?s)" "(0 :: nat) \<noteq> 2"
    using l(4,6) h(2) g(2) by (simp_all add: UDP_SOCKET_COUNT_def END_TICK_def)
  from udp_recv_waits [OF l(1,2) a(1) refl a(2,3) g(1) a(4,5), of 0 2] obtain s1 ts1 where
    s1: "sock_inv sockqs squeue s1 ts1 [] (\<lambda>_. [])" "udp_waiting 2 0 0 ?s s1"
      "timeout_set UdpSocketRecvTimeout (of_int (int 0)) (ucast (get_tick ?s)) 5000 ?s [b] s1 ts1"
    and go: "\<forall>env s2 ts2 ws2 Q2. env s1 = Inr s2 \<longrightarrow> sock_inv sockqs squeue s2 ts2 ws2 Q2 \<longrightarrow> tables_ok s2 \<longrightarrow>
        (Q2 (UdpRx 0) = [] \<longrightarrow> udp_socket_recv env (int 0) 0 2 ?s = Inr (- 1, set_rflags (rflags ?s) s2))"
    unfolding imp_conjR all_conj_distrib by (elim exE conjE) (rule that)
  have "udp_socket_recv Inr (int 0) 0 2 ?s = Inr (- 1, set_rflags (rflags ?s) s1)"
    using go [rule_format, of Inr s1, OF refl s1(1) waiting_keeps(1) [OF s1(2) l(2)] refl] .
  moreover have "ucast (get_tick ?s) = (0 :: u32)" using l(4) by (simp add: get_tick_def)
  ultimately show ?thesis using l(1) s1(2,3) by auto
qed

subsection \<open>TCP\<close>

text \<open>Socket 0 in a given state, and a segment of \<open>len\<close> bytes of data behind a plain header at \<open>e + 20\<close>.\<close>

definition tcp0 :: "TCP_STATE \<Rightarrow> tcp_socket list" where
  "tcp0 st = (tcp_sockets kernel0)[0 := (tcp_sockets kernel0 ! 0)\<lparr>ts_state := st\<rparr>]"

definition seg_mem :: "addr \<Rightarrow> u16 \<Rightarrow> u16 \<Rightarrow> bytes" where
  "seg_mem e len flags = wr16 (e + 32) (hton16 flags) (wr16 (e + 2) (hton16 (40 + len)) (\<lambda>_. 0))"

lemma tcp0_ok: "empty_socks (udp_sockets kernel0) (tcp0 st)" "ts_state (tcp0 st ! 0) = st" "length (tcp0 st) = 10"
  "ts_ack_num (tcp0 st ! 0) = 0" "ts_tx_data_list (tcp0 st ! 0) = list_init"
proof -
  show "empty_socks (udp_sockets kernel0) (tcp0 st)" unfolding tcp0_def
    using kernel0_socks by (intro empty_socks_upd) (auto simp: empty_socks_def)
qed (simp_all add: tcp0_def kernel0_def TCP_SOCKET_COUNT_def)

lemma seg_mem_read:
  assumes "pb_buf (pktbufs s p) = e + 20" and "mem8 s = seg_mem e len flags"
  shows "sg_flags (read_segment p s) = flags" "sg_seq (read_segment p s) = 0"
    "sg_hlen (read_segment p s) = ucast (drop_bit 12 flags AND 0xf) * 4"
    "sg_len (read_segment p s) = ucast (40 + len) - 20 - sg_hlen (read_segment p s)"
proof -
  have hh: "hton16 (hton16 w) = w" for w by (simp add: hton16_def)
  have r: "rd16 (seg_mem e len flags) (e + 32) = hton16 flags" "rd16 (seg_mem e len flags) (e + 2) = hton16 (40 + len)"
    "rd32 (seg_mem e len flags) (e + 24) = 0"
    by (simp_all add: seg_mem_def rd16_wr16_other add.assoc rd32_def) (simp_all add: rd16_def)
  have ip: "e + 20 - ucast sizeof_ip_hdr = e" "sizeof_ip_hdr = 20" by (simp_all add: sizeof_ip_hdr_def)
  have z: "ntoh32 0 = 0" by (simp add: ntoh32_def reverse32_def Let_def)
  have n: "ntoh16 (hton16 flags) = flags" by simp
  show "sg_flags (read_segment p s) = flags" "sg_seq (read_segment p s) = 0"
    "sg_hlen (read_segment p s) = ucast (drop_bit 12 flags AND 0xf) * 4"
    "sg_len (read_segment p s) = ucast (40 + len) - 20 - sg_hlen (read_segment p s)"
    unfolding read_segment_def Let_def assms by (simp_all add: ip r z hh n add.assoc)
qed

text \<open>The state for a segment of \<open>len\<close> bytes at socket 0.\<close>

definition seg_state :: "addr \<Rightarrow> addr \<Rightarrow> u16 \<Rightarrow> u16 \<Rightarrow> TCP_STATE \<Rightarrow> tcp_state \<Rightarrow> tcp_state" where
  "seg_state p e len flags st s =
     loaded (seg_mem e len flags) ((pktbufs s)(p := \<lparr>pkt_len = 54 + ucast len, pb_buf = e + 20, pb_head = e\<rparr>)) (udp_sockets kernel0) (tcp0 st) s"

lemma seg_state_fields:
  "pb_buf (pktbufs (seg_state p e len flags st s) p) = e + 20" "mem8 (seg_state p e len flags st s) = seg_mem e len flags"
  "tcp_sockets (seg_state p e len flags st s) = tcp0 st"
  by (simp_all add: seg_state_def)

lemmas seg_state_read = seg_mem_read [OF seg_state_fields(1,2)]

lemma two_blocks: "\<exists>b p e s. holds b [p, e] s"
proof -
  obtain b as s where h: "holds b as s" "length as = 2" using k_holds [of 2] by auto
  then obtain p e where "as = [p, e]" by (auto simp: length_Suc_conv numeral_2_eq_2)
  with h(1) show ?thesis by blast
qed

lemma loaded_sends:
  assumes "holds b as s" and "length as \<le> 8"
  shows "can_send 0x0a000007 host_mac (loaded m pb us ks s)" "tx_next (loaded m pb us ks s) = blank_desc"
    "hw_addr (netdev (loaded m pb us ks s)) = [2, 0, 0, 0, 0, 2]" "ip_addr (netdev (loaded m pb us ks s)) = 0x0a000002"
proof -
  obtain fm mh where e: "s = k_net\<lparr>freemem := fm, memhdrs := mh\<rparr>" using assms(1) by (auto simp: holds_def mem_rest_def)
  note f = holds_fields [OF assms(1)]
  show t: "tx_next (loaded m pb us ks s) = blank_desc" by (simp add: loaded_def e tx_next_def k_net_def wire_fields)
  show n: "hw_addr (netdev (loaded m pb us ks s)) = [2, 0, 0, 0, 0, 2]" "ip_addr (netdev (loaded m pb us ks s)) = 0x0a000002"
    by (simp_all add: loaded_def e k_net_def wire_def)
  have d: "\<not> owned blank_desc" "dma_ok blank_desc" by (simp_all add: owned_def dma_ok_def desc_addr_def blank_desc_def MEM_START_def)
  have "tx_ready 4 (loaded m pb us ks s)" using f(3,5,6) assms(2) by (simp add: loaded_def tx_ready_def mem_view nic_ok_def)
  moreover have "find_mac_addr (nexthop (netdev (loaded m pb us ks s)) 0x0a000007) (loaded m pb us ks s) = Some host_mac"
    by (simp add: loaded_def e k_net_def wire_def nexthop_def find_mac_addr_def)
  ultimately show "can_send 0x0a000007 host_mac (loaded m pb us ks s)" unfolding can_send_def t n using d by (simp add: host_mac_def)
qed

text \<open>A request from 10.0.0.7; the answer is in the buffer of the first transmit descriptor.\<close>

theorem tcp_listen_accepts_syn_witness:
  "\<exists>p (s :: tcp_state) s' t. tcp_recv_pkt 0 p s = Inr s' \<and> ts_state (tcp_sockets s' ! 0) = SYN_RCVD \<and>
     ts_seq_num (tcp_sockets s' ! 0) = 1 \<and> ts_ack_num (tcp_sockets s' ! 0) = 1 \<and> ts_seq_num t = 0 \<and> ts_ack_num t = 1 \<and>
     tcp_frame (mem8 s') 0 host_mac [2, 0, 0, 0, 0, 2] 0x0a000002 0x0a000007 t 0 (TCP_FLAGS_SYN OR TCP_FLAGS_ACK) []"
proof -
  obtain b p e s where h: "holds b [p, e] s" using two_blocks by blast
  let ?m = "wr32 (e + 12) (hton32 0x0a000007) (seg_mem e 0 0x5002)"
  let ?s = "loaded ?m ((pktbufs s)(p := \<lparr>pkt_len = 54, pb_buf = e + 20, pb_head = e\<rparr>)) (udp_sockets kernel0) (tcp0 LISTEN) s"
  note l = loaded_ok [OF h tcp0_ok(1) [of LISTEN], of ?m "(pktbufs s)(p := \<lparr>pkt_len = 54, pb_buf = e + 20, pb_head = e\<rparr>)"]
  have l8: "length [p, e] \<le> 8" by simp
  note n = loaded_sends [OF h l8, of ?m "(pktbufs s)(p := \<lparr>pkt_len = 54, pb_buf = e + 20, pb_head = e\<rparr>)" "udp_sockets kernel0" "tcp0 LISTEN"]
  have ip: "e + 20 - ucast sizeof_ip_hdr = e" by (simp add: sizeof_ip_hdr_def)
  have r: "sg_flags (read_segment p ?s) = 0x5002" "sg_sip (read_segment p ?s) = 0x0a000007" "sg_seq (read_segment p ?s) = 0"
    "sg_sport (read_segment p ?s) = 0"
    by (simp_all add: read_segment_def Let_def ip seg_mem_def rd16_def rd32_def wr_defs add.assoc hton16_def ntoh16_def reverse16_def
      hton32_def ntoh32_def reverse32_def)
  have c: "6 \<le> avail ?s" "tick ?s + 1000 \<noteq> END_TICK" "ts_state (tcp_sockets ?s ! 0) = LISTEN"
    using l(4,6) by (simp_all add: END_TICK_def tcp0_ok)
  have syn: "has_flag TCP_FLAGS_SYN (read_segment p ?s)" by (simp add: has_flag_def r(1) TCP_FLAGS_SYN_def)
  have t: "ts_seq_num (tcp0 LISTEN ! 0) = 0" "0 < length (tcp0 LISTEN)" by (simp_all add: tcp0_def kernel0_def TCP_SOCKET_COUNT_def)
  let ?k = "answering (read_segment p ?s) (tcp0 LISTEN ! 0)"
  have send: "can_send (sg_sip (read_segment p ?s)) host_mac ?s" using n(1) r(2) by simp
  have ten: "(0 :: nat) < 10" by simp
  from conjunct1 [OF tcp_listen_accepts_syn [where i = 0 and pkt = p, OF l(1-3) ten c], THEN mp, OF syn] obtain x s' where
    s': "tcp_recv_pkt 0 p ?s = Inr s'"
    "tcp_sockets s' = (tcp0 LISTEN)[0 := (tcp0 LISTEN ! 0)\<lparr>ts_ack_num := sg_seq (read_segment p ?s) + 1,
                ts_dip := sg_sip (read_segment p ?s), ts_dport := sg_sport (read_segment p ?s), ts_tx_data_list := x,
                ts_seq_num := ts_seq_num (tcp0 LISTEN ! 0) + 1, ts_state := SYN_RCVD\<rparr>]"
    "segment_out ?s s' host_mac (sg_sip (read_segment p ?s)) ?k (sg_sport (read_segment p ?s)) (TCP_FLAGS_SYN OR TCP_FLAGS_ACK) []"
    using send unfolding loaded_fields by blast
  have "desc_addr blank_desc = 0" by (simp add: desc_addr_def blank_desc_def)
  with s'(3) have "tcp_frame (mem8 s') 0 host_mac [2, 0, 0, 0, 0, 2] 0x0a000002 0x0a000007 ?k 0 (TCP_FLAGS_SYN OR TCP_FLAGS_ACK) []"
    unfolding segment_out_def r(2,4) n(2-4) by simp
  moreover have "ts_seq_num ?k = 0" "ts_ack_num ?k = 1" using t(1) r(3) by (simp_all add: answering_def)
  ultimately show ?thesis using s'(1,2) t r(3) by (intro exI [of _ p] exI [of _ ?s] exI [of _ s'] exI [of _ ?k]) simp
qed

theorem tcp_data_in_order_witness:
  "\<exists>b p e (s :: tcp_state) s1. tcp_recv_pkt 0 p (seg_state p e 3 0x5010 ESTABLISHED s) = send_ack 0 TCP_FLAGS_ACK False s1 \<and>
     tcp_got 0 (read_segment p (seg_state p e 3 0x5010 ESTABLISHED s)) [0, 0, 0] (seg_state p e 3 0x5010 ESTABLISHED s) [b] [] (\<lambda>_. []) s1"
proof -
  obtain b p e s where h: "holds b [p, e] s" using two_blocks by blast
  let ?s = "seg_state p e 3 0x5010 ESTABLISHED s"
  note l = loaded_ok [OF h tcp0_ok(1) [of ESTABLISHED], of "seg_mem e 3 0x5010"
      "(pktbufs s)(p := \<lparr>pkt_len = 54 + ucast (3 :: u16), pb_buf = e + 20, pb_head = e\<rparr>)", folded seg_state_def]
  note r = seg_state_read [where p = p and e = e and len = 3 and flags = "0x5010" and st = ESTABLISHED and s = s]
  have hl: "sg_hlen (read_segment p ?s) = 20" "sg_len (read_segment p ?s) = of_nat 3" using r(3,4) by simp_all
  have c: "6 \<le> avail ?s" "ts_state (tcp_sockets ?s ! 0) = ESTABLISHED"
    using l(6) by (simp_all add: seg_state_fields tcp0_ok)
  have fin: "\<not> has_flag TCP_FLAGS_FIN (read_segment p ?s)" by (simp add: has_flag_def r(1) TCP_FLAGS_FIN_def)
  have a: "pb_buf (pktbufs ?s p) + ucast (sg_hlen (read_segment p ?s)) = e + 40" by (simp add: seg_state_fields hl)
  have "e \<in> live ?s" using l(7) h by (simp add: holds_def)
  then have "in_block ?s (e + 40) 3"
    unfolding in_block_def by (intro bexI [of _ e] subsetI) (auto simp: region_def image_iff intro!: bexI [of _ "40 + _"])
  then have blk: "in_block ?s (pb_buf (pktbufs ?s p) + ucast (sg_hlen (read_segment p ?s))) 3" by (simp only: a)
  have eq: "ts_ack_num (tcp_sockets ?s ! 0) = sg_seq (read_segment p ?s)" by (simp add: seg_state_fields tcp0_ok r(2))
  have data: "bytes_at (mem8 ?s) (e + 40) 3 = [0, 0, 0]"
    by (simp add: seg_state_fields seg_mem_def bytes_at_def upt_rec wr16_def add.assoc)
  have num: "(0 :: nat) < 10" "(0 :: nat) < 3" "(3 :: nat) < 65536" by simp_all
  from conjunct1 [OF tcp_data_in_order [where i = 0 and pkt = p and n = 3, OF l(1-3) num(1) c hl(2) num(3) blk fin], THEN mp, OF num(2), THEN mp, OF eq]
  have "\<exists>s1. tcp_recv_pkt 0 p ?s = send_ack 0 TCP_FLAGS_ACK False s1 \<and> tcp_got 0 (read_segment p ?s) [0, 0, 0] ?s [b] [] (\<lambda>_. []) s1"
    unfolding a data by blast
  then show ?thesis by blast
qed

theorem tcp_short_segment_panics_witness:
  "\<exists>p e (s :: tcp_state). tcp_recv_pkt 0 p (seg_state p e 0 0x6010 ESTABLISHED s) = Inl Panic"
proof -
  obtain b p e s where h: "holds b [p, e] s" using two_blocks by blast
  let ?s = "seg_state p e 0 0x6010 ESTABLISHED s"
  note l = loaded_ok [OF h tcp0_ok(1) [of ESTABLISHED], of "seg_mem e 0 0x6010"
      "(pktbufs s)(p := \<lparr>pkt_len = 54 + ucast (0 :: u16), pb_buf = e + 20, pb_head = e\<rparr>)", folded seg_state_def]
  note r = seg_state_read [where p = p and e = e and len = 0 and flags = "0x6010" and st = ESTABLISHED and s = s]
  have "hton16 (rd16 (seg_mem e 0 0x6010) (2 + e)) = 40"
    unfolding add.commute [of 2 e] by (simp add: seg_mem_def rd16_wr16_other add.assoc) (simp add: hton16_def)
  then have "unat (hton16 (rd16 (mem8 ?s) (pb_buf (pktbufs ?s p) - 18))) < 20 + unat (sg_hlen (read_segment p ?s))"
    by (simp add: seg_state_fields r(3))
  with tcp_short_segment_panics [OF l(5), of 0 p] l(6) have "tcp_recv_pkt 0 p ?s = Inl Panic"
    by (simp add: seg_state_fields tcp0_ok)
  then show ?thesis by blast
qed

theorem tcp_transitions_witness:
  "\<exists>p e (s :: tcp_state) s'. tcp_recv_pkt 0 p (seg_state p e 0 0x5010 CLOSING s) = Inr s' \<and>
     sock_moved 0 (read_segment p (seg_state p e 0 0x5010 CLOSING s)) (seg_state p e 0 0x5010 CLOSING s) s'"
proof -
  obtain b p e s where h: "holds b [p, e] s" using two_blocks by blast
  let ?s = "seg_state p e 0 0x5010 CLOSING s"
  note l = loaded_ok [OF h tcp0_ok(1) [of CLOSING], of "seg_mem e 0 0x5010"
      "(pktbufs s)(p := \<lparr>pkt_len = 54 + ucast (0 :: u16), pb_buf = e + 20, pb_head = e\<rparr>)", folded seg_state_def]
  note r = seg_state_read [where p = p and e = e and len = 0 and flags = "0x5010" and st = CLOSING and s = s]
  let ?s1 = "printstr_log (''tcp: CLOSING -> CLOSED'' @ nl) (tcp_upd 0 (ts_state_update (\<lambda>_. CLOSED)) ?s)"
  have "sched_fine ?s" using l(1) by (simp add: sock_inv_def wq_inv_def)
  then have "sched_fine ?s1" by (simp add: sched_fine_def printstr_log_eq upd_defs)
  from task_wakeup_fine [OF this, of "TcpSock 0"] obtain s' where "task_wakeup (TcpSock 0) ?s1 = Inr s'" by blast
  moreover have "tcp_recv_pkt 0 p ?s = task_wakeup (TcpSock 0) ?s1"
    by (simp add: tcp_recv_pkt_def Let_def seg_state_fields tcp0_ok arr_get_def recv_closing_def has_flag_def r(1) TCP_FLAGS_ACK_def
        del: append_Cons)
  ultimately have "tcp_recv_pkt 0 p ?s = Inr s'" by simp
  with tcp_transitions [OF this] show ?thesis by blast
qed

theorem ack_releases_two_witness:
  "\<exists>(s :: tcp_state) s'. handle_ack 0 9 s = Inr s' \<and> avail s' = avail s + 6"
proof -
  obtain b as s where h: "holds b as s" "length as = 6" using k_holds [of 6] by auto
  then obtain a pa ha c pc hc where as: "as = [a, pa, ha, c, pc, hc]"
    by (auto simp: length_Suc_conv eval_nat_numeral)
  define pb where "pb = (pktbufs s)(pa := \<lparr>pkt_len = 54, pb_buf = ha, pb_head = ha\<rparr>, pc := \<lparr>pkt_len = 54, pb_buf = hc, pb_head = hc\<rparr>)"
  note l = loaded_ok [OF h(1) kernel0_socks, of "\<lambda>_. 0" pb]
  define tx where "tx = (\<lambda>p. \<lparr>tx_socket_id = 0, send_seq_num = 0, wait_ack_num = 5, dup_ack_num = 0, tx_txpkt = p\<rparr>)"
  let ?s = "(loaded (\<lambda>_. 0) pb (udp_sockets kernel0) (tcp_sockets kernel0) s)\<lparr>txdatas := \<lambda>x. tx (if x = a then pa else pc)\<rparr>"
  have q: "squeue q ?s = squeue q (loaded (\<lambda>_. 0) pb (udp_sockets kernel0) (tcp_sockets kernel0) s)" for q by (cases q) simp_all
  have inv: "sock_inv sockqs squeue ?s [b] [] (\<lambda>_. [])"
    by (rule socks.inv_frame [OF l(1)]) (use l(1) q in \<open>auto simp: sock_inv_def wq_view mem_view\<close>)
  have k: "tables_ok ?s" using l(2) by (simp add: tables_ok_def)
  have w: "wq_blocks ?s [b] [] = wq_blocks s [b] []" "live ?s = live s" using l(7,8) by (simp_all add: wq_blocks_def mem_view)
  have as_ok: "distinct as" "set as \<subseteq> live s" "set as \<inter> wq_blocks s [b] [] = {}" using h(1) by (simp_all add: holds_def)
  have q0: "TcpTx 0 \<in> sockqs" by (simp add: TCP_SOCKET_COUNT_def)
  from socks.enqueue [OF inv k q0, of a] as_ok w as obtain l1 n1 where
    e1: "sock_inv sockqs squeue (set_squeue (TcpTx 0) l1 (?s\<lparr>links := n1\<rparr>)) [b] [] ((\<lambda>_. [])(TcpTx 0 := [a]))" by auto
  let ?s1 = "set_squeue (TcpTx 0) l1 (?s\<lparr>links := n1\<rparr>)"
  have f1: "tables_ok ?s1" "live ?s1 = live s" "wq_blocks ?s1 [b] [] = wq_blocks s [b] []"
    using k w by (simp_all add: tables_ok_def upd_defs mem_view wq_blocks_def)
  from socks.enqueue [OF e1 f1(1) q0, of c] as_ok f1 as obtain l2 n2 where
    e2: "sock_inv sockqs squeue (set_squeue (TcpTx 0) l2 (?s1\<lparr>links := n2\<rparr>)) [b] [] ((\<lambda>_. [])(TcpTx 0 := [a, c]))" by auto
  let ?s2 = "set_squeue (TcpTx 0) l2 (?s1\<lparr>links := n2\<rparr>)"
  have f2: "tables_ok ?s2" "live ?s2 = live s" "wq_blocks ?s2 [b] [] = wq_blocks s [b] []" "pktbufs ?s2 = pb"
      "txdatas ?s2 = (\<lambda>x. tx (if x = a then pa else pc))"
    using f1 by (simp_all add: tables_ok_def upd_defs mem_view wq_blocks_def)
  have tb: "tx_blocks ?s2 a = [a, pa, ha]" "tx_blocks ?s2 c = [c, pc, hc]"
    using as_ok(1) as by (auto simp: tx_blocks_def f2(4,5) tx_def pb_def)
  have ap: "tx_apart ?s2 [b] [] ((\<lambda>_. [])(TcpTx 0 := [a, c], TcpTx 0 := [])) a" "tx_apart ?s2 [b] [] ((\<lambda>_. [])(TcpTx 0 := [a, c], TcpTx 0 := [])) c"
    "set (tx_blocks ?s2 a) \<inter> set (tx_blocks ?s2 c) = {}"
    using as_ok as unfolding tx_apart_def tb f2(2,3) by auto
  have ack: "wait_ack_num (txdatas ?s2 a) \<le> 9" "wait_ack_num (txdatas ?s2 c) \<le> 9" by (simp_all add: f2(5) tx_def)
  have Q: "((\<lambda>_. [])(TcpTx 0 := [a, c])) (TcpTx 0) = a # c # []" by simp
  have "(0 :: nat) < 10" by simp
  from ack_releases_two [OF e2 f2(1) this Q ack ap] show ?thesis by blast
qed

theorem ignored_frame_leaks_witness:
  "\<exists>b w (s :: tcp_state) s'. wq_inv s [b] [w] \<and> works s w = \<lparr>wt_func = EtherRx, wt_arg = Some 0x1000\<rparr> \<and>
     wq_execute kcall s = Inr s' \<and> live s' = live s - {w}"
proof -
  obtain b where b: "wq_inv k_net [b] []" using k_net_ready(1) by blast
  have "0 < avail k_net" by (simp add: k_net_def wire_fields k_wq_ok)
  from wq_push_ok [OF b this, of EtherRx "Some 0x1000"] obtain w and s1 :: tcp_state where
    s1: "wq_inv s1 [b] [w]" "works s1 = (works k_net)(w := \<lparr>wt_func = EtherRx, wt_arg = Some 0x1000\<rparr>)" by auto
  let ?s = "s1\<lparr>mem8 := \<lambda>_. 0\<rparr>"
  have "wq_inv ?s [b] [w]" using s1(1) by (simp add: wq_view)
  moreover have "works ?s w = \<lparr>wt_func = EtherRx, wt_arg = Some 0x1000\<rparr>" using s1(2) by simp
  moreover have "not_for_us 0x1000 ?s"
    by (simp add: not_for_us_def Let_def rd16_def ntoh16_def reverse16_def ETHER_TYPE_ARP_def ETHER_TYPE_IPV4_def)
  ultimately show ?thesis using ignored_frame_leaks [of ?s "[b]" w "[]" "0x1000"] by blast
qed

theorem syscalls_reach_kernel_witness:
  "sys_tcp_socket_recv Inr 1 0x5000 100 (- 1) kernel0 = kernel_entry (tcp_socket_recv Inr 1 0x5000 100 (- 1)) kernel0 \<and>
   sys_get_tick Inr (kernel0\<lparr>tick := 0x80000000\<rparr>) = Inr (0xffffffff80000000, kernel0\<lparr>tick := 0x80000000\<rparr>)"
proof -
  have c: "c_int 1" "c_int 100" "c_int (- 1)" "c_int 0" by (simp_all add: c_int_def)
  show ?thesis
    using syscalls_reach_kernel [OF c, where env = Inr and s = kernel0]
      syscalls_reach_kernel [OF c, where env = Inr and s = "kernel0\<lparr>tick := 0x80000000\<rparr>"] by simp
qed

text \<open>A machine whose every slot answers as the network card.\<close>

definition machine0 :: platform where
  "machine0 =
     \<lparr>pl_tss = 0x106000, pl_asm_int = (\<lambda>i. 0x107000 + of_nat i), pl_int_keyboard = 0x108000, pl_int_pit = 0x108100, pl_int_r8169 = 0x108200,
      pl_syscall_handler = 0x108300, pl_userland_main = 0x109000, pl_idle_main = 0x109100, pl_rx_ring = 0x110000, pl_tx_ring = 0x120000,
      pl_cfg = (\<lambda>_. 0x813610ec), pl_chip = (\<lambda>_. 0), pl_mac = (\<lambda>_. 2)\<rparr>"

lemma machine0_boots: "boot_ok kernel0" "card_present machine0"
proof -
  show "boot_ok kernel0" by (simp add: boot_ok_def kernel0_def tables_ok_def)
  have "(of_nat 0, of_nat 0) \<in> set pci_slots" unfolding pci_slots_def by (auto simp: image_iff intro!: bexI [of _ 0])
  then show "card_present machine0" by (auto simp: card_present_def machine0_def wait_reset.simps list_ex_iff)
qed

theorem kstart_boots_witness:
  "\<exists>s'. kstart machine0 kernel0 = Inr s' \<and> next_task_id (taskctl s') = 3 \<and> avail s' = 1487 \<and> interrupts_on s'"
  using kstart_boots [OF machine0_boots] by blast

subsection \<open>User programs\<close>

lemma low_region: "x \<in> region (of_nat a) n \<Longrightarrow> a + n < 18446744073709551616 \<Longrightarrow> a \<le> unat x \<and> unat x < a + n"
proof -
  assume "x \<in> region (of_nat a) n" and n: "a + n < 18446744073709551616"
  then obtain i where i: "x = of_nat (a + i)" "i < n" by (auto simp: region_def)
  have "unat x = a + i" unfolding i(1) using n i(2) by (subst unat_of_nat64) simp_all
  then show ?thesis using i(2) by simp
qed

lemma low_regions_apart: "a + n \<le> b \<Longrightarrow> b + k < 18446744073709551616 \<Longrightarrow> region (of_nat a) n \<inter> region (of_nat b) k = {}"
  using low_region [of _ a n] low_region [of _ b k] by fastforce

definition str_mem :: "u8 list \<Rightarrow> bytes" where
  "str_mem bs = wr_list 0 (bs @ [0]) (\<lambda>_. 0)"

lemma str_mem_ok: "0 \<notin> set bs \<Longrightarrow> length bs < 1000 \<Longrightarrow> cstr (str_mem bs) 0 bs"
  using bytes_wr_list [of "bs @ [0]" 0 "\<lambda>_. 0"] by (simp add: str_mem_def cstr_def)

theorem telnet_filter_strips_witness:
  "telnet_filter 0 0 5 0 (str_mem [72, 255, 251, 1, 105]) = (2, wr_list 0 [72, 105] (str_mem [72, 255, 251, 1, 105]))"
proof -
  have b: "bytes_at (str_mem [72, 255, 251, 1, 105]) 0 5 = [72, 255, 251, 1, 105]"
    by (simp add: bytes_at_def str_mem_def upt_rec wr8_def)
  show ?thesis using telnet_filter_strips [of 5 0 "str_mem [72, 255, 251, 1, 105]"] unfolding b by simp
qed

theorem arpa_name_correct_witness:
  "cstr (generate_arpa_address 0 0x01020378 (memset 0 0 100 (\<lambda>_. 7))) 0
     (lit ''120.3.2.1.in-addr.arpa'') \<and> generate_arpa_address 0 0x01020378 (memset 0 0 100 (\<lambda>_. 7)) 100 = 7"
proof -
  have l: "dotted (arpa_labels 0x01020378) = lit ''120.3.2.1.in-addr.arpa''"
    by (simp add: arpa_labels_def ip_bytes_def dec_text_def lit_def byte_of_def word_le_nat_alt)
  have r: "(100 :: addr) \<notin> region 0 30" "(100 :: addr) \<notin> region 0 100"
    using low_region [of 100 0 30] low_region [of 100 0 100] by auto
  show ?thesis using arpa_name_correct [of 0 "0x01020378" "\<lambda>_. 7"] r unfolding l by (simp add: memset_spec)
qed

theorem parse_ipaddr_correct_witness:
  "\<exists>m'. parse_ipaddr 1000 0 (str_mem (lit ''10.0.2.15'')) = Some (0x0a00020f, m')"
proof -
  let ?ls = "map dec_text (ip_bytes 0x0a00020f)"
  have t: "dotted ?ls = lit ''10.0.2.15''" by (simp add: ip_bytes_def dec_text_def lit_def byte_of_def)
  have l: "?ls = [lit ''10'', lit ''0'', lit ''2'', lit ''15'']" by (simp add: ip_bytes_def dec_text_def lit_def byte_of_def)
  have c: "cstr (str_mem (lit ''10.0.2.15'')) 0 (dotted ?ls)"
    unfolding t by (rule str_mem_ok) (simp_all add: lit_def byte_of_def)
  have "Suc (length (lit ''10.0.2.15'')) = 10" by (simp add: lit_def)
  then have d: "region 1000 100 \<inter> region 0 (Suc (length (dotted ?ls))) = {}"
    unfolding t using low_regions_apart [of 0 10 1000 100] by (simp only: Int_commute) simp
  have p: "\<forall>l \<in> set ?ls. l \<noteq> [] \<and> DOT \<notin> set l \<and> length l < 100" unfolding l by (simp add: lit_def byte_of_def)
  have n: "length (dotted ?ls) < 2147483648" unfolding t by (simp add: lit_def)
  have "?ls \<noteq> []" unfolding l by simp
  from parse_ipaddr_correct [OF c this p n d, of "0x0a00020f"] show ?thesis by blast
qed

theorem dns_name_roundtrip_witness:
  "\<exists>m. set_qsection 2000 0 DNS_TYPE_A DNS_CLASS_IN (str_mem (lit ''a.bc'')) = Some (10, m) \<and>
     bytes_at m 2000 10 = [1, 97, 2, 98, 99, 0, 0, 1, 0, 1] \<and>
     parse_domain_name Inr 2000 1000 200 (kernel0\<lparr>mem8 := m\<rparr>) =
       Some (Inr (0, kernel0\<lparr>mem8 := wr_list 1000 (lit ''a.bc.'') m\<rparr>))"
proof -
  let ?ls = "[lit ''a'', lit ''bc'']" and ?m = "str_mem (lit ''a.bc'')"
  have t: "dotted ?ls = lit ''a.bc''" "lit ''a.bc'' @ [DOT] = lit ''a.bc.''" by (simp_all add: lit_def byte_of_def)
  have q: "question ?ls DNS_TYPE_A DNS_CLASS_IN = [1, 97, 2, 98, 99, 0, 0, 1, 0, 1]"
    by (simp add: question_def name_enc_def label_enc_def lit_def byte_of_def DNS_TYPE_A_def DNS_CLASS_IN_def)
  have c: "cstr (mem8 (kernel0\<lparr>mem8 := ?m\<rparr>)) 0 (dotted ?ls)"
    unfolding t(1) using str_mem_ok [of "lit ''a.bc''"] by (simp add: lit_def byte_of_def)
  have d: "region 2000 10 \<inter> region 0 5 = {}" "region 1000 5 \<inter> region 2000 10 = {}"
    using low_regions_apart [of 0 5 2000 10] low_regions_apart [of 1000 5 2000 10] by (simp_all add: Int_commute)
  have o: "\<forall>l \<in> set ?ls. label_ok l" by (simp add: label_ok_def lit_def byte_of_def)
  have len: "length (lit ''a.bc'') = 4" "Suc 4 = 5" "length [1, 97, 2, 98, 99, 0, 0, 1, 0, 1 :: u8] = 10" by (simp_all add: lit_def)
  have "\<exists>m. set_qsection 2000 0 DNS_TYPE_A DNS_CLASS_IN (mem8 (kernel0\<lparr>mem8 := ?m\<rparr>)) = Some (of_nat (length (question ?ls DNS_TYPE_A DNS_CLASS_IN)), m) \<and>
      bytes_at m 2000 (length (question ?ls DNS_TYPE_A DNS_CLASS_IN)) = question ?ls DNS_TYPE_A DNS_CLASS_IN \<and>
      (\<forall>x. x \<notin> region 2000 (length (question ?ls DNS_TYPE_A DNS_CLASS_IN)) \<longrightarrow> m x = mem8 (kernel0\<lparr>mem8 := ?m\<rparr>) x) \<and>
      parse_domain_name Inr 2000 1000 200 (kernel0\<lparr>mem8 := ?m\<rparr>\<lparr>mem8 := m\<rparr>) =
        Some (Inr (0, kernel0\<lparr>mem8 := ?m\<rparr>\<lparr>mem8 := wr_list 1000 (dotted ?ls @ [DOT]) m\<rparr>))"
    by (rule dns_name_roundtrip [OF c _ o]) (simp_all only: q t(1) len d, simp_all)
  then show ?thesis unfolding q t len by auto
qed

definition udp_frame_mem :: "addr \<Rightarrow> bytes" where
  "udp_frame_mem e =
     wr_list (e + 42) [104, 105, 33] (wr16 (e + 36) (hton16 53) (wr32 (e + 30) (hton32 0x0a000002)
       (wr8 (e + 23) IP_HDR_PROTO_UDP (wr16 (e + 12) (hton16 ETHER_TYPE_IPV4) (\<lambda>_. 0)))))"

lemma udp_frame_mem_read:
  "ntoh16 (rd16 (udp_frame_mem e) (e + 12)) = ETHER_TYPE_IPV4" "ntoh32 (rd32 (udp_frame_mem e) (e + 30)) = 0x0a000002"
  "udp_frame_mem e (e + 23) = IP_HDR_PROTO_UDP" "ntoh16 (rd16 (udp_frame_mem e) (e + 36)) = 53"
  "bytes_at (udp_frame_mem e) (e + 42) 3 = [104, 105, 33]" "bytes_at (udp_frame_mem e) (e + 42) 2 = [104, 105]"
  by (simp_all add: udp_frame_mem_def rd16_def rd32_def wr16_def wr32_def wr8_def add.assoc hton16_def ntoh16_def reverse16_def
      hton32_def ntoh32_def reverse32_def ETHER_TYPE_IPV4_def bytes_at_def upt_rec)

definition reply_recs :: "dns_record list" where
  "reply_recs =
     [\<lparr>rr_off = 12, rr_type = 1, rr_class = 1, rr_ttl = [0, 0, 0, 60], rr_data = [8, 8, 4, 4]\<rparr>,
      \<lparr>rr_off = 12, rr_type = 12, rr_class = 1, rr_ttl = [0, 0, 0, 60], rr_data = [1, 97, 2, 98, 99, 0]\<rparr>]"

definition reply :: "u8 list" where
  "reply = dns_header 777 0x8180 1 2 0 0 @ [1, 97, 0, 0, 1, 0, 1] @ concat (map rr_enc reply_recs) @ []"

theorem dns_answers_decoded_witness:
  "\<exists>s :: tcp_state. dns_answer 2000 7 (mem8 s) = 0x08080404 \<and>
     host_answer Inr 2000 7 1000 200 s = Inr (0, store (wr_list 1000 (lit ''a.bc.'')) s)"
proof -
  let ?ls = "[lit ''a'', lit ''bc'']"
  define s where "s = kernel0\<lparr>mem8 := wr_list 2000 reply (\<lambda>_. 0)\<rparr>"
  have len: "length reply = 53" by (simp add: reply_def dns_header_def reply_recs_def rr_enc_def)
  have msg: "bytes_at (mem8 s) 2000 (length reply) = dns_header 777 0x8180 1 (of_nat (length reply_recs)) 0 0 @ [1, 97, 0, 0, 1, 0, 1] @ concat (map rr_enc reply_recs) @ []"
    using bytes_wr_list [of reply 2000] len by (simp add: s_def) (simp add: reply_def reply_recs_def)
  have t: "dotted ?ls = lit ''a.bc''" "lit ''a.bc'' @ [DOT] = lit ''a.bc.''" "length (lit ''a.bc'') = 4" by (simp_all add: lit_def byte_of_def)
  have ap: "region 1000 (Suc (length (dotted ?ls))) \<inter> region 2000 (length reply) = {}"
    unfolding t len using low_regions_apart [of 1000 5 2000 53] by simp
  have enc: "name_enc ?ls @ [0] = [1, 97, 2, 98, 99, 0]" by (simp add: name_enc_def label_enc_def lit_def byte_of_def)
  have ok: "length reply_recs < 65536" "\<forall>r \<in> set reply_recs. rr_ok r" "\<forall>l \<in> set ?ls. label_ok l"
    by (simp_all add: reply_recs_def rr_ok_def label_ok_def lit_def byte_of_def)
  note d = dns_answers_decoded [OF msg ok(1,2) _ _ _ _ ok(3) ap, where wlen = 200 and env = Inr, unfolded t]
  have a: "dns_answer 2000 (of_nat (length [1, 97, 0, 0, 1, 0, 1 :: u8])) (mem8 s) = of_be32 [8, 8, 4, 4]"
    using conjunct1 [OF d] by (simp add: reply_recs_def)
  have "reply_recs = [hd reply_recs] @ reply_recs ! 1 # []" by (simp add: reply_recs_def)
  moreover have "\<forall>u \<in> set [hd reply_recs]. rr_type u \<noteq> DNS_TYPE_PTR" "rr_type (reply_recs ! 1) = DNS_TYPE_PTR" "rr_data (reply_recs ! 1) = name_enc ?ls @ [0]"
    unfolding enc by (simp_all add: reply_recs_def DNS_TYPE_PTR_def)
  moreover have "length [1, 97, 0, 0, 1, 0, 1 :: u8] < 2147483648" "int 4 < 200" "4 < (2147483640 :: nat)" "?ls \<noteq> []" by simp_all
  ultimately have "host_answer Inr 2000 (of_nat (length [1, 97, 0, 0, 1, 0, 1 :: u8])) 1000 200 s = Inr (0, store (wr_list 1000 (lit ''a.bc.'')) s)"
    using d by blast
  moreover have "of_nat (length [1, 97, 0, 0, 1, 0, 1 :: u8]) = (7 :: u32)" "of_be32 [8, 8, 4, 4] = 0x08080404" by (simp_all add: of_be32_def)
  ultimately show ?thesis using a by metis
qed

end
