(* ===== verification/Kdns.thy ===== *)
theory Kdns
  imports User_app
begin

text \<open>
  \<^verbatim>\<open>kernel/lib/dns.c\<close>: the resolver as it was before the shell became a user program. It calls the kernel directly and
  takes its buffers from the allocator. \<open>set_qsection\<close>, \<open>set_num\<close> and \<open>generate_arpa_address\<close> are the same text in both
  files and are those of \<open>Dns\<close>. The functions that differ are modelled here, with the suffix \<open>_k\<close>, and compared with the
  later ones.
\<close>

section \<open>The functions\<close>

partial_function (option) parse_domain_name_k ::
  "addr \<Rightarrow> addr \<Rightarrow> int \<Rightarrow> 'a tcp_state_scheme \<Rightarrow> (int \<times> 'a tcp_state_scheme) option" where
  "parse_domain_name_k rbuf wbuf wlen s =
     (let c = mem8 s rbuf in
      if c = 0 then Some (0, s)
      else if c = 0xc0 then Some (- 1, printstr_app (''ERROR can not parse offset'' @ nl) s)
      else
        let nextlen = uint c in
        if wlen - nextlen < 0
        then Some (- 1, printstr_app (''ERROR not enough space to write parsed domain name'' @ nl) s)
        else
          parse_domain_name_k (rbuf + 1 + ucast c) (wbuf + ucast c + 1) (wlen - nextlen - 1)
            (store (\<lambda>m. wr8 (wbuf + ucast c) DOT (memcpy wbuf (rbuf + 1) (ucast c) m)) s))"

definition dns_hdr_k :: "addr \<Rightarrow> bytes \<Rightarrow> bytes" where
  "dns_hdr_k txbuf m =
     (let m2 = wr16 txbuf (hton16 777) m;
          m3 = wr16 (txbuf + 2) (hton16 (push_bit 8 1 OR push_bit 4 1)) m2;
          m4 = wr16 (txbuf + 4) (hton16 1) m3
      in wr16 (txbuf + 10) 0 (wr16 (txbuf + 8) 0 (wr16 (txbuf + 6) 0 m4)))"

definition dns_ask_k ::
  "'a others \<Rightarrow> int \<Rightarrow> addr \<Rightarrow> addr \<Rightarrow> addr \<Rightarrow> u16 \<Rightarrow> 'a tcp_state_scheme \<Rightarrow> (u32 \<times> int \<times> 'a tcp_state_scheme) res" where
  "dns_ask_k env sock txbuf rxbuf name ty s =
     (case set_qsection (txbuf + ucast sizeof_dns_hdr) name ty DNS_CLASS_IN (mem8 s) of
        None \<Rightarrow> Inl Diverges
      | Some (qlen, m1) \<Rightarrow>
          bindr (udp_socket_send sock RESOLVER_IP 53 txbuf (sizeof_dns_hdr + qlen) (s\<lparr>mem8 := m1\<rparr>)) (\<lambda>s1.
          bindr (udp_socket_recv env sock rxbuf 500 s1) (\<lambda>(ret, s2).
          Inr (qlen, ret, s2))))"

text \<open>\<open>mem_free (txbuf_head); mem_free (rxbuf_head); return v;\<close>\<close>

definition dns_free_k :: "addr \<Rightarrow> addr \<Rightarrow> 'v \<Rightarrow> 'a tcp_state_scheme \<Rightarrow> ('v \<times> 'a tcp_state_scheme) res" where
  "dns_free_k txbuf rxbuf v s = bindr (mem_free txbuf s) (\<lambda>s1. bindr (mem_free rxbuf s1) (\<lambda>s2. Inr (v, s2)))"

definition bad_qdcount_k :: "addr \<Rightarrow> 'a tcp_state_scheme \<Rightarrow> 'a tcp_state_scheme" where
  "bad_qdcount_k rxbuf s =
     printstr_app ('') '' @ nl) (printnum_app (ucast (ntoh16 (rd16 (mem8 s) (rxbuf + 4))))
       (printstr_app ''Can not handle dns response with non one qd count ('' s))"

definition resolve_addr_k ::
  "'a others \<Rightarrow> int \<Rightarrow> addr \<Rightarrow> 'a tcp_state_scheme \<Rightarrow> (u32 \<times> 'a tcp_state_scheme) res" where
  "resolve_addr_k env sock name s =
     (case strlen name (mem8 s) of
        None \<Rightarrow> Inl Diverges
      | Some len \<Rightarrow>
          bindr (mem_alloc (sizeof_dns_hdr + len + 10) ''dns query'' s) (\<lambda>(txbuf, s1).
          bindr (mem_alloc 500 ''dns response'' s1) (\<lambda>(rxbuf, s2).
          bindr (dns_ask_k env sock txbuf rxbuf name DNS_TYPE_A (store (dns_hdr_k txbuf) s2)) (\<lambda>(qlen, ret, s3).
          let m = mem8 s3;
              rx2 = rxbuf + ucast sizeof_dns_hdr + scast qlen;
              rx3 = rx2 + DNS_OFFSET_LEN + DNS_TYPE_LEN + DNS_CLASS_LEN + DNS_TTL_LEN;
              rx4 = rx3 + DNS_LENGTH_LEN
          in if ret = - 1 then dns_free_k txbuf rxbuf 0 (printstr_app (''Failed to resolve dns'' @ nl) s3)
             else if ntoh16 (rd16 m (rxbuf + 4)) \<noteq> 1 then dns_free_k txbuf rxbuf 0 (bad_qdcount_k rxbuf s3)
             else if m rx2 \<noteq> 0xc0
             then dns_free_k txbuf rxbuf 0 (printstr_app (''Can not handle dns response not using offset'' @ nl) s3)
             else if ntoh16 (rd16 m rx3) \<noteq> 4
             then dns_free_k txbuf rxbuf 0 (printstr_app (''Can not handle dns response with non 4 length'' @ nl) s3)
             else
               dns_free_k txbuf rxbuf
                 (push_bit 8 (push_bit 8 (push_bit 8 (ucast (m rx4)) + ucast (m (rx4 + 1))) + ucast (m (rx4 + 2))) + ucast (m (rx4 + 3)))
                 s3))))"

fun ptr_loop_k :: "nat \<Rightarrow> addr \<Rightarrow> addr \<Rightarrow> int \<Rightarrow> 'a tcp_state_scheme \<Rightarrow> (int \<times> 'a tcp_state_scheme) option" where
  "ptr_loop_k 0 rx buf buflen s = Some (- 1, s)"
| "ptr_loop_k (Suc k) rx buf buflen s =
     (let m = mem8 s in
      if m rx \<noteq> 0xc0 then Some (- 1, printstr_app (''Can not handle dns response not using offset'' @ nl) s)
      else
        let rx1 = rx + DNS_OFFSET_LEN;
            ty = ntoh16 (rd16 m rx1);
            rx2 = rx1 + DNS_TYPE_LEN + DNS_CLASS_LEN + DNS_TTL_LEN;
            domain_len = ntoh16 (rd16 m rx2);
            rx3 = rx2 + DNS_LENGTH_LEN
        in if ty \<noteq> DNS_TYPE_PTR then ptr_loop_k k (rx3 + ucast domain_len) buf buflen s
           else parse_domain_name_k rx3 buf buflen s)"

text \<open>\<open>arpa\<close> is the array \<open>arpa_domain\<close> on the stack; nothing clears it.\<close>

definition resolve_host_k ::
  "'a others \<Rightarrow> addr \<Rightarrow> int \<Rightarrow> u32 \<Rightarrow> addr \<Rightarrow> int \<Rightarrow> 'a tcp_state_scheme \<Rightarrow> (int \<times> 'a tcp_state_scheme) res" where
  "resolve_host_k env arpa sock ip buf buflen s =
     bindr (mem_alloc (sizeof_dns_hdr + 100) ''dns query'' s) (\<lambda>(txbuf, s1).
     bindr (mem_alloc 500 ''dns response'' s1) (\<lambda>(rxbuf, s2).
     bindr (dns_ask_k env sock txbuf rxbuf arpa DNS_TYPE_PTR
              (store (generate_arpa_address arpa ip) (store (dns_hdr_k txbuf) s2))) (\<lambda>(qlen, ret, s3).
     let m = mem8 s3; rx1 = rxbuf + ucast sizeof_dns_hdr + scast qlen
     in if ret = - 1 then dns_free_k txbuf rxbuf (- 1) (printstr_app (''udp_socket_recv: TIMEOUT'' @ nl) s3)
        else if ntoh16 (rd16 m (rxbuf + 4)) \<noteq> 1 then dns_free_k txbuf rxbuf (- 1) (bad_qdcount_k rxbuf s3)
        else if ntoh16 (rd16 m (rxbuf + 6)) = 0
        then dns_free_k txbuf rxbuf (- 1) (printstr_app (''Can not handle dns response with zero ancount'' @ nl) s3)
        else if m rx1 \<noteq> 0xc0
        then dns_free_k txbuf rxbuf (- 1) (printstr_app (''Can not handle dns response not using offset'' @ nl) s3)
        else
          (case ptr_loop_k (unat (ntoh16 (rd16 m (rxbuf + 6)))) rx1 buf buflen s3 of
             None \<Rightarrow> Inl Diverges
           | Some (ret1, s4) \<Rightarrow> dns_free_k txbuf rxbuf ret1 s4))))"

section \<open>Agreement with the later version\<close>

lemma print_lit_console: "\<exists>c. print_lit env str s = Inr (s\<lparr>console := c\<rparr>)"
  using printstr_console [of AppScreen "lit str" "io_cli s"] by (auto simp: print_lit_def rflags_defs)

text \<open>
  Names are read in the same way, up to what the screen shows, and reading always ends: every label takes at least one byte of
  the space.
\<close>

lemma parse_domain_name_k_same:
  "\<exists>ret m c c'. parse_domain_name_k r w n s = Some (ret, s\<lparr>mem8 := m, console := c\<rparr>) \<and>
     parse_domain_name env r w n s = Some (Inr (ret, s\<lparr>mem8 := m, console := c'\<rparr>))"
proof (induction "nat n" arbitrary: r w n s rule: less_induct)
  case less
  let ?c = "mem8 s r"
  have keep: "s\<lparr>mem8 := mem8 s, console := c\<rparr> = s\<lparr>console := c\<rparr>" "s\<lparr>console := console s\<rparr> = s" for c by simp_all
  show ?case
  proof (cases "?c = 0 \<or> ?c = 0xc0 \<or> n - uint ?c < 0")
    case True
    obtain c1 c2 where c: "print_lit env (''ERROR can not parse offset'' @ nl) s = Inr (s\<lparr>console := c1\<rparr>)"
      "print_lit env (''ERROR not enough space to write parsed domain name'' @ nl) s = Inr (s\<lparr>console := c2\<rparr>)"
      using print_lit_console by blast
    obtain c3 c4 where c': "printstr_app (''ERROR can not parse offset'' @ nl) s = s\<lparr>console := c3\<rparr>"
      "printstr_app (''ERROR not enough space to write parsed domain name'' @ nl) s = s\<lparr>console := c4\<rparr>"
      using printstr_app_eq by blast
    let ?k = "if ?c = 0 then console s else if ?c = 0xc0 then c3 else c4" and ?u = "if ?c = 0 then console s else if ?c = 0xc0 then c1 else c2"
    have "parse_domain_name_k r w n s = Some (if ?c = 0 then 0 else - 1, s\<lparr>mem8 := mem8 s, console := ?k\<rparr>)"
      by (subst parse_domain_name_k.simps) (simp only: Let_def c', use True in auto)
    moreover have "parse_domain_name env r w n s = Some (Inr (if ?c = 0 then 0 else - 1, s\<lparr>mem8 := mem8 s, console := ?u\<rparr>))"
      by (subst parse_domain_name.simps) (simp only: Let_def c bindr_simps, use True in auto)
    ultimately show ?thesis by blast
  next
    case False
    let ?s = "store (\<lambda>m. wr8 (w + ucast ?c) DOT (memcpy w (r + 1) (ucast ?c) m)) s"
    have "uint ?c > 0" using False by (simp add: word_greater_zero_iff uint_0_iff less_le)
    then have "nat (n - uint ?c - 1) < nat n" using False by linarith
    from less [OF this, of "r + 1 + ucast ?c" "w + ucast ?c + 1" ?s] False show ?thesis
      by (subst parse_domain_name_k.simps, subst parse_domain_name.simps) (auto simp: Let_def store_def)
  qed
qed

lemma ptr_loop_k_same:
  "\<exists>ret m c c'. ptr_loop_k k rx buf n s = Some (ret, s\<lparr>mem8 := m, console := c\<rparr>) \<and>
     ptr_loop env k rx buf n s = Inr (ret, s\<lparr>mem8 := m, console := c'\<rparr>)"
proof (induction k arbitrary: rx)
  case 0
  show ?case by (rule exI [of _ "- 1"], rule exI [of _ "mem8 s"], rule exI [of _ "console s"], rule exI [of _ "console s"]) simp
next
  case (Suc k)
  let ?ty = "ntoh16 (rd16 (mem8 s) (rx + DNS_OFFSET_LEN))" and ?rx2 = "rx + DNS_OFFSET_LEN + DNS_TYPE_LEN + DNS_CLASS_LEN + DNS_TTL_LEN"
  let ?rx3 = "?rx2 + DNS_LENGTH_LEN"
  consider "mem8 s rx \<noteq> 0xc0" | "mem8 s rx = 0xc0" "?ty \<noteq> DNS_TYPE_PTR" | "mem8 s rx = 0xc0" "?ty = DNS_TYPE_PTR" by blast
  then show ?case
  proof cases
    case 1
    then show ?thesis
      by (intro exI [of _ "- 1"] exI [of _ "mem8 s"] exI [of _ "con_after (printstr_app (''Can not handle dns response not using offset'' @ nl)) s"]
          exI [of _ "console s"]) (subst (1) ptr_loop_k.simps, subst printstr_app_eq, simp)
  next
    case 2
    with Suc [of "?rx3 + ucast (ntoh16 (rd16 (mem8 s) ?rx2))"] show ?thesis by (simp add: Let_def)
  next
    case 3
    with parse_domain_name_k_same [of ?rx3 buf n s env] obtain ret m c c' where
      "parse_domain_name_k ?rx3 buf n s = Some (ret, s\<lparr>mem8 := m, console := c\<rparr>)"
      "parse_domain_name env ?rx3 buf n s = Some (Inr (ret, s\<lparr>mem8 := m, console := c'\<rparr>))" by blast
    with 3 have "ptr_loop_k (Suc k) rx buf n s = Some (ret, s\<lparr>mem8 := m, console := c\<rparr>)"
      "ptr_loop env (Suc k) rx buf n s = Inr (ret, s\<lparr>mem8 := m, console := c'\<rparr>)" by (simp_all add: Let_def ended_def)
    then show ?thesis by blast
  qed
qed

section \<open>The functions release what they take\<close>

text \<open>Both buffers are released on every way out.\<close>

lemma dns_free_k_ok:
  assumes "mem_inv s" and "tx \<in> live s" and "rx \<in> live s" and "tx \<noteq> rx"
  shows "\<exists>s'. dns_free_k tx rx v s = Inr (v, s') \<and> mem_inv s' \<and> live s' = live s - {tx, rx} \<and> avail s' = avail s + 2 \<and> mem_rest s s'"
proof -
  from mem_free_ok [OF assms(1,2)] obtain s1 where
    s1: "mem_free tx s = Inr s1" "mem_inv s1" "live s1 = live s - {tx}" "avail s1 = avail s + 1" "mem_rest s s1" by blast
  from s1(3) assms(3,4) have "rx \<in> live s1" by auto
  from mem_free_ok [OF s1(2) this] obtain s2 where
    s2: "mem_free rx s1 = Inr s2" "mem_inv s2" "live s2 = live s1 - {rx}" "avail s2 = avail s1 + 1" "mem_rest s1 s2" by blast
  have "live s2 = live s - {tx, rx}" using s1(3) s2(3) by auto
  with s1 s2 kmem.rest_trans [OF s1(5) s2(5)] show ?thesis by (simp add: dns_free_k_def)
qed

lemma messages_inv:
  "mem_inv (printstr_app str s) = mem_inv s" "live (printstr_app str s) = live s" "avail (printstr_app str s) = avail s"
  "mem_inv (printnum_app n s) = mem_inv s" "live (printnum_app n s) = live s" "avail (printnum_app n s) = avail s"
  "mem8 (printstr_app str s) = mem8 s" "mem8 (printnum_app n s) = mem8 s" "rflags (printstr_app str s) = rflags s" "rflags (printnum_app n s) = rflags s"
  by (simp_all add: printstr_app_eq [of _ s] printnum_app_eq [of _ s] mem_view)

definition freed :: "addr \<Rightarrow> addr \<Rightarrow> 'a tcp_state_scheme \<Rightarrow> 'a tcp_state_scheme \<Rightarrow> bool" where
  "freed tx rx s s' = (mem_inv s' \<and> live s' = live s - {tx, rx} \<and> avail s' = avail s + 2 \<and> rflags s' = rflags s)"

lemma dns_free_k_freed:
  assumes "mem_inv s" and "tx \<in> live s" and "rx \<in> live s" and "tx \<noteq> rx"
    and "mem_inv t = mem_inv s" and "live t = live s" and "avail t = avail s" and "rflags t = rflags s"
  shows "\<exists>s'. dns_free_k tx rx v t = Inr (v, s') \<and> freed tx rx s s' \<and> mem8 s' = mem8 t"
  using dns_free_k_ok [of t tx rx v] assms by (auto simp: freed_def mem_rest_def)

text \<open>What the functions make of the outcome of the question.\<close>

lemma resolve_addr_k_answer:
  assumes "strlen name (mem8 s) = Some len" and "mem_alloc (sizeof_dns_hdr + len + 10) ''dns query'' s = Inr (tx, s1)"
    and "mem_alloc 500 ''dns response'' s1 = Inr (rx, s2)"
    and "dns_ask_k env sock tx rx name DNS_TYPE_A (store (dns_hdr_k tx) s2) = Inr (qlen, ret, s3)"
    and inv: "mem_inv s3" "tx \<in> live s3" "rx \<in> live s3" "tx \<noteq> rx"
  shows "\<exists>s'. resolve_addr_k env sock name s = Inr (if ret = - 1 then 0 else dns_answer rx qlen (mem8 s3), s') \<and>
           freed tx rx s3 s' \<and> mem8 s' = mem8 s3"
proof -
  have ok: "\<exists>s'. dns_free_k tx rx v t = Inr (v, s') \<and> freed tx rx s3 s' \<and> mem8 s' = mem8 s3"
    if "mem_inv t = mem_inv s3" "live t = live s3" "avail t = avail s3" "rflags t = rflags s3" "mem8 t = mem8 s3" for v :: u32 and t
    using dns_free_k_freed [OF inv that(1-4), of v] that(5) by simp
  show ?thesis unfolding resolve_addr_k_def assms(1-4) option.case bindr_simps prod.case Let_def dns_answer_def bad_qdcount_k_def
    by (auto intro!: ok simp: messages_inv)
qed

text \<open>What the resolver of the shell reads out of the message: its value and the memory it leaves.\<close>

definition host_read :: "'a others \<Rightarrow> addr \<Rightarrow> u32 \<Rightarrow> addr \<Rightarrow> int \<Rightarrow> 'a tcp_state_scheme \<Rightarrow> int \<times> bytes" where
  "host_read env rx qlen buf buflen s =
     (case host_answer env rx qlen buf buflen s of Inl e \<Rightarrow> (- 1, mem8 s) | Inr (v, s') \<Rightarrow> (v, mem8 s'))"

lemma resolve_host_k_answer:
  assumes "mem_alloc (sizeof_dns_hdr + 100) ''dns query'' s = Inr (tx, s1)" and "mem_alloc 500 ''dns response'' s1 = Inr (rx, s2)"
    and "dns_ask_k env sock tx rx arpa DNS_TYPE_PTR (store (generate_arpa_address arpa ip) (store (dns_hdr_k tx) s2)) = Inr (qlen, ret, s3)"
    and inv: "mem_inv s3" "tx \<in> live s3" "rx \<in> live s3" "tx \<noteq> rx"
  shows "\<exists>v s'. resolve_host_k env arpa sock ip buf buflen s = Inr (v, s') \<and> freed tx rx s3 s' \<and>
           (v, mem8 s') = (if ret = - 1 then (- 1, mem8 s3) else host_read env rx qlen buf buflen s3)"
proof -
  have ok: "\<exists>s'. dns_free_k tx rx v t = Inr (v, s') \<and> freed tx rx s3 s' \<and> mem8 s' = m"
    if "mem_inv t = mem_inv s3" "live t = live s3" "avail t = avail s3" "rflags t = rflags s3" "mem8 t = m" for v :: int and t m
    using dns_free_k_freed [OF inv that(1-4), of v] that(5) by simp
  let ?an = "ntoh16 (rd16 (mem8 s3) (rx + 6))" and ?rx1 = "rx + ucast sizeof_dns_hdr + scast qlen"
  from ptr_loop_k_same [of "unat ?an" ?rx1 buf buflen s3 env] obtain v m c c' where
    l: "ptr_loop_k (unat ?an) ?rx1 buf buflen s3 = Some (v, s3\<lparr>mem8 := m, console := c\<rparr>)"
      "ptr_loop env (unat ?an) ?rx1 buf buflen s3 = Inr (v, s3\<lparr>mem8 := m, console := c'\<rparr>)" by blast
  have i: "mem_inv (s3\<lparr>mem8 := m, console := c\<rparr>) = mem_inv s3" "live (s3\<lparr>mem8 := m, console := c\<rparr>) = live s3"
    "avail (s3\<lparr>mem8 := m, console := c\<rparr>) = avail s3" "rflags (s3\<lparr>mem8 := m, console := c\<rparr>) = rflags s3" by (simp_all add: mem_view)
  show ?thesis unfolding resolve_host_k_def assms(1-3) bindr_simps prod.case Let_def host_read_def host_answer_def l option.case sum.case bad_qdcount_k_def
    by (auto intro!: ok simp: messages_inv i)
qed

text \<open>Two fresh blocks taken from the allocator, and nothing else changed.\<close>

definition took_two :: "addr \<Rightarrow> addr \<Rightarrow> 'a tcp_state_scheme \<Rightarrow> 'a tcp_state_scheme \<Rightarrow> bool" where
  "took_two tx rx s s2 =
     (tx \<noteq> rx \<and> tx \<notin> live s \<and> rx \<notin> live s \<and> mem_inv s2 \<and> live s2 = {tx, rx} \<union> live s \<and> avail s2 = avail s - 2 \<and> mem_rest s s2)"

lemma alloc_two:
  assumes "mem_inv s" and "2 \<le> avail s" and "mem_fits n"
  shows "\<exists>tx s1 rx s2. mem_alloc n nm s = Inr (tx, s1) \<and> mem_alloc 500 nm' s1 = Inr (rx, s2) \<and> took_two tx rx s s2"
proof -
  have "ucast n \<le> MEM_GRANULARITY" "ucast (500 :: u32) \<le> MEM_GRANULARITY" "avail s > 0"
    using assms(2,3) by (simp_all add: mem_fits_def MEM_GRANULARITY_def)
  from mem_alloc_ok [OF assms(1) this(1,3), of nm] obtain tx s1 where
    s1: "mem_alloc n nm s = Inr (tx, s1)" "mem_inv s1" "tx \<notin> live s" "live s1 = insert tx (live s)" "avail s1 = avail s - 1" "mem_rest s s1" by blast
  have "avail s1 > 0" using s1(5) assms(2) by simp
  from mem_alloc_ok [OF s1(2) \<open>ucast 500 \<le> MEM_GRANULARITY\<close> this, of nm'] obtain rx s2 where
    s2: "mem_alloc 500 nm' s1 = Inr (rx, s2)" "mem_inv s2" "rx \<notin> live s1" "live s2 = insert rx (live s1)" "avail s2 = avail s1 - 1" "mem_rest s1 s2" by blast
  have "took_two tx rx s s2" using s1 s2 kmem.rest_trans [OF s1(6) s2(6)] by (auto simp: took_two_def)
  with s1(1) s2(1) show ?thesis by blast
qed

text \<open>
  C38: the resolver of the kernel. With two blocks free both functions build their question in two fresh blocks.
  Whatever the outcome of the question is, as long as the allocator is intact and the two blocks are still allocated,
  they return what the later resolver reads out of the same message (zero, or \<open>-1\<close>, when no answer came), and they release
  exactly the two blocks, on every path.
\<close>

theorem kernel_resolver_correct:
  assumes inv: "mem_inv s" "2 \<le> avail s" and name: "strlen name (mem8 s) = Some len" "mem_fits (sizeof_dns_hdr + len + 10)"
  shows "(\<exists>tx rx s2. took_two tx rx s s2 \<and>
            (\<forall>qlen ret s3. dns_ask_k env sock tx rx name DNS_TYPE_A (store (dns_hdr_k tx) s2) = Inr (qlen, ret, s3) \<longrightarrow>
               mem_inv s3 \<longrightarrow> {tx, rx} \<subseteq> live s3 \<longrightarrow>
               (\<exists>s'. resolve_addr_k env sock name s = Inr (if ret = - 1 then 0 else dns_answer rx qlen (mem8 s3), s') \<and> freed tx rx s3 s'))) \<and>
         (\<exists>tx rx s2. took_two tx rx s s2 \<and>
            (\<forall>qlen ret s3. dns_ask_k env sock tx rx arpa DNS_TYPE_PTR (store (generate_arpa_address arpa ip) (store (dns_hdr_k tx) s2)) =
                 Inr (qlen, ret, s3) \<longrightarrow> mem_inv s3 \<longrightarrow> {tx, rx} \<subseteq> live s3 \<longrightarrow>
               (\<exists>v s'. resolve_host_k env arpa sock ip buf buflen s = Inr (v, s') \<and> freed tx rx s3 s' \<and>
                  (v, mem8 s') = (if ret = - 1 then (- 1, mem8 s3) else host_read env rx qlen buf buflen s3))))"
proof -
  have "mem_fits (sizeof_dns_hdr + 100)" by (simp add: mem_fits_def sizeof_dns_hdr_def MEM_GRANULARITY_def)
  from alloc_two [OF inv this, of "''dns query''" "''dns response''"] obtain tx s1 rx s2 where
    h: "mem_alloc (sizeof_dns_hdr + 100) ''dns query'' s = Inr (tx, s1)" "mem_alloc 500 ''dns response'' s1 = Inr (rx, s2)" "took_two tx rx s s2" by blast
  from alloc_two [OF inv name(2), of "''dns query''" "''dns response''"] obtain tx' s1' rx' s2' where
    a: "mem_alloc (sizeof_dns_hdr + len + 10) ''dns query'' s = Inr (tx', s1')" "mem_alloc 500 ''dns response'' s1' = Inr (rx', s2')"
      "took_two tx' rx' s s2'" by blast
  have ne: "tx \<noteq> rx" "tx' \<noteq> rx'" using h(3) a(3) by (simp_all add: took_two_def)
  have "\<exists>s'. resolve_addr_k env sock name s = Inr (if ret = - 1 then 0 else dns_answer rx' qlen (mem8 s3), s') \<and> freed tx' rx' s3 s'"
    if "dns_ask_k env sock tx' rx' name DNS_TYPE_A (store (dns_hdr_k tx') s2') = Inr (qlen, ret, s3)" "mem_inv s3" "{tx', rx'} \<subseteq> live s3" for qlen ret s3
    using resolve_addr_k_answer [OF name(1) a(1,2) that(1,2) _ _ ne(2)] that(3) by blast
  moreover have "\<exists>v s'. resolve_host_k env arpa sock ip buf buflen s = Inr (v, s') \<and> freed tx rx s3 s' \<and>
      (v, mem8 s') = (if ret = - 1 then (- 1, mem8 s3) else host_read env rx qlen buf buflen s3)"
    if "dns_ask_k env sock tx rx arpa DNS_TYPE_PTR (store (generate_arpa_address arpa ip) (store (dns_hdr_k tx) s2)) = Inr (qlen, ret, s3)"
      "mem_inv s3" "{tx, rx} \<subseteq> live s3" for qlen ret s3
    using resolve_host_k_answer [OF h(1,2) that(1,2) _ _ ne(1)] that(3) by blast
  ultimately show ?thesis using a(3) h(3) by (intro conjI) blast+
qed

end
