(* ===== verification/Resolve.thy ===== *)
theory Resolve
  imports Kdns Blocking
begin

text \<open>
  The resolver of the kernel from end to end: the question goes through UDP, IP and the card's transmit ring, the calling task sleeps, a name
  server that answers only this question replies, and the address arrives at the caller.
\<close>

section \<open>The question\<close>

definition query :: "u8 list list \<Rightarrow> u8 list" where
  "query ls = dns_header 777 (push_bit 8 1 OR push_bit 4 1) 1 0 0 0 @ question ls DNS_TYPE_A DNS_CLASS_IN"

lemma dns_hdr_k_bytes: "dns_hdr_k tx m = wr_list tx (dns_header 777 (push_bit 8 1 OR push_bit 4 1) 1 0 0 0) m"
proof -
  have z: "wr16 a 0 m = wr16 a (hton16 0) m" for a m by (simp add: hton16_def reverse16_def)
  show ?thesis
    unfolding dns_hdr_k_def Let_def dns_header_def z wr16_wr_list be16_def wr_list_append by (simp add: add.assoc)
qed

lemma length_query: "length (query ls) = 12 + length (question ls DNS_TYPE_A DNS_CLASS_IN)"
  by (simp add: query_def dns_header_def)

lemma length_question: "ls \<noteq> [] \<Longrightarrow> length (question ls ty cls) = length (dotted ls) + 6"
  using length_dotted [of ls] by (simp add: question_def)

text \<open>The question is written behind the header; name and question are in different blocks.\<close>

lemma query_written:
  assumes c: "cstr m name (dotted ls)" and ls: "ls \<noteq> []" "\<forall>l \<in> set ls. label_ok l" and len: "length (dotted ls) \<le> 8000"
    and ap: "region tx (length (query ls)) \<inter> region name (Suc (length (dotted ls))) = {}"
  shows "set_qsection (tx + ucast sizeof_dns_hdr) name DNS_TYPE_A DNS_CLASS_IN (dns_hdr_k tx m) =
           Some (of_nat (length (question ls DNS_TYPE_A DNS_CLASS_IN)), wr_list tx (query ls) m)"
proof -
  let ?q = "question ls DNS_TYPE_A DNS_CLASS_IN" and ?h = "dns_header 777 (push_bit 8 1 OR push_bit 4 1) 1 0 0 0"
  have h: "length ?h = 12" by (simp add: dns_header_def)
  have s: "tx + ucast sizeof_dns_hdr = tx + of_nat 12" by (simp add: sizeof_dns_hdr_def)
  have sub: "region (tx + of_nat 12) (length ?q) \<subseteq> region tx (length (query ls))" "region tx (length ?h) \<subseteq> region tx (length (query ls))"
    unfolding length_query h by (rule region_offset, rule region_mono, simp)
  have "cstr (dns_hdr_k tx m) name (dotted ls)"
    unfolding dns_hdr_k_bytes using ap sub(2) c by (subst cstr_wr_list) auto
  moreover have "\<forall>l \<in> set ls. l \<noteq> [] \<and> DOT \<notin> set l" using ls(2) by (auto simp: label_ok_def)
  moreover have "length ?q < 2147483648" using len by (simp add: length_question [OF ls(1)])
  moreover have "region (tx + of_nat 12) (length ?q) \<inter> region name (Suc (length (dotted ls))) = {}" using ap sub(1) by blast
  ultimately have "set_qsection (tx + of_nat 12) name DNS_TYPE_A DNS_CLASS_IN (dns_hdr_k tx m) =
      Some (of_nat (length ?q), wr_list (tx + of_nat 12) ?q (dns_hdr_k tx m))" by (intro set_qsection_ok ls(1))
  then show ?thesis unfolding s dns_hdr_k_bytes query_def wr_list_append h .
qed

text \<open>The question as the card finds it in the transmit buffer.\<close>

definition query_sent :: "addr \<Rightarrow> u8 list \<Rightarrow> u16 \<Rightarrow> u8 list list \<Rightarrow> net_device \<Rightarrow> bytes \<Rightarrow> bool" where
  "query_sent f mac port ls dev m =
     (ip_frame m f mac (hw_addr dev) (of_nat (28 + length (query ls))) 64 IP_HDR_PROTO_UDP (ip_addr dev) RESOLVER_IP \<and>
      udp_ok m (f + 34) port 53 (query ls))"

lemma question_sent:
  fixes s :: "'a tcp_state_scheme"
  assumes i: "udp_bound s port i" and k: "tables_ok s" and send: "can_send RESOLVER_IP mac s"
    and msg: "bytes_at (mem8 s) tx (length (query ls)) = query ls" "in_block s tx (length (query ls))" "42 + length (query ls) \<le> 8192"
  shows "\<exists>s3. udp_socket_send (int i) RESOLVER_IP 53 tx (of_nat (length (query ls))) s = Inr s3 \<and> net_same s s3 \<and>
           passed_on (42 + length (query ls)) s s3 \<and> query_sent (desc_addr (tx_next s)) mac port ls (netdev s) (mem8 s3)"
proof -
  have u: "i < UDP_SOCKET_COUNT" "length (udp_sockets s) = UDP_SOCKET_COUNT" "us_port (udp_sockets s ! i) = port"
    using i k by (simp_all add: udp_bound_def tables_ok_def)
  from udp_sent [OF send u(1,2) msg(2,3), of 53] show ?thesis unfolding query_sent_def msg(1) u(3) by blast
qed

text \<open>The transmit buffer lies below the heap: what it holds stays there while the caller waits.\<close>

lemma query_stays:
  assumes "query_sent f mac port ls dev m" and "f = desc_addr d" "dma_ok d" and "42 + length (query ls) \<le> 8192"
    and "\<forall>x. unat x < unat MEM_START \<longrightarrow> m' x = m x"
  shows "query_sent f mac port ls dev m'"
proof -
  let ?k = "42 + length (query ls)"
  have "m' (f + of_nat j) = m (f + of_nat j)" if "j < ?k" for j
    using dma_region [OF assms(3), of j] that assms(2,4,5) by simp
  then have b: "bytes_at m' f ?k = bytes_at m f ?k" by (intro bytes_at_cong)
  show ?thesis using assms(1) copied_ip_frame [OF b] copied_udp [OF b, of 34 "query ls"] by (simp add: query_sent_def)
qed

section \<open>States that differ in memory only\<close>

text \<open>Contents and allocation of memory and the flags register.\<close>

definition host_same :: "'a tcp_state_scheme \<Rightarrow> 'a tcp_state_scheme \<Rightarrow> bool" where
  "host_same s s' = (\<exists>f m fm mh. s' = s\<lparr>rflags := f, mem8 := m, freemem := fm, memhdrs := mh\<rparr>)"

lemma host_same_facts:
  assumes "host_same s s'"
  shows "tables_ok s' = tables_ok s" "udp_bound s' = udp_bound s" "no_raw_reader p s' = no_raw_reader p s" "sched_good idle s' = sched_good idle s"
    "taskctl s' = taskctl s" "tick s' = tick s" "netdev s' = netdev s" "tx_next s' = tx_next s" "passed_on n s' t = passed_on n s t"
    "can_send dip mac s \<Longrightarrow> mem_inv s' \<Longrightarrow> 4 \<le> avail s' \<Longrightarrow> can_send dip mac s'"
proof -
  from assms obtain f m fm mh where e: "s' = s\<lparr>rflags := f, mem8 := m, freemem := fm, memhdrs := mh\<rparr>" by (auto simp: host_same_def)
  have bd: "udp_bound s' = udp_bound s" by (simp add: e udp_bound_def fun_eq_iff)
  show "tables_ok s' = tables_ok s" "udp_bound s' = udp_bound s" "no_raw_reader p s' = no_raw_reader p s" "sched_good idle s' = sched_good idle s"
    "taskctl s' = taskctl s" "tick s' = tick s" "netdev s' = netdev s" "tx_next s' = tx_next s" "passed_on n s' t = passed_on n s t"
    by (fact bd | simp add: e tables_ok_def no_raw_reader_def sched_good_def sched_view tflag_def tprio_def tx_next_def passed_on_def)+
  assume "can_send dip mac s" "mem_inv s'" "4 \<le> avail s'"
  then show "can_send dip mac s'" by (auto simp: can_send_def tx_ready_def nic_ok_def find_mac_addr_def tx_next_def e)
qed

lemma host_same_inv:
  assumes inv: "sock_inv sockqs squeue s ts ws Q" and same: "host_same s s'" and mem: "mem_inv s'" "live s \<subseteq> live s'"
  shows "sock_inv sockqs squeue s' ts ws Q"
proof -
  from same obtain f m fm mh where e: "s' = s\<lparr>rflags := f, mem8 := m, freemem := fm, memhdrs := mh\<rparr>" by (auto simp: host_same_def)
  have "wq_inv s' ts ws" using inv mem by (auto simp: sock_inv_def wq_view wq_ok_def mem_view e)
  then show ?thesis by (rule socks.inv_frame [OF inv]) (simp add: e, simp add: e, rule mem(2), rule socks.get_more, simp add: e)
qed

text \<open>Sending leaves the host as it was.\<close>

lemma net_same_facts:
  assumes "net_same s s'"
  shows "tables_ok s' = tables_ok s" "udp_bound s' = udp_bound s" "no_raw_reader p s' = no_raw_reader p s" "sched_good idle s' = sched_good idle s"
    "taskctl s' = taskctl s" "tick s' = tick s" "netdev s' = netdev s" "rflags s' = rflags s" "live s' = live s" "avail s' = avail s" "nic_ok s'"
proof -
  have f: "udp_sockets s' = udp_sockets s" "raw_sockets s' = raw_sockets s" "task_links s' = task_links s" "taskctl s' = taskctl s"
    using assms by (auto simp: net_same_def)
  show "tables_ok s' = tables_ok s" by (rule net_same_sock(4) [OF assms])
  show "udp_bound s' = udp_bound s" "no_raw_reader p s' = no_raw_reader p s" "sched_good idle s' = sched_good idle s"
    by (simp_all only: f udp_bound_def no_raw_reader_def sched_good_def sched_view tflag_def tprio_def fun_eq_iff simp_thms)
  show "taskctl s' = taskctl s" "tick s' = tick s" "netdev s' = netdev s" "rflags s' = rflags s" "live s' = live s" "avail s' = avail s" "nic_ok s'"
    using assms by (auto simp: net_same_def)
qed

section \<open>From the question to the answer\<close>

text \<open>
  A running system whose task is about to ask through socket \<open>i\<close>, the only one bound to its port: nothing is pending there, and the
  next hop towards the resolver is known.
\<close>

definition may_ask ::
  "nat \<Rightarrow> nat \<Rightarrow> nat \<Rightarrow> u16 \<Rightarrow> u8 list \<Rightarrow> addr list \<Rightarrow> (sockq \<Rightarrow> addr list) \<Rightarrow> nat \<Rightarrow> 'a tcp_state_scheme \<Rightarrow> bool" where
  "may_ask idle c i port mac ts Q n s =
     (sock_inv sockqs squeue s ts [] Q \<and> tables_ok s \<and> Q (UdpRx i) = [] \<and> n \<le> avail s \<and> tick s + 5000 \<noteq> END_TICK \<and>
      sched_good idle s \<and> c = current_task (taskctl s) \<and> c \<noteq> idle \<and>
      udp_bound s port i \<and> (\<forall>j. udp_bound s port j \<longrightarrow> j = i) \<and> no_raw_reader IP_HDR_PROTO_UDP s \<and> can_send RESOLVER_IP mac s)"

text \<open>
  A name server that answers the question for \<open>ls\<close>, when it finds it as a valid frame in the transmit ring, with the frame \<open>F\<close>, which the
  card stores in the buffer of descriptor \<open>d\<close>.
\<close>

definition answers ::
  "nat \<Rightarrow> nat \<Rightarrow> u16 \<Rightarrow> u8 list \<Rightarrow> u8 list list \<Rightarrow> 'a tcp_state_scheme \<Rightarrow> u8 list \<Rightarrow> ring_desc \<Rightarrow> ('a tcp_state_scheme \<Rightarrow> 'a tcp_state_scheme) \<Rightarrow> bool" where
  "answers c i port mac ls s F d dma =
     (\<forall>s1. tcause s1 c = UdpSock i \<longrightarrow> nic_ok s1 \<longrightarrow> passed_on (42 + length (query ls)) s s1 \<longrightarrow>
        query_sent (desc_addr (tx_next s)) mac port ls (netdev s) (mem8 s1) \<longrightarrow> stored F d s1 (dma s1))"

lemma may_askD:
  assumes "may_ask idle c i port mac ts Q n s"
  shows "sock_inv sockqs squeue s ts [] Q" "tables_ok s" "Q (UdpRx i) = []" "n \<le> avail s" "tick s + 5000 \<noteq> END_TICK"
    "sched_good idle s" "c = current_task (taskctl s)" "c \<noteq> idle" "udp_bound s port i" "\<forall>j. udp_bound s port j \<longrightarrow> j = i"
    "no_raw_reader IP_HDR_PROTO_UDP s" "can_send RESOLVER_IP mac s" "mem_inv s"
proof -
  show i: "sock_inv sockqs squeue s ts [] Q" "tables_ok s" "Q (UdpRx i) = []" "n \<le> avail s" "tick s + 5000 \<noteq> END_TICK"
    "sched_good idle s" "c = current_task (taskctl s)" "c \<noteq> idle" "udp_bound s port i" "\<forall>j. udp_bound s port j \<longrightarrow> j = i"
    "no_raw_reader IP_HDR_PROTO_UDP s" "can_send RESOLVER_IP mac s"
    using assms unfolding may_ask_def by blast+
  show "mem_inv s" using i(1) by (auto simp: sock_inv_def dest: wq_inv_mem)
qed

lemma may_ask_same:
  assumes "may_ask idle c i port mac ts Q n s" and "host_same s s'" and "mem_inv s'" "live s \<subseteq> live s'" "n' \<le> avail s'" "4 \<le> n'"
  shows "may_ask idle c i port mac ts Q n' s'"
  using assms host_same_inv [OF _ assms(2-4)] by (simp add: may_ask_def host_same_facts [OF assms(2)])

lemma answers_same: "host_same s s' \<Longrightarrow> answers c i port mac ls s' F d dma = answers c i port mac ls s F d dma"
  by (simp add: answers_def host_same_facts)

lemma question_answered:
  fixes s :: "'a tcp_state_scheme"
  assumes ask: "may_ask idle c i port mac ts Q 8 s"
    and msg: "bytes_at (mem8 s) tx (length (query ls)) = query ls" "in_block s tx (length (query ls))" "42 + length (query ls) \<le> 8192"
    and rx: "in_block s rx 500"
    and fr: "ip_frame m e dmac smac len ttl IP_HDR_PROTO_UDP sip (ip_addr (netdev s))" "udp_ok m (e + 34) sport port answer" "length answer \<le> 500"
    and chip: "chip 0 AND RxBufEmpty = 0" "chip 1 AND RxBufEmpty \<noteq> 0"
    and server: "answers c i port mac ls s (bytes_at m e (42 + length answer)) d dma"
  shows "\<exists>s3. udp_socket_send (int i) RESOLVER_IP 53 tx (of_nat (length (query ls))) s = Inr s3 \<and> rflags s3 = rflags s \<and>
           (\<forall>f. \<exists>s5 ts5. udp_socket_recv (traffic dma chip) (int i) rx 500 (set_rflags f s3) = Inr (int (length answer), s5) \<and>
              bytes_at (mem8 s5) rx (length answer) = answer \<and> sock_inv sockqs squeue s5 ts5 [] Q \<and> tables_ok s5 \<and> rflags s5 = f \<and> live s \<subseteq> live s5)"
proof -
  note a = may_askD [OF ask]
  from question_sent [OF a(9,2,12) msg] obtain s3 where
    s3: "udp_socket_send (int i) RESOLVER_IP 53 tx (of_nat (length (query ls))) s = Inr s3" "net_same s s3"
      "passed_on (42 + length (query ls)) s s3" "query_sent (desc_addr (tx_next s)) mac port ls (netdev s) (mem8 s3)" by blast
  note n = net_same_facts [OF s3(2)]
  have "\<exists>s5 ts5. udp_socket_recv (traffic dma chip) (int i) rx 500 (set_rflags f s3) = Inr (int (length answer), s5) \<and>
      bytes_at (mem8 s5) rx (length answer) = answer \<and> sock_inv sockqs squeue s5 ts5 [] Q \<and> tables_ok s5 \<and> rflags s5 = f \<and> live s \<subseteq> live s5" for f
  proof -
    let ?b = "set_rflags f s3"
    have h: "host_same s3 ?b"
      unfolding host_same_def by (intro exI [of _ f] exI [of _ "mem8 s3"] exI [of _ "freemem s3"] exI [of _ "memhdrs s3"]) (simp add: rflags_defs)
    note g = host_same_facts [OF h]
    have v: "live ?b = live s3" "avail ?b = avail s3" "nic_ok ?b = nic_ok s3" "nic ?b = nic s3" "mem8 ?b = mem8 s3" "rflags ?b = f"
      by (simp_all add: rflags_defs mem_view nic_ok_def)
    have i3: "sock_inv sockqs squeue ?b ts [] Q" using net_same_inv [OF a(1) s3(2)] by (simp add: flags_inv)
    have k3: "tables_ok ?b" "8 \<le> avail ?b" "tick ?b + 5000 \<noteq> END_TICK" "sched_good idle ?b" "c = current_task (taskctl ?b)"
      "udp_bound ?b port i" "\<forall>j. udp_bound ?b port j \<longrightarrow> j = i" "no_raw_reader IP_HDR_PROTO_UDP ?b"
      unfolding g n v by (fact a)+
    have blk: "in_block ?b rx (nat 500)" using rx in_block_mono [of s rx 500 ?b] by (simp add: n v)
    have "stored (bytes_at m e (42 + length answer)) d s4 (dma s4)" if w: "udp_waiting idle c i ?b s4" for s4
    proof -
      note wk = waiting_keeps [OF w k3(1), unfolded v]
      have "query_sent (desc_addr (tx_next s)) mac port ls (netdev s) (mem8 s4)"
        by (rule query_stays [OF s3(4) refl _ msg(3)]) (use a(12) wk(10) in \<open>simp_all add: can_send_def\<close>)
      moreover have "passed_on (42 + length (query ls)) s s4" "nic_ok s4" using s3(3) n(11) wk(6,7) g(7) by (simp_all add: passed_on_def nic_ok_def)
      ultimately show ?thesis using server wk(8) by (simp add: answers_def)
    qed
    then have dma: "\<forall>s4. udp_waiting idle c i ?b s4 \<longrightarrow> stored (bytes_at m e (42 + length answer)) d s4 (dma s4)" by blast
    have l: "42 + length answer < 65536" "(0 :: int) \<le> 500" "ip_addr (netdev ?b) = ip_addr (netdev s)" using fr(3) by (simp_all add: g n)
    from sleeper_served [OF i3 k3(1) a(3) k3(2-5) a(8) k3(6-8) l(2) blk fr(1) [folded l(3)] fr(2) l(1) chip dma] obtain s5 ts5 where
      "udp_socket_recv (traffic dma chip) (int i) rx 500 ?b = Inr (int (min (nat 500) (length answer)), s5)"
      "bytes_at (mem8 s5) rx (min (nat 500) (length answer)) = take (nat 500) answer" "sock_inv sockqs squeue s5 ts5 [] Q" "tables_ok s5"
      "rflags s5 = rflags ?b" "live ?b \<subseteq> live s5" by blast
    then show ?thesis using fr(3) by (intro exI [of _ s5] exI [of _ ts5]) (simp add: v n)
  qed
  with s3(1) n(8) show ?thesis by blast
qed

text \<open>When the task continues and nothing has arrived the receive call reports that.\<close>

lemma question_unanswered:
  assumes ask: "may_ask idle c i port mac ts Q 8 s"
    and msg: "bytes_at (mem8 s) tx (length (query ls)) = query ls" "in_block s tx (length (query ls))" "42 + length (query ls) \<le> 8192"
  shows "\<exists>s3 s5. udp_socket_send (int i) RESOLVER_IP 53 tx (of_nat (length (query ls))) s = Inr s3 \<and>
           udp_socket_recv Inr (int i) rx 500 s3 = Inr (- 1, s5) \<and> mem_inv s5 \<and> live s \<subseteq> live s5"
proof -
  note a = may_askD [OF ask]
  from question_sent [OF a(9,2,12) msg] obtain s3 where
    s3: "udp_socket_send (int i) RESOLVER_IP 53 tx (of_nat (length (query ls))) s = Inr s3" "net_same s s3" by blast
  note n = net_same_facts [OF s3(2)]
  have iU: "i < UDP_SOCKET_COUNT" and av: "3 \<le> avail s" using a(4,9) by (simp_all add: udp_bound_def)
  have k3: "tables_ok s3" "3 \<le> avail s3" "tick s3 + 5000 \<noteq> END_TICK" "sched_good idle s3" "c = current_task (taskctl s3)"
    unfolding n by (fact a av)+
  from udp_recv_sleeps [OF net_same_inv [OF a(1) s3(2)] k3(1) iU a(3) k3(2-5) a(8), of rx 500] obtain s4 ts4 where
    s4: "sock_inv sockqs squeue s4 ts4 [] Q" "udp_waiting idle c i s3 s4"
    and go: "\<forall>env s2. env s4 = Inr s2 \<longrightarrow> length (udp_sockets s2) = UDP_SOCKET_COUNT \<longrightarrow>
              udp_socket_recv env (int i) rx 500 s3 =
                (let s5 = set_rflags (rflags s3) s2 in
                 if list_empty (us_rx_data_list (udp_sockets s5 ! i)) then Inr (- 1, s5) else udp_socket_recv env (int i) rx 500 s5)" by blast
  let ?s5 = "set_rflags (rflags s3) s4"
  note w = waiting_keeps [OF s4(2) k3(1)]
  have l4: "length (udp_sockets s4) = UDP_SOCKET_COUNT" using w(1) by (simp add: tables_ok_def)
  have i5: "sock_inv sockqs squeue ?s5 ts4 [] Q" using s4(1) by (simp add: flags_inv)
  have "udp_socket_recv Inr (int i) rx 500 s3 = Inr (- 1, ?s5)" using go l4 udp_queue_empty [OF i5 iU] a(3) by (simp add: Let_def)
  moreover have "mem_inv ?s5" using i5 by (auto simp: sock_inv_def dest: wq_inv_mem)
  moreover have "live s \<subseteq> live ?s5" using w(3) n(9) by (simp add: rflags_defs mem_view)
  ultimately show ?thesis using s3(1) by blast
qed

section \<open>The resolver of the user library\<close>

text \<open>The two system calls it makes.\<close>

lemma dns_ask_calls:
  assumes i: "i < UDP_SOCKET_COUNT" and q: "set_qsection (tx + ucast sizeof_dns_hdr) name ty DNS_CLASS_IN (mem8 s) = Some (of_nat n, m)"
    and n: "12 + n < 2147483648"
    and send: "udp_socket_send (int i) RESOLVER_IP 53 tx (of_nat (12 + n)) (io_cli (s\<lparr>mem8 := m\<rparr>)) = Inr s3"
    and recv: "udp_socket_recv env (int i) rx 500 (io_cli (set_rflags (rflags s) s3)) = Inr (k, s5)"
  shows "dns_ask env (int i) tx rx name ty s = Inr (of_nat n, k, set_rflags (rflags s) s5)"
proof -
  have c: "c_int (int i)" "c_int 500" "c_int (int (12 + n))" using i n by (simp_all add: c_int_def UDP_SOCKET_COUNT_def)
  have sz: "sint (sizeof_dns_hdr + of_nat n) = int (12 + n)"
  proof -
    have "sizeof_dns_hdr + of_nat n = (of_nat (12 + n) :: u32)" by (simp add: sizeof_dns_hdr_def)
    then show ?thesis using n by (simp add: signed_of_nat signed_take_bit_int_eq_self del: of_nat_add)
  qed
  note d = sys_call_def syscall_handler_def to_from_int [OF c(1)] to_from_int [OF c(2)] ucast_back ucast_from_int bindr_assoc
  have "sys_udp_socket_send env (int i) RESOLVER_IP 53 tx (int (12 + n)) (s\<lparr>mem8 := m\<rparr>) = Inr (0, set_rflags (rflags s) s3)"
    using send by (simp add: d sys_udp_socket_send_def syscall_udp_socket_send_def get_rflags_def del: of_nat_add)
  moreover have "sys_udp_socket_recv env (int i) rx 500 (set_rflags (rflags s) s3) = Inr (k, set_rflags (rflags s) s5)"
    using recv by (simp add: d sys_udp_socket_recv_def syscall_udp_socket_recv_def) (simp add: rflags_defs)
  ultimately show ?thesis using q by (simp only: dns_ask_def sz option.case void_def bindr_simps prod.case)
qed

text \<open>
  C6: the resolver finds addresses. A program of a running system asks for a host name through a bound socket. If the name
  server answers the frame the card finds in the transmit ring, provided that it carries the question for this name in a valid
  datagram from the socket's port to port 53 of the resolver's address, the call returns the address of the first record of the answer,
  or zero if that record does not hold four bytes. No step fails, all queues are in order, and the flags are restored.
\<close>

theorem resolver_finds_address:
  fixes s :: "'a tcp_state_scheme" and name :: addr
  assumes ask: "may_ask idle c i port mac ts Q 8 s"
    and name: "cstr (mem8 s) name (dotted ls)" "ls \<noteq> []" "\<forall>l \<in> set ls. label_ok l" "length (dotted ls) \<le> 482"
    and bufs: "in_block s (dl_txbuf l) 500" "in_block s (dl_rxbuf l) 500"
    and apart: "(region (dl_txbuf l) 500 \<union> region (dl_rxbuf l) 500) \<inter> region name (Suc (length (dotted ls))) = {}"
    and answer: "answer = dns_header ident opt 1 an ns ar @ question ls DNS_TYPE_A DNS_CLASS_IN @ rr_enc r @ rest" "rr_ok r" "length answer \<le> 500"
    and fr: "ip_frame m e dmac smac len ttl IP_HDR_PROTO_UDP sip (ip_addr (netdev s))" "udp_ok m (e + 34) sport port answer"
    and chip: "chip 0 AND RxBufEmpty = 0" "chip 1 AND RxBufEmpty \<noteq> 0"
    and server: "answers c i port mac ls s (bytes_at m e (42 + length answer)) d dma"
  shows "\<exists>s' ts'. resolve_addr (traffic dma chip) l (int i) name s = Inr (if length (rr_data r) = 4 then of_be32 (rr_data r) else 0, s') \<and>
           sock_inv sockqs squeue s' ts' [] Q \<and> tables_ok s' \<and> live s \<subseteq> live s' \<and> rflags s' = rflags s"
proof -
  let ?tx = "dl_txbuf l" and ?rx = "dl_rxbuf l" and ?q = "question ls DNS_TYPE_A DNS_CLASS_IN"
  let ?m0 = "memset ?rx 0 500 (memset ?tx 0 500 (mem8 s))" and ?s1 = "store (dns_query_hdr ?tx ?rx) s"
  have n: "length (query ls) = 12 + length ?q" "length (query ls) \<le> 500" "12 + length ?q < 2147483648" "length (dotted ls) \<le> 8000"
    using name(2,4) by (simp_all add: length_query length_question)
  have z: "region (dl_txbuf l) (length (replicate (unat (500 :: u32)) (0 :: u8))) \<inter> region name (Suc (length (dotted ls))) = {}"
    "region (dl_rxbuf l) (length (replicate (unat (500 :: u32)) (0 :: u8))) \<inter> region name (Suc (length (dotted ls))) = {}"
    using apart by auto
  have c: "cstr ?m0 name (dotted ls)" unfolding memset_wr_list cstr_wr_list [OF z(2)] cstr_wr_list [OF z(1)] by (rule name(1))
  have hdr: "dns_query_hdr ?tx ?rx (mem8 s) = dns_hdr_k ?tx ?m0" by (simp add: dns_query_hdr_def dns_hdr_k_def Let_def)
  have "region ?tx (length (query ls)) \<inter> region name (Suc (length (dotted ls))) = {}" using apart region_mono [OF n(2), of ?tx] by blast
  from query_written [OF c name(2,3) n(4) this]
  have q: "set_qsection (?tx + ucast sizeof_dns_hdr) name DNS_TYPE_A DNS_CLASS_IN (mem8 ?s1) = Some (of_nat (length ?q), wr_list ?tx (query ls) ?m0)"
    by (simp add: store_def hdr)
  let ?s2 = "io_cli (?s1\<lparr>mem8 := wr_list ?tx (query ls) ?m0\<rparr>)"
  have h: "host_same s ?s2" unfolding host_same_def
    by (intro exI [of _ "rflags ?s2"] exI [of _ "mem8 ?s2"] exI [of _ "freemem s"] exI [of _ "memhdrs s"]) (simp add: store_def rflags_defs)
  have v: "live ?s2 = live s" "avail ?s2 = avail s" "mem_inv ?s2 = mem_inv s" "netdev ?s2 = netdev s" "rflags ?s1 = rflags s"
    by (simp_all add: store_def rflags_defs mem_view)
  have mi: "mem_inv s" "8 \<le> avail s" using ask by (auto simp: may_ask_def sock_inv_def dest: wq_inv_mem)
  have ask2: "may_ask idle c i port mac ts Q 8 ?s2" by (rule may_ask_same [OF ask h]) (simp_all add: v mi)
  have msg: "bytes_at (mem8 ?s2) ?tx (length (query ls)) = query ls" "42 + length (query ls) \<le> 8192"
    using n(2) by (simp_all add: rflags_defs bytes_wr_list)
  have blk: "in_block ?s2 ?tx (length (query ls))" "in_block ?s2 ?rx 500"
    using bufs region_mono [OF n(2), of ?tx] by (auto simp: in_block_def v)
  have server2: "answers c i port mac ls ?s2 (bytes_at m e (42 + length answer)) d dma" using server by (simp only: answers_same [OF h])
  from question_answered [OF ask2 msg(1) blk(1) msg(2) blk(2) fr(1) [folded v(4)] fr(2) answer(3) chip server2] obtain s3 where
    s3: "udp_socket_send (int i) RESOLVER_IP 53 ?tx (of_nat (length (query ls))) ?s2 = Inr s3" "rflags s3 = rflags ?s2"
    and rest: "\<And>f. \<exists>s5 ts5. udp_socket_recv (traffic dma chip) (int i) ?rx 500 (set_rflags f s3) = Inr (int (length answer), s5) \<and>
        bytes_at (mem8 s5) ?rx (length answer) = answer \<and> sock_inv sockqs squeue s5 ts5 [] Q \<and> tables_ok s5 \<and> rflags s5 = f \<and> live ?s2 \<subseteq> live s5"
    by blast
  have cli: "io_cli (set_rflags (rflags s) s3) = set_rflags (rflags s AND NOT RFLAGS_IF) s3" by (simp add: rflags_defs)
  from rest [of "rflags s AND NOT RFLAGS_IF", folded cli] obtain s5 ts5 where
    s5: "udp_socket_recv (traffic dma chip) (int i) ?rx 500 (io_cli (set_rflags (rflags s) s3)) = Inr (int (length answer), s5)"
      "bytes_at (mem8 s5) ?rx (length answer) = answer" "sock_inv sockqs squeue s5 ts5 [] Q" "tables_ok s5" "live ?s2 \<subseteq> live s5" by blast
  let ?s6 = "set_rflags (rflags s) s5"
  have iU: "i < UDP_SOCKET_COUNT" using ask by (simp add: may_ask_def udp_bound_def)
  have "dns_ask (traffic dma chip) (int i) ?tx ?rx name DNS_TYPE_A ?s1 = Inr (of_nat (length ?q), int (length answer), ?s6)"
    using dns_ask_calls [OF iU q n(3) s3(1) [unfolded n(1)], unfolded v(5), OF s5(1)] by (simp add: v(5))
  then have res: "resolve_addr (traffic dma chip) l (int i) name s = Inr (dns_answer ?rx (of_nat (length ?q)) (mem8 ?s6), ?s6)"
    by (simp add: resolve_addr_def)
  have "bytes_at (mem8 ?s6) ?rx (length answer) = dns_header ident opt 1 an ns ar @ ?q @ rr_enc r @ rest" using s5(2) answer(1) by (simp add: rflags_defs)
  from dns_answer_first [OF this answer(2)] n(3)
  have "dns_answer ?rx (of_nat (length ?q)) (mem8 ?s6) = (if length (rr_data r) = 4 then of_be32 (rr_data r) else 0)" by simp
  with res s5(3-5) show ?thesis by (intro exI [of _ ?s6] exI [of _ ts5]) (simp add: flags_inv v, simp add: rflags_defs mem_view)
qed

section \<open>The resolver of the kernel\<close>

text \<open>The question in the first of the two fresh blocks.\<close>

lemma query_prepared:
  fixes s s2 :: "'a tcp_state_scheme" and name :: addr
  assumes ask: "may_ask idle c i port mac ts Q 10 s" and two: "took_two tx rx s s2"
    and name: "cstr (mem8 s) name (dotted ls)" "in_block s name (Suc (length (dotted ls)))"
    and ls: "ls \<noteq> []" "\<forall>l \<in> set ls. label_ok l" "length (dotted ls) \<le> 8000"
  defines "q \<equiv> question ls DNS_TYPE_A DNS_CLASS_IN" and "t \<equiv> s2\<lparr>mem8 := wr_list tx (query ls) (mem8 s)\<rparr>"
  shows "set_qsection (tx + ucast sizeof_dns_hdr) name DNS_TYPE_A DNS_CLASS_IN (mem8 (store (dns_hdr_k tx) s2)) = Some (of_nat (length q), mem8 t)"
    "may_ask idle c i port mac ts Q 8 t" "bytes_at (mem8 t) tx (length (query ls)) = query ls" "in_block t tx (length (query ls))"
    "42 + length (query ls) \<le> 8192" "in_block t rx 500" "answers c i port mac ls t F d dma = answers c i port mac ls s F d dma"
    "live t = {tx, rx} \<union> live s" "rflags t = rflags s" "netdev t = netdev s" "tx \<noteq> rx" "tx \<notin> live s" "rx \<notin> live s"
    "t = (store (dns_hdr_k tx) s2)\<lparr>mem8 := mem8 t\<rparr>" "sizeof_dns_hdr + of_nat (length q) = (of_nat (length (query ls)) :: u32)"
proof -
  have tw: "mem_inv s2" "live s2 = insert tx (live s) \<union> {rx}" "avail s2 = avail s - 2" "tx \<notin> live s" using two by (auto simp: took_two_def)
  from two obtain fm mh where e2: "s2 = s\<lparr>freemem := fm, memhdrs := mh\<rparr>" by (auto simp: took_two_def mem_rest_def)
  have n: "length (query ls) = 12 + length q" "length (query ls) \<le> 8100" using ls(1,3) by (simp_all add: length_query length_question q_def)
  have "region (tx + of_nat 0) (length (query ls)) \<inter> region name (Suc (length (dotted ls))) = {}"
    by (rule in_block_apart [OF name(2) tw(4,2)]) (use n(2) in simp)
  then show "set_qsection (tx + ucast sizeof_dns_hdr) name DNS_TYPE_A DNS_CLASS_IN (mem8 (store (dns_hdr_k tx) s2)) = Some (of_nat (length q), mem8 t)"
    using query_written [OF name(1) ls] by (simp add: store_def e2 t_def q_def)
  have h: "host_same s t" unfolding host_same_def t_def
    by (intro exI [of _ "rflags s"] exI [of _ "wr_list tx (query ls) (mem8 s)"] exI [of _ fm] exI [of _ mh]) (simp add: e2)
  have v: "live t = live s2" "avail t = avail s2" "mem_inv t = mem_inv s2" by (simp_all add: mem_view t_def)
  show "may_ask idle c i port mac ts Q 8 t" by (rule may_ask_same [OF ask h]) (use tw may_askD(4) [OF ask] in \<open>auto simp: v\<close>)
  show "bytes_at (mem8 t) tx (length (query ls)) = query ls" "42 + length (query ls) \<le> 8192" using n(2) by (simp_all add: bytes_wr_list t_def)
  show "in_block t tx (length (query ls))" "in_block t rx 500" using n(2) tw(2) by (simp_all add: in_block_own v)
  show "answers c i port mac ls t F d dma = answers c i port mac ls s F d dma" by (rule answers_same [OF h])
  show "live t = {tx, rx} \<union> live s" "rflags t = rflags s" "netdev t = netdev s" using tw(2) v(1) by (auto simp: t_def e2)
  show "tx \<noteq> rx" "tx \<notin> live s" "rx \<notin> live s" using two by (simp_all add: took_two_def)
  show "t = (store (dns_hdr_k tx) s2)\<lparr>mem8 := mem8 t\<rparr>" by (simp add: t_def store_def)
  show "sizeof_dns_hdr + of_nat (length q) = (of_nat (length (query ls)) :: u32)" by (simp add: sizeof_dns_hdr_def n(1))
qed

text \<open>
  The same for the resolver that belongs to the kernel, which takes its buffers from the allocator and gives them back.
\<close>

theorem kernel_resolves_name:
  fixes s :: "'a tcp_state_scheme" and name :: addr
  assumes ask: "may_ask idle c i port mac ts Q 10 s"
    and name: "cstr (mem8 s) name (dotted ls)" "in_block s name (Suc (length (dotted ls)))"
    and ls: "ls \<noteq> []" "\<forall>l \<in> set ls. label_ok l" "length (dotted ls) \<le> 8000"
    and answer: "answer = dns_header ident opt 1 an ns ar @ question ls DNS_TYPE_A DNS_CLASS_IN @ rr_enc r @ rest" "rr_ok r" "length answer \<le> 500"
    and fr: "ip_frame m e dmac smac len ttl IP_HDR_PROTO_UDP sip (ip_addr (netdev s))" "udp_ok m (e + 34) sport port answer"
    and chip: "chip 0 AND RxBufEmpty = 0" "chip 1 AND RxBufEmpty \<noteq> 0"
    and server: "answers c i port mac ls s (bytes_at m e (42 + length answer)) d dma"
  shows "\<exists>s'. resolve_addr_k (traffic dma chip) (int i) name s = Inr (if length (rr_data r) = 4 then of_be32 (rr_data r) else 0, s') \<and>
           mem_inv s' \<and> live s \<subseteq> live s' \<and> rflags s' = rflags s"
proof -
  let ?len = "of_nat (length (dotted ls)) :: u32" and ?q = "question ls DNS_TYPE_A DNS_CLASS_IN"
  have len: "strlen name (mem8 s) = Some ?len" using strlen_cstr [OF name(1)] ls(3) by simp
  have "sizeof_dns_hdr + ?len + 10 = of_nat (length (dotted ls) + 22)" by (simp add: sizeof_dns_hdr_def)
  then have fits: "mem_fits (sizeof_dns_hdr + ?len + 10)"
    using ls(3) by (simp add: mem_fits_def MEM_GRANULARITY_def word_le_nat_alt unat_of_nat32 ucast_of_nat32 unat_of_nat64 del: of_nat_add)
  have mi: "mem_inv s" "2 \<le> avail s" "10 \<le> avail s" using ask by (auto simp: may_ask_def sock_inv_def dest: wq_inv_mem)
  from alloc_two [OF mi(1,2) fits, of "''dns query''" "''dns response''"] obtain tx s1 rx s2 where
    al: "mem_alloc (sizeof_dns_hdr + ?len + 10) ''dns query'' s = Inr (tx, s1)" "mem_alloc 500 ''dns response'' s1 = Inr (rx, s2)"
      "took_two tx rx s s2" by blast
  note q = query_prepared [OF ask al(3) name ls]
  let ?s2 = "s2\<lparr>mem8 := wr_list tx (query ls) (mem8 s)\<rparr>"
  from question_answered [OF q(2-6) fr(1) [folded q(10)] fr(2) answer(3) chip q(7) [THEN iffD2, OF server]] obtain s3 where
    s3: "udp_socket_send (int i) RESOLVER_IP 53 tx (of_nat (length (query ls))) ?s2 = Inr s3" "rflags s3 = rflags ?s2"
    and rest: "\<And>f. \<exists>s5 ts5. udp_socket_recv (traffic dma chip) (int i) rx 500 (set_rflags f s3) = Inr (int (length answer), s5) \<and>
        bytes_at (mem8 s5) rx (length answer) = answer \<and> sock_inv sockqs squeue s5 ts5 [] Q \<and> tables_ok s5 \<and> rflags s5 = f \<and> live ?s2 \<subseteq> live s5"
    by blast
  have "set_rflags (rflags s) s3 = s3" using s3(2) q(9) by (simp add: rflags_defs)
  with rest [of "rflags s"] obtain s5 ts5 where
    s5: "udp_socket_recv (traffic dma chip) (int i) rx 500 s3 = Inr (int (length answer), s5)"
      "bytes_at (mem8 s5) rx (length answer) = answer" "sock_inv sockqs squeue s5 ts5 [] Q" "rflags s5 = rflags s" "live ?s2 \<subseteq> live s5" by auto
  have ask: "dns_ask_k (traffic dma chip) (int i) tx rx name DNS_TYPE_A (store (dns_hdr_k tx) s2) =
      Inr (of_nat (length ?q), int (length answer), s5)"
    using s3(1) s5(1) unfolding dns_ask_k_def q(1) option.case prod.case q(15) q(14) [symmetric] by simp
  have "mem_inv s5" "tx \<in> live s5" "rx \<in> live s5" using s5(3,5) q(8) by (auto simp: sock_inv_def dest: wq_inv_mem)
  from resolve_addr_k_answer [OF len al(1,2) ask this q(11)] obtain s6 where
    s6: "resolve_addr_k (traffic dma chip) (int i) name s = Inr (dns_answer rx (of_nat (length ?q)) (mem8 s5), s6)" "freed tx rx s5 s6" by auto
  have "bytes_at (mem8 s5) rx (length answer) = dns_header ident opt 1 an ns ar @ ?q @ rr_enc r @ rest" using s5(2) answer(1) by simp
  from dns_answer_first [OF this answer(2)] ls(1,3)
  have "dns_answer rx (of_nat (length ?q)) (mem8 s5) = (if length (rr_data r) = 4 then of_be32 (rr_data r) else 0)" by (simp add: length_question)
  moreover have "live s \<subseteq> live s6" using s6(2) s5(5) q(8,12,13) by (auto simp: freed_def)
  ultimately show ?thesis using s6 s5(4) by (intro exI [of _ s6]) (simp add: freed_def)
qed

end
