(* ===== verification/Spec2Isabelle.thy ===== *)
theory Spec2Isabelle
  imports Examples Resolve
begin

text \<open>
  mosmos is a 64-bit x86 kernel written from scratch: a block allocator, preemptive tasks, timers, a work
  queue, a keyboard, an Ethernet driver for the RTL8169, a network stack up to UDP and TCP, system calls,
  and a shell that runs as a user task. This library models the C code under \<^verbatim>\<open>src/kernel\<close> and proves
  what makes its parts correct.

  \<^bold>\<open>How the parts interact.\<close> \<open>kstart\<close> initialises everything and then executes the work queue in an endless
  loop, sleeping while the queue is empty. The interrupt of the network card copies finished frames into new
  blocks and pushes \<open>ether_rx\<close> for each to the work queue; the interrupt of the interval timer counts
  ticks, switches tasks every tenth tick and hands delayed work whose time has come to the work queue. The
  main loop so runs the receive path (Ethernet, then ARP or IP, then ICMP, raw, UDP and TCP sockets), which
  appends data to the queues of the sockets and wakes the tasks that sleep on them. The user task prints, reads keys
  and uses sockets through system calls, which run with interrupts disabled.

  \<^bold>\<open>State.\<close> The kernel has no objects, only global variables. Each theory adds those of its source file to one
  extensible record, so that an operation is typed with exactly the part of the state it can reach and
  frame properties are a matter of record fields. The chain is \<open>machine\<close> (flags register, port output, byte memory, list
  links), \<open>con_state\<close> (console), \<open>mem_state\<close>, \<open>task_state\<close>, \<open>desc_state\<close>, \<open>int_state\<close>, \<open>timer_state\<close>, \<open>wq_state\<close>,
  \<open>key_state\<close>, \<open>net_state\<close>, \<open>arp_state\<close>, \<open>sock_state\<close>, \<open>raw_state\<close>, \<open>udp_state\<close>, \<open>tcp_state\<close>. An operation maps a
  state to a result: \<open>Inr\<close> with the returned value and the new state, or \<open>Inl\<close> when control never
  returns (a panic, a null pointer, an index outside an array, a loop without end). Machine integers keep their width.
  A loop without an obvious bound is a \<open>partial_function\<close> in the option type, whose value \<open>None\<close> means that it does not end;
  there is no fuel anywhere, and the properties that say an operation returns prove \<open>Some\<close> and \<open>Inr\<close>.

  \<^bold>\<open>Theories and sources\<close>, in the order of the imports:
  \<^item> \<open>Prelude\<close> (types.h): machine types, results, array access, counted loops, the flags register and
    ports, generic lemmas on words and lists.
  \<^item> \<open>KList\<close> (lib/list.c): the intrusive list. \<open>wf_list\<close> relates a control block and a store of links to a sequence;
    the interface \<open>fifo_queue\<close> is proved for it (\<open>klist\<close>).
  \<^item> \<open>CLib\<close> (lib/lib.c) and \<open>Print\<close> (lib/print.c): byte copies and strings; two text windows on the VGA bitmap that never
    paint over each other, and decimal printing.
  \<^item> \<open>Memory\<close> (core/memory.c): the stack of free one-megabyte blocks, with the invariant \<open>mem_inv\<close>. The
    interface \<open>block_allocator\<close> (interpreted as \<open>kmem\<close>) is all that later theories use of it: fresh blocks, exact accounting, disjoint regions.
  \<^item> \<open>Task\<close> (core/task.c): task table and ready queues; the abstract scheduler \<open>abs_schedule\<close>, the refinement, and the
    step relation \<open>sched_step\<close> of ticks, sleeps and wake-ups with its invariant.
  \<^item> \<open>Lock\<close> (core/lock.c): the mutex over the atomic bit operation, and what is wrong with it.
  \<^item> \<open>Descriptor\<close> (core/dsctbl.c) and \<open>Interrupt\<close> (core/int.c): descriptor encodings with their decoding, gates and masks.
  \<^item> \<open>Timer\<close> (core/timer.c) and \<open>Workqueue\<close> (core/workqueue.c): the sorted timer list, firing (interface \<open>timer_client\<close>,
    interpreted for the work queue as \<open>wq_timer\<close>), immediate and delayed work under the common invariant \<open>wq_inv\<close>.
  \<^item> \<open>Keyboard\<close> (core/keyboard.c): the ring buffer as a \<open>bounded_queue\<close>, which extends \<open>fifo_queue\<close> (\<open>keyring\<close>).
  \<^item> \<open>Netutil\<close> (net/netutil.c): byte order, and the checksum as a ones-complement sum.
  \<^item> \<open>Netdev\<close> (core/pci.c, core/netdev.c, dev/r8169.c): device scan, descriptor rings, the receive interrupt, transmission.
  \<^item> \<open>Ether\<close> (net/ether.c, net/arp.c) and \<open>Ip\<close> (net/ip.c, net/icmp.c): the sending side. \<open>packet_layer\<close> is what a protocol
    needs from the layer below it; the interpretations \<open>ether\<close> and \<open>ip\<close> discharge it, so that every sender returns
    and gives back the memory it took.
  \<^item> \<open>Raw\<close>, \<open>Udp\<close>, \<open>Tcp\<close> (net/raw.c, net/udp.c, net/tcp.c): the sockets. \<open>socket_queues\<close> is the contract of a
    table of queues whose entries are blocks no one else uses.
  \<^item> \<open>Sockets\<close>: all queues of all sockets as one such table (\<open>socks\<close>, invariant \<open>sock_inv\<close>), delivery and reading.
  \<^item> \<open>Tcpsock\<close> and \<open>Tcpstate\<close>: what the TCP handler does on a well-formed kernel, and, for every state well-formed or not, that a
    segment moves a socket only along the arcs of the transition relation \<open>tcp_trans\<close>.
  \<^item> \<open>Netrx\<close>: the receiving halves of net/ip.c and net/ether.c, and \<open>kcall\<close>, which gives every function pointer its function; a
    datagram passes from the work queue through all layers into the queue of its socket (\<open>udp_frame_queued\<close>).
  \<^item> \<open>Hosts\<close>: frames as bytes that one machine sends (\<open>udp_sent\<close>) and another receives (\<open>receiver\<close>, \<open>frame_received\<close>); the receive
    ring of the card comes in here, so that \<open>datagram_read\<close> goes from the ring to the buffer of the reader.
  \<^item> \<open>Blocking\<close>: receive calls that sleep. \<open>udp_waiting\<close> is the state in which the other tasks run meanwhile, \<open>traffic\<close> what these do
    when a frame arrives: the card stores it, its interrupt and the main loop process it, the scheduler switches back.
  \<^item> \<open>Handshake\<close>: segments as bytes that one machine sends and another reads (\<open>tcp_frame\<close>, \<open>segment_read\<close>), in the transmit ring and in
    the packet kept for retransmission, and what a listening socket makes of a connection request.
  \<^item> \<open>Syscall\<close> (core/syscall.c, user/user_syscall.c): dispatcher and stubs.
  \<^item> \<open>Kernel\<close> (core/kernel.c): the boot sequence, a round of the main loop and of the idle task.
  \<^item> \<open>Dns\<close> (user/dns.c) and \<open>User_app\<close> (user/user_app.c): resolver, shell and commands.
  \<^item> \<open>Kdns\<close> (lib/dns.c): the resolver as it was when the shell was part of the kernel, compared with the later one.
  \<^item> \<open>Resolve\<close>: both resolvers from the name to the address, over the sending path, the sleeping reader and the receiving path.
  \<^item> \<open>Examples\<close>: concrete kernel states reached by the model's own initialisation, and most properties with hypotheses applied to one;
    the applications that need two hosts or an arriving frame stand at the end of this theory.

  \<^bold>\<open>What is shown.\<close> Scheduling: the scheduler refines a two-level round robin, its invariant survives every interleaving of steps,
  every ready high-priority task runs once a cycle. Booting establishes all invariants. Memory: over any run of allocations and releases the blocks in use never overlap, exactly 1490 can
  be in use, allocating and releasing is neutral. Timers fire in order and deliver their work. Frames are received in order and unchanged, and a
  datagram travels from the queued frame into the buffer of the program that reads the socket, also of one that sleeps in its receive call; between two hosts running this
  kernel the bytes that one program sends are the bytes the other reads, and the resolver gets the address out of the reply of a name server. Packets that are sent carry the headers, lengths and
  verifying checksums of their protocols. TCP takes data in order, answers connection requests with SYN and ACK and keeps to its state machine. ARP requests are
  answered with the host's addresses. Each of the eighteen system calls reaches its kernel function with the arguments given. Names, numbers and addresses of the user programs survive encoding and parsing. Some
  properties state defects the code has: one acknowledgement releases two packets at most, a short segment stops the kernel,
  ignored frames are never released, a mutex is never free again.

  \<^bold>\<open>Parameters\<close>, for what is not C code of this repository: \<open>env\<close> is what other tasks and interrupts do while a task sleeps (instantiated
  with \<open>traffic\<close> for an arriving frame, where \<open>dma\<close> is what the card writes); \<open>sti\<close> is the function of this name that core/lock.c calls and nobody defines; \<open>chip\<close> and \<open>cfg\<close> are
  the answers of the network chip and of the PCI configuration space; \<open>platform\<close> collects the addresses the linker chooses (entry points,
  rings, the task-state segment); \<open>dns_locals\<close> and \<open>app_locals\<close> are the stack addresses of local arrays.

  \<^bold>\<open>Modelling choices.\<close> The bytes of packets, buffers and user memory live in one byte memory, and headers are overlays on it at their C offsets. Kernel
  structures that are only reached through typed pointers (list links, work items, timers, packet buffers, queue entries, block headers) live in one
  store per type, indexed by address; that they do not overlap the bytes in use is the property of the allocator. A structure field that the
  code reads twice without a call between is read once. The netmask is a prefix length from 1 to 32, the lengths for which
  the C shift is defined. String literals are kept as their bytes; \<open>print_lit_call\<close> and \<open>strncmp_lit_call\<close> say that this is what the calls do. A task
  is interrupted only where it sleeps or where a step relation says so: handlers run with interrupts disabled, and
  the code between two system calls of the user task only touches its own stack.

  \<^bold>\<open>Limits of the model.\<close> The tables the kernel reaches by name (descriptor tables, network device, rings, address table, sockets) are fields of the
  state and lie outside the byte memory. The code does not check the pointers that user programs pass: a receive call whose buffer lies in such
  a table overwrites it, and nothing is claimed about such a call. A write behind the end of a table is the error \<open>OutOfRange\<close> where the
  code corrupts what follows it: the 257th entry of the address table is such a write. \<open>memcpy\<close> is exact below \<open>2 ^ 31\<close> bytes; from there
  on the signed index of the C loop overflows.

  \<^bold>\<open>Not modelled.\<close> The boot loader and the assembler files: the save and restore of registers at a task switch or an interrupt
  has no C counterpart (the calls of the C code to assembler helpers are modelled). lib/dns.c
  and core/lock.c are modelled although the build leaves them out. The pixel shapes of the
  font and the behaviour of the devices behind the ports are data and hardware.
\<close>

text \<open>
  C4: a datagram travels from the card into the buffer of the program that reads it. The receive interrupt takes
  the one frame the card has finished with; executing the work it queued passes the frame through Ethernet, IP and
  UDP and appends its payload to the queue of the one socket bound to the port, waking its reader; when
  nothing else was pending, the receive call then returns at once, and the reader's buffer holds the bytes the card had
  written behind the three headers, as many as the reader asked for. No step panics or runs out of its arrays, all
  invariants hold again, and four blocks of memory fewer are free than before: the frame and the entry are not
  given back.
\<close>

theorem datagram_reaches_reader:
  assumes inv: "sock_inv sockqs squeue s ts [] Q" and k: "tables_ok s" and nic: "nic_ok s" and av: "5 \<le> avail s"
    and chip: "chip 0 AND RxBufEmpty = 0" "chip 1 AND RxBufEmpty \<noteq> 0"
    and d: "d = rx_ring (nic s) ! unat (cur_rx (nic s))" "has_frame d" "frame_len d = of_nat (42 + n)" "42 + n < 65536"
    and fr: "udp_frame (desc_addr d) port s" and raw: "no_raw_reader IP_HDR_PROTO_UDP s"
    and i: "udp_bound s port i" and one: "\<forall>j. udp_bound s port j \<longrightarrow> j = i"
    and sz: "0 \<le> sz" and buf: "in_block s buf (nat sz)"
  defines "m \<equiv> min (nat sz) n"
  shows "\<exists>s1 s2. receive_packet chip s = Inr s1 \<and> wq_execute kcall s1 = Inr s2 \<and>
           udp_delivered i (bytes_at (mem8 s) (desc_addr d + 42) n) s1 ts [] Q s2 \<and> avail s2 = avail s - 4 \<and> rflags s2 = rflags s \<and>
           (Q (UdpRx i) = [] \<longrightarrow>
              (\<exists>s3. udp_socket_recv env (int i) buf sz s2 = Inr (int m, s3) \<and>
                 bytes_at (mem8 s3) buf m = bytes_at (mem8 s) (desc_addr d + 42) m \<and> sock_inv sockqs squeue s3 ts [] Q))"
  using datagram_read [OF inv k nic av chip d fr raw i one sz buf, of env] unfolding m_def .

text \<open>A host that has bound socket 0 to port 53 and got a frame of 60 bytes into its first receive buffer.\<close>

lemma port53_receiver:
  assumes h: "holds b as s" "length as = 1" and as: "as = [u]"
  shows "receiver (\<lambda>k. if k = 0 then 0 else 1) (blank_desc\<lparr>opts1 := 64, low_buf := 0x200000\<rparr>) (42 + 18) 53 0 u 2 [b] (\<lambda>_. [])
           (loaded m (pktbufs s) udp53 (tcp_sockets kernel0) s)"
proof -
  let ?s = "loaded m (pktbufs s) udp53 (tcp_sockets kernel0) s"
  let ?d = "blank_desc\<lparr>opts1 := 64, low_buf := 0x200000\<rparr>"
  note l = loaded_ok [OF h(1) udp53_ok(1), of m "pktbufs s"]
  obtain fm mh where e: "s = k_net\<lparr>freemem := fm, memhdrs := mh\<rparr>" using h(1) by (auto simp: holds_def mem_rest_def)
  have f: "nic ?s = nic k_net" "raw_sockets ?s = raw_sockets k_net" "5 \<le> avail ?s"
    using l(6) h(2) by (simp_all add: e loaded_def)
  have d: "?d = rx_ring (nic ?s) ! unat (cur_rx (nic ?s))" "has_frame ?d" "frame_len ?d = of_nat (42 + 18)"
    by (simp_all only: f(1) k_net_def wire_fields) (simp_all add: rx_descs_def has_frame_def owned_def dma_ok_def desc_addr_def DescOwn_def
        blank_desc_def MEM_START_def frame_len_def)
  have raw: "no_raw_reader IP_HDR_PROTO_UDP ?s"
    unfolding no_raw_reader_def f(2) using k_wq_socks(1) by (simp add: k_net_def wire_def kernel0_def RAW_SOCKET_USED_def)
  have "u \<in> live ?s" using l(7) h(1) as by (auto simp: holds_def)
  then have buf: "in_block ?s u (nat 2)" by (rule in_block_own) simp
  have bd: "udp_bound ?s 53 0" "\<forall>j. udp_bound ?s 53 j \<longrightarrow> j = 0"
    using udp53_ok(2,3,4) by (auto simp: udp_bound_def UDP_SOCKET_COUNT_def intro: ccontr)
  show ?thesis unfolding receiver_def using l(1,2,3) f(3) d raw bd buf by (simp add: RxBufEmpty_def)
qed

theorem datagram_reaches_reader_witness:
  "\<exists>buf (s :: tcp_state) s1 s2 s3. receive_packet (\<lambda>k. if k = 0 then 0 else 1) s = Inr s1 \<and> wq_execute kcall s1 = Inr s2 \<and>
     udp_socket_recv Inr 0 buf 2 s2 = Inr (2, s3) \<and> bytes_at (mem8 s3) buf 2 = [104, 105]"
proof -
  obtain b as s where h: "holds b as s" "length as = 1" using k_holds [of 1] by auto
  then obtain u where as: "as = [u]" by (auto simp: length_Suc_conv)
  let ?s = "loaded (udp_frame_mem 0x200000) (pktbufs s) udp53 (tcp_sockets kernel0) s"
  let ?d = "blank_desc\<lparr>opts1 := 64, low_buf := 0x200000\<rparr>" and ?chip = "\<lambda>k :: nat. if k = 0 then 0 else 1 :: u8"
  note rx = port53_receiver [OF h as, of "udp_frame_mem 0x200000", unfolded receiver_def]
  have d: "desc_addr ?d = 0x200000" "42 + 18 < (65536 :: nat)" by (simp_all add: desc_addr_def blank_desc_def)
  have "ip_addr (netdev ?s) = 0x0a000002" using h(1) by (auto simp: holds_def mem_rest_def loaded_def k_net_def wire_fields)
  then have fr: "udp_frame (desc_addr ?d) 53 ?s" using udp_frame_mem_read [of "0x200000"] by (simp add: udp_frame_def d(1))
  from rx datagram_reaches_reader [of ?s "[b]" "\<lambda>_. []" ?chip ?d 18 53 0 2 u Inr, OF _ _ _ _ _ _ _ _ _ d(2) fr]
  obtain s1 s2 s3 :: tcp_state where "receive_packet ?chip ?s = Inr s1" "wq_execute kcall s1 = Inr s2"
    "udp_socket_recv Inr 0 u 2 s2 = Inr (2, s3)" "bytes_at (mem8 s3) u 2 = bytes_at (mem8 ?s) (desc_addr ?d + 42) 2" by auto
  then show ?thesis unfolding d(1) using udp_frame_mem_read(6) [of "0x200000"] by fastforce
qed

text \<open>
  C5: two hosts running this kernel. Sending to a known neighbour through a UDP socket returns, gives back all memory and
  passes one frame to the card: Ethernet and IP headers with the right addresses and a verifying checksum, and a datagram with the sender's
  port and data. Any host with the destination address that finds the bytes of this frame in its receive ring hands the data,
  as much of it as asked for, to the program that reads the socket bound to the port.
\<close>

theorem udp_between_hosts:
  assumes a: "can_send dip mac s" "i < UDP_SOCKET_COUNT" "length (udp_sockets s) = UDP_SOCKET_COUNT"
    and buf: "in_block s buf n" "42 + n \<le> 8192"
  defines "f \<equiv> desc_addr (tx_next s)" and "data \<equiv> bytes_at (mem8 s) buf n"
  shows "\<exists>s'. udp_socket_send (int i) dip port buf (of_nat n) s = Inr s' \<and> net_same s s' \<and> passed_on (42 + n) s s' \<and>
     ip_frame (mem8 s') f mac (hw_addr (netdev s)) (of_nat (28 + n)) 64 IP_HDR_PROTO_UDP (ip_addr (netdev s)) dip \<and>
     udp_ok (mem8 s') (f + 34) (us_port (udp_sockets s ! i)) port data \<and>
     (\<forall>r d j rbuf sz ts Q chip env. receiver chip d (42 + n) port j rbuf sz ts Q r \<longrightarrow> ip_addr (netdev r) = dip \<longrightarrow>
        bytes_at (mem8 r) (desc_addr d) (42 + n) = bytes_at (mem8 s') f (42 + n) \<longrightarrow>
        (\<exists>r1 r2 r3. receive_packet chip r = Inr r1 \<and> wq_execute kcall r1 = Inr r2 \<and>
           udp_socket_recv env (int j) rbuf sz r2 = Inr (int (min (nat sz) n), r3) \<and>
           bytes_at (mem8 r3) rbuf (min (nat sz) n) = take (nat sz) data))"
proof -
  from udp_sent [OF a buf, of port, folded f_def data_def] obtain s' where
    s': "udp_socket_send (int i) dip port buf (of_nat n) s = Inr s'" "net_same s s'" "passed_on (42 + n) s s'"
      "ip_frame (mem8 s') f mac (hw_addr (netdev s)) (of_nat (28 + n)) 64 IP_HDR_PROTO_UDP (ip_addr (netdev s)) dip"
      "udp_ok (mem8 s') (f + 34) (us_port (udp_sockets s ! i)) port data" by blast
  have l: "length data = n" "42 + n < 65536" using buf(2) by (simp_all add: data_def)
  have "\<exists>r1 r2 r3. receive_packet chip r = Inr r1 \<and> wq_execute kcall r1 = Inr r2 \<and>
      udp_socket_recv env (int j) rbuf sz r2 = Inr (int (min (nat sz) n), r3) \<and>
      bytes_at (mem8 r3) rbuf (min (nat sz) n) = take (nat sz) data"
    if r: "receiver chip d (42 + n) port j rbuf sz ts Q r" "ip_addr (netdev r) = dip"
      "bytes_at (mem8 r) (desc_addr d) (42 + n) = bytes_at (mem8 s') f (42 + n)"
    for r :: "'b tcp_state_scheme" and d j rbuf sz ts Q chip env
  proof (rule frame_received [OF r(1) l(2) _ _ l(1)])
    show "ip_frame (mem8 r) (desc_addr d) mac (hw_addr (netdev s)) (of_nat (28 + n)) 64 IP_HDR_PROTO_UDP (ip_addr (netdev s)) (ip_addr (netdev r))"
      using copied_ip_frame [OF r(3)] s'(4) r(2) by simp
    show "udp_ok (mem8 r) (desc_addr d + 34) (us_port (udp_sockets s ! i)) port data"
      using copied_udp [OF r(3), of 34 data] s'(5) l(1) by simp
  qed
  with s' show ?thesis by (intro exI [of _ s']) blast
qed

text \<open>The sender: 10.0.0.7, with 10.0.0.2 in its address table.\<close>

definition peer :: "bytes \<Rightarrow> tcp_state \<Rightarrow> tcp_state" where
  "peer m s = s\<lparr>mem8 := m, netdev := (netdev s)\<lparr>ip_addr := 0x0a000007, hw_addr := host_mac\<rparr>,
     arptable := \<lparr>next_entry_idx = 1, table = [\<lparr>ae_mac = [2, 0, 0, 0, 0, 2], ae_ip = 0x0a000002\<rparr>]\<rparr>\<rparr>"

lemma peer_sends:
  assumes "holds b as s" and "4 + length as \<le> 1489"
  shows "can_send 0x0a000002 [2, 0, 0, 0, 0, 2] (peer m s)" "udp_sockets (peer m s) = udp_sockets kernel0" "live (peer m s) = live s"
    "mem8 (peer m s) = m"
proof -
  obtain fm mh where e: "s = k_net\<lparr>freemem := fm, memhdrs := mh\<rparr>" using assms(1) by (auto simp: holds_def mem_rest_def)
  note f = holds_fields [OF assms(1)]
  have d: "tx_next (peer m s) = blank_desc" "\<not> owned blank_desc" "dma_ok blank_desc"
    by (simp_all add: peer_def e tx_next_def k_net_def wire_fields owned_def dma_ok_def desc_addr_def blank_desc_def MEM_START_def)
  have "tx_ready 4 (peer m s)" using f(3,5,6) assms(2) by (simp add: peer_def tx_ready_def mem_view nic_ok_def)
  moreover have "find_mac_addr (nexthop (netdev (peer m s)) 0x0a000002) (peer m s) = Some [2, 0, 0, 0, 0, 2]"
    by (simp add: peer_def e k_net_def wire_def nexthop_def find_mac_addr_def)
  ultimately show "can_send 0x0a000002 [2, 0, 0, 0, 0, 2] (peer m s)" unfolding can_send_def d by (simp add: d peer_def host_mac_def)
  show "udp_sockets (peer m s) = udp_sockets kernel0" "live (peer m s) = live s" "mem8 (peer m s) = m"
    using f(8) by (simp_all add: peer_def mem_view)
qed

theorem udp_between_hosts_witness:
  "\<exists>buf rbuf (s :: tcp_state) s' (r :: tcp_state) r1 r2 r3. udp_socket_send 0 0x0a000002 53 buf 18 s = Inr s' \<and>
     bytes_at (mem8 s) buf 18 = replicate 18 104 \<and> receive_packet (\<lambda>k. if k = 0 then 0 else 1) r = Inr r1 \<and> wq_execute kcall r1 = Inr r2 \<and>
     udp_socket_recv Inr 0 rbuf 2 r2 = Inr (2, r3) \<and> bytes_at (mem8 r3) rbuf 2 = [104, 104]"
proof -
  obtain b as s where h: "holds b as s" "length as = 1" using k_holds [of 1] by auto
  then obtain u where as: "as = [u]" by (auto simp: length_Suc_conv)
  let ?a = "peer (\<lambda>_. 104) s" and ?d = "blank_desc\<lparr>opts1 := 64, low_buf := 0x200000\<rparr>" and ?chip = "\<lambda>k :: nat. if k = 0 then 0 else 1 :: u8"
  have p: "can_send 0x0a000002 [2, 0, 0, 0, 0, 2] ?a" "length (udp_sockets ?a) = UDP_SOCKET_COUNT" "0 < UDP_SOCKET_COUNT" "live ?a = live s" "mem8 ?a = (\<lambda>_. 104)"
    using peer_sends [OF h(1), of "\<lambda>_. 104"] h(2) kernel0_socks by (simp_all add: empty_socks_def UDP_SOCKET_COUNT_def)
  have u: "u \<in> live s" using h(1) as by (auto simp: holds_def)
  then have ub: "in_block ?a u 18" by (intro in_block_own) (simp_all add: p(4))
  have n: "42 + 18 \<le> (8192 :: nat)" by simp
  have data: "bytes_at (mem8 ?a) u 18 = replicate 18 104" unfolding p(5) by (simp add: bytes_at_def map_replicate_const)
  let ?f = "desc_addr (tx_next ?a)"
  from udp_between_hosts [where 'b = unit, OF p(1,3,2) ub n, of 53] obtain s' where s': "udp_socket_send (int 0) 0x0a000002 53 u (of_nat 18) ?a = Inr s'"
    and rcv: "\<forall>(r :: tcp_state) d j rbuf sz ts Q chip env. receiver chip d (42 + 18) 53 j rbuf sz ts Q r \<longrightarrow> ip_addr (netdev r) = 0x0a000002 \<longrightarrow>
        bytes_at (mem8 r) (desc_addr d) (42 + 18) = bytes_at (mem8 s') ?f (42 + 18) \<longrightarrow>
        (\<exists>r1 r2 r3. receive_packet chip r = Inr r1 \<and> wq_execute kcall r1 = Inr r2 \<and>
           udp_socket_recv env (int j) rbuf sz r2 = Inr (int (min (nat sz) 18), r3) \<and>
           bytes_at (mem8 r3) rbuf (min (nat sz) 18) = take (nat sz) (bytes_at (mem8 ?a) u 18))" by blast
  define m where "m = wr_list 0x200000 (bytes_at (mem8 s') ?f (42 + 18)) (\<lambda>_. 0)"
  let ?r = "loaded m (pktbufs s) udp53 (tcp_sockets kernel0) s"
  have rx: "receiver ?chip ?d (42 + 18) 53 0 u 2 [b] (\<lambda>_. []) ?r" by (rule port53_receiver [OF h as])
  have ip: "ip_addr (netdev ?r) = 0x0a000002" using h(1) by (auto simp: holds_def mem_rest_def loaded_def k_net_def wire_fields)
  have m: "bytes_at (mem8 ?r) (desc_addr ?d) (42 + 18) = bytes_at (mem8 s') ?f (42 + 18)"
    using bytes_wr_list [of "bytes_at (mem8 s') ?f (42 + 18)" "0x200000" "\<lambda>_. 0"] by (simp add: m_def desc_addr_def blank_desc_def)
  from rcv [rule_format, OF rx ip m, of Inr] data obtain r1 r2 r3 where
    "receive_packet ?chip ?r = Inr r1" "wq_execute kcall r1 = Inr r2" "udp_socket_recv Inr 0 u 2 r2 = Inr (2, r3)"
    "bytes_at (mem8 r3) u 2 = [104, 104]" by (auto simp: numeral_2_eq_2)
  moreover have "udp_socket_send 0 0x0a000002 53 u 18 ?a = Inr s'" using s' by simp
  ultimately show ?thesis using data by blast
qed

theorem sleeping_reader_gets_datagram_witness:
  "\<exists>dma chip buf (s :: tcp_state) ts s' ts'. sock_inv sockqs squeue s ts [] (\<lambda>_. []) \<and>
     udp_socket_recv (traffic dma chip) 0 buf 2 s = Inr (2, s') \<and> bytes_at (mem8 s') buf 2 = [104, 104] \<and>
     sock_inv sockqs squeue s' ts' [] (\<lambda>_. []) \<and> tflag s' 0 = TASK_RUNNING"
proof -
  obtain b as s where h: "holds b as s" "length as = 1" using k_holds [of 1] by auto
  then obtain u where as: "as = [u]" by (auto simp: length_Suc_conv)
  let ?a = "peer (\<lambda>_. 104) s" and ?d = "blank_desc\<lparr>opts1 := 64, low_buf := 0x200000\<rparr>" and ?chip = "\<lambda>k :: nat. if k = 0 then 0 else 1 :: u8"
  let ?r = "loaded (\<lambda>_. 0) (pktbufs s) udp53 (tcp_sockets kernel0) s"
  have p: "can_send 0x0a000002 [2, 0, 0, 0, 0, 2] ?a" "length (udp_sockets ?a) = UDP_SOCKET_COUNT" "0 < UDP_SOCKET_COUNT" "live ?a = live s" "mem8 ?a = (\<lambda>_. 104)"
    using peer_sends [OF h(1), of "\<lambda>_. 104"] h(2) kernel0_socks by (simp_all add: empty_socks_def UDP_SOCKET_COUNT_def)
  have "u \<in> live s" using h(1) as by (auto simp: holds_def)
  then have ub: "in_block ?a u 18" by (intro in_block_own) (simp_all add: p(4))
  let ?data = "bytes_at (mem8 ?a) u 18" and ?f = "desc_addr (tx_next ?a)" and ?sp = "us_port (udp_sockets ?a ! 0)"
  from udp_sent [OF p(1,3,2) ub, of 53] obtain m where
    m: "ip_frame m ?f [2, 0, 0, 0, 0, 2] (hw_addr (netdev ?a)) (of_nat (28 + 18)) 64 IP_HDR_PROTO_UDP (ip_addr (netdev ?a)) 0x0a000002"
      "udp_ok m (?f + 34) ?sp 53 ?data" by auto
  let ?F = "bytes_at m ?f (42 + length ?data)"
  define dma where "dma = (\<lambda>s1 :: tcp_state. s1\<lparr>mem8 := wr_list 0x200000 ?F (mem8 s1)\<rparr>)"
  note l = loaded_ok [OF h(1) udp53_ok(1), of "\<lambda>_. 0" "pktbufs s"] and g = loaded_good [OF h(1), of "\<lambda>_. 0" "pktbufs s" udp53 "tcp_sockets kernel0"]
  note rx = port53_receiver [OF h as, of "\<lambda>_. 0", unfolded receiver_def]
  have ip: "ip_addr (netdev ?r) = 0x0a000002" using h(1) by (auto simp: holds_def mem_rest_def loaded_def k_net_def wire_fields)
  have a: "8 \<le> avail ?r" "tick ?r + 5000 \<noteq> END_TICK" "0 = current_task (taskctl ?r)" "(0 :: nat) \<noteq> 2" "42 + length ?data < 65536" "(0 :: int) \<le> 2"
    using l(4,6) h(2) g(2) by (simp_all add: END_TICK_def)
  have "stored ?F ?d s1 (dma s1)" if w: "udp_waiting 2 0 0 ?r s1" for s1
  proof -
    note e = waiting_keeps(6,7) [OF w l(2)]
    have n: "nic_ok (dma s1)" using l(3) e by (simp add: dma_def nic_ok_def)
    have d: "?d = rx_ring (nic (dma s1)) ! unat (cur_rx (nic (dma s1)))" "has_frame ?d" "frame_len ?d = of_nat (length ?F)"
      unfolding dma_def using rx e(2) by - (simp, blast, (elim conjE, simp only: length_bytes_at))
    have b: "desc_addr ?d = 0x200000" by (simp add: desc_addr_def blank_desc_def)
    have "bytes_at (mem8 (dma s1)) (desc_addr ?d) (length ?F) = ?F" unfolding b dma_def using bytes_wr_list [of ?F] by simp
    moreover have "\<forall>x. x \<notin> region (desc_addr ?d) (length ?F) \<longrightarrow> mem8 (dma s1) x = mem8 s1 x" unfolding b dma_def by (auto simp: wr_list_frame)
    moreover have "dma s1 = s1\<lparr>mem8 := wr_list 0x200000 ?F (mem8 s1), nic := nic s1\<rparr>" by (simp add: dma_def)
    ultimately show ?thesis unfolding stored_def using n d by blast
  qed
  then have dma: "\<forall>s1. udp_waiting 2 0 0 ?r s1 \<longrightarrow> stored ?F ?d s1 (dma s1)" by blast
  have "\<exists>s' ts'. udp_socket_recv (traffic dma ?chip) (int 0) u 2 ?r = Inr (int (min (nat 2) (length ?data)), s') \<and>
      bytes_at (mem8 s') u (min (nat 2) (length ?data)) = take (nat 2) ?data \<and>
      sock_inv sockqs squeue s' ts' [] (\<lambda>_. []) \<and> tables_ok s' \<and> rflags s' = rflags ?r \<and> tflag s' 0 = TASK_RUNNING"
    by (rule sleeping_reader_gets_datagram [OF l(1,2) refl a(1,2) g(1) a(3,4) _ _ _ a(6) _ m(1) [folded ip] m(2) a(5) _ _ dma])
      (use rx in simp_all)
  moreover have "min (nat 2) (length ?data) = 2" "take (nat 2) ?data = [104, 104]"
    unfolding p(5) by (simp_all add: bytes_at_def map_replicate_const numeral_eq_Suc)
  ultimately obtain s' ts' where "udp_socket_recv (traffic dma ?chip) 0 u 2 ?r = Inr (2, s')" "bytes_at (mem8 s') u 2 = [104, 104]"
    "sock_inv sockqs squeue s' ts' [] (\<lambda>_. [])" "tflag s' 0 = TASK_RUNNING" by (elim exE conjE) (simp only: int_ops(1) int_ops(3))
  with l(1) show ?thesis by blast
qed

text \<open>A host whose gateway has a known address; a program asks for the name \<open>a\<close> through socket 0, bound to port 53.\<close>

definition asker :: "bytes \<Rightarrow> tcp_state \<Rightarrow> tcp_state" where
  "asker m s = (loaded m (pktbufs s) udp53 (tcp_sockets kernel0) s)\<lparr>netdev := (netdev s)\<lparr>gw_addr := 0x0a000007\<rparr>\<rparr>"

lemma asker_ready:
  assumes h: "holds b as s" "length as \<le> 8"
  shows "may_ask 2 0 0 53 host_mac [b] (\<lambda>_. []) 10 (asker m s)" "mem8 (asker m s) = m" "live (asker m s) = live s"
    "ip_addr (netdev (asker m s)) = 0x0a000002"
proof -
  let ?r = "loaded m (pktbufs s) udp53 (tcp_sockets kernel0) s" and ?n = "(netdev s)\<lparr>gw_addr := 0x0a000007\<rparr>"
  note l = loaded_ok [OF h(1) udp53_ok(1), of m "pktbufs s"] and g = loaded_good [OF h(1), of m "pktbufs s" udp53 "tcp_sockets kernel0"]
  have e: "asker m s = ?r\<lparr>netdev := ?n\<rparr>" by (simp add: asker_def)
  obtain fm mh where s: "s = k_net\<lparr>freemem := fm, memhdrs := mh\<rparr>" using h(1) by (auto simp: holds_def mem_rest_def)
  have w: "wq_inv (asker m s) [b] []" using l(1) by (simp add: sock_inv_def e wq_view)
  have i: "sock_inv sockqs squeue (asker m s) [b] [] (\<lambda>_. [])"
    by (rule socks.inv_frame [OF l(1) w]) (simp_all add: e mem_view, rule socks.get_more, simp)
  have k: "tables_ok (asker m s)" "tick (asker m s) + 5000 \<noteq> END_TICK" using l(2,4) by (simp_all add: e tables_ok_def END_TICK_def)
  have av: "10 \<le> avail ?r" "mem_inv ?r" "nic_ok ?r" using l(3,5,6) h(2) by simp_all
  then have a10: "10 \<le> avail (asker m s)" by (simp add: e mem_view)
  have gd: "sched_good 2 (asker m s)" "0 = current_task (taskctl (asker m s))" using g by (simp_all add: e sched_good_def sched_view tflag_def tprio_def)
  have bd: "udp_bound (asker m s) 53 0" "\<forall>j. udp_bound (asker m s) 53 j \<longrightarrow> j = 0" using udp53_bound by (simp_all add: e udp_bound_def)
  have raw: "no_raw_reader IP_HDR_PROTO_UDP (asker m s)"
    using k_wq_socks(1) by (simp add: no_raw_reader_def asker_def loaded_def s k_net_def wire_def kernel0_def RAW_SOCKET_USED_def)
  show "mem8 (asker m s) = m" "live (asker m s) = live s" using l(7) by (simp_all add: e mem_view)
  show "ip_addr (netdev (asker m s)) = 0x0a000002" by (simp add: asker_def s k_net_def wire_fields)
  have d: "tx_next (asker m s) = blank_desc" "\<not> owned blank_desc" "dma_ok blank_desc"
    by (simp_all add: asker_def loaded_def s tx_next_def k_net_def wire_fields owned_def dma_ok_def desc_addr_def blank_desc_def MEM_START_def)
  have "tx_ready 4 (asker m s)" using av by (simp add: e loaded_def tx_ready_def mem_view nic_ok_def)
  moreover have "find_mac_addr (nexthop (netdev (asker m s)) RESOLVER_IP) (asker m s) = Some host_mac"
    by (simp add: asker_def loaded_def s k_net_def wire_def nexthop_def find_mac_addr_def RESOLVER_IP_def)
  ultimately have "can_send RESOLVER_IP host_mac (asker m s)" unfolding can_send_def d
    by (simp add: d host_mac_def asker_def loaded_def s k_net_def wire_fields)
  with i k a10 gd bd raw show "may_ask 2 0 0 53 host_mac [b] (\<lambda>_. []) 10 (asker m s)" by (simp add: may_ask_def)
qed

lemma asker_name:
  assumes "holds b as s" "length as \<le> 8" and u: "u \<in> live s"
  shows "cstr (mem8 (asker (wr_list u [97, 0] (\<lambda>_. 0)) s)) u (dotted [[97]])"
    "in_block (asker (wr_list u [97, 0] (\<lambda>_. 0)) s) u (Suc (length (dotted [[97 :: u8]])))"
  using u asker_ready(2,3) [OF assms(1,2)] by (simp_all add: cstr_def bytes_at_def in_block_own)

lemma asker_labels: "[[97 :: u8]] \<noteq> []" "\<forall>l \<in> set [[97 :: u8]]. label_ok l" "length (dotted [[97]]) \<le> 482"
  by (simp_all add: label_ok_def)

text \<open>Nobody answers: the call returns zero.\<close>

theorem kernel_resolver_correct_witness:
  "\<exists>name (s :: tcp_state) s'. cstr (mem8 s) name [97] \<and> resolve_addr_k Inr 0 name s = Inr (0, s') \<and> mem_inv s' \<and> live s \<subseteq> live s'"
proof -
  obtain b as s where h: "holds b as s" "length as = 1" using k_holds [of 1] by auto
  then obtain u where as: "as = [u]" by (auto simp: length_Suc_conv)
  have u: "u \<in> live s" and l8: "length as \<le> 8" using h as by (auto simp: holds_def)
  let ?a = "asker (wr_list u [97, 0] (\<lambda>_. 0)) s" and ?q = "length (question [[97]] DNS_TYPE_A DNS_CLASS_IN)"
  note a = asker_ready [OF h(1) l8, of "wr_list u [97, 0] (\<lambda>_. 0)"] and name = asker_name [OF h(1) l8 u]
  have i: "mem_inv ?a" "2 \<le> avail ?a" "length (dotted [[97 :: u8]]) \<le> 8000" using may_askD(4,13) [OF a(1)] by simp_all
  have len: "strlen u (mem8 ?a) = Some 1" "mem_fits (sizeof_dns_hdr + 1 + 10)"
    using strlen_cstr [OF name(1)] by (simp_all add: mem_fits_def sizeof_dns_hdr_def MEM_GRANULARITY_def)
  from kernel_resolver_correct [OF i(1,2) len, of Inr 0, THEN conjunct1] obtain tx rx s2 where two: "took_two tx rx ?a s2"
    and res: "\<And>qlen ret s3. dns_ask_k Inr 0 tx rx u DNS_TYPE_A (store (dns_hdr_k tx) s2) = Inr (qlen, ret, s3) \<Longrightarrow> mem_inv s3 \<Longrightarrow>
      {tx, rx} \<subseteq> live s3 \<Longrightarrow>
      \<exists>s'. resolve_addr_k Inr 0 u ?a = Inr (if ret = - 1 then 0 else dns_answer rx qlen (mem8 s3), s') \<and> freed tx rx s3 s'"
    by (elim exE conjE) (rule that, assumption, blast)
  note q = query_prepared [OF a(1) two name asker_labels(1,2) i(3)]
  from question_unanswered [OF q(2-5), of rx] obtain s3 s5 where
    s5: "udp_socket_send (int 0) RESOLVER_IP 53 tx (of_nat (length (query [[97]]))) (s2\<lparr>mem8 := wr_list tx (query [[97]]) (mem8 ?a)\<rparr>) = Inr s3"
      "udp_socket_recv Inr (int 0) rx 500 s3 = Inr (- 1, s5)" "mem_inv s5" "{tx, rx} \<union> live ?a \<subseteq> live s5" unfolding q(8) by blast
  have "dns_ask_k Inr (int 0) tx rx u DNS_TYPE_A (store (dns_hdr_k tx) s2) = Inr (of_nat ?q, - 1, s5)"
    using s5(1,2) unfolding dns_ask_k_def q(1) option.case prod.case q(15) q(14) [symmetric] by simp
  then have ask: "dns_ask_k Inr 0 tx rx u DNS_TYPE_A (store (dns_hdr_k tx) s2) = Inr (of_nat ?q, - 1, s5)" by simp
  have "{tx, rx} \<subseteq> live s5" using s5(4) by blast
  from res [OF ask s5(3) this] obtain s' where s': "resolve_addr_k Inr 0 u ?a = Inr (0, s')" "freed tx rx s5 s'" by auto
  have "live ?a \<subseteq> live s'" "mem_inv s'" using s'(2) s5(4) q(12,13) by (auto simp: freed_def)
  moreover have "cstr (mem8 ?a) u [97]" using name(1) by simp
  ultimately show ?thesis using s'(1) by blast
qed

text \<open>A name server and a card: whatever is asked, the card stores the frame of one reply in the current receive buffer.\<close>

definition example_record :: dns_record where
  "example_record = \<lparr>rr_off = 12, rr_type = 1, rr_class = 1, rr_ttl = [0, 0, 0, 1], rr_data = [93, 184, 216, 34]\<rparr>"

definition dns_reply :: "u8 list" where
  "dns_reply = dns_header 777 0x8180 1 1 0 0 @ question [[97]] DNS_TYPE_A DNS_CLASS_IN @ rr_enc example_record @ []"

lemma dns_reply_facts: "length dns_reply = 35" "rr_ok example_record"
  "(if length (rr_data example_record) = 4 then of_be32 (rr_data example_record) else 0) = 0x5db8d822"
  by (simp_all add: dns_reply_def example_record_def dns_header_def question_def name_enc_def label_enc_def rr_enc_def rr_ok_def of_be32_def)

lemma dns_server:
  assumes h: "holds b as s" "length as \<le> 8" and u: "u \<in> live s"
  shows "\<exists>m e dmac smac len ttl sip sport d (dma :: tcp_state \<Rightarrow> tcp_state). ip_frame m e dmac smac len ttl IP_HDR_PROTO_UDP sip 0x0a000002 \<and>
           udp_ok m (e + 34) sport 53 dns_reply \<and> (\<forall>s1. nic_ok s1 \<longrightarrow> stored (bytes_at m e (42 + length dns_reply)) d s1 (dma s1))"
proof -
  let ?p = "peer (wr_list u dns_reply (\<lambda>_. 0)) s" and ?d = "blank_desc\<lparr>opts1 := 81, low_buf := 0x200000\<rparr>"
  note len = dns_reply_facts(1)
  have p: "can_send 0x0a000002 [2, 0, 0, 0, 0, 2] ?p" "length (udp_sockets ?p) = UDP_SOCKET_COUNT" "0 < UDP_SOCKET_COUNT" "in_block ?p u 35"
    "bytes_at (mem8 ?p) u 35 = dns_reply"
    using peer_sends [OF h(1), of "wr_list u dns_reply (\<lambda>_. 0)"] h(2) kernel0_socks u bytes_wr_list [of dns_reply u "\<lambda>_. 0"]
    by (simp_all add: empty_socks_def UDP_SOCKET_COUNT_def in_block_own len)
  let ?f = "desc_addr (tx_next ?p)"
  from udp_sent [OF p(1,3,2,4), of 53] obtain m where
    m: "ip_frame m ?f [2, 0, 0, 0, 0, 2] (hw_addr (netdev ?p)) (of_nat (28 + 35)) 64 IP_HDR_PROTO_UDP (ip_addr (netdev ?p)) 0x0a000002"
      "udp_ok m (?f + 34) (us_port (udp_sockets ?p ! 0)) 53 dns_reply" unfolding p(5) by auto
  let ?F = "bytes_at m ?f (42 + length dns_reply)"
  define dma where "dma = (\<lambda>s1 :: tcp_state. s1\<lparr>mem8 := wr_list 0x200000 ?F (mem8 s1),
    nic := (nic s1)\<lparr>rx_ring := (rx_ring (nic s1))[unat (cur_rx (nic s1)) := ?d]\<rparr>\<rparr>)"
  have "stored ?F ?d s1 (dma s1)" if n: "nic_ok s1" for s1
  proof -
    have "nic_ok (dma s1)" "?d = rx_ring (nic (dma s1)) ! unat (cur_rx (nic (dma s1)))" using n by (simp_all add: dma_def nic_ok_def)
    moreover have "has_frame ?d" "frame_len ?d = of_nat (length ?F)"
      by (simp_all add: has_frame_def owned_def dma_ok_def desc_addr_def DescOwn_def blank_desc_def MEM_START_def frame_len_def len)
    moreover have b: "desc_addr ?d = 0x200000" by (simp add: desc_addr_def blank_desc_def)
    have "bytes_at (mem8 (dma s1)) (desc_addr ?d) (length ?F) = ?F" unfolding b dma_def using bytes_wr_list [of ?F] by (simp add: len)
    moreover have "\<forall>x. x \<notin> region (desc_addr ?d) (length ?F) \<longrightarrow> mem8 (dma s1) x = mem8 s1 x" unfolding b dma_def by (auto simp: wr_list_frame)
    moreover have "\<exists>m n. dma s1 = s1\<lparr>mem8 := m, nic := n\<rparr>" unfolding dma_def by blast
    ultimately show ?thesis unfolding stored_def by blast
  qed
  with m show ?thesis by blast
qed

theorem kernel_resolves_name_witness:
  "\<exists>env name (s :: tcp_state) s'. cstr (mem8 s) name [97] \<and> resolve_addr_k env 0 name s = Inr (0x5db8d822, s') \<and> live s \<subseteq> live s'"
proof -
  obtain b as s where h: "holds b as s" "length as = 1" using k_holds [of 1] by auto
  then obtain u where as: "as = [u]" by (auto simp: length_Suc_conv)
  have u: "u \<in> live s" and l8: "length as \<le> 8" using h as by (auto simp: holds_def)
  let ?a = "asker (wr_list u [97, 0] (\<lambda>_. 0)) s" and ?chip = "\<lambda>k :: nat. if k = 0 then 0 else 1 :: u8"
  note a = asker_ready [OF h(1) l8, of "wr_list u [97, 0] (\<lambda>_. 0)"] and name = asker_name [OF h(1) l8 u]
  from dns_server [OF h(1) l8 u] obtain m e dmac smac len ttl sip sport d and dma :: "tcp_state \<Rightarrow> tcp_state" where
    fr: "ip_frame m e dmac smac len ttl IP_HDR_PROTO_UDP sip (ip_addr (netdev ?a))" "udp_ok m (e + 34) sport 53 dns_reply"
    and st: "\<forall>s1. nic_ok s1 \<longrightarrow> stored (bytes_at m e (42 + length dns_reply)) d s1 (dma s1)" unfolding a(4) by blast
  have sv: "answers 0 0 53 host_mac [[97]] ?a (bytes_at m e (42 + length dns_reply)) d dma" using st by (simp add: answers_def)
  have k: "length (dotted [[97 :: u8]]) \<le> 8000" "length dns_reply \<le> 500" "?chip 0 AND RxBufEmpty = 0" "?chip 1 AND RxBufEmpty \<noteq> 0"
    by (simp_all add: dns_reply_facts(1) RxBufEmpty_def)
  from kernel_resolves_name [OF a(1) name asker_labels(1,2) k(1) dns_reply_def dns_reply_facts(2) k(2) fr k(3,4) sv]
  obtain s' where "resolve_addr_k (traffic dma ?chip) (int 0) u ?a = Inr (0x5db8d822, s')" "live ?a \<subseteq> live s'"
    unfolding dns_reply_facts(3) by blast
  moreover have "cstr (mem8 ?a) u [97]" using name(1) by simp
  ultimately show ?thesis unfolding int_ops(1) by blast
qed

theorem resolver_finds_address_witness:
  "\<exists>env l name (s :: tcp_state) s'. cstr (mem8 s) name [97] \<and> resolve_addr env l 0 name s = Inr (0x5db8d822, s') \<and> tables_ok s'"
proof -
  obtain b as s where h: "holds b as s" "length as = 3" using k_holds [of 3] by auto
  then obtain u v w where as: "as = [u, v, w]" by (auto simp: length_Suc_conv numeral_3_eq_3)
  have u: "u \<in> live s" "v \<in> live s" "w \<in> live s" "u \<noteq> v" "u \<noteq> w" and l8: "length as \<le> 8" using h as by (auto simp: holds_def)
  let ?a = "asker (wr_list u [97, 0] (\<lambda>_. 0)) s" and ?chip = "\<lambda>k :: nat. if k = 0 then 0 else 1 :: u8"
  let ?l = "\<lparr>dl_txbuf = v, dl_rxbuf = w, dl_arpa = 0\<rparr>"
  note a = asker_ready [OF h(1) l8, of "wr_list u [97, 0] (\<lambda>_. 0)"] and name = asker_name [OF h(1) l8 u(1)]
  from dns_server [OF h(1) l8 u(1)] obtain m e dmac smac len ttl sip sport d and dma :: "tcp_state \<Rightarrow> tcp_state" where
    fr: "ip_frame m e dmac smac len ttl IP_HDR_PROTO_UDP sip (ip_addr (netdev ?a))" "udp_ok m (e + 34) sport 53 dns_reply"
    and st: "\<forall>s1. nic_ok s1 \<longrightarrow> stored (bytes_at m e (42 + length dns_reply)) d s1 (dma s1)" unfolding a(4) by blast
  have sv: "answers 0 0 53 host_mac [[97]] ?a (bytes_at m e (42 + length dns_reply)) d dma" using st by (simp add: answers_def)
  have k: "length dns_reply \<le> 500" "?chip 0 AND RxBufEmpty = 0" "?chip 1 AND RxBufEmpty \<noteq> 0"
    by (simp_all add: dns_reply_facts(1) RxBufEmpty_def)
  have lv: "u \<in> live_of (memhdrs s)" "v \<in> live_of (memhdrs s)" "w \<in> live_of (memhdrs s)" using u(1-3) by (simp_all add: mem_view)
  have "region v 500 \<inter> region u 2 = {}" "region w 500 \<inter> region u 2 = {}"
    using live_regions_disjoint [OF lv(2,1), of 500 2] live_regions_disjoint [OF lv(3,1), of 500 2] u(4,5) by auto
  then have ap: "(region (dl_txbuf ?l) 500 \<union> region (dl_rxbuf ?l) 500) \<inter> region u (Suc (length (dotted [[97 :: u8]]))) = {}"
    by (auto simp: numeral_2_eq_2)
  have bl: "in_block ?a (dl_txbuf ?l) 500" "in_block ?a (dl_rxbuf ?l) 500" using u(2,3) a(3) by (simp_all add: in_block_own)
  have m8: "may_ask 2 0 0 53 host_mac [b] (\<lambda>_. []) 8 ?a" using a(1) by (simp add: may_ask_def)
  from resolver_finds_address [OF m8 name(1) asker_labels bl ap dns_reply_def dns_reply_facts(2) k(1) fr k(2,3) sv]
  obtain s' where "resolve_addr (traffic dma ?chip) ?l (int 0) u ?a = Inr (0x5db8d822, s')" "tables_ok s'"
    unfolding dns_reply_facts(3) by blast
  moreover have "cstr (mem8 ?a) u [97]" using name(1) by simp
  ultimately show ?thesis unfolding int_ops(1) by blast
qed

end
